(* ===== verification/Prelude.thy ===== *)
theory Prelude
  imports Main "HOL-Library.Word" "HOL-Library.List_Lexorder" "HOL-Library.Sublist"
    "HOL-Library.Monad_Syntax"
begin

unbundle bit_operations_syntax

text \<open>
  Shared vocabulary of the development: byte strings, the error values of the repository,
  and generic facts on lists, maps and words that the component theories use.

  Go's \<open>[]byte\<close> and \<open>string\<close> are both byte sequences here (\<open>bytes\<close>);
  \<open>List_Lexorder\<close> orders them as \<open>bytes.Compare\<close> does.  Go's \<open>int64\<close>,
  \<open>uint64\<close>, \<open>int32\<close> and \<open>uint32\<close> are words, read with \<open>sint\<close> or
  \<open>unat\<close>.  A Go function that returns \<open>(T, error)\<close> has type \<open>go_error + 'a\<close>;
  one that may panic has an \<open>option\<close> around its result, with \<open>None\<close> the panic.
\<close>

type_synonym byte = "8 word"
type_synonym bytes = "8 word list"

named_theorems key_simps "layout of physical keys"
named_theorems view_simps "how operations act on the stored map"
named_theorems frame_simps "parts of the state an operation leaves alone"

section \<open>Errors\<close>

text \<open>
  The sentinel errors of \<open>errors.go\<close>, \<open>internal/encoding/errors.go\<close> and
  \<open>internal/writequeue/queue.go\<close>; \<open>EngineError n\<close> is an error value that the storage
  engine or the compression library returned; \<open>ErrorMsg\<close> is \<open>errors.New\<close> or
  \<open>fmt.Errorf\<close> without a wrapped error, \<open>ErrorWrap\<close> is \<open>fmt.Errorf\<close> with
  \<open>%w\<close>.
\<close>

datatype go_error =
    ErrDBClosed | ErrInvalidKey | ErrWriteThrottled | ErrDuplicateKey
  | ErrMalformedKey
  | ErrStopped | ErrFull | ErrMemExceeded
  | EngineError nat
  | ErrorMsg string
  | ErrorWrap string go_error

text \<open>\<open>errors.Is\<close>: equality with the target, looked for along the chain of wrapped errors.\<close>

fun errors_is :: "go_error \<Rightarrow> go_error \<Rightarrow> bool" where
  "errors_is (ErrorWrap m e) target = (ErrorWrap m e = target \<or> errors_is e target)"
| "errors_is e target = (e = target)"

section \<open>Lists\<close>

lemma take_length_append [simp]: "length xs = n \<Longrightarrow> take n (xs @ ys) = xs"
  by simp

lemma drop_length_append [simp]: "length xs = n \<Longrightarrow> drop n (xs @ ys) = ys"
  by simp

lemma less_append_same [simp]: "xs @ ys < xs @ zs \<longleftrightarrow> ys < (zs :: 'a::linorder list)"
  by (induction xs) auto

lemma le_append_same [simp]: "xs @ ys \<le> xs @ zs \<longleftrightarrow> ys \<le> (zs :: 'a::linorder list)"
  by (induction xs) auto

lemma less_append_equal_length:
  fixes xs ys :: "'a::linorder list"
  assumes "length xs = length ys"
  shows "xs @ us < ys @ vs \<longleftrightarrow> xs < ys \<or> xs = ys \<and> us < vs"
  using assms by (induction xs ys rule: list_induct2) auto

lemma prefix_less_append: "xs \<le> xs @ (ys :: 'a::linorder list)"
  by (induction xs) auto

lemma less_append_strict: "ys \<noteq> [] \<Longrightarrow> xs < xs @ (ys :: 'a::linorder list)"
  by (induction xs) (auto simp: neq_Nil_conv)

lemma distinct_map_fst_lookup:
  "distinct (map fst xs) \<Longrightarrow> map_of xs k = Some v \<longleftrightarrow> (k, v) \<in> set xs"
  by (simp add: map_of_eq_Some_iff)

section \<open>Maps\<close>

lemma map_upd_Some_iff: "(m(k \<mapsto> v)) k' = Some v' \<longleftrightarrow> (if k' = k then v' = v else m k' = Some v')"
  by auto

lemma map_del_Some_iff: "(m(k := None)) k' = Some v' \<longleftrightarrow> k' \<noteq> k \<and> m k' = Some v'"
  by auto

lemma option_bind_Some_iff [simp]: "Option.bind x f = Some y \<longleftrightarrow> (\<exists>a. x = Some a \<and> f a = Some y)"
  by (cases x) auto

section \<open>Words\<close>

lemma unat_word_of_nat_mod: "unat (word_of_nat n :: 'a::len word) = n mod 2 ^ LENGTH('a)"
  by (simp add: unat_of_nat)

lemma word_of_nat_eq_iff_mod:
  "(word_of_nat a :: 'a::len word) = word_of_nat b \<longleftrightarrow> a mod 2 ^ LENGTH('a) = b mod 2 ^ LENGTH('a)"
  by (metis unat_of_nat unsigned_word_eqI)

lemma unat32_of_nat: "n < 4294967296 \<Longrightarrow> unat (word_of_nat n :: 32 word) = n"
  by (simp add: unat_of_nat)

lemma unat64_of_nat: "n < 18446744073709551616 \<Longrightarrow> unat (word_of_nat n :: 64 word) = n"
  by (simp add: unat_of_nat)

lemma unat_less_pow: "unat (w :: 'a::len word) < 2 ^ LENGTH('a)"
  by (rule unsigned_less)

text \<open>Flipping the sign bit turns the signed order into the unsigned one.\<close>

lemma flip_top_add:
  fixes w :: "'a::len word"
  shows "flip_bit (LENGTH('a) - 1) w = w + 2 ^ (LENGTH('a) - 1)"
proof -
  let ?p = "(2::'a word) ^ (LENGTH('a) - 1)"
  have "?p + ?p = 2 ^ LENGTH('a)"
    by (metis One_nat_def Suc_pred len_gt_0 mult_2 power_Suc)
  then have "- ?p = ?p" by (simp add: neg_eq_iff_add_eq_0)
  then have "w - ?p = w + ?p" by (metis diff_conv_add_uminus)
  then show ?thesis
    by (simp add: flip_bit_eq_if set_bit_eq unset_bit_eq)
qed

lemma uint_top: "uint ((2::'a::len word) ^ (LENGTH('a) - 1)) = 2 ^ (LENGTH('a) - 1)"
  by transfer (simp add: take_bit_of_exp)
lemma uint_flip_top:
  fixes w :: "'a::len word"
  shows "uint (flip_bit (LENGTH('a) - 1) w) = sint w + 2 ^ (LENGTH('a) - 1)"
proof -
  have "sint w = take_bit (LENGTH('a)) (uint w + 2 ^ (LENGTH('a) - 1)) - 2 ^ (LENGTH('a) - 1)"
    by (simp add: sint_uint signed_take_bit_eq_take_bit_shift)
  moreover have "uint (w + 2 ^ (LENGTH('a) - 1)) = take_bit (LENGTH('a)) (uint w + 2 ^ (LENGTH('a) - 1))"
    by (simp add: uint_word_ariths take_bit_eq_mod uint_top [simplified])
  ultimately show ?thesis using flip_top_add [of w] by simp
qed

end
