(* ===== verification/GoBytes.thy ===== *)
theory GoBytes
  imports Prelude
begin

text \<open>
  The parts of Go's standard library that the repository's own code is written in:
  \<open>encoding/binary\<close> (big and little endian integers, unsigned varints), writes through a
  slice of a fixed buffer, \<open>hash/fnv\<close> and \<open>strings.Contains\<close>.  Slice expressions and
  the \<open>binary\<close> accessors panic out of range; here they return \<open>None\<close>.
\<close>

section \<open>Fixed-width integers\<close>

text \<open>The \<open>n\<close> low bytes of a number, most significant or least significant first.\<close>

fun be_enc :: "nat \<Rightarrow> nat \<Rightarrow> bytes" where
  "be_enc 0 v = []"
| "be_enc (Suc n) v = be_enc n (v div 256) @ [word_of_nat v]"

fun le_enc :: "nat \<Rightarrow> nat \<Rightarrow> bytes" where
  "le_enc 0 v = []"
| "le_enc (Suc n) v = word_of_nat v # le_enc n (v div 256)"

definition be_dec :: "bytes \<Rightarrow> nat" where
  "be_dec bs = foldl (\<lambda>acc b. acc * 256 + unat b) 0 bs"

fun le_dec :: "bytes \<Rightarrow> nat" where
  "le_dec [] = 0"
| "le_dec (b # bs) = unat b + 256 * le_dec bs"

lemma length_be_enc [simp]: "length (be_enc n v) = n"
  by (induction n arbitrary: v) auto

lemma length_le_enc [simp]: "length (le_enc n v) = n"
  by (induction n arbitrary: v) auto

lemma be_dec_snoc [simp]: "be_dec (bs @ [b]) = be_dec bs * 256 + unat b"
  by (simp add: be_dec_def)

lemma be_dec_Nil [simp]: "be_dec [] = 0"
  by (simp add: be_dec_def)

lemma unat_byte_of_nat [simp]: "unat (word_of_nat v :: 8 word) = v mod 256"
  by (simp add: unat_of_nat)

lemma div_mod_pow256: "v div 256 mod 256 ^ n * 256 + v mod 256 = v mod (256 ^ Suc n :: nat)"
  by (metis div_mult_mod_eq mod_mult2_eq mult.commute power_Suc)

lemma be_dec_enc [simp]: "be_dec (be_enc n v) = v mod 256 ^ n"
  by (induction n arbitrary: v) (auto simp: div_mod_pow256 simp del: power_Suc)

lemma le_dec_enc [simp]: "le_dec (le_enc n v) = v mod 256 ^ n"
proof (induction n arbitrary: v)
  case (Suc n)
  have "v mod 256 + 256 * (v div 256 mod 256 ^ n) = v mod 256 ^ Suc n"
    using div_mod_pow256 [of v n] by (simp add: algebra_simps)
  with Suc show ?case by simp
qed simp

lemma be_dec_bound: "be_dec bs < 256 ^ length bs"
proof (induction bs rule: rev_induct)
  case (snoc b bs)
  have "unat b < 256" using unat_less_pow [of b] by simp
  with snoc show ?case by simp
qed simp

lemma be_enc_dec: "length bs = n \<Longrightarrow> be_enc n (be_dec bs) = bs"
proof (induction n arbitrary: bs)
  case (Suc n)
  then obtain cs b where bs: "bs = cs @ [b]" and len: "length cs = n"
    by (metis length_Suc_conv_rev)
  have "unat b < 256" using unat_less_pow [of b] by simp
  then have "be_dec bs div 256 = be_dec cs" by (simp add: bs)
  moreover have "(word_of_nat (be_dec bs) :: 8 word) = b"
    using \<open>unat b < 256\<close> by (simp only: bs word_unat_eq_iff unat_byte_of_nat be_dec_snoc) simp
  ultimately show ?case using Suc.IH [OF len] by (simp add: bs)
qed simp

lemma be_enc_less_iff:
  "be_enc n a < be_enc n b \<longleftrightarrow> a mod 256 ^ n < b mod 256 ^ n"
proof (induction n arbitrary: a b)
  case (Suc n)
  let ?x = "a div 256 mod 256 ^ n" and ?y = "b div 256 mod 256 ^ n"
  have eq: "be_enc n (a div 256) = be_enc n (b div 256) \<longleftrightarrow> ?x = ?y"
    by (metis be_dec_enc be_enc_dec length_be_enc)
  have lt: "(word_of_nat a :: 8 word) < word_of_nat b \<longleftrightarrow> a mod 256 < b mod 256"
    by (simp add: word_less_nat_alt)
  have "?x * 256 + a mod 256 < ?y * 256 + b mod 256
      \<longleftrightarrow> ?x < ?y \<or> ?x = ?y \<and> a mod 256 < b mod 256"
    using mod_less_divisor [of 256 a] mod_less_divisor [of 256 b] by arith
  then show ?case
    by (simp add: less_append_equal_length eq lt Suc.IH div_mod_pow256 del: power_Suc)
qed simp

subsection \<open>The accessors of \<open>binary.BigEndian\<close> and \<open>binary.LittleEndian\<close>\<close>

definition put_be64 :: "64 word \<Rightarrow> bytes" where "put_be64 w = be_enc 8 (unat w)"
definition put_be32 :: "32 word \<Rightarrow> bytes" where "put_be32 w = be_enc 4 (unat w)"
definition put_le64 :: "64 word \<Rightarrow> bytes" where "put_le64 w = le_enc 8 (unat w)"
definition put_le32 :: "32 word \<Rightarrow> bytes" where "put_le32 w = le_enc 4 (unat w)"

definition be64 :: "bytes \<Rightarrow> 64 word option" where
  "be64 bs = (if length bs < 8 then None else Some (word_of_nat (be_dec (take 8 bs))))"
definition be32 :: "bytes \<Rightarrow> 32 word option" where
  "be32 bs = (if length bs < 4 then None else Some (word_of_nat (be_dec (take 4 bs))))"
definition le64 :: "bytes \<Rightarrow> 64 word option" where
  "le64 bs = (if length bs < 8 then None else Some (word_of_nat (le_dec (take 8 bs))))"
definition le32 :: "bytes \<Rightarrow> 32 word option" where
  "le32 bs = (if length bs < 4 then None else Some (word_of_nat (le_dec (take 4 bs))))"

lemma length_put [simp]:
  "length (put_be64 w) = 8" "length (put_be32 v) = 4"
  "length (put_le64 w) = 8" "length (put_le32 v) = 4"
  by (simp_all add: put_be64_def put_be32_def put_le64_def put_le32_def)

lemma unat64_mod: "unat (w :: 64 word) mod 18446744073709551616 = unat w"
  using unat_less_pow [of w] by simp

lemma unat32_mod: "unat (w :: 32 word) mod 4294967296 = unat w"
  using unat_less_pow [of w] by simp

lemma be64_put [simp]: "be64 (put_be64 w @ bs) = Some w"
  by (simp add: be64_def put_be64_def unat64_mod)
lemma be32_put [simp]: "be32 (put_be32 w @ bs) = Some w"
  by (simp add: be32_def put_be32_def unat32_mod)
lemma le64_put [simp]: "le64 (put_le64 w @ bs) = Some w"
  by (simp add: le64_def put_le64_def unat64_mod)
lemma le32_put [simp]: "le32 (put_le32 w @ bs) = Some w"
  by (simp add: le32_def put_le32_def unat32_mod)

lemma be64_put_only [simp]: "be64 (put_be64 w) = Some w"
  using be64_put [of w "[]"] by simp
lemma be32_put_only [simp]: "be32 (put_be32 w) = Some w"
  using be32_put [of w "[]"] by simp

lemma put_be64_inj [simp]: "put_be64 a = put_be64 b \<longleftrightarrow> a = b"
  by (metis be64_put_only option.inject)
lemma put_be32_inj [simp]: "put_be32 a = put_be32 b \<longleftrightarrow> a = b"
  by (metis be32_put_only option.inject)
lemma put_le64_inj [simp]: "put_le64 a = put_le64 b \<longleftrightarrow> a = b"
  by (metis le64_put option.inject)

lemma put_be64_less [simp]: "put_be64 a < put_be64 b \<longleftrightarrow> a < b"
  by (simp add: put_be64_def be_enc_less_iff unat64_mod word_less_nat_alt)
lemma put_be32_less [simp]: "put_be32 a < put_be32 b \<longleftrightarrow> a < b"
  by (simp add: put_be32_def be_enc_less_iff unat32_mod word_less_nat_alt)

lemma put_be64_of_dec: "length bs = 8 \<Longrightarrow> put_be64 (word_of_nat (be_dec bs)) = bs"
  using be_dec_bound [of bs] by (simp add: put_be64_def unat_of_nat be_enc_dec)

section \<open>Unsigned varints\<close>

text \<open>\<open>binary.PutUvarint\<close> on the value of a \<open>uint64\<close>.\<close>

fun put_uvarint :: "nat \<Rightarrow> bytes" where
  "put_uvarint x =
     (if x < 128 then [word_of_nat x] else word_of_nat (x mod 128 + 128) # put_uvarint (x div 128))"

declare put_uvarint.simps [simp del]

text \<open>
  \<open>binary.Uvarint\<close>: the value and the number of bytes read, or 0 for a short buffer and a
  negative count for an overflow.  \<open>i\<close> is the index of the head of the remaining buffer.  The
  accumulated value stays below \<open>2 ^ (7 * i)\<close>, so \<open>OR\<close> with the shifted digit is addition.
\<close>

fun uvarint_loop :: "nat \<Rightarrow> nat \<Rightarrow> bytes \<Rightarrow> nat \<times> int" where
  "uvarint_loop i x [] = (0, 0)"
| "uvarint_loop i x (b # bs) =
     (if i = 10 then (0, - int (i + 1))
      else if unat b < 128 then
        (if i = 9 \<and> unat b > 1 then (0, - int (i + 1))
         else (x + unat b * 2 ^ (7 * i), int (i + 1)))
      else uvarint_loop (Suc i) (x + (unat b - 128) * 2 ^ (7 * i)) bs)"

definition uvarint :: "bytes \<Rightarrow> nat \<times> int" where
  "uvarint buf = uvarint_loop 0 0 buf"

lemma put_uvarint_nonempty [simp]: "put_uvarint x \<noteq> []"
  by (subst put_uvarint.simps) simp

lemma uvarint_loop_put:
  assumes "v < 2 ^ (64 - 7 * i)" and "i \<le> 9"
  shows "uvarint_loop i x (put_uvarint v @ rest)
    = (x + v * 2 ^ (7 * i), int i + int (length (put_uvarint v)))"
  using assms
proof (induction v arbitrary: i x rule: put_uvarint.induct)
  case (1 v)
  show ?case
  proof (cases "v < 128")
    case True
    have "v \<le> 1" if "i = 9" using "1.prems" that by simp
    with True "1.prems" show ?thesis by (auto simp: put_uvarint.simps [of v])
  next
    case False
    have i: "i \<le> 8"
    proof (rule ccontr)
      assume "\<not> i \<le> 8"
      with "1.prems" have "i = 9" by simp
      with "1.prems"(1) False show False by simp
    qed
    have split: "2 ^ (64 - 7 * i) = (128 :: nat) * 2 ^ (64 - 7 * Suc i)"
    proof -
      have "64 - 7 * i = 7 + (64 - 7 * Suc i)" using i by simp
      then show ?thesis by (simp only: power_add) simp
    qed
    have "v div 128 < 2 ^ (64 - 7 * Suc i)"
      using "1.prems"(1) unfolding split by (simp add: less_mult_imp_div_less mult.commute)
    moreover have "(x + v mod 128 * 2 ^ (7 * i)) + v div 128 * 2 ^ (7 * Suc i) = x + v * 2 ^ (7 * i)"
    proof -
      have "v div 128 * 2 ^ (7 * Suc i) = (v div 128 * 128) * (2 :: nat) ^ (7 * i)"
        by (simp add: power_add)
      then show ?thesis
        by (metis (no_types) add.assoc add_mult_distrib mod_div_mult_eq)
    qed
    moreover have "unat (word_of_nat (v mod 128 + 128) :: 8 word) = v mod 128 + 128"
      using mod_less_divisor [of 128 v] by (subst unat_byte_of_nat) simp
    ultimately show ?thesis
      using "1.IH" [OF False, of "Suc i" "x + v mod 128 * 2 ^ (7 * i)"] i False
      by (simp add: put_uvarint.simps [of v])
  qed
qed

lemma uvarint_put [simp]:
  "v < 2 ^ 64 \<Longrightarrow> uvarint (put_uvarint v @ rest) = (v, int (length (put_uvarint v)))"
  using uvarint_loop_put [of v 0 0 rest] by (simp add: uvarint_def)

lemma uvarint_loop_read_le: "snd (uvarint_loop i x bs) \<le> int i + int (length bs)"
proof (induction bs arbitrary: i x)
  case (Cons b bs)
  show ?case using Cons.IH [of "Suc i"] by (auto simp: algebra_simps)
qed simp

text \<open>\<open>Uvarint\<close> never claims to have read past the end of the buffer.\<close>

lemma uvarint_read_le: "uvarint bs = (v, n) \<Longrightarrow> nat n \<le> length bs"
  using uvarint_loop_read_le [of 0 0 bs] by (simp add: uvarint_def)

text \<open>The code is prefix-free: two encodings followed by anything agree only when equal.\<close>

lemma put_uvarint_append_eq:
  "put_uvarint a @ us = put_uvarint b @ vs \<longleftrightarrow> a = b \<and> us = vs"
proof (induction a arbitrary: b rule: put_uvarint.induct)
  case (1 a)
  have small: "unat (word_of_nat x :: 8 word) < 128" if "x < 128" for x
    using that by (subst unat_byte_of_nat) simp
  have large: "unat (word_of_nat (x mod 128 + 128) :: 8 word) = x mod 128 + 128" for x
    using mod_less_divisor [of 128 x] by (subst unat_byte_of_nat) simp
  have ab: "a = b \<longleftrightarrow> a mod 128 = b mod 128 \<and> a div 128 = b div 128"
    by (metis mod_div_mult_eq)
  have word_eq: "(word_of_nat x :: 8 word) = word_of_nat y \<longleftrightarrow> x mod 256 = y mod 256" for x y
    by (simp add: word_of_nat_eq_iff_mod)
  consider "a < 128" "b < 128" | "a < 128" "\<not> b < 128" | "\<not> a < 128" "b < 128"
    | "\<not> a < 128" "\<not> b < 128" by blast
  then show ?case
  proof cases
    case 1
    then show ?thesis by (simp add: put_uvarint.simps [of a] put_uvarint.simps [of b] word_eq)
  next
    case 2
    then have "(word_of_nat a :: 8 word) \<noteq> word_of_nat (b mod 128 + 128)"
      using small [of a] large [of b] by (metis not_add_less2)
    with 2 show ?thesis by (auto simp: put_uvarint.simps [of a] put_uvarint.simps [of b])
  next
    case 3
    then have "(word_of_nat (a mod 128 + 128) :: 8 word) \<noteq> word_of_nat b"
      using small [of b] large [of a] by (metis not_add_less2)
    with 3 show ?thesis by (auto simp: put_uvarint.simps [of a] put_uvarint.simps [of b])
  next
    case 4
    have "(word_of_nat (a mod 128 + 128) :: 8 word) = word_of_nat (b mod 128 + 128)
        \<longleftrightarrow> a mod 128 = b mod 128"
      using large [of a] large [of b] by (metis add_right_cancel)
    with 4 "1.IH" [OF 4(1), of "b div 128"] show ?thesis
      by (auto simp: put_uvarint.simps [of a] put_uvarint.simps [of b] ab)
  qed
qed

section \<open>Writes through a slice\<close>

text \<open>
  \<open>binary.LittleEndian.PutUintN(buf[off:], v)\<close> panics when fewer than the needed bytes are
  left; \<open>copy(buf[off:], src)\<close> panics only when \<open>off\<close> is past the end, and copies as much
  as fits; \<open>buf[off] = b\<close> panics out of range.
\<close>

definition put_at :: "bytes \<Rightarrow> nat \<Rightarrow> bytes \<Rightarrow> bytes option" where
  "put_at buf off v =
     (if off + length v \<le> length buf then Some (take off buf @ v @ drop (off + length v) buf)
      else None)"

definition copy_at :: "bytes \<Rightarrow> nat \<Rightarrow> bytes \<Rightarrow> bytes option" where
  "copy_at buf off src =
     (if off \<le> length buf
      then (let n = min (length src) (length buf - off)
            in Some (take off buf @ take n src @ drop (off + n) buf))
      else None)"

definition set_at :: "bytes \<Rightarrow> nat \<Rightarrow> byte \<Rightarrow> bytes option" where
  "set_at buf off b = (if off < length buf then Some (buf[off := b]) else None)"

text \<open>\<open>data[lo:hi]\<close> and \<open>data[lo:]\<close>.\<close>

definition slice :: "bytes \<Rightarrow> nat \<Rightarrow> nat \<Rightarrow> bytes option" where
  "slice data lo hi = (if lo \<le> hi \<and> hi \<le> length data then Some (take (hi - lo) (drop lo data)) else None)"

definition slice_from :: "bytes \<Rightarrow> nat \<Rightarrow> bytes option" where
  "slice_from data lo = (if lo \<le> length data then Some (drop lo data) else None)"

definition byte_at :: "bytes \<Rightarrow> nat \<Rightarrow> byte option" where
  "byte_at data i = (if i < length data then Some (data ! i) else None)"

text \<open>Each write extends the written part of the buffer by its bytes.\<close>

lemma put_at_append:
  "length w = off \<Longrightarrow> length v \<le> length z
    \<Longrightarrow> put_at (w @ z) off v = Some ((w @ v) @ drop (length v) z)"
  by (simp add: put_at_def)

lemma copy_at_append:
  "length w = off \<Longrightarrow> length v \<le> length z
    \<Longrightarrow> copy_at (w @ z) off v = Some ((w @ v) @ drop (length v) z)"
  by (simp add: copy_at_def min_absorb1)

lemma set_at_append:
  "length w = off \<Longrightarrow> 1 \<le> length z \<Longrightarrow> set_at (w @ z) off b = Some ((w @ [b]) @ drop 1 z)"
  by (cases z) (auto simp: set_at_def list_update_append)

section \<open>FNV-1a and substring search\<close>

text \<open>\<open>fnv.New64a\<close>, \<open>Write\<close> and \<open>Sum64\<close>.\<close>

definition fnv64a_offset :: "64 word" where "fnv64a_offset = 14695981039346656037"
definition fnv64a_prime :: "64 word" where "fnv64a_prime = 1099511628211"

definition fnv64a_write :: "64 word \<Rightarrow> bytes \<Rightarrow> 64 word" where
  "fnv64a_write h bs = foldl (\<lambda>h b. (h XOR ucast b) * fnv64a_prime) h bs"

text \<open>\<open>strings.Contains\<close>.\<close>

fun str_contains :: "bytes \<Rightarrow> bytes \<Rightarrow> bool" where
  "str_contains [] sub = (sub = [])"
| "str_contains (b # bs) sub = (take (length sub) (b # bs) = sub \<or> str_contains bs sub)"

lemma str_contains_iff: "str_contains s sub \<longleftrightarrow> sublist sub s"
proof (induction s)
  case (Cons b bs)
  have "take (length sub) (b # bs) = sub \<longleftrightarrow> prefix sub (b # bs)"
    by (metis append_eq_conv_conj prefix_def take_is_prefix)
  with Cons show ?case by (simp add: sublist_Cons_right)
qed auto

text \<open>\<open>string(byte)\<close> conversions of string literals used as keys of the model.\<close>

definition str_bytes :: "string \<Rightarrow> bytes" where
  "str_bytes s = map (\<lambda>c. word_of_nat (of_char c)) s"

section \<open>Numbers as text\<close>

text \<open>\<open>fmt.Sprintf("%d", ...)\<close>; the text of a floating-point number is a parameter.\<close>

fun show_nat :: "nat \<Rightarrow> bytes" where
  "show_nat n = (if n < 10 then [word_of_nat (48 + n)] else show_nat (n div 10) @ [word_of_nat (48 + n mod 10)])"

declare show_nat.simps [simp del]

definition show_int :: "int \<Rightarrow> bytes" where
  "show_int i = (if i < 0 then 0x2D # show_nat (nat (- i)) else show_nat (nat i))"

record float_texts =
  ft_float32 :: "32 word \<Rightarrow> bytes"
  ft_float64 :: "64 word \<Rightarrow> bytes"

text \<open>An instance for examples without floating-point fields.\<close>

definition no_floats :: float_texts where
  "no_floats = \<lparr>ft_float32 = \<lambda>_. str_bytes ''0'', ft_float64 = \<lambda>_. str_bytes ''0''\<rparr>"

end
