(* ===== verification/Encoding.thy ===== *)
theory Encoding
  imports GoBytes
begin

text \<open>
  \<open>internal/encoding/encode.go\<close>: the physical keys.  A data row is
  \<open>[0x00][table hash, 8 bytes][primary key]\<close>, an index row is
  \<open>[0xFF][table hash, 8 bytes][field number, 1 byte][value length, uvarint][field value][primary key]\<close>,
  and a unique index row is the same without the primary key.  A \<open>int64\<close> is a
  \<open>64 word\<close> read with \<open>sint\<close>; a decoder returns \<open>None\<close> where Go would panic.
\<close>

section \<open>Definitions\<close>

definition DataPrefix :: byte where "DataPrefix = 0x00"
definition IndexPrefix :: byte where "IndexPrefix = 0xFF"

definition EncodeOrderedInt64 :: "64 word \<Rightarrow> bytes" where
  "EncodeOrderedInt64 v = put_be64 (v XOR push_bit 63 1)"

definition DecodeOrderedInt64 :: "bytes \<Rightarrow> 64 word option" where
  "DecodeOrderedInt64 b = map_option (\<lambda>w. w XOR push_bit 63 1) (be64 b)"

definition EncodeOrderedUint64 :: "64 word \<Rightarrow> bytes" where
  "EncodeOrderedUint64 v = put_be64 v"

definition DecodeOrderedUint64 :: "bytes \<Rightarrow> 64 word option" where
  "DecodeOrderedUint64 b = be64 b"

definition EncodeOrderedInt32 :: "32 word \<Rightarrow> bytes" where
  "EncodeOrderedInt32 v = put_be32 (v XOR push_bit 31 1)"

definition DecodeOrderedInt32 :: "bytes \<Rightarrow> 32 word option" where
  "DecodeOrderedInt32 b = map_option (\<lambda>w. w XOR push_bit 31 1) (be32 b)"

definition EncodeOrderedUint32 :: "32 word \<Rightarrow> bytes" where
  "EncodeOrderedUint32 v = put_be32 v"

definition DecodeOrderedUint32 :: "bytes \<Rightarrow> 32 word option" where
  "DecodeOrderedUint32 b = be32 b"

definition EncodeKey :: "64 word \<Rightarrow> bytes \<Rightarrow> bytes" where
  "EncodeKey tableHash pk = DataPrefix # put_be64 tableHash @ pk"

definition EncodeIndexKey :: "64 word \<Rightarrow> 32 word \<Rightarrow> bytes \<Rightarrow> bytes \<Rightarrow> bytes" where
  "EncodeIndexKey tableHash fieldNum fieldValue pk =
     [IndexPrefix] @ put_be64 tableHash @ [ucast fieldNum] @ put_uvarint (length fieldValue)
     @ fieldValue @ pk"

definition EncodeIndexPrefix :: "64 word \<Rightarrow> 32 word \<Rightarrow> bytes \<Rightarrow> bytes" where
  "EncodeIndexPrefix tableHash fieldNum fieldValue =
     [IndexPrefix] @ put_be64 tableHash @ [ucast fieldNum] @ put_uvarint (length fieldValue)
     @ fieldValue"

definition EncodeUniqueIndexKey :: "64 word \<Rightarrow> 32 word \<Rightarrow> bytes \<Rightarrow> bytes" where
  "EncodeUniqueIndexKey tableHash fieldNum fieldValue = EncodeIndexPrefix tableHash fieldNum fieldValue"

text \<open>The guards of the two decoders, then the slices in the order the code takes them.\<close>

definition DecodeKey :: "bytes \<Rightarrow> (go_error + 64 word \<times> bytes) option" where
  "DecodeKey raw =
     (if length raw < 9 \<or> raw ! 0 \<noteq> DataPrefix then Some (Inl ErrMalformedKey)
      else do {
        h \<leftarrow> slice raw 1 9;
        tableHash \<leftarrow> be64 h;
        pk \<leftarrow> slice_from raw 9;
        Some (Inr (tableHash, pk))
      })"

definition DecodeIndexKey ::
  "bytes \<Rightarrow> (go_error + 64 word \<times> 32 word \<times> bytes \<times> bytes) option" where
  "DecodeIndexKey raw =
     (if length raw < 10 \<or> raw ! 0 \<noteq> IndexPrefix then Some (Inl ErrMalformedKey)
      else do {
        h \<leftarrow> slice raw 1 9;
        tableHash \<leftarrow> be64 h;
        fb \<leftarrow> byte_at raw 9;
        rest \<leftarrow> slice_from raw 10;
        (let (vLen, nVal) = uvarint rest in
         if nVal \<le> 0 then Some (Inl ErrMalformedKey)
         else
           (let pos = 10 + nat nVal in
            if length raw - pos < vLen then Some (Inl ErrMalformedKey)
            else do {
              fieldValue \<leftarrow> slice raw pos (pos + vLen);
              pk \<leftarrow> slice_from raw (pos + vLen);
              Some (Inr (tableHash, ucast fb, fieldValue, pk))
            }))
      })"

section \<open>Order-preserving integers\<close>

lemma flip64: "w XOR push_bit 63 1 = flip_bit 63 (w :: 64 word)"
  by (simp only: flip_bit_eq_xor)

lemma flip32: "w XOR push_bit 31 1 = flip_bit 31 (w :: 32 word)"
  by (simp only: flip_bit_eq_xor)

lemma uint_flip64: "uint (w XOR push_bit 63 1) = sint w + 2 ^ 63" for w :: "64 word"
  using uint_flip_top [of w] by (simp add: flip64 del: push_bit_of_1)

lemma uint_flip32: "uint (w XOR push_bit 31 1) = sint w + 2 ^ 31" for w :: "32 word"
  using uint_flip_top [of w] by (simp add: flip32 del: push_bit_of_1)

lemma flip64_less:
  "a XOR push_bit 63 1 < b XOR push_bit 63 1 \<longleftrightarrow> sint a < sint b" for a b :: "64 word"
  by (simp only: word_less_def uint_flip64) simp

lemma flip32_less:
  "a XOR push_bit 31 1 < b XOR push_bit 31 1 \<longleftrightarrow> sint a < sint b" for a b :: "32 word"
  by (simp only: word_less_def uint_flip32) simp

lemma length_EncodeOrdered [simp]:
  "length (EncodeOrderedInt64 a) = 8" "length (EncodeOrderedUint64 a) = 8"
  "length (EncodeOrderedInt32 b) = 4" "length (EncodeOrderedUint32 b) = 4"
  by (simp_all add: EncodeOrderedInt64_def EncodeOrderedUint64_def EncodeOrderedInt32_def
      EncodeOrderedUint32_def)

lemma xor_xor_same: "(w XOR c) XOR c = (w :: 'a::len word)"
  by (simp add: xor.assoc)

lemma DecodeOrderedInt64_Encode [simp]: "DecodeOrderedInt64 (EncodeOrderedInt64 v) = Some v"
  by (simp add: DecodeOrderedInt64_def EncodeOrderedInt64_def xor_xor_same del: push_bit_of_1)

lemma DecodeOrderedInt32_Encode [simp]: "DecodeOrderedInt32 (EncodeOrderedInt32 v) = Some v"
  by (simp add: DecodeOrderedInt32_def EncodeOrderedInt32_def xor_xor_same del: push_bit_of_1)

lemma EncodeOrderedInt64_inj [simp]: "EncodeOrderedInt64 a = EncodeOrderedInt64 b \<longleftrightarrow> a = b"
  by (metis DecodeOrderedInt64_Encode option.inject)

lemma EncodeOrderedInt64_less: "EncodeOrderedInt64 a < EncodeOrderedInt64 b \<longleftrightarrow> sint a < sint b"
  by (simp add: EncodeOrderedInt64_def flip64_less del: push_bit_of_1)

section \<open>Layout of the keys\<close>

lemma index_key_prefix: "EncodeIndexKey h f v pk = EncodeIndexPrefix h f v @ pk"
  by (simp add: EncodeIndexKey_def EncodeIndexPrefix_def)

lemma EncodeKey_not_Nil [simp]: "EncodeKey h pk \<noteq> []"
  by (simp add: EncodeKey_def)

lemma EncodeIndexPrefix_not_Nil [simp]: "EncodeIndexPrefix h f v \<noteq> []"
  by (simp add: EncodeIndexPrefix_def)

lemma EncodeKey_eq [key_simps]: "EncodeKey h pk = EncodeKey h' pk' \<longleftrightarrow> h = h' \<and> pk = pk'"
  by (auto simp: EncodeKey_def)

lemma EncodeKey_append [key_simps]: "EncodeKey h pk @ xs = EncodeKey h (pk @ xs)"
  by (simp add: EncodeKey_def)

lemma EncodeKey_less [key_simps]: "EncodeKey h a < EncodeKey h b \<longleftrightarrow> a < b"
  by (simp add: EncodeKey_def)

lemma table_prefix [key_simps]: "prefix (EncodeKey h []) (EncodeKey h' pk) \<longleftrightarrow> h = h'"
  by (auto simp: EncodeKey_def prefix_def)

lemma index_prefix_append_eq:
  "EncodeIndexPrefix h f v @ us = EncodeIndexPrefix h' f' v' @ us'
    \<longleftrightarrow> h = h' \<and> (ucast f :: byte) = ucast f' \<and> v = v' \<and> us = us'"
  by (auto simp: EncodeIndexPrefix_def put_uvarint_append_eq)

lemma index_prefix_eq [key_simps]:
  "EncodeIndexPrefix h f v = EncodeIndexPrefix h' f' v'
    \<longleftrightarrow> h = h' \<and> (ucast f :: byte) = ucast f' \<and> v = v'"
  using index_prefix_append_eq [of h f v "[]" h' f' v' "[]"] by simp

lemma data_index_distinct [key_simps]:
  "EncodeKey h pk \<noteq> EncodeIndexPrefix h' f v @ us" "EncodeIndexPrefix h' f v @ us \<noteq> EncodeKey h pk"
  "EncodeKey h pk \<noteq> EncodeIndexPrefix h' f v" "EncodeIndexPrefix h' f v \<noteq> EncodeKey h pk"
  by (simp_all add: EncodeKey_def EncodeIndexPrefix_def DataPrefix_def IndexPrefix_def)

lemma data_prefix_not_index [key_simps]: "\<not> prefix (EncodeKey h []) (EncodeIndexPrefix h' f v @ us)"
  by (auto simp: EncodeKey_def EncodeIndexPrefix_def prefix_def DataPrefix_def IndexPrefix_def)

section \<open>Properties\<close>

text \<open>
  Data keys round-trip: decoding the key of any table hash and primary key returns exactly
  them, and a byte string that decodes is the encoding of what it decodes to.
\<close>

theorem data_key_roundtrip:
  "DecodeKey (EncodeKey h pk) = Some (Inr (h, pk))
   \<and> (DecodeKey raw = Some (Inr (h, pk)) \<longleftrightarrow> raw = EncodeKey h pk)"
proof -
  have dec: "DecodeKey (EncodeKey h pk) = Some (Inr (h, pk))" for h pk
    by (simp add: DecodeKey_def EncodeKey_def slice_def slice_from_def)
  have "raw = EncodeKey h pk" if "DecodeKey raw = Some (Inr (h, pk))"
  proof -
    from that have len: "9 \<le> length raw" and tag: "raw ! 0 = DataPrefix"
      and pk: "pk = drop 9 raw" and h: "h = word_of_nat (be_dec (take 8 (drop 1 raw)))"
      by (auto simp: DecodeKey_def slice_def slice_from_def be64_def split: if_splits)
    have "raw = raw ! 0 # take 8 (drop 1 raw) @ drop 9 raw"
      using len by (cases raw) (auto simp: append_take_drop_id)
    then show ?thesis
      using len by (simp add: EncodeKey_def tag pk h put_be64_of_dec)
  qed
  with dec show ?thesis by blast
qed

text \<open>
  C33. Index keys round-trip: the length prefix separates the field value from the primary key
  whatever bytes they hold.  The field number comes back reduced to its low byte.
\<close>

theorem index_key_roundtrip:
  assumes "length v < 2 ^ 64"
  shows "DecodeIndexKey (EncodeIndexKey h f v pk) = Some (Inr (h, ucast (ucast f :: byte), v, pk))"
proof -
  let ?hd = "IndexPrefix # put_be64 h @ [ucast f]" and ?u = "put_uvarint (length v)"
  have raw: "EncodeIndexKey h f v pk = ?hd @ ?u @ v @ pk"
    by (simp add: EncodeIndexKey_def)
  have tail: "drop (10 + length ?u + k) (?hd @ ?u @ v @ pk) = drop k (v @ pk)" for k
  proof -
    have "drop (10 + length ?u + k) (?hd @ ?u @ v @ pk) = drop k (drop (length (?hd @ ?u)) ((?hd @ ?u) @ v @ pk))"
      by (simp add: add.commute del: append.simps)
    then show ?thesis by (simp only: drop_length_append)
  qed
  have nth9: "(put_be64 h @ ucast f # xs) ! 8 = (ucast f :: byte)" for xs
    by (simp add: nth_append)
  have slices: "slice_from (?hd @ ?u @ v @ pk) 10 = Some (?u @ v @ pk)"
    "slice (?hd @ ?u @ v @ pk) (10 + length ?u) (10 + length ?u + length v) = Some v"
    "slice_from (?hd @ ?u @ v @ pk) (10 + length ?u + length v) = Some pk"
    "slice (?hd @ ?u @ v @ pk) 1 9 = Some (put_be64 h)"
    "byte_at (?hd @ ?u @ v @ pk) 9 = Some (ucast f)"
    using tail [of 0] tail [of "length v"]
    by (simp_all add: slice_def slice_from_def byte_at_def nth9)
  show ?thesis
    using assms unfolding raw DecodeIndexKey_def slices
    by (simp add: Let_def slices del: append.simps) simp
qed

text \<open>Witness: field 3, value and key taken from a small record.\<close>

theorem index_key_roundtrip_witness:
  "DecodeIndexKey (EncodeIndexKey 7 3 [97, 98] [1, 2]) = Some (Inr (7, 3, [97, 98], [1, 2]))"
  using index_key_roundtrip [of "[97, 98]" 7 3 "[1, 2]"] by simp

text \<open>
  C34. The integer key encodings keep the numeric order: byte-wise comparison of the encodings
  (signed and unsigned, 64 and 32 bit) is comparison of the numbers, and so is comparison of the
  data keys of one table.
\<close>

theorem ordered_encodings:
  "(EncodeOrderedInt64 a < EncodeOrderedInt64 b \<longleftrightarrow> sint a < sint b)
   \<and> (EncodeOrderedUint64 a < EncodeOrderedUint64 b \<longleftrightarrow> unat a < unat b)
   \<and> (EncodeOrderedInt32 c < EncodeOrderedInt32 d \<longleftrightarrow> sint c < sint d)
   \<and> (EncodeOrderedUint32 c < EncodeOrderedUint32 d \<longleftrightarrow> unat c < unat d)
   \<and> (EncodeKey h (EncodeOrderedInt64 a) < EncodeKey h (EncodeOrderedInt64 b) \<longleftrightarrow> sint a < sint b)"
proof -
  have "EncodeOrderedUint64 a < EncodeOrderedUint64 b \<longleftrightarrow> unat a < unat b"
    by (simp add: EncodeOrderedUint64_def word_less_nat_alt)
  moreover have "EncodeOrderedUint32 c < EncodeOrderedUint32 d \<longleftrightarrow> unat c < unat d"
    by (simp add: EncodeOrderedUint32_def word_less_nat_alt)
  moreover have "EncodeOrderedInt32 c < EncodeOrderedInt32 d \<longleftrightarrow> sint c < sint d"
    by (simp add: EncodeOrderedInt32_def flip32_less del: push_bit_of_1)
  ultimately show ?thesis
    by (simp add: EncodeOrderedInt64_less key_simps)
qed

text \<open>
  The integer decoders invert the encoders on every value, whatever bytes follow; on fewer
  than eight (four) bytes they panic.
\<close>

theorem ordered_decoders:
  "DecodeOrderedInt64 (EncodeOrderedInt64 a @ rest) = Some a
   \<and> DecodeOrderedUint64 (EncodeOrderedUint64 a @ rest) = Some a
   \<and> DecodeOrderedInt32 (EncodeOrderedInt32 c @ rest) = Some c
   \<and> DecodeOrderedUint32 (EncodeOrderedUint32 c @ rest) = Some c
   \<and> (DecodeOrderedInt64 raw = None \<longleftrightarrow> length raw < 8)
   \<and> (DecodeOrderedInt32 raw = None \<longleftrightarrow> length raw < 4)"
  by (auto simp: DecodeOrderedInt64_def EncodeOrderedInt64_def DecodeOrderedUint64_def
      EncodeOrderedUint64_def DecodeOrderedInt32_def EncodeOrderedInt32_def DecodeOrderedUint32_def
      EncodeOrderedUint32_def xor_xor_same be64_def [of raw] be32_def [of raw]
      simp del: push_bit_of_1)

text \<open>
  An index prefix scan is exact: the prefix built for a table, field and value is a prefix of
  precisely the index keys with that table hash, field byte and field value (never of a longer
  value that starts with it), and of no data key.
\<close>

theorem index_prefix_exact:
  "(prefix (EncodeIndexPrefix h f v) (EncodeIndexKey h' f' v' pk)
      \<longleftrightarrow> h = h' \<and> (ucast f :: byte) = ucast f' \<and> v = v')
   \<and> \<not> prefix (EncodeIndexPrefix h f v) (EncodeKey h' pk)
   \<and> \<not> prefix (EncodeKey h' []) (EncodeIndexKey h f v pk)"
proof -
  have "prefix (EncodeIndexPrefix h f v) (EncodeIndexKey h' f' v' pk)
      \<longleftrightarrow> h = h' \<and> (ucast f :: byte) = ucast f' \<and> v = v'"
    unfolding prefix_def index_key_prefix by (metis index_prefix_append_eq)
  moreover have "\<not> prefix (EncodeIndexPrefix h f v) (EncodeKey h' pk)"
    unfolding prefix_def by (metis data_index_distinct(1))
  ultimately show ?thesis
    by (simp add: index_key_prefix key_simps)
qed

text \<open>
  Two unique index keys of one table coincide exactly when the field values are equal and the
  field numbers agree in their low byte: fields whose numbers differ by a multiple of 256 share
  one index, as 3 and 259 do.
\<close>

theorem unique_key_field_byte:
  "(EncodeUniqueIndexKey h f v = EncodeUniqueIndexKey h f' v'
      \<longleftrightarrow> unat f mod 256 = unat f' mod 256 \<and> v = v')
   \<and> EncodeUniqueIndexKey h 3 v = EncodeUniqueIndexKey h 259 v"
proof -
  have "(ucast f :: byte) = ucast f' \<longleftrightarrow> unat f mod 256 = unat f' mod 256"
    by (simp add: word_unat_eq_iff unsigned_ucast_eq take_bit_eq_mod)
  then show ?thesis
    by (simp add: EncodeUniqueIndexKey_def key_simps)
qed

text \<open>
  The key decoders never panic: every slice and every fixed-width read they make is inside
  the buffer, for any input, truncated and overflowing varints included; they accept or return
  \<open>ErrMalformedKey\<close>.
\<close>

theorem decoders_never_panic:
  "(DecodeKey raw = Some (Inl ErrMalformedKey) \<or> (\<exists>x. DecodeKey raw = Some (Inr x)))
   \<and> (DecodeIndexKey raw = Some (Inl ErrMalformedKey) \<or> (\<exists>x. DecodeIndexKey raw = Some (Inr x)))"
proof -
  have "DecodeKey raw = Some (Inl ErrMalformedKey) \<or> (\<exists>x. DecodeKey raw = Some (Inr x))"
    by (auto simp: DecodeKey_def slice_def slice_from_def be64_def)
  moreover have "DecodeIndexKey raw = Some (Inl ErrMalformedKey) \<or> (\<exists>x. DecodeIndexKey raw = Some (Inr x))"
  proof (cases "length raw < 10 \<or> raw ! 0 \<noteq> IndexPrefix")
    case False
    obtain v n where u: "uvarint (drop 10 raw) = (v, n)" by fastforce
    then have "nat n \<le> length raw - 10"
      using uvarint_read_le [OF u] by simp
    with False show ?thesis
      by (auto simp: DecodeIndexKey_def slice_def slice_from_def be64_def byte_at_def u Let_def)
  qed (auto simp: DecodeIndexKey_def)
  ultimately show ?thesis by blast
qed

end
