(* ===== verification/Platform.thy ===== *)
theory Platform
  imports Prelude
begin

text \<open>
  What the repository calls and does not contain: the Pebble storage engine, the operating
  system's files and clock, and the zstd library.  They are the fields of a record
  \<open>platform\<close> that every definition above them takes as its argument; nothing here says what the
  functions do.  What the repository relies on is stated as the predicates \<open>engine_laws\<close>
  (point reads, writes, batches) and \<open>iter_laws\<close> (iterators), which follow Pebble's
  documentation.  \<open>mem_platform\<close> is a concrete in-memory platform that satisfies both; the
  witnesses run on it.

  Type variables: \<open>'p\<close> the state of an open engine, \<open>'b\<close> a batch, \<open>'i\<close> an iterator.
\<close>

section \<open>The parameters\<close>

record pebble_options =
  po_CacheSize :: int
  po_MemTableSize :: int
  po_MemTableStopWritesThreshold :: int
  po_DisableWAL :: bool
  po_WALBytesPerSync :: int
  po_WALMinSyncInterval :: "int option"

datatype read_dir = DirNotExist | DirError go_error | DirEntries nat

record ('p, 'b, 'i) platform =
  pb_Open :: "bytes \<Rightarrow> pebble_options \<Rightarrow> go_error + 'p"
  pb_Close :: "'p \<Rightarrow> 'p \<times> go_error option"
  pb_Get :: "'p \<Rightarrow> bytes \<Rightarrow> go_error + bytes"
  pb_Set :: "bytes \<Rightarrow> bytes \<Rightarrow> bool \<Rightarrow> 'p \<Rightarrow> 'p \<times> go_error option"
  pb_Delete :: "bytes \<Rightarrow> bool \<Rightarrow> 'p \<Rightarrow> 'p \<times> go_error option"
  pb_NewBatch :: "'p \<Rightarrow> 'b"
  pb_BatchSet :: "bytes \<Rightarrow> bytes \<Rightarrow> 'b \<Rightarrow> 'b \<times> go_error option"
  pb_BatchDelete :: "bytes \<Rightarrow> 'b \<Rightarrow> 'b \<times> go_error option"
  pb_Commit :: "'b \<Rightarrow> bool \<Rightarrow> 'p \<Rightarrow> 'p \<times> go_error option"
  pb_NewIter :: "'p \<Rightarrow> bytes \<Rightarrow> go_error + 'i"
  pb_First :: "'i \<Rightarrow> 'i"
  pb_Next :: "'i \<Rightarrow> 'i"
  pb_SeekGE :: "bytes \<Rightarrow> 'i \<Rightarrow> 'i"
  pb_SeekLT :: "bytes \<Rightarrow> 'i \<Rightarrow> 'i"
  pb_Valid :: "'i \<Rightarrow> bool"
  pb_Key :: "'i \<Rightarrow> bytes"
  pb_Value :: "'i \<Rightarrow> bytes"
  pb_Checkpoint :: "'p \<Rightarrow> bytes \<Rightarrow> go_error option"
  os_ReadDir :: "bytes \<Rightarrow> read_dir"
  time_Now :: "nat \<Rightarrow> 64 word"
  zstd_Compress :: "bytes \<Rightarrow> bytes"
  zstd_Decompress :: "bytes \<Rightarrow> go_error + bytes"

text \<open>The sentinel \<open>pebble.ErrNotFound\<close>.  The booleans of the writes are \<open>pebble.Sync\<close>.\<close>

definition ErrNotFound :: go_error where "ErrNotFound = EngineError 0"

section \<open>Documented behaviour of the engine\<close>

text \<open>A batch is a sequence of sets and deletions; applied, later ones win.\<close>

type_synonym kv_map = "bytes \<rightharpoonup> bytes"

fun apply_write :: "bytes \<times> bytes option \<Rightarrow> kv_map \<Rightarrow> kv_map" where
  "apply_write (k, v) m = m(k := v)"

definition apply_writes :: "(bytes \<times> bytes option) list \<Rightarrow> kv_map \<Rightarrow> kv_map" where
  "apply_writes ws m = fold apply_write ws m"

lemma apply_writes_simps [simp]:
  "apply_writes [] m = m"
  "apply_writes (w # ws) m = apply_writes ws (apply_write w m)"
  "apply_writes (ws @ ws') m = apply_writes ws' (apply_writes ws m)"
  by (simp_all add: apply_writes_def)

lemma apply_writes_other: "k \<notin> fst ` set ws \<Longrightarrow> apply_writes ws m k = m k"
  by (induction ws arbitrary: m) auto

lemma finite_dom_apply_write: "finite (dom m) \<Longrightarrow> finite (dom (apply_write w m))"
  by (cases w; cases "snd w") auto

lemma finite_dom_apply_writes: "finite (dom m) \<Longrightarrow> finite (dom (apply_writes ws m))"
  by (induction ws arbitrary: m) (simp_all add: finite_dom_apply_write)

definition sorted_entries :: "kv_map \<Rightarrow> (bytes \<times> bytes) list" where
  "sorted_entries m = map (\<lambda>k. (k, the (m k))) (sorted_list_of_set (dom m))"

definition entries_from :: "bytes \<Rightarrow> kv_map \<Rightarrow> (bytes \<times> bytes) list" where
  "entries_from lower m = filter (\<lambda>(k, _). lower \<le> k) (sorted_entries m)"

text \<open>
  \<open>engine_laws E view pend\<close>: with \<open>view\<close> the stored map and \<open>pend\<close> the content of a batch,
  reads return what is stored or \<open>ErrNotFound\<close> (or an engine error), writes that return no error
  act on the map, writes that return one leave it alone, a committed batch is applied as a whole.
\<close>

definition write_law :: "('p \<Rightarrow> kv_map) \<Rightarrow> 'p \<Rightarrow> (bytes \<times> bytes option) list \<Rightarrow> 'p \<times> go_error option \<Rightarrow> bool" where
  "write_law view p ws r \<longleftrightarrow>
     (case snd r of None \<Rightarrow> view (fst r) = apply_writes ws (view p) | Some _ \<Rightarrow> view (fst r) = view p)"

definition batch_law :: "('b \<Rightarrow> (bytes \<times> bytes option) list) \<Rightarrow> 'b \<Rightarrow> bytes \<times> bytes option \<Rightarrow> 'b \<times> go_error option \<Rightarrow> bool" where
  "batch_law pend b w r \<longleftrightarrow> (snd r = None \<longrightarrow> pend (fst r) = pend b @ [w])"

definition engine_laws ::
  "('p, 'b, 'i) platform \<Rightarrow> ('p \<Rightarrow> kv_map) \<Rightarrow> ('b \<Rightarrow> (bytes \<times> bytes option) list) \<Rightarrow> bool" where
  "engine_laws E view pend \<longleftrightarrow>
     (\<forall>p. finite (dom (view p)))
   \<and> (\<forall>p k v. pb_Get E p k = Inr v \<longrightarrow> view p k = Some v)
   \<and> (\<forall>p k e. pb_Get E p k = Inl e \<and> errors_is e ErrNotFound \<longrightarrow> view p k = None)
   \<and> (\<forall>p k v s. write_law view p [(k, Some v)] (pb_Set E k v s p))
   \<and> (\<forall>p k s. write_law view p [(k, None)] (pb_Delete E k s p))
   \<and> (\<forall>p. pend (pb_NewBatch E p) = [])
   \<and> (\<forall>b k v. batch_law pend b (k, Some v) (pb_BatchSet E k v b))
   \<and> (\<forall>b k. batch_law pend b (k, None) (pb_BatchDelete E k b))
   \<and> (\<forall>p b s. write_law view p (pend b) (pb_Commit E b s p))"

text \<open>No read of the engine fails (no disk error): a missing key is reported as such.\<close>

definition reads_ok :: "('p, 'b, 'i) platform \<Rightarrow> ('p \<Rightarrow> kv_map) \<Rightarrow> bool" where
  "reads_ok E view \<longleftrightarrow>
     (\<forall>p k. pb_Get E p k = (case view p k of None \<Rightarrow> Inl ErrNotFound | Some v \<Rightarrow> Inr v))"

text \<open>
  Iterators.  \<open>snap i\<close> is the sorted snapshot the iterator was created on (with its lower bound),
  \<open>pos i\<close> its position: \<open>None\<close> before the first entry, \<open>Some n\<close> at entry \<open>n\<close>, exhausted
  when \<open>n\<close> is the number of entries.
\<close>

definition first_ge :: "bytes \<Rightarrow> (bytes \<times> bytes) list \<Rightarrow> nat" where
  "first_ge t es = length (takeWhile (\<lambda>(k, _). k < t) es)"

definition iter_laws ::
  "('p, 'b, 'i) platform \<Rightarrow> ('p \<Rightarrow> kv_map) \<Rightarrow> ('i \<Rightarrow> (bytes \<times> bytes) list) \<Rightarrow> ('i \<Rightarrow> nat option) \<Rightarrow> bool" where
  "iter_laws E view snap pos \<longleftrightarrow>
     (\<forall>p. finite (dom (view p)))
   \<and> (\<forall>p l. \<exists>i. pb_NewIter E p l = Inr i \<and> snap i = entries_from l (view p))
   \<and> (\<forall>i. snap (pb_First E i) = snap i \<and> pos (pb_First E i) = Some 0)
   \<and> (\<forall>i. snap (pb_Next E i) = snap i)
   \<and> (\<forall>i n. pos i = Some n \<and> n < length (snap i) \<longrightarrow> pos (pb_Next E i) = Some (Suc n))
   \<and> (\<forall>i n. pos i = Some n \<and> n \<ge> length (snap i) \<longrightarrow> pos (pb_Next E i) = Some n)
   \<and> (\<forall>i. pos i = None \<longrightarrow> pos (pb_Next E i) = Some 0)
   \<and> (\<forall>i t. snap (pb_SeekGE E t i) = snap i \<and> pos (pb_SeekGE E t i) = Some (first_ge t (snap i)))
   \<and> (\<forall>i t. snap (pb_SeekLT E t i) = snap i
        \<and> pos (pb_SeekLT E t i) = (case first_ge t (snap i) of 0 \<Rightarrow> None | Suc n \<Rightarrow> Some n))
   \<and> (\<forall>i. pb_Valid E i \<longleftrightarrow> (\<exists>n. pos i = Some n \<and> n < length (snap i)))
   \<and> (\<forall>i n. pos i = Some n \<and> n < length (snap i)
        \<longrightarrow> pb_Key E i = fst (snap i ! n) \<and> pb_Value E i = snd (snap i ! n))"

text \<open>zstd: decompressing what was compressed gives it back.\<close>

definition zstd_laws :: "('p, 'b, 'i) platform \<Rightarrow> bool" where
  "zstd_laws E \<longleftrightarrow> (\<forall>x. zstd_Decompress E (zstd_Compress E x) = Inr x)"

lemma engine_laws_D [view_simps]:
  assumes "engine_laws E view pend"
  shows "finite (dom (view p))"
    and "pb_Get E p k = Inr v \<Longrightarrow> view p k = Some v"
    and "pb_Get E p k = Inl e \<Longrightarrow> errors_is e ErrNotFound \<Longrightarrow> view p k = None"
    and "write_law view p [(k, Some v)] (pb_Set E k v s p)"
    and "write_law view p [(k, None)] (pb_Delete E k s p)"
    and "pend (pb_NewBatch E p) = []"
    and "batch_law pend b (k, Some v) (pb_BatchSet E k v b)"
    and "batch_law pend b (k, None) (pb_BatchDelete E k b)"
    and "write_law view p (pend b) (pb_Commit E b s p)"
  using assms by (simp_all add: engine_laws_def)

section \<open>Sorted entries\<close>

lemma sorted_entries_keys: "finite (dom m) \<Longrightarrow> map fst (sorted_entries m) = sorted_list_of_set (dom m)"
  by (simp add: sorted_entries_def comp_def)

lemma sorted_entries_set: "finite (dom m) \<Longrightarrow> (k, v) \<in> set (sorted_entries m) \<longleftrightarrow> m k = Some v"
  by (auto simp: sorted_entries_def)

lemma entries_from_set:
  "finite (dom m) \<Longrightarrow> (k, v) \<in> set (entries_from l m) \<longleftrightarrow> l \<le> k \<and> m k = Some v"
  by (auto simp: entries_from_def sorted_entries_set)

lemma entries_from_sorted:
  "finite (dom m) \<Longrightarrow> sorted (map fst (entries_from l m)) \<and> distinct (map fst (entries_from l m))"
proof -
  assume fin: "finite (dom m)"
  have "map fst (entries_from l m) = filter (\<lambda>k. l \<le> k) (map fst (sorted_entries m))"
    by (simp add: entries_from_def filter_map comp_def case_prod_unfold)
  with fin show ?thesis
    by (simp add: sorted_entries_keys sorted_wrt_filter)
qed

section \<open>A concrete platform\<close>

text \<open>
  An engine that keeps an association list and a script of upcoming write outcomes (\<open>True\<close>:
  the next write fails with \<open>EngineError 1\<close>, a write past the end of the script succeeds).
  Iterators carry their snapshot and position.  The files are empty directories; time stands
  still; compression prepends a byte.
\<close>

type_synonym mem_store = "(bytes \<times> bytes) list \<times> bool list"
type_synonym mem_iter = "(bytes \<times> bytes) list \<times> nat option"

definition mem_view :: "mem_store \<Rightarrow> kv_map" where "mem_view p = map_of (fst p)"

fun mem_put :: "bytes \<times> bytes option \<Rightarrow> (bytes \<times> bytes) list \<Rightarrow> (bytes \<times> bytes) list" where
  "mem_put (k, None) es = filter (\<lambda>e. fst e \<noteq> k) es"
| "mem_put (k, Some v) es = (k, v) # filter (\<lambda>e. fst e \<noteq> k) es"

fun mem_write :: "(bytes \<times> bytes option) list \<Rightarrow> mem_store \<Rightarrow> mem_store \<times> go_error option" where
  "mem_write ws (es, True # fs) = ((es, fs), Some (EngineError 1))"
| "mem_write ws (es, fs) = ((fold mem_put ws es, tl fs), None)"

definition mem_sorted :: "(bytes \<times> bytes) list \<Rightarrow> (bytes \<times> bytes) list" where
  "mem_sorted es = map (\<lambda>k. (k, the (map_of es k))) (sort (remdups (map fst es)))"

definition mem_next :: "mem_iter \<Rightarrow> mem_iter" where
  "mem_next i = (fst i, case snd i of None \<Rightarrow> Some 0
     | Some n \<Rightarrow> if n < length (fst i) then Some (Suc n) else Some n)"

definition mem_valid :: "mem_iter \<Rightarrow> bool" where
  "mem_valid i = (case snd i of None \<Rightarrow> False | Some n \<Rightarrow> n < length (fst i))"

definition mem_entry :: "mem_iter \<Rightarrow> bytes \<times> bytes" where
  "mem_entry i = (case snd i of None \<Rightarrow> ([], []) | Some n \<Rightarrow> fst i ! n)"

definition mem_platform :: "(mem_store, (bytes \<times> bytes option) list, mem_iter) platform" where
  "mem_platform =
     \<lparr>pb_Open = (\<lambda>dir opts. Inr ([], [])),
      pb_Close = (\<lambda>p. (p, None)),
      pb_Get = (\<lambda>p k. case map_of (fst p) k of None \<Rightarrow> Inl ErrNotFound | Some v \<Rightarrow> Inr v),
      pb_Set = (\<lambda>k v s. mem_write [(k, Some v)]),
      pb_Delete = (\<lambda>k s. mem_write [(k, None)]),
      pb_NewBatch = (\<lambda>p. []),
      pb_BatchSet = (\<lambda>k v b. (b @ [(k, Some v)], None)),
      pb_BatchDelete = (\<lambda>k b. (b @ [(k, None)], None)),
      pb_Commit = (\<lambda>b s. mem_write b),
      pb_NewIter = (\<lambda>p l. Inr (filter (\<lambda>(k, _). l \<le> k) (mem_sorted (fst p)), None)),
      pb_First = (\<lambda>i. (fst i, Some 0)),
      pb_Next = mem_next,
      pb_SeekGE = (\<lambda>t i. (fst i, Some (first_ge t (fst i)))),
      pb_SeekLT = (\<lambda>t i. (fst i, case first_ge t (fst i) of 0 \<Rightarrow> None | Suc n \<Rightarrow> Some n)),
      pb_Valid = mem_valid,
      pb_Key = (\<lambda>i. fst (mem_entry i)),
      pb_Value = (\<lambda>i. snd (mem_entry i)),
      pb_Checkpoint = (\<lambda>p dir. None),
      os_ReadDir = (\<lambda>dir. DirEntries 0),
      time_Now = (\<lambda>n. 0),
      zstd_Compress = (\<lambda>x. 40 # x),
      zstd_Decompress = (\<lambda>x. case x of [] \<Rightarrow> Inl (EngineError 2) | _ # y \<Rightarrow> Inr y)\<rparr>"

lemmas mem_platform_simps = mem_platform_def mem_next_def mem_valid_def mem_entry_def

lemma map_of_mem_put: "map_of (mem_put w es) = apply_write w (map_of es)"
proof (cases w)
  case (Pair k v)
  have "map_of (filter (\<lambda>e. fst e \<noteq> k) es) = (map_of es)(k := None)"
    by (induction es) auto
  with Pair show ?thesis by (cases v) auto
qed

lemma map_of_fold_mem_put: "map_of (fold mem_put ws es) = apply_writes ws (map_of es)"
  by (induction ws arbitrary: es) (simp_all add: map_of_mem_put)

lemma mem_write_law: "write_law mem_view p ws (mem_write ws p)"
proof (cases p)
  case (Pair es fs)
  then show ?thesis
    by (cases "(ws, es, fs)" rule: mem_write.cases)
      (auto simp: write_law_def mem_view_def map_of_fold_mem_put)
qed

lemma mem_sorted_entries: "mem_sorted es = sorted_entries (map_of es)"
  by (simp add: mem_sorted_def sorted_entries_def dom_map_of_conv_image_fst
      flip: sorted_list_of_set_sort_remdups set_map)

lemma mem_engine_laws: "engine_laws mem_platform mem_view id"
  unfolding engine_laws_def
  by (auto simp: mem_platform_def mem_write_law batch_law_def)
    (auto simp: mem_view_def finite_dom_map_of split: option.splits)

lemma mem_reads_ok: "reads_ok mem_platform mem_view"
  by (simp add: reads_ok_def mem_platform_def mem_view_def)

lemma mem_iter_laws: "iter_laws mem_platform mem_view fst snd"
  unfolding iter_laws_def
  by (auto simp: mem_platform_simps mem_view_def finite_dom_map_of entries_from_def mem_sorted_entries
      split: option.splits)

lemma mem_zstd_laws: "zstd_laws mem_platform"
  by (simp add: zstd_laws_def mem_platform_def)

end
