(* ===== verification/WriteQueue.thy ===== *)
theory WriteQueue
  imports Platform "HOL-Library.Multiset"
begin

text \<open>
  The MPSC write queue of \<open>internal/writequeue/queue.go\<close>: \<open>New\<close>, \<open>Submit\<close>, \<open>Stop\<close>, the two
  consumer loops and \<open>applyBatch\<close>, first as functions (one definition per Go function, run to
  completion), then as the steps of a concurrent system in which producers, the consumer, the
  memory monitor and \<open>Stop\<close> interleave.  The \<open>Done\<close> channel of an operation is a number; what
  is sent on it is logged in \<open>q_replies\<close>.  The underlying store \<open>'s\<close> and its \<open>Putter\<close> are
  parameters, with the locale \<open>putter\<close> as their contract.
\<close>

section \<open>Data\<close>

datatype OpType = OpPut | OpDelete

record WriteOp =
  wo_Key :: bytes
  wo_Value :: bytes
  wo_Op :: OpType
  wo_Done :: nat

record BatchEntry =
  be_Key :: bytes
  be_Value :: bytes
  be_Op :: OpType

text \<open>\<open>Putter\<close>; \<open>pt_ApplyBatch\<close> is \<open>None\<close> when the value is not a \<open>BatchPutter\<close>.\<close>

record 's Putter =
  pt_Set :: "bytes \<Rightarrow> bytes \<Rightarrow> 's \<Rightarrow> 's \<times> go_error option"
  pt_Delete :: "bytes \<Rightarrow> 's \<Rightarrow> 's \<times> go_error option"
  pt_ApplyBatch :: "(BatchEntry list \<Rightarrow> 's \<Rightarrow> 's \<times> go_error option) option"

record QueueConfig =
  qc_MaxLen :: int
  qc_MaxMemMB :: int
  qc_BatchSize :: int

type_synonym reply = "nat \<times> go_error option"

record 's Queue =
  q_queue :: "WriteOp list"
  q_cap :: nat
  q_batchSize :: int
  q_maxMem :: int
  q_memExceeded :: bool
  q_stopped :: bool
  q_closed :: bool
  q_store :: 's
  q_replies :: "reply list"

section \<open>The functions of the package\<close>

definition wq_New :: "QueueConfig \<Rightarrow> 's \<Rightarrow> 's Queue" where
  "wq_New cfg s =
     \<lparr>q_queue = [], q_cap = nat (if qc_MaxLen cfg \<le> 0 then 1024 else qc_MaxLen cfg),
      q_batchSize = qc_BatchSize cfg, q_maxMem = (qc_MaxMemMB cfg * 2 ^ 20) mod 2 ^ 64,
      q_memExceeded = False, q_stopped = False, q_closed = False, q_store = s, q_replies = []\<rparr>"

text \<open>One tick of \<open>memMonitorLoop\<close> with the sampled \<open>m.Alloc\<close>.\<close>

definition memMonitor_tick :: "int \<Rightarrow> 's Queue \<Rightarrow> 's Queue" where
  "memMonitor_tick alloc q = q\<lparr>q_memExceeded := (q_maxMem q < alloc)\<rparr>"

definition wq_Submit :: "WriteOp \<Rightarrow> 's Queue \<Rightarrow> 's Queue \<times> go_error option" where
  "wq_Submit w q =
     (if q_stopped q then (q, Some ErrStopped)
      else if q_memExceeded q then (q, Some ErrMemExceeded)
      else if length (q_queue q) < q_cap q then (q\<lparr>q_queue := q_queue q @ [w]\<rparr>, None)
      else (q, Some ErrFull))"

definition wq_Len :: "'s Queue \<Rightarrow> nat" where "wq_Len q = length (q_queue q)"

text \<open>\<open>op.Done <- err\<close>\<close>

definition send_done :: "WriteOp \<Rightarrow> go_error option \<Rightarrow> 's Queue \<Rightarrow> 's Queue" where
  "send_done w err q = q\<lparr>q_replies := q_replies q @ [(wo_Done w, err)]\<rparr>"

fun wq_drain :: "WriteOp list \<Rightarrow> 's Queue \<Rightarrow> 's Queue" where
  "wq_drain [] q = q"
| "wq_drain (w # ws) q = wq_drain ws (send_done w (Some ErrStopped) q)"

definition wq_Stop :: "'s Queue \<Rightarrow> 's Queue" where
  "wq_Stop q =
     (if q_stopped q then q
      else (wq_drain (q_queue q) (q\<lparr>q_stopped := True\<rparr>))\<lparr>q_queue := [], q_closed := True\<rparr>)"

text \<open>The switch on \<open>op.Op\<close> that both consumer loops share.\<close>

definition put_one :: "'s Putter \<Rightarrow> WriteOp \<Rightarrow> 's \<Rightarrow> 's \<times> go_error option" where
  "put_one P w s =
     (case wo_Op w of OpPut \<Rightarrow> pt_Set P (wo_Key w) (wo_Value w) s | OpDelete \<Rightarrow> pt_Delete P (wo_Key w) s)"

definition apply_one :: "'s Putter \<Rightarrow> WriteOp \<Rightarrow> 's Queue \<Rightarrow> 's Queue" where
  "apply_one P w q =
     (let (s, err) = put_one P w (q_store q) in send_done w err (q\<lparr>q_store := s\<rparr>))"

definition batch_entry :: "WriteOp \<Rightarrow> BatchEntry" where
  "batch_entry w = \<lparr>be_Key = wo_Key w, be_Value = wo_Value w, be_Op = wo_Op w\<rparr>"

definition applyBatch :: "'s Putter \<Rightarrow> WriteOp list \<Rightarrow> 's Queue \<Rightarrow> 's Queue" where
  "applyBatch P ops q =
     (if ops = [] then q
      else case pt_ApplyBatch P of
          None \<Rightarrow> fold (apply_one P) ops q
        | Some ab \<Rightarrow>
            if length ops = 1 then fold (apply_one P) ops q
            else (let (s, err) = ab (map batch_entry ops) (q_store q)
                  in fold (\<lambda>w. send_done w err) ops (q\<lparr>q_store := s\<rparr>)))"

text \<open>The consumer run until its channel is empty (where it blocks, or returns if closed).\<close>

function consumeLoop :: "'s Putter \<Rightarrow> 's Queue \<Rightarrow> 's Queue" where
  "consumeLoop P q =
     (case q_queue q of [] \<Rightarrow> q | w # ws \<Rightarrow> consumeLoop P (apply_one P w (q\<lparr>q_queue := ws\<rparr>)))"
  by pat_completeness auto

lemma send_done_simps [simp]:
  "q_queue (send_done w e q) = q_queue q" "q_cap (send_done w e q) = q_cap q"
  "q_batchSize (send_done w e q) = q_batchSize q" "q_stopped (send_done w e q) = q_stopped q"
  "q_closed (send_done w e q) = q_closed q" "q_store (send_done w e q) = q_store q"
  "q_memExceeded (send_done w e q) = q_memExceeded q"
  "q_replies (send_done w e q) = q_replies q @ [(wo_Done w, e)]"
  by (simp_all add: send_done_def)

lemma apply_one_simps [simp]:
  "q_queue (apply_one P w q) = q_queue q" "q_cap (apply_one P w q) = q_cap q"
  "q_batchSize (apply_one P w q) = q_batchSize q" "q_stopped (apply_one P w q) = q_stopped q"
  "q_closed (apply_one P w q) = q_closed q" "q_memExceeded (apply_one P w q) = q_memExceeded q"
  "q_store (apply_one P w q) = fst (put_one P w (q_store q))"
  "q_replies (apply_one P w q) = q_replies q @ [(wo_Done w, snd (put_one P w (q_store q)))]"
  by (simp_all add: apply_one_def split: prod.split)

lemma fold_send_simps [simp]:
  "q_queue (fold (\<lambda>w. send_done w e) ws q) = q_queue q"
  "q_batchSize (fold (\<lambda>w. send_done w e) ws q) = q_batchSize q"
  "q_cap (fold (\<lambda>w. send_done w e) ws q) = q_cap q"
  "q_stopped (fold (\<lambda>w. send_done w e) ws q) = q_stopped q"
  "q_closed (fold (\<lambda>w. send_done w e) ws q) = q_closed q"
  "q_memExceeded (fold (\<lambda>w. send_done w e) ws q) = q_memExceeded q"
  "q_store (fold (\<lambda>w. send_done w e) ws q) = q_store q"
  "q_replies (fold (\<lambda>w. send_done w e) ws q) = q_replies q @ map (\<lambda>w. (wo_Done w, e)) ws"
  by (induction ws arbitrary: q) simp_all

lemma fold_apply_one_frame [simp]:
  "q_queue (fold (apply_one P) ws q) = q_queue q"
  "q_batchSize (fold (apply_one P) ws q) = q_batchSize q"
  "q_cap (fold (apply_one P) ws q) = q_cap q"
  "q_stopped (fold (apply_one P) ws q) = q_stopped q"
  "q_closed (fold (apply_one P) ws q) = q_closed q"
  "q_memExceeded (fold (apply_one P) ws q) = q_memExceeded q"
  by (induction ws arbitrary: q) simp_all

lemma applyBatch_frame [simp]:
  "q_queue (applyBatch P ws q) = q_queue q"
  "q_batchSize (applyBatch P ws q) = q_batchSize q"
  "q_cap (applyBatch P ws q) = q_cap q"
  "q_stopped (applyBatch P ws q) = q_stopped q"
  "q_closed (applyBatch P ws q) = q_closed q"
  "q_memExceeded (applyBatch P ws q) = q_memExceeded q"
  by (simp_all add: applyBatch_def split: option.split prod.split)

termination consumeLoop
  by (relation "measure (\<lambda>(_, q). length (q_queue q))") auto

text \<open>
  \<open>consumeBatchLoop\<close>: the blocking receive of the first operation and up to \<open>batchSize - 1\<close>
  non-blocking receives, then \<open>applyBatch\<close>.  \<open>collect\<close> is the inner loop.
\<close>

fun collect :: "int \<Rightarrow> WriteOp list \<Rightarrow> WriteOp list \<Rightarrow> WriteOp list \<times> WriteOp list" where
  "collect sz batch [] = (batch, [])"
| "collect sz batch (w # ws) =
     (if int (length batch) < sz then collect sz (batch @ [w]) ws else (batch, w # ws))"

lemma collect_eq:
  "collect sz batch ws =
     (batch @ take (nat sz - length batch) ws, drop (nat sz - length batch) ws)"
proof (induction sz batch ws rule: collect.induct)
  case (2 sz batch w ws)
  show ?case
  proof (cases "int (length batch) < sz")
    case True
    then have "nat sz - length batch = Suc (nat sz - length (batch @ [w]))" by simp
    with 2 True show ?thesis by simp
  qed simp
qed simp

function consumeBatchLoop :: "'s Putter \<Rightarrow> 's Queue \<Rightarrow> 's Queue" where
  "consumeBatchLoop P q =
     (case q_queue q of
        [] \<Rightarrow> q
      | w # ws \<Rightarrow>
          let (batch, rest) = collect (q_batchSize q) [w] ws
          in consumeBatchLoop P (applyBatch P batch (q\<lparr>q_queue := rest\<rparr>)))"
  by pat_completeness auto
termination
  by (relation "measure (\<lambda>(_, q). length (q_queue q))") (auto simp: collect_eq)

declare consumeLoop.simps [simp del] consumeBatchLoop.simps [simp del]

text \<open>The goroutine that \<open>New\<close> starts.\<close>

definition wq_consume :: "'s Putter \<Rightarrow> 's Queue \<Rightarrow> 's Queue" where
  "wq_consume P q = (if 0 < q_batchSize q then consumeBatchLoop P q else consumeLoop P q)"


lemma consumeLoop_frame:
  "q_queue (consumeLoop P q) = [] \<and> q_cap (consumeLoop P q) = q_cap q
   \<and> q_stopped (consumeLoop P q) = q_stopped q \<and> q_maxMem (consumeLoop P q) = q_maxMem q"
proof (induction P q rule: consumeLoop.induct)
  case (1 P q)
  have "q_maxMem (apply_one P w q') = q_maxMem q'" for w and q' :: "'a Queue"
    by (simp add: apply_one_def send_done_def split: prod.split)
  with 1 show ?case by (cases "q_queue q") (simp_all add: consumeLoop.simps [of P q])
qed

lemma applyBatch_maxMem: "q_maxMem (applyBatch P ws q) = q_maxMem q"
proof -
  have "q_maxMem (fold (apply_one P) ws q') = q_maxMem q'" for q' :: "'a Queue"
    by (induction ws arbitrary: q') (simp_all add: apply_one_def send_done_def split: prod.split)
  moreover have "q_maxMem (fold (\<lambda>w. send_done w e) ws q') = q_maxMem q'" for q' :: "'a Queue" and e
    by (induction ws arbitrary: q') (simp_all add: send_done_def)
  ultimately show ?thesis by (simp add: applyBatch_def split: option.split prod.split)
qed

lemma consumeBatchLoop_frame:
  "q_queue (consumeBatchLoop P q) = [] \<and> q_cap (consumeBatchLoop P q) = q_cap q
   \<and> q_stopped (consumeBatchLoop P q) = q_stopped q \<and> q_maxMem (consumeBatchLoop P q) = q_maxMem q"
proof (induction P q rule: consumeBatchLoop.induct)
  case (1 P q)
  then show ?case
    by (cases "q_queue q") (simp_all add: consumeBatchLoop.simps [of P q] applyBatch_maxMem split: prod.split)
qed

lemma wq_consume_frame:
  "q_queue (wq_consume P q) = []" "q_cap (wq_consume P q) = q_cap q"
  "q_stopped (wq_consume P q) = q_stopped q" "q_maxMem (wq_consume P q) = q_maxMem q"
  using consumeLoop_frame [of P q] consumeBatchLoop_frame [of P q] by (simp_all add: wq_consume_def)

section \<open>The contract of the store behind the queue\<close>

text \<open>An operation as a write on the stored map, and the acknowledged writes of a log.\<close>

definition op_write :: "WriteOp \<Rightarrow> bytes \<times> bytes option" where
  "op_write w = (wo_Key w, case wo_Op w of OpPut \<Rightarrow> Some (wo_Value w) | OpDelete \<Rightarrow> None)"

definition entry_write :: "BatchEntry \<Rightarrow> bytes \<times> bytes option" where
  "entry_write w = (be_Key w, case be_Op w of OpPut \<Rightarrow> Some (be_Value w) | OpDelete \<Rightarrow> None)"

definition acked :: "(WriteOp \<times> go_error option) list \<Rightarrow> (bytes \<times> bytes option) list" where
  "acked log = map (\<lambda>z. op_write (fst z)) (filter (\<lambda>z. snd z = None) log)"

lemma acked_simps [simp]:
  "acked [] = []" "acked ((w, None) # l) = op_write w # acked l" "acked ((w, Some e) # l) = acked l"
  "acked (l @ l') = acked l @ acked l'"
  by (simp_all add: acked_def)

lemma entry_write_batch_entry [simp]: "entry_write (batch_entry w) = op_write w"
  by (cases "wo_Op w") (simp_all add: batch_entry_def op_write_def entry_write_def)

lemma acked_all_ok: "acked (map (\<lambda>w. (w, None)) ws) = map op_write ws"
  by (induction ws) simp_all

lemma acked_all_failed: "acked (map (\<lambda>w. (w, Some e)) ws) = []"
  by (induction ws) simp_all

locale putter =
  fixes view :: "'s \<Rightarrow> kv_map"
    and inv :: "'s \<Rightarrow> bool"
    and P :: "'s Putter"
  assumes set_law: "inv s \<Longrightarrow> write_law view s [(k, Some v)] (pt_Set P k v s)"
    and delete_law: "inv s \<Longrightarrow> write_law view s [(k, None)] (pt_Delete P k s)"
    and batch_law: "inv s \<Longrightarrow> pt_ApplyBatch P = Some ab \<Longrightarrow> write_law view s (map entry_write es) (ab es s)"
    and set_inv: "inv s \<Longrightarrow> inv (fst (pt_Set P k v s))"
    and delete_inv: "inv s \<Longrightarrow> inv (fst (pt_Delete P k s))"
    and batch_inv: "inv s \<Longrightarrow> pt_ApplyBatch P = Some ab \<Longrightarrow> inv (fst (ab es s))"
begin

lemma put_one_law: "inv s \<Longrightarrow> write_law view s [op_write w] (put_one P w s)"
  by (cases "wo_Op w") (simp_all add: put_one_def op_write_def set_law delete_law)

lemma put_one_inv: "inv s \<Longrightarrow> inv (fst (put_one P w s))"
  by (cases "wo_Op w") (simp_all add: put_one_def set_inv delete_inv)

text \<open>
  Applying a batch answers its operations in order; the acknowledged ones, and only those, have
  acted on the map.
\<close>

lemma fold_apply_one_log:
  "inv (q_store q) \<Longrightarrow> \<exists>log. map fst log = ws
     \<and> q_replies (fold (apply_one P) ws q) = q_replies q @ map (\<lambda>(w, e). (wo_Done w, e)) log
     \<and> view (q_store (fold (apply_one P) ws q)) = apply_writes (acked log) (view (q_store q))
     \<and> inv (q_store (fold (apply_one P) ws q))"
proof (induction ws arbitrary: q)
  case (Cons w ws)
  let ?q = "apply_one P w q" and ?e = "snd (put_one P w (q_store q))"
  have q: "inv (q_store ?q)"
    "view (q_store ?q) = apply_writes (acked [(w, ?e)]) (view (q_store q))"
    using put_one_law [OF Cons.prems, of w] put_one_inv [OF Cons.prems, of w]
    by (auto simp: write_law_def acked_def split: option.splits)
  obtain log where log: "map fst log = ws"
    "q_replies (fold (apply_one P) ws ?q) = q_replies ?q @ map (\<lambda>(w, e). (wo_Done w, e)) log"
    "view (q_store (fold (apply_one P) ws ?q)) = apply_writes (acked log) (view (q_store ?q))"
    "inv (q_store (fold (apply_one P) ws ?q))"
    using Cons.IH [OF q(1)] by blast
  have "acked ((w, ?e) # log) = acked [(w, ?e)] @ acked log" by (simp add: acked_def)
  with log q show ?case by (intro exI [of _ "(w, ?e) # log"]) (simp del: acked_simps)
qed simp

lemma applyBatch_log:
  "inv (q_store q) \<Longrightarrow> \<exists>log. map fst log = ws
     \<and> q_replies (applyBatch P ws q) = q_replies q @ map (\<lambda>(w, e). (wo_Done w, e)) log
     \<and> view (q_store (applyBatch P ws q)) = apply_writes (acked log) (view (q_store q))
     \<and> inv (q_store (applyBatch P ws q))"
proof (cases "ws = [] \<or> pt_ApplyBatch P = None \<or> length ws = 1")
  case True
  then have "applyBatch P ws q = fold (apply_one P) ws q"
    by (auto simp: applyBatch_def split: option.split)
  then show "inv (q_store q) \<Longrightarrow> ?thesis" using fold_apply_one_log by simp
next
  case False
  then obtain ab where ab: "pt_ApplyBatch P = Some ab" by auto
  assume inv: "inv (q_store q)"
  let ?r = "ab (map batch_entry ws) (q_store q)"
  have "map entry_write (map batch_entry ws) = map op_write ws" by simp
  then have law: "write_law view (q_store q) (map op_write ws) ?r" "inv (fst ?r)"
    using batch_law [OF inv ab, of "map batch_entry ws"] batch_inv [OF inv ab] by metis+
  have "applyBatch P ws q = fold (\<lambda>w. send_done w (snd ?r)) ws (q\<lparr>q_store := fst ?r\<rparr>)"
    using False ab by (simp add: applyBatch_def split: prod.split)
  then show ?thesis
    using law by (intro exI [of _ "map (\<lambda>w. (w, snd ?r)) ws"])
      (auto simp: write_law_def acked_all_ok acked_all_failed comp_def split: option.splits)
qed

text \<open>The same for a consumer that empties the channel.\<close>

lemma consumeLoop_log:
  "inv (q_store q) \<Longrightarrow> \<exists>log. map fst log = q_queue q
     \<and> q_replies (consumeLoop P q) = q_replies q @ map (\<lambda>(w, e). (wo_Done w, e)) log
     \<and> view (q_store (consumeLoop P q)) = apply_writes (acked log) (view (q_store q))
     \<and> inv (q_store (consumeLoop P q))"
proof -
  have "consumeLoop P q = fold (apply_one P) (q_queue q) (q\<lparr>q_queue := []\<rparr>)"
  proof (induction P q rule: consumeLoop.induct)
    case (1 P q)
    have eta: "apply_one P w (q\<lparr>q_queue := ws\<rparr>) = (apply_one P w (q\<lparr>q_queue := []\<rparr>))\<lparr>q_queue := ws\<rparr>"
      for w ws by (simp add: apply_one_def send_done_def split: prod.split)
    show ?case
    proof (cases "q_queue q")
      case (Cons w ws)
      with 1 [OF Cons] show ?thesis 
        by (simp add: consumeLoop.simps [of P q] eta [of w ws] eta [of w "[]", symmetric])
    qed (simp add: consumeLoop.simps [of P q])
  qed
  then show "inv (q_store q) \<Longrightarrow> ?thesis"
    using fold_apply_one_log [of "q\<lparr>q_queue := []\<rparr>" "q_queue q"] by simp
qed

lemma consumeBatchLoop_log:
  "inv (q_store q) \<Longrightarrow> \<exists>log. map fst log = q_queue q
     \<and> q_replies (consumeBatchLoop P q) = q_replies q @ map (\<lambda>(w, e). (wo_Done w, e)) log
     \<and> view (q_store (consumeBatchLoop P q)) = apply_writes (acked log) (view (q_store q))
     \<and> inv (q_store (consumeBatchLoop P q))"
proof (induction "length (q_queue q)" arbitrary: q rule: less_induct)
  case less
  show ?case
  proof (cases "q_queue q")
    case Nil
    then show ?thesis using less.prems by (simp add: consumeBatchLoop.simps [of P q])
  next
    case (Cons w ws)
    let ?b = "fst (collect (q_batchSize q) [w] ws)" and ?r = "snd (collect (q_batchSize q) [w] ws)"
    let ?q = "applyBatch P ?b (q\<lparr>q_queue := ?r\<rparr>)"
    have step: "consumeBatchLoop P q = consumeBatchLoop P ?q"
      using Cons by (simp add: consumeBatchLoop.simps [of P q] split: prod.split)
    have br: "?b @ ?r = w # ws" by (simp add: collect_eq)
    obtain l1 where l1: "map fst l1 = ?b"
      "q_replies ?q = q_replies q @ map (\<lambda>(w, e). (wo_Done w, e)) l1"
      "view (q_store ?q) = apply_writes (acked l1) (view (q_store q))" "inv (q_store ?q)"
      using applyBatch_log [of "q\<lparr>q_queue := ?r\<rparr>" ?b] less.prems by auto
    have "length (q_queue ?q) < length (q_queue q)"
      using Cons by (simp add: collect_eq)
    then obtain l2 where l2: "map fst l2 = ?r"
      "q_replies (consumeBatchLoop P ?q) = q_replies ?q @ map (\<lambda>(w, e). (wo_Done w, e)) l2"
      "view (q_store (consumeBatchLoop P ?q)) = apply_writes (acked l2) (view (q_store ?q))"
      "inv (q_store (consumeBatchLoop P ?q))"
      using less.hyps [OF _ l1(4)] by auto
    show ?thesis
      using l1 l2 br Cons step by (intro exI [of _ "l1 @ l2"]) simp
  qed
qed

lemma wq_consume_log:
  "inv (q_store q) \<Longrightarrow> \<exists>log. map fst log = q_queue q
     \<and> q_replies (wq_consume P q) = q_replies q @ map (\<lambda>(w, e). (wo_Done w, e)) log
     \<and> view (q_store (wq_consume P q)) = apply_writes (acked log) (view (q_store q))
     \<and> inv (q_store (wq_consume P q))"
  using consumeLoop_log consumeBatchLoop_log by (simp add: wq_consume_def)

end


section \<open>The concurrent system\<close>

text \<open>
  Program points of the consumer goroutine: blocked in the first receive, in the collecting loop
  with the batch so far, about to apply a batch (and whether it returns afterwards), returned.
  Of \<open>Stop\<close>: not called, draining under the write lock, waiting for the goroutines, returned.
\<close>

datatype consumer = Receiving | Collecting "WriteOp list" | Applying "WriteOp list" bool | Exited

datatype stopper = NotStopped | Draining | Waiting | Returned

text \<open>
  The last three fields are histories: the operations \<open>Submit\<close> accepted, those taken out of the
  channel (with \<open>True\<close> for the consumer, \<open>False\<close> for \<open>Stop\<close>), and the results the consumer sent.
\<close>

record 's wq_sys =
  ws_q :: "'s Queue"
  ws_cons :: consumer
  ws_stop :: stopper
  ws_accepted :: "WriteOp list"
  ws_taken :: "(WriteOp \<times> bool) list"
  ws_log :: "(WriteOp \<times> go_error option) list"

definition ws_init :: "QueueConfig \<Rightarrow> 's \<Rightarrow> 's wq_sys" where
  "ws_init cfg s =
     \<lparr>ws_q = wq_New cfg s, ws_cons = Receiving, ws_stop = NotStopped, ws_accepted = [],
      ws_taken = [], ws_log = []\<rparr>"

definition run_batch :: "'s Putter \<Rightarrow> WriteOp list \<Rightarrow> 's Queue \<Rightarrow> 's Queue" where
  "run_batch P ws q = (if 0 < q_batchSize q then applyBatch P ws q else fold (apply_one P) ws q)"

text \<open>
  One step of the consumer, or of a \<open>Stop\<close> that already holds the write lock (it runs once; later
  calls return at once).  No call of a client is among these steps: neither a \<open>Submit\<close> nor the
  beginning of a \<open>Stop\<close>.
\<close>

inductive wq_work :: "'s Putter \<Rightarrow> 's wq_sys \<Rightarrow> 's wq_sys \<Rightarrow> bool" for P :: "'s Putter" where
  stop_drain: "ws_stop \<sigma> = Draining \<Longrightarrow> q_queue (ws_q \<sigma>) = w # ws \<Longrightarrow>
    wq_work P \<sigma> (\<sigma>\<lparr>ws_q := send_done w (Some ErrStopped) ((ws_q \<sigma>)\<lparr>q_queue := ws\<rparr>),
                  ws_taken := ws_taken \<sigma> @ [(w, False)]\<rparr>)"
| stop_close: "ws_stop \<sigma> = Draining \<Longrightarrow> q_queue (ws_q \<sigma>) = [] \<Longrightarrow>
    wq_work P \<sigma> (\<sigma>\<lparr>ws_q := (ws_q \<sigma>)\<lparr>q_closed := True\<rparr>, ws_stop := Waiting\<rparr>)"
| stop_return: "ws_stop \<sigma> = Waiting \<Longrightarrow> ws_cons \<sigma> = Exited \<Longrightarrow>
    wq_work P \<sigma> (\<sigma>\<lparr>ws_stop := Returned\<rparr>)"
| recv: "ws_cons \<sigma> = Receiving \<Longrightarrow> q_queue (ws_q \<sigma>) = w # ws \<Longrightarrow>
    wq_work P \<sigma> (\<sigma>\<lparr>ws_q := (ws_q \<sigma>)\<lparr>q_queue := ws\<rparr>, ws_taken := ws_taken \<sigma> @ [(w, True)],
                  ws_cons := (if 0 < q_batchSize (ws_q \<sigma>) then Collecting [w] else Applying [w] False)\<rparr>)"
| recv_closed: "ws_cons \<sigma> = Receiving \<Longrightarrow> q_queue (ws_q \<sigma>) = [] \<Longrightarrow> q_closed (ws_q \<sigma>) \<Longrightarrow>
    wq_work P \<sigma> (\<sigma>\<lparr>ws_cons := Exited\<rparr>)"
| collect_more: "ws_cons \<sigma> = Collecting b \<Longrightarrow> int (length b) < q_batchSize (ws_q \<sigma>) \<Longrightarrow>
    q_queue (ws_q \<sigma>) = w # ws \<Longrightarrow>
    wq_work P \<sigma> (\<sigma>\<lparr>ws_q := (ws_q \<sigma>)\<lparr>q_queue := ws\<rparr>, ws_taken := ws_taken \<sigma> @ [(w, True)],
                  ws_cons := Collecting (b @ [w])\<rparr>)"
| collect_empty: "ws_cons \<sigma> = Collecting b \<Longrightarrow> int (length b) < q_batchSize (ws_q \<sigma>) \<Longrightarrow>
    q_queue (ws_q \<sigma>) = [] \<Longrightarrow>
    wq_work P \<sigma> (\<sigma>\<lparr>ws_cons := Applying b (q_closed (ws_q \<sigma>))\<rparr>)"
| collect_full: "ws_cons \<sigma> = Collecting b \<Longrightarrow> q_batchSize (ws_q \<sigma>) \<le> int (length b) \<Longrightarrow>
    wq_work P \<sigma> (\<sigma>\<lparr>ws_cons := Applying b False\<rparr>)"
| apply_batch: "ws_cons \<sigma> = Applying b ex \<Longrightarrow> run_batch P b (ws_q \<sigma>) = q \<Longrightarrow>
    map fst log = b \<Longrightarrow>
    q_replies q = q_replies (ws_q \<sigma>) @ map (\<lambda>(w, e). (wo_Done w, e)) log \<Longrightarrow>
    wq_work P \<sigma> (\<sigma>\<lparr>ws_q := q, ws_cons := (if ex then Exited else Receiving),
                  ws_log := ws_log \<sigma> @ log\<rparr>)"

text \<open>
  One step of any goroutine: a call of \<open>Submit\<close>, a sample of the memory monitor, a call of \<open>Stop\<close>
  taking the write lock, or work.  \<open>Submit\<close> holds the read lock over its check and its send, so it is
  one step and is not taken while \<open>Stop\<close> holds the write lock; each producer has its own fresh
  \<open>Done\<close> channel.
\<close>

inductive wq_step :: "'s Putter \<Rightarrow> 's wq_sys \<Rightarrow> 's wq_sys \<Rightarrow> bool" for P :: "'s Putter" where
  submit: "ws_stop \<sigma> \<noteq> Draining \<Longrightarrow> wo_Done w \<notin> wo_Done ` set (ws_accepted \<sigma>) \<Longrightarrow>
    wq_Submit w (ws_q \<sigma>) = (q, r) \<Longrightarrow>
    wq_step P \<sigma> (\<sigma>\<lparr>ws_q := q, ws_accepted := ws_accepted \<sigma> @ (if r = None then [w] else [])\<rparr>)"
| sample: "0 < q_maxMem (ws_q \<sigma>) \<Longrightarrow> ws_stop \<sigma> \<noteq> Returned \<Longrightarrow>
    wq_step P \<sigma> (\<sigma>\<lparr>ws_q := memMonitor_tick alloc (ws_q \<sigma>)\<rparr>)"
| stop_begin: "ws_stop \<sigma> = NotStopped \<Longrightarrow>
    wq_step P \<sigma> (\<sigma>\<lparr>ws_q := (ws_q \<sigma>)\<lparr>q_stopped := True\<rparr>, ws_stop := Draining\<rparr>)"
| work: "wq_work P \<sigma> \<tau> \<Longrightarrow> wq_step P \<sigma> \<tau>"

inductive wq_reach :: "'s Putter \<Rightarrow> QueueConfig \<Rightarrow> 's \<Rightarrow> 's wq_sys \<Rightarrow> bool"
  for P :: "'s Putter" and cfg :: QueueConfig and s0 :: 's where
  init: "wq_reach P cfg s0 (ws_init cfg s0)"
| step: "wq_reach P cfg s0 \<sigma> \<Longrightarrow> wq_step P \<sigma> \<tau> \<Longrightarrow> wq_reach P cfg s0 \<tau>"

inductive_cases wq_stepE: "wq_step P \<sigma> \<tau>"
inductive_cases wq_workE: "wq_work P \<sigma> \<tau>"

fun hands :: "consumer \<Rightarrow> WriteOp list" where
  "hands (Collecting b) = b"
| "hands (Applying b ex) = b"
| "hands _ = []"

section \<open>The invariant\<close>

text \<open>What \<open>Stop\<close> and the flags of the queue agree on.\<close>

definition stop_ok :: "'s wq_sys \<Rightarrow> bool" where
  "stop_ok \<sigma> \<longleftrightarrow>
     (q_stopped (ws_q \<sigma>) \<longleftrightarrow> ws_stop \<sigma> \<noteq> NotStopped)
   \<and> (q_closed (ws_q \<sigma>) \<longleftrightarrow> ws_stop \<sigma> \<in> {Waiting, Returned})
   \<and> (q_closed (ws_q \<sigma>) \<longrightarrow> q_queue (ws_q \<sigma>) = [])
   \<and> (ws_stop \<sigma> = Returned \<longrightarrow> ws_cons \<sigma> = Exited)
   \<and> (ws_cons \<sigma> = Exited \<longrightarrow> q_closed (ws_q \<sigma>))
   \<and> (\<forall>b. ws_cons \<sigma> = Applying b True \<longrightarrow> q_closed (ws_q \<sigma>))
   \<and> (ws_stop \<sigma> = NotStopped \<longrightarrow> filter (\<lambda>z. \<not> snd z) (ws_taken \<sigma>) = [])"

text \<open>Where every accepted operation is; the channels they answer on are different.\<close>

definition flow_ok :: "'s wq_sys \<Rightarrow> bool" where
  "flow_ok \<sigma> \<longleftrightarrow>
     ws_accepted \<sigma> = map fst (ws_taken \<sigma>) @ q_queue (ws_q \<sigma>)
   \<and> map fst (filter snd (ws_taken \<sigma>)) = map fst (ws_log \<sigma>) @ hands (ws_cons \<sigma>)
   \<and> mset (q_replies (ws_q \<sigma>))
       = mset (map (\<lambda>(w, e). (wo_Done w, e)) (ws_log \<sigma>))
         + mset (map (\<lambda>z. (wo_Done (fst z), Some ErrStopped)) (filter (\<lambda>z. \<not> snd z) (ws_taken \<sigma>)))"

definition ids_ok :: "'s wq_sys \<Rightarrow> bool" where
  "ids_ok \<sigma> \<longleftrightarrow> distinct (map wo_Done (ws_accepted \<sigma>))"

definition size_ok :: "'s wq_sys \<Rightarrow> bool" where
  "size_ok \<sigma> \<longleftrightarrow> length (q_queue (ws_q \<sigma>)) \<le> q_cap (ws_q \<sigma>)
     \<and> int (length (hands (ws_cons \<sigma>))) \<le> max 1 (q_batchSize (ws_q \<sigma>))
     \<and> (\<forall>b. ws_cons \<sigma> = Collecting b \<longrightarrow> 0 < q_batchSize (ws_q \<sigma>) \<and> b \<noteq> [])"

definition store_ok :: "('s \<Rightarrow> kv_map) \<Rightarrow> ('s \<Rightarrow> bool) \<Rightarrow> 's \<Rightarrow> 's wq_sys \<Rightarrow> bool" where
  "store_ok view ok s0 \<sigma> \<longleftrightarrow> ok (q_store (ws_q \<sigma>))
     \<and> view (q_store (ws_q \<sigma>)) = apply_writes (acked (ws_log \<sigma>)) (view s0)"

lemma run_batch_frame [simp]:
  "q_queue (run_batch P ws q) = q_queue q" "q_batchSize (run_batch P ws q) = q_batchSize q"
  "q_cap (run_batch P ws q) = q_cap q" "q_stopped (run_batch P ws q) = q_stopped q"
  "q_closed (run_batch P ws q) = q_closed q" "q_memExceeded (run_batch P ws q) = q_memExceeded q"
  by (simp_all add: run_batch_def)

lemma memMonitor_frame [simp]:
  "q_queue (memMonitor_tick a q) = q_queue q" "q_batchSize (memMonitor_tick a q) = q_batchSize q"
  "q_cap (memMonitor_tick a q) = q_cap q" "q_stopped (memMonitor_tick a q) = q_stopped q"
  "q_closed (memMonitor_tick a q) = q_closed q" "q_replies (memMonitor_tick a q) = q_replies q"
  "q_store (memMonitor_tick a q) = q_store q"
  by (simp_all add: memMonitor_tick_def)

lemma wq_Submit_cases:
  "wq_Submit w q = (q', r) \<Longrightarrow>
     r = None \<and> \<not> q_stopped q \<and> length (q_queue q) < q_cap q \<and> q' = q\<lparr>q_queue := q_queue q @ [w]\<rparr>
   \<or> r \<noteq> None \<and> q' = q"
  by (auto simp: wq_Submit_def split: if_splits)

lemma stop_ok_work: "wq_work P \<sigma> \<tau> \<Longrightarrow> stop_ok \<sigma> \<Longrightarrow> stop_ok \<tau>"
  by (induction rule: wq_work.induct) (auto simp: stop_ok_def)

lemma size_ok_work: "wq_work P \<sigma> \<tau> \<Longrightarrow> size_ok \<sigma> \<Longrightarrow> size_ok \<tau>"
  by (induction rule: wq_work.induct) (auto simp: size_ok_def)

lemma flow_ok_work: "wq_work P \<sigma> \<tau> \<Longrightarrow> flow_ok \<sigma> \<Longrightarrow> flow_ok \<tau>"
  by (induction rule: wq_work.induct) (auto simp: flow_ok_def)

lemma work_accepted: "wq_work P \<sigma> \<tau> \<Longrightarrow> ws_accepted \<tau> = ws_accepted \<sigma>"
  by (induction rule: wq_work.induct) simp_all

lemma submit_ok:
  assumes "wo_Done w \<notin> wo_Done ` set (ws_accepted \<sigma>)" and "wq_Submit w (ws_q \<sigma>) = (q, r)"
    and "\<tau> = \<sigma>\<lparr>ws_q := q, ws_accepted := ws_accepted \<sigma> @ (if r = None then [w] else [])\<rparr>"
  shows "stop_ok \<sigma> \<Longrightarrow> stop_ok \<tau>" "size_ok \<sigma> \<Longrightarrow> size_ok \<tau>" "flow_ok \<sigma> \<Longrightarrow> flow_ok \<tau>"
    "ids_ok \<sigma> \<Longrightarrow> ids_ok \<tau>"
proof -
  note D = wq_Submit_cases [OF assms(2)] assms(1,3)
  show "stop_ok \<sigma> \<Longrightarrow> stop_ok \<tau>" using D by (auto simp: stop_ok_def)
  show "size_ok \<sigma> \<Longrightarrow> size_ok \<tau>" using D by (auto simp: size_ok_def)
  show "flow_ok \<sigma> \<Longrightarrow> flow_ok \<tau>" using D by (auto simp: flow_ok_def)
  show "ids_ok \<sigma> \<Longrightarrow> ids_ok \<tau>" using D by (auto simp: ids_ok_def)
qed

text \<open>The invariant of the concurrent system.\<close>

definition wq_ok :: "'s wq_sys \<Rightarrow> bool" where
  "wq_ok \<sigma> \<longleftrightarrow> stop_ok \<sigma> \<and> size_ok \<sigma> \<and> flow_ok \<sigma> \<and> ids_ok \<sigma>"

lemma work_ok: "wq_work P \<sigma> \<tau> \<Longrightarrow> wq_ok \<sigma> \<Longrightarrow> wq_ok \<tau>"
  using stop_ok_work size_ok_work flow_ok_work
  by (simp add: wq_ok_def ids_ok_def work_accepted) blast

lemma step_ok:
  assumes "wq_step P \<sigma> \<tau>" and "wq_ok \<sigma>" shows "wq_ok \<tau>"
  using assms(1)
proof cases
  case (submit w q r)
  from submit_ok [OF submit(3,4,1)] assms(2) show ?thesis by (simp add: wq_ok_def)
next
  case (sample alloc)
  have "stop_ok \<tau> = stop_ok \<sigma>" using sample by (simp add: stop_ok_def)
  moreover have "size_ok \<tau> = size_ok \<sigma>" using sample by (simp add: size_ok_def)
  moreover have "flow_ok \<tau> = flow_ok \<sigma>" using sample by (simp add: flow_ok_def)
  moreover have "ids_ok \<tau> = ids_ok \<sigma>" using sample by (simp add: ids_ok_def)
  ultimately show ?thesis using assms(2) by (simp add: wq_ok_def)
next
  case stop_begin
  then have "stop_ok \<sigma> \<Longrightarrow> stop_ok \<tau>" by (auto simp: stop_ok_def)
  moreover have "size_ok \<tau> = size_ok \<sigma>" using stop_begin by (simp add: size_ok_def)
  moreover have "flow_ok \<tau> = flow_ok \<sigma>" using stop_begin by (simp add: flow_ok_def)
  moreover have "ids_ok \<tau> = ids_ok \<sigma>" using stop_begin by (simp add: ids_ok_def)
  ultimately show ?thesis using assms(2) by (simp add: wq_ok_def)
next
  case work
  with assms(2) show ?thesis by (simp add: work_ok)
qed

lemma init_ok: "wq_ok (ws_init cfg s)"
  by (simp add: ws_init_def wq_New_def wq_ok_def stop_ok_def size_ok_def flow_ok_def ids_ok_def)

lemma wq_reach_ok: "wq_reach P cfg s0 \<sigma> \<Longrightarrow> wq_ok \<sigma>"
  by (induction rule: wq_reach.induct) (simp_all add: init_ok step_ok)

lemma run_batch_eq: "length b \<le> 1 \<Longrightarrow> run_batch P b q = applyBatch P b q"
  by (cases b) (auto simp: run_batch_def applyBatch_def split: option.split)

lemma batch_small:
  "size_ok \<sigma> \<Longrightarrow> ws_cons \<sigma> = Applying b ex \<Longrightarrow> run_batch P b (ws_q \<sigma>) = applyBatch P b (ws_q \<sigma>)"
  by (cases "0 < q_batchSize (ws_q \<sigma>)") (simp_all add: run_batch_def size_ok_def run_batch_eq [symmetric])

text \<open>A batch is always answered, whatever the putter does.\<close>

lemma fold_apply_one_replies:
  "\<exists>log. map fst log = ws
     \<and> q_replies (fold (apply_one P) ws q) = q_replies q @ map (\<lambda>(w, e). (wo_Done w, e)) log"
proof (induction ws arbitrary: q)
  case (Cons w ws)
  from Cons [of "apply_one P w q"] obtain log where "map fst log = ws"
    "q_replies (fold (apply_one P) ws (apply_one P w q))
      = q_replies (apply_one P w q) @ map (\<lambda>(w, e). (wo_Done w, e)) log" by blast
  then show ?case by (intro exI [of _ "(w, snd (put_one P w (q_store q))) # log"]) simp
qed simp

lemma applyBatch_replies:
  "\<exists>log. map fst log = ws
     \<and> q_replies (applyBatch P ws q) = q_replies q @ map (\<lambda>(w, e). (wo_Done w, e)) log"
proof (cases "ws = [] \<or> pt_ApplyBatch P = None \<or> length ws = 1")
  case True
  then have "applyBatch P ws q = fold (apply_one P) ws q"
    by (auto simp: applyBatch_def split: option.split)
  then show ?thesis using fold_apply_one_replies by simp
next
  case False
  then obtain ab where ab: "pt_ApplyBatch P = Some ab" by auto
  let ?r = "ab (map batch_entry ws) (q_store q)"
  have "applyBatch P ws q = fold (\<lambda>w. send_done w (snd ?r)) ws (q\<lparr>q_store := fst ?r\<rparr>)"
    using False ab by (simp add: applyBatch_def split: prod.split)
  then show ?thesis
    by (intro exI [of _ "map (\<lambda>w. (w, snd ?r)) ws"]) (simp add: comp_def)
qed

lemma run_batch_replies:
  "\<exists>log. map fst log = ws
     \<and> q_replies (run_batch P ws q) = q_replies q @ map (\<lambda>(w, e). (wo_Done w, e)) log"
  by (simp add: run_batch_def applyBatch_replies fold_apply_one_replies)

lemma answers_inj:
  "map fst l = map fst l' \<Longrightarrow> map (\<lambda>(w, e). (wo_Done w, e)) l = map (\<lambda>(w, e). (wo_Done w, e)) l' \<Longrightarrow> l = l'"
proof (induction l arbitrary: l')
  case (Cons x l)
  then show ?case by (cases l') (auto simp: case_prod_unfold prod_eq_iff)
qed simp

context putter begin

lemma run_batch_log:
  "inv (q_store q) \<Longrightarrow> \<exists>log. map fst log = ws
     \<and> q_replies (run_batch P ws q) = q_replies q @ map (\<lambda>(w, e). (wo_Done w, e)) log
     \<and> view (q_store (run_batch P ws q)) = apply_writes (acked log) (view (q_store q))
     \<and> inv (q_store (run_batch P ws q))"
  using applyBatch_log fold_apply_one_log by (simp add: run_batch_def)

lemma store_ok_work: "wq_work P \<sigma> \<tau> \<Longrightarrow> store_ok view inv s0 \<sigma> \<Longrightarrow> store_ok view inv s0 \<tau>"
proof (induction rule: wq_work.induct)
  case (apply_batch \<sigma> b ex q log)
  then obtain log' where log': "map fst log' = b"
    "q_replies (run_batch P b (ws_q \<sigma>)) = q_replies (ws_q \<sigma>) @ map (\<lambda>(w, e). (wo_Done w, e)) log'"
    "view (q_store (run_batch P b (ws_q \<sigma>))) = apply_writes (acked log') (view (q_store (ws_q \<sigma>)))"
    "inv (q_store (run_batch P b (ws_q \<sigma>)))"
    using run_batch_log [of "ws_q \<sigma>" b] by (auto simp: store_ok_def)
  then have "log' = log" using apply_batch by (intro answers_inj) auto
  with apply_batch log' show ?case by (simp add: store_ok_def)
qed (simp_all add: store_ok_def)

lemma store_ok_step: "wq_step P \<sigma> \<tau> \<Longrightarrow> store_ok view inv s0 \<sigma> \<Longrightarrow> store_ok view inv s0 \<tau>"
proof (induction rule: wq_step.induct)
  case (submit \<sigma> w q r)
  from wq_Submit_cases [OF submit(3)] submit(4) show ?case by (auto simp: store_ok_def)
qed (simp_all add: store_ok_def store_ok_work [unfolded store_ok_def])

lemma reach_store_ok: "wq_reach P cfg s0 \<sigma> \<Longrightarrow> inv s0 \<Longrightarrow> store_ok view inv s0 \<sigma>"
proof (induction rule: wq_reach.induct)
  case init
  then show ?case by (simp add: store_ok_def ws_init_def wq_New_def)
qed (simp add: store_ok_step)

end


section \<open>Progress\<close>

fun cons_weight :: "consumer \<Rightarrow> nat" where
  "cons_weight Exited = 0"
| "cons_weight Receiving = 1"
| "cons_weight (Applying b ex) = 2"
| "cons_weight (Collecting b) = 3"

fun stop_weight :: "stopper \<Rightarrow> nat" where
  "stop_weight NotStopped = 3"
| "stop_weight Draining = 2"
| "stop_weight Waiting = 1"
| "stop_weight Returned = 0"

definition ws_measure :: "'s wq_sys \<Rightarrow> nat" where
  "ws_measure \<sigma> = 4 * length (q_queue (ws_q \<sigma>)) + cons_weight (ws_cons \<sigma>) + stop_weight (ws_stop \<sigma>)"

lemma work_measure: "wq_work P \<sigma> \<tau> \<Longrightarrow> ws_measure \<tau> < ws_measure \<sigma>"
  by (induction rule: wq_work.induct) (auto simp: ws_measure_def)

lemma work_terminates: "wfP (\<lambda>\<tau> \<sigma>. wq_work P \<sigma> \<tau>)"
  by (rule wfp_if_convertible_to_nat [where f = ws_measure]) (rule work_measure)

definition unanswered :: "'s wq_sys \<Rightarrow> WriteOp list" where
  "unanswered \<sigma> = hands (ws_cons \<sigma>) @ q_queue (ws_q \<sigma>)"

lemma answers_partition:
  assumes "flow_ok \<sigma>"
  shows "mset (map wo_Done (ws_accepted \<sigma>))
    = mset (map fst (q_replies (ws_q \<sigma>))) + mset (map wo_Done (unanswered \<sigma>))"
proof -
  have split: "mset (map f xs) = mset (map f (filter snd xs)) + mset (map f (filter (\<lambda>z. \<not> snd z) xs))"
    for f :: "'x \<times> bool \<Rightarrow> nat" and xs by (induction xs) auto
  have "mset (map fst (q_replies (ws_q \<sigma>)))
      = image_mset fst (mset (map (\<lambda>(w, e). (wo_Done w, e)) (ws_log \<sigma>))
         + mset (map (\<lambda>z. (wo_Done (fst z), Some ErrStopped)) (filter (\<lambda>z. \<not> snd z) (ws_taken \<sigma>))))"
    using assms by (simp add: flow_ok_def)
  also have "\<dots> = mset (map wo_Done (map fst (ws_log \<sigma>)))
      + mset (map (\<lambda>z. wo_Done (fst z)) (filter (\<lambda>z. \<not> snd z) (ws_taken \<sigma>)))"
    by (simp add: multiset.map_comp comp_def case_prod_unfold)
  finally have r: "mset (map fst (q_replies (ws_q \<sigma>))) = \<dots>" .
  have t: "map wo_Done (map fst (filter snd (ws_taken \<sigma>)))
      = map wo_Done (map fst (ws_log \<sigma>)) @ map wo_Done (hands (ws_cons \<sigma>))"
    using assms by (simp add: flow_ok_def)
  have "mset (map (\<lambda>z. wo_Done (fst z)) (ws_taken \<sigma>))
      = mset (map wo_Done (map fst (filter snd (ws_taken \<sigma>))))
        + mset (map (\<lambda>z. wo_Done (fst z)) (filter (\<lambda>z. \<not> snd z) (ws_taken \<sigma>)))"
    using split [of "\<lambda>z. wo_Done (fst z)"] by (simp add: comp_def)
  then have "mset (map (\<lambda>z. wo_Done (fst z)) (ws_taken \<sigma>))
      = mset (map fst (q_replies (ws_q \<sigma>))) + mset (map wo_Done (hands (ws_cons \<sigma>)))"
    unfolding t r by (simp add: ac_simps)
  moreover have "map wo_Done (ws_accepted \<sigma>)
      = map (\<lambda>z. wo_Done (fst z)) (ws_taken \<sigma>) @ map wo_Done (q_queue (ws_q \<sigma>))"
    using assms by (simp add: flow_ok_def comp_def)
  ultimately show ?thesis by (simp add: unanswered_def ac_simps)
qed

lemma work_enabled:
  assumes "stop_ok \<sigma>" and "unanswered \<sigma> \<noteq> []"
  shows "\<exists>\<tau>. wq_work P \<sigma> \<tau>"
proof (cases "ws_cons \<sigma>")
  case Receiving
  with assms(2) obtain w ws where "q_queue (ws_q \<sigma>) = w # ws"
    by (cases "q_queue (ws_q \<sigma>)") (auto simp: unanswered_def)
  with wq_work.recv [OF Receiving] show ?thesis by blast
next
  case (Collecting b)
  then show ?thesis
    using wq_work.collect_more [OF Collecting] wq_work.collect_empty [OF Collecting]
      wq_work.collect_full [OF Collecting]
    by (metis list.exhaust not_le)
next
  case (Applying b ex)
  then show ?thesis
    using wq_work.apply_batch [OF Applying refl] run_batch_replies [of b P "ws_q \<sigma>"] by blast
next
  case Exited
  with assms show ?thesis by (auto simp: stop_ok_def unanswered_def)
qed

lemma work_finishes:
  "stop_ok \<sigma> \<Longrightarrow> \<exists>\<tau>. (wq_work P)\<^sup>*\<^sup>* \<sigma> \<tau> \<and> unanswered \<tau> = []"
proof (induction "ws_measure \<sigma>" arbitrary: \<sigma> rule: less_induct)
  case less
  show ?case
  proof (cases "unanswered \<sigma> = []")
    case False
    then obtain \<tau> where t: "wq_work P \<sigma> \<tau>" using work_enabled less.prems by blast
    then obtain \<upsilon> where "(wq_work P)\<^sup>*\<^sup>* \<tau> \<upsilon>" "unanswered \<upsilon> = []"
      using less.hyps [OF work_measure stop_ok_work] less.prems by blast
    with t show ?thesis by (blast intro: converse_rtranclp_into_rtranclp)
  qed blast
qed

lemma work_star_keeps:
  "(wq_work P)\<^sup>*\<^sup>* \<sigma> \<tau> \<Longrightarrow> wq_ok \<sigma> \<Longrightarrow> wq_ok \<tau> \<and> ws_accepted \<tau> = ws_accepted \<sigma>"
  by (induction rule: rtranclp_induct) (auto simp: work_ok work_accepted)

lemma work_not_stopped: "wq_work P \<sigma> \<tau> \<Longrightarrow> ws_stop \<tau> = NotStopped \<longleftrightarrow> ws_stop \<sigma> = NotStopped"
  by (induction rule: wq_work.induct) simp_all

lemma work_star_not_stopped:
  "(wq_work P)\<^sup>*\<^sup>* \<sigma> \<tau> \<Longrightarrow> ws_stop \<tau> = NotStopped \<longleftrightarrow> ws_stop \<sigma> = NotStopped"
  by (induction rule: rtranclp_induct) (simp_all add: work_not_stopped)

section \<open>The consumer functions are runs of the system\<close>

lemma work_collect:
  "ws_cons \<sigma> = Collecting b \<Longrightarrow> ws_q \<sigma> = q \<Longrightarrow> 0 < q_batchSize q \<Longrightarrow> \<not> q_closed q \<Longrightarrow>
    collect (q_batchSize q) b (q_queue q) = (b', rest) \<Longrightarrow>
    \<exists>\<tau>. (wq_work P)\<^sup>*\<^sup>* \<sigma> \<tau> \<and> ws_cons \<tau> = Applying b' False \<and> ws_q \<tau> = q\<lparr>q_queue := rest\<rparr>"
proof (induction "q_queue q" arbitrary: \<sigma> b q)
  case Nil
  let ?t = "\<sigma>\<lparr>ws_cons := Applying b False\<rparr>"
  have "wq_work P \<sigma> ?t"
    using wq_work.collect_empty [of \<sigma> b P] wq_work.collect_full [of \<sigma> b P] Nil
    by (cases "int (length b) < q_batchSize q") auto
  with Nil show ?case by (intro exI [of _ ?t]) (auto simp flip: Nil(1))
next
  case (Cons w ws)
  show ?case
  proof (cases "int (length b) < q_batchSize q")
    case True
    let ?q = "q\<lparr>q_queue := ws\<rparr>"
    let ?s = "\<sigma>\<lparr>ws_q := ?q, ws_taken := ws_taken \<sigma> @ [(w, True)], ws_cons := Collecting (b @ [w])\<rparr>"
    have step: "wq_work P \<sigma> ?s"
      using wq_work.collect_more [of \<sigma> b w ws P] Cons True by simp
    have "\<exists>\<tau>. (wq_work P)\<^sup>*\<^sup>* ?s \<tau> \<and> ws_cons \<tau> = Applying b' False \<and> ws_q \<tau> = ?q\<lparr>q_queue := rest\<rparr>"
      using Cons.prems Cons(2) [symmetric] True by (intro Cons.hyps(1)) auto
    with step show ?thesis
      by (auto intro: converse_rtranclp_into_rtranclp)
  next
    case False
    let ?t = "\<sigma>\<lparr>ws_cons := Applying b False\<rparr>"
    have "wq_work P \<sigma> ?t"
      using wq_work.collect_full [of \<sigma> b P] Cons.prems False by simp
    with Cons False show ?thesis by (intro exI [of _ ?t]) (auto simp flip: Cons(2))
  qed
qed

lemma work_round:
  assumes "ws_cons \<sigma> = Receiving" and "\<not> q_closed (ws_q \<sigma>)" and "q_queue (ws_q \<sigma>) = w # ws"
    and "0 < q_batchSize (ws_q \<sigma>)" and "collect (q_batchSize (ws_q \<sigma>)) [w] ws = (b, rest)"
  shows "\<exists>\<tau>. (wq_work P)\<^sup>*\<^sup>* \<sigma> \<tau> \<and> ws_cons \<tau> = Receiving
    \<and> ws_q \<tau> = applyBatch P b ((ws_q \<sigma>)\<lparr>q_queue := rest\<rparr>)"
proof -
  let ?s = "\<sigma>\<lparr>ws_q := (ws_q \<sigma>)\<lparr>q_queue := ws\<rparr>, ws_taken := ws_taken \<sigma> @ [(w, True)],
              ws_cons := Collecting [w]\<rparr>"
  have "wq_work P \<sigma> ?s" using wq_work.recv [OF assms(1,3), of P] assms(4) by simp
  moreover obtain \<tau> where t: "(wq_work P)\<^sup>*\<^sup>* ?s \<tau>" "ws_cons \<tau> = Applying b False"
    "ws_q \<tau> = (ws_q \<sigma>)\<lparr>q_queue := rest\<rparr>"
    using work_collect [of ?s "[w]" "(ws_q \<sigma>)\<lparr>q_queue := ws\<rparr>" b rest P] assms(2,4,5) by auto
  moreover obtain log where log: "map fst log = b"
    "q_replies (run_batch P b (ws_q \<tau>)) = q_replies (ws_q \<tau>) @ map (\<lambda>(w, e). (wo_Done w, e)) log"
    using run_batch_replies by blast
  have "wq_work P \<tau> (\<tau>\<lparr>ws_q := run_batch P b (ws_q \<tau>), ws_cons := Receiving,
      ws_log := ws_log \<tau> @ log\<rparr>)"
    using wq_work.apply_batch [OF t(2) refl log] by simp
  ultimately have "(wq_work P)\<^sup>*\<^sup>* \<sigma> (\<tau>\<lparr>ws_q := run_batch P b (ws_q \<tau>), ws_cons := Receiving,
      ws_log := ws_log \<tau> @ log\<rparr>)"
    by (meson converse_rtranclp_into_rtranclp rtranclp.rtrancl_into_rtrancl)
  moreover have "run_batch P b (ws_q \<tau>) = applyBatch P b ((ws_q \<sigma>)\<lparr>q_queue := rest\<rparr>)"
    using assms(4) t(3) by (simp add: run_batch_def)
  ultimately show ?thesis
    by (intro exI [of _ "\<tau>\<lparr>ws_q := run_batch P b (ws_q \<tau>), ws_cons := Receiving,
        ws_log := ws_log \<tau> @ log\<rparr>"]) simp
qed

lemma work_single:
  assumes "ws_cons \<sigma> = Receiving" and "q_queue (ws_q \<sigma>) = w # ws" and "\<not> 0 < q_batchSize (ws_q \<sigma>)"
  shows "\<exists>\<tau>. (wq_work P)\<^sup>*\<^sup>* \<sigma> \<tau> \<and> ws_cons \<tau> = Receiving
    \<and> ws_q \<tau> = apply_one P w ((ws_q \<sigma>)\<lparr>q_queue := ws\<rparr>)"
proof -
  let ?q = "(ws_q \<sigma>)\<lparr>q_queue := ws\<rparr>"
  let ?s = "\<sigma>\<lparr>ws_q := ?q, ws_taken := ws_taken \<sigma> @ [(w, True)], ws_cons := Applying [w] False\<rparr>"
  let ?t = "?s\<lparr>ws_q := apply_one P w ?q, ws_cons := Receiving,
               ws_log := ws_log \<sigma> @ [(w, snd (put_one P w (q_store ?q)))]\<rparr>"
  have "wq_work P \<sigma> ?s" using wq_work.recv [OF assms(1,2), of P] assms(3) by simp
  moreover have "wq_work P ?s ?t"
    using wq_work.apply_batch [of ?s "[w]" False P "apply_one P w ?q"
        "[(w, snd (put_one P w (q_store ?q)))]"] assms(3)
    by (simp add: run_batch_def)
  ultimately have "(wq_work P)\<^sup>*\<^sup>* \<sigma> ?t"
    by (meson converse_rtranclp_into_rtranclp rtranclp.rtrancl_refl)
  then show ?thesis by (intro exI [of _ ?t]) simp
qed

lemma consume_is_run:
  "ws_cons \<sigma> = Receiving \<Longrightarrow> \<not> q_closed (ws_q \<sigma>) \<Longrightarrow>
    \<exists>\<tau>. (wq_work P)\<^sup>*\<^sup>* \<sigma> \<tau> \<and> ws_cons \<tau> = Receiving \<and> ws_q \<tau> = wq_consume P (ws_q \<sigma>)"
proof (induction "length (q_queue (ws_q \<sigma>))" arbitrary: \<sigma> rule: less_induct)
  case less
  show ?case
  proof (cases "q_queue (ws_q \<sigma>)")
    case Nil
    then show ?thesis using less.prems
      by (intro exI [of _ \<sigma>])
        (simp add: wq_consume_def consumeLoop.simps [of P "ws_q \<sigma>"] consumeBatchLoop.simps [of P "ws_q \<sigma>"])
  next
    case (Cons w ws)
    obtain b rest where br: "collect (q_batchSize (ws_q \<sigma>)) [w] ws = (b, rest)" by fastforce
    then have len: "length rest < length (q_queue (ws_q \<sigma>))" using Cons by (auto simp: collect_eq)
    let ?q = "if 0 < q_batchSize (ws_q \<sigma>) then applyBatch P b ((ws_q \<sigma>)\<lparr>q_queue := rest\<rparr>)
              else apply_one P w ((ws_q \<sigma>)\<lparr>q_queue := ws\<rparr>)"
    obtain \<tau> where t: "(wq_work P)\<^sup>*\<^sup>* \<sigma> \<tau>" "ws_cons \<tau> = Receiving" "ws_q \<tau> = ?q"
      using work_round [OF less.prems Cons _ br] work_single [OF less.prems(1) Cons]
      by (cases "0 < q_batchSize (ws_q \<sigma>)") fastforce+
    then obtain \<upsilon> where u: "(wq_work P)\<^sup>*\<^sup>* \<tau> \<upsilon>" "ws_cons \<upsilon> = Receiving" "ws_q \<upsilon> = wq_consume P ?q"
      using less.hyps [of \<tau>] less.prems Cons len by (cases "0 < q_batchSize (ws_q \<sigma>)") auto
    moreover have "wq_consume P (ws_q \<sigma>) = wq_consume P ?q"
      using Cons br by (simp add: wq_consume_def consumeLoop.simps [of P "ws_q \<sigma>"]
          consumeBatchLoop.simps [of P "ws_q \<sigma>"])
    ultimately show ?thesis using t(1) by (metis rtranclp_trans)
  qed
qed


section \<open>Properties of the queue\<close>

text \<open>
  C23. Every accepted write is in exactly one place: in any reachable state of the producers, the
  consumer, the monitor and \<open>Stop\<close>, the accepted operations (all with different \<open>Done\<close>
  channels) are exactly those answered, those in the consumer's hands and those in the channel;
  none is lost and none is answered twice, and the channel never exceeds its capacity.
\<close>

theorem accepted_in_one_place:
  assumes "wq_reach P cfg s0 \<sigma>"
  shows "mset (map wo_Done (ws_accepted \<sigma>))
      = mset (map fst (q_replies (ws_q \<sigma>)))
        + mset (map wo_Done (hands (ws_cons \<sigma>))) + mset (map wo_Done (q_queue (ws_q \<sigma>)))
    \<and> distinct (map wo_Done (ws_accepted \<sigma>))
    \<and> distinct (map fst (q_replies (ws_q \<sigma>)))
    \<and> length (q_queue (ws_q \<sigma>)) \<le> q_cap (ws_q \<sigma>)"
proof -
  have ok: "flow_ok \<sigma>" "size_ok \<sigma>" "ids_ok \<sigma>"
    using wq_reach_ok [OF assms] by (auto simp: wq_ok_def)
  from answers_partition [OF ok(1)] have m: "mset (map wo_Done (ws_accepted \<sigma>))
      = mset (map fst (q_replies (ws_q \<sigma>))) + mset (map wo_Done (unanswered \<sigma>))" .
  have d: "distinct (map wo_Done (ws_accepted \<sigma>))" using ok(3) by (simp add: ids_ok_def)
  have "mset (map wo_Done (ws_accepted \<sigma>)) = mset (map fst (q_replies (ws_q \<sigma>)) @ map wo_Done (unanswered \<sigma>))"
    using m by simp
  with d have "distinct (map fst (q_replies (ws_q \<sigma>)) @ map wo_Done (unanswered \<sigma>))"
    by (metis mset_eq_imp_distinct_iff)
  with m d ok(2) show ?thesis by (simp add: unanswered_def size_ok_def ac_simps)
qed

definition example_op :: WriteOp where
  "example_op = \<lparr>wo_Key = [1], wo_Value = [7], wo_Op = OpPut, wo_Done = 0\<rparr>"

definition example_queue :: QueueConfig where
  "example_queue = \<lparr>qc_MaxLen = 2, qc_MaxMemMB = 0, qc_BatchSize = 2\<rparr>"

definition example_putter :: "nat Putter" where
  "example_putter = \<lparr>pt_Set = (\<lambda>k v s. (Suc s, None)), pt_Delete = (\<lambda>k s. (s, None)), pt_ApplyBatch = None\<rparr>"

definition example_submitted :: "nat wq_sys" where
  "example_submitted =
     (ws_init example_queue 0)\<lparr>ws_q := (wq_New example_queue 0)\<lparr>q_queue := [example_op]\<rparr>,
                               ws_accepted := [example_op]\<rparr>"

lemma example_submitted_reach: "wq_reach example_putter example_queue 0 example_submitted"
proof -
  have "wq_step example_putter (ws_init example_queue 0) example_submitted"
    using wq_step.submit [of "ws_init example_queue (0::nat)" example_op
        "(wq_New example_queue 0)\<lparr>q_queue := [example_op]\<rparr>" None example_putter]
    by (simp add: example_submitted_def ws_init_def wq_Submit_def wq_New_def example_queue_def)
  then show ?thesis by (rule wq_reach.step [OF wq_reach.init])
qed

text \<open>Witness: the state after one accepted write.\<close>

theorem accepted_in_one_place_witness:
  "mset (map wo_Done (ws_accepted example_submitted)) = {#0#}"
  using accepted_in_one_place [OF example_submitted_reach]
  by (simp add: example_submitted_def example_op_def ws_init_def wq_New_def)

text \<open>
  C29. First in, first out: the consumer handles operations in the order their sends entered the
  channel.  Before \<open>Stop\<close> is called the accepted operations are those answered, followed by those
  in hand, followed by those in the channel; afterwards the handled ones are still a subsequence.
\<close>

theorem consumer_fifo:
  assumes "wq_reach P cfg s0 \<sigma>"
  shows "subseq (map fst (ws_log \<sigma>) @ hands (ws_cons \<sigma>)) (ws_accepted \<sigma>)
    \<and> (ws_stop \<sigma> \<noteq> NotStopped
        \<or> ws_accepted \<sigma> = map fst (ws_log \<sigma>) @ hands (ws_cons \<sigma>) @ q_queue (ws_q \<sigma>))"
proof -
  have ok: "flow_ok \<sigma>" "stop_ok \<sigma>" using wq_reach_ok [OF assms] by (auto simp: wq_ok_def)
  have "subseq (map fst (filter snd (ws_taken \<sigma>))) (map fst (ws_taken \<sigma>))"
    by (intro subseq_map subseq_filter_left)
  then have "subseq (map fst (filter snd (ws_taken \<sigma>))) (ws_accepted \<sigma>)"
    using ok(1) by (simp add: flow_ok_def subseq_rev_drop_many)
  moreover have "filter snd (ws_taken \<sigma>) = ws_taken \<sigma>" if "ws_stop \<sigma> = NotStopped"
    using ok(2) that by (auto simp: stop_ok_def filter_empty_conv filter_id_conv)
  ultimately show ?thesis using ok(1) by (auto simp: flow_ok_def)
qed

text \<open>Witness: the same state; the write is in the channel.\<close>

theorem consumer_fifo_witness:
  "subseq [] (ws_accepted example_submitted)
   \<and> ws_accepted example_submitted = q_queue (ws_q example_submitted)"
  using consumer_fifo [OF example_submitted_reach]
  by (simp add: example_submitted_def ws_init_def)

text \<open>
  C15. \<open>Stop\<close> answers everything: once it has returned, the consumer has ended, every accepted
  operation has been answered, and a later \<open>Submit\<close> is refused with \<open>ErrStopped\<close> and sends nothing.
\<close>

theorem stop_answers_all:
  assumes "wq_reach P cfg s0 \<sigma>" and "ws_stop \<sigma> = Returned"
  shows "ws_cons \<sigma> = Exited \<and> q_queue (ws_q \<sigma>) = []
    \<and> mset (map fst (q_replies (ws_q \<sigma>))) = mset (map wo_Done (ws_accepted \<sigma>))
    \<and> wq_Submit w (ws_q \<sigma>) = (ws_q \<sigma>, Some ErrStopped)"
proof -
  have ok: "stop_ok \<sigma>" "flow_ok \<sigma>" using wq_reach_ok [OF assms(1)] by (auto simp: wq_ok_def)
  then have "ws_cons \<sigma> = Exited" "q_queue (ws_q \<sigma>) = []" "q_stopped (ws_q \<sigma>)"
    using assms(2) by (auto simp: stop_ok_def)
  with answers_partition [OF ok(2)] show ?thesis by (simp add: unanswered_def wq_Submit_def)
qed

definition example_stopped :: "nat wq_sys" where
  "example_stopped =
     (let q = (wq_New example_queue 0)\<lparr>q_stopped := True, q_closed := True,
                q_replies := [(0, Some ErrStopped)]\<rparr>
      in (ws_init example_queue 0)\<lparr>ws_q := q, ws_cons := Exited, ws_stop := Returned,
           ws_accepted := [example_op], ws_taken := [(example_op, False)]\<rparr>)"

lemma example_stopped_reach: "wq_reach example_putter example_queue 0 example_stopped"
proof -
  let ?P = example_putter
  let ?s1 = "example_submitted\<lparr>ws_q := (ws_q example_submitted)\<lparr>q_stopped := True\<rparr>, ws_stop := Draining\<rparr>"
  let ?s2 = "?s1\<lparr>ws_q := send_done example_op (Some ErrStopped) ((ws_q ?s1)\<lparr>q_queue := []\<rparr>),
                 ws_taken := ws_taken ?s1 @ [(example_op, False)]\<rparr>"
  let ?s3 = "?s2\<lparr>ws_q := (ws_q ?s2)\<lparr>q_closed := True\<rparr>, ws_stop := Waiting\<rparr>"
  let ?s4 = "?s3\<lparr>ws_cons := Exited\<rparr>"
  let ?s5 = "?s4\<lparr>ws_stop := Returned\<rparr>"
  note ev = example_submitted_def ws_init_def
  have "wq_step ?P example_submitted ?s1" by (rule wq_step.stop_begin) (simp add: ev)
  moreover have "wq_work ?P ?s1 ?s2" by (rule wq_work.stop_drain) (simp_all add: ev)
  moreover have "wq_work ?P ?s2 ?s3" by (rule wq_work.stop_close) (simp_all add: ev)
  moreover have "wq_work ?P ?s3 ?s4" by (rule wq_work.recv_closed) (simp_all add: ev)
  moreover have "wq_work ?P ?s4 ?s5" by (rule wq_work.stop_return) simp_all
  ultimately have "wq_reach ?P example_queue 0 ?s5"
    using example_submitted_reach by (meson wq_reach.step wq_step.work)
  moreover have "?s5 = example_stopped"
    by (simp add: ev example_stopped_def Let_def send_done_def wq_New_def example_op_def)
  ultimately show ?thesis by simp
qed

text \<open>Witness: the queue is stopped while the write is still in the channel.\<close>

theorem stop_answers_all_witness:
  "mset (map fst (q_replies (ws_q example_stopped))) = {#0#}
   \<and> wq_Submit example_op (ws_q example_stopped) = (ws_q example_stopped, Some ErrStopped)"
  using stop_answers_all [OF example_stopped_reach, of example_op]
  by (simp add: example_stopped_def Let_def example_op_def)

text \<open>
  C24. No write hangs: from every reachable state the consumer, with a \<open>Stop\<close> only if one has
  already begun, can run to a state in which every accepted operation is answered, without any
  further call of a client: no submission, and no call of \<open>Stop\<close> either (a queue that was not
  stopped is still not stopped, so the consumer does not wait for one).  While an operation is
  unanswered a step of theirs is possible, and their steps cannot go on for ever: whatever order
  they come in, every accepted operation is answered.
\<close>

theorem no_write_hangs:
  assumes "wq_reach P cfg s0 \<sigma>"
  shows "(\<exists>\<tau>. (wq_work P)\<^sup>*\<^sup>* \<sigma> \<tau> \<and> ws_accepted \<tau> = ws_accepted \<sigma>
      \<and> (ws_stop \<tau> = NotStopped \<longleftrightarrow> ws_stop \<sigma> = NotStopped)
      \<and> mset (map fst (q_replies (ws_q \<tau>))) = mset (map wo_Done (ws_accepted \<sigma>)))
    \<and> (unanswered \<sigma> = [] \<or> (\<exists>\<tau>. wq_work P \<sigma> \<tau>))
    \<and> wfP (\<lambda>\<tau> \<sigma>. wq_work P \<sigma> \<tau>)"
proof (intro conjI)
  have ok: "wq_ok \<sigma>" "stop_ok \<sigma>" using wq_reach_ok [OF assms] by (auto simp: wq_ok_def)
  obtain \<tau> where t: "(wq_work P)\<^sup>*\<^sup>* \<sigma> \<tau>" "unanswered \<tau> = []" using work_finishes [OF ok(2)] by blast
  with work_star_keeps [OF t(1) ok(1)] work_star_not_stopped [OF t(1)] answers_partition [of \<tau>]
  show "\<exists>\<tau>. (wq_work P)\<^sup>*\<^sup>* \<sigma> \<tau> \<and> ws_accepted \<tau> = ws_accepted \<sigma>
      \<and> (ws_stop \<tau> = NotStopped \<longleftrightarrow> ws_stop \<sigma> = NotStopped)
      \<and> mset (map fst (q_replies (ws_q \<tau>))) = mset (map wo_Done (ws_accepted \<sigma>))"
    by (auto simp: wq_ok_def)
  show "unanswered \<sigma> = [] \<or> (\<exists>\<tau>. wq_work P \<sigma> \<tau>)" using work_enabled [OF ok(2)] by blast
  show "wfP (\<lambda>\<tau> \<sigma>. wq_work P \<sigma> \<tau>)" by (rule work_terminates)
qed

text \<open>Witness: the state after one accepted write.\<close>

theorem no_write_hangs_witness:
  "\<exists>\<tau>. (wq_work example_putter)\<^sup>*\<^sup>* example_submitted \<tau> \<and> ws_stop \<tau> = NotStopped
     \<and> mset (map fst (q_replies (ws_q \<tau>))) = {#0#}"
  using no_write_hangs [OF example_submitted_reach]
  by (auto simp: example_submitted_def example_op_def ws_init_def)

end
