(* ===== verification/WritePool.thy ===== *)
theory WritePool
  imports WriteQueue
begin

text \<open>
  The pool of write operations of \<open>internal/writequeue/queue.go\<close> (\<open>AcquireWriteOp\<close>, \<open>ReleaseWriteOp\<close>) and the
  callers of \<open>db.submit\<close> in \<open>db.go\<close>, over a heap: the queue carries pointers, the consumer reads the fields of an operation
  when it executes it and its channel when it answers, and every assignment, send and receive is a step of its own.
  What is shown is that reusing operations never mixes up two calls.
\<close>


section \<open>Shells and their pool\<close>

text \<open>
  A \<open>WriteOp\<close> in memory: its \<open>Done\<close> field is nil or a channel.  Addresses and channels are numbers.
\<close>

record op_shell =
  sh_Key :: bytes
  sh_Value :: bytes
  sh_Op :: OpType
  sh_Done :: "nat option"

definition zero_shell :: op_shell where
  "zero_shell = \<lparr>sh_Key = [], sh_Value = [], sh_Op = OpPut, sh_Done = None\<rparr>"

record pool_mem =
  pm_heap :: "nat \<Rightarrow> op_shell"
  pm_pool :: "nat list"
  pm_next :: nat
  pm_chans :: nat

definition pool_init :: pool_mem where
  "pool_init = \<lparr>pm_heap = (\<lambda>a. zero_shell), pm_pool = [], pm_next = 0, pm_chans = 0\<rparr>"

text \<open>\<open>writeOpPool.Get()\<close> hands out any shell of the pool, or a new one.\<close>

definition pool_Get :: "nat option \<Rightarrow> pool_mem \<Rightarrow> nat \<times> pool_mem" where
  "pool_Get pick M =
     (case pick of
        Some a \<Rightarrow> (a, M\<lparr>pm_pool := remove1 a (pm_pool M)\<rparr>)
      | None \<Rightarrow> (pm_next M, M\<lparr>pm_heap := (pm_heap M)(pm_next M := zero_shell), pm_next := Suc (pm_next M)\<rparr>))"

definition AcquireWriteOp :: "nat option \<Rightarrow> pool_mem \<Rightarrow> nat \<times> pool_mem" where
  "AcquireWriteOp pick M =
     (let (op, M1) = pool_Get pick M
      in (op, M1\<lparr>pm_heap := (pm_heap M1)(op := (pm_heap M1 op)\<lparr>sh_Done := Some (pm_chans M1)\<rparr>),
                 pm_chans := Suc (pm_chans M1)\<rparr>))"

definition ReleaseWriteOp :: "nat \<Rightarrow> pool_mem \<Rightarrow> pool_mem" where
  "ReleaseWriteOp op M =
     (if sh_Done (pm_heap M op) = None then M
      else M\<lparr>pm_heap := (pm_heap M)(op := (pm_heap M op)
               \<lparr>sh_Key := [], sh_Value := [], sh_Op := OpPut, sh_Done := None\<rparr>),
             pm_pool := op # pm_pool M\<rparr>)"

text \<open>What a goroutine reads through a pointer.\<close>

definition deref :: "pool_mem \<Rightarrow> nat \<Rightarrow> WriteOp" where
  "deref M a = (let s = pm_heap M a in
     \<lparr>wo_Key = sh_Key s, wo_Value = sh_Value s, wo_Op = sh_Op s, wo_Done = the (sh_Done s)\<rparr>)"

section \<open>The queue over shells\<close>

text \<open>
  A call of \<open>db.submit\<close> past its checks: its position in the function, its shell, the channel made for it and its
  arguments.  The channel is only read by the code once the call waits on it.
\<close>

datatype request = Request (rq_key: bytes) (rq_value: bytes) (rq_op: OpType)

datatype position = Acquired | Filled | Submitted | Awaiting | Finished "go_error option"

datatype call = Call (c_pos: position) (c_op: nat) (c_chan: nat) (c_req: request)

datatype pool_consumer =
  PReceiving | PCollecting "nat list" | PWorking "(nat \<times> go_error option) list" "nat list" bool | PExited

datatype pool_stopper = PNotStopped | PDraining "nat list" | PWaiting | PReturned

text \<open>
  The channel of the queue carries addresses, in \<open>po_queue\<close>; \<open>po_q\<close> holds the other fields of the queue.
  \<open>po_sent\<close> is the buffer of every \<open>Done\<close> channel.  The last two fields are histories: the writes
  executed and the results \<open>db.submit\<close> returned, both with the channel of the call.
\<close>

type_synonym outcome = "nat \<times> request \<times> go_error option"

record 's pool_sys =
  po_mem :: pool_mem
  po_calls :: "nat \<Rightarrow> call option"
  po_queue :: "nat list"
  po_q :: "'s Queue"
  po_cons :: pool_consumer
  po_stop :: pool_stopper
  po_sent :: "nat \<Rightarrow> go_error option option"
  po_log :: "outcome list"
  po_results :: "outcome list"

definition po_init :: "QueueConfig \<Rightarrow> 's \<Rightarrow> 's pool_sys" where
  "po_init cfg s = \<lparr>po_mem = pool_init, po_calls = (\<lambda>g. None), po_queue = [], po_q = wq_New cfg s,
     po_cons = PReceiving, po_stop = PNotStopped, po_sent = (\<lambda>c. None), po_log = [], po_results = []\<rparr>"

definition fill :: "request \<Rightarrow> op_shell \<Rightarrow> op_shell" where
  "fill rq s = s\<lparr>sh_Key := rq_key rq, sh_Value := rq_value rq, sh_Op := rq_op rq\<rparr>"

definition submit_result :: "nat \<Rightarrow> 's pool_sys \<Rightarrow> go_error option" where
  "submit_result a \<sigma> =
     snd (wq_Submit (deref (po_mem \<sigma>) a) ((po_q \<sigma>)\<lparr>q_queue := map (deref (po_mem \<sigma>)) (po_queue \<sigma>)\<rparr>))"

text \<open>The steps of one call \<open>g\<close>, and the collector dropping a shell from the pool.\<close>

inductive call_step :: "'s pool_sys \<Rightarrow> 's pool_sys \<Rightarrow> bool" where
  acquire: "po_calls \<sigma> g = None \<Longrightarrow> pick = None \<or> the pick \<in> set (pm_pool (po_mem \<sigma>)) \<Longrightarrow>
    AcquireWriteOp pick (po_mem \<sigma>) = (a, M) \<Longrightarrow>
    call_step \<sigma> (\<sigma>\<lparr>po_mem := M, po_calls := (po_calls \<sigma>)(g \<mapsto> Call Acquired a (pm_chans (po_mem \<sigma>)) rq)\<rparr>)"
| assign: "po_calls \<sigma> g = Some (Call Acquired a c rq) \<Longrightarrow> M = po_mem \<sigma> \<Longrightarrow>
    call_step \<sigma> (\<sigma>\<lparr>po_mem := M\<lparr>pm_heap := (pm_heap M)(a := fill rq (pm_heap M a))\<rparr>,
                    po_calls := (po_calls \<sigma>)(g \<mapsto> Call Filled a c rq)\<rparr>)"
| submit: "po_calls \<sigma> g = Some (Call Filled a c rq) \<Longrightarrow> (\<forall>d. po_stop \<sigma> \<noteq> PDraining d) \<Longrightarrow>
    submit_result a \<sigma> = None \<Longrightarrow>
    call_step \<sigma> (\<sigma>\<lparr>po_queue := po_queue \<sigma> @ [a], po_calls := (po_calls \<sigma>)(g \<mapsto> Call Submitted a c rq)\<rparr>)"
| refuse: "po_calls \<sigma> g = Some (Call Filled a c rq) \<Longrightarrow> (\<forall>d. po_stop \<sigma> \<noteq> PDraining d) \<Longrightarrow>
    submit_result a \<sigma> \<noteq> None \<Longrightarrow>
    call_step \<sigma> (\<sigma>\<lparr>po_calls := (po_calls \<sigma>)(g \<mapsto> Call (Finished (Some ErrWriteThrottled)) a c rq)\<rparr>)"
| await: "po_calls \<sigma> g = Some (Call Submitted a c rq) \<Longrightarrow> sh_Done (pm_heap (po_mem \<sigma>) a) = Some ch \<Longrightarrow>
    call_step \<sigma> (\<sigma>\<lparr>po_calls := (po_calls \<sigma>)(g \<mapsto> Call Awaiting a ch rq)\<rparr>)"
| receive: "po_calls \<sigma> g = Some (Call Awaiting a c rq) \<Longrightarrow> po_sent \<sigma> c = Some r \<Longrightarrow>
    call_step \<sigma> (\<sigma>\<lparr>po_sent := (po_sent \<sigma>)(c := None), po_calls := (po_calls \<sigma>)(g \<mapsto> Call (Finished r) a c rq)\<rparr>)"
| release: "po_calls \<sigma> g = Some (Call (Finished r) a c rq) \<Longrightarrow>
    call_step \<sigma> (\<sigma>\<lparr>po_mem := ReleaseWriteOp a (po_mem \<sigma>), po_calls := (po_calls \<sigma>)(g := None),
                    po_results := po_results \<sigma> @ [(c, rq, r)]\<rparr>)"
| forget: "M = po_mem \<sigma> \<Longrightarrow> call_step \<sigma> (\<sigma>\<lparr>po_mem := M\<lparr>pm_pool := remove1 a (pm_pool M)\<rparr>\<rparr>)"

text \<open>
  The steps of the consumer and of \<open>Stop\<close>.  The consumer reads the fields of a shell when it executes it, and
  its \<open>Done\<close> field when it sends; a send blocks while the field is nil or the buffer full.
\<close>

definition send_ready :: "'s pool_sys \<Rightarrow> nat \<Rightarrow> bool" where
  "send_ready \<sigma> a \<longleftrightarrow> (\<exists>c. sh_Done (pm_heap (po_mem \<sigma>) a) = Some c \<and> po_sent \<sigma> c = None)"

definition send_to :: "nat \<Rightarrow> go_error option \<Rightarrow> 's pool_sys \<Rightarrow> nat \<Rightarrow> go_error option option" where
  "send_to a e \<sigma> = (po_sent \<sigma>)(the (sh_Done (pm_heap (po_mem \<sigma>) a)) := Some e)"

definition executed :: "pool_mem \<Rightarrow> go_error option \<Rightarrow> nat \<Rightarrow> outcome" where
  "executed M e a = (let w = deref M a in (wo_Done w, Request (wo_Key w) (wo_Value w) (wo_Op w), e))"

definition one_by_one :: "'s Putter \<Rightarrow> 's Queue \<Rightarrow> nat list \<Rightarrow> bool" where
  "one_by_one P q b \<longleftrightarrow> q_batchSize q \<le> 0 \<or> pt_ApplyBatch P = None \<or> length b = 1"

inductive pool_work :: "'s Putter \<Rightarrow> 's pool_sys \<Rightarrow> 's pool_sys \<Rightarrow> bool" for P :: "'s Putter" where
  stop_begin: "po_stop \<sigma> = PNotStopped \<Longrightarrow>
    pool_work P \<sigma> (\<sigma>\<lparr>po_q := (po_q \<sigma>)\<lparr>q_stopped := True\<rparr>, po_stop := PDraining []\<rparr>)"
| drain_take: "po_stop \<sigma> = PDraining [] \<Longrightarrow> po_queue \<sigma> = a # as \<Longrightarrow>
    pool_work P \<sigma> (\<sigma>\<lparr>po_queue := as, po_stop := PDraining [a]\<rparr>)"
| drain_send: "po_stop \<sigma> = PDraining [a] \<Longrightarrow> send_ready \<sigma> a \<Longrightarrow>
    pool_work P \<sigma> (\<sigma>\<lparr>po_sent := send_to a (Some ErrStopped) \<sigma>, po_stop := PDraining []\<rparr>)"
| stop_close: "po_stop \<sigma> = PDraining [] \<Longrightarrow> po_queue \<sigma> = [] \<Longrightarrow>
    pool_work P \<sigma> (\<sigma>\<lparr>po_q := (po_q \<sigma>)\<lparr>q_closed := True\<rparr>, po_stop := PWaiting\<rparr>)"
| stop_return: "po_stop \<sigma> = PWaiting \<Longrightarrow> po_cons \<sigma> = PExited \<Longrightarrow> pool_work P \<sigma> (\<sigma>\<lparr>po_stop := PReturned\<rparr>)"
| recv: "po_cons \<sigma> = PReceiving \<Longrightarrow> po_queue \<sigma> = a # as \<Longrightarrow>
    pool_work P \<sigma> (\<sigma>\<lparr>po_queue := as,
      po_cons := (if 0 < q_batchSize (po_q \<sigma>) then PCollecting [a] else PWorking [] [a] False)\<rparr>)"
| recv_closed: "po_cons \<sigma> = PReceiving \<Longrightarrow> po_queue \<sigma> = [] \<Longrightarrow> q_closed (po_q \<sigma>) \<Longrightarrow>
    pool_work P \<sigma> (\<sigma>\<lparr>po_cons := PExited\<rparr>)"
| collect_more: "po_cons \<sigma> = PCollecting b \<Longrightarrow> int (length b) < q_batchSize (po_q \<sigma>) \<Longrightarrow> po_queue \<sigma> = a # as \<Longrightarrow>
    pool_work P \<sigma> (\<sigma>\<lparr>po_queue := as, po_cons := PCollecting (b @ [a])\<rparr>)"
| collect_empty: "po_cons \<sigma> = PCollecting b \<Longrightarrow> int (length b) < q_batchSize (po_q \<sigma>) \<Longrightarrow> po_queue \<sigma> = [] \<Longrightarrow>
    pool_work P \<sigma> (\<sigma>\<lparr>po_cons := PWorking [] b (q_closed (po_q \<sigma>))\<rparr>)"
| collect_full: "po_cons \<sigma> = PCollecting b \<Longrightarrow> q_batchSize (po_q \<sigma>) \<le> int (length b) \<Longrightarrow>
    pool_work P \<sigma> (\<sigma>\<lparr>po_cons := PWorking [] b False\<rparr>)"
| execute_one: "po_cons \<sigma> = PWorking [] (a # as) ex \<Longrightarrow> one_by_one P (po_q \<sigma>) (a # as) \<Longrightarrow>
    put_one P (deref (po_mem \<sigma>) a) (q_store (po_q \<sigma>)) = (s, e) \<Longrightarrow>
    pool_work P \<sigma> (\<sigma>\<lparr>po_q := (po_q \<sigma>)\<lparr>q_store := s\<rparr>, po_cons := PWorking [(a, e)] as ex,
      po_log := po_log \<sigma> @ [executed (po_mem \<sigma>) e a]\<rparr>)"
| execute_all: "po_cons \<sigma> = PWorking [] b ex \<Longrightarrow> b \<noteq> [] \<Longrightarrow> \<not> one_by_one P (po_q \<sigma>) b \<Longrightarrow> pt_ApplyBatch P = Some ab \<Longrightarrow>
    ab (map (\<lambda>a. batch_entry (deref (po_mem \<sigma>) a)) b) (q_store (po_q \<sigma>)) = (s, e) \<Longrightarrow>
    pool_work P \<sigma> (\<sigma>\<lparr>po_q := (po_q \<sigma>)\<lparr>q_store := s\<rparr>, po_cons := PWorking (map (\<lambda>a. (a, e)) b) [] ex,
      po_log := po_log \<sigma> @ map (executed (po_mem \<sigma>) e) b\<rparr>)"
| send: "po_cons \<sigma> = PWorking ((a, e) # ps) b ex \<Longrightarrow> send_ready \<sigma> a \<Longrightarrow>
    pool_work P \<sigma> (\<sigma>\<lparr>po_sent := send_to a e \<sigma>, po_cons := PWorking ps b ex\<rparr>)"
| finish: "po_cons \<sigma> = PWorking [] [] ex \<Longrightarrow>
    pool_work P \<sigma> (\<sigma>\<lparr>po_cons := (if ex then PExited else PReceiving)\<rparr>)"

inductive pool_reach :: "'s Putter \<Rightarrow> QueueConfig \<Rightarrow> 's \<Rightarrow> 's pool_sys \<Rightarrow> bool"
  for P :: "'s Putter" and cfg :: QueueConfig and s0 :: 's where
  init: "pool_reach P cfg s0 (po_init cfg s0)"
| call: "pool_reach P cfg s0 \<sigma> \<Longrightarrow> call_step \<sigma> \<tau> \<Longrightarrow> pool_reach P cfg s0 \<tau>"
| work: "pool_reach P cfg s0 \<sigma> \<Longrightarrow> pool_work P \<sigma> \<tau> \<Longrightarrow> pool_reach P cfg s0 \<tau>"
| sample: "pool_reach P cfg s0 \<sigma> \<Longrightarrow> pool_reach P cfg s0 (\<sigma>\<lparr>po_q := memMonitor_tick alloc (po_q \<sigma>)\<rparr>)"

section \<open>The invariant\<close>

definition waiting_ops :: "'s pool_sys \<Rightarrow> nat list" where
  "waiting_ops \<sigma> = po_queue \<sigma>
     @ (case po_cons \<sigma> of PCollecting b \<Rightarrow> b | PWorking ps b ex \<Rightarrow> b | _ \<Rightarrow> [])
     @ (case po_stop \<sigma> of PDraining d \<Rightarrow> d | _ \<Rightarrow> [])"

definition executed_ops :: "'s pool_sys \<Rightarrow> (nat \<times> go_error option) list" where
  "executed_ops \<sigma> = (case po_cons \<sigma> of PWorking ps b ex \<Rightarrow> ps | _ \<Rightarrow> [])"

text \<open>The result of a call: that of its own write, or a refusal of a write that is never executed.\<close>

definition answered :: "outcome list \<Rightarrow> nat \<Rightarrow> request \<Rightarrow> go_error option \<Rightarrow> bool" where
  "answered log c rq r \<longleftrightarrow>
     (c, rq, r) \<in> set log \<or> c \<notin> fst ` set log \<and> r \<in> {Some ErrStopped, Some ErrWriteThrottled}"

definition shell_of :: "request \<Rightarrow> nat \<Rightarrow> op_shell" where
  "shell_of rq c = \<lparr>sh_Key = rq_key rq, sh_Value = rq_value rq, sh_Op = rq_op rq, sh_Done = Some c\<rparr>"

definition pool_clean :: "pool_mem \<Rightarrow> bool" where
  "pool_clean M \<longleftrightarrow> distinct (pm_pool M) \<and> (\<forall>a \<in> set (pm_pool M). pm_heap M a = zero_shell \<and> a < pm_next M)"

definition call_mem :: "pool_mem \<Rightarrow> call \<Rightarrow> bool" where
  "call_mem M k \<longleftrightarrow> c_op k < pm_next M \<and> c_op k \<notin> set (pm_pool M) \<and> c_chan k < pm_chans M
     \<and> sh_Done (pm_heap M (c_op k)) = Some (c_chan k)
     \<and> (c_pos k \<noteq> Acquired \<longrightarrow> pm_heap M (c_op k) = shell_of (c_req k) (c_chan k))"

definition calls_apart :: "(nat \<Rightarrow> call option) \<Rightarrow> bool" where
  "calls_apart calls \<longleftrightarrow>
     (\<forall>g k g' k'. calls g = Some k \<longrightarrow> calls g' = Some k' \<longrightarrow> c_op k = c_op k' \<or> c_chan k = c_chan k' \<longrightarrow> g = g')"

definition mem_ok :: "pool_mem \<Rightarrow> (nat \<Rightarrow> call option) \<Rightarrow> bool" where
  "mem_ok M calls \<longleftrightarrow> pool_clean M \<and> (\<forall>g k. calls g = Some k \<longrightarrow> call_mem M k) \<and> calls_apart calls"

text \<open>Where a call's shell is, and what is on its channel, by its position.\<close>

definition flight_ok ::
  "nat set \<Rightarrow> (nat \<times> go_error option) set \<Rightarrow> (nat \<Rightarrow> go_error option option) \<Rightarrow> outcome list \<Rightarrow> call \<Rightarrow> bool" where
  "flight_ok wait exe sent log k =
     (if c_pos k \<in> {Submitted, Awaiting} then
        (case sent (c_chan k) of
           None \<Rightarrow> c_op k \<in> wait \<and> c_chan k \<notin> fst ` set log
             \<or> (\<exists>e. (c_op k, e) \<in> exe \<and> (c_chan k, c_req k, e) \<in> set log)
         | Some r \<Rightarrow> c_op k \<notin> wait \<and> c_op k \<notin> fst ` exe \<and> answered log (c_chan k) (c_req k) r)
      else c_op k \<notin> wait \<and> c_op k \<notin> fst ` exe \<and> sent (c_chan k) = None
        \<and> (case c_pos k of Finished r \<Rightarrow> answered log (c_chan k) (c_req k) r | _ \<Rightarrow> c_chan k \<notin> fst ` set log))"

text \<open>A result that was returned stays right.\<close>

definition result_ok :: "nat \<Rightarrow> (nat \<Rightarrow> call option) \<Rightarrow> outcome list \<Rightarrow> outcome \<Rightarrow> bool" where
  "result_ok chans calls log z \<longleftrightarrow> fst z < chans \<and> answered log (fst z) (fst (snd z)) (snd (snd z))
     \<and> (\<forall>g k. calls g = Some k \<longrightarrow> c_chan k \<noteq> fst z)"

definition flow_inv ::
  "nat \<Rightarrow> (nat \<Rightarrow> call option) \<Rightarrow> nat list \<Rightarrow> (nat \<times> go_error option) list \<Rightarrow> (nat \<Rightarrow> go_error option option)
    \<Rightarrow> outcome list \<Rightarrow> outcome list \<Rightarrow> bool" where
  "flow_inv chans calls wait exe sent log res \<longleftrightarrow>
     distinct (map fst exe @ wait)
   \<and> (\<forall>a \<in> set wait \<union> fst ` set exe. \<exists>g k. calls g = Some k \<and> c_op k = a \<and> c_pos k \<in> {Submitted, Awaiting})
   \<and> (\<forall>g k. calls g = Some k \<longrightarrow> flight_ok (set wait) (set exe) sent log k)
   \<and> distinct (map fst log) \<and> (\<forall>z \<in> set log. fst z < chans) \<and> (\<forall>c. sent c \<noteq> None \<longrightarrow> c < chans)
   \<and> distinct (map fst res)
   \<and> (\<forall>z \<in> set res. result_ok chans calls log z)"

definition pool_ok :: "'s pool_sys \<Rightarrow> bool" where
  "pool_ok \<sigma> \<longleftrightarrow> mem_ok (po_mem \<sigma>) (po_calls \<sigma>)
   \<and> flow_inv (pm_chans (po_mem \<sigma>)) (po_calls \<sigma>) (waiting_ops \<sigma>) (executed_ops \<sigma>) (po_sent \<sigma>) (po_log \<sigma>) (po_results \<sigma>)"

section \<open>Memory\<close>

lemma mem_callD:
  assumes "mem_ok M calls" and "calls g = Some k"
  shows "call_mem M k" "c_op k < pm_next M" "c_op k \<notin> set (pm_pool M)" "c_chan k < pm_chans M"
    "sh_Done (pm_heap M (c_op k)) = Some (c_chan k)"
    "c_pos k \<noteq> Acquired \<Longrightarrow> pm_heap M (c_op k) = shell_of (c_req k) (c_chan k)"
  using assms unfolding mem_ok_def call_mem_def by blast+

lemma calls_apartD:
  assumes "calls_apart calls" and "calls g = Some k" and "calls g' = Some k'" and "c_op k = c_op k' \<or> c_chan k = c_chan k'"
  shows "g' = g" "k' = k"
  using assms unfolding calls_apart_def by (metis option.inject)+

lemma calls_apart_upd:
  assumes "calls_apart calls" and "\<And>g' k'. calls g' = Some k' \<Longrightarrow> g' \<noteq> g \<Longrightarrow> c_op k' \<noteq> c_op k \<and> c_chan k' \<noteq> c_chan k"
  shows "calls_apart (calls(g \<mapsto> k))"
  using assms unfolding calls_apart_def by (metis fun_upd_apply option.inject)

lemma calls_apart_move:
  assumes "calls_apart calls" and "calls g = Some k" and "c_op k' = c_op k" and "c_chan k' = c_chan k"
  shows "calls_apart (calls(g \<mapsto> k'))"
  using assms(1) by (rule calls_apart_upd) (use assms in \<open>metis calls_apartD(1)\<close>)

lemma calls_apart_del: "calls_apart calls \<Longrightarrow> calls_apart (calls(g := None))"
  unfolding calls_apart_def by (metis fun_upd_apply option.distinct(1))

lemma call_mem_frame:
  "call_mem M k \<Longrightarrow> c_op k \<noteq> a \<Longrightarrow> call_mem (M\<lparr>pm_heap := (pm_heap M)(a := s)\<rparr>) k"
  "call_mem M k \<Longrightarrow> c_op k \<noteq> a \<Longrightarrow> call_mem (M\<lparr>pm_pool := a # pm_pool M\<rparr>) k"
  "call_mem M k \<Longrightarrow> call_mem (M\<lparr>pm_pool := remove1 a (pm_pool M)\<rparr>) k"
  "call_mem M k \<Longrightarrow> call_mem (M\<lparr>pm_next := Suc (pm_next M)\<rparr>) k"
  "call_mem M k \<Longrightarrow> call_mem (M\<lparr>pm_chans := Suc (pm_chans M)\<rparr>) k"
  by (auto simp: call_mem_def dest: notin_set_remove1)

lemma pool_clean_frame:
  "pool_clean M \<Longrightarrow> a \<notin> set (pm_pool M) \<Longrightarrow> pool_clean (M\<lparr>pm_heap := (pm_heap M)(a := s)\<rparr>)"
  "pool_clean M \<Longrightarrow> a \<notin> set (pm_pool M) \<Longrightarrow> pm_heap M a = zero_shell \<Longrightarrow> a < pm_next M \<Longrightarrow> pool_clean (M\<lparr>pm_pool := a # pm_pool M\<rparr>)"
  "pool_clean M \<Longrightarrow> pool_clean (M\<lparr>pm_pool := remove1 a (pm_pool M)\<rparr>)"
  "pool_clean M \<Longrightarrow> pool_clean (M\<lparr>pm_next := Suc (pm_next M)\<rparr>)"
  "pool_clean M \<Longrightarrow> pool_clean (M\<lparr>pm_chans := Suc (pm_chans M)\<rparr>)"
  using set_remove1_subset [of a "pm_pool M"] by (auto simp: pool_clean_def less_SucI)

lemma forget_mem: "mem_ok M calls \<Longrightarrow> mem_ok (M\<lparr>pm_pool := remove1 a (pm_pool M)\<rparr>) calls"
  by (simp add: mem_ok_def pool_clean_frame call_mem_frame)

text \<open>\<open>Get\<close> hands out a shell no call has.\<close>

lemma pool_Get_mem:
  assumes ok: "mem_ok M calls" and pick: "pick = None \<or> the pick \<in> set (pm_pool M)" and get: "pool_Get pick M = (a, M1)"
  shows "mem_ok M1 calls" "a < pm_next M1" "a \<notin> set (pm_pool M1)" "pm_chans M1 = pm_chans M" "calls g = Some k \<Longrightarrow> c_op k \<noteq> a"
proof -
  show apart: "c_op k \<noteq> a" if "calls g = Some k" for g k
    using mem_callD(2,3) [OF ok that] pick get by (cases pick) (auto simp: pool_Get_def)
  have fresh: "pm_next M \<notin> set (pm_pool M)" using ok by (auto simp: mem_ok_def pool_clean_def)
  have "mem_ok M1 calls \<and> a < pm_next M1 \<and> a \<notin> set (pm_pool M1) \<and> pm_chans M1 = pm_chans M"
  proof (cases pick)
    case None
    have M1: "a = pm_next M" "M1 = (M\<lparr>pm_heap := (pm_heap M)(a := zero_shell)\<rparr>)\<lparr>pm_next := Suc (pm_next (M\<lparr>pm_heap := (pm_heap M)(a := zero_shell)\<rparr>))\<rparr>"
      using get None by (auto simp: pool_Get_def)
    have "mem_ok M1 calls"
      using ok fresh apart unfolding M1(2) mem_ok_def by (intro conjI allI impI pool_clean_frame call_mem_frame) (auto simp: M1(1))
    with fresh M1 show ?thesis by simp
  next
    case (Some b)
    with get pick have M1: "a = b" "M1 = M\<lparr>pm_pool := remove1 b (pm_pool M)\<rparr>" "b \<in> set (pm_pool M)"
      by (auto simp: pool_Get_def)
    show ?thesis using forget_mem [OF ok] M1 ok by (auto simp: mem_ok_def pool_clean_def)
  qed
  then show "mem_ok M1 calls" "a < pm_next M1" "a \<notin> set (pm_pool M1)" "pm_chans M1 = pm_chans M" by blast+
qed

lemma acquire_mem:
  assumes ok: "mem_ok M calls" and pick: "pick = None \<or> the pick \<in> set (pm_pool M)" and g: "calls g = None"
    and acq: "AcquireWriteOp pick M = (a, M')"
  shows "mem_ok M' (calls(g \<mapsto> Call Acquired a (pm_chans M) rq))" "pm_chans M' = Suc (pm_chans M)"
    "calls g' = Some k \<Longrightarrow> c_op k \<noteq> a"
proof -
  obtain M1 where get: "pool_Get pick M = (a, M1)" using acq by (auto simp: AcquireWriteOp_def split: prod.splits)
  note G = pool_Get_mem [OF ok pick get]
  let ?M2 = "M1\<lparr>pm_heap := (pm_heap M1)(a := (pm_heap M1 a)\<lparr>sh_Done := Some (pm_chans M)\<rparr>)\<rparr>"
  have M': "M' = ?M2\<lparr>pm_chans := Suc (pm_chans ?M2)\<rparr>" using acq get G(4) by (simp add: AcquireWriteOp_def)
  have "pool_clean M'" unfolding M' using G(1,3) by (intro pool_clean_frame) (auto simp: mem_ok_def)
  moreover have "call_mem M' k" if "calls g' = Some k" for g' k
    unfolding M' using mem_callD(1) [OF G(1) that] G(5) [OF that] by (intro call_mem_frame)
  moreover have "call_mem M' (Call Acquired a (pm_chans M) rq)" using G(2,3,4) by (simp add: M' call_mem_def)
  moreover have "c_chan k \<noteq> pm_chans M" if "calls g' = Some k" for g' k using mem_callD(4) [OF ok that] by simp
  with ok G(5) have "calls_apart (calls(g \<mapsto> Call Acquired a (pm_chans M) rq))"
    by (intro calls_apart_upd) (auto simp: mem_ok_def)
  ultimately show "mem_ok M' (calls(g \<mapsto> Call Acquired a (pm_chans M) rq))" by (simp add: mem_ok_def)
  show "pm_chans M' = Suc (pm_chans M)" by (simp add: M' G(4))
  show "calls g' = Some k \<Longrightarrow> c_op k \<noteq> a" by (rule G(5))
qed

text \<open>A call may move on, or write to its own shell.\<close>

lemma mem_ok_call:
  assumes ok: "mem_ok M calls" and g: "calls g = Some k" and k': "c_op k' = c_op k" "c_chan k' = c_chan k"
    and M': "pool_clean M'" "call_mem M' k'" "\<And>k1. call_mem M k1 \<Longrightarrow> c_op k1 \<noteq> c_op k \<Longrightarrow> call_mem M' k1"
  shows "mem_ok M' (calls(g \<mapsto> k'))"
proof -
  have apart: "calls_apart calls" using ok by (simp add: mem_ok_def)
  have "call_mem M' k1" if "(calls(g \<mapsto> k')) g1 = Some k1" for g1 k1
  proof (cases "g1 = g")
    case False
    with that have k1: "calls g1 = Some k1" by simp
    with False calls_apartD(1) [OF apart g k1] have "c_op k1 \<noteq> c_op k" by auto
    then show ?thesis using mem_callD(1) [OF ok k1] by (rule M'(3) [rotated])
  qed (use that M'(2) in simp)
  with M'(1) calls_apart_move [OF apart g k'] show ?thesis by (simp add: mem_ok_def del: fun_upd_apply)
qed

lemma mem_ok_move:
  assumes ok: "mem_ok M calls" and g: "calls g = Some (Call p a c rq)" and p: "p \<noteq> Acquired"
  shows "mem_ok M (calls(g \<mapsto> Call p' a c rq))"
  using ok g by (rule mem_ok_call) (use ok g p mem_callD(1) [OF ok g] in \<open>simp_all add: mem_ok_def call_mem_def shell_of_def\<close>)

lemma assign_mem:
  assumes ok: "mem_ok M calls" and g: "calls g = Some (Call Acquired a c rq)"
  shows "mem_ok (M\<lparr>pm_heap := (pm_heap M)(a := fill rq (pm_heap M a))\<rparr>) (calls(g \<mapsto> Call Filled a c rq))"
  using ok g
proof (rule mem_ok_call)
  have k: "call_mem M (Call Acquired a c rq)" using mem_callD(1) [OF ok g] .
  show "pool_clean (M\<lparr>pm_heap := (pm_heap M)(a := fill rq (pm_heap M a))\<rparr>)"
    using ok k by (intro pool_clean_frame) (simp_all add: mem_ok_def call_mem_def)
  show "call_mem (M\<lparr>pm_heap := (pm_heap M)(a := fill rq (pm_heap M a))\<rparr>) (Call Filled a c rq)"
    using k by (simp add: call_mem_def fill_def shell_of_def)
qed (simp_all add: call_mem_frame)

lemma cleared: "s\<lparr>sh_Key := [], sh_Value := [], sh_Op := OpPut, sh_Done := None\<rparr> = zero_shell"
  by (cases s) (simp add: zero_shell_def)

lemma release_mem:
  assumes ok: "mem_ok M calls" and g: "calls g = Some k"
  shows "mem_ok (ReleaseWriteOp (c_op k) M) (calls(g := None))" "pm_chans (ReleaseWriteOp (c_op k) M) = pm_chans M"
proof -
  let ?M1 = "M\<lparr>pm_heap := (pm_heap M)(c_op k := zero_shell)\<rparr>"
  let ?M2 = "?M1\<lparr>pm_pool := c_op k # pm_pool ?M1\<rparr>"
  have M': "ReleaseWriteOp (c_op k) M = ?M2"
    using mem_callD(5) [OF ok g] by (simp add: ReleaseWriteOp_def cleared)
  have apart: "calls_apart calls" using ok by (simp add: mem_ok_def)
  have "pool_clean ?M2"
    using ok mem_callD(2,3) [OF ok g] by (intro pool_clean_frame) (simp_all add: mem_ok_def)
  moreover have "call_mem ?M2 k1" if "(calls(g := None)) g1 = Some k1" for g1 k1
    using that mem_callD(1) [OF ok, of g1 k1] calls_apartD(1) [OF apart g, of g1 k1]
    by (intro call_mem_frame) (auto split: if_splits)
  ultimately show "mem_ok (ReleaseWriteOp (c_op k) M) (calls(g := None))"
    using calls_apart_del [OF apart, of g] by (simp add: M' mem_ok_def del: fun_upd_apply)
  show "pm_chans (ReleaseWriteOp (c_op k) M) = pm_chans M" by (simp add: M')
qed


section \<open>Flow\<close>

lemma answered_frame:
  assumes "answered log c rq r" and "\<forall>z. fst z = c \<longrightarrow> (z \<in> set log' \<longleftrightarrow> z \<in> set log)"
  shows "answered log' c rq r"
proof -
  have "c \<in> fst ` set log' \<longleftrightarrow> c \<in> fst ` set log" using assms(2) by force
  then show ?thesis using assms by (auto simp: answered_def)
qed

lemma flight_ok_frame:
  assumes k: "flight_ok W X sent log k" and W: "c_op k \<in> W' \<longleftrightarrow> c_op k \<in> W" "\<forall>e. (c_op k, e) \<in> X' \<longleftrightarrow> (c_op k, e) \<in> X"
    and s: "sent' (c_chan k) = sent (c_chan k)" and l: "\<forall>z. fst z = c_chan k \<longrightarrow> (z \<in> set log' \<longleftrightarrow> z \<in> set log)"
  shows "flight_ok W' X' sent' log' k"
proof -
  have "c_chan k \<in> fst ` set log' \<longleftrightarrow> c_chan k \<in> fst ` set log" using l by force
  moreover have "c_op k \<in> fst ` X' \<longleftrightarrow> c_op k \<in> fst ` X" using W(2) by force
  moreover have "answered log' (c_chan k) rq r \<longleftrightarrow> answered log (c_chan k) rq r" for rq r
    using answered_frame l by metis
  ultimately show ?thesis using k W s l by (simp add: flight_ok_def split: option.splits position.splits if_splits)
qed

lemma flow_invD:
  assumes "flow_inv n calls wait exe sent log res"
  shows "distinct (map fst exe @ wait)"
    "a \<in> set wait \<union> fst ` set exe \<Longrightarrow> \<exists>g k. calls g = Some k \<and> c_op k = a \<and> c_pos k \<in> {Submitted, Awaiting}"
    "calls g = Some k \<Longrightarrow> flight_ok (set wait) (set exe) sent log k"
    "distinct (map fst log)" "z \<in> set log \<Longrightarrow> fst z < n" "sent c \<noteq> None \<Longrightarrow> c < n" "distinct (map fst res)"
    "y \<in> set res \<Longrightarrow> result_ok n calls log y"
  using assms unfolding flow_inv_def by blast+

lemma flow_invI:
  assumes "distinct (map fst exe @ wait)"
    and "\<And>a. a \<in> set wait \<union> fst ` set exe \<Longrightarrow> \<exists>g k. calls g = Some k \<and> c_op k = a \<and> c_pos k \<in> {Submitted, Awaiting}"
    and "\<And>g k. calls g = Some k \<Longrightarrow> flight_ok (set wait) (set exe) sent log k"
    and "distinct (map fst log)" and "\<And>z. z \<in> set log \<Longrightarrow> fst z < n" and "\<And>c. sent c \<noteq> None \<Longrightarrow> c < n"
    and "distinct (map fst res)" and "\<And>z. z \<in> set res \<Longrightarrow> result_ok n calls log z"
  shows "flow_inv n calls wait exe sent log res"
  unfolding flow_inv_def by (intro conjI ballI allI impI; rule assms; assumption?)

lemma flow_shuffle:
  assumes f: "flow_inv n calls wait exe sent log res" and m: "mset wait' = mset wait"
  shows "flow_inv n calls wait' exe sent log res"
proof -
  have W: "set wait' = set wait" using m by (metis set_mset_mset)
  have "distinct (map fst exe @ wait')"
    using m flow_invD(1) [OF f] by (metis mset_append mset_eq_imp_distinct_iff)
  then show ?thesis by (rule flow_invI) (use flow_invD [OF f] in \<open>simp_all only: W\<close>)
qed

text \<open>A step that touches one call only.\<close>

definition touches_only ::
  "call \<Rightarrow> nat list \<Rightarrow> (nat \<times> go_error option) list \<Rightarrow> (nat \<Rightarrow> go_error option option) \<Rightarrow> outcome list
    \<Rightarrow> nat list \<Rightarrow> (nat \<times> go_error option) list \<Rightarrow> (nat \<Rightarrow> go_error option option) \<Rightarrow> outcome list \<Rightarrow> bool" where
  "touches_only k wait exe sent log wait' exe' sent' log' \<longleftrightarrow>
     (\<forall>b. b \<noteq> c_op k \<longrightarrow> (b \<in> set wait' \<longleftrightarrow> b \<in> set wait) \<and> (\<forall>e. (b, e) \<in> set exe' \<longleftrightarrow> (b, e) \<in> set exe))
   \<and> (\<forall>c. c \<noteq> c_chan k \<longrightarrow> sent' c = sent c)
   \<and> (\<forall>z. fst z \<noteq> c_chan k \<longrightarrow> (z \<in> set log' \<longleftrightarrow> z \<in> set log))"

lemma touches_other:
  assumes "touches_only k wait exe sent log wait' exe' sent' log'" and "c_op k' \<noteq> c_op k" and "c_chan k' \<noteq> c_chan k"
    and "flight_ok (set wait) (set exe) sent log k'"
  shows "flight_ok (set wait') (set exe') sent' log' k'"
  using assms(4) by (rule flight_ok_frame) (use assms(1-3) in \<open>simp_all add: touches_only_def\<close>)

text \<open>One call changes its position; its operation may enter, move in or leave the flow.\<close>

lemma flow_step:
  assumes f: "flow_inv n calls wait exe sent log res" and apart: "calls_apart calls" and g: "calls g = Some k"
    and k': "c_op k' = c_op k" "c_chan k' = c_chan k" "c_chan k < n"
    and d: "distinct (map fst exe' @ wait')" "distinct (map fst log')"
    and t: "touches_only k wait exe sent log wait' exe' sent' log'"
    and own: "flight_ok (set wait') (set exe') sent' log' k'"
    and pos: "c_op k \<in> set wait' \<union> fst ` set exe' \<Longrightarrow> c_pos k' \<in> {Submitted, Awaiting}"
  shows "flow_inv n (calls(g \<mapsto> k')) wait' exe' sent' log' res"
proof (rule flow_invI)
  fix b assume b: "b \<in> set wait' \<union> fst ` set exe'"
  show "\<exists>g1 k1. (calls(g \<mapsto> k')) g1 = Some k1 \<and> c_op k1 = b \<and> c_pos k1 \<in> {Submitted, Awaiting}"
  proof (cases "b = c_op k")
    case True with pos b k' show ?thesis by (intro exI [of _ g] exI [of _ k']) simp
  next
    case False
    with b t have "b \<in> set wait \<union> fst ` set exe" unfolding touches_only_def by force
    then obtain g1 k1 where "calls g1 = Some k1" "c_op k1 = b" "c_pos k1 \<in> {Submitted, Awaiting}"
      using flow_invD(2) [OF f] by blast
    with False g show ?thesis by (intro exI [of _ g1] exI [of _ k1]) auto
  qed
next
  fix g1 k1 assume that: "(calls(g \<mapsto> k')) g1 = Some k1"
  show "flight_ok (set wait') (set exe') sent' log' k1"
  proof (cases "g1 = g")
    case False
    with that have k1: "calls g1 = Some k1" by simp
    have "c_op k1 \<noteq> c_op k" "c_chan k1 \<noteq> c_chan k" using calls_apartD(1) [OF apart g k1] False by metis+
    then show ?thesis using touches_other [OF t _ _ flow_invD(3) [OF f k1]] by blast
  qed (use that own in simp)
next
  fix z assume "z \<in> set log'"
  then show "fst z < n" using t k'(3) flow_invD(5) [OF f, of z] unfolding touches_only_def by metis
next
  fix c assume "sent' c \<noteq> None"
  then show "c < n" using t k'(3) flow_invD(6) [OF f, of c] unfolding touches_only_def by metis
next
  fix z assume z: "z \<in> set res"
  note R = flow_invD(8) [OF f z, unfolded result_ok_def]
  have c: "c_chan k \<noteq> fst z" using R g by blast
  have "answered log' (fst z) (fst (snd z)) (snd (snd z))"
    by (rule answered_frame [OF conjunct1 [OF conjunct2 [OF R]]]) (use t c in \<open>auto simp: touches_only_def\<close>)
  with R c k' show "result_ok n (calls(g \<mapsto> k')) log' z" by (simp add: result_ok_def)
qed (rule d flow_invD(7) [OF f])+


lemma no_result:
  "flow_inv n calls wait exe sent log res \<Longrightarrow> calls g = Some k \<Longrightarrow> z \<in> set res \<Longrightarrow> c_chan k \<noteq> fst z"
  using flow_invD(8) unfolding result_ok_def by metis

text \<open>Acquiring: a shell and a channel no one knows.\<close>

lemma flow_acquire:
  assumes f: "flow_inv n calls wait exe sent log res" and g: "calls g = None"
    and a: "\<And>g k. calls g = Some k \<Longrightarrow> c_op k \<noteq> a"
  shows "flow_inv (Suc n) (calls(g \<mapsto> Call Acquired a n rq)) wait exe sent log res"
proof (rule flow_invI)
  fix b assume "b \<in> set wait \<union> fst ` set exe"
  then obtain g1 k1 where k1: "calls g1 = Some k1" "c_op k1 = b" "c_pos k1 \<in> {Submitted, Awaiting}"
    using flow_invD(2) [OF f] by blast
  with g show "\<exists>g1 k1. (calls(g \<mapsto> Call Acquired a n rq)) g1 = Some k1 \<and> c_op k1 = b \<and> c_pos k1 \<in> {Submitted, Awaiting}"
    by (intro exI [of _ g1] exI [of _ k1]) auto
next
  fix g1 k1 assume "(calls(g \<mapsto> Call Acquired a n rq)) g1 = Some k1"
  moreover have "a \<notin> set wait \<union> fst ` set exe" using flow_invD(2) [OF f] a by blast
  moreover have "n \<notin> fst ` set log" using flow_invD(5) [OF f] by force
  moreover have "sent n = None" using flow_invD(6) [OF f, of n] by blast
  ultimately show "flight_ok (set wait) (set exe) sent log k1"
    using flow_invD(3) [OF f, of g1 k1] by (cases "g1 = g") (auto simp: flight_ok_def image_iff)
next
  fix z assume "z \<in> set res"
  from flow_invD(8) [OF f this] show "result_ok (Suc n) (calls(g \<mapsto> Call Acquired a n rq)) log z"
    by (simp add: result_ok_def less_SucI)
next
  show "fst z < Suc n" if "z \<in> set log" for z using flow_invD(5) [OF f that] by simp
  show "c < Suc n" if "sent c \<noteq> None" for c using flow_invD(6) [OF f that] by simp
qed (rule flow_invD [OF f])+

text \<open>A position change with nothing else.\<close>

lemma flow_move:
  assumes f: "flow_inv n calls wait exe sent log res" and apart: "calls_apart calls" and g: "calls g = Some (Call p a c rq)"
    and c: "c < n" and own: "flight_ok (set wait) (set exe) sent log (Call p' a c rq)"
    and pos: "p \<in> {Submitted, Awaiting} \<Longrightarrow> p' \<in> {Submitted, Awaiting}"
  shows "flow_inv n (calls(g \<mapsto> Call p' a c rq)) wait exe sent log res"
proof (rule flow_step [OF f apart g])
  assume "c_op (Call p a c rq) \<in> set wait \<union> fst ` set exe"
  with flow_invD(3) [OF f g] pos show "c_pos (Call p' a c rq) \<in> {Submitted, Awaiting}"
    by (auto simp: flight_ok_def split: if_splits)
qed (use c own flow_invD [OF f] in \<open>simp_all add: touches_only_def\<close>)

lemma flow_submit:
  assumes f: "flow_inv n calls wait exe sent log res" and apart: "calls_apart calls" and g: "calls g = Some (Call Filled a c rq)"
    and c: "c < n"
  shows "flow_inv n (calls(g \<mapsto> Call Submitted a c rq)) (a # wait) exe sent log res"
proof (rule flow_step [OF f apart g])
  note own = flow_invD(3) [OF f g]
  show "distinct (map fst exe @ a # wait)" using flow_invD(1) [OF f] own by (auto simp: flight_ok_def)
  show "flight_ok (set (a # wait)) (set exe) sent log (Call Submitted a c rq)" using own by (auto simp: flight_ok_def)
qed (use c flow_invD [OF f] in \<open>auto simp: touches_only_def\<close>)

lemma flow_receive:
  assumes f: "flow_inv n calls wait exe sent log res" and apart: "calls_apart calls" and g: "calls g = Some (Call Awaiting a c rq)"
    and c: "c < n" and r: "sent c = Some r"
  shows "flow_inv n (calls(g \<mapsto> Call (Finished r) a c rq)) wait exe (sent(c := None)) log res"
proof (rule flow_step [OF f apart g])
  note own = flow_invD(3) [OF f g]
  show "flight_ok (set wait) (set exe) (sent(c := None)) log (Call (Finished r) a c rq)" using own r by (auto simp: flight_ok_def)
  show "c_op (Call Awaiting a c rq) \<in> set wait \<union> fst ` set exe \<Longrightarrow> c_pos (Call (Finished r) a c rq) \<in> {Submitted, Awaiting}"
    using own r by (auto simp: flight_ok_def)
qed (use c flow_invD [OF f] in \<open>auto simp: touches_only_def\<close>)

lemma flow_release:
  assumes f: "flow_inv n calls wait exe sent log res" and apart: "calls_apart calls" and g: "calls g = Some (Call (Finished r) a c rq)"
    and c: "c < n"
  shows "flow_inv n (calls(g := None)) wait exe sent log (res @ [(c, rq, r)])"
proof (rule flow_invI)
  note own = flow_invD(3) [OF f g]
  fix b assume "b \<in> set wait \<union> fst ` set exe"
  then obtain g1 k1 where k1: "calls g1 = Some k1" "c_op k1 = b" "c_pos k1 \<in> {Submitted, Awaiting}"
    using flow_invD(2) [OF f] by blast
  with g show "\<exists>g1 k1. (calls(g := None)) g1 = Some k1 \<and> c_op k1 = b \<and> c_pos k1 \<in> {Submitted, Awaiting}"
    by (intro exI [of _ g1] exI [of _ k1]) auto
next
  fix g1 k1 assume "(calls(g := None)) g1 = Some k1"
  then show "flight_ok (set wait) (set exe) sent log k1" using flow_invD(3) [OF f, of g1 k1] by (auto split: if_splits)
next
  show "distinct (map fst (res @ [(c, rq, r)]))" using flow_invD(7) [OF f] no_result [OF f g] by auto
  fix z assume "z \<in> set (res @ [(c, rq, r)])"
  then have "z \<in> set res \<or> z = (c, rq, r)" by auto
  moreover have "result_ok n (calls(g := None)) log (c, rq, r)"
    using flow_invD(3) [OF f g] c calls_apartD(1) [OF apart g] by (fastforce simp: result_ok_def flight_ok_def)
  moreover have "result_ok n (calls(g := None)) log y" if "y \<in> set res" for y
    using flow_invD(8) [OF f that] by (simp add: result_ok_def)
  ultimately show "result_ok n (calls(g := None)) log z" by blast
qed (rule flow_invD [OF f]; assumption?)+

text \<open>Executing, sending and draining change the flow of one operation of a waiting call.\<close>

lemma flow_owner:
  assumes f: "flow_inv n calls wait exe sent log res" and m: "mem_ok M calls" and a: "a \<in> set wait \<union> fst ` set exe"
  obtains g p c rq where "calls g = Some (Call p a c rq)" "p \<in> {Submitted, Awaiting}" "c < pm_chans M" "sent c = None"
    "pm_heap M a = shell_of rq c"
proof -
  from flow_invD(2) [OF f a] obtain g k where k: "calls g = Some k" "c_op k = a" "c_pos k \<in> {Submitted, Awaiting}" by blast
  have "sent (c_chan k) = None" using flow_invD(3) [OF f k(1)] k(2,3) a by (auto simp: flight_ok_def split: option.splits)
  with k that [of g "c_pos k" "c_chan k" "c_req k"] mem_callD(4,6) [OF m k(1)] show ?thesis by (cases k) auto
qed

lemma flow_execute:
  assumes f: "flow_inv (pm_chans M) calls (a # wait) exe sent log res" and m: "mem_ok M calls"
  shows "flow_inv (pm_chans M) calls wait (exe @ [(a, e)]) sent (log @ [executed M e a]) res"
proof -
  have apart: "calls_apart calls" using m by (simp add: mem_ok_def)
  obtain g p c rq where g: "calls g = Some (Call p a c rq)" "p \<in> {Submitted, Awaiting}" "c < pm_chans M" "sent c = None"
    "pm_heap M a = shell_of rq c"
    by (rule flow_owner [OF f m, of a]) simp
  note own = flow_invD(3) [OF f g(1)] and d = flow_invD(1) [OF f]
  have ex: "executed M e a = (c, rq, e)" using g(5) by (simp add: executed_def deref_def shell_of_def)
  have out: "a \<notin> fst ` set exe" "a \<notin> set wait" using d by auto
  have c: "c \<notin> fst ` set log" using own g(2,4) out by (force simp: flight_ok_def)
  have "flow_inv (pm_chans M) (calls(g \<mapsto> Call p a c rq)) wait (exe @ [(a, e)]) sent (log @ [(c, rq, e)]) res"
  proof (rule flow_step [OF f apart g(1)])
    show "flight_ok (set wait) (set (exe @ [(a, e)])) sent (log @ [(c, rq, e)]) (Call p a c rq)"
      using g(2,4) by (auto simp: flight_ok_def)
  qed (use g d c out flow_invD(4) [OF f] in \<open>auto simp: touches_only_def\<close>)
  moreover have "calls(g \<mapsto> Call p a c rq) = calls" using g(1) by auto
  ultimately show ?thesis by (simp add: ex)
qed

lemma flow_answer:
  assumes f: "flow_inv (pm_chans M) calls wait exe sent log res" and m: "mem_ok M calls" and a: "a \<in> set wait \<union> fst ` set exe"
    and d: "distinct (map fst exe' @ wait')" and out: "a \<notin> set wait' \<union> fst ` set exe'"
    and W: "set wait' = set wait - {a}" "set exe' = {z \<in> set exe. fst z \<noteq> a}"
    and r: "a \<in> set wait \<Longrightarrow> r = Some ErrStopped" "a \<notin> set wait \<Longrightarrow> (a, r) \<in> set exe"
    and s: "sent' = sent(the (sh_Done (pm_heap M a)) := Some r)"
  shows "flow_inv (pm_chans M) calls wait' exe' sent' log res"
proof -
  have apart: "calls_apart calls" using m by (simp add: mem_ok_def)
  obtain g p c rq where g: "calls g = Some (Call p a c rq)" "p \<in> {Submitted, Awaiting}" "c < pm_chans M" "sent c = None"
    "pm_heap M a = shell_of rq c"
    using flow_owner [OF f m a] .
  have s: "sent' = sent(c := Some r)" using s g(5) by (simp add: shell_of_def)
  note own = flow_invD(3) [OF f g(1)]
  have "answered log c rq r"
  proof (cases "a \<in> set wait")
    case True
    then have "a \<notin> fst ` set exe" using flow_invD(1) [OF f] by auto
    with own g(2,4) have "c \<notin> fst ` set log" by (force simp: flight_ok_def)
    with r(1) True show ?thesis by (simp add: answered_def)
  next
    case False
    have "e = r" if "(a, e) \<in> set exe" for e
      using flow_invD(1) [OF f] that r(2) [OF False] by (auto dest: eq_key_imp_eq_value)
    with own g(2,4) False show ?thesis by (auto simp: flight_ok_def answered_def)
  qed
  then have "flow_inv (pm_chans M) (calls(g \<mapsto> Call p a c rq)) wait' exe' sent' log res"
    using g out d W flow_invD(4) [OF f]
    by (intro flow_step [OF f apart g(1)]) (auto simp: flight_ok_def touches_only_def s)
  moreover have "calls(g \<mapsto> Call p a c rq) = calls" using g(1) by auto
  ultimately show ?thesis by simp
qed


lemma flow_execute_all:
  assumes "flow_inv (pm_chans M) calls (b @ wait) exe sent log res" and "mem_ok M calls"
  shows "flow_inv (pm_chans M) calls wait (exe @ map (\<lambda>a. (a, e)) b) sent (log @ map (executed M e) b) res"
  using assms(1)
proof (induction b arbitrary: exe log)
  case (Cons a b)
  from Cons.IH [OF flow_execute [OF Cons.prems [unfolded append_Cons] assms(2)]] show ?case by simp
qed simp

section \<open>Every step keeps the invariant\<close>

lemma ops_frame [simp]:
  "waiting_ops (\<sigma>\<lparr>po_mem := M\<rparr>) = waiting_ops \<sigma>" "executed_ops (\<sigma>\<lparr>po_mem := M\<rparr>) = executed_ops \<sigma>"
  "waiting_ops (\<sigma>\<lparr>po_calls := k\<rparr>) = waiting_ops \<sigma>" "executed_ops (\<sigma>\<lparr>po_calls := k\<rparr>) = executed_ops \<sigma>"
  "waiting_ops (\<sigma>\<lparr>po_sent := s\<rparr>) = waiting_ops \<sigma>" "executed_ops (\<sigma>\<lparr>po_sent := s\<rparr>) = executed_ops \<sigma>"
  "waiting_ops (\<sigma>\<lparr>po_log := l\<rparr>) = waiting_ops \<sigma>" "executed_ops (\<sigma>\<lparr>po_log := l\<rparr>) = executed_ops \<sigma>"
  "waiting_ops (\<sigma>\<lparr>po_results := l\<rparr>) = waiting_ops \<sigma>" "executed_ops (\<sigma>\<lparr>po_results := l\<rparr>) = executed_ops \<sigma>"
  "waiting_ops (\<sigma>\<lparr>po_q := q\<rparr>) = waiting_ops \<sigma>" "executed_ops (\<sigma>\<lparr>po_q := q\<rparr>) = executed_ops \<sigma>"
  "executed_ops (\<sigma>\<lparr>po_queue := b\<rparr>) = executed_ops \<sigma>" "executed_ops (\<sigma>\<lparr>po_stop := d\<rparr>) = executed_ops \<sigma>"
  by (simp_all add: waiting_ops_def executed_ops_def)

lemma pool_okD:
  assumes "pool_ok \<sigma>"
  shows "flow_inv (pm_chans (po_mem \<sigma>)) (po_calls \<sigma>) (waiting_ops \<sigma>) (executed_ops \<sigma>) (po_sent \<sigma>) (po_log \<sigma>) (po_results \<sigma>)"
    "mem_ok (po_mem \<sigma>) (po_calls \<sigma>)" "calls_apart (po_calls \<sigma>)"
  using assms by (simp_all add: pool_ok_def mem_ok_def)

lemma flight_positions:
  "flight_ok W X sent log (Call Filled a c rq) = flight_ok W X sent log (Call Acquired a c rq)"
  "flight_ok W X sent log (Call Awaiting a c rq) = flight_ok W X sent log (Call Submitted a c rq)"
  "flight_ok W X sent log (Call Filled a c rq) \<Longrightarrow> flight_ok W X sent log (Call (Finished (Some ErrWriteThrottled)) a c rq)"
  by (simp_all add: flight_ok_def answered_def split: option.split)

lemma sent_ready:
  assumes ok: "pool_ok \<sigma>" and a: "a \<in> set (waiting_ops \<sigma>) \<union> fst ` set (executed_ops \<sigma>)"
  shows "send_ready \<sigma> a"
proof -
  obtain g p c rq where "po_sent \<sigma> c = None" "pm_heap (po_mem \<sigma>) a = shell_of rq c"
    using flow_owner [OF pool_okD(1,2) [OF ok] a] by metis
  then show ?thesis by (simp add: send_ready_def shell_of_def)
qed

lemma call_ok: "call_step \<sigma> \<tau> \<Longrightarrow> pool_ok \<sigma> \<Longrightarrow> pool_ok \<tau>"
proof (induction rule: call_step.induct)
  case (acquire \<sigma> g pick a M rq)
  note ok = pool_okD [OF acquire(4)]
  note A = acquire_mem [OF ok(2) acquire(2,1,3)]
  show ?case using A(1) flow_acquire [OF ok(1) acquire(1) A(3)] A(2) by (simp add: pool_ok_def del: fun_upd_apply)
next
  case (assign \<sigma> g a c rq M)
  note ok = pool_okD [OF assign(3)]
  have "flow_inv (pm_chans (po_mem \<sigma>)) ((po_calls \<sigma>)(g \<mapsto> Call Filled a c rq)) (waiting_ops \<sigma>) (executed_ops \<sigma>)
      (po_sent \<sigma>) (po_log \<sigma>) (po_results \<sigma>)"
    using mem_callD(4) [OF ok(2) assign(1)] flow_invD(3) [OF ok(1) assign(1)]
    by (intro flow_move [OF ok(1,3) assign(1)]) (simp_all add: flight_positions)
  then show ?case using assign_mem [OF ok(2) assign(1)] assign(2) by (simp add: pool_ok_def del: fun_upd_apply)
next
  case (submit \<sigma> g a c rq)
  note ok = pool_okD [OF submit(4)]
  from flow_submit [OF ok(1,3) submit(1)] mem_callD(4) [OF ok(2) submit(1)]
  have "flow_inv (pm_chans (po_mem \<sigma>)) ((po_calls \<sigma>)(g \<mapsto> Call Submitted a c rq)) (a # waiting_ops \<sigma>) (executed_ops \<sigma>)
      (po_sent \<sigma>) (po_log \<sigma>) (po_results \<sigma>)" by simp
  then have "flow_inv (pm_chans (po_mem \<sigma>)) ((po_calls \<sigma>)(g \<mapsto> Call Submitted a c rq))
      (waiting_ops (\<sigma>\<lparr>po_queue := po_queue \<sigma> @ [a]\<rparr>)) (executed_ops \<sigma>) (po_sent \<sigma>) (po_log \<sigma>) (po_results \<sigma>)"
    by (rule flow_shuffle) (simp add: waiting_ops_def)
  then show ?case using mem_ok_move [OF ok(2) submit(1), of Submitted] by (simp add: pool_ok_def del: fun_upd_apply)
next
  case (refuse \<sigma> g a c rq)
  note ok = pool_okD [OF refuse(4)]
  let ?p = "Finished (Some ErrWriteThrottled)"
  have "flow_inv (pm_chans (po_mem \<sigma>)) ((po_calls \<sigma>)(g \<mapsto> Call ?p a c rq)) (waiting_ops \<sigma>) (executed_ops \<sigma>)
      (po_sent \<sigma>) (po_log \<sigma>) (po_results \<sigma>)"
    using mem_callD(4) [OF ok(2) refuse(1)] flow_invD(3) [OF ok(1) refuse(1)]
    by (intro flow_move [OF ok(1,3) refuse(1)]) (simp_all add: flight_positions)
  then show ?case using mem_ok_move [OF ok(2) refuse(1), of ?p] by (simp add: pool_ok_def del: fun_upd_apply)
next
  case (await \<sigma> g a c rq ch)
  note ok = pool_okD [OF await(3)]
  have ch: "ch = c" using mem_callD(5) [OF ok(2) await(1)] await(2) by simp
  have "flow_inv (pm_chans (po_mem \<sigma>)) ((po_calls \<sigma>)(g \<mapsto> Call Awaiting a c rq)) (waiting_ops \<sigma>) (executed_ops \<sigma>)
      (po_sent \<sigma>) (po_log \<sigma>) (po_results \<sigma>)"
    using mem_callD(4) [OF ok(2) await(1)] flow_invD(3) [OF ok(1) await(1)]
    by (intro flow_move [OF ok(1,3) await(1)]) (simp_all add: flight_positions)
  then show ?case using mem_ok_move [OF ok(2) await(1), of Awaiting] by (simp add: ch pool_ok_def del: fun_upd_apply)
next
  case (receive \<sigma> g a c rq r)
  note ok = pool_okD [OF receive(3)]
  show ?case
    using mem_ok_move [OF ok(2) receive(1), of "Finished r"] mem_callD(4) [OF ok(2) receive(1)]
      flow_receive [OF ok(1,3) receive(1) _ receive(2)]
    by (simp add: pool_ok_def del: fun_upd_apply)
next
  case (release \<sigma> g r a c rq)
  note ok = pool_okD [OF release(2)]
  show ?case
    using release_mem [OF ok(2) release(1)] mem_callD(4) [OF ok(2) release(1)] flow_release [OF ok(1,3) release(1)]
    by (simp add: pool_ok_def del: fun_upd_apply)
next
  case (forget M \<sigma> a)
  then show ?case using forget_mem [of "po_mem \<sigma>" "po_calls \<sigma>" a] by (simp add: pool_ok_def)
qed

text \<open>A step of the consumer or of \<open>Stop\<close> moves operations between their hands and the channel.\<close>

lemma pool_ok_shuffle:
  assumes "pool_ok \<sigma>" and "mset (waiting_ops \<tau>) = mset (waiting_ops \<sigma>)" and "executed_ops \<tau> = executed_ops \<sigma>"
    and "po_mem \<tau> = po_mem \<sigma>" "po_calls \<tau> = po_calls \<sigma>" "po_sent \<tau> = po_sent \<sigma>" "po_log \<tau> = po_log \<sigma>" "po_results \<tau> = po_results \<sigma>"
  shows "pool_ok \<tau>"
  using flow_shuffle [OF pool_okD(1) [OF assms(1)] assms(2)] pool_okD(2) [OF assms(1)] assms(3-) by (simp add: pool_ok_def)

lemma pool_ok_execute:
  assumes ok: "pool_ok \<sigma>" and w: "mset (waiting_ops \<sigma>) = mset (b @ waiting_ops \<tau>)"
    and x: "executed_ops \<tau> = executed_ops \<sigma> @ map (\<lambda>a. (a, e)) b" and l: "po_log \<tau> = po_log \<sigma> @ map (executed (po_mem \<sigma>) e) b"
    and eq: "po_mem \<tau> = po_mem \<sigma>" "po_calls \<tau> = po_calls \<sigma>" "po_sent \<tau> = po_sent \<sigma>" "po_results \<tau> = po_results \<sigma>"
  shows "pool_ok \<tau>"
  using flow_execute_all [OF flow_shuffle [OF pool_okD(1) [OF ok] w [symmetric]] pool_okD(2) [OF ok], of e] pool_okD(2) [OF ok]
  by (simp add: pool_ok_def x l eq)

lemma work_keeps: "pool_work P \<sigma> \<tau> \<Longrightarrow> pool_ok \<sigma> \<Longrightarrow> pool_ok \<tau>"
proof (induction rule: pool_work.induct)
  case (drain_send \<sigma> a)
  note ok = pool_okD [OF drain_send(3)]
  let ?rest = "waiting_ops (\<sigma>\<lparr>po_stop := PDraining []\<rparr>)"
  have f: "flow_inv (pm_chans (po_mem \<sigma>)) (po_calls \<sigma>) (a # ?rest) (executed_ops \<sigma>) (po_sent \<sigma>) (po_log \<sigma>) (po_results \<sigma>)"
    using ok(1) by (rule flow_shuffle) (simp add: waiting_ops_def drain_send(1))
  note d = flow_invD(1) [OF f]
  have "flow_inv (pm_chans (po_mem \<sigma>)) (po_calls \<sigma>) ?rest (executed_ops \<sigma>) (send_to a (Some ErrStopped) \<sigma>) (po_log \<sigma>) (po_results \<sigma>)"
    by (rule flow_answer [OF f ok(2), of a]) (use d in \<open>auto simp: send_to_def image_iff\<close>)
  with ok(2) show ?case by (simp add: pool_ok_def waiting_ops_def)
next
  case (send \<sigma> a e ps b ex)
  note ok = pool_okD [OF send(3)]
  have f: "flow_inv (pm_chans (po_mem \<sigma>)) (po_calls \<sigma>) (waiting_ops \<sigma>) ((a, e) # ps) (po_sent \<sigma>) (po_log \<sigma>) (po_results \<sigma>)"
    using ok(1) by (simp add: executed_ops_def send(1))
  note d = flow_invD(1) [OF f]
  have "flow_inv (pm_chans (po_mem \<sigma>)) (po_calls \<sigma>) (waiting_ops \<sigma>) ps (send_to a e \<sigma>) (po_log \<sigma>) (po_results \<sigma>)"
    by (rule flow_answer [OF f ok(2), of a]) (use d in \<open>auto simp: send_to_def image_iff\<close>)
  with ok(2) show ?case by (simp add: pool_ok_def waiting_ops_def executed_ops_def send(1))
next
  case (execute_one \<sigma> a as ex s e)
  show ?case
    by (rule pool_ok_execute [OF execute_one(4), of "[a]" _ e]) (simp_all add: waiting_ops_def executed_ops_def execute_one(1))
next
  case (execute_all \<sigma> b ex ab s e)
  show ?case
    by (rule pool_ok_execute [OF execute_all(6), of b _ e]) (simp_all add: waiting_ops_def executed_ops_def execute_all(1))
qed (erule pool_ok_shuffle; simp add: waiting_ops_def executed_ops_def)+

lemma init_pool_ok: "pool_ok (po_init cfg s)"
  by (simp add: po_init_def pool_init_def pool_ok_def mem_ok_def pool_clean_def calls_apart_def flow_inv_def waiting_ops_def executed_ops_def)

lemma pool_reach_ok: "pool_reach P cfg s0 \<sigma> \<Longrightarrow> pool_ok \<sigma>"
proof (induction rule: pool_reach.induct)
  case (sample \<sigma> alloc)
  then show ?case by (simp add: pool_ok_def)
qed (simp_all add: init_pool_ok call_ok work_keeps)


section \<open>Pooled operations are never shared\<close>

text \<open>
  C16. Reusing the shells of write operations is safe.  In any interleaving of callers, the consumer, \<open>Stop\<close>, the memory
  monitor and the collector: a shell in the pool is empty and no caller, queue or consumer has it; no two calls share a
  shell or a channel; every shell in the channel, in the consumer's or \<open>Stop\<close>'s hands belongs to a call that waits for it
  and carries that call's arguments, and the send that answers it does not block; no write is executed twice and no
  call returns twice; what a call returned is the result of its own write, or a refusal of a write that is not executed.
\<close>

theorem pooled_ops_exclusive:
  assumes "pool_reach P cfg s0 \<sigma>"
  shows "(\<forall>a \<in> set (pm_pool (po_mem \<sigma>)). pm_heap (po_mem \<sigma>) a = zero_shell
        \<and> a \<notin> set (waiting_ops \<sigma>) \<union> fst ` set (executed_ops \<sigma>) \<and> (\<forall>g k. po_calls \<sigma> g = Some k \<longrightarrow> c_op k \<noteq> a))
    \<and> distinct (pm_pool (po_mem \<sigma>)) \<and> calls_apart (po_calls \<sigma>)
    \<and> distinct (map fst (executed_ops \<sigma>) @ waiting_ops \<sigma>)
    \<and> (\<forall>a \<in> set (waiting_ops \<sigma>) \<union> fst ` set (executed_ops \<sigma>). send_ready \<sigma> a
        \<and> (\<exists>g k. po_calls \<sigma> g = Some k \<and> c_pos k \<in> {Submitted, Awaiting} \<and> c_op k = a
            \<and> pm_heap (po_mem \<sigma>) a = shell_of (c_req k) (c_chan k)))
    \<and> distinct (map fst (po_log \<sigma>)) \<and> distinct (map fst (po_results \<sigma>))
    \<and> (\<forall>(c, rq, r) \<in> set (po_results \<sigma>). answered (po_log \<sigma>) c rq r)"
proof -
  note reach = pool_reach_ok [OF assms]
  note ok = pool_okD [OF reach]
  note f = ok(1) and m = ok(2)
  have pool: "pm_heap (po_mem \<sigma>) a = zero_shell" "\<forall>g k. po_calls \<sigma> g = Some k \<longrightarrow> c_op k \<noteq> a"
    if "a \<in> set (pm_pool (po_mem \<sigma>))" for a
    using that m mem_callD(3) [OF m] by (auto simp: mem_ok_def pool_clean_def)
  have owner: "\<exists>g k. po_calls \<sigma> g = Some k \<and> c_pos k \<in> {Submitted, Awaiting} \<and> c_op k = a
      \<and> pm_heap (po_mem \<sigma>) a = shell_of (c_req k) (c_chan k)"
    if "a \<in> set (waiting_ops \<sigma>) \<union> fst ` set (executed_ops \<sigma>)" for a
    using flow_invD(2) [OF f that] mem_callD(6) [OF m] by fastforce
  have "\<forall>a \<in> set (pm_pool (po_mem \<sigma>)). pm_heap (po_mem \<sigma>) a = zero_shell
      \<and> a \<notin> set (waiting_ops \<sigma>) \<union> fst ` set (executed_ops \<sigma>) \<and> (\<forall>g k. po_calls \<sigma> g = Some k \<longrightarrow> c_op k \<noteq> a)"
    using pool owner by blast
  moreover have "\<forall>(c, rq, r) \<in> set (po_results \<sigma>). answered (po_log \<sigma>) c rq r"
    using flow_invD(8) [OF f] by (fastforce simp: result_ok_def)
  moreover have "distinct (pm_pool (po_mem \<sigma>))" using m by (simp add: mem_ok_def pool_clean_def)
  ultimately show ?thesis using ok(3) flow_invD(1,4,7) [OF f] owner sent_ready [OF reach] by blast
qed

text \<open>
  Witness: one write is submitted, executed, answered and its shell released; a second call gets the same shell with a
  new channel.
\<close>

definition example_pooled :: "pool_mem \<Rightarrow> (nat \<Rightarrow> call option) \<Rightarrow> nat list \<Rightarrow> nat \<Rightarrow> pool_consumer
    \<Rightarrow> (nat \<Rightarrow> go_error option option) \<Rightarrow> outcome list \<Rightarrow> outcome list \<Rightarrow> nat pool_sys" where
  "example_pooled M calls q n cons sent log res =
     \<lparr>po_mem = M, po_calls = calls, po_queue = q,
      po_q = (wq_New (example_queue\<lparr>qc_BatchSize := 0\<rparr>) 0)\<lparr>q_store := n\<rparr>, po_cons = cons, po_stop = PNotStopped,
      po_sent = sent, po_log = log, po_results = res\<rparr>"

abbreviation example_reach :: "nat pool_sys \<Rightarrow> bool" where
  "example_reach \<equiv> pool_reach example_putter (example_queue\<lparr>qc_BatchSize := 0\<rparr>) 0"

definition example_request :: request where "example_request = Request [1] [7] OpPut"

definition example_mem :: "op_shell \<Rightarrow> nat list \<Rightarrow> nat \<Rightarrow> pool_mem" where
  "example_mem s pool c = \<lparr>pm_heap = (\<lambda>a. zero_shell)(0 := s), pm_pool = pool, pm_next = 1, pm_chans = c\<rparr>"

text \<open>The states of the run: the shell, the pool, the channels made and the other fields.\<close>

lemma example_pool_run:
  "example_reach (example_pooled (example_mem (zero_shell\<lparr>sh_Done := Some 1\<rparr>) [] 2)
     (Map.empty(1 \<mapsto> Call Acquired 0 1 example_request)) [] 1 PReceiving (\<lambda>c. None)
     [(0, example_request, None)] [(0, example_request, None)])"
proof -
  let ?rq = example_request and ?s = "shell_of example_request 0" and ?none = "\<lambda>a. None"
  let ?k = "\<lambda>p. (Map.empty(0 \<mapsto> Call p 0 0 ?rq))" and ?z = "zero_shell\<lparr>sh_Done := Some 0\<rparr>" and ?l = "[(0, ?rq, None)]"
  let ?S0 = "example_pooled pool_init ?none [] 0 PReceiving ?none [] []"
  let ?S1 = "example_pooled (example_mem ?z [] 1) (?k Acquired) [] 0 PReceiving ?none [] []"
  let ?S2 = "example_pooled (example_mem ?s [] 1) (?k Filled) [] 0 PReceiving ?none [] []"
  let ?S3 = "example_pooled (example_mem ?s [] 1) (?k Submitted) [0] 0 PReceiving ?none [] []"
  let ?S4 = "example_pooled (example_mem ?s [] 1) (?k Submitted) [] 0 (PWorking [] [0] False) ?none [] []"
  let ?S5 = "example_pooled (example_mem ?s [] 1) (?k Submitted) [] 1 (PWorking [(0, None)] [] False) ?none ?l []"
  let ?S6 = "example_pooled (example_mem ?s [] 1) (?k Submitted) [] 1 (PWorking [] [] False) (?none(0 := Some None)) ?l []"
  let ?S7 = "example_pooled (example_mem ?s [] 1) (?k Submitted) [] 1 PReceiving (?none(0 := Some None)) ?l []"
  let ?S8 = "example_pooled (example_mem ?s [] 1) (?k Awaiting) [] 1 PReceiving (?none(0 := Some None)) ?l []"
  let ?S9 = "example_pooled (example_mem ?s [] 1) (?k (Finished None)) [] 1 PReceiving ?none ?l []"
  let ?S10 = "example_pooled (example_mem zero_shell [0] 1) ?none [] 1 PReceiving ?none ?l ?l"
  note defs = example_pooled_def example_mem_def
  have "example_reach ?S0"
    using pool_reach.init [of example_putter "example_queue\<lparr>qc_BatchSize := 0\<rparr>" 0]
    by (simp add: example_pooled_def po_init_def wq_New_def)
  moreover have "call_step ?S0 ?S1"
    using call_step.acquire [of ?S0 0 None 0 "example_mem ?z [] 1" ?rq]
    by (simp add: defs AcquireWriteOp_def pool_Get_def pool_init_def)
  moreover have "call_step ?S1 ?S2"
    using call_step.assign [of ?S1 0 0 0 ?rq "po_mem ?S1"] by (simp add: defs fill_def shell_of_def zero_shell_def)
  moreover have "call_step ?S2 ?S3"
    using call_step.submit [of ?S2 0 0 0 ?rq]
    by (simp add: defs submit_result_def wq_Submit_def wq_New_def example_queue_def)
  moreover have "pool_work example_putter ?S3 ?S4"
    using pool_work.recv [of ?S3 0 "[]" example_putter] by (simp add: defs wq_New_def)
  moreover have "pool_work example_putter ?S4 ?S5"
    using pool_work.execute_one [of ?S4 0 "[]" False example_putter 1 None]
    by (simp add: defs one_by_one_def put_one_def deref_def shell_of_def executed_def example_request_def example_putter_def
        wq_New_def)
  moreover have "pool_work example_putter ?S5 ?S6"
    using pool_work.send [of ?S5 0 None "[]" "[]" False example_putter]
    by (simp add: defs send_ready_def send_to_def shell_of_def)
  moreover have "pool_work example_putter ?S6 ?S7"
    using pool_work.finish [of ?S6 False example_putter] by (simp add: defs)
  moreover have "call_step ?S7 ?S8"
    using call_step.await [of ?S7 0 0 0 ?rq 0] by (simp add: defs shell_of_def)
  moreover have "call_step ?S8 ?S9"
    using call_step.receive [of ?S8 0 0 0 ?rq None] by (simp add: defs fun_upd_idem)
  moreover have "call_step ?S9 ?S10"
    using call_step.release [of ?S9 0 None 0 0 ?rq]
    by (simp add: defs ReleaseWriteOp_def shell_of_def zero_shell_def)
  moreover have "call_step ?S10 (example_pooled (example_mem (zero_shell\<lparr>sh_Done := Some 1\<rparr>) [] 2)
     (Map.empty(1 \<mapsto> Call Acquired 0 1 ?rq)) [] 1 PReceiving ?none ?l ?l)"
    using call_step.acquire [of ?S10 1 "Some 0" 0 "example_mem (zero_shell\<lparr>sh_Done := Some 1\<rparr>) [] 2" ?rq]
    by (simp add: defs AcquireWriteOp_def pool_Get_def)
  ultimately show ?thesis by (meson pool_reach.call pool_reach.work)
qed

theorem pooled_ops_exclusive_witness:
  "\<exists>\<sigma>. pool_reach example_putter (example_queue\<lparr>qc_BatchSize := 0\<rparr>) 0 \<sigma>
    \<and> po_calls \<sigma> 1 = Some (Call Acquired 0 1 example_request) \<and> po_results \<sigma> = [(0, example_request, None)]
    \<and> answered (po_log \<sigma>) 0 example_request None"
proof -
  let ?\<sigma> = "example_pooled (example_mem (zero_shell\<lparr>sh_Done := Some 1\<rparr>) [] 2)
     (Map.empty(1 \<mapsto> Call Acquired 0 1 example_request)) [] 1 PReceiving (\<lambda>c. None)
     [(0, example_request, None)] [(0, example_request, None)]"
  have "\<forall>(c, rq, r) \<in> set (po_results ?\<sigma>). answered (po_log ?\<sigma>) c rq r"
    using pooled_ops_exclusive [OF example_pool_run] by blast
  with example_pool_run show ?thesis by (intro exI [of _ ?\<sigma>]) (simp add: example_pooled_def)
qed

end
