(* ===== verification/Sketch.thy ===== *)
theory Sketch
  imports GoBytes
begin

text \<open>
  The Count-Min Sketch of \<open>internal/cache/tinylfu.go\<close>: four rows of saturating 32-bit
  counters, two FNV-1a hashes per key, and a global right shift every 1,000,000 increments.  One
  call is one run of the code without a concurrent writer: each compare-and-swap loop ends in its
  first round.
\<close>

section \<open>Definitions\<close>

record countMinSketch =
  cms_rows :: "32 word list list"
  cms_width :: nat
  cms_counter :: "64 word"

definition counterSaturation :: "32 word" where "counterSaturation = NOT 0"

definition newCountMinSketch :: countMinSketch where
  "newCountMinSketch =
     (let width = 2048 in
      \<lparr>cms_rows = replicate 4 (replicate width 0), cms_width = width, cms_counter = 0\<rparr>)"

text \<open>The hash of the key, and the hash of the key followed by the byte \<open>0xFF\<close>.\<close>

definition hashKey :: "bytes \<Rightarrow> 64 word \<times> 64 word" where
  "hashKey key =
     (fnv64a_write fnv64a_offset key, fnv64a_write (fnv64a_write fnv64a_offset key) [0xFF])"

definition cms_index :: "nat \<Rightarrow> nat \<Rightarrow> 64 word \<Rightarrow> 64 word \<Rightarrow> nat" where
  "cms_index width row h1 h2 = unat ((h1 + word_of_nat row * h2) mod word_of_nat width)"

text \<open>The compare-and-swap loop on one cell.\<close>

definition cell_inc :: "32 word \<Rightarrow> 32 word" where
  "cell_inc old = (if counterSaturation \<le> old then old else old + 1)"

text \<open>The loop over the rows, from row \<open>i\<close> on, with the minimum so far.\<close>

fun inc_rows ::
  "nat \<Rightarrow> 64 word \<Rightarrow> 64 word \<Rightarrow> nat \<Rightarrow> 32 word \<Rightarrow> 32 word list list \<Rightarrow> 32 word list list \<times> 32 word"
where
  "inc_rows width h1 h2 i mn [] = ([], mn)"
| "inc_rows width h1 h2 i mn (r # rs) =
     (let idx = cms_index width i h1 h2;
          v = cell_inc (r ! idx);
          (rs', mn') = inc_rows width h1 h2 (Suc i) (if v < mn then v else mn) rs
      in (r[idx := v] # rs', mn'))"

definition cms_decay :: "countMinSketch \<Rightarrow> countMinSketch" where
  "cms_decay s = s\<lparr>cms_rows := map (map (drop_bit 1)) (cms_rows s)\<rparr>"

definition cms_increment :: "countMinSketch \<Rightarrow> 64 word \<Rightarrow> 64 word \<Rightarrow> countMinSketch \<times> 32 word" where
  "cms_increment s h1 h2 =
     (let (rows, mn) = inc_rows (cms_width s) h1 h2 0 counterSaturation (cms_rows s);
          c = cms_counter s + 1;
          s' = s\<lparr>cms_rows := rows, cms_counter := c\<rparr>
      in (if c mod 1000000 = 0 then cms_decay s' else s', mn))"

definition cms_Increment :: "countMinSketch \<Rightarrow> bytes \<Rightarrow> countMinSketch \<times> 32 word" where
  "cms_Increment s key = (let (h1, h2) = hashKey key in cms_increment s h1 h2)"

text \<open>A run of increments, oldest key first.\<close>

definition cms_run :: "countMinSketch \<Rightarrow> bytes list \<Rightarrow> countMinSketch" where
  "cms_run s keys = foldl (\<lambda>s k. fst (cms_Increment s k)) s keys"

section \<open>Rows and indices\<close>

definition cms_cell :: "countMinSketch \<Rightarrow> nat \<Rightarrow> bytes \<Rightarrow> nat" where
  "cms_cell s i key = (let (h1, h2) = hashKey key in cms_index (cms_width s) i h1 h2)"

definition cms_wf :: "countMinSketch \<Rightarrow> bool" where
  "cms_wf s \<longleftrightarrow> 0 < cms_width s \<and> cms_width s < 2 ^ 64
     \<and> (\<forall>r \<in> set (cms_rows s). length r = cms_width s)"

lemma cms_index_less: "0 < w \<Longrightarrow> w < 2 ^ 64 \<Longrightarrow> cms_index w i h1 h2 < w"
proof -
  assume w: "0 < w" "w < 2 ^ 64"
  then have "unat (word_of_nat w :: 64 word) = w" by (simp add: unat_of_nat)
  with w show ?thesis by (simp add: cms_index_def unat_mod_distrib)
qed

lemma inc_rows_Cons:
  "fst (inc_rows w h1 h2 i mn (r # rs))
     = r[cms_index w i h1 h2 := cell_inc (r ! cms_index w i h1 h2)]
       # fst (inc_rows w h1 h2 (Suc i) (min (cell_inc (r ! cms_index w i h1 h2)) mn) rs)"
  "snd (inc_rows w h1 h2 i mn (r # rs))
     = snd (inc_rows w h1 h2 (Suc i) (min (cell_inc (r ! cms_index w i h1 h2)) mn) rs)"
proof -
  have "(if v < mn then v else mn) = min v mn" for v :: "32 word"
    by (auto simp: min_def)
  then show
    "fst (inc_rows w h1 h2 i mn (r # rs))
       = r[cms_index w i h1 h2 := cell_inc (r ! cms_index w i h1 h2)]
         # fst (inc_rows w h1 h2 (Suc i) (min (cell_inc (r ! cms_index w i h1 h2)) mn) rs)"
    "snd (inc_rows w h1 h2 i mn (r # rs))
       = snd (inc_rows w h1 h2 (Suc i) (min (cell_inc (r ! cms_index w i h1 h2)) mn) rs)"
    by (simp_all add: Let_def split: prod.split)
qed

declare inc_rows.simps(2) [simp del]
declare inc_rows_Cons [simp]

lemma length_inc_rows [simp]: "length (fst (inc_rows w h1 h2 i mn rs)) = length rs"
  by (induction rs arbitrary: i mn) auto

lemma inc_rows_nth:
  "j < length rs \<Longrightarrow> fst (inc_rows w h1 h2 i mn rs) ! j
     = (rs ! j)[cms_index w (i + j) h1 h2 := cell_inc (rs ! j ! cms_index w (i + j) h1 h2)]"
proof (induction rs arbitrary: i j mn)
  case (Cons r rs)
  then show ?case by (cases j) auto
qed simp

text \<open>The value returned is the minimum of the new cells and the start value.\<close>

lemma inc_rows_min:
  "c \<le> snd (inc_rows w h1 h2 i mn rs)
     \<longleftrightarrow> c \<le> mn \<and> (\<forall>j < length rs. c \<le> cell_inc (rs ! j ! cms_index w (i + j) h1 h2))"
proof (induction rs arbitrary: i mn)
  case (Cons r rs)
  have split: "(\<forall>j < length (r # rs). P j) \<longleftrightarrow> P 0 \<and> (\<forall>j < length rs. P (Suc j))" for P
    by (auto simp: less_Suc_eq_0_disj)
  show ?case
    by (simp only: inc_rows_Cons Cons.IH split) auto
qed simp

lemma cell_inc_of_nat:
  "n < 4294967295 \<Longrightarrow> cell_inc (word_of_nat n) = word_of_nat (Suc n)"
proof -
  assume n: "n < 4294967295"
  have "unat counterSaturation = 2 ^ 32 - 1" by (simp add: counterSaturation_def unsigned_minus_1_eq_mask mask_eq_exp_minus_1)
  with n have "\<not> counterSaturation \<le> (word_of_nat n :: 32 word)"
    by (simp add: word_le_nat_alt unat_of_nat)
  then show ?thesis by (simp add: cell_inc_def add.commute)
qed

section \<open>Counting\<close>

text \<open>
  \<open>counts s keys\<close>: every cell holds the number of keys of the run that hash to it, as it does
  until the first decay.
\<close>

definition counts :: "countMinSketch \<Rightarrow> bytes list \<Rightarrow> bool" where
  "counts s keys \<longleftrightarrow> cms_wf s \<and> cms_counter s = word_of_nat (length keys)
     \<and> (\<forall>i < length (cms_rows s). \<forall>j < cms_width s.
          cms_rows s ! i ! j = word_of_nat (length (filter (\<lambda>k. cms_cell s i k = j) keys)))"

lemma counts_new: "counts newCountMinSketch []"
  by (auto simp: counts_def newCountMinSketch_def cms_wf_def Let_def)

lemma cms_cell_cong: "cms_width s = cms_width t \<Longrightarrow> cms_cell s i k = cms_cell t i k"
  by (simp add: cms_cell_def split: prod.splits)

lemma cms_cell_less: "cms_wf s \<Longrightarrow> cms_cell s i k < cms_width s"
  by (auto simp: cms_cell_def cms_wf_def cms_index_less split: prod.splits)

lemma Increment_unfold:
  assumes "hashKey key = (h1, h2)"
  shows "cms_Increment s key =
    (let r = inc_rows (cms_width s) h1 h2 0 counterSaturation (cms_rows s);
         s' = s\<lparr>cms_rows := fst r, cms_counter := cms_counter s + 1\<rparr>
     in (if unat (cms_counter s + 1) mod 1000000 = 0 then cms_decay s' else s', snd r))"
proof -
  have "c mod 1000000 = 0 \<longleftrightarrow> unat c mod 1000000 = 0" for c :: "64 word"
    by (simp add: word_unat_eq_iff unat_mod_distrib)
  then show ?thesis
    by (simp add: cms_Increment_def cms_increment_def assms Let_def split: prod.split)
qed

lemma Increment_width [simp]: "cms_width (fst (cms_Increment s key)) = cms_width s"
  by (cases "hashKey key") (simp add: Increment_unfold Let_def cms_decay_def)

lemma Increment_counter [simp]: "cms_counter (fst (cms_Increment s key)) = cms_counter s + 1"
  by (cases "hashKey key") (simp add: Increment_unfold Let_def cms_decay_def)

lemma Increment_rows_length [simp]:
  "length (cms_rows (fst (cms_Increment s key))) = length (cms_rows s)"
  by (cases "hashKey key") (simp add: Increment_unfold Let_def cms_decay_def)

lemma Increment_row:
  assumes "unat (cms_counter s + 1) mod 1000000 \<noteq> 0" and "i < length (cms_rows s)"
  shows "cms_rows (fst (cms_Increment s key)) ! i
    = (cms_rows s ! i)[cms_cell s i key := cell_inc (cms_rows s ! i ! cms_cell s i key)]"
  using assms inc_rows_nth [OF assms(2)]
  by (cases "hashKey key") (simp add: Increment_unfold Let_def cms_cell_def)

lemma Increment_min:
  "c \<le> snd (cms_Increment s key) \<longleftrightarrow> c \<le> counterSaturation
     \<and> (\<forall>i < length (cms_rows s). c \<le> cell_inc (cms_rows s ! i ! cms_cell s i key))"
  by (cases "hashKey key") (simp add: Increment_unfold Let_def cms_cell_def inc_rows_min)

text \<open>Before the first decay an increment adds one to the cell count of its key.\<close>

lemma counts_Increment:
  assumes cs: "counts s keys" and len: "Suc (length keys) < 1000000"
  shows "counts (fst (cms_Increment s key)) (keys @ [key])"
proof -
  let ?t = "fst (cms_Increment s key)"
  have cnt: "unat (cms_counter s + 1) = Suc (length keys)"
  proof -
    have "cms_counter s + 1 = word_of_nat (Suc (length keys))"
      using cs by (simp add: counts_def add.commute)
    then show ?thesis using len by (simp only: unat_of_nat) simp
  qed
  have nodecay: "unat (cms_counter s + 1) mod 1000000 \<noteq> 0" using len by (simp add: cnt)
  have cell: "cms_cell ?t i k = cms_cell s i k" for i k by (rule cms_cell_cong) simp
  have row: "cms_rows ?t ! i ! j
      = word_of_nat (length (filter (\<lambda>k. cms_cell s i k = j) (keys @ [key])))"
    if i: "i < length (cms_rows s)" and j: "j < cms_width s" for i j
  proof -
    let ?n = "length (filter (\<lambda>k. cms_cell s i k = j) keys)"
    have old: "cms_rows s ! i ! j = word_of_nat ?n" using cs i j by (simp add: counts_def)
    have "?n \<le> length keys" by (rule length_filter_le)
    with len have "?n < 4294967295" by linarith
    then have inc: "cell_inc (word_of_nat ?n) = word_of_nat (Suc ?n)" by (rule cell_inc_of_nat)
    have "length (cms_rows s ! i) = cms_width s" using cs i by (simp add: counts_def cms_wf_def)
    with i j old inc show ?thesis
      by (cases "cms_cell s i key = j") (simp_all add: Increment_row [OF nodecay i])
  qed
  have "cms_wf ?t"
    unfolding cms_wf_def
  proof (intro conjI ballI)
    fix r assume "r \<in> set (cms_rows ?t)"
    then obtain i where "i < length (cms_rows s)" "r = cms_rows ?t ! i"
      by (metis Increment_rows_length in_set_conv_nth)
    then show "length r = cms_width ?t"
      using cs by (simp add: Increment_row [OF nodecay] counts_def cms_wf_def)
  qed (use cs in \<open>simp_all add: counts_def cms_wf_def\<close>)
  with cs row show ?thesis
    by (simp add: counts_def cell)
qed

lemma counts_run:
  "length keys < 1000000 \<Longrightarrow> counts (cms_run newCountMinSketch keys) keys"
proof (induction keys rule: rev_induct)
  case Nil
  show ?case by (simp add: cms_run_def counts_new)
next
  case (snoc key keys)
  then have "counts (cms_run newCountMinSketch keys) keys" by simp
  with snoc.prems have "counts (fst (cms_Increment (cms_run newCountMinSketch keys) key)) (keys @ [key])"
    by (intro counts_Increment) simp_all
  then show ?case by (simp add: cms_run_def)
qed

section \<open>Properties\<close>

lemma estimate_lower:
  assumes cs: "counts s keys" and len: "length keys < 1000000"
  shows "Suc (count_list keys k) \<le> unat (snd (cms_Increment s k))"
proof -
  let ?c = "word_of_nat (Suc (count_list keys k)) :: 32 word"
  have cl: "count_list keys k \<le> length keys" by (rule count_le_length)
  then have unat_c: "unat ?c = Suc (count_list keys k)" using len by (intro unat32_of_nat) linarith
  have "?c \<le> snd (cms_Increment s k)"
    unfolding Increment_min
  proof (intro conjI allI impI)
    show "?c \<le> counterSaturation"
      by (simp add: counterSaturation_def del: of_nat_Suc)
  next
    fix i assume i: "i < length (cms_rows s)"
    let ?n = "length (filter (\<lambda>x. cms_cell s i x = cms_cell s i k) keys)"
    have n: "?n \<le> length keys" by (rule length_filter_le)
    have "count_list keys k = length (filter (\<lambda>x. x = k) keys)"
      by (induction keys) auto
    also have "\<dots> \<le> ?n" by (induction keys) auto
    finally have "count_list keys k \<le> ?n" .
    moreover have "cms_rows s ! i ! cms_cell s i k = word_of_nat ?n"
      using cs i by (simp add: counts_def cms_cell_less)
    moreover have "cell_inc (word_of_nat ?n) = word_of_nat (Suc ?n)"
      using n len by (intro cell_inc_of_nat) linarith
    moreover have "unat (word_of_nat (Suc ?n) :: 32 word) = Suc ?n"
      using n len by (intro unat32_of_nat) linarith
    ultimately show "?c \<le> cell_inc (cms_rows s ! i ! cms_cell s i k)"
      by (simp only: word_le_nat_alt unat_c)
  qed
  then show ?thesis by (simp only: word_le_nat_alt unat_c)
qed

lemma estimate_upper:
  assumes cs: "counts s keys" and len: "length keys < 1000000" and rows: "cms_rows s \<noteq> []"
  shows "unat (snd (cms_Increment s k)) \<le> Suc (length keys)"
proof -
  let ?n = "length (filter (\<lambda>x. cms_cell s 0 x = cms_cell s 0 k) keys)"
  have n: "?n \<le> length keys" by (rule length_filter_le)
  have "snd (cms_Increment s k) \<le> cell_inc (cms_rows s ! 0 ! cms_cell s 0 k)"
    using rows Increment_min [of "snd (cms_Increment s k)" s k] by auto
  also have "cms_rows s ! 0 ! cms_cell s 0 k = word_of_nat ?n"
    using cs rows by (simp add: counts_def cms_cell_less)
  also have "cell_inc (word_of_nat ?n) = word_of_nat (Suc ?n)"
    using n len by (intro cell_inc_of_nat) linarith
  finally have "unat (snd (cms_Increment s k)) \<le> unat (word_of_nat (Suc ?n) :: 32 word)"
    by (simp only: word_le_nat_alt)
  also have "\<dots> = Suc ?n" using n len by (intro unat32_of_nat) linarith
  finally show ?thesis using n by linarith
qed

lemma run_rows: "cms_rows (cms_run newCountMinSketch keys) \<noteq> []"
proof -
  have "length (cms_rows (cms_run newCountMinSketch keys)) = 4"
    by (induction keys rule: rev_induct) (simp_all add: cms_run_def newCountMinSketch_def Let_def)
  then show ?thesis by auto
qed

text \<open>
  C35. The frequency estimate of a fresh sketch never undercounts: within the first million
  increments, the estimate returned for a key is at least the number of times the key has been
  recorded, this time included, and at most the number of increments so far.
\<close>

theorem estimate_bounds:
  assumes "length keys < 1000000"
  shows "count_list (keys @ [k]) k \<le> unat (snd (cms_Increment (cms_run newCountMinSketch keys) k))
    \<and> unat (snd (cms_Increment (cms_run newCountMinSketch keys) k)) \<le> length (keys @ [k])"
  using estimate_lower [OF counts_run [OF assms] assms, of k]
    estimate_upper [OF counts_run [OF assms] assms run_rows, of k] by simp

text \<open>Witness: a key seen twice before, among others.\<close>

theorem estimate_bounds_witness:
  "3 \<le> unat (snd (cms_Increment (cms_run newCountMinSketch [[1], [2], [1]]) [1]))"
  using estimate_bounds [of "[[1], [2], [1]]" "[1]"] by simp

text \<open>
  A counter cell never wraps: an increment adds one below the saturation value and leaves a
  saturated cell alone, and the periodic decay halves every cell of every row.
\<close>

theorem cell_saturates:
  "unat (cell_inc c) = min (unat c + 1) (2 ^ 32 - 1)
   \<and> cms_rows (cms_decay s) = map (map (\<lambda>c. word_of_nat (unat c div 2))) (cms_rows s)"
proof -
  have max: "unat counterSaturation = 2 ^ 32 - 1"
    by (simp add: counterSaturation_def unsigned_minus_1_eq_mask mask_eq_exp_minus_1)
  have le: "unat c \<le> 2 ^ 32 - 1" using unat_less_pow [of c] by simp
  have "unat (cell_inc c) = min (unat c + 1) (2 ^ 32 - 1)"
  proof (cases "counterSaturation \<le> c")
    case True
    then have "unat c = 2 ^ 32 - 1" using le by (simp only: word_le_nat_alt max)
    with True show ?thesis by (simp add: cell_inc_def)
  next
    case False
    then have "unat c < 2 ^ 32 - 1" by (simp only: word_le_nat_alt max not_le)
    moreover from this have "unat (c + 1) = unat c + 1" by (simp add: unat_word_ariths)
    ultimately show ?thesis using False by (simp add: cell_inc_def)
  qed
  moreover have "drop_bit 1 d = word_of_nat (unat d div 2)" for d :: "32 word"
    using unat_less_pow [of d]
    by (simp add: word_unat_eq_iff drop_bit_eq_div unat_div_distrib unat_of_nat)
  ultimately show ?thesis by (simp add: cms_decay_def)
qed

end
