(* ===== verification/TinyLFU.thy ===== *)
theory TinyLFU
  imports Sketch
begin

text \<open>
  The hot cache of \<open>internal/cache/tinylfu.go\<close>.  The Go code keeps a map from keys to list
  elements and a doubly linked list of elements; both are kept here.  A list element is a
  \<open>nat\<close>, \<open>tl_elems\<close> is the store of entries behind the element pointers, \<open>tl_lru\<close> the
  elements from front to back, and \<open>tl_cache\<close> the map.  Byte counts and statistics are
  \<open>int\<close> (lengths of Go slices and numbers of calls are far below \<open>2 ^ 63\<close>); times are
  \<open>int64\<close> nanoseconds, compared signed.  \<open>now\<close> is the value \<open>time.Now()\<close> returns in
  the call.  Each call is one step: where \<open>Get\<close> finds an expired entry, the code gives up the read lock, takes the
  write lock and looks the entry up again before it removes it; a call that runs between the two locks is not modelled.
\<close>

section \<open>Definitions\<close>

record cache_config =
  cfg_MaxBytes :: int
  cfg_MaxItemBytes :: int
  cfg_AdmissionThreshold :: "32 word"
  cfg_DefaultTTL :: "64 word"

record cache_entry =
  ent_key :: bytes
  ent_value :: bytes
  ent_size :: int
  ent_expiresAt :: "64 word"

record tinylfu =
  tl_sketch :: countMinSketch
  tl_cache :: "bytes \<rightharpoonup> nat"
  tl_elems :: "nat \<Rightarrow> cache_entry"
  tl_lru :: "nat list"
  tl_next :: nat
  tl_maxBytes :: int
  tl_maxItemBytes :: int
  tl_curBytes :: int
  tl_admThreshold :: "32 word"
  tl_ttl :: "64 word"
  tl_hits :: int
  tl_misses :: int
  tl_evictions :: int
  tl_expirations :: int

definition entryOverhead :: int where "entryOverhead = 128"

definition no_entry :: cache_entry where
  "no_entry = \<lparr>ent_key = [], ent_value = [], ent_size = 0, ent_expiresAt = 0\<rparr>"

definition tl_New :: "cache_config \<Rightarrow> tinylfu" where
  "tl_New cfg =
     \<lparr>tl_sketch = newCountMinSketch, tl_cache = Map.empty, tl_elems = (\<lambda>_. no_entry),
      tl_lru = [], tl_next = 0,
      tl_maxBytes = (if cfg_MaxBytes cfg \<le> 0 then 10 * 2 ^ 20 else cfg_MaxBytes cfg),
      tl_maxItemBytes = (if cfg_MaxItemBytes cfg \<le> 0 then 2 ^ 20 else cfg_MaxItemBytes cfg),
      tl_curBytes = 0,
      tl_admThreshold =
        (if cfg_AdmissionThreshold cfg \<le> 1 then 2 else cfg_AdmissionThreshold cfg),
      tl_ttl = (if sint (cfg_DefaultTTL cfg) \<le> 0 then 60000000000 else cfg_DefaultTTL cfg),
      tl_hits = 0, tl_misses = 0, tl_evictions = 0, tl_expirations = 0\<rparr>"

text \<open>The three statements that take a listed element out: bytes, list, map.\<close>

definition tl_unlink :: "nat \<Rightarrow> tinylfu \<Rightarrow> tinylfu" where
  "tl_unlink e c = c\<lparr>tl_curBytes := tl_curBytes c - ent_size (tl_elems c e),
                     tl_lru := removeAll e (tl_lru c)\<rparr>"

definition tl_drop :: "bytes \<Rightarrow> nat \<Rightarrow> tinylfu \<Rightarrow> tinylfu" where
  "tl_drop key e c = (tl_unlink e c)\<lparr>tl_cache := (tl_cache c)(key := None)\<rparr>"

text \<open>The write-locked section of \<open>Get\<close>: evict this key if it is still expired.\<close>

definition tl_expire :: "bytes \<Rightarrow> 64 word \<Rightarrow> tinylfu \<Rightarrow> tinylfu" where
  "tl_expire key now c =
     (case tl_cache c key of
        None \<Rightarrow> c
      | Some e2 \<Rightarrow>
          if ent_expiresAt (tl_elems c e2) <s now
          then (tl_drop key e2 c)\<lparr>tl_expirations := tl_expirations c + 1\<rparr>
          else c)"

definition tl_Get :: "tinylfu \<Rightarrow> bytes \<Rightarrow> 64 word \<Rightarrow> tinylfu \<times> bytes option" where
  "tl_Get c key now =
     (case tl_cache c key of
        None \<Rightarrow> (c\<lparr>tl_misses := tl_misses c + 1\<rparr>, None)
      | Some e \<Rightarrow>
          let ent = tl_elems c e in
          if ent_expiresAt ent <s now
          then (let c' = tl_expire key now c in (c'\<lparr>tl_misses := tl_misses c' + 1\<rparr>, None))
          else (c\<lparr>tl_elems := (tl_elems c)(e := ent\<lparr>ent_expiresAt := now + tl_ttl c\<rparr>),
                  tl_hits := tl_hits c + 1\<rparr>,
                Some (ent_value ent)))"

definition tl_Record :: "tinylfu \<Rightarrow> bytes \<Rightarrow> tinylfu \<times> bool" where
  "tl_Record c key =
     (let (s, freq) = cms_Increment (tl_sketch c) key
      in (c\<lparr>tl_sketch := s\<rparr>, tl_admThreshold c \<le> freq))"

definition evictLocked :: "tinylfu \<Rightarrow> tinylfu" where
  "evictLocked c =
     (if tl_lru c = [] then c
      else (let tail = last (tl_lru c)
            in (tl_drop (ent_key (tl_elems c tail)) tail c)\<lparr>tl_evictions := tl_evictions c + 1\<rparr>))"

lemma length_removeAll_last [termination_simp]:
  "xs \<noteq> [] \<Longrightarrow> length (removeAll (last xs) xs) < length xs"
  by (rule length_removeAll_less) simp

function tl_evict_loop :: "int \<Rightarrow> tinylfu \<Rightarrow> tinylfu" where
  "tl_evict_loop itemSize c =
     (if tl_maxBytes c < tl_curBytes c + itemSize \<and> tl_lru c \<noteq> []
      then tl_evict_loop itemSize (evictLocked c) else c)"
  by pat_completeness auto
termination
  by (relation "measure (\<lambda>(_, c). length (tl_lru c))")
    (auto simp: evictLocked_def tl_drop_def tl_unlink_def Let_def length_removeAll_last)

declare tl_evict_loop.simps [simp del]

definition tl_item_size :: "bytes \<Rightarrow> bytes \<Rightarrow> int" where
  "tl_item_size key value = int (length key + length value) + entryOverhead"

definition tl_Set :: "tinylfu \<Rightarrow> bytes \<Rightarrow> bytes \<Rightarrow> 64 word \<Rightarrow> tinylfu" where
  "tl_Set c key value now =
     (let itemSize = tl_item_size key value in
      if tl_maxItemBytes c < itemSize then c
      else
        (let c1 = (case tl_cache c key of None \<Rightarrow> c | Some e \<Rightarrow> tl_unlink e c);
             c2 = tl_evict_loop itemSize c1;
             ent = \<lparr>ent_key = key, ent_value = value, ent_size = itemSize,
                    ent_expiresAt = now + tl_ttl c2\<rparr>;
             e = tl_next c2
         in c2\<lparr>tl_elems := (tl_elems c2)(e := ent), tl_lru := e # tl_lru c2, tl_next := Suc e,
               tl_cache := (tl_cache c2)(key \<mapsto> e), tl_curBytes := tl_curBytes c2 + itemSize\<rparr>))"

definition tl_Delete :: "tinylfu \<Rightarrow> bytes \<Rightarrow> tinylfu" where
  "tl_Delete c key = (case tl_cache c key of None \<Rightarrow> c | Some e \<Rightarrow> tl_drop key e c)"

text \<open>The loop of \<open>sweepExpired\<close> from the back of the list, stopping at the first live entry.\<close>

function sweepExpired :: "64 word \<Rightarrow> tinylfu \<Rightarrow> tinylfu" where
  "sweepExpired now c =
     (if tl_lru c = [] then c
      else
        (let tail = last (tl_lru c); ent = tl_elems c tail in
         if now <=s ent_expiresAt ent then c
         else sweepExpired now
                ((tl_drop (ent_key ent) tail c)\<lparr>tl_expirations := tl_expirations c + 1\<rparr>)))"
  by pat_completeness auto
termination
  by (relation "measure (\<lambda>(_, c). length (tl_lru c))")
    (auto simp: tl_drop_def tl_unlink_def length_removeAll_last)

declare sweepExpired.simps [simp del]

definition tl_Stats :: "tinylfu \<Rightarrow> int \<times> int \<times> int \<times> int \<times> int \<times> int" where
  "tl_Stats c = (tl_hits c, tl_misses c, tl_evictions c, int (length (tl_lru c)), tl_curBytes c,
                 tl_expirations c)"


section \<open>The invariant\<close>

text \<open>
  \<open>tl_inv_wk K c\<close>: outside the keys of \<open>K\<close> the map points exactly at the listed elements,
  no listed element has a key of \<open>K\<close>, every entry carries its true size and the byte counter
  is their sum.  \<open>Set\<close> passes through states with \<open>K = {key}\<close> between unlinking the old
  element and storing the new one; between calls \<open>K\<close> is empty.
\<close>

definition tl_inv_wk :: "bytes set \<Rightarrow> tinylfu \<Rightarrow> bool" where
  "tl_inv_wk K c \<longleftrightarrow> distinct (tl_lru c)
     \<and> (\<forall>k e. k \<notin> K \<longrightarrow> (tl_cache c k = Some e \<longleftrightarrow> e \<in> set (tl_lru c) \<and> ent_key (tl_elems c e) = k))
     \<and> (\<forall>e \<in> set (tl_lru c). ent_key (tl_elems c e) \<notin> K \<and> e < tl_next c
          \<and> ent_size (tl_elems c e) = tl_item_size (ent_key (tl_elems c e)) (ent_value (tl_elems c e))
          \<and> ent_size (tl_elems c e) \<le> tl_maxItemBytes c)
     \<and> tl_curBytes c = (\<Sum>e \<leftarrow> tl_lru c. ent_size (tl_elems c e))"

definition tl_inv :: "tinylfu \<Rightarrow> bool" where
  "tl_inv c \<longleftrightarrow> tl_inv_wk {} c"

text \<open>What the cache answers for a key, expiry aside.\<close>

definition tl_contents :: "tinylfu \<Rightarrow> bytes \<rightharpoonup> bytes" where
  "tl_contents c k = map_option (\<lambda>e. ent_value (tl_elems c e)) (tl_cache c k)"

lemma sum_list_removeAll:
  "distinct xs \<Longrightarrow> x \<in> set xs \<Longrightarrow>
    (\<Sum>e \<leftarrow> removeAll x xs. f e) = (\<Sum>e \<leftarrow> xs. f e) - (f x :: int)"
proof (induction xs)
  case (Cons a xs)
  then show ?case by (cases "a = x") auto
qed simp

lemma tl_unlink_simps [simp]:
  "tl_cache (tl_unlink e c) = tl_cache c" "tl_elems (tl_unlink e c) = tl_elems c"
  "tl_lru (tl_unlink e c) = removeAll e (tl_lru c)" "tl_next (tl_unlink e c) = tl_next c"
  "tl_maxBytes (tl_unlink e c) = tl_maxBytes c" "tl_maxItemBytes (tl_unlink e c) = tl_maxItemBytes c"
  "tl_curBytes (tl_unlink e c) = tl_curBytes c - ent_size (tl_elems c e)"
  "tl_ttl (tl_unlink e c) = tl_ttl c"
  by (simp_all add: tl_unlink_def)

lemma tl_drop_simps [simp]:
  "tl_cache (tl_drop k e c) = (tl_cache c)(k := None)" "tl_elems (tl_drop k e c) = tl_elems c"
  "tl_lru (tl_drop k e c) = removeAll e (tl_lru c)" "tl_next (tl_drop k e c) = tl_next c"
  "tl_maxBytes (tl_drop k e c) = tl_maxBytes c" "tl_maxItemBytes (tl_drop k e c) = tl_maxItemBytes c"
  "tl_curBytes (tl_drop k e c) = tl_curBytes c - ent_size (tl_elems c e)"
  "tl_ttl (tl_drop k e c) = tl_ttl c"
  by (simp_all add: tl_drop_def)

text \<open>Statistics and the sketch are outside the invariant.\<close>

lemma tl_inv_wk_frame [simp]:
  "tl_inv_wk K (c\<lparr>tl_hits := h\<rparr>) = tl_inv_wk K c" "tl_inv_wk K (c\<lparr>tl_misses := h\<rparr>) = tl_inv_wk K c"
  "tl_inv_wk K (c\<lparr>tl_evictions := h\<rparr>) = tl_inv_wk K c"
  "tl_inv_wk K (c\<lparr>tl_expirations := h\<rparr>) = tl_inv_wk K c"
  "tl_inv_wk K (c\<lparr>tl_sketch := s\<rparr>) = tl_inv_wk K c"
  by (simp_all add: tl_inv_wk_def)

lemma tl_contents_frame [simp]:
  "tl_contents (c\<lparr>tl_hits := h\<rparr>) = tl_contents c" "tl_contents (c\<lparr>tl_misses := h\<rparr>) = tl_contents c"
  "tl_contents (c\<lparr>tl_evictions := h\<rparr>) = tl_contents c"
  "tl_contents (c\<lparr>tl_expirations := h\<rparr>) = tl_contents c"
  "tl_contents (c\<lparr>tl_sketch := s\<rparr>) = tl_contents c"
  by (simp_all add: tl_contents_def fun_eq_iff)

lemma tl_contents_drop [simp]: "tl_contents (tl_drop k e c) = (tl_contents c)(k := None)"
  by (auto simp: tl_contents_def)

lemma tl_inv_wk_lookup:
  "tl_inv_wk K c \<Longrightarrow> k \<notin> K \<Longrightarrow> tl_cache c k = Some e \<longleftrightarrow> e \<in> set (tl_lru c) \<and> ent_key (tl_elems c e) = k"
  by (simp add: tl_inv_wk_def)

lemma tl_inv_wk_drop:
  assumes inv: "tl_inv_wk K c" and e: "e \<in> set (tl_lru c)"
  shows "tl_inv_wk K (tl_drop (ent_key (tl_elems c e)) e c)"
proof -
  have key: "ent_key (tl_elems c e) \<notin> K" using inv e by (simp add: tl_inv_wk_def)
  have "tl_cache c (ent_key (tl_elems c e)) = Some e"
    using tl_inv_wk_lookup [OF inv key] e by simp
  then have other: "ent_key (tl_elems c e') \<noteq> ent_key (tl_elems c e)"
    if "e' \<in> set (tl_lru c)" "e' \<noteq> e" for e'
    using tl_inv_wk_lookup [OF inv key, of e'] that by auto
  show ?thesis
    using inv e other
    by (auto simp: tl_inv_wk_def sum_list_removeAll distinct_removeAll)
qed

lemma tl_inv_drop_key: "tl_inv c \<Longrightarrow> tl_cache c k = Some e \<Longrightarrow> tl_inv_wk {} (tl_drop k e c)"
  using tl_inv_wk_drop [of "{}" c e] tl_inv_wk_lookup [of "{}" c k e] by (auto simp: tl_inv_def)

lemma tl_inv_wk_unlink:
  assumes inv: "tl_inv c" and k: "tl_cache c k = Some e"
  shows "tl_inv_wk {k} (tl_unlink e c)"
proof -
  have e: "e \<in> set (tl_lru c)" and key: "ent_key (tl_elems c e) = k"
    using inv k by (auto simp: tl_inv_def tl_inv_wk_def)
  have other: "ent_key (tl_elems c e') \<noteq> k" if "e' \<in> set (tl_lru c)" "e' \<noteq> e" for e'
    using tl_inv_wk_lookup [of "{}" c k e'] inv k that by (auto simp: tl_inv_def)
  show ?thesis
    using inv e key other
    by (auto simp: tl_inv_def tl_inv_wk_def sum_list_removeAll distinct_removeAll)
qed

lemma tl_inv_wk_absent:
  "tl_inv c \<Longrightarrow> tl_cache c k = None \<Longrightarrow> tl_inv_wk {k} c"
  unfolding tl_inv_def tl_inv_wk_def by (metis option.distinct(1) empty_iff insert_iff)

section \<open>Eviction\<close>

lemma evictLocked_inv: "tl_inv_wk K c \<Longrightarrow> tl_inv_wk K (evictLocked c)"
  by (simp add: evictLocked_def Let_def tl_inv_wk_drop)

lemma evictLocked_frame [simp]:
  "tl_maxBytes (evictLocked c) = tl_maxBytes c" "tl_maxItemBytes (evictLocked c) = tl_maxItemBytes c"
  "tl_elems (evictLocked c) = tl_elems c" "tl_next (evictLocked c) = tl_next c"
  "tl_ttl (evictLocked c) = tl_ttl c"
  by (simp_all add: evictLocked_def Let_def)

lemma evictLocked_contents: "tl_contents (evictLocked c) \<subseteq>\<^sub>m tl_contents c"
  by (simp add: evictLocked_def Let_def map_le_def)

lemma evict_loop_props:
  "tl_inv_wk K c \<Longrightarrow> tl_inv_wk K (tl_evict_loop n c) \<and> tl_contents (tl_evict_loop n c) \<subseteq>\<^sub>m tl_contents c
     \<and> tl_maxBytes (tl_evict_loop n c) = tl_maxBytes c
     \<and> tl_maxItemBytes (tl_evict_loop n c) = tl_maxItemBytes c
     \<and> tl_elems (tl_evict_loop n c) = tl_elems c \<and> tl_next (tl_evict_loop n c) = tl_next c
     \<and> tl_ttl (tl_evict_loop n c) = tl_ttl c
     \<and> (tl_curBytes (tl_evict_loop n c) + n \<le> tl_maxBytes c \<or> tl_lru (tl_evict_loop n c) = [])"
proof (induction n c rule: tl_evict_loop.induct)
  case (1 n c)
  show ?case
  proof (cases "tl_maxBytes c < tl_curBytes c + n \<and> tl_lru c \<noteq> []")
    case True
    with 1 have IH: "tl_contents (tl_evict_loop n (evictLocked c)) \<subseteq>\<^sub>m tl_contents (evictLocked c)"
      by (simp add: evictLocked_inv)
    have "tl_contents (tl_evict_loop n (evictLocked c)) \<subseteq>\<^sub>m tl_contents c"
      by (rule map_le_trans [OF IH evictLocked_contents])
    with 1 True show ?thesis
      by (simp add: evictLocked_inv tl_evict_loop.simps [of n c])
  next
    case False
    with 1 show ?thesis by (auto simp: tl_evict_loop.simps [of n c])
  qed
qed

section \<open>The operations keep the invariant\<close>

lemma tl_New_inv: "tl_inv (tl_New cfg)"
  by (simp add: tl_inv_def tl_inv_wk_def tl_New_def)

lemma tl_expire_inv: "tl_inv c \<Longrightarrow> tl_inv (tl_expire k now c)"
proof -
  assume inv: "tl_inv c"
  then have "tl_inv_wk {} (tl_drop k e c)" if "tl_cache c k = Some e" for e
    using that by (simp add: tl_inv_drop_key)
  with inv show ?thesis
    by (auto simp: tl_expire_def tl_inv_def split: option.split)
qed

lemma tl_touch_inv:
  "tl_inv c \<Longrightarrow> tl_inv (c\<lparr>tl_elems := (tl_elems c)(e := (tl_elems c e)\<lparr>ent_expiresAt := t\<rparr>)\<rparr>)"
proof -
  assume inv: "tl_inv c"
  have keep: "((tl_elems c)(e := (tl_elems c e)\<lparr>ent_expiresAt := t\<rparr>)) e'
      = (tl_elems c e')\<lparr>ent_expiresAt := (if e' = e then t else ent_expiresAt (tl_elems c e'))\<rparr>" for e'
    by simp
  show ?thesis
    using inv unfolding tl_inv_def tl_inv_wk_def by (auto simp: keep simp del: fun_upd_apply)
qed

lemma tl_Get_inv: "tl_inv c \<Longrightarrow> tl_inv (fst (tl_Get c k now))"
  using tl_touch_inv [of c] tl_expire_inv [of c]
  by (auto simp: tl_Get_def Let_def tl_inv_def split: option.split)

lemma tl_Record_inv: "tl_inv c \<Longrightarrow> tl_inv (fst (tl_Record c k))"
  by (simp add: tl_Record_def tl_inv_def split: prod.split)

lemma tl_Delete_inv: "tl_inv c \<Longrightarrow> tl_inv (tl_Delete c k)"
proof -
  assume inv: "tl_inv c"
  then have "tl_inv_wk {} (tl_drop k e c)" if "tl_cache c k = Some e" for e
    using that by (simp add: tl_inv_drop_key)
  with inv show ?thesis
    by (auto simp: tl_Delete_def tl_inv_def split: option.split)
qed


lemma tl_Set_inv: "tl_inv c \<Longrightarrow> tl_inv (tl_Set c k v now)"
proof (cases "tl_maxItemBytes c < tl_item_size k v")
  case True
  then show "tl_inv c \<Longrightarrow> ?thesis" by (simp add: tl_Set_def)
next
  case False
  assume inv: "tl_inv c"
  let ?c1 = "case tl_cache c k of None \<Rightarrow> c | Some e \<Rightarrow> tl_unlink e c"
  let ?c2 = "tl_evict_loop (tl_item_size k v) ?c1"
  have c1: "tl_inv_wk {k} ?c1" "tl_maxItemBytes ?c1 = tl_maxItemBytes c"
    using inv by (auto simp: tl_inv_wk_absent tl_inv_wk_unlink split: option.split)
  have c2: "tl_inv_wk {k} ?c2" "tl_maxItemBytes ?c2 = tl_maxItemBytes c"
    using evict_loop_props [OF c1(1), of "tl_item_size k v"] c1(2) by auto
  have fresh: "tl_next ?c2 \<notin> set (tl_lru ?c2)"
    using c2(1) by (auto simp: tl_inv_wk_def)
  then have sum: "(\<Sum>e \<leftarrow> tl_lru ?c2. ent_size (((tl_elems ?c2)(tl_next ?c2 := x)) e))
      = (\<Sum>e \<leftarrow> tl_lru ?c2. ent_size (tl_elems ?c2 e))" for x
    by (intro arg_cong [where f = sum_list] map_cong) auto
  show ?thesis
    using c2 fresh False sum
    by (simp add: tl_Set_def Let_def tl_inv_def tl_inv_wk_def) (auto simp: less_Suc_eq)
qed

lemma sweep_inv_contents:
  "tl_inv c \<Longrightarrow> tl_inv (sweepExpired now c) \<and> tl_contents (sweepExpired now c) \<subseteq>\<^sub>m tl_contents c
     \<and> tl_maxBytes (sweepExpired now c) = tl_maxBytes c
     \<and> tl_maxItemBytes (sweepExpired now c) = tl_maxItemBytes c
     \<and> tl_curBytes (sweepExpired now c) \<le> tl_curBytes c"
proof (induction now c rule: sweepExpired.induct)
  case (1 now c)
  let ?e = "last (tl_lru c)"
  let ?c = "(tl_drop (ent_key (tl_elems c ?e)) ?e c)\<lparr>tl_expirations := tl_expirations c + 1\<rparr>"
  show ?case
  proof (cases "tl_lru c = [] \<or> now <=s ent_expiresAt (tl_elems c ?e)")
    case True
    with 1 show ?thesis by (auto simp: sweepExpired.simps [of now c] Let_def)
  next
    case False
    then have e: "?e \<in> set (tl_lru c)" by simp
    have inv: "tl_inv ?c"
      using tl_inv_wk_drop [of "{}" c ?e] 1 e by (simp add: tl_inv_def)
    have "tl_contents ?c \<subseteq>\<^sub>m tl_contents c" by (auto simp: map_le_def)
    moreover have "0 \<le> ent_size (tl_elems c ?e)"
      using 1 e by (simp add: tl_inv_def tl_inv_wk_def tl_item_size_def entryOverhead_def)
    moreover have "sweepExpired now c = sweepExpired now ?c"
      using False by (simp add: sweepExpired.simps [of now c] Let_def)
    moreover have IH: "tl_inv (sweepExpired now ?c) \<and> tl_contents (sweepExpired now ?c) \<subseteq>\<^sub>m tl_contents ?c
        \<and> tl_maxBytes (sweepExpired now ?c) = tl_maxBytes ?c
        \<and> tl_maxItemBytes (sweepExpired now ?c) = tl_maxItemBytes ?c
        \<and> tl_curBytes (sweepExpired now ?c) \<le> tl_curBytes ?c"
      using "1.IH" [OF _ refl refl] False inv by blast
    ultimately show ?thesis
      using map_le_trans [of "tl_contents (sweepExpired now ?c)" "tl_contents ?c" "tl_contents c"] by simp
  qed
qed

section \<open>The cache as seen by its client\<close>

lemma tl_contents_upd_elems [simp]:
  "tl_contents (c\<lparr>tl_elems := (tl_elems c)(e := (tl_elems c e)\<lparr>ent_expiresAt := t\<rparr>)\<rparr>) = tl_contents c"
proof
  fix k
  show "tl_contents (c\<lparr>tl_elems := (tl_elems c)(e := (tl_elems c e)\<lparr>ent_expiresAt := t\<rparr>)\<rparr>) k = tl_contents c k"
    by (cases "tl_cache c k") (auto simp: tl_contents_def)
qed

lemma tl_Get_contents:
  "tl_contents (fst (tl_Get c k now)) \<subseteq>\<^sub>m tl_contents c"
  by (auto simp: tl_Get_def tl_expire_def Let_def map_le_def split: option.split)

lemma tl_Get_hit: "snd (tl_Get c k now) = Some v \<Longrightarrow> tl_contents c k = Some v"
  by (auto simp: tl_Get_def tl_contents_def Let_def split: option.splits if_splits)

lemma tl_Record_contents [simp]: "tl_contents (fst (tl_Record c k)) = tl_contents c"
  by (simp add: tl_Record_def split: prod.split)

lemma tl_Delete_contents: "tl_contents (tl_Delete c k) = (tl_contents c)(k := None)"
  by (auto simp: tl_Delete_def tl_contents_def fun_eq_iff split: option.split)

lemma tl_Set_contents:
  assumes inv: "tl_inv c"
  shows "tl_contents (tl_Set c k v now) \<subseteq>\<^sub>m (tl_contents c)(k \<mapsto> v) \<or> tl_Set c k v now = c"
proof (cases "tl_maxItemBytes c < tl_item_size k v")
  case False
  let ?c1 = "case tl_cache c k of None \<Rightarrow> c | Some e \<Rightarrow> tl_unlink e c"
  let ?c2 = "tl_evict_loop (tl_item_size k v) ?c1"
  have c1: "tl_inv_wk {k} ?c1" "tl_contents ?c1 = tl_contents c"
    using inv by (auto simp: tl_inv_wk_absent tl_inv_wk_unlink tl_contents_def fun_eq_iff
        split: option.split)
  have c2: "tl_inv_wk {k} ?c2" "tl_contents ?c2 \<subseteq>\<^sub>m tl_contents c"
    using evict_loop_props [OF c1(1), of "tl_item_size k v"] c1(2) by auto
  have fresh: "tl_cache ?c2 k' \<noteq> Some (tl_next ?c2)" if "k' \<noteq> k" for k'
    using c2(1) that by (auto simp: tl_inv_wk_def)
  have "tl_contents (tl_Set c k v now) = (tl_contents ?c2)(k \<mapsto> v)"
    using False fresh by (auto simp: tl_Set_def Let_def tl_contents_def fun_eq_iff map_option_case
        split: option.split)
  with c2(2) show ?thesis by (auto simp: map_le_def)
qed (simp add: tl_Set_def)

lemma tl_Set_stored:
  "tl_item_size k v \<le> tl_maxItemBytes c \<Longrightarrow> tl_contents (tl_Set c k v now) k = Some v"
  by (simp add: tl_Set_def Let_def tl_contents_def)

lemma tl_Set_bounded:
  assumes inv: "tl_inv c" and max: "tl_maxItemBytes c \<le> tl_maxBytes c"
    and le: "tl_curBytes c \<le> tl_maxBytes c"
  shows "tl_curBytes (tl_Set c k v now) \<le> tl_maxBytes c"
proof (cases "tl_maxItemBytes c < tl_item_size k v")
  case False
  let ?c1 = "case tl_cache c k of None \<Rightarrow> c | Some e \<Rightarrow> tl_unlink e c"
  let ?c2 = "tl_evict_loop (tl_item_size k v) ?c1"
  have c1: "tl_inv_wk {k} ?c1" "tl_maxBytes ?c1 = tl_maxBytes c"
    using inv by (auto simp: tl_inv_wk_absent tl_inv_wk_unlink split: option.split)
  have c2: "tl_inv_wk {k} ?c2" "tl_curBytes ?c2 + tl_item_size k v \<le> tl_maxBytes c \<or> tl_lru ?c2 = []"
    using evict_loop_props [OF c1(1), of "tl_item_size k v"] c1(2) by auto
  have "tl_curBytes ?c2 = 0" if "tl_lru ?c2 = []"
    using c2(1) that by (simp add: tl_inv_wk_def)
  with c2(2) False max show ?thesis
    by (auto simp: tl_Set_def Let_def)
qed (use le in \<open>simp add: tl_Set_def\<close>)


section \<open>The interface the database relies on\<close>

text \<open>
  What \<open>DB\<close> needs of a hot cache: it never answers anything but what was last stored under
  the key, storing may drop other keys, deleting removes the key.  \<open>contents\<close> is the
  abstraction, \<open>inv\<close> the provider's invariant.
\<close>

locale hot_cache =
  fixes contents :: "'c \<Rightarrow> bytes \<rightharpoonup> bytes"
    and inv :: "'c \<Rightarrow> bool"
    and get :: "'c \<Rightarrow> bytes \<Rightarrow> 64 word \<Rightarrow> 'c \<times> bytes option"
    and access :: "'c \<Rightarrow> bytes \<Rightarrow> 'c \<times> bool"
    and store :: "'c \<Rightarrow> bytes \<Rightarrow> bytes \<Rightarrow> 64 word \<Rightarrow> 'c"
    and del :: "'c \<Rightarrow> bytes \<Rightarrow> 'c"
  assumes get_inv: "inv c \<Longrightarrow> inv (fst (get c k t))"
    and get_contents: "inv c \<Longrightarrow> contents (fst (get c k t)) \<subseteq>\<^sub>m contents c"
    and get_hit: "inv c \<Longrightarrow> snd (get c k t) = Some v \<Longrightarrow> contents c k = Some v"
    and access_inv: "inv c \<Longrightarrow> inv (fst (access c k))"
    and access_contents: "inv c \<Longrightarrow> contents (fst (access c k)) = contents c"
    and store_inv: "inv c \<Longrightarrow> inv (store c k v t)"
    and store_contents:
      "inv c \<Longrightarrow> contents (store c k v t) \<subseteq>\<^sub>m (contents c)(k \<mapsto> v) \<or> contents (store c k v t) = contents c"
    and del_inv: "inv c \<Longrightarrow> inv (del c k)"
    and del_contents: "inv c \<Longrightarrow> contents (del c k) = (contents c)(k := None)"
begin

text \<open>A cache is coherent with a map \<open>m\<close> when all it holds is in \<open>m\<close>.\<close>

lemma get_coherent:
  assumes "inv c" and "contents c \<subseteq>\<^sub>m m"
  shows "inv (fst (get c k t))" "contents (fst (get c k t)) \<subseteq>\<^sub>m m"
    and "snd (get c k t) = Some v \<Longrightarrow> m k = Some v"
proof -
  show "inv (fst (get c k t))" using assms by (simp add: get_inv)
  show "contents (fst (get c k t)) \<subseteq>\<^sub>m m" using assms get_contents map_le_trans by blast
  show "m k = Some v" if "snd (get c k t) = Some v"
    using get_hit [OF assms(1) that] assms(2) by (auto simp: map_le_def dom_def)
qed

lemma access_coherent:
  assumes "inv c" and "contents c \<subseteq>\<^sub>m m"
  shows "inv (fst (access c k))" "contents (fst (access c k)) \<subseteq>\<^sub>m m"
  using assms by (simp_all add: access_inv access_contents)

lemma store_coherent:
  assumes "inv c" and "contents c \<subseteq>\<^sub>m m" and "m k = Some v"
  shows "inv (store c k v t)" "contents (store c k v t) \<subseteq>\<^sub>m m"
proof -
  show "inv (store c k v t)" using assms by (simp add: store_inv)
  have "(contents c)(k \<mapsto> v) \<subseteq>\<^sub>m m" using assms(2,3) by (auto simp: map_le_def)
  then show "contents (store c k v t) \<subseteq>\<^sub>m m"
    using store_contents [OF assms(1), of k v t] assms(2) map_le_trans by metis
qed

lemma del_coherent:
  assumes "inv c" and "contents c \<subseteq>\<^sub>m m"
  shows "inv (del c k)" "contents (del c k) \<subseteq>\<^sub>m m(k := x)"
  using assms by (auto simp: del_inv del_contents map_le_def)

lemma dels_coherent:
  assumes "inv c" and "contents c \<subseteq>\<^sub>m m" and "\<And>k. k \<notin> set ks \<Longrightarrow> m' k = m k"
  shows "inv (foldl del c ks) \<and> contents (foldl del c ks) \<subseteq>\<^sub>m m'"
  using assms
proof (induction ks arbitrary: c m)
  case Nil
  then have "m' = m" by auto
  with Nil show ?case by simp
next
  case (Cons k ks)
  have "contents (del c k) \<subseteq>\<^sub>m m(k := m' k)" "inv (del c k)"
    using Cons.prems del_coherent by blast+
  moreover have "m' k' = (m(k := m' k)) k'" if "k' \<notin> set ks" for k'
    using Cons.prems(3) [of k'] that by auto
  ultimately have "inv (foldl del (del c k) ks) \<and> contents (foldl del (del c k) ks) \<subseteq>\<^sub>m m'"
    by (intro Cons.IH)
  then show ?case by simp
qed

end

interpretation lfu: hot_cache tl_contents tl_inv tl_Get tl_Record tl_Set tl_Delete
proof unfold_locales
  fix c k v t
  assume "tl_inv c"
  then show "tl_contents (tl_Set c k v t) \<subseteq>\<^sub>m (tl_contents c)(k \<mapsto> v)
      \<or> tl_contents (tl_Set c k v t) = tl_contents c"
    using tl_Set_contents by metis
qed (simp_all add: tl_Get_inv tl_Get_contents tl_Get_hit tl_Record_inv tl_Set_inv tl_Delete_inv
    tl_Delete_contents)

section \<open>Histories\<close>

datatype cache_op =
    COpGet bytes "64 word" | COpRecord bytes | COpSet bytes bytes "64 word" | COpDelete bytes
  | COpSweep "64 word"

fun tl_step :: "tinylfu \<Rightarrow> cache_op \<Rightarrow> tinylfu" where
  "tl_step c (COpGet k t) = fst (tl_Get c k t)"
| "tl_step c (COpRecord k) = fst (tl_Record c k)"
| "tl_step c (COpSet k v t) = tl_Set c k v t"
| "tl_step c (COpDelete k) = tl_Delete c k"
| "tl_step c (COpSweep t) = sweepExpired t c"

definition tl_run :: "tinylfu \<Rightarrow> cache_op list \<Rightarrow> tinylfu" where
  "tl_run c ops = foldl tl_step c ops"

lemma tl_step_inv: "tl_inv c \<Longrightarrow> tl_inv (tl_step c op)"
  by (cases op) (simp_all add: tl_Get_inv tl_Record_inv tl_Set_inv tl_Delete_inv sweep_inv_contents)

lemma entry_size_nonneg: "tl_inv c \<Longrightarrow> e \<in> set (tl_lru c) \<Longrightarrow> 0 \<le> ent_size (tl_elems c e)"
  by (simp add: tl_inv_def tl_inv_wk_def tl_item_size_def entryOverhead_def)

lemma curBytes_nonneg: "tl_inv c \<Longrightarrow> 0 \<le> tl_curBytes c"
proof -
  assume inv: "tl_inv c"
  then have "tl_curBytes c = (\<Sum>e \<leftarrow> tl_lru c. ent_size (tl_elems c e))"
    by (simp add: tl_inv_def tl_inv_wk_def)
  also have "0 \<le> \<dots>" using entry_size_nonneg [OF inv] by (intro sum_list_nonneg) auto
  finally show ?thesis .
qed

lemma tl_drop_key_bytes: "tl_inv c \<Longrightarrow> tl_cache c k = Some e \<Longrightarrow> tl_curBytes (tl_drop k e c) \<le> tl_curBytes c"
  using entry_size_nonneg [of c e] tl_inv_wk_lookup [of "{}" c k e] by (simp add: tl_inv_def)

lemma tl_step_limits [simp]:
  "tl_inv c \<Longrightarrow> tl_maxBytes (tl_step c op) = tl_maxBytes c"
  "tl_inv c \<Longrightarrow> tl_maxItemBytes (tl_step c op) = tl_maxItemBytes c"
proof -
  have loop: "tl_maxBytes (tl_evict_loop n c) = tl_maxBytes c \<and> tl_maxItemBytes (tl_evict_loop n c) = tl_maxItemBytes c"
    for n c
    by (induction n c rule: tl_evict_loop.induct) (simp add: tl_evict_loop.simps)
  show "tl_inv c \<Longrightarrow> tl_maxBytes (tl_step c op) = tl_maxBytes c"
    by (cases op) (auto simp: tl_Get_def tl_expire_def tl_Record_def tl_Set_def tl_Delete_def Let_def
        loop sweep_inv_contents split: option.split prod.split)
  show "tl_inv c \<Longrightarrow> tl_maxItemBytes (tl_step c op) = tl_maxItemBytes c"
    by (cases op) (auto simp: tl_Get_def tl_expire_def tl_Record_def tl_Set_def tl_Delete_def Let_def
        loop sweep_inv_contents split: option.split prod.split)
qed

lemma tl_step_bounded:
  assumes inv: "tl_inv c" and max: "tl_maxItemBytes c \<le> tl_maxBytes c"
    and le: "tl_curBytes c \<le> tl_maxBytes c"
  shows "tl_curBytes (tl_step c op) \<le> tl_maxBytes c"
proof (cases op)
  case (COpGet k t)
  then show ?thesis
    using le tl_drop_key_bytes [OF inv, of k]
    by (fastforce simp: tl_Get_def tl_expire_def Let_def split: option.split)
next
  case (COpDelete k)
  then show ?thesis
    using le tl_drop_key_bytes [OF inv, of k] by (fastforce simp: tl_Delete_def split: option.split)
next
  case (COpSweep t)
  then show ?thesis using sweep_inv_contents [OF inv, of t] le by simp
qed (use assms in \<open>simp_all add: tl_Record_def tl_Set_bounded split: prod.split\<close>)

lemma tl_run_inv: "tl_inv c \<Longrightarrow> tl_inv (tl_run c ops)"
  by (induction ops arbitrary: c) (auto simp: tl_run_def tl_step_inv)

lemma tl_run_bounded:
  "tl_inv c \<Longrightarrow> tl_maxItemBytes c \<le> tl_maxBytes c \<Longrightarrow> tl_curBytes c \<le> tl_maxBytes c \<Longrightarrow>
    tl_curBytes (tl_run c ops) \<le> tl_maxBytes c"
proof (induction ops arbitrary: c)
  case (Cons op ops)
  then have "tl_curBytes (tl_run (tl_step c op) ops) \<le> tl_maxBytes (tl_step c op)"
    by (intro Cons.IH) (simp_all add: tl_step_inv tl_step_bounded)
  with Cons.prems show ?case by (simp add: tl_run_def)
qed (simp add: tl_run_def)

lemma evict_loop_take:
  "tl_inv_wk K c \<Longrightarrow> \<exists>n \<le> length (tl_lru c). tl_lru (tl_evict_loop m c) = take n (tl_lru c)
     \<and> (\<Sum>e \<leftarrow> tl_lru (tl_evict_loop m c). ent_size (tl_elems c e)) = tl_curBytes (tl_evict_loop m c)
     \<and> (n = length (tl_lru c)
        \<or> tl_maxBytes c < (\<Sum>e \<leftarrow> take (Suc n) (tl_lru c). ent_size (tl_elems c e)) + m)"
proof (induction m c rule: tl_evict_loop.induct)
  case (1 m c)
  show ?case
  proof (cases "tl_maxBytes c < tl_curBytes c + m \<and> tl_lru c \<noteq> []")
    case True
    let ?l = "butlast (tl_lru c)"
    have d: "distinct (tl_lru c)" and cur: "tl_curBytes c = (\<Sum>e \<leftarrow> tl_lru c. ent_size (tl_elems c e))"
      using 1 by (simp_all add: tl_inv_wk_def)
    have l: "tl_lru (evictLocked c) = ?l"
    proof -
      have "removeAll (last (tl_lru c)) (?l @ [last (tl_lru c)]) = ?l"
        using d True by (metis append_butlast_last_id distinct_append disjoint_insert(1) list.set(2)
            removeAll_append removeAll_id self_append_conv removeAll.simps)
      with True show ?thesis by (simp add: evictLocked_def Let_def)
    qed
    have step: "tl_evict_loop m c = tl_evict_loop m (evictLocked c)"
      using True by (simp add: tl_evict_loop.simps [of m c])
    obtain n where n: "n \<le> length ?l" "tl_lru (tl_evict_loop m (evictLocked c)) = take n ?l"
      "(\<Sum>e \<leftarrow> tl_lru (tl_evict_loop m (evictLocked c)). ent_size (tl_elems c e))
        = tl_curBytes (tl_evict_loop m (evictLocked c))"
      "n = length ?l \<or> tl_maxBytes c < (\<Sum>e \<leftarrow> take (Suc n) ?l. ent_size (tl_elems c e)) + m"
      using "1.IH" [OF True evictLocked_inv [OF "1.prems"]]
      unfolding l evictLocked_frame by blast
    have len: "length ?l = length (tl_lru c) - 1" "tl_lru c \<noteq> []" using True by simp_all
    have take: "take n ?l = take n (tl_lru c)" using n(1) len by (simp add: butlast_conv_take min_def)
    have "tl_maxBytes c < (\<Sum>e \<leftarrow> take (Suc n) (tl_lru c). ent_size (tl_elems c e)) + m"
    proof (cases "n = length ?l")
      case True
      then have "take (Suc n) (tl_lru c) = tl_lru c" using len by simp
      with cur \<open>tl_maxBytes c < tl_curBytes c + m \<and> tl_lru c \<noteq> []\<close> show ?thesis by simp
    next
      case False
      then have "take (Suc n) ?l = take (Suc n) (tl_lru c)" using n(1) len by (simp add: butlast_conv_take min_def)
      with n(4) False show ?thesis by simp
    qed
    with n take step len show ?thesis by (intro exI [of _ n]) auto
  next
    case False
    then have "tl_evict_loop m c = c" by (auto simp: tl_evict_loop.simps [of m c])
    with 1 show ?thesis by (intro exI [of _ "length (tl_lru c)"]) (simp add: tl_inv_wk_def)
  qed
qed

lemma sweep_lru:
  "tl_inv c \<Longrightarrow> tl_lru (sweepExpired now c)
     = rev (dropWhile (\<lambda>e. ent_expiresAt (tl_elems c e) <s now) (rev (tl_lru c)))
   \<and> tl_elems (sweepExpired now c) = tl_elems c"
proof (induction now c rule: sweepExpired.induct)
  case (1 now c)
  let ?e = "last (tl_lru c)"
  let ?c = "(tl_drop (ent_key (tl_elems c ?e)) ?e c)\<lparr>tl_expirations := tl_expirations c + 1\<rparr>"
  show ?case
  proof (cases "tl_lru c = []")
    case True
    then show ?thesis by (simp add: sweepExpired.simps [of now c])
  next
    case ne: False
    then obtain xs x where xs: "tl_lru c = xs @ [x]" by (metis rev_exhaust)
    have d: "distinct (tl_lru c)" using 1 by (simp add: tl_inv_def tl_inv_wk_def)
    show ?thesis
    proof (cases "now <=s ent_expiresAt (tl_elems c x)")
      case True
      then have "\<not> ent_expiresAt (tl_elems c x) <s now" by (simp add: word_sless_alt word_sle_eq)
      with True show ?thesis by (simp add: sweepExpired.simps [of now c] xs)
    next
      case False
      then have exp: "ent_expiresAt (tl_elems c x) <s now" by (simp add: word_sless_alt word_sle_eq)
      have "tl_inv ?c"
        using tl_inv_wk_drop [of "{}" c ?e] 1 ne by (simp add: tl_inv_def)
      moreover have "sweepExpired now c = sweepExpired now ?c"
        using False by (simp add: sweepExpired.simps [of now c] xs)
      moreover have "tl_lru ?c = xs" "tl_elems ?c = tl_elems c" using d by (simp_all add: xs)
      ultimately show ?thesis
        using "1.IH" [OF ne refl refl] False exp by (simp add: xs)
    qed
  qed
qed


section \<open>Properties\<close>

text \<open>
  C25. In every history of the cache (any sequence of lookups, access records, stores, deletions
  and sweeps on a new cache) the map and the list agree: every key maps to the listed element that
  holds it, no element is listed twice, each entry carries its true size and the byte counter is
  the sum of the sizes of the listed entries.
\<close>

theorem cache_history_invariant:
  "let c = tl_run (tl_New cfg) ops in
     distinct (tl_lru c)
     \<and> (\<forall>k e. tl_cache c k = Some e \<longleftrightarrow> e \<in> set (tl_lru c) \<and> ent_key (tl_elems c e) = k)
     \<and> tl_curBytes c
         = (\<Sum>e \<leftarrow> tl_lru c. tl_item_size (ent_key (tl_elems c e)) (ent_value (tl_elems c e)))"
proof -
  let ?c = "tl_run (tl_New cfg) ops"
  have inv: "tl_inv_wk {} ?c" using tl_run_inv [OF tl_New_inv] by (simp add: tl_inv_def)
  then have "(\<Sum>e \<leftarrow> tl_lru ?c. ent_size (tl_elems ?c e))
      = (\<Sum>e \<leftarrow> tl_lru ?c. tl_item_size (ent_key (tl_elems ?c e)) (ent_value (tl_elems ?c e)))"
    by (intro arg_cong [where f = sum_list] map_cong) (auto simp: tl_inv_wk_def)
  with inv show ?thesis by (simp add: Let_def tl_inv_wk_def)
qed

text \<open>
  C26. The memory limit holds in every history: if the per-entry limit does not exceed the total
  limit, the bytes counted never pass the total limit and never go negative.
\<close>

theorem cache_history_bounded:
  assumes "tl_maxItemBytes (tl_New cfg) \<le> tl_maxBytes (tl_New cfg)"
  shows "0 \<le> tl_curBytes (tl_run (tl_New cfg) ops)
    \<and> tl_curBytes (tl_run (tl_New cfg) ops) \<le> tl_maxBytes (tl_New cfg)"
proof -
  have "tl_curBytes (tl_New cfg) \<le> tl_maxBytes (tl_New cfg)" by (simp add: tl_New_def)
  then show ?thesis
    using assms curBytes_nonneg [OF tl_run_inv [OF tl_New_inv]] tl_run_bounded [OF tl_New_inv] by blast
qed

definition example_cfg :: cache_config where
  "example_cfg = \<lparr>cfg_MaxBytes = 300, cfg_MaxItemBytes = 200, cfg_AdmissionThreshold = 2,
                  cfg_DefaultTTL = 100\<rparr>"

text \<open>Witness: room for two small entries; the third store evicts.\<close>

theorem cache_history_bounded_witness:
  "tl_curBytes (tl_run (tl_New example_cfg) [COpSet [1] [7] 0, COpSet [2] [8] 1, COpSet [3] [9] 2]) \<le> 300"
  using cache_history_bounded [of example_cfg "[COpSet [1] [7] 0, COpSet [2] [8] 1, COpSet [3] [9] 2]"]
  by (simp add: tl_New_def example_cfg_def)

lemma get_after_set:
  assumes "tl_inv c" and "tl_item_size k v \<le> tl_maxItemBytes c"
  shows "snd (tl_Get (tl_Set c k v t0) k t1) = (if t0 + tl_ttl c <s t1 then None else Some v)
    \<and> tl_contents (fst (tl_Get (tl_Set c k v t0) k t1)) k
        = (if t0 + tl_ttl c <s t1 then None else Some v)"
proof -
  let ?c1 = "case tl_cache c k of None \<Rightarrow> c | Some e \<Rightarrow> tl_unlink e c"
  have "tl_inv_wk {k} ?c1 \<and> tl_ttl ?c1 = tl_ttl c"
    using assms(1) by (auto simp: tl_inv_wk_absent tl_inv_wk_unlink split: option.split)
  then have "tl_ttl (tl_evict_loop (tl_item_size k v) ?c1) = tl_ttl c"
    using evict_loop_props [of "{k}" ?c1 "tl_item_size k v"] by simp
  then show ?thesis
    using assms(2) by (auto simp: tl_Set_def tl_Get_def tl_expire_def tl_contents_def Let_def)
qed

text \<open>
  A lookup after a store that fits returns the stored value until its time to live has
  passed, and removes the entry afterwards; every key found at all was stored, never invented.
\<close>

theorem cache_get_after_set:
  assumes "tl_inv c" and "tl_item_size k v \<le> tl_maxItemBytes c"
  shows "snd (tl_Get (tl_Set c k v t0) k t1) = (if t0 + tl_ttl c <s t1 then None else Some v)
    \<and> tl_contents (fst (tl_Get (tl_Set c k v t0) k t1)) k
        = (if t0 + tl_ttl c <s t1 then None else Some v)"
  using assms by (rule get_after_set)

text \<open>Witness: a store at time 5 with time to live 100, read at times 50 and 200.\<close>

theorem cache_get_after_set_witness:
  "snd (tl_Get (tl_Set (tl_New example_cfg) [1] [7] 5) [1] 50) = Some [7]
   \<and> snd (tl_Get (tl_Set (tl_New example_cfg) [1] [7] 5) [1] 200) = None"
  using cache_get_after_set [OF tl_New_inv, of "[1]" "[7]" example_cfg 5 50]
    cache_get_after_set [OF tl_New_inv, of "[1]" "[7]" example_cfg 5 200]
  by (simp add: tl_New_def example_cfg_def tl_item_size_def entryOverhead_def word_sless_alt)

text \<open>
  Eviction takes entries from the back of the list only, and no more than needed: the loop
  keeps a prefix of the list, the bytes of the kept entries plus the new item fit the limit unless
  nothing is left, and keeping one entry more would not have fitted.
\<close>

theorem evict_minimal_suffix:
  assumes "tl_inv c"
  shows "\<exists>n \<le> length (tl_lru c). tl_lru (tl_evict_loop m c) = take n (tl_lru c)
     \<and> (tl_curBytes (tl_evict_loop m c) + m \<le> tl_maxBytes c \<or> n = 0 \<or> tl_lru c = [])
     \<and> (n = length (tl_lru c)
        \<or> tl_maxBytes c < (\<Sum>e \<leftarrow> take (Suc n) (tl_lru c). ent_size (tl_elems c e)) + m)"
proof -
  have wk: "tl_inv_wk {} c" using assms by (simp add: tl_inv_def)
  from evict_loop_take [OF wk, of m] obtain n where n: "n \<le> length (tl_lru c)"
    "tl_lru (tl_evict_loop m c) = take n (tl_lru c)"
    "n = length (tl_lru c)
      \<or> tl_maxBytes c < (\<Sum>e \<leftarrow> take (Suc n) (tl_lru c). ent_size (tl_elems c e)) + m" by blast
  have "tl_curBytes (tl_evict_loop m c) + m \<le> tl_maxBytes c \<or> take n (tl_lru c) = []"
    using evict_loop_props [OF wk, of m] n(2) by simp
  with n show ?thesis by (intro exI [of _ n]) auto
qed

text \<open>Witness: a cache with two entries of 130 bytes under a limit of 300 makes room for 200.\<close>

theorem evict_minimal_suffix_witness:
  "\<exists>n \<le> length (tl_lru (tl_run (tl_New example_cfg) [COpSet [1] [7] 0, COpSet [2] [8] 1])).
     tl_lru (tl_evict_loop 200 (tl_run (tl_New example_cfg) [COpSet [1] [7] 0, COpSet [2] [8] 1]))
       = take n (tl_lru (tl_run (tl_New example_cfg) [COpSet [1] [7] 0, COpSet [2] [8] 1]))"
  using evict_minimal_suffix [OF tl_run_inv [OF tl_New_inv], of example_cfg
      "[COpSet [1] [7] 0, COpSet [2] [8] 1]" 200] by blast

text \<open>
  The sweeper removes exactly the run of expired entries at the back of the list and touches
  no other entry; it stops at the first entry that is still alive.
\<close>

theorem sweep_removes_expired_tail:
  assumes "tl_inv c"
  shows "tl_lru (sweepExpired now c)
      = rev (dropWhile (\<lambda>e. ent_expiresAt (tl_elems c e) <s now) (rev (tl_lru c)))
    \<and> tl_elems (sweepExpired now c) = tl_elems c"
  using assms by (rule sweep_lru)

text \<open>Witness: two entries stored at times 0 and 50 with time to live 100, swept at time 120.\<close>

theorem sweep_removes_expired_tail_witness:
  "tl_lru (sweepExpired 120 (tl_run (tl_New example_cfg) [COpSet [1] [7] 0, COpSet [2] [8] 50])) = [1]"
  using sweep_removes_expired_tail [OF tl_run_inv [OF tl_New_inv], of 120 example_cfg
      "[COpSet [1] [7] 0, COpSet [2] [8] 50]"]
  by (simp add: tl_run_def tl_New_def example_cfg_def tl_Set_def Let_def tl_item_size_def
      entryOverhead_def tl_evict_loop.simps word_sless_alt)

text \<open>
  A hit renews the expiry of an entry without moving it in the list, so the entry at the
  back need not be the one that expires first: after storing key 1 and then key 2 and reading key
  1 late, a sweep at a time when key 2 has expired removes nothing, and the next eviction removes
  key 1, the entry just read.
\<close>

theorem hit_does_not_reorder:
  "let c = tl_run (tl_New example_cfg) [COpSet [1] [7] 0, COpSet [2] [8] 1, COpGet [1] 90];
       s = sweepExpired 150 c in
     tl_lru s = [1, 0] \<and> ent_key (tl_elems s 1) = [2] \<and> ent_expiresAt (tl_elems s 1) <s 150
     \<and> tl_contents (tl_Set c [3] [9] 91) [1] = None
     \<and> tl_contents (tl_Set c [3] [9] 91) [2] = Some [8]"
  by (simp add: tl_run_def tl_New_def example_cfg_def tl_Set_def Let_def tl_item_size_def
      entryOverhead_def tl_evict_loop.simps evictLocked_def sweepExpired.simps tl_Get_def
      tl_contents_def tl_drop_def tl_unlink_def word_sless_alt word_sle_eq)

lemma record_admits:
  assumes "tl_sketch c = cms_run newCountMinSketch keys" and "tl_admThreshold c = 2"
    and "length keys < 1000000" and "k \<in> set keys"
  shows "snd (tl_Record c k)"
proof -
  have "1 \<le> count_list keys k" using assms(4) by (metis One_nat_def Suc_leI count_list_0_iff gr0I)
  then have "2 \<le> unat (snd (cms_Increment (tl_sketch c) k))"
    using estimate_lower [OF counts_run [OF assms(3)] assms(3), of k] assms(1) by simp
  then have "(2 :: 32 word) \<le> snd (cms_Increment (tl_sketch c) k)"
    by (simp add: word_le_nat_alt)
  with assms(2) show ?thesis
    by (cases "cms_Increment (tl_sketch c) k") (simp add: tl_Record_def)
qed

text \<open>
  With the default admission threshold a key is admitted at the latest on its second access
  within the first million: \<open>Record\<close> answers yes for a key that was recorded before.
\<close>

theorem second_access_admitted:
  assumes "tl_sketch c = cms_run newCountMinSketch keys" and "tl_admThreshold c = 2"
    and "length keys < 1000000" and "k \<in> set keys"
  shows "snd (tl_Record c k)"
  using assms by (rule record_admits)

text \<open>Witness: the second access to a key of a new cache.\<close>

theorem second_access_admitted_witness:
  "snd (tl_Record ((tl_New example_cfg)\<lparr>tl_sketch := cms_run newCountMinSketch [[1], [2]]\<rparr>) [1])"
  by (rule second_access_admitted [of _ "[[1], [2]]"]) (simp_all add: tl_New_def example_cfg_def)

end
