(* ===== verification/DB.thy ===== *)
theory DB
  imports TinyLFU WriteQueue Encoding
begin

text \<open>
  The database handle: \<open>options.go\<close>, \<open>db.go\<close>, \<open>metrics.go\<close> and \<open>backup.go\<close>.  The handle owns
  the engine, the hot cache and the write queue.  The engine is reached through two copies of one
  pointer in Go (\<open>db.pebble\<close> and the queue's putter); here it is the queue's store,
  \<open>db_pebble\<close>.  A call of the handle runs to completion: \<open>submit\<close> sends its operation and waits,
  and the consumer runs (\<open>wq_consume\<close>) until it has answered.  Interleavings of producers,
  consumer and \<open>Stop\<close> are the subject of the theory \<open>WriteQueue\<close>; the interleaving of a read
  with a write is at the end of this theory.
\<close>

section \<open>Configuration\<close>

record Config =
  c_Dir :: bytes
  c_BlockCacheSize :: int
  c_MemTableSize :: int
  c_MaxQueueLen :: int
  c_MaxMemMB :: int
  c_DisableWAL :: bool
  c_AsyncWAL :: bool
  c_WALBytesPerSync :: int
  c_WALMinSyncInterval :: int
  c_BatchCommitSize :: int
  c_CacheMaxMB :: int
  c_Metrics :: bool
  c_MetricsNamespace :: string

definition applyDefaults :: "Config \<Rightarrow> Config" where
  "applyDefaults c =
     c\<lparr>c_BlockCacheSize := (if c_BlockCacheSize c \<le> 0 then 8 * 2 ^ 20 else c_BlockCacheSize c),
       c_MemTableSize := (if c_MemTableSize c \<le> 0 then 4 * 2 ^ 20 else c_MemTableSize c),
       c_MaxQueueLen := (if c_MaxQueueLen c \<le> 0 then 1024 else c_MaxQueueLen c),
       c_MetricsNamespace := (if c_MetricsNamespace c = '''' then ''sqlitex'' else c_MetricsNamespace c)\<rparr>"

section \<open>Metrics\<close>

text \<open>Counters by label, histograms as the list of their observations.\<close>

record metrics =
  m_opsTotal :: "string \<times> string \<Rightarrow> nat"
  m_opDuration :: "(string \<times> 64 word) list"
  m_cacheTotal :: "string \<Rightarrow> nat"
  m_throttled :: nat
  m_batchSize :: "nat list"

definition newMetrics :: metrics where
  "newMetrics = \<lparr>m_opsTotal = (\<lambda>_. 0), m_opDuration = [], m_cacheTotal = (\<lambda>_. 0), m_throttled = 0,
                 m_batchSize = []\<rparr>"

definition resultOf :: "go_error option \<Rightarrow> string" where
  "resultOf err = (if err = None then ''ok'' else ''error'')"

definition m_observe :: "string \<Rightarrow> string \<Rightarrow> 64 word \<Rightarrow> metrics \<Rightarrow> metrics" where
  "m_observe op res elapsed m =
     m\<lparr>m_opsTotal := (m_opsTotal m)((op, res) := Suc (m_opsTotal m (op, res))),
       m_opDuration := m_opDuration m @ [(op, elapsed)]\<rparr>"

definition m_observeThrottled :: "metrics \<Rightarrow> metrics" where
  "m_observeThrottled m = m\<lparr>m_throttled := Suc (m_throttled m)\<rparr>"

definition m_observeCache :: "bool \<Rightarrow> metrics \<Rightarrow> metrics" where
  "m_observeCache hit m =
     (let l = if hit then ''hit'' else ''miss''
      in m\<lparr>m_cacheTotal := (m_cacheTotal m)(l := Suc (m_cacheTotal m l))\<rparr>)"

section \<open>The bridge from the queue to the engine\<close>

fun putter_fill :: "('p, 'b, 'i) platform \<Rightarrow> BatchEntry list \<Rightarrow> 'b \<Rightarrow> 'b \<times> go_error option" where
  "putter_fill E [] b = (b, None)"
| "putter_fill E (e # es) b =
     (let (b', err) = (case be_Op e of OpPut \<Rightarrow> pb_BatchSet E (be_Key e) (be_Value e) b
                                     | OpDelete \<Rightarrow> pb_BatchDelete E (be_Key e) b)
      in case err of Some x \<Rightarrow> (b', Some x) | None \<Rightarrow> putter_fill E es b')"

definition putter_ApplyBatch :: "('p, 'b, 'i) platform \<Rightarrow> bool \<Rightarrow> BatchEntry list \<Rightarrow> 'p \<Rightarrow> 'p \<times> go_error option" where
  "putter_ApplyBatch E sync es p =
     (case putter_fill E es (pb_NewBatch E p) of
        (b, Some err) \<Rightarrow> (p, Some err)
      | (b, None) \<Rightarrow> pb_Commit E b sync p)"

definition pebblePutter :: "('p, 'b, 'i) platform \<Rightarrow> bool \<Rightarrow> 'p Putter" where
  "pebblePutter E sync =
     \<lparr>pt_Set = (\<lambda>k v. pb_Set E k v sync), pt_Delete = (\<lambda>k. pb_Delete E k sync),
      pt_ApplyBatch = Some (putter_ApplyBatch E sync)\<rparr>"

section \<open>The handle\<close>

record 'p DB =
  db_hotCache :: "tinylfu option"
  db_queue :: "'p Queue"
  db_cfg :: Config
  db_closed :: bool
  db_metrics :: "metrics option"
  db_tick :: nat
  db_chans :: nat

abbreviation db_pebble :: "'p DB \<Rightarrow> 'p" where "db_pebble d \<equiv> q_store (db_queue d)"

definition with_pebble :: "'p \<Rightarrow> 'p DB \<Rightarrow> 'p DB" where
  "with_pebble p d = d\<lparr>db_queue := (db_queue d)\<lparr>q_store := p\<rparr>\<rparr>"

text \<open>\<open>time.Now()\<close>: the clock reading of this call; the next call reads the next one.\<close>

definition db_now :: "('p, 'b, 'i) platform \<Rightarrow> 'p DB \<Rightarrow> 64 word \<times> 'p DB" where
  "db_now E d = (time_Now E (db_tick d), d\<lparr>db_tick := Suc (db_tick d)\<rparr>)"

definition pebble_options_of :: "Config \<Rightarrow> pebble_options" where
  "pebble_options_of cfg =
     \<lparr>po_CacheSize = c_BlockCacheSize cfg, po_MemTableSize = c_MemTableSize cfg,
      po_MemTableStopWritesThreshold = 2, po_DisableWAL = c_DisableWAL cfg,
      po_WALBytesPerSync =
        (if c_AsyncWAL cfg \<and> 0 < c_WALBytesPerSync cfg then c_WALBytesPerSync cfg else 0),
      po_WALMinSyncInterval =
        (if c_AsyncWAL cfg \<and> 0 < c_WALMinSyncInterval cfg then Some (c_WALMinSyncInterval cfg) else None)\<rparr>"

definition hot_cache_of :: "Config \<Rightarrow> tinylfu option" where
  "hot_cache_of cfg =
     (if c_CacheMaxMB cfg = -1 then None
      else (let maxBytes = if c_CacheMaxMB cfg \<le> 0 then 10 else c_CacheMaxMB cfg
            in Some (tl_New \<lparr>cfg_MaxBytes = sint (push_bit 20 (word_of_int maxBytes :: 64 word)),
                             cfg_MaxItemBytes = 2 ^ 20, cfg_AdmissionThreshold = 2, cfg_DefaultTTL = 0\<rparr>)))"

definition db_Open :: "('p, 'b, 'i) platform \<Rightarrow> Config \<Rightarrow> go_error + 'p DB" where
  "db_Open E cfg0 =
     (if c_Dir cfg0 = [] then Inl (ErrorMsg ''sqlitex: Dir is required'')
      else
        (let cfg = applyDefaults cfg0 in
         case pb_Open E (c_Dir cfg) (pebble_options_of cfg) of
           Inl err \<Rightarrow> Inl (ErrorWrap ''sqlitex: open pebble: '' err)
         | Inr p \<Rightarrow>
             Inr \<lparr>db_hotCache = hot_cache_of cfg,
                  db_queue = wq_New \<lparr>qc_MaxLen = c_MaxQueueLen cfg, qc_MaxMemMB = c_MaxMemMB cfg,
                                     qc_BatchSize = c_BatchCommitSize cfg\<rparr> p,
                  db_cfg = cfg, db_closed = False,
                  db_metrics = (if c_Metrics cfg then Some newMetrics else None),
                  db_tick = 0, db_chans = 0\<rparr>))"

definition db_Close :: "('p, 'b, 'i) platform \<Rightarrow> 'p DB \<Rightarrow> 'p DB \<times> go_error option" where
  "db_Close E d =
     (if db_closed d then (d, Some ErrDBClosed)
      else
        (let d1 = d\<lparr>db_closed := True, db_queue := wq_Stop (db_queue d)\<rparr>;
             (p, err) = pb_Close E (db_pebble d1)
         in (with_pebble p d1, err)))"

definition db_CacheStats :: "'p DB \<Rightarrow> int \<times> int \<times> int \<times> int \<times> int \<times> int" where
  "db_CacheStats d = (case db_hotCache d of None \<Rightarrow> (0, 0, 0, 0, 0, 0) | Some c \<Rightarrow> tl_Stats c)"

text \<open>\<open>startOp\<close> and \<open>finish\<close>: a timer is \<open>None\<close> when metrics are off.\<close>

type_synonym opTimer = "(string \<times> 64 word) option"

definition startOp :: "('p, 'b, 'i) platform \<Rightarrow> string \<Rightarrow> 'p DB \<Rightarrow> opTimer \<times> 'p DB" where
  "startOp E op d =
     (case db_metrics d of None \<Rightarrow> (None, d)
      | Some m \<Rightarrow> (let (t, d') = db_now E d in (Some (op, t), d')))"

definition opTimer_finish :: "('p, 'b, 'i) platform \<Rightarrow> opTimer \<Rightarrow> go_error option \<Rightarrow> 'p DB \<Rightarrow> 'p DB" where
  "opTimer_finish E timer err d =
     (case timer of None \<Rightarrow> d
      | Some (op, start) \<Rightarrow>
          let (t, d1) = db_now E d;
              d2 = d1\<lparr>db_metrics := map_option (m_observe op (resultOf err) (t - start)) (db_metrics d1)\<rparr>
          in if \<exists>e. err = Some e \<and> errors_is e ErrWriteThrottled
             then d2\<lparr>db_metrics := map_option m_observeThrottled (db_metrics d2)\<rparr> else d2)"

definition db_observeCache :: "bool \<Rightarrow> 'p DB \<Rightarrow> 'p DB" where
  "db_observeCache hit d = d\<lparr>db_metrics := map_option (m_observeCache hit) (db_metrics d)\<rparr>"

definition cache_delete :: "bytes \<Rightarrow> 'p DB \<Rightarrow> 'p DB" where
  "cache_delete key d =
     (case db_hotCache d of None \<Rightarrow> d | Some c \<Rightarrow> d\<lparr>db_hotCache := Some (tl_Delete c key)\<rparr>)"

definition write_sync :: "'p DB \<Rightarrow> bool" where "write_sync d = (\<not> c_AsyncWAL (db_cfg d))"

text \<open>The result received from the \<open>Done\<close> channel.\<close>

definition recv_done :: "nat \<Rightarrow> 'p Queue \<Rightarrow> go_error option" where
  "recv_done ch q = the (map_of (q_replies q) ch)"

definition db_submit :: "('p, 'b, 'i) platform \<Rightarrow> bytes \<Rightarrow> bytes \<Rightarrow> OpType \<Rightarrow> 'p DB \<Rightarrow> 'p DB \<times> go_error option" where
  "db_submit E key value opType d =
     (if db_closed d then (d, Some ErrDBClosed)
      else if key = [] then (d, Some ErrInvalidKey)
      else
        (let op = \<lparr>wo_Key = key, wo_Value = value, wo_Op = opType, wo_Done = db_chans d\<rparr>;
             (q, err) = wq_Submit op (db_queue d);
             d1 = d\<lparr>db_queue := q, db_chans := Suc (db_chans d)\<rparr>
         in case err of
              Some _ \<Rightarrow> (d1, Some ErrWriteThrottled)
            | None \<Rightarrow>
                let q' = wq_consume (pebblePutter E (write_sync d)) q
                in (d1\<lparr>db_queue := q'\<rparr>, recv_done (wo_Done op) q')))"

definition db_Put :: "('p, 'b, 'i) platform \<Rightarrow> bytes \<Rightarrow> bytes \<Rightarrow> 'p DB \<Rightarrow> 'p DB \<times> go_error option" where
  "db_Put E key value d =
     (let (t, d1) = startOp E ''put'' d;
          (d2, err) = db_submit E key value OpPut d1;
          d3 = (if err = None then cache_delete key d2 else d2)
      in (opTimer_finish E t err d3, err))"

definition db_Delete :: "('p, 'b, 'i) platform \<Rightarrow> bytes \<Rightarrow> 'p DB \<Rightarrow> 'p DB \<times> go_error option" where
  "db_Delete E key d =
     (let (t, d1) = startOp E ''delete'' d;
          (d2, err) = db_submit E key [] OpDelete d1;
          d3 = (if err = None then cache_delete key d2 else d2)
      in (opTimer_finish E t err d3, err))"

definition db_PutSync :: "('p, 'b, 'i) platform \<Rightarrow> bytes \<Rightarrow> bytes \<Rightarrow> 'p DB \<Rightarrow> 'p DB \<times> go_error option" where
  "db_PutSync E key value d =
     (let (t, d1) = startOp E ''put_sync'' d in
      if db_closed d1 then (d1, Some ErrDBClosed)
      else if key = [] then (d1, Some ErrInvalidKey)
      else
        (let (p, err) = pb_Set E key value True (db_pebble d1);
             d2 = with_pebble p d1;
             d3 = (if err = None then cache_delete key d2 else d2)
         in (opTimer_finish E t err d3, err)))"

text \<open>\<open>get\<close>: the cache, then the engine, then the admission of what was read.\<close>

definition cache_admit :: "('p, 'b, 'i) platform \<Rightarrow> bytes \<Rightarrow> bytes \<Rightarrow> 'p DB \<Rightarrow> 'p DB" where
  "cache_admit E key value d =
     (case db_hotCache d of None \<Rightarrow> d
      | Some c \<Rightarrow>
          let (c1, admit) = tl_Record c key in
          if admit then (let (t, d1) = db_now E d in d1\<lparr>db_hotCache := Some (tl_Set c1 key value t)\<rparr>)
          else d\<lparr>db_hotCache := Some c1\<rparr>)"

definition pebble_get :: "('p, 'b, 'i) platform \<Rightarrow> bytes \<Rightarrow> 'p DB \<Rightarrow> 'p DB \<times> (go_error + bytes option)" where
  "pebble_get E key d =
     (case pb_Get E (db_pebble d) key of
        Inl err \<Rightarrow>
          if errors_is err ErrNotFound then (cache_delete key d, Inr None)
          else (d, Inl (ErrorWrap ''sqlitex: get: '' err))
      | Inr val \<Rightarrow> (cache_admit E key val d, Inr (Some val)))"

definition db_get :: "('p, 'b, 'i) platform \<Rightarrow> bytes \<Rightarrow> 'p DB \<Rightarrow> 'p DB \<times> (go_error + bytes option)" where
  "db_get E key d =
     (if db_closed d then (d, Inl ErrDBClosed)
      else if key = [] then (d, Inl ErrInvalidKey)
      else
        (case db_hotCache d of
           None \<Rightarrow> pebble_get E key d
         | Some c \<Rightarrow>
             let (t, d1) = db_now E d; (c1, hit) = tl_Get c key t; d2 = d1\<lparr>db_hotCache := Some c1\<rparr>
             in (case hit of
                   Some val \<Rightarrow> (db_observeCache True d2, Inr (Some val))
                 | None \<Rightarrow> pebble_get E key (db_observeCache False d2))))"

fun err_of :: "go_error + 'a \<Rightarrow> go_error option" where
  "err_of (Inl e) = Some e" | "err_of (Inr _) = None"

definition db_Get :: "('p, 'b, 'i) platform \<Rightarrow> bytes \<Rightarrow> 'p DB \<Rightarrow> 'p DB \<times> (go_error + bytes option)" where
  "db_Get E key d =
     (let (t, d1) = startOp E ''get'' d; (d2, r) = db_get E key d1
      in (opTimer_finish E t (err_of r) d2, r))"

record KVPair =
  kp_Key :: bytes
  kp_Value :: bytes
  kp_Delete :: bool

fun fill_batch :: "('p, 'b, 'i) platform \<Rightarrow> KVPair list \<Rightarrow> 'b \<Rightarrow> 'b \<times> go_error option" where
  "fill_batch E [] b = (b, None)"
| "fill_batch E (op # ops) b =
     (if kp_Key op = [] then (b, Some ErrInvalidKey)
      else
        (let (b', err) = (if kp_Delete op then pb_BatchDelete E (kp_Key op) b
                          else pb_BatchSet E (kp_Key op) (kp_Value op) b)
         in case err of Some x \<Rightarrow> (b', Some x) | None \<Rightarrow> fill_batch E ops b'))"

definition db_writeBatch :: "('p, 'b, 'i) platform \<Rightarrow> KVPair list \<Rightarrow> 'p DB \<Rightarrow> 'p DB \<times> go_error option" where
  "db_writeBatch E ops d =
     (if db_closed d then (d, Some ErrDBClosed)
      else
        (case fill_batch E ops (pb_NewBatch E (db_pebble d)) of
           (b, Some err) \<Rightarrow> (d, Some err)
         | (b, None) \<Rightarrow>
             (let (p, err) = pb_Commit E b (write_sync d) (db_pebble d); d1 = with_pebble p d
              in case err of
                   Some _ \<Rightarrow> (d1, err)
                 | None \<Rightarrow> (fold (\<lambda>op. cache_delete (kp_Key op)) ops d1, None))))"

definition db_WriteBatch :: "('p, 'b, 'i) platform \<Rightarrow> KVPair list \<Rightarrow> 'p DB \<Rightarrow> 'p DB \<times> go_error option" where
  "db_WriteBatch E ops d =
     (let (t, d1) = startOp E ''batch'' d;
          (d2, err) = db_writeBatch E ops d1;
          d3 = opTimer_finish E t err d2
      in (d3\<lparr>db_metrics := map_option (\<lambda>m. m\<lparr>m_batchSize := m_batchSize m @ [length ops]\<rparr>) (db_metrics d3)\<rparr>,
          err))"

text \<open>Background activity: the cache sweeper and the memory monitor.\<close>

definition db_sweep :: "('p, 'b, 'i) platform \<Rightarrow> 'p DB \<Rightarrow> 'p DB" where
  "db_sweep E d =
     (case db_hotCache d of None \<Rightarrow> d
      | Some c \<Rightarrow> let (t, d1) = db_now E d in d1\<lparr>db_hotCache := Some (sweepExpired t c)\<rparr>)"

definition db_memSample :: "int \<Rightarrow> 'p DB \<Rightarrow> 'p DB" where
  "db_memSample alloc d =
     (if 0 < q_maxMem (db_queue d) then d\<lparr>db_queue := memMonitor_tick alloc (db_queue d)\<rparr> else d)"

section \<open>Checkpoints\<close>

definition validateEmptyDir :: "('p, 'b, 'i) platform \<Rightarrow> bytes \<Rightarrow> go_error option" where
  "validateEmptyDir E dir =
     (case os_ReadDir E dir of
        DirNotExist \<Rightarrow> None
      | DirError err \<Rightarrow> Some (ErrorWrap ''sqlitex: inspect dest dir: '' err)
      | DirEntries n \<Rightarrow>
          if 0 < n then Some (ErrorMsg ''sqlitex: checkpoint dest dir not empty'') else None)"

definition db_Checkpoint :: "('p, 'b, 'i) platform \<Rightarrow> bytes \<Rightarrow> 'p DB \<Rightarrow> go_error option" where
  "db_Checkpoint E destDir d =
     (if db_closed d then Some ErrDBClosed
      else if destDir = [] then Some (ErrorMsg ''sqlitex: checkpoint dest dir is required'')
      else
        (case validateEmptyDir E destDir of
           Some err \<Rightarrow> Some err
         | None \<Rightarrow>
             (case pb_Checkpoint E (db_pebble d) destDir of
                Some err \<Rightarrow> Some (ErrorWrap ''sqlitex: checkpoint: '' err)
              | None \<Rightarrow> None)))"

text \<open>\<open>syncDir\<close> ignores every error.\<close>

definition db_BackupTo :: "('p, 'b, 'i) platform \<Rightarrow> bytes \<Rightarrow> 'p DB \<Rightarrow> go_error option" where
  "db_BackupTo E destDir d =
     (case db_Checkpoint E destDir d of Some err \<Rightarrow> Some err | None \<Rightarrow> None)"

section \<open>Prefix iterators\<close>

record 'i PrefixIterator =
  it_iter :: 'i
  it_prefix :: bytes
  it_started :: bool
  it_resumed :: bool

definition it_Valid :: "('p, 'b, 'i) platform \<Rightarrow> 'i PrefixIterator \<Rightarrow> bool" where
  "it_Valid E it =
     (if \<not> pb_Valid E (it_iter it) then False
      else
        (let k = pb_Key E (it_iter it) in
         if length k < length (it_prefix it) then False
         else list_all (\<lambda>i. k ! i = it_prefix it ! i) [0..<length (it_prefix it)]))"

definition it_Next :: "('p, 'b, 'i) platform \<Rightarrow> 'i PrefixIterator \<Rightarrow> 'i PrefixIterator \<times> bool" where
  "it_Next E it =
     (if it_resumed it then
        (let it' = it\<lparr>it_resumed := False, it_started := True\<rparr> in (it', it_Valid E it'))
      else if \<not> it_started it then
        (let it' = it\<lparr>it_started := True, it_iter := pb_First E (it_iter it)\<rparr> in (it', it_Valid E it'))
      else
        (let it' = it\<lparr>it_iter := pb_Next E (it_iter it)\<rparr> in (it', it_Valid E it')))"

definition it_Key :: "('p, 'b, 'i) platform \<Rightarrow> 'i PrefixIterator \<Rightarrow> bytes" where
  "it_Key E it = pb_Key E (it_iter it)"

definition it_Value :: "('p, 'b, 'i) platform \<Rightarrow> 'i PrefixIterator \<Rightarrow> bytes" where
  "it_Value E it = pb_Value E (it_iter it)"

definition it_Seek :: "('p, 'b, 'i) platform \<Rightarrow> bytes \<Rightarrow> 'i PrefixIterator \<Rightarrow> 'i PrefixIterator" where
  "it_Seek E target it =
     it\<lparr>it_started := True, it_resumed := False, it_iter := pb_SeekGE E target (it_iter it)\<rparr>"

definition it_SeekLT :: "('p, 'b, 'i) platform \<Rightarrow> bytes \<Rightarrow> 'i PrefixIterator \<Rightarrow> 'i PrefixIterator" where
  "it_SeekLT E target it =
     it\<lparr>it_started := True, it_resumed := False, it_iter := pb_SeekLT E target (it_iter it)\<rparr>"

definition it_SeekAfter :: "('p, 'b, 'i) platform \<Rightarrow> bytes \<Rightarrow> 'i PrefixIterator \<Rightarrow> 'i PrefixIterator" where
  "it_SeekAfter E target it =
     (let i = pb_SeekGE E target (it_iter it);
          i' = (if pb_Valid E i \<and> pb_Key E i = target then pb_Next E i else i)
      in it\<lparr>it_iter := i', it_started := True, it_resumed := True\<rparr>)"

definition db_Iterate :: "('p, 'b, 'i) platform \<Rightarrow> bytes \<Rightarrow> 'p DB \<Rightarrow> 'i PrefixIterator option" where
  "db_Iterate E pre d =
     (if db_closed d \<or> pre = [] then None
      else (case pb_NewIter E (db_pebble d) pre of
              Inl err \<Rightarrow> None
            | Inr i \<Rightarrow> Some \<lparr>it_iter = i, it_prefix = pre, it_started = False, it_resumed = False\<rparr>))"


section \<open>The bridge keeps the queue's contract\<close>

lemma putter_fill_law:
  assumes "engine_laws E view pend"
  shows "putter_fill E es b = (b', None) \<Longrightarrow> pend b' = pend b @ map entry_write es"
proof (induction es arbitrary: b)
  case (Cons e es)
  have "batch_law pend b (entry_write e) (case be_Op e of OpPut \<Rightarrow> pb_BatchSet E (be_Key e) (be_Value e) b
      | OpDelete \<Rightarrow> pb_BatchDelete E (be_Key e) b)"
    using engine_laws_D(7,8) [OF assms] by (cases "be_Op e") (simp_all add: entry_write_def)
  with Cons show ?case
    by (auto simp: batch_law_def split: prod.splits option.splits)
qed simp

lemma putter_ApplyBatch_law:
  assumes "engine_laws E view pend"
  shows "write_law view p (map entry_write es) (putter_ApplyBatch E sync es p)"
proof (cases "putter_fill E es (pb_NewBatch E p)")
  case (Pair b err)
  show ?thesis
  proof (cases err)
    case None
    with Pair have "pend b = map entry_write es"
      using putter_fill_law [OF assms] engine_laws_D(6) [OF assms] by simp
    with engine_laws_D(9) [OF assms, of p b sync] Pair None show ?thesis
      by (simp add: putter_ApplyBatch_def)
  next
    case (Some x)
    with Pair show ?thesis by (simp add: putter_ApplyBatch_def write_law_def)
  qed
qed

interpretation pebble: putter view "\<lambda>_. engine_laws E view pend" "pebblePutter E sync"
  for E :: "('p, 'b, 'i) platform" and view pend sync
  by unfold_locales (auto simp: pebblePutter_def engine_laws_D putter_ApplyBatch_law)

section \<open>The invariant of the handle\<close>

text \<open>
  The hot cache holds nothing that differs from the store, and between calls the queue is idle:
  its channel is empty, every answer belongs to a channel made before.
\<close>

definition cache_coherent :: "('p \<Rightarrow> kv_map) \<Rightarrow> 'p DB \<Rightarrow> bool" where
  "cache_coherent view d \<longleftrightarrow>
     (\<forall>c. db_hotCache d = Some c \<longrightarrow> tl_inv c \<and> tl_contents c \<subseteq>\<^sub>m view (db_pebble d))"

definition queue_idle :: "'p DB \<Rightarrow> bool" where
  "queue_idle d \<longleftrightarrow> q_queue (db_queue d) = [] \<and> 0 < q_cap (db_queue d)
     \<and> (\<forall>r \<in> set (q_replies (db_queue d)). fst r < db_chans d)
     \<and> q_stopped (db_queue d) = db_closed d"

definition db_inv :: "('p \<Rightarrow> kv_map) \<Rightarrow> 'p DB \<Rightarrow> bool" where
  "db_inv view d \<longleftrightarrow> (db_closed d \<or> cache_coherent view d) \<and> queue_idle d"

text \<open>Metrics and the clock are outside it.\<close>

definition same_core :: "'p DB \<Rightarrow> 'p DB \<Rightarrow> bool" where
  "same_core d d' \<longleftrightarrow> db_hotCache d' = db_hotCache d \<and> db_queue d' = db_queue d
     \<and> db_cfg d' = db_cfg d \<and> db_closed d' = db_closed d \<and> db_chans d' = db_chans d"

lemma same_core_refl [simp]: "same_core d d" by (simp add: same_core_def)

lemma same_core_trans: "same_core a b \<Longrightarrow> same_core b c \<Longrightarrow> same_core a c"
  by (simp add: same_core_def)

lemma same_core_inv: "same_core d d' \<Longrightarrow> db_inv view d' = db_inv view d"
  by (simp add: same_core_def db_inv_def cache_coherent_def queue_idle_def)

lemma same_core_now: "same_core d (snd (db_now E d))"
  by (simp add: db_now_def same_core_def)

lemma same_core_start: "same_core d (snd (startOp E op d))"
  by (simp add: startOp_def db_now_def same_core_def split: option.split)

lemma same_core_finish: "same_core d (opTimer_finish E t err d)"
  by (auto simp: opTimer_finish_def db_now_def same_core_def Let_def split: option.split)

lemma same_core_observe: "same_core d (db_observeCache hit d)"
  by (simp add: db_observeCache_def same_core_def)

lemma cache_delete_frame [simp]:
  "db_queue (cache_delete k d) = db_queue d" "db_closed (cache_delete k d) = db_closed d"
  "db_chans (cache_delete k d) = db_chans d" "db_cfg (cache_delete k d) = db_cfg d"
  by (simp_all add: cache_delete_def split: option.split)

lemma cache_admit_frame [simp]:
  "db_queue (cache_admit E k v d) = db_queue d" "db_closed (cache_admit E k v d) = db_closed d"
  "db_chans (cache_admit E k v d) = db_chans d" "db_cfg (cache_admit E k v d) = db_cfg d"
  by (simp_all add: cache_admit_def db_now_def split: option.split prod.split)

lemma with_pebble_frame [simp]:
  "db_pebble (with_pebble p d) = p" "db_closed (with_pebble p d) = db_closed d"
  "db_hotCache (with_pebble p d) = db_hotCache d" "db_chans (with_pebble p d) = db_chans d"
  "db_cfg (with_pebble p d) = db_cfg d"
  "q_queue (db_queue (with_pebble p d)) = q_queue (db_queue d)"
  "q_cap (db_queue (with_pebble p d)) = q_cap (db_queue d)"
  "q_replies (db_queue (with_pebble p d)) = q_replies (db_queue d)"
  "q_stopped (db_queue (with_pebble p d)) = q_stopped (db_queue d)"
  by (simp_all add: with_pebble_def)

lemma queue_idle_frame [simp]:
  "queue_idle (cache_delete k d) = queue_idle d" "queue_idle (cache_admit E k v d) = queue_idle d"
  "queue_idle (with_pebble p d) = queue_idle d"
  by (simp_all add: queue_idle_def)

text \<open>Dropping keys restores coherence with a store that differs at those keys only.\<close>

lemma cache_delete_coherent:
  "(\<forall>c. db_hotCache d = Some c \<longrightarrow> tl_inv c \<and> tl_contents c \<subseteq>\<^sub>m m) \<Longrightarrow>
    view (db_pebble d) = m(k := x) \<Longrightarrow> cache_coherent view (cache_delete k d)"
  using lfu.del_coherent(1) [where m = m and k = k] lfu.del_coherent(2) [where m = m and k = k and x = x]
  by (auto simp: cache_coherent_def cache_delete_def split: option.split)

lemma cache_deletes_coherent:
  assumes "\<forall>c. db_hotCache d = Some c \<longrightarrow> tl_inv c \<and> tl_contents c \<subseteq>\<^sub>m m"
    and "\<And>k. k \<notin> kp_Key ` set ops \<Longrightarrow> view (db_pebble d) k = m k"
  shows "cache_coherent view (fold (\<lambda>op. cache_delete (kp_Key op)) ops d)
    \<and> db_queue (fold (\<lambda>op. cache_delete (kp_Key op)) ops d) = db_queue d
    \<and> db_closed (fold (\<lambda>op. cache_delete (kp_Key op)) ops d) = db_closed d
    \<and> db_chans (fold (\<lambda>op. cache_delete (kp_Key op)) ops d) = db_chans d"
proof -
  let ?f = "fold (\<lambda>op. cache_delete (kp_Key op)) ops"
  have frame: "db_queue (?f d) = db_queue d \<and> db_closed (?f d) = db_closed d \<and> db_chans (?f d) = db_chans d"
    by (induction ops arbitrary: d) auto
  have hot: "db_hotCache (?f d) = map_option (\<lambda>c. foldl tl_Delete c (map kp_Key ops)) (db_hotCache d)"
    by (induction ops arbitrary: d) (auto simp: cache_delete_def option.map_comp comp_def option.map_ident split: option.split)
  have "tl_inv (foldl tl_Delete c (map kp_Key ops))
      \<and> tl_contents (foldl tl_Delete c (map kp_Key ops)) \<subseteq>\<^sub>m view (db_pebble d)"
    if "db_hotCache d = Some c" for c
    using assms that by (intro lfu.dels_coherent [where m = m]) auto
  with frame hot show ?thesis by (auto simp: cache_coherent_def)
qed

section \<open>Writes\<close>

lemma submit_spec:
  assumes laws: "engine_laws E view pend" and inv: "queue_idle d"
    and sub: "db_submit E k v opt d = (d', err)"
  shows "queue_idle d' \<and> db_hotCache d' = db_hotCache d \<and> db_closed d' = db_closed d
    \<and> view (db_pebble d') =
        (if err = None then (view (db_pebble d))(k := (case opt of OpPut \<Rightarrow> Some v | OpDelete \<Rightarrow> None))
         else view (db_pebble d))
    \<and> (db_closed d \<longrightarrow> err = Some ErrDBClosed)
    \<and> (\<not> db_closed d \<and> k = [] \<longrightarrow> err = Some ErrInvalidKey)"
proof (cases "db_closed d \<or> k = []")
  case True
  with sub inv show ?thesis by (auto simp: db_submit_def split: if_splits)
next
  case False
  let ?P = "pebblePutter E (write_sync d)"
  let ?w = "\<lparr>wo_Key = k, wo_Value = v, wo_Op = opt, wo_Done = db_chans d\<rparr>"
  let ?q = "(db_queue d)\<lparr>q_queue := [?w]\<rparr>"
  show ?thesis
  proof (cases "q_memExceeded (db_queue d)")
    case True
    have "\<forall>r \<in> set (q_replies (db_queue d)). fst r < Suc (db_chans d)"
      using inv by (metis queue_idle_def less_SucI)
    moreover have "d' = d\<lparr>db_chans := Suc (db_chans d)\<rparr> \<and> err = Some ErrWriteThrottled"
      using True sub inv \<open>\<not> (db_closed d \<or> k = [])\<close>
      by (auto simp: db_submit_def wq_Submit_def queue_idle_def)
    ultimately show ?thesis
      using inv \<open>\<not> (db_closed d \<or> k = [])\<close> by (simp add: queue_idle_def)
  next
    case False
    have "wq_Submit ?w (db_queue d) = (?q, None)"
      using inv False \<open>\<not> (db_closed d \<or> k = [])\<close> by (simp add: wq_Submit_def queue_idle_def)
    with sub \<open>\<not> (db_closed d \<or> k = [])\<close> have d': "d' = d\<lparr>db_queue := wq_consume ?P ?q, db_chans := Suc (db_chans d)\<rparr>"
      "err = recv_done (db_chans d) (wq_consume ?P ?q)"
      by (auto simp: db_submit_def Let_def)
    from pebble.wq_consume_log [of E view pend ?q "write_sync d", OF laws]
    obtain log where log0: "map fst log = q_queue ?q"
      "q_replies (wq_consume ?P ?q) = q_replies ?q @ map (\<lambda>(w, e). (wo_Done w, e)) log"
      "view (q_store (wq_consume ?P ?q)) = apply_writes (acked log) (view (q_store ?q))"
      by blast
    then have log: "map fst log = [?w]"
      "q_replies (wq_consume ?P ?q) = q_replies (db_queue d) @ map (\<lambda>(w, e). (wo_Done w, e)) log"
      "view (q_store (wq_consume ?P ?q)) = apply_writes (acked log) (view (db_pebble d))"
      by simp_all
    then obtain e where e: "log = [(?w, e)]" by (cases log) auto
    have "db_chans d \<notin> fst ` set (q_replies (db_queue d))"
      using inv by (auto simp: queue_idle_def)
    then have "map_of (q_replies (wq_consume ?P ?q)) (db_chans d) = Some e"
      using log(2) e by (simp add: map_add_Some_iff map_of_eq_None_iff)
    then have err: "err = e" using d' by (simp add: recv_done_def)
    have "queue_idle d'"
      using inv d' log(2) e by (auto simp: queue_idle_def wq_consume_frame less_Suc_eq)
    with d' err log(3) e \<open>\<not> (db_closed d \<or> k = [])\<close> show ?thesis
      by (cases e; cases opt) (auto simp: op_write_def)
  qed
qed


section \<open>Every operation against the abstract map\<close>

text \<open>
  \<open>wrote view d d' err f\<close>: what a write of the handle that returned \<open>err\<close> does to the stored map,
  \<open>f\<close> being the intended update.
\<close>

definition wrote :: "('p \<Rightarrow> kv_map) \<Rightarrow> 'p DB \<Rightarrow> 'p DB \<Rightarrow> go_error option \<Rightarrow> (kv_map \<Rightarrow> kv_map) \<Rightarrow> bool" where
  "wrote view d d' err f \<longleftrightarrow> db_inv view d' \<and> db_closed d' = db_closed d
     \<and> view (db_pebble d') = (if err = None then f (view (db_pebble d)) else view (db_pebble d))
     \<and> (db_closed d \<longrightarrow> err = Some ErrDBClosed)"

lemma same_core_pebble: "same_core d d' \<Longrightarrow> db_queue d' = db_queue d \<and> db_closed d' = db_closed d
    \<and> db_hotCache d' = db_hotCache d"
  by (simp add: same_core_def)

lemma wrote_wrap:
  assumes "same_core d d1" and "same_core d3 d4"
  shows "wrote view d d4 err f = wrote view d1 d3 err f"
  using same_core_pebble [OF assms(1)] same_core_pebble [OF assms(2)] same_core_inv [OF assms(2)]
  by (simp add: wrote_def)

lemma write_then_drop:
  assumes inv: "db_inv view d" and idle: "queue_idle d2" and hot: "db_hotCache d2 = db_hotCache d"
    and cl: "db_closed d2 = db_closed d"
    and v: "view (db_pebble d2) = (if err = None then (view (db_pebble d))(k := x) else view (db_pebble d))"
    and e: "db_closed d \<longrightarrow> err = Some ErrDBClosed"
  shows "wrote view d (if err = None then cache_delete k d2 else d2) err (\<lambda>m. m(k := x))"
proof (cases "err = None")
  case True
  then have "\<forall>c. db_hotCache d2 = Some c \<longrightarrow> tl_inv c \<and> tl_contents c \<subseteq>\<^sub>m view (db_pebble d)"
    using inv hot e unfolding db_inv_def cache_coherent_def by auto
  then have "cache_coherent view (cache_delete k d2)"
    using v True by (intro cache_delete_coherent) auto
  with True idle v cl e show ?thesis by (simp add: wrote_def db_inv_def)
next
  case False
  with inv idle hot v cl e show ?thesis by (auto simp: wrote_def db_inv_def cache_coherent_def)
qed

lemma Put_spec:
  assumes "engine_laws E view pend" and "db_inv view d" and "db_Put E k v d = (d', err)"
  shows "wrote view d d' err (\<lambda>m. m(k \<mapsto> v)) \<and> (\<not> db_closed d \<and> k = [] \<longrightarrow> err = Some ErrInvalidKey)"
proof -
  obtain t d1 d2 where d: "startOp E ''put'' d = (t, d1)" "db_submit E k v OpPut d1 = (d2, err)"
    "d' = opTimer_finish E t err (if err = None then cache_delete k d2 else d2)"
    using assms(3) by (auto simp: db_Put_def Let_def split: prod.splits)
  have core: "same_core d d1" using same_core_start [of d E "''put''"] d(1) by simp
  have inv: "db_inv view d1" "queue_idle d1" using same_core_inv [OF core] assms(2) by (auto simp: db_inv_def)
  have "wrote view d1 (if err = None then cache_delete k d2 else d2) err (\<lambda>m. m(k \<mapsto> v))"
    using submit_spec [OF assms(1) inv(2) d(2)] by (intro write_then_drop [OF inv(1)]) auto
  with wrote_wrap [OF core same_core_finish] d(3)
  have "wrote view d d' err (\<lambda>m. m(k \<mapsto> v))" by metis
  moreover have "\<not> db_closed d \<and> k = [] \<longrightarrow> err = Some ErrInvalidKey"
    using submit_spec [OF assms(1) inv(2) d(2)] same_core_pebble [OF core] by simp
  ultimately show ?thesis by simp
qed

lemma Delete_spec:
  assumes "engine_laws E view pend" and "db_inv view d" and "db_Delete E k d = (d', err)"
  shows "wrote view d d' err (\<lambda>m. m(k := None)) \<and> (\<not> db_closed d \<and> k = [] \<longrightarrow> err = Some ErrInvalidKey)"
proof -
  obtain t d1 d2 where d: "startOp E ''delete'' d = (t, d1)" "db_submit E k [] OpDelete d1 = (d2, err)"
    "d' = opTimer_finish E t err (if err = None then cache_delete k d2 else d2)"
    using assms(3) by (auto simp: db_Delete_def Let_def split: prod.splits)
  have core: "same_core d d1" using same_core_start [of d E "''delete''"] d(1) by simp
  have inv: "db_inv view d1" "queue_idle d1" using same_core_inv [OF core] assms(2) by (auto simp: db_inv_def)
  have "wrote view d1 (if err = None then cache_delete k d2 else d2) err (\<lambda>m. m(k := None))"
    using submit_spec [OF assms(1) inv(2) d(2)] by (intro write_then_drop [OF inv(1)]) auto
  with wrote_wrap [OF core same_core_finish] d(3)
  have "wrote view d d' err (\<lambda>m. m(k := None))" by metis
  moreover have "\<not> db_closed d \<and> k = [] \<longrightarrow> err = Some ErrInvalidKey"
    using submit_spec [OF assms(1) inv(2) d(2)] same_core_pebble [OF core] by simp
  ultimately show ?thesis by simp
qed

lemma PutSync_spec:
  assumes "engine_laws E view pend" and "db_inv view d" and "db_PutSync E k v d = (d', err)"
  shows "wrote view d d' err (\<lambda>m. m(k \<mapsto> v)) \<and> (\<not> db_closed d \<and> k = [] \<longrightarrow> err = Some ErrInvalidKey)"
proof -
  obtain t d1 where d: "startOp E ''put_sync'' d = (t, d1)" by fastforce
  have core: "same_core d d1" using same_core_start [of d E "''put_sync''"] d(1) by simp
  have inv: "db_inv view d1" "queue_idle d1" using same_core_inv [OF core] assms(2) by (auto simp: db_inv_def)
  have cl: "db_closed d1 = db_closed d" "db_queue d1 = db_queue d" using same_core_pebble [OF core] by auto
  show ?thesis
  proof (cases "db_closed d \<or> k = []")
    case True
    with assms(3) d inv cl show ?thesis by (auto simp: db_PutSync_def wrote_def split: if_splits)
  next
    case False
    obtain p where p: "pb_Set E k v True (db_pebble d1) = (p, err)"
      "d' = opTimer_finish E t err (if err = None then cache_delete k (with_pebble p d1) else with_pebble p d1)"
      using assms(3) d False cl by (auto simp: db_PutSync_def Let_def split: prod.splits)
    have "view p = (if err = None then (view (db_pebble d1))(k \<mapsto> v) else view (db_pebble d1))"
      using engine_laws_D(4) [OF assms(1), of "db_pebble d1" k v True] p(1)
      by (auto simp: write_law_def split: option.splits)
    then have "wrote view d1 (if err = None then cache_delete k (with_pebble p d1) else with_pebble p d1)
        err (\<lambda>m. m(k \<mapsto> v))"
      using inv False cl by (intro write_then_drop) auto
    with wrote_wrap [OF core same_core_finish] p(2) have "wrote view d d' err (\<lambda>m. m(k \<mapsto> v))" by metis
    with False show ?thesis by simp
  qed
qed

definition kv_write :: "KVPair \<Rightarrow> bytes \<times> bytes option" where
  "kv_write op = (kp_Key op, if kp_Delete op then None else Some (kp_Value op))"

lemma fill_batch_law:
  assumes "engine_laws E view pend"
  shows "fill_batch E ops b = (b', None) \<Longrightarrow>
    pend b' = pend b @ map kv_write ops \<and> (\<forall>op \<in> set ops. kp_Key op \<noteq> [])"
proof (induction ops arbitrary: b)
  case (Cons op ops)
  have "batch_law pend b (kv_write op) (if kp_Delete op then pb_BatchDelete E (kp_Key op) b
      else pb_BatchSet E (kp_Key op) (kp_Value op) b)"
    using engine_laws_D(7,8) [OF assms] by (simp add: kv_write_def)
  with Cons show ?case
    by (auto simp: batch_law_def Let_def split: prod.splits option.splits if_splits)
qed simp

lemma fill_batch_empty_key: "[] \<in> kp_Key ` set ops \<Longrightarrow> snd (fill_batch E ops b) \<noteq> None"
  by (induction ops arbitrary: b) (auto simp: Let_def split: prod.splits option.splits)

lemma writeBatch_spec:
  assumes laws: "engine_laws E view pend" and inv: "db_inv view d" and wb: "db_writeBatch E ops d = (d', err)"
  shows "wrote view d d' err (apply_writes (map kv_write ops)) \<and> (err = None \<longrightarrow> (\<forall>op \<in> set ops. kp_Key op \<noteq> []))"
proof (cases "db_closed d")
  case True
  with inv wb show ?thesis by (auto simp: db_writeBatch_def wrote_def)
next
  case open_db: False
  obtain b e where b: "fill_batch E ops (pb_NewBatch E (db_pebble d)) = (b, e)" by fastforce
  show ?thesis
  proof (cases e)
    case (Some x)
    with inv wb b open_db show ?thesis by (auto simp: db_writeBatch_def wrote_def)
  next
    case None
    obtain p e2 where p: "pb_Commit E b (write_sync d) (db_pebble d) = (p, e2)" by fastforce
    have pend: "pend b = map kv_write ops" and keys: "\<forall>op \<in> set ops. kp_Key op \<noteq> []"
      using fill_batch_law [OF laws] b None engine_laws_D(6) [OF laws] by auto
    have law: "write_law view (db_pebble d) (map kv_write ops) (p, e2)"
      using engine_laws_D(9) [OF laws, of "db_pebble d" b "write_sync d"] pend p by simp
    show ?thesis
    proof (cases e2)
      case (Some x)
      with wb b None p open_db law inv show ?thesis
        by (auto simp: db_writeBatch_def wrote_def write_law_def db_inv_def cache_coherent_def)
    next
      case e2: None
      let ?d = "fold (\<lambda>op. cache_delete (kp_Key op)) ops (with_pebble p d)"
      have d': "d' = ?d" "err = None"
        using wb b None p open_db e2 by (auto simp: db_writeBatch_def Let_def)
      have vp: "view p = apply_writes (map kv_write ops) (view (db_pebble d))"
        using law e2 by (simp add: write_law_def)
      have "fst ` set (map kv_write ops) = kp_Key ` set ops" by (simp add: kv_write_def image_image)
      then have "view p k = view (db_pebble d) k" if "k \<notin> kp_Key ` set ops" for k
        using that apply_writes_other [of k "map kv_write ops" "view (db_pebble d)"] vp by simp
      moreover have "\<forall>c. db_hotCache (with_pebble p d) = Some c
          \<longrightarrow> tl_inv c \<and> tl_contents c \<subseteq>\<^sub>m view (db_pebble d)"
        using inv open_db unfolding db_inv_def cache_coherent_def by auto
      ultimately have "cache_coherent view ?d \<and> db_queue ?d = db_queue (with_pebble p d)
          \<and> db_closed ?d = db_closed (with_pebble p d) \<and> db_chans ?d = db_chans (with_pebble p d)"
        by (intro cache_deletes_coherent) auto
      moreover have "queue_idle (with_pebble p d)" using inv by (simp add: db_inv_def)
      ultimately show ?thesis using d' vp keys open_db by (simp add: wrote_def db_inv_def queue_idle_def)
    qed
  qed
qed

lemma WriteBatch_spec:
  assumes "engine_laws E view pend" and "db_inv view d" and "db_WriteBatch E ops d = (d', err)"
  shows "wrote view d d' err (apply_writes (map kv_write ops)) \<and> (err = None \<longrightarrow> (\<forall>op \<in> set ops. kp_Key op \<noteq> []))"
proof -
  obtain t d1 d2 where d: "startOp E ''batch'' d = (t, d1)" "db_writeBatch E ops d1 = (d2, err)"
    "d' = (opTimer_finish E t err d2)\<lparr>db_metrics := map_option (\<lambda>m. m\<lparr>m_batchSize := m_batchSize m @ [length ops]\<rparr>)
       (db_metrics (opTimer_finish E t err d2))\<rparr>"
    using assms(3) by (auto simp: db_WriteBatch_def Let_def split: prod.splits)
  have core: "same_core d d1" using same_core_start [of d E "''batch''"] d(1) by simp
  have core2: "same_core d2 d'"
    using same_core_finish [of d2 E t err] d(3) by (simp add: same_core_def)
  have "db_inv view d1" using same_core_inv [OF core] assms(2) by simp
  from writeBatch_spec [OF assms(1) this d(2)] wrote_wrap [OF core core2] show ?thesis by metis
qed

section \<open>Reads\<close>

lemma cache_admit_coherent:
  assumes "cache_coherent view d" and "view (db_pebble d) k = Some v"
  shows "cache_coherent view (cache_admit E k v d)"
proof (cases "db_hotCache d")
  case None
  with assms show ?thesis by (simp add: cache_admit_def)
next
  case (Some c)
  let ?m = "view (db_pebble d)"
  have c: "tl_inv c" "tl_contents c \<subseteq>\<^sub>m ?m" using assms Some by (auto simp: cache_coherent_def)
  obtain c1 a where r: "tl_Record c k = (c1, a)" by fastforce
  have c1: "tl_inv c1" "tl_contents c1 \<subseteq>\<^sub>m ?m" using lfu.access_coherent [OF c, of k] r by auto
  have "tl_inv (tl_Set c1 k v t) \<and> tl_contents (tl_Set c1 k v t) \<subseteq>\<^sub>m ?m" for t
    using lfu.store_coherent [OF c1 assms(2), of t] by simp
  with Some r c1 show ?thesis
    by (auto simp: cache_admit_def cache_coherent_def db_now_def)
qed

text \<open>A read: the stored value, or an error; the store stays as it is.\<close>

definition read_ok :: "('p, 'b, 'i) platform \<Rightarrow> ('p \<Rightarrow> kv_map) \<Rightarrow> 'p DB \<Rightarrow> bytes \<Rightarrow> 'p DB \<Rightarrow> go_error + bytes option \<Rightarrow> bool" where
  "read_ok E view d k d' r \<longleftrightarrow> db_inv view d' \<and> db_closed d' = db_closed d \<and> db_pebble d' = db_pebble d
     \<and> (case r of
          Inr v \<Rightarrow> \<not> db_closed d \<and> k \<noteq> [] \<and> v = view (db_pebble d) k
        | Inl e \<Rightarrow> if db_closed d then e = ErrDBClosed else if k = [] then e = ErrInvalidKey
                   else \<exists>e'. pb_Get E (db_pebble d) k = Inl e' \<and> \<not> errors_is e' ErrNotFound
                          \<and> e = ErrorWrap ''sqlitex: get: '' e')"

lemma read_ok_cong:
  "db_queue d1 = db_queue d \<Longrightarrow> db_closed d1 = db_closed d \<Longrightarrow> read_ok E view d1 k d' r = read_ok E view d k d' r"
  "same_core d' d2 \<Longrightarrow> read_ok E view d k d2 r = read_ok E view d k d' r"
  by (auto simp: read_ok_def same_core_inv same_core_pebble split: sum.split)

lemma pebble_get_spec:
  assumes "engine_laws E view pend" and "db_inv view d" and "\<not> db_closed d" and "k \<noteq> []"
    and "pebble_get E k d = (d', r)"
  shows "read_ok E view d k d' r"
proof (cases "pb_Get E (db_pebble d) k")
  case (Inr v)
  then have "view (db_pebble d) k = Some v" using engine_laws_D(2) [OF assms(1)] by simp
  with Inr assms cache_admit_coherent [of view d k v E] show ?thesis
    by (auto simp: pebble_get_def read_ok_def db_inv_def)
next
  case (Inl e)
  show ?thesis
  proof (cases "errors_is e ErrNotFound")
    case True
    then have "view (db_pebble d) k = None" using engine_laws_D(3) [OF assms(1) Inl] by simp
    moreover from this have "(view (db_pebble d))(k := None) = view (db_pebble d)" by auto
    ultimately show ?thesis
      using Inl True assms cache_delete_coherent [of d "view (db_pebble d)" view k None]
      by (auto simp: pebble_get_def read_ok_def db_inv_def cache_coherent_def)
  next
    case False
    with Inl assms show ?thesis by (auto simp: pebble_get_def read_ok_def)
  qed
qed

lemma get_spec:
  assumes laws: "engine_laws E view pend" and inv: "db_inv view d" and g: "db_get E k d = (d', r)"
  shows "read_ok E view d k d' r"
proof (cases "db_closed d \<or> k = []")
  case True
  with inv g show ?thesis by (auto simp: db_get_def read_ok_def split: if_splits)
next
  case open_db: False
  show ?thesis
  proof (cases "db_hotCache d")
    case None
    with open_db g pebble_get_spec [OF laws inv] show ?thesis by (simp add: db_get_def)
  next
    case (Some c)
    let ?m = "view (db_pebble d)"
    have c: "tl_inv c" "tl_contents c \<subseteq>\<^sub>m ?m"
      using inv open_db Some by (auto simp: db_inv_def cache_coherent_def)
    obtain t d1 where t: "db_now E d = (t, d1)" by fastforce
    obtain c1 hit where h: "tl_Get c k t = (c1, hit)" by fastforce
    let ?d2 = "d1\<lparr>db_hotCache := Some c1\<rparr>"
    have c1: "tl_inv c1" "tl_contents c1 \<subseteq>\<^sub>m ?m" using lfu.get_coherent(1,2) [OF c, of k t] h by auto
    have d1: "db_queue d1 = db_queue d" "db_closed d1 = db_closed d" "db_chans d1 = db_chans d"
      using t by (auto simp: db_now_def)
    have inv2: "db_inv view ?d2"
      using c1 d1 inv open_db by (simp add: db_inv_def cache_coherent_def queue_idle_def)
    have core: "same_core ?d2 (db_observeCache b ?d2)" for b by (rule same_core_observe)
    show ?thesis
    proof (cases hit)
      case (Some v)
      have "?m k = Some v" using lfu.get_coherent(3) [OF c, of k t v] h Some by simp
      moreover have "d' = db_observeCache True ?d2" "r = Inr (Some v)"
        using g open_db t h Some \<open>db_hotCache d = Some c\<close> by (auto simp: db_get_def)
      ultimately show ?thesis
        using same_core_inv [OF core] inv2 same_core_pebble [OF core] d1 open_db
        by (simp add: read_ok_def)
    next
      case None
      then have "pebble_get E k (db_observeCache False ?d2) = (d', r)"
        using g open_db t h \<open>db_hotCache d = Some c\<close> by (auto simp: db_get_def)
      then have "read_ok E view (db_observeCache False ?d2) k d' r"
        using same_core_inv [OF core] inv2 same_core_pebble [OF core] d1 open_db
        by (intro pebble_get_spec [OF laws]) auto
      moreover have "db_queue (db_observeCache False ?d2) = db_queue d"
        "db_closed (db_observeCache False ?d2) = db_closed d"
        using same_core_pebble [OF core, of False] d1 by auto
      ultimately show ?thesis using read_ok_cong(1) by blast
    qed
  qed
qed

lemma Get_spec:
  assumes "engine_laws E view pend" and "db_inv view d" and "db_Get E k d = (d', r)"
  shows "read_ok E view d k d' r"
proof -
  obtain t d1 d2 where d: "startOp E ''get'' d = (t, d1)" "db_get E k d1 = (d2, r)"
    "d' = opTimer_finish E t (err_of r) d2"
    using assms(3) by (auto simp: db_Get_def Let_def split: prod.splits)
  have core: "same_core d d1" using same_core_start [of d E "''get''"] d(1) by simp
  have core2: "same_core d2 d'" using same_core_finish [of d2 E t "err_of r"] d(3) by simp
  have "db_inv view d1" using same_core_inv [OF core] assms(2) by simp
  from get_spec [OF assms(1) this d(2)] have "read_ok E view d1 k d' r"
    by (simp add: read_ok_cong(2) [OF core2])
  then show ?thesis using same_core_pebble [OF core] read_ok_cong(1) by blast
qed


section \<open>Opening and closing\<close>

lemma hot_cache_of_empty:
  "hot_cache_of cfg = Some c \<Longrightarrow> tl_inv c \<and> tl_contents c = Map.empty"
proof -
  have "tl_contents (tl_New x) = Map.empty" for x by (auto simp: tl_contents_def tl_New_def)
  then show "hot_cache_of cfg = Some c \<Longrightarrow> ?thesis"
    by (auto simp: hot_cache_of_def Let_def tl_New_inv split: if_splits)
qed

lemma Open_inv:
  assumes "db_Open E cfg = Inr d"
  shows "db_inv view d \<and> \<not> db_closed d"
proof -
  have "0 < c_MaxQueueLen (applyDefaults cfg)" by (simp add: applyDefaults_def)
  then show ?thesis
    using assms hot_cache_of_empty [of "applyDefaults cfg"]
    by (auto simp: db_Open_def Let_def db_inv_def cache_coherent_def queue_idle_def wq_New_def
        split: if_splits sum.splits)
qed

lemma Close_spec:
  assumes "db_inv view d" and "db_Close E d = (d', err)"
  shows "db_inv view d' \<and> db_closed d' \<and> (db_closed d \<longrightarrow> err = Some ErrDBClosed \<and> d' = d)"
proof (cases "db_closed d")
  case True
  with assms show ?thesis by (auto simp: db_Close_def)
next
  case False
  then obtain p where "d' = with_pebble p (d\<lparr>db_closed := True, db_queue := wq_Stop (db_queue d)\<rparr>)"
    using assms(2) by (auto simp: db_Close_def Let_def split: prod.splits)
  with False assms(1) show ?thesis
    by (simp add: db_inv_def queue_idle_def wq_Stop_def)
qed

section \<open>Histories of the handle\<close>

datatype db_op =
    DPut bytes bytes | DPutSync bytes bytes | DDelete bytes | DGet bytes | DWriteBatch "KVPair list"
  | DClose | DSweep | DSample int

datatype db_res = RErr "go_error option" | RVal "go_error + bytes option"

fun db_step :: "('p, 'b, 'i) platform \<Rightarrow> db_op \<Rightarrow> 'p DB \<Rightarrow> 'p DB \<times> db_res" where
  "db_step E (DPut k v) d = (let (d', e) = db_Put E k v d in (d', RErr e))"
| "db_step E (DPutSync k v) d = (let (d', e) = db_PutSync E k v d in (d', RErr e))"
| "db_step E (DDelete k) d = (let (d', e) = db_Delete E k d in (d', RErr e))"
| "db_step E (DGet k) d = (let (d', r) = db_Get E k d in (d', RVal r))"
| "db_step E (DWriteBatch ops) d = (let (d', e) = db_WriteBatch E ops d in (d', RErr e))"
| "db_step E DClose d = (let (d', e) = db_Close E d in (d', RErr e))"
| "db_step E DSweep d = (db_sweep E d, RErr None)"
| "db_step E (DSample a) d = (db_memSample a d, RErr None)"

fun db_run :: "('p, 'b, 'i) platform \<Rightarrow> db_op list \<Rightarrow> 'p DB \<Rightarrow> 'p DB \<times> (db_op \<times> db_res) list" where
  "db_run E [] d = (d, [])"
| "db_run E (op # ops) d =
     (let (d1, r) = db_step E op d; (d2, rs) = db_run E ops d1 in (d2, (op, r) # rs))"

text \<open>
  The specification: a map, or \<open>None\<close> once closed.  \<open>spec_next\<close> is its state after an operation
  that gave a result, \<open>spec_allows\<close> says which results are allowed.
\<close>

fun spec_write :: "db_op \<Rightarrow> kv_map \<Rightarrow> kv_map" where
  "spec_write (DPut k v) m = m(k \<mapsto> v)"
| "spec_write (DPutSync k v) m = m(k \<mapsto> v)"
| "spec_write (DDelete k) m = m(k := None)"
| "spec_write (DWriteBatch ops) m = apply_writes (map kv_write ops) m"
| "spec_write _ m = m"

fun spec_next :: "db_op \<Rightarrow> db_res \<Rightarrow> kv_map option \<Rightarrow> kv_map option" where
  "spec_next DClose r s = None"
| "spec_next op (RErr None) s = map_option (spec_write op) s"
| "spec_next op r s = s"

fun spec_keys :: "db_op \<Rightarrow> bytes list" where
  "spec_keys (DPut k v) = [k]"
| "spec_keys (DPutSync k v) = [k]"
| "spec_keys (DDelete k) = [k]"
| "spec_keys (DGet k) = [k]"
| "spec_keys (DWriteBatch ops) = map kp_Key ops"
| "spec_keys _ = []"

fun spec_allows :: "db_op \<Rightarrow> db_res \<Rightarrow> kv_map option \<Rightarrow> bool" where
  "spec_allows DSweep r s = (r = RErr None)"
| "spec_allows (DSample a) r s = (r = RErr None)"
| "spec_allows (DGet k) (RVal (Inr v)) s = (case s of None \<Rightarrow> False | Some m \<Rightarrow> k \<noteq> [] \<and> v = m k)"
| "spec_allows (DGet k) (RVal (Inl e)) s =
     (case s of None \<Rightarrow> e = ErrDBClosed
      | Some m \<Rightarrow> if k = [] then e = ErrInvalidKey else \<exists>e'. e = ErrorWrap ''sqlitex: get: '' e')"
| "spec_allows (DGet k) (RErr e) s = False"
| "spec_allows op (RVal r) s = False"
| "spec_allows op (RErr None) s = (s \<noteq> None \<and> [] \<notin> set (spec_keys op))"
| "spec_allows op (RErr (Some e)) s = (s \<noteq> None \<or> e = ErrDBClosed)"

fun spec_run :: "(db_op \<times> db_res) list \<Rightarrow> kv_map option \<Rightarrow> kv_map option option" where
  "spec_run [] s = Some s"
| "spec_run ((op, r) # t) s = (if spec_allows op r s then spec_run t (spec_next op r s) else None)"

definition db_abs :: "('p \<Rightarrow> kv_map) \<Rightarrow> 'p DB \<Rightarrow> kv_map option" where
  "db_abs view d = (if db_closed d then None else Some (view (db_pebble d)))"

lemma wrote_step:
  assumes "wrote view d d' err f"
  shows "db_inv view d'" "db_abs view d' = (if err = None then map_option f (db_abs view d) else db_abs view d)"
    "db_abs view d = None \<Longrightarrow> err = Some ErrDBClosed"
  using assms by (auto simp: wrote_def db_abs_def)

lemma sweep_spec: "db_inv view d \<Longrightarrow> db_inv view (db_sweep E d) \<and> db_abs view (db_sweep E d) = db_abs view d"
  using sweep_inv_contents map_le_trans
  by (fastforce simp: db_sweep_def db_now_def Let_def db_inv_def cache_coherent_def queue_idle_def
      db_abs_def split: option.split)

lemma sample_spec: "db_inv view d \<Longrightarrow> db_inv view (db_memSample a d) \<and> db_abs view (db_memSample a d) = db_abs view d"
  by (simp add: db_memSample_def db_inv_def cache_coherent_def queue_idle_def db_abs_def)

lemma db_step_refines:
  assumes laws: "engine_laws E view pend" and inv: "db_inv view d" and st: "db_step E op d = (d', r)"
  shows "db_inv view d' \<and> spec_allows op r (db_abs view d) \<and> db_abs view d' = spec_next op r (db_abs view d)"
proof (cases op)
  case (DPut k v)
  then obtain e where e: "db_Put E k v d = (d', e)" "r = RErr e" using st by (auto split: prod.splits)
  from Put_spec [OF laws inv e(1)] wrote_step [of view d d' e "\<lambda>m. m(k \<mapsto> v)"] DPut e(2) show ?thesis
    by (cases e; cases "db_abs view d") (auto simp: db_abs_def split: if_splits)
next
  case (DPutSync k v)
  then obtain e where e: "db_PutSync E k v d = (d', e)" "r = RErr e" using st by (auto split: prod.splits)
  from PutSync_spec [OF laws inv e(1)] wrote_step [of view d d' e "\<lambda>m. m(k \<mapsto> v)"] DPutSync e(2) show ?thesis
    by (cases e; cases "db_abs view d") (auto simp: db_abs_def split: if_splits)
next
  case (DDelete k)
  then obtain e where e: "db_Delete E k d = (d', e)" "r = RErr e" using st by (auto split: prod.splits)
  from Delete_spec [OF laws inv e(1)] wrote_step [of view d d' e "\<lambda>m. m(k := None)"] DDelete e(2) show ?thesis
    by (cases e; cases "db_abs view d") (auto simp: db_abs_def split: if_splits)
next
  case (DWriteBatch ops)
  then obtain e where e: "db_WriteBatch E ops d = (d', e)" "r = RErr e" using st by (auto split: prod.splits)
  from WriteBatch_spec [OF laws inv e(1)] wrote_step [of view d d' e "apply_writes (map kv_write ops)"]
    DWriteBatch e(2) show ?thesis
    by (cases e; cases "db_abs view d") auto
next
  case (DGet k)
  then obtain q where q: "db_Get E k d = (d', q)" "r = RVal q" using st by (auto split: prod.splits)
  from Get_spec [OF laws inv q(1)] DGet q(2) show ?thesis
    by (cases q) (auto simp: read_ok_def db_abs_def split: if_splits)
next
  case DClose
  then obtain e where e: "db_Close E d = (d', e)" "r = RErr e" using st by (auto split: prod.splits)
  from Close_spec [OF inv e(1)] DClose e(2) show ?thesis
    by (cases e) (auto simp: db_abs_def)
next
  case DSweep
  with st sweep_spec [OF inv] show ?thesis by (cases "db_abs view d") auto
next
  case (DSample a)
  with st sample_spec [OF inv] show ?thesis by (cases "db_abs view d") auto
qed

lemma db_run_refines:
  assumes "engine_laws E view pend" and "db_inv view d" and "db_run E ops d = (d', t)"
  shows "db_inv view d' \<and> spec_run t (db_abs view d) = Some (db_abs view d')"
  using assms(2,3)
proof (induction ops arbitrary: d t)
  case (Cons op ops)
  obtain d1 r where 1: "db_step E op d = (d1, r)" by fastforce
  obtain t' where 2: "db_run E ops d1 = (d', t')" "t = (op, r) # t'"
    using Cons.prems(2) 1 by (auto split: prod.splits)
  from db_step_refines [OF assms(1) Cons.prems(1) 1] Cons.IH [OF _ 2(1)] 2(2) show ?case by simp
qed simp

section \<open>Prefix iterators\<close>

lemma prefix_match: "length p \<le> length k \<Longrightarrow>
    list_all (\<lambda>i. k ! i = p ! i) [0..<length p] \<longleftrightarrow> prefix p k"
  by (auto simp: list_all_iff prefix_def intro!: exI [of _ "drop (length p) k"] nth_equalityI
      simp: nth_append)

text \<open>What the following calls of \<open>Next\<close> will visit.\<close>

definition it_rest :: "('i \<Rightarrow> (bytes \<times> bytes) list) \<Rightarrow> ('i \<Rightarrow> nat option) \<Rightarrow> 'i PrefixIterator \<Rightarrow> (bytes \<times> bytes) list" where
  "it_rest snap pos it =
     (let s = snap (it_iter it) in
      case pos (it_iter it) of
        Some n \<Rightarrow> if it_resumed it then drop n s else if it_started it then drop (Suc n) s else s
      | None \<Rightarrow> if it_resumed it then [] else s)"

lemma iter_laws_D:
  assumes "iter_laws E view snap pos"
  shows "snap (pb_First E i) = snap i" "pos (pb_First E i) = Some 0" "snap (pb_Next E i) = snap i"
    "pos i = None \<Longrightarrow> pos (pb_Next E i) = Some 0"
    "pos i = Some n \<Longrightarrow> pos (pb_Next E i) = Some (if n < length (snap i) then Suc n else n)"
    "snap (pb_SeekGE E t i) = snap i" "pos (pb_SeekGE E t i) = Some (first_ge t (snap i))"
    "snap (pb_SeekLT E t i) = snap i"
    "pb_Valid E i \<longleftrightarrow> (\<exists>n. pos i = Some n \<and> n < length (snap i))"
    "pos i = Some n \<Longrightarrow> n < length (snap i) \<Longrightarrow> pb_Key E i = fst (snap i ! n)"
    "pos i = Some n \<Longrightarrow> n < length (snap i) \<Longrightarrow> pb_Value E i = snd (snap i ! n)"
  using assms unfolding iter_laws_def by (simp_all add: not_less)

lemma it_Valid_at:
  assumes "iter_laws E view snap pos" and "pos (it_iter it) = Some n"
  shows "it_Valid E it \<longleftrightarrow> n < length (snap (it_iter it)) \<and> prefix (it_prefix it) (fst (snap (it_iter it) ! n))"
  using iter_laws_D(9,10) [OF assms(1)] assms(2)
  by (auto simp: it_Valid_def Let_def prefix_match dest: prefix_length_le)

lemma it_Next_spec:
  assumes laws: "iter_laws E view snap pos" and res: "it_resumed it \<longrightarrow> pos (it_iter it) \<noteq> None"
    and nx: "it_Next E it = (it', b)"
  shows "b = (case it_rest snap pos it of [] \<Rightarrow> False | e # _ \<Rightarrow> prefix (it_prefix it) (fst e))
    \<and> it_prefix it' = it_prefix it \<and> \<not> it_resumed it' \<and> it_started it'
    \<and> (case it_rest snap pos it of [] \<Rightarrow> True
       | e # es \<Rightarrow> it_Key E it' = fst e \<and> it_Value E it' = snd e \<and> it_rest snap pos it' = es)"
proof -
  note L = iter_laws_D [OF laws]
  obtain n where n: "pos (it_iter it') = Some n" "snap (it_iter it') = snap (it_iter it)"
    "it_prefix it' = it_prefix it" "\<not> it_resumed it'" "it_started it'" "b = it_Valid E it'"
    "it_rest snap pos it = drop n (snap (it_iter it))"
  proof -
    consider (resumed) "it_resumed it" | (first) "\<not> it_resumed it" "\<not> it_started it"
      | (later) "\<not> it_resumed it" "it_started it" by blast
    then show ?thesis
    proof cases
      case resumed
      with nx res that show ?thesis by (auto simp: it_Next_def Let_def it_rest_def)
    next
      case first
      with nx L that [of 0] show ?thesis
        by (auto simp: it_Next_def Let_def it_rest_def split: option.split)
    next
      case later
      show ?thesis
      proof (cases "pos (it_iter it)")
        case None
        with later nx L that [of 0] show ?thesis by (auto simp: it_Next_def Let_def it_rest_def)
      next
        case (Some m)
        with later nx L that [of "if m < length (snap (it_iter it)) then Suc m else m"] show ?thesis
          by (auto simp: it_Next_def Let_def it_rest_def)
      qed
    qed
  qed
  show ?thesis
  proof (cases "n < length (snap (it_iter it))")
    case True
    then have d: "drop n (snap (it_iter it)) = snap (it_iter it) ! n # drop (Suc n) (snap (it_iter it))"
      by (simp add: Cons_nth_drop_Suc)
    with n True L(10,11) [of "it_iter it'" n] it_Valid_at [OF laws n(1)] show ?thesis
      by (simp add: it_Key_def it_Value_def it_rest_def)
  next
    case False
    with n it_Valid_at [OF laws n(1)] show ?thesis by simp
  qed
qed

text \<open>The loop \<open>for it.Next() { ... }\<close>: the entries it visits, at most \<open>n\<close>.\<close>

fun it_collect :: "('p, 'b, 'i) platform \<Rightarrow> nat \<Rightarrow> 'i PrefixIterator \<Rightarrow> (bytes \<times> bytes) list" where
  "it_collect E 0 it = []"
| "it_collect E (Suc n) it =
     (let (it', b) = it_Next E it
      in if b then (it_Key E it', it_Value E it') # it_collect E n it' else [])"

lemma it_collect_eq:
  assumes laws: "iter_laws E view snap pos"
  shows "it_resumed it \<longrightarrow> pos (it_iter it) \<noteq> None \<Longrightarrow>
    it_collect E n it = take n (takeWhile (\<lambda>e. prefix (it_prefix it) (fst e)) (it_rest snap pos it))"
proof (induction n arbitrary: it)
  case (Suc n)
  obtain it' b where nx: "it_Next E it = (it', b)" by fastforce
  note N = it_Next_spec [OF laws Suc.prems nx]
  show ?case
  proof (cases "it_rest snap pos it")
    case Nil
    with N nx show ?thesis by simp
  next
    case (Cons e es)
    then show ?thesis using N nx Suc.IH [of it'] by (cases e) auto
  qed
qed simp

text \<open>In byte order the keys with a prefix are contiguous and start at the prefix.\<close>

lemma prefix_le: "prefix p k \<Longrightarrow> p \<le> (k :: bytes)"
  by (auto simp: prefix_def prefix_less_append)

lemma prefix_convex:
  "(p :: bytes) \<le> k \<Longrightarrow> \<not> prefix p k \<Longrightarrow> k \<le> k' \<Longrightarrow> \<not> prefix p k'"
proof (induction p arbitrary: k k')
  case (Cons a p)
  then show ?case by (cases k; cases k') auto
qed simp

lemma takeWhile_prefix:
  "sorted (map fst es) \<Longrightarrow> (\<And>e. e \<in> set es \<Longrightarrow> p \<le> fst e) \<Longrightarrow>
    takeWhile (\<lambda>e. prefix p (fst e)) es = filter (\<lambda>e. prefix (p :: bytes) (fst e)) es"
proof (induction es)
  case (Cons e es)
  show ?case
  proof (cases "prefix p (fst e)")
    case False
    then have "\<not> prefix p (fst e')" if "e' \<in> set es" for e'
      using that Cons.prems prefix_convex [of p "fst e" "fst e'"] by auto
    with False show ?thesis by (auto simp: filter_empty_conv)
  qed (use Cons in auto)
qed simp

lemma filter_prefix_entries:
  "filter (\<lambda>e. prefix p (fst e)) (entries_from p m) = filter (\<lambda>e. prefix p (fst e)) (sorted_entries m)"
  by (auto simp: entries_from_def intro!: filter_cong dest: prefix_le)

lemma drop_first_ge: "drop (first_ge t es) es = dropWhile (\<lambda>(k, _). k < t) es"
  by (simp add: first_ge_def dropWhile_eq_drop)

lemma dropWhile_less_sorted:
  "sorted (map fst es) \<Longrightarrow> dropWhile (\<lambda>(k, _). k < t) es = filter (\<lambda>(k, _). t \<le> (k :: bytes)) es"
proof (induction es)
  case (Cons e es)
  then show ?case by (fastforce simp: case_prod_unfold not_less filter_id_conv intro!: filter_id_conv [THEN iffD2, symmetric])
qed simp


lemma iter_laws_new:
  "iter_laws E view snap pos \<Longrightarrow> \<exists>i. pb_NewIter E p l = Inr i \<and> snap i = entries_from l (view p)"
  by (simp add: iter_laws_def)

lemma iterate_rest:
  assumes "iter_laws E view snap pos" and "db_Iterate E p d = Some it"
  shows "it_prefix it = p \<and> \<not> it_resumed it \<and> \<not> it_started it
    \<and> snap (it_iter it) = entries_from p (view (db_pebble d))
    \<and> it_rest snap pos it = entries_from p (view (db_pebble d))"
proof -
  obtain i where "pb_NewIter E (db_pebble d) p = Inr i" "snap i = entries_from p (view (db_pebble d))"
    using iter_laws_new [OF assms(1)] by blast
  moreover from this have "it = \<lparr>it_iter = i, it_prefix = p, it_started = False, it_resumed = False\<rparr>"
    using assms(2) by (simp add: db_Iterate_def split: if_splits)
  ultimately show ?thesis by (cases "pos i") (simp_all add: it_rest_def)
qed

lemma iter_finite: "iter_laws E view snap pos \<Longrightarrow> finite (dom (view p))"
  by (simp add: iter_laws_def)

lemma entries_from_length: "length (entries_from l m) \<le> length (sorted_entries m)"
  by (simp add: entries_from_def)

lemma takeWhile_entries:
  assumes "finite (dom m)"
  shows "takeWhile (\<lambda>e. prefix p (fst e)) (filter Q (entries_from p m))
    = filter (\<lambda>e. prefix p (fst e) \<and> Q e) (sorted_entries m)"
proof -
  have sorted: "sorted (map fst (filter Q (entries_from p m)))"
    using entries_from_sorted [OF assms, of p] by (simp add: sorted_filter)
  have "takeWhile (\<lambda>e. prefix p (fst e)) (filter Q (entries_from p m))
      = filter (\<lambda>e. prefix p (fst e)) (filter Q (entries_from p m))"
    using sorted by (rule takeWhile_prefix) (auto simp: entries_from_def)
  also have "\<dots> = filter Q (filter (\<lambda>e. prefix p (fst e)) (entries_from p m))"
    by (simp add: conj_commute)
  also have "\<dots> = filter (\<lambda>e. prefix p (fst e) \<and> Q e) (sorted_entries m)"
    by (simp add: filter_prefix_entries conj_commute)
  finally show ?thesis .
qed

lemma first_gt:
  "sorted (map fst es) \<Longrightarrow> distinct (map fst es) \<Longrightarrow>
    filter (\<lambda>e. t < fst e) es =
      (if first_ge t es < length es \<and> fst (es ! first_ge t es) = (t :: bytes)
       then drop (Suc (first_ge t es)) es else drop (first_ge t es) es)"
proof (induction es)
  case (Cons e es)
  have gt: "fst e < fst e'" if "e' \<in> set es" for e'
    using Cons.prems that by (auto simp: order_less_le)
  show ?case
  proof (cases "fst e < t")
    case True
    then have "first_ge t (e # es) = Suc (first_ge t es)" by (simp add: first_ge_def case_prod_unfold)
    moreover have "\<not> t < fst e" using True by order
    ultimately show ?thesis using Cons by simp
  next
    case False
    then have "filter (\<lambda>e. t < fst e) es = es"
      using gt by (fastforce simp: filter_id_conv)
    moreover have "first_ge t (e # es) = 0" using False by (simp add: first_ge_def case_prod_unfold)
    ultimately show ?thesis using False by auto
  qed
qed (simp add: first_ge_def)

lemma seek_after_rest:
  assumes laws: "iter_laws E view snap pos" and sorted: "sorted (map fst (snap (it_iter it)))"
    and dist: "distinct (map fst (snap (it_iter it)))"
  shows "it_rest snap pos (it_SeekAfter E t it) = filter (\<lambda>e. t < fst e) (snap (it_iter it))
    \<and> it_prefix (it_SeekAfter E t it) = it_prefix it
    \<and> pos (it_iter (it_SeekAfter E t it)) \<noteq> None
    \<and> snap (it_iter (it_SeekAfter E t it)) = snap (it_iter it)"
proof -
  let ?s = "snap (it_iter it)" and ?i = "pb_SeekGE E t (it_iter it)"
  let ?n = "first_ge t ?s"
  note L = iter_laws_D [OF laws]
  have at: "pb_Valid E ?i \<and> pb_Key E ?i = t \<longleftrightarrow> ?n < length ?s \<and> fst (?s ! ?n) = t"
    using L(6,7,9,10) by auto
  show ?thesis
  proof (cases "?n < length ?s \<and> fst (?s ! ?n) = t")
    case True
    then have i: "it_iter (it_SeekAfter E t it) = pb_Next E ?i" "it_resumed (it_SeekAfter E t it)"
      "it_prefix (it_SeekAfter E t it) = it_prefix it"
      using at by (simp_all add: it_SeekAfter_def Let_def)
    have "pos (pb_Next E ?i) = Some (Suc ?n)" "snap (pb_Next E ?i) = ?s"
      using True L(3,5,6,7) by auto
    with i True show ?thesis by (simp add: it_rest_def first_gt [OF sorted dist])
  next
    case False
    then have i: "it_iter (it_SeekAfter E t it) = ?i" "it_resumed (it_SeekAfter E t it)"
      "it_prefix (it_SeekAfter E t it) = it_prefix it"
      using at by (auto simp: it_SeekAfter_def Let_def)
    moreover have "filter (\<lambda>e. t < fst e) ?s = drop ?n ?s"
      using first_gt [OF sorted dist, of t] False by auto
    ultimately show ?thesis using L(6,7) by (simp add: it_rest_def)
  qed
qed

lemma take_filter_all: "length xs \<le> n \<Longrightarrow> take n (filter P xs) = filter P xs"
  using length_filter_le [of P xs] by (intro take_all) linarith

section \<open>The interface the generated stores rely on\<close>

text \<open>
  A handle that answers reads with the stored value and applies batches as a whole.  \<open>inv\<close> says that
  the handle is open and that the engine under it works and reads without errors.
\<close>

locale kv_handle =
  fixes view :: "'d \<Rightarrow> kv_map"
    and inv :: "'d \<Rightarrow> bool"
    and get :: "bytes \<Rightarrow> 'd \<Rightarrow> 'd \<times> (go_error + bytes option)"
    and wbatch :: "KVPair list \<Rightarrow> 'd \<Rightarrow> 'd \<times> go_error option"
  assumes get_law: "inv d \<Longrightarrow> k \<noteq> [] \<Longrightarrow> get k d = (d', r) \<Longrightarrow>
      inv d' \<and> view d' = view d \<and> r = Inr (view d k)"
    and write_law: "inv d \<Longrightarrow> wbatch ops d = (d', err) \<Longrightarrow>
      inv d' \<and> view d' = (if err = None then apply_writes (map kv_write ops) (view d) else view d)"
begin

lemma getE:
  assumes "inv d" and "k \<noteq> []"
  obtains d' where "get k d = (d', Inr (view d k))" "inv d'" "view d' = view d"
  using get_law [OF assms] by (metis prod.collapse)

lemma writeE:
  assumes "inv d"
  obtains d' err where "wbatch ops d = (d', err)" "inv d'"
    "err = None \<Longrightarrow> view d' = apply_writes (map kv_write ops) (view d)"
    "err \<noteq> None \<Longrightarrow> view d' = view d"
  using write_law [OF assms] by (metis prod.collapse)

end

definition handle_ok ::
  "('p, 'b, 'i) platform \<Rightarrow> ('p \<Rightarrow> kv_map) \<Rightarrow> ('b \<Rightarrow> (bytes \<times> bytes option) list) \<Rightarrow> 'p DB \<Rightarrow> bool" where
  "handle_ok E view pend d \<longleftrightarrow>
     engine_laws E view pend \<and> reads_ok E view \<and> db_inv view d \<and> \<not> db_closed d"

abbreviation db_view :: "('p \<Rightarrow> kv_map) \<Rightarrow> 'p DB \<Rightarrow> kv_map" where
  "db_view view d \<equiv> view (db_pebble d)"

interpretation handle: kv_handle "db_view view" "handle_ok E view pend" "db_Get E" "db_WriteBatch E"
  for E :: "('p, 'b, 'i) platform" and view pend
proof unfold_locales
  fix d d' :: "'p DB" and k r
  assume ok: "handle_ok E view pend d" and k: "k \<noteq> []" and g: "db_Get E k d = (d', r)"
  then have R: "read_ok E view d k d' r" using Get_spec by (auto simp: handle_ok_def)
  have read: "pb_Get E (db_pebble d) k
      = (case db_view view d k of None \<Rightarrow> Inl ErrNotFound | Some v \<Rightarrow> Inr v)"
    using ok by (simp add: handle_ok_def reads_ok_def)
  have "errors_is ErrNotFound ErrNotFound" by (simp add: ErrNotFound_def)
  then have "r = Inr (db_view view d k)"
    using R read ok k by (cases r) (auto simp: read_ok_def handle_ok_def split: option.splits)
  with R ok show "handle_ok E view pend d' \<and> db_view view d' = db_view view d \<and> r = Inr (db_view view d k)"
    by (simp add: read_ok_def handle_ok_def)
next
  fix d d' :: "'p DB" and ops err
  assume "handle_ok E view pend d" and "db_WriteBatch E ops d = (d', err)"
  then show "handle_ok E view pend d' \<and> db_view view d'
      = (if err = None then apply_writes (map kv_write ops) (db_view view d) else db_view view d)"
    using WriteBatch_spec [of E view pend d ops d' err] by (simp add: handle_ok_def wrote_def)
qed

lemma handle_ok_now: "handle_ok E view pend (snd (db_now E d)) = handle_ok E view pend d"
  using same_core_inv [OF same_core_now [of d E]] same_core_pebble [OF same_core_now [of d E]]
  by (simp add: handle_ok_def)

lemma db_pebble_now [simp]: "db_pebble (snd (db_now E d)) = db_pebble d"
  by (simp add: db_now_def)

text \<open>No write of the engine fails either.\<close>

definition writes_ok :: "('p, 'b, 'i) platform \<Rightarrow> bool" where
  "writes_ok E \<longleftrightarrow> (\<forall>b k v. snd (pb_BatchSet E k v b) = None) \<and> (\<forall>b k. snd (pb_BatchDelete E k b) = None)
     \<and> (\<forall>b s p. snd (pb_Commit E b s p) = None)"

lemma fill_batch_ok: "writes_ok E \<Longrightarrow> [] \<notin> kp_Key ` set ops \<Longrightarrow> snd (fill_batch E ops b) = None"
proof (induction ops arbitrary: b)
  case (Cons op ops)
  then obtain b' where "(if kp_Delete op then pb_BatchDelete E (kp_Key op) b
      else pb_BatchSet E (kp_Key op) (kp_Value op) b) = (b', None)"
    unfolding writes_ok_def by (metis prod.collapse)
  with Cons show ?case by (auto simp: eq_commute [of "[]"])
qed simp

lemma WriteBatch_ok:
  assumes "writes_ok E" and "\<not> db_closed d" and "[] \<notin> kp_Key ` set ops"
  shows "snd (db_WriteBatch E ops d) = None"
proof -
  have cl: "\<not> db_closed (snd (startOp E ''batch'' d))"
    using same_core_pebble [OF same_core_start [of d E "''batch''"]] assms(2) by simp
  have "snd (db_writeBatch E ops d1) = None" if "\<not> db_closed d1" for d1
  proof -
    obtain b e where b: "fill_batch E ops (pb_NewBatch E (db_pebble d1)) = (b, e)" by fastforce
    have "e = None" using fill_batch_ok [OF assms(1,3), of "pb_NewBatch E (db_pebble d1)"] b by simp
    moreover obtain p e2 where p: "pb_Commit E b (write_sync d1) (db_pebble d1) = (p, e2)" by fastforce
    moreover have "e2 = None" using assms(1) p unfolding writes_ok_def by (metis snd_conv)
    ultimately show ?thesis using b that by (simp add: db_writeBatch_def)
  qed
  from this [OF cl] show ?thesis by (simp add: db_WriteBatch_def Let_def case_prod_unfold)
qed


section \<open>Properties of the handle\<close>

text \<open>
  C1. The handle is a map: a database that was opened, whatever is then called on it in whatever
  order (writes, batches, reads, sweeps of the cache, memory samples, \<open>Close\<close>), answers as the
  plain stored map would.  Every read that returns returns the latest acknowledged value, so the
  hot cache is never visible; a write acts exactly when it returns no error; empty keys are
  refused; after \<open>Close\<close> every call returns \<open>ErrDBClosed\<close>.
\<close>

theorem handle_refines_map:
  assumes "engine_laws E view pend" and "db_Open E cfg = Inr d" and "db_run E ops d = (d', t)"
  shows "spec_run t (Some (view (db_pebble d))) = Some (db_abs view d')"
proof -
  have "db_inv view d" "\<not> db_closed d" using Open_inv [OF assms(2)] by auto
  with db_run_refines [OF assms(1) _ assms(3)] show ?thesis by (simp add: db_abs_def)
qed

definition example_db_cfg :: Config where
  "example_db_cfg =
     \<lparr>c_Dir = [47], c_BlockCacheSize = 0, c_MemTableSize = 0, c_MaxQueueLen = 0, c_MaxMemMB = 0,
      c_DisableWAL = False, c_AsyncWAL = False, c_WALBytesPerSync = 0, c_WALMinSyncInterval = 0,
      c_BatchCommitSize = 0, c_CacheMaxMB = 0, c_Metrics = False, c_MetricsNamespace = ''''\<rparr>"

definition example_db :: "mem_store DB" where
  "example_db = projr (db_Open mem_platform example_db_cfg)"

lemma example_db_open: "db_Open mem_platform example_db_cfg = Inr example_db"
  by (simp add: example_db_def db_Open_def example_db_cfg_def mem_platform_def Let_def)

lemma example_db_eval [simp]:
  "db_closed example_db = False" "db_metrics example_db = None" "db_pebble example_db = ([], [])"
  "db_cfg example_db = applyDefaults example_db_cfg"
  by (simp_all add: example_db_def db_Open_def example_db_cfg_def mem_platform_def Let_def
      applyDefaults_def wq_New_def)

text \<open>Witness: a batch, then closing, then a refused read.\<close>

theorem handle_refines_map_witness:
  "spec_run (snd (db_run mem_platform
       [DWriteBatch [\<lparr>kp_Key = [1], kp_Value = [7], kp_Delete = False\<rparr>], DClose, DGet [1]] example_db))
     (Some Map.empty) = Some None
   \<and> map snd (snd (db_run mem_platform
       [DWriteBatch [\<lparr>kp_Key = [1], kp_Value = [7], kp_Delete = False\<rparr>], DClose, DGet [1]] example_db))
     = [RErr None, RErr None, RVal (Inl ErrDBClosed)]"
proof -
  let ?ops = "[DWriteBatch [\<lparr>kp_Key = [1], kp_Value = [7], kp_Delete = False\<rparr>], DClose, DGet [1]]"
  let ?r = "db_run mem_platform ?ops example_db"
  have "db_closed (fst ?r) \<and> map snd (snd ?r) = [RErr None, RErr None, RVal (Inl ErrDBClosed)]"
    by (simp add: db_WriteBatch_def db_writeBatch_def startOp_def opTimer_finish_def Let_def
        db_Close_def db_Get_def db_get_def mem_platform_def cache_delete_def with_pebble_def
        split: option.split)
  moreover have "mem_view ([], []) = Map.empty" by (simp add: mem_view_def)
  ultimately show ?thesis
    using handle_refines_map [OF mem_engine_laws example_db_open, of ?ops "fst ?r" "snd ?r"]
    by (simp add: db_abs_def)
qed

text \<open>
  C30. \<open>WriteBatch\<close> is atomic: if it returns no error, every key is non-empty and the map has all
  the writes in order; if it returns any error, the map is unchanged, whatever prefix of the batch
  had been put together.
\<close>

theorem write_batch_atomic:
  assumes "engine_laws E view pend" and "db_inv view d" and "\<not> db_closed d"
    and "db_WriteBatch E ops d = (d', err)"
  shows "case err of
      None \<Rightarrow> [] \<notin> kp_Key ` set ops \<and> view (db_pebble d') = apply_writes (map kv_write ops) (view (db_pebble d))
    | Some e \<Rightarrow> view (db_pebble d') = view (db_pebble d)"
  using WriteBatch_spec [OF assms(1,2,4)] by (auto simp: wrote_def split: option.split)

text \<open>Witness: a batch with an empty key in second place leaves the store empty.\<close>

theorem write_batch_atomic_witness:
  "let r = db_WriteBatch mem_platform [\<lparr>kp_Key = [1], kp_Value = [7], kp_Delete = False\<rparr>,
             \<lparr>kp_Key = [], kp_Value = [8], kp_Delete = False\<rparr>] example_db
   in snd r = Some ErrInvalidKey \<and> mem_view (db_pebble (fst r)) = Map.empty"
proof -
  let ?ops = "[\<lparr>kp_Key = [1], kp_Value = [7], kp_Delete = False\<rparr>, \<lparr>kp_Key = [], kp_Value = [8], kp_Delete = False\<rparr>]"
  obtain d' e where r: "db_WriteBatch mem_platform ?ops example_db = (d', e)" by fastforce
  have "db_inv mem_view example_db" using Open_inv [OF example_db_open] by blast
  moreover have "snd (db_WriteBatch mem_platform ?ops example_db) = Some ErrInvalidKey"
    by (simp add: db_WriteBatch_def db_writeBatch_def startOp_def opTimer_finish_def mem_platform_def)
  ultimately show ?thesis
    using write_batch_atomic [OF mem_engine_laws _ _ r] r by (simp add: mem_view_def)
qed

text \<open>
  C31. A prefix scan is exact: the loop over \<open>Next\<close> on an iterator made by \<open>Iterate\<close> visits exactly
  the stored entries whose key has the prefix, once each and in byte order, with their values.
\<close>

theorem prefix_scan_exact:
  assumes "iter_laws E view snap pos" and "db_Iterate E p d = Some it"
    and "length (sorted_entries (view (db_pebble d))) \<le> n"
  shows "it_collect E n it = filter (\<lambda>e. prefix p (fst e)) (sorted_entries (view (db_pebble d)))"
proof -
  let ?m = "view (db_pebble d)"
  note R = iterate_rest [OF assms(1,2)]
  have fin: "finite (dom ?m)" using iter_finite [OF assms(1)] .
  have "it_collect E n it = take n (takeWhile (\<lambda>e. prefix p (fst e)) (entries_from p ?m))"
    using R it_collect_eq [OF assms(1), of it n] by simp
  also have "takeWhile (\<lambda>e. prefix p (fst e)) (entries_from p ?m)
      = filter (\<lambda>e. prefix p (fst e)) (sorted_entries ?m)"
    using takeWhile_entries [OF fin, of p "\<lambda>_. True"] by simp
  also have "take n \<dots> = \<dots>"
    by (rule take_filter_all [OF assms(3)])
  finally show ?thesis .
qed

definition scan_db :: "mem_store DB" where
  "scan_db = with_pebble ([([1, 2], [10]), ([2], [20]), ([1], [30]), ([1, 1], [40])], []) example_db"

text \<open>Witness: four stored keys, three of them with the prefix.\<close>

theorem prefix_scan_exact_witness:
  "\<exists>it. db_Iterate mem_platform [1] scan_db = Some it
     \<and> it_collect mem_platform 4 it = [([1], [30]), ([1, 1], [40]), ([1, 2], [10])]"
proof -
  obtain it where it: "db_Iterate mem_platform [1] scan_db = Some it"
    by (simp add: db_Iterate_def scan_db_def mem_platform_def)
  have "sorted_entries (mem_view (db_pebble scan_db)) = mem_sorted (fst (db_pebble scan_db))"
    by (simp add: mem_sorted_entries mem_view_def)
  also have "\<dots> = [([1], [30]), ([1, 1], [40]), ([1, 2], [10]), ([2], [20])]"
    by (simp add: scan_db_def mem_sorted_def)
  finally show ?thesis using it prefix_scan_exact [OF mem_iter_laws it, of 4] by simp
qed

text \<open>
  Cursors resume exactly: after \<open>SeekAfter t\<close> on an iterator made by \<open>Iterate\<close>, the loop over
  \<open>Next\<close> visits exactly the entries of the prefix whose key is greater than \<open>t\<close>, whether or not
  \<open>t\<close> itself is stored.
\<close>

theorem seek_after_exact:
  assumes "iter_laws E view snap pos" and "db_Iterate E p d = Some it"
    and "length (sorted_entries (view (db_pebble d))) \<le> n"
  shows "it_collect E n (it_SeekAfter E t it)
    = filter (\<lambda>e. prefix p (fst e) \<and> t < fst e) (sorted_entries (view (db_pebble d)))"
proof -
  let ?m = "view (db_pebble d)" and ?it = "it_SeekAfter E t it"
  note R = iterate_rest [OF assms(1,2)]
  have fin: "finite (dom ?m)" using iter_finite [OF assms(1)] .
  have S: "it_rest snap pos ?it = filter (\<lambda>e. t < fst e) (entries_from p ?m) \<and> it_prefix ?it = p
      \<and> pos (it_iter ?it) \<noteq> None"
    using seek_after_rest [OF assms(1), of it t] entries_from_sorted [OF fin, of p] R by simp
  have "it_collect E n ?it = take n (takeWhile (\<lambda>e. prefix p (fst e)) (filter (\<lambda>e. t < fst e) (entries_from p ?m)))"
    using S it_collect_eq [OF assms(1), of ?it n] by simp
  also have "takeWhile (\<lambda>e. prefix p (fst e)) (filter (\<lambda>e. t < fst e) (entries_from p ?m))
      = filter (\<lambda>e. prefix p (fst e) \<and> t < fst e) (sorted_entries ?m)"
    by (rule takeWhile_entries [OF fin])
  also have "take n \<dots> = \<dots>"
    by (rule take_filter_all [OF assms(3)])
  finally show ?thesis .
qed

text \<open>Witness: the same store, resumed after a stored key.\<close>

theorem seek_after_exact_witness:
  "\<exists>it. db_Iterate mem_platform [1] scan_db = Some it
     \<and> it_collect mem_platform 4 (it_SeekAfter mem_platform [1] it) = [([1, 1], [40]), ([1, 2], [10])]"
proof -
  obtain it where it: "db_Iterate mem_platform [1] scan_db = Some it"
    by (simp add: db_Iterate_def scan_db_def mem_platform_def)
  have "sorted_entries (mem_view (db_pebble scan_db)) = mem_sorted (fst (db_pebble scan_db))"
    by (simp add: mem_sorted_entries mem_view_def)
  also have "\<dots> = [([1], [30]), ([1, 1], [40]), ([1, 2], [10]), ([2], [20])]"
    by (simp add: scan_db_def mem_sorted_def)
  finally show ?thesis using it seek_after_exact [OF mem_iter_laws it, of 4 "[1]"] by simp
qed

text \<open>
  C3. Acknowledged writes and only those: in every reachable state of the concurrent queue over the
  engine, the stored map is the initial map with the writes the consumer answered without an error,
  applied in the order they were taken from the channel; a refused, failed or pending write has
  not acted, and group commit changes none of this.
\<close>

theorem queue_writes_linearizable:
  assumes "engine_laws E view pend" and "wq_reach (pebblePutter E sync) cfg p0 \<sigma>"
  shows "view (q_store (ws_q \<sigma>)) = apply_writes (acked (ws_log \<sigma>)) (view p0)
    \<and> subseq (map fst (ws_log \<sigma>)) (ws_accepted \<sigma>)
    \<and> set (map (\<lambda>(w, e). (wo_Done w, e)) (ws_log \<sigma>)) \<subseteq> set (q_replies (ws_q \<sigma>))"
proof -
  have flow: "flow_ok \<sigma>" using wq_reach_ok [OF assms(2)] by (simp add: wq_ok_def)
  have "view (q_store (ws_q \<sigma>)) = apply_writes (acked (ws_log \<sigma>)) (view p0)"
    using pebble.reach_store_ok [OF assms(2), of view pend] assms(1) by (simp add: store_ok_def)
  moreover have "set_mset (mset (map (\<lambda>(w, e). (wo_Done w, e)) (ws_log \<sigma>)))
      \<subseteq> set_mset (mset (q_replies (ws_q \<sigma>)))"
    using flow unfolding flow_ok_def by (metis mset_subset_eq_add_left set_mset_mono)
  moreover have "subseq (map fst (filter snd (ws_taken \<sigma>))) (map fst (ws_taken \<sigma>))"
    by (intro subseq_map subseq_filter_left)
  then have "subseq (map fst (ws_log \<sigma>) @ hands (ws_cons \<sigma>)) (ws_accepted \<sigma>)"
    using flow by (simp add: flow_ok_def subseq_rev_drop_many)
  then have "subseq (map fst (ws_log \<sigma>)) (ws_accepted \<sigma>)"
    by (meson subseq_order.order_refl subseq_order.order_trans subseq_rev_drop_many)
  ultimately show ?thesis by simp
qed

definition linear_final :: "mem_store wq_sys" where
  "linear_final =
     (let q = (wq_New example_queue ([], []))\<lparr>q_store := ([([1], [7])], []), q_replies := [(0, None)]\<rparr>
      in (ws_init example_queue ([], []))\<lparr>ws_q := q, ws_accepted := [example_op],
            ws_taken := [(example_op, True)], ws_log := [(example_op, None)]\<rparr>)"

lemma linear_final_reach: "wq_reach (pebblePutter mem_platform True) example_queue ([], []) linear_final"
proof -
  let ?P = "pebblePutter mem_platform True"
  let ?s0 = "ws_init example_queue ([], []) :: mem_store wq_sys"
  let ?s1 = "?s0\<lparr>ws_q := (ws_q ?s0)\<lparr>q_queue := [example_op]\<rparr>, ws_accepted := [example_op]\<rparr>"
  let ?s2 = "?s1\<lparr>ws_q := (ws_q ?s1)\<lparr>q_queue := []\<rparr>, ws_taken := ws_taken ?s1 @ [(example_op, True)],
                 ws_cons := Collecting [example_op]\<rparr>"
  let ?s3 = "?s2\<lparr>ws_cons := Applying [example_op] False\<rparr>"
  let ?q = "(ws_q ?s3)\<lparr>q_store := ([([1], [7])], []), q_replies := [(0, None)]\<rparr>"
  let ?s4 = "?s3\<lparr>ws_q := ?q, ws_cons := Receiving, ws_log := ws_log ?s3 @ [(example_op, None)]\<rparr>"
  note ev = ws_init_def wq_New_def example_queue_def
  have "wq_step ?P ?s0 ?s1"
    using wq_step.submit [of ?s0 example_op "(ws_q ?s0)\<lparr>q_queue := [example_op]\<rparr>" None ?P]
    by (simp add: ev wq_Submit_def)
  moreover have "wq_work ?P ?s1 ?s2"
    using wq_work.recv [of ?s1 example_op "[]" ?P] by (simp add: ev)
  moreover have "wq_work ?P ?s2 ?s3"
    using wq_work.collect_empty [of ?s2 "[example_op]" ?P] by (simp add: ev)
  moreover have "run_batch ?P [example_op] (ws_q ?s3) = ?q"
    by (simp add: ev run_batch_def applyBatch_def pebblePutter_def apply_one_def put_one_def
        example_op_def send_done_def mem_platform_def)
  then have "wq_work ?P ?s3 ?s4"
    using wq_work.apply_batch [of ?s3 "[example_op]" False ?P ?q "[(example_op, None)]"]
    by (simp add: ev example_op_def)
  ultimately have "wq_reach ?P example_queue ([], []) ?s4"
    by (meson wq_reach.init wq_reach.step wq_step.work)
  moreover have "?s4 = linear_final"
    by (simp add: linear_final_def Let_def ws_init_def wq_New_def)
  ultimately show ?thesis by simp
qed

text \<open>Witness: one write submitted, taken, applied and answered.\<close>

theorem queue_writes_linearizable_witness:
  "mem_view (q_store (ws_q linear_final)) = [[1] \<mapsto> [7]]"
  using queue_writes_linearizable [OF mem_engine_laws linear_final_reach]
  by (simp add: linear_final_def Let_def ws_init_def acked_def op_write_def example_op_def mem_view_def)

text \<open>
  A read that overlaps a write can leave a stale value in the cache: when \<open>Get\<close> has read
  \<open>old\<close> from the engine, a \<open>Put\<close> of the same key then completes (and drops the key from the
  cache), and \<open>Get\<close> goes on to admit what it read, the cache holds \<open>old\<close> while the store holds the
  new value; later reads are answered from the cache, with \<open>old\<close>, until the entry expires.
\<close>

theorem overlapping_read_caches_stale_value:
  assumes "engine_laws E view pend" and "db_inv view d" and "\<not> db_closed d"
    and "db_Put E k new d = (d1, None)"
    and "db_hotCache d1 = Some c" and "snd (tl_Record c k)"
    and "tl_item_size k old \<le> tl_maxItemBytes c"
    and "\<not> time_Now E (db_tick d1) + tl_ttl c <s time_Now E (Suc (db_tick d1))"
  shows "let d2 = cache_admit E k old d1 in
    view (db_pebble d2) k = Some new \<and> snd (db_get E k d2) = Inr (Some old)"
proof -
  have put: "wrote view d d1 None (\<lambda>m. m(k \<mapsto> new))" "k \<noteq> []"
    using Put_spec [OF assms(1,2,4)] assms(3) by auto
  obtain c1 where c1: "tl_Record c k = (c1, True)" using assms(6) by (metis prod.collapse)
  have inv: "tl_inv c" using put(1) assms(3,5) by (auto simp: wrote_def db_inv_def cache_coherent_def)
  have c1': "tl_inv c1" "tl_ttl c1 = tl_ttl c" "tl_maxItemBytes c1 = tl_maxItemBytes c"
    using lfu.access_inv [OF inv, of k] c1 by (auto simp: tl_Record_def split: prod.splits)
  have d2: "cache_admit E k old d1 = d1\<lparr>db_tick := Suc (db_tick d1),
      db_hotCache := Some (tl_Set c1 k old (time_Now E (db_tick d1)))\<rparr>"
    using assms(5) c1 by (simp add: cache_admit_def db_now_def)
  obtain c2 where "tl_Get (tl_Set c1 k old (time_Now E (db_tick d1))) k (time_Now E (Suc (db_tick d1)))
      = (c2, Some old)"
    using get_after_set [OF c1'(1), of k old "time_Now E (db_tick d1)" "time_Now E (Suc (db_tick d1))"]
      assms(7,8) c1' by (metis prod.collapse)
  then have "snd (db_get E k (cache_admit E k old d1)) = Inr (Some old)"
    using put assms(3) by (simp add: d2 db_get_def db_now_def wrote_def)
  with put assms(3) show ?thesis by (simp add: wrote_def d2)
qed

text \<open>Witness: key 1, read before (so that it is admitted), holding 5 when the read starts, then set to 6.\<close>

definition race_db :: "mem_store DB" where
  "race_db = (with_pebble ([([1], [5])], []) example_db)
     \<lparr>db_hotCache := Some ((tl_New example_cfg)\<lparr>tl_sketch := cms_run newCountMinSketch [[1]]\<rparr>)\<rparr>"

theorem overlapping_read_caches_stale_value_witness:
  "let d1 = fst (db_Put mem_platform [1] [6] race_db); d2 = cache_admit mem_platform [1] [5] d1 in
     mem_view (db_pebble d2) [1] = Some [6] \<and> snd (db_get mem_platform [1] d2) = Inr (Some [5])"
proof -
  let ?c = "(tl_New example_cfg)\<lparr>tl_sketch := cms_run newCountMinSketch [[1]]\<rparr>"
  let ?q = "db_queue example_db"
  have q: "q_stopped ?q = False" "q_memExceeded ?q = False" "q_queue ?q = []" "q_cap ?q = 1024"
    "q_batchSize ?q = 0" "q_replies ?q = []" "db_chans example_db = 0" "db_tick example_db = 0"
    by (simp_all add: example_db_def db_Open_def example_db_cfg_def mem_platform_def Let_def
        applyDefaults_def wq_New_def)
  have r: "db_closed race_db = False" "db_metrics race_db = None" "db_hotCache race_db = Some ?c"
    "db_chans race_db = 0"
    by (simp_all add: race_db_def with_pebble_def q)
  have put: "snd (db_Put mem_platform [1] [6] race_db) = None
      \<and> db_hotCache (fst (db_Put mem_platform [1] [6] race_db)) = Some (tl_Delete ?c [1])
      \<and> db_tick (fst (db_Put mem_platform [1] [6] race_db)) = 0"
    by (simp add: db_Put_def startOp_def db_submit_def race_db_def with_pebble_def wq_Submit_def q
        wq_consume_def consumeLoop.simps put_one_def apply_one_def send_done_def pebblePutter_def
        mem_platform_def recv_done_def cache_delete_def opTimer_finish_def Let_def)
  have del: "tl_Delete ?c [1] = ?c" by (simp add: tl_Delete_def tl_New_def)
  have adm: "snd (tl_Record ?c [1])"
    by (rule record_admits [of _ "[[1]]"]) (simp_all add: tl_New_def example_cfg_def)
  have "tl_inv ?c" using tl_New_inv by (simp add: tl_inv_def)
  moreover have "tl_contents ?c = Map.empty" by (simp add: tl_contents_def tl_New_def fun_eq_iff)
  ultimately have inv: "db_inv mem_view race_db"
    using Open_inv [OF example_db_open, of mem_view] r
    by (simp add: db_inv_def cache_coherent_def queue_idle_def race_db_def)
  obtain d1 where d1: "db_Put mem_platform [1] [6] race_db = (d1, None)"
    using put by (metis prod.collapse)
  show ?thesis
    using overlapping_read_caches_stale_value [OF mem_engine_laws inv, of "[1]" "[6]" d1 ?c "[5]"]
      r d1 put del adm
    by (simp add: tl_item_size_def entryOverhead_def tl_New_def example_cfg_def mem_platform_def
        word_sless_alt)
qed

end
