(* ===== verification/Serial.thy ===== *)
theory Serial
  imports GoBytes Platform
begin

text \<open>
  The statements the generated serializers consist of (the template of
  \<open>internal/codegen/serializer.go\<close>): writes at a moving offset of a buffer of fixed size, and
  reads at a moving offset with a check before each.  A write step maps the buffer and the offset
  to the new ones, with \<open>None\<close> for a panic.  A read step returns the value and the new offset, or
  the error the generated code returns, or \<open>None\<close> for a panic.
\<close>

section \<open>Writes\<close>

type_synonym wstate = "bytes \<times> nat"
type_synonym wstep = "wstate \<Rightarrow> wstate option"

text \<open>\<open>binary.LittleEndian.PutUint64(buf[off:], v); off += 8\<close> and its relatives.\<close>

definition w_u64 :: "64 word \<Rightarrow> wstep" where
  "w_u64 v st = map_option (\<lambda>b. (b, snd st + 8)) (put_at (fst st) (snd st) (put_le64 v))"

definition w_u32 :: "nat \<Rightarrow> wstep" where
  "w_u32 n st = map_option (\<lambda>b. (b, snd st + 4)) (put_at (fst st) (snd st) (put_le32 (word_of_nat n)))"

definition w_copy :: "bytes \<Rightarrow> wstep" where
  "w_copy src st = map_option (\<lambda>b. (b, snd st + length src)) (copy_at (fst st) (snd st) src)"

definition w_byte :: "byte \<Rightarrow> wstep" where
  "w_byte v st = map_option (\<lambda>b. (b, snd st + 1)) (set_at (fst st) (snd st) v)"

definition w_seq :: "wstep \<Rightarrow> wstep \<Rightarrow> wstep" where
  "w_seq f g st = (case f st of None \<Rightarrow> None | Some st' \<Rightarrow> g st')"

definition w_all :: "wstep list \<Rightarrow> wstep" where
  "w_all fs = foldr w_seq fs Some"

text \<open>The blocks of the template for a varlen, a bool and a compressible varlen field.\<close>

definition w_varlen :: "bytes \<Rightarrow> wstep" where
  "w_varlen v = w_all [w_u32 (length v), w_copy v]"

definition w_bool :: "bool \<Rightarrow> wstep" where
  "w_bool b = w_byte (if b then 1 else 0)"

definition w_compress :: "('p, 'b, 'i) platform \<Rightarrow> bytes \<Rightarrow> wstep" where
  "w_compress E raw =
     (let compressed = zstd_Compress E raw in
      if length compressed < length raw
      then w_all [w_u32 (length compressed), w_u32 (length raw), w_copy compressed]
      else w_all [w_u32 (length raw), w_u32 (length raw), w_copy raw])"

text \<open>
  A step emits \<open>v\<close> when it writes \<open>v\<close> behind what was written before, into any buffer with room
  for it.
\<close>

definition emits :: "wstep \<Rightarrow> bytes \<Rightarrow> bool" where
  "emits f v \<longleftrightarrow> (\<forall>w z. length v \<le> length z \<longrightarrow>
     f (w @ z, length w) = Some ((w @ v) @ drop (length v) z, length (w @ v)))"

named_theorems emit_intros "what the write steps emit"

lemma emits_u64 [emit_intros]: "emits (w_u64 v) (put_le64 v)"
  by (simp add: emits_def w_u64_def put_at_append)

lemma emits_u32 [emit_intros]: "emits (w_u32 n) (put_le32 (word_of_nat n))"
  by (simp add: emits_def w_u32_def put_at_append)

lemma emits_copy [emit_intros]: "emits (w_copy v) v"
  by (simp add: emits_def w_copy_def copy_at_append)

lemma emits_byte [emit_intros]: "emits (w_byte b) [b]"
  by (simp add: emits_def w_byte_def set_at_append)

lemma emits_seq: "emits f v \<Longrightarrow> emits g u \<Longrightarrow> emits (w_seq f g) (v @ u)"
  unfolding emits_def
proof (intro allI impI)
  fix w z :: bytes
  assume f: "\<forall>w z. length v \<le> length z \<longrightarrow> f (w @ z, length w) = Some ((w @ v) @ drop (length v) z, length (w @ v))"
    and g: "\<forall>w z. length u \<le> length z \<longrightarrow> g (w @ z, length w) = Some ((w @ u) @ drop (length u) z, length (w @ u))"
    and len: "length (v @ u) \<le> length z"
  have "f (w @ z, length w) = Some ((w @ v) @ drop (length v) z, length (w @ v))" using f len by simp
  moreover have "g ((w @ v) @ drop (length v) z, length (w @ v))
      = Some (((w @ v) @ u) @ drop (length u) (drop (length v) z), length ((w @ v) @ u))"
    using g [THEN spec, THEN spec, of "drop (length v) z" "w @ v"]
      g [THEN spec, THEN spec, of "w @ v" "drop (length v) z"] len by simp
  ultimately show "w_seq f g (w @ z, length w) = Some ((w @ v @ u) @ drop (length (v @ u)) z, length (w @ v @ u))"
    by (simp add: w_seq_def add.commute)
qed

lemma emits_all: "list_all2 emits fs vs \<Longrightarrow> emits (w_all fs) (concat vs)"
proof (induction fs vs rule: list_all2_induct)
  case Nil
  then show ?case by (simp add: w_all_def emits_def)
next
  case (Cons f fs v vs)
  have "w_all (f # fs) = w_seq f (w_all fs)" by (simp add: w_all_def)
  with Cons emits_seq show ?case by simp
qed

definition varlen_bytes :: "bytes \<Rightarrow> bytes" where
  "varlen_bytes v = put_le32 (word_of_nat (length v)) @ v"

definition compress_bytes :: "('p, 'b, 'i) platform \<Rightarrow> bytes \<Rightarrow> bytes" where
  "compress_bytes E raw =
     (let c = zstd_Compress E raw; d = if length c < length raw then c else raw
      in put_le32 (word_of_nat (length d)) @ put_le32 (word_of_nat (length raw)) @ d)"

lemma emits_varlen [emit_intros]: "emits (w_varlen v) (varlen_bytes v)"
  using emits_all [of "[w_u32 (length v), w_copy v]" "[put_le32 (word_of_nat (length v)), v]"]
  by (simp add: w_varlen_def varlen_bytes_def emit_intros)

lemma emits_bool [emit_intros]: "emits (w_bool b) [if b then 1 else 0]"
  by (simp add: w_bool_def emits_byte)

lemma emits_compress [emit_intros]: "emits (w_compress E raw) (compress_bytes E raw)"
proof -
  have "emits (w_all [w_u32 (length d), w_u32 (length raw), w_copy d])
      (put_le32 (word_of_nat (length d)) @ put_le32 (word_of_nat (length raw)) @ d)" for d
    using emits_all [of "[w_u32 (length d), w_u32 (length raw), w_copy d]"
        "[put_le32 (word_of_nat (length d)), put_le32 (word_of_nat (length raw)), d]"]
    by (simp add: emit_intros)
  then show ?thesis by (simp add: w_compress_def compress_bytes_def Let_def)
qed

lemma length_varlen [simp]: "length (varlen_bytes v) = 4 + length v"
  by (simp add: varlen_bytes_def)

lemma length_compress: "length (compress_bytes E raw) \<le> 8 + length raw"
  by (simp add: compress_bytes_def Let_def)

section \<open>Reads\<close>

type_synonym 'a rstep = "bytes \<Rightarrow> nat \<Rightarrow> (go_error + 'a \<times> nat) option"

definition truncated :: "string \<Rightarrow> go_error" where
  "truncated field = ErrorMsg (''sqlitex: '' @ field @ '' truncated'')"

definition r_u64 :: "string \<Rightarrow> 64 word rstep" where
  "r_u64 field data off =
     (if length data < off + 8 then Some (Inl (truncated field))
      else do { d \<leftarrow> slice_from data off; v \<leftarrow> le64 d; Some (Inr (v, off + 8)) })"

definition r_bool :: "string \<Rightarrow> bool rstep" where
  "r_bool field data off =
     (if length data < off + 1 then Some (Inl (truncated field))
      else do { b \<leftarrow> byte_at data off; Some (Inr (b \<noteq> 0, off + 1)) })"

definition r_varlen :: "string \<Rightarrow> bytes rstep" where
  "r_varlen field data off =
     (if length data < off + 4 then Some (Inl (truncated (field @ '' length prefix'')))
      else do {
        d \<leftarrow> slice_from data off;
        n \<leftarrow> le32 d;
        (let vLen = unat n; off = off + 4 in
         if length data < off + vLen then Some (Inl (truncated (field @ '' data'')))
         else do { v \<leftarrow> slice data off (off + vLen); Some (Inr (v, off + vLen)) })
      })"

definition r_compress :: "('p, 'b, 'i) platform \<Rightarrow> string \<Rightarrow> bytes rstep" where
  "r_compress E field data off =
     (if length data < off + 8 then Some (Inl (truncated field))
      else do {
        d1 \<leftarrow> slice_from data off; n \<leftarrow> le32 d1;
        d2 \<leftarrow> slice_from data (off + 4); m \<leftarrow> le32 d2;
        (let vLen = unat n; origLen = unat m; off = off + 8 in
         if length data < off + vLen then Some (Inl (truncated (field @ '' data'')))
         else do {
           v \<leftarrow> slice data off (off + vLen);
           if vLen = origLen then Some (Inr (v, off + vLen))
           else (case zstd_Decompress E v of
                   Inl err \<Rightarrow> Some (Inl (ErrorWrap (''sqlitex: '' @ field @ '' zstd decompress: '') err))
                 | Inr dec \<Rightarrow> Some (Inr (dec, off + vLen)))
         })
      })"

text \<open>The next statement runs on what a read left, unless it returned.\<close>

definition r_then :: "'a rstep \<Rightarrow> ('a \<Rightarrow> 'b rstep) \<Rightarrow> 'b rstep" where
  "r_then f g data off =
     (case f data off of None \<Rightarrow> None | Some (Inl e) \<Rightarrow> Some (Inl e) | Some (Inr (v, off')) \<Rightarrow> g v data off')"

definition r_return :: "'a \<Rightarrow> 'a rstep" where
  "r_return v data off = Some (Inr (v, off))"

text \<open>
  A step parses the bytes \<open>v\<close> as \<open>x\<close> when it reads \<open>x\<close> wherever \<open>v\<close> stands in the data; it is safe
  when it never panics and leaves the offset within the data.
\<close>

definition parses :: "'a rstep \<Rightarrow> bytes \<Rightarrow> 'a \<Rightarrow> bool" where
  "parses f v x \<longleftrightarrow> (\<forall>w z. f (w @ v @ z) (length w) = Some (Inr (x, length (w @ v))))"

definition safe :: "'a rstep \<Rightarrow> bool" where
  "safe f \<longleftrightarrow> (\<forall>data off. off \<le> length data \<longrightarrow>
     (case f data off of None \<Rightarrow> False | Some (Inl e) \<Rightarrow> True | Some (Inr (x, off')) \<Rightarrow> off' \<le> length data))"

named_theorems parse_intros "what the read steps parse, and that they are safe"

lemma parses_u64 [parse_intros]: "parses (r_u64 field) (put_le64 v) v"
  by (simp add: parses_def r_u64_def slice_from_def)

lemma parses_bool [parse_intros]: "parses (r_bool field) [if b then 1 else 0] b"
  by (simp add: parses_def r_bool_def byte_at_def)

lemma parses_varlen [parse_intros]:
  "length v < 2 ^ 32 \<Longrightarrow> parses (r_varlen field) (varlen_bytes v) v"
  by (simp add: parses_def r_varlen_def varlen_bytes_def slice_from_def slice_def unat32_of_nat)

lemma parses_compress [parse_intros]:
  assumes "zstd_laws E" and "length raw < 2 ^ 32"
  shows "parses (r_compress E field) (compress_bytes E raw) raw"
proof -
  let ?c = "zstd_Compress E raw"
  let ?d = "if length ?c < length raw then ?c else raw"
  have d: "length ?d < 4294967296" "length raw < 4294967296" using assms(2) by auto
  have dec: "zstd_Decompress E ?c = Inr raw" using assms(1) by (simp add: zstd_laws_def)
  have "r_compress E field (w @ (put_le32 (word_of_nat (length ?d)) @ put_le32 (word_of_nat (length raw)) @ ?d) @ z)
      (length w) = Some (Inr (raw, length w + 8 + length ?d))" for w z
    using d dec
    by (auto simp: r_compress_def slice_from_def slice_def unat32_of_nat drop_append Let_def)
  then show ?thesis by (simp add: parses_def compress_bytes_def Let_def)
qed

lemma parses_then: "parses f v x \<Longrightarrow> parses (g x) u y \<Longrightarrow> parses (r_then f g) (v @ u) y"
  unfolding parses_def
proof (intro allI)
  fix w z :: bytes
  assume f: "\<forall>w z. f (w @ v @ z) (length w) = Some (Inr (x, length (w @ v)))"
    and g: "\<forall>w z. g x (w @ u @ z) (length w) = Some (Inr (y, length (w @ u)))"
  from f have "f (w @ v @ u @ z) (length w) = Some (Inr (x, length (w @ v)))" by blast
  moreover from g have "g x ((w @ v) @ u @ z) (length (w @ v)) = Some (Inr (y, length ((w @ v) @ u)))" by blast
  ultimately show "r_then f g (w @ (v @ u) @ z) (length w) = Some (Inr (y, length (w @ v @ u)))"
    by (simp add: r_then_def)
qed

lemma parses_return: "parses (r_return x) [] x"
  by (simp add: parses_def r_return_def)

lemma read64: "off + 8 \<le> length data \<Longrightarrow> \<exists>d v. slice_from data off = Some d \<and> le64 d = Some v"
  by (simp add: slice_from_def le64_def)

lemma read32: "off + 4 \<le> length data \<Longrightarrow> \<exists>d v. slice_from data off = Some d \<and> le32 d = Some v"
  by (simp add: slice_from_def le32_def)

lemma safe_u64 [parse_intros]: "safe (r_u64 field)"
  unfolding safe_def
proof (intro allI impI)
  fix data :: bytes and off
  assume "off \<le> length data"
  then show "case r_u64 field data off of None \<Rightarrow> False | Some (Inl e) \<Rightarrow> True
      | Some (Inr (x, off')) \<Rightarrow> off' \<le> length data"
    using read64 [of off data] by (cases "length data < off + 8") (auto simp: r_u64_def)
qed

lemma safe_bool [parse_intros]: "safe (r_bool field)"
  by (simp add: safe_def r_bool_def byte_at_def)

lemma safe_varlen [parse_intros]: "safe (r_varlen field)"
  unfolding safe_def
proof (intro allI impI)
  fix data :: bytes and off
  assume "off \<le> length data"
  then show "case r_varlen field data off of None \<Rightarrow> False | Some (Inl e) \<Rightarrow> True
      | Some (Inr (x, off')) \<Rightarrow> off' \<le> length data"
    using read32 [of off data]
    by (cases "length data < off + 4") (auto simp: r_varlen_def slice_def Let_def)
qed

lemma safe_compress [parse_intros]: "safe (r_compress E field)"
  unfolding safe_def
proof (intro allI impI)
  fix data :: bytes and off
  assume off: "off \<le> length data"
  show "case r_compress E field data off of None \<Rightarrow> False | Some (Inl e) \<Rightarrow> True
      | Some (Inr (x, off')) \<Rightarrow> off' \<le> length data"
  proof (cases "length data < off + 8")
    case True
    then show ?thesis by (simp add: r_compress_def)
  next
    case False
    then obtain d1 n d2 m where "slice_from data off = Some d1" "le32 d1 = Some n"
      "slice_from data (off + 4) = Some d2" "le32 d2 = Some m"
      using read32 [of off data] read32 [of "off + 4" data] by auto
    with False show ?thesis
      by (simp add: r_compress_def slice_def Let_def split: sum.split)
  qed
qed

lemma safe_alt:
  "safe f \<longleftrightarrow> (\<forall>data off. off \<le> length data \<longrightarrow>
     (\<exists>e. f data off = Some (Inl e)) \<or> (\<exists>x off'. f data off = Some (Inr (x, off')) \<and> off' \<le> length data))"
  unfolding safe_def by (intro arg_cong [where f = All] ext) (auto split: option.splits sum.splits)

lemma safe_then:
  assumes "safe f" and "\<And>x. safe (g x)"
  shows "safe (r_then f g)"
  unfolding safe_alt
proof (intro allI impI)
  fix data :: bytes and off
  assume "off \<le> length data"
  with assms(1) consider e where "f data off = Some (Inl e)"
    | x off' where "f data off = Some (Inr (x, off'))" "off' \<le> length data"
    unfolding safe_alt by blast
  then show "(\<exists>e. r_then f g data off = Some (Inl e))
      \<or> (\<exists>x off'. r_then f g data off = Some (Inr (x, off')) \<and> off' \<le> length data)"
  proof cases
    case 1
    then show ?thesis by (simp add: r_then_def)
  next
    case 2
    with assms(2) [of x] show ?thesis unfolding safe_alt by (simp add: r_then_def)
  qed
qed

lemma safe_return [parse_intros]: "safe (r_return x)"
  by (simp add: safe_def r_return_def)

end
