(* ===== verification/Models.thy ===== *)
theory Models
  imports Serial Encoding
begin

text \<open>
  The generated code of \<open>internal/testmodels/User_sqlitex.go\<close>, data and serializers: \<open>User\<close> (a
  unique index, a normal index and a compressed field) and \<open>Session\<close> (a normal index and a
  record-level time to live, kept in an 8-byte header of the value).  A Go string is a byte
  sequence; the numbers in error messages are left out.
\<close>

section \<open>Users\<close>

record User =
  u_Id :: "64 word"
  u_Name :: bytes
  u_Email :: bytes
  u_CreatedAt :: "64 word"
  u_Active :: bool
  u_Bio :: bytes

definition user_Size :: "User \<Rightarrow> nat" where
  "user_Size m = 25 + (4 + length (u_Name m)) + (4 + length (u_Email m)) + (4 + length (u_Bio m))"

definition user_Serialize :: "('p, 'b, 'i) platform \<Rightarrow> User \<Rightarrow> bytes option" where
  "user_Serialize E m =
     map_option fst (w_all
       [w_u64 (u_Id m), w_varlen (u_Name m), w_varlen (u_Email m), w_u64 (u_CreatedAt m),
        w_bool (u_Active m), w_compress E (u_Bio m)]
       (replicate (user_Size m) 0, 0))"

definition DeserializeUser :: "('p, 'b, 'i) platform \<Rightarrow> bytes \<Rightarrow> (go_error + User) option" where
  "DeserializeUser E data =
     (if length data < 25 then Some (Inl (ErrorMsg ''sqlitex: User data too short''))
      else map_option (map_sum id fst)
        ((r_then (r_u64 ''User.Id'') (\<lambda>i.
          r_then (r_varlen ''User.Name'') (\<lambda>n.
          r_then (r_varlen ''User.Email'') (\<lambda>e.
          r_then (r_u64 ''User.CreatedAt'') (\<lambda>c.
          r_then (r_bool ''User.Active'') (\<lambda>a.
          r_then (r_compress E ''User.Bio'') (\<lambda>b.
          r_return \<lparr>u_Id = i, u_Name = n, u_Email = e, u_CreatedAt = c, u_Active = a, u_Bio = b\<rparr>))))))
         ) data 0))"

section \<open>Sessions\<close>

record Session =
  s_Id :: "64 word"
  s_Token :: bytes
  s_UserId :: bytes
  s_Active :: bool

definition session_Size :: "Session \<Rightarrow> nat" where
  "session_Size m = 9 + 8 + (4 + length (s_Token m)) + (4 + length (s_UserId m))"

definition session_SerializeWithExpiry :: "64 word \<Rightarrow> Session \<Rightarrow> bytes option" where
  "session_SerializeWithExpiry expiresAt m =
     map_option fst (w_all
       [w_u64 expiresAt, w_u64 (s_Id m), w_varlen (s_Token m), w_varlen (s_UserId m),
        w_bool (s_Active m)]
       (replicate (session_Size m) 0, 0))"

definition session_Serialize :: "Session \<Rightarrow> bytes option" where
  "session_Serialize m = session_SerializeWithExpiry 0 m"

definition DeserializeSessionMeta :: "bytes \<Rightarrow> (go_error + Session \<times> 64 word) option" where
  "DeserializeSessionMeta data =
     (if length data < 9 + 8 then Some (Inl (ErrorMsg ''sqlitex: Session data too short''))
      else
        (case le64 data of
           None \<Rightarrow> None
         | Some expiresAt \<Rightarrow> map_option (map_sum id (\<lambda>r. (fst r, expiresAt)))
            ((r_then (r_u64 ''Session.Id'') (\<lambda>i.
              r_then (r_varlen ''Session.Token'') (\<lambda>t.
              r_then (r_varlen ''Session.UserId'') (\<lambda>u.
              r_then (r_bool ''Session.Active'') (\<lambda>a.
              r_return \<lparr>s_Id = i, s_Token = t, s_UserId = u, s_Active = a\<rparr>))))
             ) data 8)))"

definition DeserializeSession :: "bytes \<Rightarrow> (go_error + Session) option" where
  "DeserializeSession data = map_option (map_sum id fst) (DeserializeSessionMeta data)"

section \<open>The bytes written\<close>

definition user_bytes :: "('p, 'b, 'i) platform \<Rightarrow> User \<Rightarrow> bytes" where
  "user_bytes E m =
     concat [put_le64 (u_Id m), varlen_bytes (u_Name m), varlen_bytes (u_Email m),
       put_le64 (u_CreatedAt m), [if u_Active m then 1 else 0], compress_bytes E (u_Bio m)]"

definition session_bytes :: "64 word \<Rightarrow> Session \<Rightarrow> bytes" where
  "session_bytes expiresAt m =
     concat [put_le64 expiresAt, put_le64 (s_Id m), varlen_bytes (s_Token m),
       varlen_bytes (s_UserId m), [if s_Active m then 1 else 0]]"

lemma emits_run:
  "emits f v \<Longrightarrow> length v \<le> n \<Longrightarrow>
    map_option fst (f (replicate n 0, 0)) = Some (v @ replicate (n - length v) 0)"
  unfolding emits_def by (drule spec [of _ "[]"], drule spec [of _ "replicate n 0"]) simp

text \<open>The size of a user over-estimates; what is left of the buffer stays zero.\<close>

lemma user_Serialize_eq:
  "user_Serialize E m = Some (user_bytes E m @ replicate (user_Size m - length (user_bytes E m)) 0)"
proof -
  have "length (user_bytes E m) \<le> user_Size m"
    using length_compress [of E "u_Bio m"] by (simp add: user_bytes_def user_Size_def)
  moreover have "emits (w_all
       [w_u64 (u_Id m), w_varlen (u_Name m), w_varlen (u_Email m), w_u64 (u_CreatedAt m),
        w_bool (u_Active m), w_compress E (u_Bio m)]) (user_bytes E m)"
    unfolding user_bytes_def by (rule emits_all) (simp add: emit_intros)
  ultimately show ?thesis by (simp add: user_Serialize_def emits_run)
qed

lemma session_Serialize_eq: "session_SerializeWithExpiry t m = Some (session_bytes t m)"
proof -
  have len: "length (session_bytes t m) = session_Size m"
    by (simp add: session_bytes_def session_Size_def)
  have "emits (w_all [w_u64 t, w_u64 (s_Id m), w_varlen (s_Token m), w_varlen (s_UserId m),
        w_bool (s_Active m)]) (session_bytes t m)"
    unfolding session_bytes_def by (rule emits_all) (simp add: emit_intros)
  from emits_run [OF this, of "session_Size m"] len show ?thesis
    by (simp add: session_SerializeWithExpiry_def)
qed

lemma parses_run: "parses f v x \<Longrightarrow> f (w @ v @ z) (length w) = Some (Inr (x, length (w @ v)))"
  by (simp add: parses_def)

text \<open>Lengths must fit their 32-bit prefix.\<close>

definition user_fits :: "User \<Rightarrow> bool" where
  "user_fits m \<longleftrightarrow> length (u_Name m) < 2 ^ 32 \<and> length (u_Email m) < 2 ^ 32 \<and> length (u_Bio m) < 2 ^ 32"

definition session_fits :: "Session \<Rightarrow> bool" where
  "session_fits m \<longleftrightarrow> length (s_Token m) < 2 ^ 32 \<and> length (s_UserId m) < 2 ^ 32"

lemma DeserializeUser_bytes:
  assumes "zstd_laws E" and "user_fits m"
  shows "DeserializeUser E (user_bytes E m @ z) = Some (Inr m)"
proof -
  have fit: "parses (r_varlen f) (varlen_bytes (u_Name m)) (u_Name m)"
    "parses (r_varlen f) (varlen_bytes (u_Email m)) (u_Email m)"
    "parses (r_compress E f) (compress_bytes E (u_Bio m)) (u_Bio m)" for f
    using assms by (simp_all add: user_fits_def parses_varlen parses_compress)
  let ?v = "put_le64 (u_Id m) @ varlen_bytes (u_Name m) @ varlen_bytes (u_Email m)
      @ put_le64 (u_CreatedAt m) @ [if u_Active m then 1 else 0] @ compress_bytes E (u_Bio m) @ []"
  have "parses (r_then (r_u64 ''User.Id'') (\<lambda>i.
          r_then (r_varlen ''User.Name'') (\<lambda>n.
          r_then (r_varlen ''User.Email'') (\<lambda>e.
          r_then (r_u64 ''User.CreatedAt'') (\<lambda>c.
          r_then (r_bool ''User.Active'') (\<lambda>a.
          r_then (r_compress E ''User.Bio'') (\<lambda>b.
          r_return \<lparr>u_Id = i, u_Name = n, u_Email = e, u_CreatedAt = c, u_Active = a, u_Bio = b\<rparr>)))))))
      ?v \<lparr>u_Id = u_Id m, u_Name = u_Name m, u_Email = u_Email m, u_CreatedAt = u_CreatedAt m,
          u_Active = u_Active m, u_Bio = u_Bio m\<rparr>"
    by (rule parses_then parses_return parses_u64 parses_bool fit)+
  from parses_run [OF this, of "[]" z] have "(r_then (r_u64 ''User.Id'') (\<lambda>i.
          r_then (r_varlen ''User.Name'') (\<lambda>n.
          r_then (r_varlen ''User.Email'') (\<lambda>e.
          r_then (r_u64 ''User.CreatedAt'') (\<lambda>c.
          r_then (r_bool ''User.Active'') (\<lambda>a.
          r_then (r_compress E ''User.Bio'') (\<lambda>b.
          r_return \<lparr>u_Id = i, u_Name = n, u_Email = e, u_CreatedAt = c, u_Active = a, u_Bio = b\<rparr>)))))))
      (user_bytes E m @ z) 0 = Some (Inr (m, length (user_bytes E m)))"
    by (simp add: user_bytes_def)
  moreover have "25 \<le> length (user_bytes E m @ z)"
    by (simp add: user_bytes_def compress_bytes_def Let_def)
  ultimately show ?thesis by (simp add: DeserializeUser_def)
qed

lemma DeserializeSessionMeta_bytes:
  assumes "session_fits m"
  shows "DeserializeSessionMeta (session_bytes t m @ z) = Some (Inr (m, t))"
proof -
  have fit: "parses (r_varlen f) (varlen_bytes (s_Token m)) (s_Token m)"
    "parses (r_varlen f) (varlen_bytes (s_UserId m)) (s_UserId m)" for f
    using assms by (simp_all add: session_fits_def parses_varlen)
  let ?v = "put_le64 (s_Id m) @ varlen_bytes (s_Token m) @ varlen_bytes (s_UserId m)
      @ [if s_Active m then 1 else 0] @ []"
  let ?f = "r_then (r_u64 ''Session.Id'') (\<lambda>i. r_then (r_varlen ''Session.Token'') (\<lambda>t.
          r_then (r_varlen ''Session.UserId'') (\<lambda>u. r_then (r_bool ''Session.Active'') (\<lambda>a.
          r_return \<lparr>s_Id = i, s_Token = t, s_UserId = u, s_Active = a\<rparr>))))"
  have "parses ?f ?v \<lparr>s_Id = s_Id m, s_Token = s_Token m, s_UserId = s_UserId m, s_Active = s_Active m\<rparr>"
    by (rule parses_then parses_return parses_u64 parses_bool fit)+
  from parses_run [OF this, of "put_le64 t" z]
  have "?f (session_bytes t m @ z) 8 = Some (Inr (m, length (session_bytes t m)))"
    by (simp add: session_bytes_def)
  moreover have "le64 (session_bytes t m @ z) = Some t" by (simp add: session_bytes_def)
  moreover have "17 \<le> length (session_bytes t m @ z)" by (simp add: session_bytes_def)
  ultimately show ?thesis by (simp add: DeserializeSessionMeta_def)
qed

lemma safe_run: "safe f \<Longrightarrow> off \<le> length data \<Longrightarrow> f data off \<noteq> None"
  unfolding safe_alt by fastforce

section \<open>Properties\<close>

text \<open>
  Users round-trip: for fields whose lengths fit 32 bits, \<open>Serialize\<close> does not panic and
  \<open>Deserialize\<close> of its result (trailing zero padding included) is the user, compressed field
  and all.
\<close>

theorem user_roundtrip:
  assumes "zstd_laws E" and "user_fits m"
  shows "\<exists>data. user_Serialize E m = Some data \<and> length data = user_Size m
    \<and> DeserializeUser E data = Some (Inr m)"
proof -
  have "length (user_bytes E m) \<le> user_Size m"
    using length_compress [of E "u_Bio m"] by (simp add: user_bytes_def user_Size_def)
  then show ?thesis using user_Serialize_eq [of E m] DeserializeUser_bytes [OF assms] by simp
qed

definition example_user :: User where
  "example_user = \<lparr>u_Id = 7, u_Name = [65], u_Email = [66, 67], u_CreatedAt = - 1, u_Active = True,
                   u_Bio = [1, 2, 3]\<rparr>"

text \<open>Witness: a concrete user, on the concrete platform.\<close>

theorem user_roundtrip_witness:
  "\<exists>data. user_Serialize mem_platform example_user = Some data \<and> length data = 43
    \<and> DeserializeUser mem_platform data = Some (Inr example_user)"
  using user_roundtrip [OF mem_zstd_laws, of example_user]
  by (simp add: user_fits_def example_user_def user_Size_def)

text \<open>
  Sessions round-trip with their expiry: the header holds the expiry time (0 from plain
  \<open>Serialize\<close>), and the record behind it is the session.
\<close>

theorem session_roundtrip:
  assumes "session_fits m"
  shows "\<exists>data. session_SerializeWithExpiry t m = Some data
    \<and> DeserializeSessionMeta data = Some (Inr (m, t)) \<and> DeserializeSession data = Some (Inr m)"
  using session_Serialize_eq [of t m] DeserializeSessionMeta_bytes [OF assms, of t "[]"]
  by (simp add: DeserializeSession_def)

text \<open>Witness: a session that expires at time 5.\<close>

theorem session_roundtrip_witness:
  "\<exists>data. session_SerializeWithExpiry 5 \<lparr>s_Id = 1, s_Token = [9], s_UserId = [], s_Active = False\<rparr> = Some data
    \<and> DeserializeSessionMeta data = Some (Inr (\<lparr>s_Id = 1, s_Token = [9], s_UserId = [], s_Active = False\<rparr>, 5))"
  using session_roundtrip [of "\<lparr>s_Id = 1, s_Token = [9], s_UserId = [], s_Active = False\<rparr>" 5]
  by (auto simp: session_fits_def)

text \<open>
  The deserializers never panic: on every byte string, however damaged, they return a record
  or an error; no slice or index is ever out of range.
\<close>

theorem deserializers_never_panic:
  "DeserializeUser E data \<noteq> None \<and> DeserializeSessionMeta data \<noteq> None \<and> DeserializeSession data \<noteq> None"
proof -
  have u: "DeserializeUser E data \<noteq> None"
  proof (cases "length data < 25")
    case False
    have "(r_then (r_u64 ''User.Id'') (\<lambda>i.
          r_then (r_varlen ''User.Name'') (\<lambda>n.
          r_then (r_varlen ''User.Email'') (\<lambda>e.
          r_then (r_u64 ''User.CreatedAt'') (\<lambda>c.
          r_then (r_bool ''User.Active'') (\<lambda>a.
          r_then (r_compress E ''User.Bio'') (\<lambda>b.
          r_return \<lparr>u_Id = i, u_Name = n, u_Email = e, u_CreatedAt = c, u_Active = a, u_Bio = b\<rparr>)))))))
        data 0 \<noteq> None"
      by (rule safe_run) (intro safe_then parse_intros, simp)
    with False show ?thesis by (simp add: DeserializeUser_def)
  qed (simp add: DeserializeUser_def)
  have s: "DeserializeSessionMeta data \<noteq> None"
  proof (cases "length data < 9 + 8")
    case False
    have "(r_then (r_u64 ''Session.Id'') (\<lambda>i. r_then (r_varlen ''Session.Token'') (\<lambda>t.
          r_then (r_varlen ''Session.UserId'') (\<lambda>u. r_then (r_bool ''Session.Active'') (\<lambda>a.
          r_return \<lparr>s_Id = i, s_Token = t, s_UserId = u, s_Active = a\<rparr>))))) data 8 \<noteq> None"
      by (rule safe_run) (use False in \<open>intro safe_then parse_intros, simp\<close>)
    moreover obtain v where "le64 data = Some v" using False by (auto simp: le64_def)
    ultimately show ?thesis using False by (simp add: DeserializeSessionMeta_def)
  qed (simp add: DeserializeSessionMeta_def)
  from u s show ?thesis by (simp add: DeserializeSession_def)
qed

end
