(* ===== verification/Table.thy ===== *)
theory Table
  imports Encoding DB
begin

text \<open>
  What the generated stores keep true of the stored map, once for all tables: each data key of the
  table holds a decodable record under its own primary key, and the index keys of the table are
  exactly those of its records, each holding the primary key of its record.  The locale
  \<open>indexed_table\<close> is the interface between a table's layout and the stores: from the laws of
  the layout follow the effects of the batches the stores write.  The theory ends with the loop
  over an iterator that queries and \<open>PurgeExpired\<close> run.
\<close>

section \<open>Consistency of a table with its indexes\<close>

text \<open>
  \<open>tid\<close> the table's hash, \<open>pk\<close> the encoding of primary keys, \<open>keys\<close> the index keys of a record,
  \<open>dec\<close> the decoder of data rows, \<open>rid\<close> the primary key of a record.
\<close>

definition index_space :: "64 word \<Rightarrow> bytes \<Rightarrow> bool" where
  "index_space tid k \<longleftrightarrow> (\<exists>f v us. k = EncodeIndexPrefix tid f v @ us)"

definition table_rows :: "64 word \<Rightarrow> ('k \<Rightarrow> bytes) \<Rightarrow> (bytes \<Rightarrow> 'r option) \<Rightarrow> kv_map \<Rightarrow> 'k \<rightharpoonup> 'r" where
  "table_rows tid pk dec m i = Option.bind (m (EncodeKey tid (pk i))) dec"

definition table_ok ::
  "64 word \<Rightarrow> ('k \<Rightarrow> bytes) \<Rightarrow> ('k \<Rightarrow> 'r \<Rightarrow> bytes list) \<Rightarrow> (bytes \<Rightarrow> 'r option) \<Rightarrow> ('r \<Rightarrow> 'k) \<Rightarrow> kv_map \<Rightarrow> bool" where
  "table_ok tid pk keys dec rid m \<longleftrightarrow>
     (\<forall>b v. m (EncodeKey tid b) = Some v \<longrightarrow> (\<exists>r. dec v = Some r \<and> b = pk (rid r)))
   \<and> (\<forall>k. index_space tid k \<longrightarrow> (\<forall>v. m k = Some v \<longleftrightarrow>
        (\<exists>i r. table_rows tid pk dec m i = Some r \<and> k \<in> set (keys i r) \<and> v = pk i)))"

text \<open>The batches of the stores.\<close>

definition index_dels :: "('k \<Rightarrow> 'r \<Rightarrow> bytes list) \<Rightarrow> 'k \<Rightarrow> 'r option \<Rightarrow> (bytes \<times> bytes option) list" where
  "index_dels keys i old = (case old of None \<Rightarrow> [] | Some r \<Rightarrow> map (\<lambda>k. (k, None)) (keys i r))"

definition save_writes ::
  "64 word \<Rightarrow> ('k \<Rightarrow> bytes) \<Rightarrow> ('k \<Rightarrow> 'r \<Rightarrow> bytes list) \<Rightarrow> 'k \<Rightarrow> bytes \<Rightarrow> 'r option \<Rightarrow> 'r \<Rightarrow> (bytes \<times> bytes option) list" where
  "save_writes tid pk keys i v old r =
     (EncodeKey tid (pk i), Some v) # index_dels keys i old @ map (\<lambda>k. (k, Some (pk i))) (keys i r)"

definition delete_writes ::
  "64 word \<Rightarrow> ('k \<Rightarrow> bytes) \<Rightarrow> ('k \<Rightarrow> 'r \<Rightarrow> bytes list) \<Rightarrow> 'k \<Rightarrow> 'r option \<Rightarrow> (bytes \<times> bytes option) list" where
  "delete_writes tid pk keys i old = (EncodeKey tid (pk i), None) # index_dels keys i old"

lemma apply_dels: "apply_writes (map (\<lambda>k. (k, None)) ks) m k = (if k \<in> set ks then None else m k)"
  by (induction ks arbitrary: m) auto

lemma apply_puts: "apply_writes (map (\<lambda>k. (k, Some v)) ks) m k = (if k \<in> set ks then Some v else m k)"
  by (induction ks arbitrary: m) auto

lemma apply_index_dels:
  "apply_writes (index_dels keys i old) m k =
     (if \<exists>r. old = Some r \<and> k \<in> set (keys i r) then None else m k)"
  by (cases old) (auto simp: index_dels_def apply_dels)

locale indexed_table =
  fixes tid :: "64 word"
    and pk :: "'k \<Rightarrow> bytes"
    and keys :: "'k \<Rightarrow> 'r \<Rightarrow> bytes list"
    and dec :: "bytes \<Rightarrow> 'r option"
    and rid :: "'r \<Rightarrow> 'k"
  assumes pk_inj: "pk i = pk j \<Longrightarrow> i = j"
    and keys_space: "k \<in> set (keys i r) \<Longrightarrow> index_space tid k"
begin

lemma data_not_space: "\<not> index_space tid (EncodeKey tid' b)"
  by (auto simp: index_space_def key_simps)

lemma data_not_keys: "EncodeKey tid' b \<notin> set (keys i r)"
  using data_not_space keys_space by blast

lemma rows_rid: "table_ok tid pk keys dec rid m \<Longrightarrow> table_rows tid pk dec m i = Some r \<Longrightarrow> rid r = i"
  using pk_inj by (fastforce simp: table_ok_def table_rows_def)

lemma ok_index:
  "table_ok tid pk keys dec rid m \<Longrightarrow> index_space tid k \<Longrightarrow>
    m k = Some v \<longleftrightarrow> (\<exists>i r. table_rows tid pk dec m i = Some r \<and> k \<in> set (keys i r) \<and> v = pk i)"
  by (simp add: table_ok_def)

lemma ok_data:
  "table_ok tid pk keys dec rid m \<Longrightarrow> m (EncodeKey tid b) = Some v \<Longrightarrow>
    \<exists>r. dec v = Some r \<and> b = pk (rid r) \<and> table_rows tid pk dec m (rid r) = Some r"
  by (fastforce simp: table_ok_def table_rows_def)

lemma save_at:
  "apply_writes (save_writes tid pk keys i v old r) m k =
     (if k \<in> set (keys i r) then Some (pk i)
      else if \<exists>o'. old = Some o' \<and> k \<in> set (keys i o') then None
      else if k = EncodeKey tid (pk i) then Some v else m k)"
  using data_not_keys [of tid "pk i"]
  by (cases old) (auto simp: save_writes_def apply_index_dels apply_puts)

lemma delete_at:
  "apply_writes (delete_writes tid pk keys i old) m k =
     (if \<exists>o'. old = Some o' \<and> k \<in> set (keys i o') then None
      else if k = EncodeKey tid (pk i) then None else m k)"
  using data_not_keys [of tid "pk i"] by (cases old) (auto simp: delete_writes_def apply_index_dels)

lemma save_rows:
  assumes "dec v = Some r"
  shows "table_rows tid pk dec (apply_writes (save_writes tid pk keys i v old r) m)
    = (table_rows tid pk dec m)(i \<mapsto> r)"
proof
  fix j
  show "table_rows tid pk dec (apply_writes (save_writes tid pk keys i v old r) m) j
      = ((table_rows tid pk dec m)(i \<mapsto> r)) j"
    using assms pk_inj [of j i] by (auto simp: table_rows_def save_at data_not_keys key_simps)
qed

lemma delete_rows:
  "table_rows tid pk dec (apply_writes (delete_writes tid pk keys i old) m)
    = (table_rows tid pk dec m)(i := None)"
proof
  fix j
  show "table_rows tid pk dec (apply_writes (delete_writes tid pk keys i old) m) j
      = ((table_rows tid pk dec m)(i := None)) j"
    using pk_inj [of j i] by (auto simp: table_rows_def delete_at data_not_keys key_simps)
qed

text \<open>
  Saving a record keeps the table consistent when no index key of the new record is held by
  another record; deleting one always does.
\<close>

lemma save_ok:
  assumes ok: "table_ok tid pk keys dec rid m" and old: "old = table_rows tid pk dec m i"
    and dec: "dec v = Some r" "rid r = i"
    and free: "\<And>k. k \<in> set (keys i r) \<Longrightarrow> m k = None \<or> m k = Some (pk i)"
  shows "table_ok tid pk keys dec rid (apply_writes (save_writes tid pk keys i v old r) m)"
proof -
  let ?m = "apply_writes (save_writes tid pk keys i v old r) m"
  let ?R = "(table_rows tid pk dec m)(i \<mapsto> r)"
  note rows = save_rows [OF dec(1), of i old m]
  have data: "\<exists>q. dec w = Some q \<and> b = pk (rid q)" if "?m (EncodeKey tid b) = Some w" for b w
    using that dec ok_data [OF ok, of b w]
    by (auto simp: save_at data_not_keys key_simps split: if_splits)
  have index: "?m k = Some w \<longleftrightarrow> (\<exists>j q. ?R j = Some q \<and> k \<in> set (keys j q) \<and> w = pk j)"
    if sp: "index_space tid k" for k w
  proof -
    have k: "k \<noteq> EncodeKey tid b" for b using sp data_not_space by blast
    have other: "j = i" if "k \<in> set (keys i r)" "table_rows tid pk dec m j = Some q" "k \<in> set (keys j q)" for j q
      using ok_index [OF ok sp, of "pk j"] free that pk_inj by fastforce
    have old_only: "j = i" if "old = Some o'" "k \<in> set (keys i o')"
      "table_rows tid pk dec m j = Some q" "k \<in> set (keys j q)" for j q o'
    proof -
      have "m k = Some (pk j)" using ok_index [OF ok sp, of "pk j"] that by blast
      moreover have "m k = Some (pk i)" using ok_index [OF ok sp, of "pk i"] that old by metis
      ultimately show ?thesis using pk_inj by simp
    qed
    show ?thesis
    proof (cases "k \<in> set (keys i r)")
      case True
      with other show ?thesis by (auto simp: save_at split: if_splits)
    next
      case new: False
      show ?thesis
      proof (cases "\<exists>o'. old = Some o' \<and> k \<in> set (keys i o')")
        case True
        with new old_only show ?thesis by (auto simp: save_at split: if_splits)
      next
        case False
        then have "?m k = m k" using new k by (auto simp: save_at)
        with False new old ok_index [OF ok sp, of w] show ?thesis by (auto split: if_splits)
      qed
    qed
  qed
  show ?thesis unfolding table_ok_def rows using data index by blast
qed

lemma delete_ok:
  assumes ok: "table_ok tid pk keys dec rid m" and old: "old = table_rows tid pk dec m i"
  shows "table_ok tid pk keys dec rid (apply_writes (delete_writes tid pk keys i old) m)"
proof -
  let ?m = "apply_writes (delete_writes tid pk keys i old) m"
  let ?R = "(table_rows tid pk dec m)(i := None)"
  note rows = delete_rows [of i old m]
  have data: "\<exists>q. dec w = Some q \<and> b = pk (rid q)" if "?m (EncodeKey tid b) = Some w" for b w
    using that ok_data [OF ok, of b w] by (auto simp: delete_at data_not_keys split: if_splits)
  have index: "?m k = Some w \<longleftrightarrow> (\<exists>j q. ?R j = Some q \<and> k \<in> set (keys j q) \<and> w = pk j)"
    if sp: "index_space tid k" for k w
  proof -
    have k: "k \<noteq> EncodeKey tid b" for b using sp data_not_space by blast
    have old_only: "j = i" if "old = Some o'" "k \<in> set (keys i o')"
      "table_rows tid pk dec m j = Some q" "k \<in> set (keys j q)" for j q o'
    proof -
      have "m k = Some (pk j)" using ok_index [OF ok sp, of "pk j"] that by blast
      moreover have "m k = Some (pk i)" using ok_index [OF ok sp, of "pk i"] that old by metis
      ultimately show ?thesis using pk_inj by simp
    qed
    show ?thesis
    proof (cases "\<exists>o'. old = Some o' \<and> k \<in> set (keys i o')")
      case True
      with old_only show ?thesis by (auto simp: delete_at split: if_splits)
    next
      case False
      then have "?m k = m k" using k by (auto simp: delete_at)
      with False old ok_index [OF ok sp, of w] show ?thesis by (auto split: if_splits)
    qed
  qed
  show ?thesis unfolding table_ok_def rows using data index by blast
qed

text \<open>Another table's keys are not touched.\<close>

lemma save_frame:
  "\<not> index_space tid k \<Longrightarrow> (\<And>b. k \<noteq> EncodeKey tid b) \<Longrightarrow>
    apply_writes (save_writes tid pk keys i v old r) m k = m k"
  using keys_space by (auto simp: save_at)

lemma delete_frame:
  "\<not> index_space tid k \<Longrightarrow> (\<And>b. k \<noteq> EncodeKey tid b) \<Longrightarrow>
    apply_writes (delete_writes tid pk keys i old) m k = m k"
  using keys_space by (auto simp: delete_at)

end

lemma index_space_unique [simp]: "index_space tid (EncodeUniqueIndexKey tid f v)"
  unfolding index_space_def EncodeUniqueIndexKey_def by (metis append_Nil2)

lemma index_space_key [simp]: "index_space tid (EncodeIndexKey tid f v b)"
  unfolding index_space_def index_key_prefix by blast

section \<open>The loop over an iterator\<close>

text \<open>
  \<open>for iter.Next() { ... }\<close> with a body that sees key and value, changes a state and may break or
  panic.  \<open>None\<close>: a panic, or a loop that never ends.
\<close>

partial_function (option) it_for ::
  "('p, 'b, 'i) platform \<Rightarrow> (bytes \<Rightarrow> bytes \<Rightarrow> 's \<Rightarrow> ('s \<times> bool) option) \<Rightarrow> 'i PrefixIterator \<Rightarrow> 's \<Rightarrow> 's option" where
  "it_for E body it s =
     (case it_Next E it of (it', b) \<Rightarrow>
        if b then
          (case body (it_Key E it') (it_Value E it') s of
             None \<Rightarrow> None
           | Some (s', brk) \<Rightarrow> if brk then Some s' else it_for E body it' s')
        else Some s)"

fun list_for :: "('a \<Rightarrow> 's \<Rightarrow> ('s \<times> bool) option) \<Rightarrow> 'a list \<Rightarrow> 's \<Rightarrow> 's option" where
  "list_for body [] s = Some s"
| "list_for body (x # xs) s =
     (case body x s of None \<Rightarrow> None | Some (s', brk) \<Rightarrow> if brk then Some s' else list_for body xs s')"

lemma it_for_eq:
  assumes laws: "iter_laws E view snap pos"
  shows "it_resumed it \<longrightarrow> pos (it_iter it) \<noteq> None \<Longrightarrow>
    it_for E body it s = list_for (\<lambda>e. body (fst e) (snd e))
      (takeWhile (\<lambda>e. prefix (it_prefix it) (fst e)) (it_rest snap pos it)) s"
proof (induction "length (it_rest snap pos it)" arbitrary: it s)
  case 0
  obtain it' b where nx: "it_Next E it = (it', b)" by fastforce
  with it_Next_spec [OF laws 0(2) nx] 0(1) show ?case by (simp add: it_for.simps)
next
  case (Suc n)
  obtain it' b where nx: "it_Next E it = (it', b)" by fastforce
  obtain e es where es: "it_rest snap pos it = e # es" using Suc(2) by (metis length_Suc_conv)
  from it_Next_spec [OF laws Suc(3) nx] es have N: "b = prefix (it_prefix it) (fst e)"
    "it_prefix it' = it_prefix it" "\<not> it_resumed it'" "it_Key E it' = fst e" "it_Value E it' = snd e"
    "it_rest snap pos it' = es" by auto
  have IH: "it_for E body it' s' = list_for (\<lambda>e. body (fst e) (snd e))
      (takeWhile (\<lambda>e. prefix (it_prefix it) (fst e)) es) s'" for s'
    using Suc(1) [of it' s'] Suc(2) N es by simp
  show ?case
    by (subst it_for.simps) (simp add: nx N es IH split: option.split prod.split)
qed

text \<open>The two ways a generated query or purge starts such a loop.\<close>

lemma it_for_iterate:
  assumes "iter_laws E view snap pos" and "db_Iterate E p d = Some it"
  shows "it_for E body it s = list_for (\<lambda>e. body (fst e) (snd e))
    (filter (\<lambda>e. prefix p (fst e)) (sorted_entries (view (db_pebble d)))) s"
  using it_for_eq [OF assms(1), of it body s] iterate_rest [OF assms]
    takeWhile_entries [OF iter_finite [OF assms(1)], of p "\<lambda>_. True" "db_pebble d"] by simp

lemma it_for_seek_after:
  assumes "iter_laws E view snap pos" and "db_Iterate E p d = Some it"
  shows "it_for E body (it_SeekAfter E t it) s = list_for (\<lambda>e. body (fst e) (snd e))
    (filter (\<lambda>e. prefix p (fst e) \<and> t < fst e) (sorted_entries (view (db_pebble d)))) s"
proof -
  note R = iterate_rest [OF assms]
  have fin: "finite (dom (view (db_pebble d)))" using iter_finite [OF assms(1)] .
  have "it_rest snap pos (it_SeekAfter E t it) = filter (\<lambda>e. t < fst e) (entries_from p (view (db_pebble d)))
      \<and> it_prefix (it_SeekAfter E t it) = p \<and> pos (it_iter (it_SeekAfter E t it)) \<noteq> None"
    using seek_after_rest [OF assms(1), of it t] entries_from_sorted [OF fin, of p] R by simp
  then show ?thesis
    using it_for_eq [OF assms(1), of "it_SeekAfter E t it" body s] takeWhile_entries [OF fin, of p "\<lambda>e. t < fst e"]
    by simp
qed

end
