(* ===== verification/Store.thy ===== *)
theory Store
  imports Models Table
begin

text \<open>
  The generated stores of \<open>internal/testmodels/User_sqlitex.go\<close>: \<open>userStore\<close> (a unique index on
  \<open>email\<close>, a normal index on \<open>created_at\<close>) and \<open>sessionStore\<close> (a normal index on \<open>user_id\<close>, records that
  expire).  An operation maps the handle to the new handle and its result; \<open>None\<close> is a panic.
  The indexed tables they keep are interpretations of \<open>indexed_table\<close>; they reach the stored map
  through the interface \<open>kv_handle\<close>.
\<close>

section \<open>The user store\<close>

definition user_tableID :: "64 word" where "user_tableID = 12299085994647318028"

definition encodeUserPrimaryKey :: "64 word \<Rightarrow> bytes" where
  "encodeUserPrimaryKey i = EncodeOrderedInt64 i"

definition encodeUserIndexEmailValue :: "bytes \<Rightarrow> bytes" where
  "encodeUserIndexEmailValue v = v"

definition encodeUserIndexCreatedAtValue :: "64 word \<Rightarrow> bytes" where
  "encodeUserIndexCreatedAtValue v = put_le64 v"

definition kv_put :: "bytes \<Rightarrow> bytes \<Rightarrow> KVPair" where
  "kv_put k v = \<lparr>kp_Key = k, kp_Value = v, kp_Delete = False\<rparr>"

definition kv_del :: "bytes \<Rightarrow> KVPair" where
  "kv_del k = \<lparr>kp_Key = k, kp_Value = [], kp_Delete = True\<rparr>"

definition user_Get ::
  "('p, 'b, 'i) platform \<Rightarrow> 64 word \<Rightarrow> 'p DB \<Rightarrow> ('p DB \<times> (go_error + User option)) option" where
  "user_Get E i d =
     (let (d1, r) = db_Get E (EncodeKey user_tableID (encodeUserPrimaryKey i)) d in
      case r of
        Inl err \<Rightarrow> Some (d1, Inl (ErrorWrap ''sqlitex: get User: '' err))
      | Inr None \<Rightarrow> Some (d1, Inr None)
      | Inr (Some value) \<Rightarrow> map_option (\<lambda>x. (d1, map_sum id Some x)) (DeserializeUser E value))"

text \<open>\<open>old, _ := s.Get(...)\<close>: the record, or nil on any error.\<close>

fun ignore_error :: "go_error + 'a option \<Rightarrow> 'a option" where
  "ignore_error (Inl _) = None" | "ignore_error (Inr x) = x"

text \<open>The deletions of the old record's index entries.\<close>

definition user_index_deletes :: "User option \<Rightarrow> bytes \<Rightarrow> KVPair list" where
  "user_index_deletes old pkBytes =
     (case old of None \<Rightarrow> []
      | Some o' \<Rightarrow>
          [kv_del (EncodeUniqueIndexKey user_tableID 3 (encodeUserIndexEmailValue (u_Email o'))),
           kv_del (EncodeIndexKey user_tableID 4 (encodeUserIndexCreatedAtValue (u_CreatedAt o')) pkBytes)])"

text \<open>The body that \<open>Create\<close> and \<open>Update\<close> share; they differ in the text of the conflict error.\<close>

definition user_save ::
  "string \<Rightarrow> ('p, 'b, 'i) platform \<Rightarrow> User \<Rightarrow> 'p DB \<Rightarrow> ('p DB \<times> go_error option) option" where
  "user_save what E m d = do {
     let pkBytes = encodeUserPrimaryKey (u_Id m);
     let dataKey = EncodeKey user_tableID pkBytes;
     value \<leftarrow> user_Serialize E m;
     (d1, got) \<leftarrow> user_Get E (u_Id m) d;
     let ops = kv_put dataKey value # user_index_deletes (ignore_error got) pkBytes;
     let ukeyEmail = EncodeUniqueIndexKey user_tableID 3 (encodeUserIndexEmailValue (u_Email m));
     let (d2, existing) = db_Get E ukeyEmail d1;
     (case existing of
        Inl err \<Rightarrow> Some (d2, Some (ErrorWrap ''sqlitex: check unique index User.email: '' err))
      | Inr ex \<Rightarrow>
          if ex \<noteq> None \<and> ex \<noteq> Some pkBytes
          then Some (d2, Some (ErrorWrap (''sqlitex: '' @ what @ '' User: unique index User.email conflict: '')
                                 ErrDuplicateKey))
          else Some (db_WriteBatch E
                 (ops @ [kv_put ukeyEmail pkBytes,
                         kv_put (EncodeIndexKey user_tableID 4
                                   (encodeUserIndexCreatedAtValue (u_CreatedAt m)) pkBytes) pkBytes]) d2))
   }"

definition user_Create ::
  "('p, 'b, 'i) platform \<Rightarrow> User option \<Rightarrow> 'p DB \<Rightarrow> ('p DB \<times> go_error option) option" where
  "user_Create E mp d =
     (case mp of None \<Rightarrow> Some (d, Some (ErrorMsg ''sqlitex: cannot create nil User''))
      | Some m \<Rightarrow> user_save ''create'' E m d)"

definition user_Update ::
  "('p, 'b, 'i) platform \<Rightarrow> User option \<Rightarrow> 'p DB \<Rightarrow> ('p DB \<times> go_error option) option" where
  "user_Update E mp d =
     (case mp of None \<Rightarrow> Some (d, Some (ErrorMsg ''sqlitex: cannot update nil User''))
      | Some m \<Rightarrow> user_save ''update'' E m d)"

definition user_Delete ::
  "('p, 'b, 'i) platform \<Rightarrow> 64 word \<Rightarrow> 'p DB \<Rightarrow> ('p DB \<times> go_error option) option" where
  "user_Delete E i d = do {
     let pkBytes = encodeUserPrimaryKey i;
     (d1, got) \<leftarrow> user_Get E i d;
     Some (db_WriteBatch E
       (kv_del (EncodeKey user_tableID pkBytes) # user_index_deletes (ignore_error got) pkBytes) d1)
   }"

section \<open>The user table\<close>

definition user_keys :: "64 word \<Rightarrow> User \<Rightarrow> bytes list" where
  "user_keys i u =
     [EncodeUniqueIndexKey user_tableID 3 (encodeUserIndexEmailValue (u_Email u)),
      EncodeIndexKey user_tableID 4 (encodeUserIndexCreatedAtValue (u_CreatedAt u)) (encodeUserPrimaryKey i)]"

definition user_dec :: "('p, 'b, 'i) platform \<Rightarrow> bytes \<Rightarrow> User option" where
  "user_dec E v = (case DeserializeUser E v of Some (Inr u) \<Rightarrow> Some u | _ \<Rightarrow> None)"

definition users_ok :: "('p, 'b, 'i) platform \<Rightarrow> kv_map \<Rightarrow> bool" where
  "users_ok E m = table_ok user_tableID encodeUserPrimaryKey user_keys (user_dec E) u_Id m"

definition user_rows :: "('p, 'b, 'i) platform \<Rightarrow> kv_map \<Rightarrow> 64 word \<rightharpoonup> User" where
  "user_rows E m = table_rows user_tableID encodeUserPrimaryKey (user_dec E) m"

interpretation users: indexed_table user_tableID encodeUserPrimaryKey user_keys "user_dec E" u_Id
  for E :: "('p, 'b, 'i) platform"
  by unfold_locales (auto simp: encodeUserPrimaryKey_def user_keys_def)

lemma kv_write_put [simp]: "kv_write (kv_put k v) = (k, Some v)" "kv_write (kv_del k) = (k, None)"
  "kp_Key (kv_put k v) = k" "kp_Key (kv_del k) = k"
  by (simp_all add: kv_write_def kv_put_def kv_del_def)

lemma user_deletes_writes:
  "map kv_write (user_index_deletes old (encodeUserPrimaryKey i)) = index_dels user_keys i old"
  by (cases old) (simp_all add: user_index_deletes_def index_dels_def user_keys_def)

lemma user_Get_eq:
  assumes ok: "handle_ok E view pend d" and u: "users_ok E (db_view view d)"
  obtains d' where "user_Get E i d = Some (d', Inr (user_rows E (db_view view d) i))"
    "handle_ok E view pend d'" "db_view view d' = db_view view d"
proof -
  let ?k = "EncodeKey user_tableID (encodeUserPrimaryKey i)"
  obtain d' where d': "db_Get E ?k d = (d', Inr (db_view view d ?k))" "handle_ok E view pend d'"
    "db_view view d' = db_view view d"
    using handle.getE [OF ok, of ?k] by auto
  have "user_Get E i d = Some (d', Inr (user_rows E (db_view view d) i))"
  proof (cases "db_view view d ?k")
    case None
    with d'(1) show ?thesis by (simp add: user_Get_def user_rows_def table_rows_def)
  next
    case (Some v)
    then obtain r where "user_dec E v = Some r"
      using u by (auto simp: users_ok_def dest: users.ok_data)
    with d'(1) Some show ?thesis
      by (auto simp: user_Get_def user_rows_def table_rows_def user_dec_def split: option.splits sum.splits)
  qed
  with d' that show ?thesis by blast
qed

text \<open>Who holds a value of the unique index.\<close>

definition email_holder :: "('p, 'b, 'i) platform \<Rightarrow> kv_map \<Rightarrow> bytes \<Rightarrow> 64 word \<Rightarrow> bool" where
  "email_holder E m e j \<longleftrightarrow> (\<exists>u. user_rows E m j = Some u \<and> u_Email u = e)"

lemma unique_entry:
  assumes "users_ok E m"
  shows "m (EncodeUniqueIndexKey user_tableID 3 e) = Some v
    \<longleftrightarrow> (\<exists>j. email_holder E m e j \<and> v = encodeUserPrimaryKey j)"
proof -
  let ?k = "EncodeUniqueIndexKey user_tableID 3 e"
  have keys: "?k \<in> set (user_keys j u) \<longleftrightarrow> u_Email u = e" for j u
    using index_prefix_append_eq [of user_tableID 3 e "[]"]
    by (auto simp: user_keys_def encodeUserIndexEmailValue_def EncodeUniqueIndexKey_def index_key_prefix
        index_prefix_eq)
  have "m ?k = Some v \<longleftrightarrow> (\<exists>i r. table_rows user_tableID encodeUserPrimaryKey (user_dec E) m i = Some r
      \<and> ?k \<in> set (user_keys i r) \<and> v = encodeUserPrimaryKey i)"
    using assms unfolding users_ok_def by (rule users.ok_index) simp
  then show ?thesis by (auto simp: keys email_holder_def user_rows_def)
qed

lemma email_unique:
  "users_ok E m \<Longrightarrow> email_holder E m e i \<Longrightarrow> email_holder E m e j \<Longrightarrow> i = j"
  using unique_entry [of E m e "encodeUserPrimaryKey i"] unique_entry [of E m e "encodeUserPrimaryKey j"]
    users.pk_inj by fastforce


lemma created_entry:
  assumes "users_ok E m"
    and "m (EncodeIndexKey user_tableID 4 c (encodeUserPrimaryKey i)) = Some v"
  shows "v = encodeUserPrimaryKey i"
proof -
  let ?k = "EncodeIndexKey user_tableID 4 c (encodeUserPrimaryKey i)"
  have keys: "j = i" if "?k \<in> set (user_keys j u)" for j u
    using that users.pk_inj
    by (auto simp: user_keys_def EncodeUniqueIndexKey_def index_key_prefix index_prefix_append_eq
        dest: index_prefix_append_eq [of _ _ _ _ _ _ _ "[]", simplified, THEN iffD1])
  from assms(1) obtain j u where "?k \<in> set (user_keys j u)" "v = encodeUserPrimaryKey j"
    using assms(2) unfolding users_ok_def by (metis users.ok_index index_space_key)
  with keys show ?thesis by blast
qed

text \<open>The store operations over the map: what the batch of \<open>Create\<close> and \<open>Update\<close> does.\<close>

lemma user_save_map:
  assumes u: "users_ok E m" and dec: "user_dec E v = Some r"
    and free: "\<And>j. email_holder E m (u_Email r) j \<Longrightarrow> j = u_Id r"
    and m': "m' = apply_writes (save_writes user_tableID encodeUserPrimaryKey user_keys (u_Id r) v
      (user_rows E m (u_Id r)) r) m"
  shows "users_ok E m'" and "user_rows E m' = (user_rows E m)(u_Id r \<mapsto> r)"
proof -
  have "m k = None \<or> m k = Some (encodeUserPrimaryKey (u_Id r))" if "k \<in> set (user_keys (u_Id r) r)" for k
    using that unique_entry [OF u] free created_entry [OF u]
    by (cases "m k") (auto simp: user_keys_def encodeUserIndexEmailValue_def)
  then show "users_ok E m'"
    using users.save_ok [OF u [unfolded users_ok_def] refl dec refl] unfolding m' users_ok_def user_rows_def
    by blast
  show "user_rows E m' = (user_rows E m)(u_Id r \<mapsto> r)"
    unfolding m' user_rows_def using users.save_rows [OF dec] by blast
qed

lemma user_dec_Serialize:
  assumes "zstd_laws E" and "user_fits r"
  obtains v where "user_Serialize E r = Some v" "user_dec E v = Some r"
  using user_Serialize_eq [of E r] DeserializeUser_bytes [OF assms] by (simp add: user_dec_def)

lemma user_save_spec:
  assumes ok: "handle_ok E view pend d" and u: "users_ok E (db_view view d)"
    and z: "zstd_laws E" and fits: "user_fits r"
  obtains d' err where "user_save what E r d = Some (d', err)" "handle_ok E view pend d'"
    "users_ok E (db_view view d')"
    "if \<exists>j. email_holder E (db_view view d) (u_Email r) j \<and> j \<noteq> u_Id r
     then db_view view d' = db_view view d
       \<and> err = Some (ErrorWrap (''sqlitex: '' @ what @ '' User: unique index User.email conflict: '') ErrDuplicateKey)
     else if err = None
     then user_rows E (db_view view d') = (user_rows E (db_view view d))(u_Id r \<mapsto> r)
     else db_view view d' = db_view view d \<and> \<not> writes_ok E"
proof -
  let ?m = "db_view view d" and ?pk = "encodeUserPrimaryKey (u_Id r)"
  let ?uk = "EncodeUniqueIndexKey user_tableID 3 (u_Email r)"
  obtain v where v: "user_Serialize E r = Some v" "user_dec E v = Some r"
    using user_dec_Serialize [OF z fits] .
  obtain d1 where d1: "user_Get E (u_Id r) d = Some (d1, Inr (user_rows E ?m (u_Id r)))"
    "handle_ok E view pend d1" "db_view view d1 = ?m" using user_Get_eq [OF ok u] .
  obtain d2 where d2: "db_Get E ?uk d1 = (d2, Inr (?m ?uk))" "handle_ok E view pend d2" "db_view view d2 = ?m"
    using handle.getE [OF d1(2), of ?uk] d1(3) by (auto simp: EncodeUniqueIndexKey_def)
  have holder: "?m ?uk \<noteq> None \<and> ?m ?uk \<noteq> Some ?pk
      \<longleftrightarrow> (\<exists>j. email_holder E ?m (u_Email r) j \<and> j \<noteq> u_Id r)"
    using unique_entry [OF u, of "u_Email r"] users.pk_inj email_unique [OF u]
    by (cases "?m ?uk") (auto, metis+)
  show ?thesis
  proof (cases "\<exists>j. email_holder E ?m (u_Email r) j \<and> j \<noteq> u_Id r")
    case True
    have "user_save what E r d = Some (d2, Some (ErrorWrap (''sqlitex: '' @ what
        @ '' User: unique index User.email conflict: '') ErrDuplicateKey))"
      using v(1) d1(1) d2(1) holder True by (simp add: user_save_def encodeUserIndexEmailValue_def Let_def)
    with True d2 u show ?thesis by (intro that [of d2]) auto
  next
    case False
    let ?ops = "(kv_put (EncodeKey user_tableID ?pk) v # user_index_deletes (user_rows E ?m (u_Id r)) ?pk)
      @ [kv_put ?uk ?pk, kv_put (EncodeIndexKey user_tableID 4 (encodeUserIndexCreatedAtValue (u_CreatedAt r)) ?pk) ?pk]"
    have w: "map kv_write ?ops = save_writes user_tableID encodeUserPrimaryKey user_keys (u_Id r) v
        (user_rows E ?m (u_Id r)) r"
      by (simp add: user_deletes_writes save_writes_def user_keys_def encodeUserIndexEmailValue_def)
    obtain d3 err where d3: "db_WriteBatch E ?ops d2 = (d3, err)" "handle_ok E view pend d3"
      "err = None \<Longrightarrow> db_view view d3 = apply_writes (map kv_write ?ops) ?m"
      "err \<noteq> None \<Longrightarrow> db_view view d3 = ?m"
      using handle.writeE [OF d2(2), of ?ops] d2(3) by metis
    have run: "user_save what E r d = Some (d3, err)"
      using v(1) d1(1) d2(1) d3(1) holder False
      by (auto simp: user_save_def encodeUserIndexEmailValue_def Let_def)
    have free: "j = u_Id r" if "email_holder E ?m (u_Email r) j" for j using False that by blast
    show ?thesis
    proof (cases err)
      case None
      then have "users_ok E (db_view view d3)"
        "user_rows E (db_view view d3) = (user_rows E ?m)(u_Id r \<mapsto> r)"
        using user_save_map [OF u v(2) free d3(3) [OF None, unfolded w]] by auto
      with None run d3 False show ?thesis by (intro that [of d3]) auto
    next
      case (Some e)
      have "[] \<notin> kp_Key ` set ?ops"
        by (cases "user_rows E ?m (u_Id r)")
          (auto simp: user_index_deletes_def EncodeUniqueIndexKey_def index_key_prefix eq_commute [of "[]"])
      then have "\<not> writes_ok E"
        using WriteBatch_ok [of E d2 ?ops] d2(2) d3(1) Some by (auto simp: handle_ok_def)
      with run d3 False u Some show ?thesis by (intro that [of d3]) auto
    qed
  qed
qed

lemma user_Delete_spec:
  assumes ok: "handle_ok E view pend d" and u: "users_ok E (db_view view d)"
  obtains d' err where "user_Delete E i d = Some (d', err)" "handle_ok E view pend d'"
    "users_ok E (db_view view d')"
    "if err = None then user_rows E (db_view view d') = (user_rows E (db_view view d))(i := None)
     else db_view view d' = db_view view d \<and> \<not> writes_ok E"
proof -
  let ?m = "db_view view d" and ?pk = "encodeUserPrimaryKey i"
  obtain d1 where d1: "user_Get E i d = Some (d1, Inr (user_rows E ?m i))"
    "handle_ok E view pend d1" "db_view view d1 = ?m" using user_Get_eq [OF ok u] .
  let ?ops = "kv_del (EncodeKey user_tableID ?pk) # user_index_deletes (user_rows E ?m i) ?pk"
  have w: "map kv_write ?ops = delete_writes user_tableID encodeUserPrimaryKey user_keys i (user_rows E ?m i)"
    by (simp add: user_deletes_writes delete_writes_def)
  obtain d2 err where d2: "db_WriteBatch E ?ops d1 = (d2, err)" "handle_ok E view pend d2"
    "err = None \<Longrightarrow> db_view view d2 = apply_writes (map kv_write ?ops) ?m"
    "err \<noteq> None \<Longrightarrow> db_view view d2 = ?m"
    using handle.writeE [OF d1(2), of ?ops] d1(3) by metis
  have run: "user_Delete E i d = Some (d2, err)" using d1(1) d2(1) by (simp add: user_Delete_def Let_def)
  show ?thesis
  proof (cases err)
    case None
    have m: "db_view view d2
        = apply_writes (delete_writes user_tableID encodeUserPrimaryKey user_keys i (user_rows E ?m i)) ?m"
      by (rule d2(3) [OF None, unfolded w])
    have "users_ok E (db_view view d2)"
      unfolding m users_ok_def user_rows_def using u [unfolded users_ok_def] by (rule users.delete_ok) (rule refl)
    moreover have "user_rows E (db_view view d2) = (user_rows E ?m)(i := None)"
      unfolding m unfolding user_rows_def by (rule users.delete_rows)
    ultimately show ?thesis using None run d2 by (intro that [of d2]) auto
  next
    case (Some e)
    have "[] \<notin> kp_Key ` set ?ops"
      by (cases "user_rows E ?m i")
        (auto simp: user_index_deletes_def EncodeUniqueIndexKey_def index_key_prefix eq_commute [of "[]"])
    then have "\<not> writes_ok E"
      using WriteBatch_ok [of E d1 ?ops] d1(2) d2(1) Some by (auto simp: handle_ok_def)
    with run d2 u Some show ?thesis by (intro that [of d2]) auto
  qed
qed

section \<open>Histories of the user store\<close>

datatype user_op = UCreate User | UUpdate User | UDelete "64 word" | UGet "64 word"

datatype user_res = UErr "go_error option" | UGot "go_error + User option"

fun user_step :: "('p, 'b, 'i) platform \<Rightarrow> user_op \<Rightarrow> 'p DB \<Rightarrow> ('p DB \<times> user_res) option" where
  "user_step E (UCreate m) d = map_option (map_prod id UErr) (user_Create E (Some m) d)"
| "user_step E (UUpdate m) d = map_option (map_prod id UErr) (user_Update E (Some m) d)"
| "user_step E (UDelete i) d = map_option (map_prod id UErr) (user_Delete E i d)"
| "user_step E (UGet i) d = map_option (map_prod id UGot) (user_Get E i d)"

fun user_run :: "('p, 'b, 'i) platform \<Rightarrow> user_op list \<Rightarrow> 'p DB \<Rightarrow> ('p DB \<times> (user_op \<times> user_res) list) option" where
  "user_run E [] d = Some (d, [])"
| "user_run E (op # ops) d = do {
     (d1, r) \<leftarrow> user_step E op d;
     (d2, rs) \<leftarrow> user_run E ops d1;
     Some (d2, (op, r) # rs)
   }"

text \<open>
  The specification: a table of users in which no two have the same email.  A save that would break
  this is refused with \<open>ErrDuplicateKey\<close> and changes nothing; any other save that returns no error
  replaces the record of its primary key.  With \<open>reliable\<close>, it returns none.
\<close>

type_synonym user_table = "64 word \<rightharpoonup> User"

definition email_taken :: "user_table \<Rightarrow> User \<Rightarrow> bool" where
  "email_taken t m \<longleftrightarrow> (\<exists>j u. t j = Some u \<and> u_Email u = u_Email m \<and> j \<noteq> u_Id m)"

definition save_allowed :: "bool \<Rightarrow> user_table \<Rightarrow> User \<Rightarrow> go_error option \<Rightarrow> bool" where
  "save_allowed reliable t m err \<longleftrightarrow>
     (if email_taken t m then \<exists>e. err = Some e \<and> errors_is e ErrDuplicateKey
      else reliable \<longrightarrow> err = None)"

fun user_allows :: "bool \<Rightarrow> user_op \<Rightarrow> user_res \<Rightarrow> user_table \<Rightarrow> bool" where
  "user_allows reliable (UCreate m) (UErr err) t = save_allowed reliable t m err"
| "user_allows reliable (UUpdate m) (UErr err) t = save_allowed reliable t m err"
| "user_allows reliable (UDelete i) (UErr err) t = (reliable \<longrightarrow> err = None)"
| "user_allows reliable (UGet i) (UGot r) t = (r = Inr (t i))"
| "user_allows reliable _ _ t = False"

fun user_next :: "user_op \<Rightarrow> user_res \<Rightarrow> user_table \<Rightarrow> user_table" where
  "user_next (UCreate m) (UErr None) t = t(u_Id m \<mapsto> m)"
| "user_next (UUpdate m) (UErr None) t = t(u_Id m \<mapsto> m)"
| "user_next (UDelete i) (UErr None) t = t(i := None)"
| "user_next _ _ t = t"

fun user_spec_run :: "bool \<Rightarrow> (user_op \<times> user_res) list \<Rightarrow> user_table \<Rightarrow> user_table option" where
  "user_spec_run reliable [] t = Some t"
| "user_spec_run reliable ((op, r) # tr) t =
     (if user_allows reliable op r t then user_spec_run reliable tr (user_next op r t) else None)"

fun user_op_fits :: "user_op \<Rightarrow> bool" where
  "user_op_fits (UCreate m) = user_fits m"
| "user_op_fits (UUpdate m) = user_fits m"
| "user_op_fits _ = True"

lemma email_taken_holder:
  "email_taken (user_rows E m) r \<longleftrightarrow> (\<exists>j. email_holder E m (u_Email r) j \<and> j \<noteq> u_Id r)"
  by (auto simp: email_taken_def email_holder_def)

lemma user_step_refines:
  assumes ok: "handle_ok E view pend d" and u: "users_ok E (db_view view d)"
    and z: "zstd_laws E" and fits: "user_op_fits op"
  obtains d' r where "user_step E op d = Some (d', r)" "handle_ok E view pend d'"
    "users_ok E (db_view view d')" "user_allows (writes_ok E) op r (user_rows E (db_view view d))"
    "user_rows E (db_view view d') = user_next op r (user_rows E (db_view view d))"
proof -
  let ?m = "db_view view d"
  note fin = that
  have save: thesis
    if op: "op = UCreate m \<and> what = ''create'' \<or> op = UUpdate m \<and> what = ''update''" for m what
  proof -
    have "user_fits m" using fits op by auto
    from user_save_spec [OF ok u z this, of what] obtain d' err where s:
      "user_save what E m d = Some (d', err)" "handle_ok E view pend d'" "users_ok E (db_view view d')"
      "if \<exists>j. email_holder E ?m (u_Email m) j \<and> j \<noteq> u_Id m
       then db_view view d' = ?m
         \<and> err = Some (ErrorWrap (''sqlitex: '' @ what @ '' User: unique index User.email conflict: '') ErrDuplicateKey)
       else if err = None then user_rows E (db_view view d') = (user_rows E ?m)(u_Id m \<mapsto> m)
       else db_view view d' = ?m \<and> \<not> writes_ok E" .
    have run: "user_step E op d = Some (d', UErr err)"
      using op s(1) by (auto simp: user_Create_def user_Update_def)
    have "user_allows (writes_ok E) op (UErr err) (user_rows E ?m)"
      using op s(4) by (auto simp: save_allowed_def email_taken_holder split: if_splits)
    moreover have "user_rows E (db_view view d') = user_next op (UErr err) (user_rows E ?m)"
      using op s(4) by (cases err) (auto split: if_splits)
    ultimately show thesis using fin [OF run s(2,3)] by blast
  qed
  show thesis
  proof (cases op)
    case (UDelete i)
    obtain d' err where s: "user_Delete E i d = Some (d', err)" "handle_ok E view pend d'"
      "users_ok E (db_view view d')"
      "if err = None then user_rows E (db_view view d') = (user_rows E ?m)(i := None)
       else db_view view d' = ?m \<and> \<not> writes_ok E"
      using user_Delete_spec [OF ok u, of i] .
    then show thesis
      using UDelete by (intro fin [of d' "UErr err"]; cases err; simp)
  next
    case (UGet i)
    obtain d' where "user_Get E i d = Some (d', Inr (user_rows E ?m i))"
      "handle_ok E view pend d'" "db_view view d' = ?m"
      using user_Get_eq [OF ok u] .
    then show thesis using UGet u by (intro fin [of d' "UGot (Inr (user_rows E ?m i))"]) auto
  qed (use save in blast)+
qed

lemma user_run_refines:
  assumes "zstd_laws E"
  shows "handle_ok E view pend d \<Longrightarrow> users_ok E (db_view view d) \<Longrightarrow> list_all user_op_fits ops \<Longrightarrow>
    \<exists>d' tr. user_run E ops d = Some (d', tr) \<and> users_ok E (db_view view d')
      \<and> user_spec_run (writes_ok E) tr (user_rows E (db_view view d)) = Some (user_rows E (db_view view d'))"
proof (induction ops arbitrary: d)
  case (Cons op ops)
  then have fits: "user_op_fits op" "list_all user_op_fits ops" by auto
  obtain d1 r where s: "user_step E op d = Some (d1, r)" "handle_ok E view pend d1"
    "users_ok E (db_view view d1)" "user_allows (writes_ok E) op r (user_rows E (db_view view d))"
    "user_rows E (db_view view d1) = user_next op r (user_rows E (db_view view d))"
    using user_step_refines [OF Cons.prems(1,2) assms fits(1)] .
  from Cons.IH [OF s(2,3) fits(2)] obtain d' tr where "user_run E ops d1 = Some (d', tr)"
    "users_ok E (db_view view d')"
    "user_spec_run (writes_ok E) tr (user_rows E (db_view view d1)) = Some (user_rows E (db_view view d'))" by blast
  with s show ?case by (intro exI [of _ d'] exI [of _ "(op, r) # tr"]) simp
qed simp

lemma user_run_ops: "user_run E ops d = Some (d', tr) \<Longrightarrow> map fst tr = ops"
  by (induction ops arbitrary: d tr) (auto split: Option.bind_splits)

lemma users_ok_empty:
  "(\<And>b. m (EncodeKey user_tableID b) = None) \<Longrightarrow> (\<And>k. index_space user_tableID k \<Longrightarrow> m k = None) \<Longrightarrow>
    users_ok E m \<and> user_rows E m = Map.empty"
  by (auto simp: users_ok_def table_ok_def user_rows_def table_rows_def)


section \<open>The session store\<close>

definition session_tableID :: "64 word" where "session_tableID = 17504996543229074857"

text \<open>The record-level time to live, one second.\<close>

definition session_ttl :: "64 word" where "session_ttl = 1000000000"

definition encodeSessionPrimaryKey :: "64 word \<Rightarrow> bytes" where
  "encodeSessionPrimaryKey i = EncodeOrderedInt64 i"

definition encodeSessionIndexUserIdValue :: "bytes \<Rightarrow> bytes" where
  "encodeSessionIndexUserIdValue v = v"

text \<open>\<open>expiresAt > 0 && now > expiresAt\<close>\<close>

definition expired_at :: "64 word \<Rightarrow> 64 word \<Rightarrow> bool" where
  "expired_at expiresAt now \<longleftrightarrow> 0 <s expiresAt \<and> expiresAt <s now"

definition deleteSessionWithIndexes ::
  "('p, 'b, 'i) platform \<Rightarrow> bytes \<Rightarrow> Session \<Rightarrow> 'p DB \<Rightarrow> ('p DB \<times> go_error option) option" where
  "deleteSessionWithIndexes E dataKey m d =
     (case DecodeKey dataKey of
        None \<Rightarrow> None
      | Some (Inl err) \<Rightarrow> Some (d, Some err)
      | Some (Inr (_, pkBytes)) \<Rightarrow>
          Some (db_WriteBatch E
            [kv_del dataKey,
             kv_del (EncodeIndexKey session_tableID 3 (encodeSessionIndexUserIdValue (s_UserId m)) pkBytes)] d))"

text \<open>\<open>Get\<close>: the clock is read only for a record that can expire; a failed deletion is ignored.\<close>

definition session_Get ::
  "('p, 'b, 'i) platform \<Rightarrow> 64 word \<Rightarrow> 'p DB \<Rightarrow> ('p DB \<times> (go_error + Session option)) option" where
  "session_Get E i d =
     (let key = EncodeKey session_tableID (encodeSessionPrimaryKey i); (d1, r) = db_Get E key d in
      case r of
        Inl err \<Rightarrow> Some (d1, Inl (ErrorWrap ''sqlitex: get Session: '' err))
      | Inr None \<Rightarrow> Some (d1, Inr None)
      | Inr (Some value) \<Rightarrow>
          (case DeserializeSessionMeta value of
             None \<Rightarrow> None
           | Some (Inl err) \<Rightarrow> Some (d1, Inl err)
           | Some (Inr (m, expiresAt)) \<Rightarrow>
               if 0 <s expiresAt then
                 (let (now, d2) = db_now E d1 in
                  if expiresAt <s now
                  then map_option (\<lambda>x. (fst x, Inr None)) (deleteSessionWithIndexes E key m d2)
                  else Some (d2, Inr (Some m)))
               else Some (d1, Inr (Some m))))"

definition session_index_deletes :: "Session option \<Rightarrow> bytes \<Rightarrow> KVPair list" where
  "session_index_deletes old pkBytes =
     (case old of None \<Rightarrow> []
      | Some o' \<Rightarrow> [kv_del (EncodeIndexKey session_tableID 3 (encodeSessionIndexUserIdValue (s_UserId o')) pkBytes)])"

definition session_save ::
  "('p, 'b, 'i) platform \<Rightarrow> Session \<Rightarrow> 'p DB \<Rightarrow> ('p DB \<times> go_error option) option" where
  "session_save E m d = do {
     let pkBytes = encodeSessionPrimaryKey (s_Id m);
     let dataKey = EncodeKey session_tableID pkBytes;
     let (now, d0) = db_now E d;
     value \<leftarrow> session_SerializeWithExpiry (now + session_ttl) m;
     (d1, got) \<leftarrow> session_Get E (s_Id m) d0;
     let ops = kv_put dataKey value # session_index_deletes (ignore_error got) pkBytes;
     Some (db_WriteBatch E
       (ops @ [kv_put (EncodeIndexKey session_tableID 3 (encodeSessionIndexUserIdValue (s_UserId m)) pkBytes)
                 pkBytes]) d1)
   }"

definition session_Create ::
  "('p, 'b, 'i) platform \<Rightarrow> Session option \<Rightarrow> 'p DB \<Rightarrow> ('p DB \<times> go_error option) option" where
  "session_Create E mp d =
     (case mp of None \<Rightarrow> Some (d, Some (ErrorMsg ''sqlitex: cannot create nil Session''))
      | Some m \<Rightarrow> session_save E m d)"

definition session_Update ::
  "('p, 'b, 'i) platform \<Rightarrow> Session option \<Rightarrow> 'p DB \<Rightarrow> ('p DB \<times> go_error option) option" where
  "session_Update E mp d =
     (case mp of None \<Rightarrow> Some (d, Some (ErrorMsg ''sqlitex: cannot update nil Session''))
      | Some m \<Rightarrow> session_save E m d)"

definition session_Delete ::
  "('p, 'b, 'i) platform \<Rightarrow> 64 word \<Rightarrow> 'p DB \<Rightarrow> ('p DB \<times> go_error option) option" where
  "session_Delete E i d = do {
     let pkBytes = encodeSessionPrimaryKey i;
     (d1, got) \<leftarrow> session_Get E i d;
     Some (db_WriteBatch E
       (kv_del (EncodeKey session_tableID pkBytes) # session_index_deletes (ignore_error got) pkBytes) d1)
   }"

text \<open>\<open>PurgeExpired\<close>: one reading of the clock, then the loop over the table's rows.\<close>

definition purge_body ::
  "('p, 'b, 'i) platform \<Rightarrow> 64 word \<Rightarrow> bytes \<Rightarrow> bytes \<Rightarrow> 'p DB \<times> nat \<Rightarrow> (('p DB \<times> nat) \<times> bool) option" where
  "purge_body E now key value s =
     (case DeserializeSessionMeta value of
        None \<Rightarrow> None
      | Some (Inl err) \<Rightarrow> Some (s, False)
      | Some (Inr (m, expiresAt)) \<Rightarrow>
          if expired_at expiresAt now
          then (case deleteSessionWithIndexes E key m (fst s) of
                  None \<Rightarrow> None
                | Some (d, err) \<Rightarrow> Some ((d, if err = None then Suc (snd s) else snd s), False))
          else Some (s, False))"

definition PurgeExpired ::
  "('p, 'b, 'i) platform \<Rightarrow> 'p DB \<Rightarrow> ('p DB \<times> nat) option" where
  "PurgeExpired E d =
     (case db_Iterate E (EncodeKey session_tableID []) d of
        None \<Rightarrow> Some (d, 0)
      | Some it \<Rightarrow> (let (now, d1) = db_now E d in it_for E (purge_body E now) it (d1, 0)))"

section \<open>The session table\<close>

text \<open>A row is a session with its expiry time.\<close>

definition session_keys :: "64 word \<Rightarrow> Session \<times> 64 word \<Rightarrow> bytes list" where
  "session_keys i p =
     [EncodeIndexKey session_tableID 3 (encodeSessionIndexUserIdValue (s_UserId (fst p))) (encodeSessionPrimaryKey i)]"

definition session_dec :: "bytes \<Rightarrow> (Session \<times> 64 word) option" where
  "session_dec v = (case DeserializeSessionMeta v of Some (Inr p) \<Rightarrow> Some p | _ \<Rightarrow> None)"

definition session_rid :: "Session \<times> 64 word \<Rightarrow> 64 word" where "session_rid p = s_Id (fst p)"

definition sessions_ok :: "kv_map \<Rightarrow> bool" where
  "sessions_ok m = table_ok session_tableID encodeSessionPrimaryKey session_keys session_dec session_rid m"

definition session_rows :: "kv_map \<Rightarrow> 64 word \<rightharpoonup> Session \<times> 64 word" where
  "session_rows m = table_rows session_tableID encodeSessionPrimaryKey session_dec m"

interpretation sessions: indexed_table session_tableID encodeSessionPrimaryKey session_keys session_dec session_rid
  by unfold_locales (auto simp: encodeSessionPrimaryKey_def session_keys_def)

lemma session_deletes_writes:
  "map kv_write (session_index_deletes old (encodeSessionPrimaryKey i))
    = index_dels session_keys i (map_option (\<lambda>s. (s, t)) old)"
  by (cases old) (simp_all add: session_index_deletes_def index_dels_def session_keys_def)

lemma DecodeKey_EncodeKey: "DecodeKey (EncodeKey t b) = Some (Inr (t, b))"
  by (simp add: DecodeKey_def EncodeKey_def slice_def slice_from_def)

lemma session_delete_eq:
  "deleteSessionWithIndexes E (EncodeKey session_tableID (encodeSessionPrimaryKey i)) m d
    = Some (db_WriteBatch E
        [kv_del (EncodeKey session_tableID (encodeSessionPrimaryKey i)),
         kv_del (EncodeIndexKey session_tableID 3 (encodeSessionIndexUserIdValue (s_UserId m))
                   (encodeSessionPrimaryKey i))] d)"
  by (simp add: deleteSessionWithIndexes_def DecodeKey_EncodeKey)

lemma session_delete_writes:
  "map kv_write
     [kv_del (EncodeKey session_tableID (encodeSessionPrimaryKey i)),
      kv_del (EncodeIndexKey session_tableID 3 (encodeSessionIndexUserIdValue (s_UserId m))
                (encodeSessionPrimaryKey i))]
   = delete_writes session_tableID encodeSessionPrimaryKey session_keys i (Some (m, t))"
  by (simp add: delete_writes_def index_dels_def session_keys_def)

lemma session_delete_ok:
  assumes "sessions_ok m" and "session_rows m i = Some (s, t)"
    and "m' = apply_writes (delete_writes session_tableID encodeSessionPrimaryKey session_keys i (Some (s, t))) m"
  shows "sessions_ok m' \<and> session_rows m' = (session_rows m)(i := None)"
  using sessions.delete_ok [OF assms(1) [unfolded sessions_ok_def] assms(2) [unfolded session_rows_def, symmetric]]
    sessions.delete_rows [of i "Some (s, t)" m]
  unfolding assms(3) sessions_ok_def session_rows_def by blast

text \<open>The clock only moves forward through a read.\<close>

lemma tick_now: "db_now E d = (t, d') \<Longrightarrow> db_tick d' = Suc (db_tick d) \<and> t = time_Now E (db_tick d)"
  by (auto simp: db_now_def)

lemma tick_get: "db_get E k d = (d', r) \<Longrightarrow> db_tick d \<le> db_tick d'"
  by (auto simp: db_get_def pebble_get_def cache_admit_def cache_delete_def db_now_def db_observeCache_def
      Let_def split: if_splits option.splits prod.splits sum.splits)

lemma tick_Get: "db_Get E k d = (d', r) \<Longrightarrow> db_tick d \<le> db_tick d'"
proof -
  assume "db_Get E k d = (d', r)"
  then obtain t d1 d2 where d: "startOp E ''get'' d = (t, d1)" "db_get E k d1 = (d2, r)"
    "d' = opTimer_finish E t (err_of r) d2"
    by (auto simp: db_Get_def Let_def split: prod.splits)
  have "db_tick d \<le> db_tick d1" using d(1) by (auto simp: startOp_def db_now_def split: option.splits)
  also have "\<dots> \<le> db_tick d2" using tick_get [OF d(2)] .
  also have "\<dots> \<le> db_tick d'" by (auto simp: d(3) opTimer_finish_def db_now_def Let_def split: option.split)
  finally show ?thesis .
qed


lemma Nil_not_key [simp]: "[] \<noteq> EncodeKey h b" "[] \<noteq> EncodeIndexPrefix h f v @ b"
  by (simp_all add: EncodeKey_def EncodeIndexPrefix_def)

section \<open>What the session operations do\<close>

text \<open>
  These hold when no write of the engine fails: \<open>Get\<close> ignores the error of its lazy deletion, see
  \<open>failed_lazy_delete_leaves_index\<close>.
\<close>

lemma session_Get_spec:
  assumes ok: "handle_ok E view pend d" and s: "sessions_ok (db_view view d)" and w: "writes_ok E"
  obtains d' res n where "session_Get E i d = Some (d', Inr res)" "handle_ok E view pend d'"
    "sessions_ok (db_view view d')" "db_tick d \<le> n"
    "case session_rows (db_view view d) i of
       None \<Rightarrow> res = None \<and> db_view view d' = db_view view d
     | Some (m, t) \<Rightarrow>
         if expired_at t (time_Now E n)
         then res = None \<and> session_rows (db_view view d') = (session_rows (db_view view d))(i := None)
         else res = Some m \<and> db_view view d' = db_view view d"
proof -
  let ?k = "EncodeKey session_tableID (encodeSessionPrimaryKey i)" and ?m = "db_view view d"
  obtain d1 where d1: "db_Get E ?k d = (d1, Inr (?m ?k))" "handle_ok E view pend d1" "db_view view d1 = ?m"
    using handle.getE [OF ok, of ?k] by auto
  have tick: "db_tick d \<le> db_tick d1" using tick_Get [OF d1(1)] .
  show ?thesis
  proof (cases "?m ?k")
    case None
    then have "session_Get E i d = Some (d1, Inr None)" "session_rows ?m i = None"
      using d1(1) by (simp_all add: session_Get_def session_rows_def table_rows_def Let_def)
    with d1 s tick show ?thesis by (intro that [of d1 None "db_tick d"]) auto
  next
    case (Some v)
    then obtain p where "session_dec v = Some p"
      using sessions.ok_data [OF s [unfolded sessions_ok_def] Some] by blast
    then obtain m t where dec: "DeserializeSessionMeta v = Some (Inr (m, t))"
      by (cases p) (auto simp: session_dec_def split: option.splits sum.splits)
    then have row: "session_rows ?m i = Some (m, t)"
      using Some by (simp add: session_rows_def table_rows_def session_dec_def)
    obtain now d2 where now: "db_now E d1 = (now, d2)" by fastforce
    have d2: "handle_ok E view pend d2" "db_view view d2 = ?m" "now = time_Now E (db_tick d1)"
      using handle_ok_now [of E view pend d1] db_pebble_now [of E d1] d1 now tick_now [OF now] by auto
    show ?thesis
    proof (cases "expired_at t now")
      case True
      let ?ops = "[kv_del ?k, kv_del (EncodeIndexKey session_tableID 3
        (encodeSessionIndexUserIdValue (s_UserId m)) (encodeSessionPrimaryKey i))]"
      obtain d3 err where d3: "db_WriteBatch E ?ops d2 = (d3, err)" "handle_ok E view pend d3"
        "err = None \<Longrightarrow> db_view view d3 = apply_writes (map kv_write ?ops) ?m"
        using handle.writeE [OF d2(1), of ?ops] d2(2) by metis
      have "err = None"
        using WriteBatch_ok [OF w, of d2 ?ops] d2(1) d3(1) by (simp add: handle_ok_def index_key_prefix)
      then have "db_view view d3
          = apply_writes (delete_writes session_tableID encodeSessionPrimaryKey session_keys i (Some (m, t))) ?m"
        using d3(3) session_delete_writes [of i m t] by metis
      from session_delete_ok [OF s row this]
      have "sessions_ok (db_view view d3)" "session_rows (db_view view d3) = (session_rows ?m)(i := None)"
        by auto
      moreover have "session_Get E i d = Some (d3, Inr None)"
        using d1(1) Some dec now True d3(1) session_delete_eq [of E i m d2]
        by (simp add: session_Get_def expired_at_def Let_def)
      ultimately show ?thesis
        using d3(2) row True d2(3) tick by (intro that [of d3 None "db_tick d1"]) auto
    next
      case False
      show ?thesis
      proof (cases "0 <s t")
        case True
        then have "session_Get E i d = Some (d2, Inr (Some m))"
          using d1(1) Some dec now False by (simp add: session_Get_def expired_at_def Let_def)
        with d2 s row False tick show ?thesis by (intro that [of d2 "Some m" "db_tick d1"]) auto
      next
        case neg: False
        then have "session_Get E i d = Some (d1, Inr (Some m))"
          using d1(1) Some dec by (simp add: session_Get_def Let_def)
        with d1 s row neg tick show ?thesis
          by (intro that [of d1 "Some m" "db_tick d1"]) (auto simp: expired_at_def)
      qed
    qed
  qed
qed

lemma user_id_entry:
  assumes "sessions_ok m"
    and "m (EncodeIndexKey session_tableID 3 c (encodeSessionPrimaryKey i)) = Some v"
  shows "v = encodeSessionPrimaryKey i"
proof -
  let ?k = "EncodeIndexKey session_tableID 3 c (encodeSessionPrimaryKey i)"
  have keys: "j = i" if "?k \<in> set (session_keys j u)" for j u
    using that sessions.pk_inj by (auto simp: session_keys_def index_key_prefix index_prefix_append_eq)
  from assms(1) obtain j u where "?k \<in> set (session_keys j u)" "v = encodeSessionPrimaryKey j"
    using assms(2) unfolding sessions_ok_def by (metis sessions.ok_index index_space_key)
  with keys show ?thesis by blast
qed

text \<open>What is left of the old row after \<open>Get\<close> is what \<open>Get\<close> returned.\<close>

lemma session_Get_left:
  assumes "handle_ok E view pend d" and "sessions_ok (db_view view d)" and "writes_ok E"
  obtains d' res t where "session_Get E i d = Some (d', Inr res)" "handle_ok E view pend d'"
    "sessions_ok (db_view view d')" "session_rows (db_view view d') i = map_option (\<lambda>m. (m, t)) res"
    "\<And>j. j \<noteq> i \<Longrightarrow> session_rows (db_view view d') j = session_rows (db_view view d) j"
proof -
  obtain d' res n where g:
    "session_Get E i d = Some (d', Inr res)" "handle_ok E view pend d'" "sessions_ok (db_view view d')"
    "db_tick d \<le> n"
    "case session_rows (db_view view d) i of
       None \<Rightarrow> res = None \<and> db_view view d' = db_view view d
     | Some (m, t) \<Rightarrow>
         if expired_at t (time_Now E n)
         then res = None \<and> session_rows (db_view view d') = (session_rows (db_view view d))(i := None)
         else res = Some m \<and> db_view view d' = db_view view d"
    using session_Get_spec [OF assms, of i] .
  show ?thesis
  proof (cases "session_rows (db_view view d) i")
    case None
    with g show ?thesis by (intro that [of d' res 0]) auto
  next
    case (Some p)
    with g show ?thesis by (cases p) (intro that [of d' res "snd p"]; auto split: if_splits)
  qed
qed

lemma session_save_spec:
  assumes ok: "handle_ok E view pend d" and s: "sessions_ok (db_view view d)" and w: "writes_ok E"
    and fits: "session_fits r"
  obtains d' where "session_save E r d = Some (d', None)" "handle_ok E view pend d'"
    "sessions_ok (db_view view d')"
    "session_rows (db_view view d')
      = (session_rows (db_view view d))(s_Id r \<mapsto> (r, time_Now E (db_tick d) + session_ttl))"
proof -
  let ?pk = "encodeSessionPrimaryKey (s_Id r)" and ?t = "time_Now E (db_tick d) + session_ttl"
  obtain d0 where now: "db_now E d = (time_Now E (db_tick d), d0)" by (simp add: db_now_def)
  then have d0: "handle_ok E view pend d0" "db_view view d0 = db_view view d"
    using handle_ok_now [of E view pend d] db_pebble_now [of E d] ok by auto
  have ser: "session_SerializeWithExpiry ?t r = Some (session_bytes ?t r)"
    "session_dec (session_bytes ?t r) = Some (r, ?t)"
    using session_Serialize_eq [of ?t r] DeserializeSessionMeta_bytes [OF fits, of ?t "[]"]
    by (simp_all add: session_dec_def)
  obtain d1 res t where g: "session_Get E (s_Id r) d0 = Some (d1, Inr res)" "handle_ok E view pend d1"
    "sessions_ok (db_view view d1)" "session_rows (db_view view d1) (s_Id r) = map_option (\<lambda>m. (m, t)) res"
    "\<And>j. j \<noteq> s_Id r \<Longrightarrow> session_rows (db_view view d1) j = session_rows (db_view view d0) j"
    using session_Get_left [OF d0(1) _ w, of "s_Id r"] s d0(2) by metis
  let ?m = "db_view view d1"
  let ?ops = "(kv_put (EncodeKey session_tableID ?pk) (session_bytes ?t r) # session_index_deletes res ?pk)
    @ [kv_put (EncodeIndexKey session_tableID 3 (encodeSessionIndexUserIdValue (s_UserId r)) ?pk) ?pk]"
  have wr: "map kv_write ?ops = save_writes session_tableID encodeSessionPrimaryKey session_keys (s_Id r)
      (session_bytes ?t r) (session_rows ?m (s_Id r)) (r, ?t)"
    by (simp add: session_deletes_writes [of res "s_Id r" t] save_writes_def session_keys_def g(4))
  obtain d2 err where d2: "db_WriteBatch E ?ops d1 = (d2, err)" "handle_ok E view pend d2"
    "err = None \<Longrightarrow> db_view view d2 = apply_writes (map kv_write ?ops) ?m"
    using handle.writeE [OF g(2), of ?ops] by metis
  have "[] \<notin> kp_Key ` set ?ops"
    by (cases res) (auto simp: session_index_deletes_def index_key_prefix eq_commute [of "[]"])
  then have err: "err = None" using WriteBatch_ok [OF w, of d1 ?ops] g(2) d2(1) by (simp add: handle_ok_def)
  have m2: "db_view view d2 = apply_writes (save_writes session_tableID encodeSessionPrimaryKey session_keys
      (s_Id r) (session_bytes ?t r) (session_rows ?m (s_Id r)) (r, ?t)) ?m"
    by (rule d2(3) [OF err, unfolded wr])
  have free: "?m k = None \<or> ?m k = Some ?pk" if "k \<in> set (session_keys (s_Id r) (r, ?t))" for k
    using that user_id_entry [OF g(3)] by (cases "?m k") (auto simp: session_keys_def)
  have "sessions_ok (db_view view d2)"
    unfolding m2 sessions_ok_def session_rows_def using ser(2) free
    by (intro sessions.save_ok g(3) [unfolded sessions_ok_def]) (auto simp: session_rid_def)
  moreover have "session_rows (db_view view d2) = (session_rows ?m)(s_Id r \<mapsto> (r, ?t))"
    unfolding m2 unfolding session_rows_def by (rule sessions.save_rows [OF ser(2)])
  moreover have "(session_rows ?m)(s_Id r \<mapsto> (r, ?t)) = (session_rows (db_view view d))(s_Id r \<mapsto> (r, ?t))"
    using g(5) d0(2) by (auto simp: fun_eq_iff)
  moreover have "session_save E r d = Some (d2, None)"
    using now ser(1) g(1) d2(1) err by (simp add: session_save_def Let_def)
  ultimately show ?thesis using d2(2) by (intro that [of d2]) auto
qed

lemma session_Delete_spec:
  assumes ok: "handle_ok E view pend d" and s: "sessions_ok (db_view view d)" and w: "writes_ok E"
  obtains d' where "session_Delete E i d = Some (d', None)" "handle_ok E view pend d'"
    "sessions_ok (db_view view d')" "session_rows (db_view view d') = (session_rows (db_view view d))(i := None)"
proof -
  let ?pk = "encodeSessionPrimaryKey i"
  obtain d1 res t where g: "session_Get E i d = Some (d1, Inr res)" "handle_ok E view pend d1"
    "sessions_ok (db_view view d1)" "session_rows (db_view view d1) i = map_option (\<lambda>m. (m, t)) res"
    "\<And>j. j \<noteq> i \<Longrightarrow> session_rows (db_view view d1) j = session_rows (db_view view d) j"
    using session_Get_left [OF ok s w, of i] by metis
  let ?m = "db_view view d1"
  let ?ops = "kv_del (EncodeKey session_tableID ?pk) # session_index_deletes res ?pk"
  have wr: "map kv_write ?ops
      = delete_writes session_tableID encodeSessionPrimaryKey session_keys i (session_rows ?m i)"
    by (simp add: session_deletes_writes [of res i t] delete_writes_def g(4))
  obtain d2 err where d2: "db_WriteBatch E ?ops d1 = (d2, err)" "handle_ok E view pend d2"
    "err = None \<Longrightarrow> db_view view d2 = apply_writes (map kv_write ?ops) ?m"
    using handle.writeE [OF g(2), of ?ops] by metis
  have "[] \<notin> kp_Key ` set ?ops"
    by (cases res) (auto simp: session_index_deletes_def index_key_prefix eq_commute [of "[]"])
  then have err: "err = None" using WriteBatch_ok [OF w, of d1 ?ops] g(2) d2(1) by (simp add: handle_ok_def)
  have m2: "db_view view d2 = apply_writes
      (delete_writes session_tableID encodeSessionPrimaryKey session_keys i (session_rows ?m i)) ?m"
    by (rule d2(3) [OF err, unfolded wr])
  have "sessions_ok (db_view view d2)"
    unfolding m2 sessions_ok_def session_rows_def
    using g(3) [unfolded sessions_ok_def] by (rule sessions.delete_ok) (rule refl)
  moreover have "session_rows (db_view view d2) = (session_rows ?m)(i := None)"
    unfolding m2 unfolding session_rows_def by (rule sessions.delete_rows)
  moreover have "(session_rows ?m)(i := None) = (session_rows (db_view view d))(i := None)"
    using g(5) by (auto simp: fun_eq_iff)
  moreover have "session_Delete E i d = Some (d2, None)"
    using g(1) d2(1) err by (simp add: session_Delete_def Let_def)
  ultimately show ?thesis using d2(2) by (intro that [of d2]) auto
qed

section \<open>Purging\<close>

definition entry_expired :: "64 word \<Rightarrow> bytes \<times> bytes \<Rightarrow> bool" where
  "entry_expired now e \<longleftrightarrow> (case session_dec (snd e) of None \<Rightarrow> False | Some (m, t) \<Rightarrow> expired_at t now)"

lemma purge_entry:
  assumes ok: "handle_ok E view pend d" and s: "sessions_ok (db_view view d)" and w: "writes_ok E"
    and e: "db_view view d (fst e) = Some (snd e)" and k: "fst e = EncodeKey session_tableID (encodeSessionPrimaryKey i)"
  obtains d' where "purge_body E now (fst e) (snd e) (d, c)
      = Some ((d', if entry_expired now e then Suc c else c), False)"
    "handle_ok E view pend d'" "sessions_ok (db_view view d')"
    "session_rows (db_view view d')
      = (if entry_expired now e then (session_rows (db_view view d))(i := None) else session_rows (db_view view d))"
    "\<forall>b. b \<noteq> encodeSessionPrimaryKey i \<longrightarrow>
      db_view view d' (EncodeKey session_tableID b) = db_view view d (EncodeKey session_tableID b)"
proof -
  let ?m = "db_view view d"
  obtain p where p: "session_dec (snd e) = Some p"
    using sessions.ok_data [OF s [unfolded sessions_ok_def], of "encodeSessionPrimaryKey i"] e k by metis
  then obtain m t where dec: "DeserializeSessionMeta (snd e) = Some (Inr (m, t))"
    by (cases p) (auto simp: session_dec_def split: option.splits sum.splits)
  then have sd: "session_dec (snd e) = Some (m, t)" by (simp add: session_dec_def)
  have row: "session_rows ?m i = Some (m, t)"
    using e k sd by (simp add: session_rows_def table_rows_def)
  show ?thesis
  proof (cases "expired_at t now")
    case False
    with ok s dec sd show ?thesis
      by (intro that [of d]) (auto simp: purge_body_def entry_expired_def)
  next
    case True
    let ?ops = "[kv_del (EncodeKey session_tableID (encodeSessionPrimaryKey i)),
      kv_del (EncodeIndexKey session_tableID 3 (encodeSessionIndexUserIdValue (s_UserId m)) (encodeSessionPrimaryKey i))]"
    obtain d3 err where d3: "db_WriteBatch E ?ops d = (d3, err)" "handle_ok E view pend d3"
      "err = None \<Longrightarrow> db_view view d3 = apply_writes (map kv_write ?ops) ?m"
      using handle.writeE [OF ok, of ?ops] by metis
    have err: "err = None"
      using WriteBatch_ok [OF w, of d ?ops] ok d3(1) by (simp add: handle_ok_def index_key_prefix)
    then have m3: "db_view view d3
        = apply_writes (delete_writes session_tableID encodeSessionPrimaryKey session_keys i (Some (m, t))) ?m"
      using d3(3) session_delete_writes [of i m t] by metis
    have "purge_body E now (fst e) (snd e) (d, c) = Some ((d3, Suc c), False)"
      using dec True d3(1) err session_delete_eq [of E i m d] by (simp add: purge_body_def k)
    moreover have "db_view view d3 (EncodeKey session_tableID b) = ?m (EncodeKey session_tableID b)"
      if "b \<noteq> encodeSessionPrimaryKey i" for b
      unfolding m3 using that sessions.data_not_keys by (auto simp: sessions.delete_at key_simps)
    ultimately show ?thesis
      using session_delete_ok [OF s row m3] d3(2) sd True
      by (intro that [of d3]) (auto simp: entry_expired_def)
  qed
qed

lemma purge_list:
  assumes "writes_ok E"
  shows "handle_ok E view pend d \<Longrightarrow> sessions_ok (db_view view d) \<Longrightarrow>
    (\<And>e. e \<in> set es \<Longrightarrow> db_view view d (fst e) = Some (snd e)
      \<and> (\<exists>i. fst e = EncodeKey session_tableID (encodeSessionPrimaryKey i))) \<Longrightarrow> distinct (map fst es) \<Longrightarrow>
    \<exists>d'. list_for (\<lambda>e. purge_body E now (fst e) (snd e)) es (d, c)
        = Some (d', c + length (filter (entry_expired now) es))
      \<and> handle_ok E view pend d' \<and> sessions_ok (db_view view d')
      \<and> session_rows (db_view view d') = (\<lambda>i.
          if \<exists>e \<in> set es. fst e = EncodeKey session_tableID (encodeSessionPrimaryKey i) \<and> entry_expired now e
          then None else session_rows (db_view view d) i)"
proof (induction es arbitrary: d c)
  case (Cons e es)
  obtain i where i: "db_view view d (fst e) = Some (snd e)"
    "fst e = EncodeKey session_tableID (encodeSessionPrimaryKey i)"
    using Cons.prems(3) [of e] by auto
  obtain d1 where d1: "purge_body E now (fst e) (snd e) (d, c)
      = Some ((d1, if entry_expired now e then Suc c else c), False)"
    "handle_ok E view pend d1" "sessions_ok (db_view view d1)"
    "session_rows (db_view view d1)
      = (if entry_expired now e then (session_rows (db_view view d))(i := None) else session_rows (db_view view d))"
    "\<forall>b. b \<noteq> encodeSessionPrimaryKey i \<longrightarrow>
      db_view view d1 (EncodeKey session_tableID b) = db_view view d (EncodeKey session_tableID b)"
    using purge_entry [OF Cons.prems(1,2) assms i, of now c] .
  have rest: "db_view view d1 (fst e') = Some (snd e')
      \<and> (\<exists>j. fst e' = EncodeKey session_tableID (encodeSessionPrimaryKey j))" if in_es: "e' \<in> set es" for e'
  proof -
    obtain j where j: "fst e' = EncodeKey session_tableID (encodeSessionPrimaryKey j)"
      "db_view view d (fst e') = Some (snd e')"
      using Cons.prems(3) [of e'] in_es by auto
    have "fst e' \<noteq> fst e" using Cons.prems(4) imageI [OF in_es, of fst] by (metis distinct.simps(2) image_set list.simps(9))
    then have "encodeSessionPrimaryKey j \<noteq> encodeSessionPrimaryKey i" using i(2) j(1) by auto
    with d1(5) j show ?thesis by auto
  qed
  from Cons.IH [OF d1(2,3) rest, of "if entry_expired now e then Suc c else c"] Cons.prems(4)
  obtain d' where d': "list_for (\<lambda>e. purge_body E now (fst e) (snd e)) es (d1, if entry_expired now e then Suc c else c)
        = Some (d', (if entry_expired now e then Suc c else c) + length (filter (entry_expired now) es))"
      "handle_ok E view pend d'" "sessions_ok (db_view view d')"
      "session_rows (db_view view d') = (\<lambda>i.
          if \<exists>e \<in> set es. fst e = EncodeKey session_tableID (encodeSessionPrimaryKey i) \<and> entry_expired now e
          then None else session_rows (db_view view d1) i)" by auto
  have "EncodeKey session_tableID (encodeSessionPrimaryKey i) = EncodeKey session_tableID (encodeSessionPrimaryKey j)
      \<longleftrightarrow> i = j" for j using sessions.pk_inj by (auto simp: key_simps)
  with d1(1,4) d' i(2) show ?case by (intro exI [of _ d']) (auto simp: fun_eq_iff)
qed simp

lemma session_scan:
  assumes fin: "finite (dom m)" and s: "sessions_ok m"
  shows "e \<in> set (filter (\<lambda>e. prefix (EncodeKey session_tableID []) (fst e)) (sorted_entries m))
    \<longleftrightarrow> (\<exists>i. fst e = EncodeKey session_tableID (encodeSessionPrimaryKey i) \<and> m (fst e) = Some (snd e))"
proof -
  have "prefix (EncodeKey session_tableID []) (fst e) \<longleftrightarrow> (\<exists>b. fst e = EncodeKey session_tableID b)"
    by (auto simp: prefix_def EncodeKey_def)
  moreover have "e \<in> set (sorted_entries m) \<longleftrightarrow> m (fst e) = Some (snd e)"
    using sorted_entries_set [OF fin, of "fst e" "snd e"] by simp
  ultimately show ?thesis
    using sessions.ok_data [OF s [unfolded sessions_ok_def]] by auto metis
qed


section \<open>A platform for the witnesses\<close>

text \<open>The in-memory platform with a clock that stands at \<open>now\<close> and commits that never fail.\<close>

definition calm_platform :: "64 word \<Rightarrow> (mem_store, (bytes \<times> bytes option) list, mem_iter) platform" where
  "calm_platform now = mem_platform
     \<lparr>pb_Commit := (\<lambda>b s p. ((fold mem_put b (fst p), snd p), None)), time_Now := (\<lambda>n. now)\<rparr>"

lemma calm_laws:
  "engine_laws (calm_platform now) mem_view id" "reads_ok (calm_platform now) mem_view"
  "iter_laws (calm_platform now) mem_view fst snd" "zstd_laws (calm_platform now)"
  "writes_ok (calm_platform now)"
proof -
  show "engine_laws (calm_platform now) mem_view id"
    using mem_engine_laws
    by (simp add: engine_laws_def calm_platform_def mem_platform_def write_law_def mem_view_def
        map_of_fold_mem_put)
  show "iter_laws (calm_platform now) mem_view fst snd"
    using mem_iter_laws by (simp add: iter_laws_def calm_platform_def)
qed (use mem_reads_ok mem_zstd_laws in
    \<open>simp_all add: reads_ok_def zstd_laws_def writes_ok_def calm_platform_def mem_platform_def\<close>)

lemma calm_time [simp]: "time_Now (calm_platform now) n = now" by (simp add: calm_platform_def)

lemma example_handle: "handle_ok (calm_platform now) mem_view id (with_pebble p example_db)"
proof -
  have "db_inv (\<lambda>p. Map.empty) example_db \<and> \<not> db_closed example_db"
    by (rule Open_inv [OF example_db_open])
  then have "cache_coherent mem_view (with_pebble p example_db)" "queue_idle example_db"
    by (auto simp: db_inv_def cache_coherent_def map_le_def dom_def) (metis option.distinct(1))
  then show ?thesis using calm_laws by (simp add: handle_ok_def db_inv_def)
qed

lemma example_iterate: "p \<noteq> [] \<Longrightarrow> db_Iterate (calm_platform now) p (with_pebble s example_db) \<noteq> None"
  by (simp add: db_Iterate_def calm_platform_def mem_platform_def)

lemma users_ok_Nil: "users_ok E (mem_view ([], s))" "user_rows E (mem_view ([], s)) = Map.empty"
  using users_ok_empty [of "mem_view ([], s)" E] by (simp_all add: mem_view_def)

lemma sessions_ok_Nil: "sessions_ok (mem_view ([], s))" "session_rows (mem_view ([], s)) = Map.empty"
  by (auto simp: sessions_ok_def table_ok_def session_rows_def table_rows_def mem_view_def)

section \<open>Properties of the stores\<close>

text \<open>
  C2. The user store is a table with a unique column: every history of \<open>Create\<close>, \<open>Update\<close>,
  \<open>Delete\<close> and \<open>Get\<close> runs without a panic and answers as a map from ids to users does in which a
  save whose email another user holds is refused with \<open>ErrDuplicateKey\<close> and changes nothing, and
  any other save or deletion acts exactly when it returns no error (and returns none when no write of
  the engine fails).  Afterwards the stored index
  entries are exactly those of the stored users, and no two users have the same email.
\<close>

theorem user_store_refines_table:
  assumes "handle_ok E view pend d" and "users_ok E (db_view view d)" and "zstd_laws E"
    and "list_all user_op_fits ops"
  shows "\<exists>d' tr. user_run E ops d = Some (d', tr)
    \<and> map fst tr = ops
    \<and> user_spec_run (writes_ok E) tr (user_rows E (db_view view d)) = Some (user_rows E (db_view view d'))
    \<and> users_ok E (db_view view d')
    \<and> (\<forall>i j u v. user_rows E (db_view view d') i = Some u \<and> user_rows E (db_view view d') j = Some v
         \<and> u_Email u = u_Email v \<longrightarrow> i = j)"
proof -
  obtain d' tr where r: "user_run E ops d = Some (d', tr)" "users_ok E (db_view view d')"
    "user_spec_run (writes_ok E) tr (user_rows E (db_view view d)) = Some (user_rows E (db_view view d'))"
    using user_run_refines [OF assms(3,1,2,4)] by blast
  moreover have "map fst tr = ops" using user_run_ops [OF r(1)] .
  moreover have "i = j" if "user_rows E (db_view view d') i = Some u"
    "user_rows E (db_view view d') j = Some v" "u_Email u = u_Email v" for i j u v
    using email_unique [OF r(2), of "u_Email u" i j] that by (auto simp: email_holder_def)
  ultimately show ?thesis by blast
qed

text \<open>Witness: a user is created on an empty store, a second one with the same email is refused.\<close>

theorem user_store_refines_table_witness:
  "\<exists>d' e. user_run (calm_platform 0) [UCreate example_user, UCreate (example_user\<lparr>u_Id := 8\<rparr>), UGet 8]
      (with_pebble ([], []) example_db)
      = Some (d', [(UCreate example_user, UErr None),
          (UCreate (example_user\<lparr>u_Id := 8\<rparr>), UErr (Some e)), (UGet 8, UGot (Inr None))])
    \<and> errors_is e ErrDuplicateKey"
proof -
  let ?E = "calm_platform 0" and ?d = "with_pebble ([], []) example_db"
  let ?u = "example_user\<lparr>u_Id := 8\<rparr>"
  let ?ops = "[UCreate example_user, UCreate ?u, UGet 8]"
  have "list_all user_op_fits ?ops" by (simp add: user_fits_def example_user_def)
  with user_store_refines_table [OF example_handle _ calm_laws(4), of 0 "([], [])" ?ops]
  obtain d' tr where tr: "user_run ?E ?ops ?d = Some (d', tr)" "map fst tr = ?ops"
    "user_spec_run (writes_ok ?E) tr Map.empty = Some (user_rows ?E (mem_view (db_pebble d')))"
    by (auto simp: users_ok_Nil)
  then obtain r1 r2 r3 where t: "tr = [(UCreate example_user, r1), (UCreate ?u, r2), (UGet 8, r3)]"
    by (auto simp: map_eq_Cons_conv)
  have r1: "r1 = UErr None"
    using tr(3) calm_laws(5) [of 0]
    by (cases r1) (auto simp: t save_allowed_def email_taken_def split: if_splits)
  have taken: "email_taken [u_Id example_user \<mapsto> example_user] ?u"
    by (simp add: email_taken_def example_user_def)
  obtain e where r2: "r2 = UErr (Some e)" "errors_is e ErrDuplicateKey"
    using tr(3) taken by (cases r2) (auto simp: t r1 save_allowed_def split: if_splits)
  have "r3 = UGot (Inr None)"
    using tr(3) by (cases r3) (auto simp: t r1 r2 example_user_def split: if_splits)
  with tr(1) t r1 r2 show ?thesis by blast
qed

text \<open>
  C28. Expired sessions are invisible: \<open>Get\<close> returns the stored session as long as it has no
  expiry time or the clock has not passed it, and nothing is changed then; once the clock has
  passed the expiry time it returns no session and removes the row with its index entry.
\<close>

theorem session_get_expires:
  assumes "handle_ok E view pend d" and "sessions_ok (db_view view d)" and "writes_ok E"
  shows "\<exists>d' res n. session_Get E i d = Some (d', Inr res) \<and> db_tick d \<le> n
    \<and> sessions_ok (db_view view d')
    \<and> (case session_rows (db_view view d) i of
         None \<Rightarrow> res = None \<and> db_view view d' = db_view view d
       | Some (m, t) \<Rightarrow>
           if 0 <s t \<and> t <s time_Now E n
           then res = None \<and> session_rows (db_view view d') = (session_rows (db_view view d))(i := None)
           else res = Some m \<and> db_view view d' = db_view view d)"
proof -
  obtain d' res n where "session_Get E i d = Some (d', Inr res)" "handle_ok E view pend d'"
    "sessions_ok (db_view view d')" "db_tick d \<le> n"
    "case session_rows (db_view view d) i of
       None \<Rightarrow> res = None \<and> db_view view d' = db_view view d
     | Some (m, t) \<Rightarrow>
         if expired_at t (time_Now E n)
         then res = None \<and> session_rows (db_view view d') = (session_rows (db_view view d))(i := None)
         else res = Some m \<and> db_view view d' = db_view view d"
    using session_Get_spec [OF assms, of i] .
  then show ?thesis
    unfolding expired_at_def [symmetric] by (intro exI [of _ d'] exI [of _ res] exI [of _ n] conjI)
qed

text \<open>
  Saving and deleting sessions: \<open>Create\<close> and \<open>Update\<close> of a session store it with an expiry
  time one second after the clock reading they start with, \<open>Delete\<close> removes it, no other row changes, and the
  stored index entries are again exactly those of the stored rows.
\<close>

theorem session_writes_exact:
  assumes "handle_ok E view pend d" and "sessions_ok (db_view view d)" and "writes_ok E"
    and "session_fits r"
  shows "\<exists>d1 d2. session_Create E (Some r) d = Some (d1, None) \<and> session_Update E (Some r) d = Some (d1, None)
    \<and> session_rows (db_view view d1)
        = (session_rows (db_view view d))(s_Id r \<mapsto> (r, time_Now E (db_tick d) + 1000000000))
    \<and> sessions_ok (db_view view d1)
    \<and> session_Delete E i d = Some (d2, None)
    \<and> session_rows (db_view view d2) = (session_rows (db_view view d))(i := None)
    \<and> sessions_ok (db_view view d2)"
proof -
  obtain d1 where "session_save E r d = Some (d1, None)" "sessions_ok (db_view view d1)"
    "session_rows (db_view view d1)
      = (session_rows (db_view view d))(s_Id r \<mapsto> (r, time_Now E (db_tick d) + session_ttl))"
    using session_save_spec [OF assms] by metis
  moreover obtain d2 where "session_Delete E i d = Some (d2, None)" "sessions_ok (db_view view d2)"
    "session_rows (db_view view d2) = (session_rows (db_view view d))(i := None)"
    using session_Delete_spec [OF assms(1-3), of i] by metis
  ultimately show ?thesis
    by (intro exI [of _ d1] exI [of _ d2]) (simp add: session_Create_def session_Update_def session_ttl_def)
qed

abbreviation session_entries :: "kv_map \<Rightarrow> (bytes \<times> bytes) list" where
  "session_entries m \<equiv> filter (\<lambda>e. prefix (EncodeKey session_tableID []) (fst e)) (sorted_entries m)"

definition expired_ids :: "64 word \<Rightarrow> kv_map \<Rightarrow> 64 word set" where
  "expired_ids now m = {i. \<exists>r t. session_rows m i = Some (r, t) \<and> expired_at t now}"

lemma expired_entry:
  assumes "finite (dom m)" and "sessions_ok m"
  shows "(\<exists>e \<in> set (session_entries m).
      fst e = EncodeKey session_tableID (encodeSessionPrimaryKey i) \<and> entry_expired now e)
    \<longleftrightarrow> i \<in> expired_ids now m"
proof -
  let ?k = "EncodeKey session_tableID (encodeSessionPrimaryKey i)"
  have "(\<exists>e \<in> set (session_entries m). fst e = ?k \<and> entry_expired now e)
      \<longleftrightarrow> (\<exists>e. m ?k = Some (snd e) \<and> fst e = ?k \<and> entry_expired now e)"
    unfolding Bex_def session_scan [OF assms] by metis
  also have "\<dots> \<longleftrightarrow> (\<exists>v. m ?k = Some v \<and> entry_expired now (?k, v))"
    by (metis fst_conv snd_conv prod.collapse)
  also have "\<dots> \<longleftrightarrow> i \<in> expired_ids now m"
    by (cases "m ?k")
      (auto simp: entry_expired_def expired_ids_def session_rows_def table_rows_def split: option.split)
  finally show ?thesis .
qed

lemma purge_count:
  assumes fin: "finite (dom m)" and ok: "sessions_ok m"
  shows "length (filter (entry_expired now) (session_entries m)) = card (expired_ids now m)"
    (is "length ?es = _")
proof -
  let ?key = "\<lambda>i. EncodeKey session_tableID (encodeSessionPrimaryKey i)"
  have "distinct (map fst ?es)"
    using sorted_entries_keys [OF fin] by (simp add: distinct_map_filter)
  from distinct_card [OF this] have "length ?es = card (fst ` set ?es)" by simp
  also have "fst ` set ?es = ?key ` expired_ids now m"
  proof (intro equalityI subsetI)
    fix k assume "k \<in> fst ` set ?es"
    then obtain e where e: "k = fst e" "e \<in> set (session_entries m)" "entry_expired now e" by auto
    then obtain i where "fst e = ?key i" using session_scan [OF fin ok, of e] by blast
    with e show "k \<in> ?key ` expired_ids now m" using expired_entry [OF fin ok, of i now] by blast
  next
    fix k assume "k \<in> ?key ` expired_ids now m"
    then obtain i where i: "k = ?key i" "i \<in> expired_ids now m" by blast
    then obtain e where "e \<in> set (session_entries m)" "fst e = k" "entry_expired now e"
      using expired_entry [OF fin ok, of i now] by blast
    then show "k \<in> fst ` set ?es" by (intro image_eqI [of _ _ e]) auto
  qed
  also have "card \<dots> = card (expired_ids now m)"
    using sessions.pk_inj by (intro card_image) (auto simp: inj_on_def key_simps)
  finally show ?thesis .
qed

lemma PurgeExpired_spec:
  assumes ok: "handle_ok E view pend d" and s: "sessions_ok (db_view view d)" and w: "writes_ok E"
    and it: "iter_laws E view snap pos"
  obtains d' where
    "PurgeExpired E d = Some (d', card (expired_ids (time_Now E (db_tick d)) (db_view view d)))"
    "sessions_ok (db_view view d')"
    "session_rows (db_view view d') = (\<lambda>i.
       if i \<in> expired_ids (time_Now E (db_tick d)) (db_view view d) then None
       else session_rows (db_view view d) i)"
proof -
  let ?m = "db_view view d" and ?now = "time_Now E (db_tick d)" and ?p = "EncodeKey session_tableID []"
  let ?es = "session_entries ?m"
  have fin: "finite (dom ?m)" using iter_finite [OF it] .
  obtain x where x: "db_Iterate E ?p d = Some x"
    using iter_laws_new [OF it, of "db_pebble d" ?p] ok
    by (auto simp: db_Iterate_def handle_ok_def)
  obtain d1 where d1: "db_now E d = (?now, d1)" by (simp add: db_now_def)
  have ok1: "handle_ok E view pend d1" "db_view view d1 = ?m"
    using handle_ok_now [of E view pend d] db_pebble_now [of E d] ok d1 by auto
  have entries: "db_view view d1 (fst e) = Some (snd e)
      \<and> (\<exists>i. fst e = EncodeKey session_tableID (encodeSessionPrimaryKey i))" if "e \<in> set ?es" for e
    using that unfolding session_scan [OF fin s] ok1(2) by blast
  have dist: "distinct (map fst ?es)"
    using sorted_entries_keys [OF fin] by (simp add: distinct_map_filter)
  have s1: "sessions_ok (db_view view d1)" using s ok1(2) by simp
  from purge_list [OF w ok1(1) s1 entries dist, of ?now 0]
  obtain d' where d': "list_for (\<lambda>e. purge_body E ?now (fst e) (snd e)) ?es (d1, 0)
        = Some (d', 0 + length (filter (entry_expired ?now) ?es))"
      "sessions_ok (db_view view d')"
      "session_rows (db_view view d') = (\<lambda>i.
          if \<exists>e \<in> set ?es. fst e = EncodeKey session_tableID (encodeSessionPrimaryKey i) \<and> entry_expired ?now e
          then None else session_rows (db_view view d1) i)" by blast
  have "PurgeExpired E d = Some (d', length (filter (entry_expired ?now) ?es))"
    using x d1 d'(1) by (simp add: PurgeExpired_def it_for_iterate [OF it x])
  then show ?thesis
    using d'(2,3) purge_count [OF fin s, of ?now]
    unfolding expired_entry [OF fin s] ok1(2) by (intro that [of d']) simp_all
qed

text \<open>
  C22. \<open>PurgeExpired\<close> is exact: the loop over the table ends, the count it returns is the number of
  rows whose expiry time the clock had passed when it started, exactly these rows are gone
  afterwards, and index entries and rows still agree.
\<close>

theorem purge_expired_exact:
  assumes "handle_ok E view pend d" and "sessions_ok (db_view view d)" and "writes_ok E"
    and "iter_laws E view snap pos"
  shows "let rows = session_rows (db_view view d);
      gone = {i. \<exists>m t. rows i = Some (m, t) \<and> 0 <s t \<and> t <s time_Now E (db_tick d)} in
    \<exists>d'. PurgeExpired E d = Some (d', card gone) \<and> sessions_ok (db_view view d')
      \<and> session_rows (db_view view d') = rows |` (- gone)"
proof -
  obtain d' where "PurgeExpired E d = Some (d', card (expired_ids (time_Now E (db_tick d)) (db_view view d)))"
    "sessions_ok (db_view view d')"
    "session_rows (db_view view d') = (\<lambda>i.
       if i \<in> expired_ids (time_Now E (db_tick d)) (db_view view d) then None
       else session_rows (db_view view d) i)"
    using PurgeExpired_spec [OF assms] .
  then show ?thesis
    unfolding Let_def expired_at_def [symmetric] expired_ids_def [symmetric]
    by (intro exI [of _ d']) (simp add: fun_eq_iff restrict_map_def)
qed

text \<open>A stored session and its index entry.\<close>

definition example_session :: Session where
  "example_session = \<lparr>s_Id = 1, s_Token = [9], s_UserId = [8], s_Active = True\<rparr>"

definition one_session :: "64 word \<Rightarrow> mem_store" where
  "one_session t = (fold mem_put (save_writes session_tableID encodeSessionPrimaryKey session_keys 1
     (session_bytes t example_session) None (example_session, t)) [], [])"

lemma one_session_ok:
  "sessions_ok (mem_view (one_session t))" "session_rows (mem_view (one_session t)) = [1 \<mapsto> (example_session, t)]"
proof -
  have dec: "session_dec (session_bytes t example_session) = Some (example_session, t)"
    using DeserializeSessionMeta_bytes [of example_session t "[]"]
    by (simp add: session_dec_def session_fits_def example_session_def)
  have m: "mem_view (one_session t) = apply_writes (save_writes session_tableID encodeSessionPrimaryKey session_keys 1
     (session_bytes t example_session) None (example_session, t)) Map.empty"
    by (simp add: one_session_def mem_view_def map_of_fold_mem_put)
  note nil = sessions_ok_Nil [of "[]", unfolded mem_view_def, simplified]
  show "sessions_ok (mem_view (one_session t))"
    unfolding m sessions_ok_def using nil dec
    by (intro sessions.save_ok) (simp_all add: sessions_ok_def session_rows_def session_rid_def example_session_def)
  show "session_rows (mem_view (one_session t)) = [1 \<mapsto> (example_session, t)]"
    using sessions.save_rows [OF dec, of 1 None Map.empty] nil by (simp add: m session_rows_def)
qed

text \<open>Witness: at time 10 a session that expired at 5 is gone.\<close>

theorem session_get_expires_witness:
  "\<exists>d'. session_Get (calm_platform 10) 1 (with_pebble (one_session 5) example_db) = Some (d', Inr None)
    \<and> session_rows (mem_view (db_pebble d')) = Map.empty"
  using session_get_expires [OF example_handle [of 10 "one_session 5"] _ calm_laws(5), of 1]
  by (auto simp: one_session_ok word_sless_alt)

text \<open>Witness: saving a session on an empty store at time 10, and deleting another id.\<close>

theorem session_writes_exact_witness:
  "\<exists>d1. session_Create (calm_platform 10) (Some example_session) (with_pebble ([], []) example_db) = Some (d1, None)
    \<and> session_rows (mem_view (db_pebble d1)) = [1 \<mapsto> (example_session, 1000000010)]"
  using session_writes_exact [OF example_handle [of 10 "([], [])"] _ calm_laws(5), of example_session 2]
  by (auto simp: sessions_ok_Nil session_fits_def example_session_def)

text \<open>Witness: at time 10 one session has expired and is purged.\<close>

theorem purge_expired_exact_witness:
  "\<exists>d'. PurgeExpired (calm_platform 10) (with_pebble (one_session 5) example_db) = Some (d', 1)
    \<and> session_rows (mem_view (db_pebble d')) = Map.empty"
proof -
  have "{i. \<exists>m t. [1 \<mapsto> (example_session, 5)] i = Some (m, t) \<and> 0 <s t \<and> t <s (10 :: 64 word)} = {1 :: 64 word}"
    by (auto simp: word_sless_alt split: if_splits)
  then show ?thesis
    using purge_expired_exact [OF example_handle [of 10 "one_session 5"] _ calm_laws(5) calm_laws(3)]
    by (auto simp: one_session_ok fun_eq_iff restrict_map_def word_sless_alt)
qed


text \<open>What \<open>Get\<close> leaves when a write of the engine may fail.\<close>

lemma session_Get_unreliable:
  assumes ok: "handle_ok E view pend d" and s: "sessions_ok (db_view view d)"
    and g: "session_Get E i d = Some (d', Inr None)" and row: "session_rows (db_view view d') i \<noteq> None"
  shows "handle_ok E view pend d' \<and> db_view view d' = db_view view d"
proof -
  let ?k = "EncodeKey session_tableID (encodeSessionPrimaryKey i)" and ?m = "db_view view d"
  obtain d1 where d1: "db_Get E ?k d = (d1, Inr (?m ?k))" "handle_ok E view pend d1" "db_view view d1 = ?m"
    using handle.getE [OF ok, of ?k] by auto
  show ?thesis
  proof (cases "?m ?k")
    case None
    then show ?thesis using g d1 by (simp add: session_Get_def Let_def)
  next
    case (Some v)
    then obtain p where "session_dec v = Some p"
      using sessions.ok_data [OF s [unfolded sessions_ok_def] Some] by blast
    then obtain m t where dec: "DeserializeSessionMeta v = Some (Inr (m, t))"
      by (cases p) (auto simp: session_dec_def split: option.splits sum.splits)
    then have old: "session_rows ?m i = Some (m, t)"
      using Some by (simp add: session_rows_def table_rows_def session_dec_def)
    obtain now d2 where now: "db_now E d1 = (now, d2)" by fastforce
    have d2: "handle_ok E view pend d2" "db_view view d2 = ?m"
      using handle_ok_now [of E view pend d1] db_pebble_now [of E d1] d1 now by auto
    let ?ops = "[kv_del ?k, kv_del (EncodeIndexKey session_tableID 3
        (encodeSessionIndexUserIdValue (s_UserId m)) (encodeSessionPrimaryKey i))]"
    obtain d3 err where d3: "db_WriteBatch E ?ops d2 = (d3, err)" "handle_ok E view pend d3"
      "err = None \<Longrightarrow> db_view view d3 = apply_writes (map kv_write ?ops) ?m"
      "err \<noteq> None \<Longrightarrow> db_view view d3 = ?m"
      using handle.writeE [OF d2(1), of ?ops] d2(2) by metis
    have d': "d' = d3"
      using g d1(1) Some dec now d3(1) session_delete_eq [of E i m d2]
      by (auto simp: session_Get_def Let_def split: if_splits)
    have "err \<noteq> None"
    proof
      assume "err = None"
      from d3(3) [OF this, unfolded session_delete_writes [of i m t]]
      have "session_rows (db_view view d3) = (session_rows ?m)(i := None)"
        using session_delete_ok [OF s old] by blast
      then have "session_rows (db_view view d3) i = None" by simp
      with row d' show False by simp
    qed
    with d3 d' show ?thesis by simp
  qed
qed

text \<open>
  An ignored error breaks the index: when the session to be replaced has expired, \<open>Create\<close>
  relies on \<open>Get\<close> to delete the old row with its index entry; if that deletion fails, \<open>Get\<close> still
  answers "no record" and \<open>Create\<close> can succeed, and then the index entry of the old user id stays in
  the store, pointing to a session of another user; nothing removes it later.
\<close>

theorem failed_lazy_delete_leaves_index:
  assumes "handle_ok E view pend d" and "sessions_ok (db_view view d)" and "session_fits r"
    and "session_rows (db_view view d) (s_Id r) = Some (old, t)" and "s_UserId old \<noteq> s_UserId r"
    and "session_Get E (s_Id r) (snd (db_now E d)) = Some (d1, Inr None)"
    and "session_rows (db_view view d1) (s_Id r) \<noteq> None"
    and "session_Create E (Some r) d = Some (d2, None)"
  shows "db_view view d2 (EncodeIndexKey session_tableID 3 (s_UserId old) (encodeSessionPrimaryKey (s_Id r)))
      = Some (encodeSessionPrimaryKey (s_Id r))
    \<and> (\<exists>t'. session_rows (db_view view d2) (s_Id r) = Some (r, t'))
    \<and> \<not> sessions_ok (db_view view d2)"
proof -
  let ?pk = "encodeSessionPrimaryKey (s_Id r)" and ?m = "db_view view d"
  let ?ok = "EncodeIndexKey session_tableID 3 (s_UserId old) ?pk"
  let ?nk = "EncodeIndexKey session_tableID 3 (s_UserId r) ?pk"
  let ?t = "time_Now E (db_tick d) + session_ttl"
  obtain d0 where now: "db_now E d = (time_Now E (db_tick d), d0)" by (simp add: db_now_def)
  then have d0: "handle_ok E view pend d0" "db_view view d0 = ?m"
    using handle_ok_now [of E view pend d] db_pebble_now [of E d] assms(1) by auto
  have d1: "handle_ok E view pend d1" "db_view view d1 = ?m"
    using session_Get_unreliable [of E view pend d0 "s_Id r" d1] d0 assms(2,6,7) now by simp_all
  let ?ops = "[kv_put (EncodeKey session_tableID ?pk) (session_bytes ?t r), kv_put ?nk ?pk]"
  have w: "db_WriteBatch E ?ops d1 = (d2, None)"
    using assms(6,8) now session_Serialize_eq [of ?t r]
    by (simp add: session_Create_def session_save_def session_index_deletes_def
        encodeSessionIndexUserIdValue_def Let_def)
  then have m2: "db_view view d2 = ?m(EncodeKey session_tableID ?pk \<mapsto> session_bytes ?t r, ?nk \<mapsto> ?pk)"
    using handle.write_law [OF d1(1) w] d1(2) by simp
  have ne: "?ok \<noteq> ?nk" "?ok \<noteq> EncodeKey session_tableID b" "?nk \<noteq> EncodeKey session_tableID b" for b
    using assms(5) by (auto simp: index_key_prefix index_prefix_append_eq key_simps)
  have "?ok \<in> set (session_keys (s_Id r) (old, t))"
    by (simp add: session_keys_def encodeSessionIndexUserIdValue_def)
  then have "?m ?ok = Some ?pk"
    using sessions.ok_index [OF assms(2) [unfolded sessions_ok_def], of ?ok ?pk] assms(4)
    by (auto simp: session_rows_def)
  then have entry: "db_view view d2 ?ok = Some ?pk" using ne by (simp add: m2)
  have "session_dec (session_bytes ?t r) = Some (r, ?t)"
    using DeserializeSessionMeta_bytes [OF assms(3), of ?t "[]"] by (simp add: session_dec_def)
  then have row: "session_rows (db_view view d2) (s_Id r) = Some (r, ?t)"
    using ne(3) [symmetric] by (simp add: m2 session_rows_def table_rows_def)
  have "\<not> sessions_ok (db_view view d2)"
  proof
    assume "sessions_ok (db_view view d2)"
    then have t: "table_ok session_tableID encodeSessionPrimaryKey session_keys session_dec session_rid
        (db_view view d2)" by (simp only: sessions_ok_def)
    have "\<exists>j q. session_rows (db_view view d2) j = Some q \<and> ?ok \<in> set (session_keys j q)
        \<and> ?pk = encodeSessionPrimaryKey j"
      unfolding session_rows_def by (rule sessions.ok_index [OF t index_space_key, THEN iffD1, OF entry])
    then obtain j q where q: "session_rows (db_view view d2) j = Some q" "?ok \<in> set (session_keys j q)"
      "?pk = encodeSessionPrimaryKey j" by (elim exE conjE)
    have "j = s_Id r" using sessions.pk_inj [OF q(3)] ..
    then have "q = (r, ?t)" using row q(1) by simp
    then show False using q(2) ne(1) \<open>j = s_Id r\<close>
      by (simp add: session_keys_def encodeSessionIndexUserIdValue_def)
  qed
  with entry row show ?thesis by blast
qed

text \<open>Witness: the session of user 8 expired at 5; at time 10 it is replaced by one of user 7 while the first commit fails.\<close>

definition faulty_platform :: "(mem_store, (bytes \<times> bytes option) list, mem_iter) platform" where
  "faulty_platform = mem_platform\<lparr>time_Now := (\<lambda>n. 10)\<rparr>"

definition faulty_db :: "mem_store DB" where
  "faulty_db = (with_pebble (fst (one_session 5), [True]) example_db)\<lparr>db_hotCache := None\<rparr>"

lemma faulty_handle: "handle_ok faulty_platform mem_view id faulty_db"
proof -
  have "db_inv (\<lambda>p. Map.empty) example_db \<and> \<not> db_closed example_db"
    by (rule Open_inv [OF example_db_open])
  then have "db_inv mem_view faulty_db \<and> \<not> db_closed faulty_db"
    by (simp add: faulty_db_def db_inv_def cache_coherent_def queue_idle_def)
  moreover have "engine_laws faulty_platform mem_view id" "reads_ok faulty_platform mem_view"
    using mem_engine_laws mem_reads_ok by (simp_all add: engine_laws_def reads_ok_def faulty_platform_def)
  ultimately show ?thesis by (simp add: handle_ok_def)
qed

theorem failed_lazy_delete_leaves_index_witness:
  "let r = example_session\<lparr>s_UserId := [7]\<rparr>; d2 = fst (the (session_Create faulty_platform (Some r) faulty_db)) in
     mem_view (db_pebble d2) (EncodeIndexKey session_tableID 3 [8] (encodeSessionPrimaryKey 1))
       = Some (encodeSessionPrimaryKey 1)
     \<and> \<not> sessions_ok (mem_view (db_pebble d2))"
proof -
  let ?k = "EncodeKey session_tableID (encodeSessionPrimaryKey 1)"
  let ?r = "example_session\<lparr>s_UserId := [7]\<rparr>"
  have store: "mem_view (db_pebble faulty_db) = mem_view (one_session 5)"
    by (simp add: faulty_db_def mem_view_def)
  have "EncodeIndexKey session_tableID 3 [8] (encodeSessionPrimaryKey 1) \<noteq> ?k"
    by (simp add: key_simps index_key_prefix)
  then have at: "map_of (fst (one_session 5)) ?k = Some (session_bytes 5 example_session)"
    by (simp add: one_session_def save_writes_def index_dels_def session_keys_def
        encodeSessionIndexUserIdValue_def example_session_def)
  have dec: "DeserializeSessionMeta (session_bytes 5 example_session) = Some (Inr (example_session, 5))"
    using DeserializeSessionMeta_bytes [of example_session 5 "[]"]
    by (simp add: session_fits_def example_session_def)
  have cfg: "db_hotCache faulty_db = None" "db_metrics faulty_db = None" "db_closed faulty_db = False"
    "db_pebble faulty_db = (fst (one_session 5), [True])"
    by (simp_all add: faulty_db_def with_pebble_def)
  let ?d1 = "with_pebble (fst (one_session 5), []) (faulty_db\<lparr>db_tick := Suc (Suc (db_tick faulty_db))\<rparr>)"
  have key: "DecodeKey ?k = Some (Inr (session_tableID, encodeSessionPrimaryKey 1))"
    by (rule DecodeKey_EncodeKey)
  have now: "expired_at 5 10" "0 <s (5 :: 64 word)" "(5 :: 64 word) <s 10"
    by (simp_all add: expired_at_def word_sless_alt)
  have get: "session_Get faulty_platform 1 (snd (db_now faulty_platform faulty_db)) = Some (?d1, Inr None)"
    using key now dec at cfg
    by (simp add: session_Get_def db_Get_def db_get_def pebble_get_def startOp_def opTimer_finish_def db_now_def
        faulty_platform_def mem_platform_def deleteSessionWithIndexes_def db_WriteBatch_def db_writeBatch_def
        write_sync_def kv_del_def with_pebble_def cache_admit_def index_key_prefix Let_def)
  have "snd (db_WriteBatch faulty_platform ops ?d1) = None" if "[] \<notin> kp_Key ` set ops" for ops
  proof -
    have "snd (fill_batch faulty_platform ops b) = None" for b
      using that by (induction ops arbitrary: b)
        (auto simp: faulty_platform_def mem_platform_def eq_commute [of "[]"])
    then obtain b where "fill_batch faulty_platform ops [] = (b, None)" by (metis prod.collapse)
    then show ?thesis
      using cfg by (simp add: db_WriteBatch_def db_writeBatch_def startOp_def faulty_platform_def
          mem_platform_def with_pebble_def Let_def)
  qed
  then have wr: "\<exists>d2. db_WriteBatch faulty_platform ops ?d1 = (d2, None)" if "[] \<notin> kp_Key ` set ops" for ops
    using that by (metis prod.collapse)
  obtain d2 where "session_Create faulty_platform (Some ?r) faulty_db = Some (d2, None)"
    using get session_Serialize_eq [of _ ?r]
      wr [of "[kv_put ?k (session_bytes (time_Now faulty_platform (db_tick faulty_db) + session_ttl) ?r),
        kv_put (EncodeIndexKey session_tableID 3 (encodeSessionIndexUserIdValue [7]) (encodeSessionPrimaryKey 1))
          (encodeSessionPrimaryKey 1)]"]
    by (auto simp add: session_Create_def session_save_def session_index_deletes_def example_session_def
        db_now_def kv_put_def index_key_prefix Let_def)
  moreover have "session_rows (mem_view (db_pebble faulty_db)) 1 = Some (example_session, 5)"
    "session_rows (mem_view (db_pebble ?d1)) 1 = Some (example_session, 5)"
    using one_session_ok(2) [of 5] store by (simp_all add: mem_view_def)
  moreover have "sessions_ok (mem_view (db_pebble faulty_db))" using one_session_ok(1) store by simp
  ultimately show ?thesis
    using failed_lazy_delete_leaves_index [OF faulty_handle, of ?r example_session 5 ?d1 d2] get
    by (simp add: session_fits_def example_session_def)
qed

end
