(* ===== verification/Query.thy ===== *)
theory Query
  imports Store
begin

text \<open>
  The generated queries of \<open>internal/testmodels/User_sqlitex.go\<close>: \<open>UserQuery\<close> and
  \<open>SessionQuery\<close>.  A query collects conditions as texts \<open>"Field op ?"\<close> with their arguments in a
  parallel list; \<open>Exec\<close> scans the index of the first condition's field when it can, the table
  otherwise.  Operators are any text.  The error \<open>Exec\<close> returns is always nil, so it is left out;
  \<open>None\<close> is a panic (a type assertion on an argument, an index out of range) or a scan that
  does not end.
\<close>

section \<open>Conditions\<close>

text \<open>The loops of \<open>splitWhere\<close> run from the end of the text to its beginning.\<close>

fun last_space :: "string \<Rightarrow> nat \<Rightarrow> nat option" where
  "last_space s 0 = None"
| "last_space s (Suc i) = (if s ! i = CHR '' '' then Some i else last_space s i)"

definition splitWhere :: "string \<Rightarrow> string list" where
  "splitWhere cond =
     (case last_space cond (length cond) of
        None \<Rightarrow> []
      | Some lastSpace \<Rightarrow>
          (let inner = take lastSpace cond in
           case last_space inner (length inner) of
             None \<Rightarrow> []
           | Some i \<Rightarrow> [take i inner, drop (i + 1) inner]))"

text \<open>\<open>interface{}\<close> as the builders fill it.\<close>

datatype query_arg = QString bytes | QInt64 "64 word" | QBool bool

record UserQuery =
  q_where :: "string list"
  q_args :: "query_arg list"
  q_limit :: int
  q_lastPK :: bytes
  q_afterSet :: bool

type_synonym SessionQuery = UserQuery

definition NewUserQuery :: UserQuery where
  "NewUserQuery = \<lparr>q_where = [], q_args = [], q_limit = 0, q_lastPK = [], q_afterSet = False\<rparr>"

definition add_cond :: "string \<Rightarrow> string \<Rightarrow> query_arg \<Rightarrow> UserQuery \<Rightarrow> UserQuery" where
  "add_cond field op v q = q\<lparr>q_where := q_where q @ [field @ '' '' @ op @ '' ?''], q_args := q_args q @ [v]\<rparr>"

definition WhereName :: "string \<Rightarrow> bytes \<Rightarrow> UserQuery \<Rightarrow> UserQuery" where
  "WhereName op value q = add_cond ''Name'' op (QString value) q"

definition WhereEmail :: "string \<Rightarrow> bytes \<Rightarrow> UserQuery \<Rightarrow> UserQuery" where
  "WhereEmail op value q = add_cond ''Email'' op (QString value) q"

definition WhereCreatedAt :: "string \<Rightarrow> 64 word \<Rightarrow> UserQuery \<Rightarrow> UserQuery" where
  "WhereCreatedAt op value q = add_cond ''CreatedAt'' op (QInt64 value) q"

definition WhereActive :: "string \<Rightarrow> bool \<Rightarrow> UserQuery \<Rightarrow> UserQuery" where
  "WhereActive op value q = add_cond ''Active'' op (QBool value) q"

definition WhereBio :: "string \<Rightarrow> bytes \<Rightarrow> UserQuery \<Rightarrow> UserQuery" where
  "WhereBio op value q = add_cond ''Bio'' op (QString value) q"

definition query_Limit :: "int \<Rightarrow> UserQuery \<Rightarrow> UserQuery" where "query_Limit n q = q\<lparr>q_limit := n\<rparr>"

definition user_After :: "64 word \<Rightarrow> UserQuery \<Rightarrow> UserQuery" where
  "user_After lastPK q = q\<lparr>q_lastPK := encodeUserPrimaryKey lastPK, q_afterSet := True\<rparr>"

text \<open>
  The \<open>compare\<close> functions look for the first condition on the field with the operator, take the
  argument at its position and compare; an operator the switch does not list compares to false.
\<close>

fun find_cond :: "string \<Rightarrow> string \<Rightarrow> string list \<Rightarrow> nat option" where
  "find_cond field op [] = None"
| "find_cond field op (w # ws) =
     (if splitWhere w = [field, op] then Some 0 else map_option Suc (find_cond field op ws))"

definition target_arg :: "string \<Rightarrow> string \<Rightarrow> UserQuery \<Rightarrow> query_arg option" where
  "target_arg field op q =
     (case find_cond field op (q_where q) of
        None \<Rightarrow> None
      | Some i \<Rightarrow> if length (q_args q) \<le> i then None else Some (q_args q ! i))"

definition string_op :: "string \<Rightarrow> bytes \<Rightarrow> bytes \<Rightarrow> bool" where
  "string_op op actual expected =
     (if op = ''='' then actual = expected
      else if op = ''!='' then actual \<noteq> expected
      else if op = ''LIKE'' then str_contains actual expected
      else False)"

definition int64_op :: "string \<Rightarrow> 64 word \<Rightarrow> 64 word \<Rightarrow> bool" where
  "int64_op op actual expected =
     (if op = ''='' then actual = expected
      else if op = ''!='' then actual \<noteq> expected
      else if op = ''>'' then expected <s actual
      else if op = ''<'' then actual <s expected
      else if op = ''>='' then expected \<le>s actual
      else if op = ''<='' then actual \<le>s expected
      else False)"

definition bool_op :: "string \<Rightarrow> bool \<Rightarrow> bool \<Rightarrow> bool" where
  "bool_op op actual expected =
     (if op = ''='' then actual = expected
      else if op = ''!='' then actual \<noteq> expected
      else False)"

definition compare_string :: "string \<Rightarrow> UserQuery \<Rightarrow> bytes \<Rightarrow> string \<Rightarrow> bool option" where
  "compare_string field q actual op =
     (case target_arg field op q of
        None \<Rightarrow> Some False
      | Some (QString expected) \<Rightarrow> Some (string_op op actual expected)
      | Some _ \<Rightarrow> None)"

definition compare_bool :: "string \<Rightarrow> UserQuery \<Rightarrow> bool \<Rightarrow> string \<Rightarrow> bool option" where
  "compare_bool field q actual op =
     (case target_arg field op q of
        None \<Rightarrow> Some False
      | Some (QBool expected) \<Rightarrow> Some (bool_op op actual expected)
      | Some _ \<Rightarrow> None)"

definition compareName :: "UserQuery \<Rightarrow> bytes \<Rightarrow> string \<Rightarrow> bool option" where
  "compareName = compare_string ''Name''"

definition compareEmail :: "UserQuery \<Rightarrow> bytes \<Rightarrow> string \<Rightarrow> bool option" where
  "compareEmail = compare_string ''Email''"

definition compareCreatedAt :: "UserQuery \<Rightarrow> 64 word \<Rightarrow> string \<Rightarrow> bool option" where
  "compareCreatedAt q actual op =
     (case target_arg ''CreatedAt'' op q of
        None \<Rightarrow> Some False
      | Some (QInt64 expected) \<Rightarrow> Some (int64_op op actual expected)
      | Some _ \<Rightarrow> None)"

definition compareActive :: "UserQuery \<Rightarrow> bool \<Rightarrow> string \<Rightarrow> bool option" where
  "compareActive = compare_bool ''Active''"

definition compareBio :: "UserQuery \<Rightarrow> bytes \<Rightarrow> string \<Rightarrow> bool option" where
  "compareBio = compare_string ''Bio''"

text \<open>The loop of \<open>matchWhere\<close>: the first condition that is false ends it.\<close>

fun all_conds :: "('c \<Rightarrow> bool option) \<Rightarrow> 'c list \<Rightarrow> bool option" where
  "all_conds f [] = Some True"
| "all_conds f (c # cs) =
     (case f c of None \<Rightarrow> None | Some False \<Rightarrow> Some False | Some True \<Rightarrow> all_conds f cs)"

definition user_cond :: "UserQuery \<Rightarrow> User \<Rightarrow> string \<Rightarrow> bool option" where
  "user_cond q item cond =
     (case splitWhere cond of
        [field, op] \<Rightarrow>
          if field = ''Name'' then compareName q (u_Name item) op
          else if field = ''Email'' then compareEmail q (u_Email item) op
          else if field = ''CreatedAt'' then compareCreatedAt q (u_CreatedAt item) op
          else if field = ''Active'' then compareActive q (u_Active item) op
          else if field = ''Bio'' then compareBio q (u_Bio item) op
          else Some True
      | _ \<Rightarrow> Some True)"

definition user_matchWhere :: "UserQuery \<Rightarrow> User \<Rightarrow> bool option" where
  "user_matchWhere q item = all_conds (user_cond q item) (q_where q)"

definition user_matchWhereTail :: "UserQuery \<Rightarrow> User \<Rightarrow> bool option" where
  "user_matchWhereTail q item = all_conds (user_cond q item) (drop 1 (q_where q))"

section \<open>Running a user query\<close>

text \<open>\<open>results = append(results, m); if q.limit > 0 && len(results) >= q.limit { break }\<close>\<close>

definition collect_row :: "UserQuery \<Rightarrow> 'r \<Rightarrow> 'd \<times> 'r list \<Rightarrow> ('d \<times> 'r list) \<times> bool" where
  "collect_row q m s =
     (let results = snd s @ [m]
      in ((fst s, results), 0 < q_limit q \<and> q_limit q \<le> int (length results)))"

definition user_indexed_body ::
  "('p, 'b, 'i) platform \<Rightarrow> UserQuery \<Rightarrow> bytes \<Rightarrow> bytes \<Rightarrow> 'p DB \<times> User list \<Rightarrow> (('p DB \<times> User list) \<times> bool) option" where
  "user_indexed_body E q key pkBytes s =
     (let (d1, r) = db_Get E (EncodeKey user_tableID pkBytes) (fst s); s1 = (d1, snd s) in
      case r of
        Inl err \<Rightarrow> Some (s1, False)
      | Inr None \<Rightarrow> Some (s1, False)
      | Inr (Some value) \<Rightarrow>
          (case DeserializeUser E value of
             None \<Rightarrow> None
           | Some (Inl err) \<Rightarrow> Some (s1, False)
           | Some (Inr m) \<Rightarrow>
               (case if 1 < length (q_where q) then user_matchWhereTail q m else Some True of
                  None \<Rightarrow> None
                | Some False \<Rightarrow> Some (s1, False)
                | Some True \<Rightarrow> Some (collect_row q m s1))))"

definition user_execIndexed :: "('p, 'b, 'i) platform \<Rightarrow> UserQuery \<Rightarrow> 'p DB \<Rightarrow> ('p DB \<times> User list) option" where
  "user_execIndexed E q d =
     (case q_args q of
        QString fieldValue # _ \<Rightarrow>
          (case db_Iterate E (EncodeIndexPrefix user_tableID 3 fieldValue) d of
             None \<Rightarrow> Some (d, [])
           | Some it \<Rightarrow>
               (let it' = if q_afterSet q
                          then it_SeekAfter E (EncodeIndexKey user_tableID 3 fieldValue (q_lastPK q)) it
                          else it
                in it_for E (user_indexed_body E q) it' (d, [])))
      | _ \<Rightarrow> None)"

definition user_scan_body ::
  "('p, 'b, 'i) platform \<Rightarrow> UserQuery \<Rightarrow> bytes \<Rightarrow> bytes \<Rightarrow> 'p DB \<times> User list \<Rightarrow> (('p DB \<times> User list) \<times> bool) option" where
  "user_scan_body E q key value s =
     (case DeserializeUser E value of
        None \<Rightarrow> None
      | Some (Inl err) \<Rightarrow> Some (s, False)
      | Some (Inr m) \<Rightarrow>
          (case user_matchWhere q m of
             None \<Rightarrow> None
           | Some False \<Rightarrow> Some (s, False)
           | Some True \<Rightarrow> Some (collect_row q m s)))"

definition user_execFullScan :: "('p, 'b, 'i) platform \<Rightarrow> UserQuery \<Rightarrow> 'p DB \<Rightarrow> ('p DB \<times> User list) option" where
  "user_execFullScan E q d =
     (case db_Iterate E (EncodeKey user_tableID []) d of
        None \<Rightarrow> Some (d, [])
      | Some it \<Rightarrow>
          (let it' = if q_afterSet q then it_SeekAfter E (EncodeKey user_tableID (q_lastPK q)) it else it
           in it_for E (user_scan_body E q) it' (d, [])))"

definition user_Exec :: "('p, 'b, 'i) platform \<Rightarrow> UserQuery \<Rightarrow> 'p DB \<Rightarrow> ('p DB \<times> User list) option" where
  "user_Exec E q d =
     (case q_where q of
        w # _ \<Rightarrow> if splitWhere w = [''Email'', ''='']
                 then user_execIndexed E q d else user_execFullScan E q d
      | [] \<Rightarrow> user_execFullScan E q d)"

text \<open>\<open>First\<close> sets the limit of the query it is called on.\<close>

definition user_First ::
  "('p, 'b, 'i) platform \<Rightarrow> UserQuery \<Rightarrow> 'p DB \<Rightarrow> (UserQuery \<times> 'p DB \<times> User option) option" where
  "user_First E q d =
     (let q' = q\<lparr>q_limit := 1\<rparr> in
      map_option (\<lambda>(d', r). (q', d', case r of [] \<Rightarrow> None | m # _ \<Rightarrow> Some m)) (user_Exec E q' d))"

definition user_Count :: "('p, 'b, 'i) platform \<Rightarrow> UserQuery \<Rightarrow> 'p DB \<Rightarrow> ('p DB \<times> nat) option" where
  "user_Count E q d = map_option (\<lambda>(d', r). (d', length r)) (user_Exec E q d)"

section \<open>Session queries\<close>

definition NewSessionQuery :: SessionQuery where "NewSessionQuery = NewUserQuery"

definition WhereToken :: "string \<Rightarrow> bytes \<Rightarrow> SessionQuery \<Rightarrow> SessionQuery" where
  "WhereToken op value q = add_cond ''Token'' op (QString value) q"

definition WhereUserId :: "string \<Rightarrow> bytes \<Rightarrow> SessionQuery \<Rightarrow> SessionQuery" where
  "WhereUserId op value q = add_cond ''UserId'' op (QString value) q"

definition session_WhereActive :: "string \<Rightarrow> bool \<Rightarrow> SessionQuery \<Rightarrow> SessionQuery" where
  "session_WhereActive op value q = add_cond ''Active'' op (QBool value) q"

definition session_Limit :: "int \<Rightarrow> SessionQuery \<Rightarrow> SessionQuery" where "session_Limit n q = q\<lparr>q_limit := n\<rparr>"

definition session_After :: "64 word \<Rightarrow> SessionQuery \<Rightarrow> SessionQuery" where
  "session_After lastPK q = q\<lparr>q_lastPK := encodeSessionPrimaryKey lastPK, q_afterSet := True\<rparr>"

definition compareToken :: "SessionQuery \<Rightarrow> bytes \<Rightarrow> string \<Rightarrow> bool option" where
  "compareToken = compare_string ''Token''"

definition compareUserId :: "SessionQuery \<Rightarrow> bytes \<Rightarrow> string \<Rightarrow> bool option" where
  "compareUserId = compare_string ''UserId''"

definition session_compareActive :: "SessionQuery \<Rightarrow> bool \<Rightarrow> string \<Rightarrow> bool option" where
  "session_compareActive = compare_bool ''Active''"

definition session_cond :: "SessionQuery \<Rightarrow> Session \<Rightarrow> string \<Rightarrow> bool option" where
  "session_cond q item cond =
     (case splitWhere cond of
        [field, op] \<Rightarrow>
          if field = ''Token'' then compareToken q (s_Token item) op
          else if field = ''UserId'' then compareUserId q (s_UserId item) op
          else if field = ''Active'' then session_compareActive q (s_Active item) op
          else Some True
      | _ \<Rightarrow> Some True)"

definition session_matchWhere :: "SessionQuery \<Rightarrow> Session \<Rightarrow> bool option" where
  "session_matchWhere q item = all_conds (session_cond q item) (q_where q)"

definition session_matchWhereTail :: "SessionQuery \<Rightarrow> Session \<Rightarrow> bool option" where
  "session_matchWhereTail q item = all_conds (session_cond q item) (drop 1 (q_where q))"

text \<open>
  \<open>expiresAt > 0 && time.Now().UnixNano() > expiresAt\<close>: the clock is read for a record that can
  expire.  An expired record is deleted with its index entries; the error is ignored.
\<close>

definition check_expired :: "('p, 'b, 'i) platform \<Rightarrow> 64 word \<Rightarrow> 'p DB \<Rightarrow> 'p DB \<times> bool" where
  "check_expired E expiresAt d =
     (if 0 <s expiresAt then (let (now, d1) = db_now E d in (d1, expiresAt <s now)) else (d, False))"

definition session_indexed_body ::
  "('p, 'b, 'i) platform \<Rightarrow> SessionQuery \<Rightarrow> bytes \<Rightarrow> bytes \<Rightarrow> 'p DB \<times> Session list
    \<Rightarrow> (('p DB \<times> Session list) \<times> bool) option" where
  "session_indexed_body E q key pkBytes s =
     (let dataKey = EncodeKey session_tableID pkBytes;
          (d1, r) = db_Get E dataKey (fst s); s1 = (d1, snd s) in
      case r of
        Inl err \<Rightarrow> Some (s1, False)
      | Inr None \<Rightarrow> Some (s1, False)
      | Inr (Some value) \<Rightarrow>
          (case DeserializeSessionMeta value of
             None \<Rightarrow> None
           | Some (Inl err) \<Rightarrow> Some (s1, False)
           | Some (Inr (m, expiresAt)) \<Rightarrow>
               (let (d2, gone) = check_expired E expiresAt d1 in
                if gone
                then map_option (\<lambda>(d3, err). ((d3, snd s), False)) (deleteSessionWithIndexes E dataKey m d2)
                else
                  (case if 1 < length (q_where q) then session_matchWhereTail q m else Some True of
                     None \<Rightarrow> None
                   | Some False \<Rightarrow> Some ((d2, snd s), False)
                   | Some True \<Rightarrow> Some (collect_row q m (d2, snd s))))))"

definition session_execIndexed ::
  "('p, 'b, 'i) platform \<Rightarrow> SessionQuery \<Rightarrow> 'p DB \<Rightarrow> ('p DB \<times> Session list) option" where
  "session_execIndexed E q d =
     (case q_args q of
        QString fieldValue # _ \<Rightarrow>
          (case db_Iterate E (EncodeIndexPrefix session_tableID 3 fieldValue) d of
             None \<Rightarrow> Some (d, [])
           | Some it \<Rightarrow>
               (let it' = if q_afterSet q
                          then it_SeekAfter E (EncodeIndexKey session_tableID 3 fieldValue (q_lastPK q)) it
                          else it
                in it_for E (session_indexed_body E q) it' (d, [])))
      | _ \<Rightarrow> None)"

definition session_scan_body ::
  "('p, 'b, 'i) platform \<Rightarrow> SessionQuery \<Rightarrow> bytes \<Rightarrow> bytes \<Rightarrow> 'p DB \<times> Session list
    \<Rightarrow> (('p DB \<times> Session list) \<times> bool) option" where
  "session_scan_body E q key value s =
     (case DeserializeSessionMeta value of
        None \<Rightarrow> None
      | Some (Inl err) \<Rightarrow> Some (s, False)
      | Some (Inr (m, expiresAt)) \<Rightarrow>
          (let (d2, gone) = check_expired E expiresAt (fst s) in
           if gone
           then map_option (\<lambda>(d3, err). ((d3, snd s), False)) (deleteSessionWithIndexes E key m d2)
           else
             (case session_matchWhere q m of
                None \<Rightarrow> None
              | Some False \<Rightarrow> Some ((d2, snd s), False)
              | Some True \<Rightarrow> Some (collect_row q m (d2, snd s)))))"

definition session_execFullScan ::
  "('p, 'b, 'i) platform \<Rightarrow> SessionQuery \<Rightarrow> 'p DB \<Rightarrow> ('p DB \<times> Session list) option" where
  "session_execFullScan E q d =
     (case db_Iterate E (EncodeKey session_tableID []) d of
        None \<Rightarrow> Some (d, [])
      | Some it \<Rightarrow>
          (let it' = if q_afterSet q then it_SeekAfter E (EncodeKey session_tableID (q_lastPK q)) it else it
           in it_for E (session_scan_body E q) it' (d, [])))"

definition session_Exec :: "('p, 'b, 'i) platform \<Rightarrow> SessionQuery \<Rightarrow> 'p DB \<Rightarrow> ('p DB \<times> Session list) option" where
  "session_Exec E q d =
     (case q_where q of
        w # _ \<Rightarrow> if splitWhere w = [''UserId'', ''='']
                 then session_execIndexed E q d else session_execFullScan E q d
      | [] \<Rightarrow> session_execFullScan E q d)"

definition session_First ::
  "('p, 'b, 'i) platform \<Rightarrow> SessionQuery \<Rightarrow> 'p DB \<Rightarrow> (SessionQuery \<times> 'p DB \<times> Session option) option" where
  "session_First E q d =
     (let q' = q\<lparr>q_limit := 1\<rparr> in
      map_option (\<lambda>(d', r). (q', d', case r of [] \<Rightarrow> None | m # _ \<Rightarrow> Some m)) (session_Exec E q' d))"

definition session_Count :: "('p, 'b, 'i) platform \<Rightarrow> SessionQuery \<Rightarrow> 'p DB \<Rightarrow> ('p DB \<times> nat) option" where
  "session_Count E q d = map_option (\<lambda>(d', r). (d', length r)) (session_Exec E q d)"


section \<open>What the conditions mean\<close>

lemma last_space_Some:
  "n \<le> length s \<Longrightarrow> i < n \<Longrightarrow> s ! i = CHR '' '' \<Longrightarrow> (\<And>j. i < j \<Longrightarrow> j < n \<Longrightarrow> s ! j \<noteq> CHR '' '') \<Longrightarrow>
    last_space s n = Some i"
proof (induction n)
  case (Suc n)
  then show ?case by (cases "i = n") auto
qed simp

lemma last_space_append:
  assumes "CHR '' '' \<notin> set ys"
  shows "last_space (xs @ CHR '' '' # ys) (Suc (length xs + length ys)) = Some (length xs)"
proof (rule last_space_Some)
  fix j assume j: "length xs < j" "j < Suc (length xs + length ys)"
  then obtain k where "j = Suc (length xs + k)" using less_iff_Suc_add by auto
  with j have "k < length ys" "(xs @ CHR '' '' # ys) ! j = ys ! k" by (auto simp: nth_append)
  with assms nth_mem [of k ys] show "(xs @ CHR '' '' # ys) ! j \<noteq> CHR '' ''" by metis
qed auto

lemma splitWhere_pair:
  assumes "CHR '' '' \<notin> set b"
  shows "splitWhere (a @ '' '' @ b @ '' ?'') = [a, b]"
proof -
  have "last_space ((a @ '' '' @ b) @ CHR '' '' # ''?'') (Suc (length (a @ '' '' @ b) + length ''?''))
      = Some (length (a @ '' '' @ b))"
    by (rule last_space_append) simp
  then have 1: "last_space (a @ '' '' @ b @ '' ?'') (length (a @ '' '' @ b @ '' ?'')) = Some (length (a @ '' '' @ b))"
    by simp
  have "last_space (a @ CHR '' '' # b) (Suc (length a + length b)) = Some (length a)"
    by (rule last_space_append) fact
  then have 2: "last_space (a @ '' '' @ b) (length (a @ '' '' @ b)) = Some (length a)" by simp
  have 3: "take (length (a @ '' '' @ b)) (a @ '' '' @ b @ '' ?'') = a @ '' '' @ b" by simp
  show ?thesis unfolding splitWhere_def 1 by (simp only: option.case Let_def 3 2) simp
qed

lemma splitWhere_cond: "CHR '' '' \<notin> set b \<Longrightarrow> splitWhere (a @ CHR '' '' # b @ '' ?'') = [a, b]"
  using splitWhere_pair [of b a] by simp

lemma split_last_space: "CHR '' '' \<in> set s \<Longrightarrow> \<exists>a b. s = a @ '' '' @ b \<and> CHR '' '' \<notin> set b"
  by (metis append_Cons append_Nil split_list_last)

text \<open>An operator with a space moves into the field part, which then is no field.\<close>

lemma splitWhere_spaced:
  assumes "CHR '' '' \<in> set op"
  obtains a b where "splitWhere (f @ '' '' @ op @ '' ?'') = [f @ '' '' @ a, b]"
proof -
  obtain a b where "op = a @ '' '' @ b" "CHR '' '' \<notin> set b" using split_last_space [OF assms] by blast
  with splitWhere_pair [of b "f @ '' '' @ a"] that show ?thesis by simp
qed

text \<open>A condition is its field, operator and argument; \<open>val\<close> reads a field of a record.\<close>

type_synonym qcond = "string \<times> string \<times> query_arg"

fun arg_op :: "string \<Rightarrow> query_arg \<Rightarrow> query_arg \<Rightarrow> bool option" where
  "arg_op op (QString a) (QString e) = Some (string_op op a e)"
| "arg_op op (QInt64 a) (QInt64 e) = Some (int64_op op a e)"
| "arg_op op (QBool a) (QBool e) = Some (bool_op op a e)"
| "arg_op op _ _ = None"

definition cond_text :: "qcond \<Rightarrow> string" where
  "cond_text c = fst c @ '' '' @ fst (snd c) @ '' ?''"

definition query_of :: "UserQuery \<Rightarrow> qcond list \<Rightarrow> bool" where
  "query_of q cs \<longleftrightarrow> q_where q = map cond_text cs \<and> q_args q = map (snd \<circ> snd) cs
     \<and> (\<forall>c \<in> set cs. CHR '' '' \<notin> set (fst c))"

definition eval_cond :: "(string \<rightharpoonup> query_arg) \<Rightarrow> UserQuery \<Rightarrow> string \<Rightarrow> bool option" where
  "eval_cond val q w =
     (case splitWhere w of
        [field, op] \<Rightarrow>
          (case val field of
             None \<Rightarrow> Some True
           | Some a \<Rightarrow> (case target_arg field op q of None \<Rightarrow> Some False | Some e \<Rightarrow> arg_op op a e))
      | _ \<Rightarrow> Some True)"

definition same_cond :: "qcond \<Rightarrow> qcond \<Rightarrow> bool" where
  "same_cond c c' \<longleftrightarrow> fst c = fst c' \<and> fst (snd c) = fst (snd c')"

definition first_arg :: "qcond list \<Rightarrow> qcond \<Rightarrow> query_arg" where
  "first_arg cs c = (case find (same_cond c) cs of None \<Rightarrow> snd (snd c) | Some c' \<Rightarrow> snd (snd c'))"

definition arg_holds :: "(string \<rightharpoonup> query_arg) \<Rightarrow> qcond \<Rightarrow> query_arg \<Rightarrow> bool" where
  "arg_holds val c e \<longleftrightarrow> (\<exists>a. val (fst c) = Some a \<and> arg_op (fst (snd c)) a e = Some True)"

definition cond_effect :: "(string \<rightharpoonup> query_arg) \<Rightarrow> qcond list \<Rightarrow> qcond \<Rightarrow> bool" where
  "cond_effect val cs c \<longleftrightarrow> CHR '' '' \<in> set (fst (snd c)) \<or> arg_holds val c (first_arg cs c)"

definition typed :: "(string \<rightharpoonup> query_arg) \<Rightarrow> qcond list \<Rightarrow> bool" where
  "typed val cs \<longleftrightarrow> (\<forall>c \<in> set cs. \<exists>a. val (fst c) = Some a \<and> (\<forall>op. arg_op op a (snd (snd c)) \<noteq> None))"

lemma find_cond_text:
  assumes "\<forall>c \<in> set cs. CHR '' '' \<notin> set (fst c)" and "CHR '' '' \<notin> set f" and "CHR '' '' \<notin> set op"
  shows "find_cond f op (map cond_text cs)
    = (case find (same_cond (f, op, v)) cs of None \<Rightarrow> None | Some c \<Rightarrow> find_cond f op (map cond_text cs))
   \<and> (\<forall>i. find_cond f op (map cond_text cs) = Some i \<longrightarrow>
        i < length cs \<and> find (same_cond (f, op, v)) cs = Some (cs ! i))"
  using assms(1)
proof (induction cs)
  case (Cons c cs)
  obtain f' op' v' where c: "c = (f', op', v')" by (cases c)
  have "splitWhere (cond_text c) = [f, op] \<longleftrightarrow> same_cond (f, op, v) c"
  proof (cases "CHR '' '' \<in> set op'")
    case True
    from splitWhere_spaced [OF True, of f'] obtain a b
      where ab: "splitWhere (f' @ '' '' @ op' @ '' ?'') = [f' @ '' '' @ a, b]" .
    have "f' @ '' '' @ a \<noteq> f" using assms(2) by auto
    moreover have "op \<noteq> op'" using True assms(3) by auto
    ultimately show ?thesis using ab by (simp add: c cond_text_def same_cond_def)
  next
    case False
    then show ?thesis by (auto simp: c cond_text_def same_cond_def splitWhere_cond)
  qed
  with Cons show ?case by (auto split: option.splits)
qed simp

lemma target_arg_text:
  assumes q: "query_of q cs" and c: "c \<in> set cs" and sp: "CHR '' '' \<notin> set (fst (snd c))"
  shows "target_arg (fst c) (fst (snd c)) q = Some (first_arg cs c)"
proof -
  obtain f op v where fov: "c = (f, op, v)" by (cases c)
  have F: "\<forall>c \<in> set cs. CHR '' '' \<notin> set (fst c)" "CHR '' '' \<notin> set f" "CHR '' '' \<notin> set op"
    using q c sp fov by (auto simp: query_of_def)
  have some: "find_cond f op (map cond_text cs) \<noteq> None"
    using c F(1) sp
  proof (induction cs)
    case (Cons x xs)
    show ?case
    proof (cases "x = c")
      case True
      then have "splitWhere (cond_text x) = [f, op]"
        using F(3) splitWhere_pair by (simp add: cond_text_def fov)
      then show ?thesis by simp
    qed (use Cons in auto)
  qed simp
  then obtain i where i: "find_cond f op (map cond_text cs) = Some i" by blast
  with find_cond_text [OF F, of v] have "i < length cs" "find (same_cond (f, op, v)) cs = Some (cs ! i)" by auto
  with i q show ?thesis by (simp add: target_arg_def query_of_def first_arg_def fov)
qed

lemma first_arg_in: "c \<in> set cs \<Longrightarrow> \<exists>c' \<in> set cs. fst c' = fst c \<and> first_arg cs c = snd (snd c')"
proof -
  assume c: "c \<in> set cs"
  show ?thesis
  proof (cases "find (same_cond c) cs")
    case None
    then have "first_arg cs c = snd (snd c)" by (simp add: first_arg_def)
    with c show ?thesis by blast
  next
    case (Some c')
    then have "c' \<in> set cs" "same_cond c c'" by (auto simp: find_Some_iff)
    with Some show ?thesis by (auto simp: first_arg_def same_cond_def)
  qed
qed

lemma eval_cond_text:
  assumes q: "query_of q cs" and t: "typed val cs" and nf: "\<And>f. CHR '' '' \<in> set f \<Longrightarrow> val f = None"
    and c: "c \<in> set cs"
  shows "eval_cond val q (cond_text c) = Some (cond_effect val cs c)"
proof (cases "CHR '' '' \<in> set (fst (snd c))")
  case True
  from splitWhere_spaced [OF this, of "fst c"] obtain a b
    where "splitWhere (cond_text c) = [fst c @ '' '' @ a, b]" by (metis cond_text_def)
  then show ?thesis using True nf [of "fst c @ '' '' @ a"] by (simp add: eval_cond_def cond_effect_def)
next
  case False
  then have sp: "splitWhere (cond_text c) = [fst c, fst (snd c)]"
    by (simp add: cond_text_def splitWhere_cond)
  obtain a where a: "val (fst c) = Some a" using t c by (auto simp: typed_def)
  obtain c' where c': "c' \<in> set cs" "fst c' = fst c" "first_arg cs c = snd (snd c')"
    using first_arg_in [OF c] by blast
  then obtain b where "arg_op (fst (snd c)) a (first_arg cs c) = Some b"
    using t a by (fastforce simp: typed_def)
  with a False show ?thesis
    by (simp add: eval_cond_def sp target_arg_text [OF q c False] cond_effect_def arg_holds_def)
qed

lemma all_conds_total: "(\<And>c. c \<in> set cs \<Longrightarrow> f c = Some (P c)) \<Longrightarrow> all_conds f cs = Some (list_all P cs)"
proof (induction cs)
  case (Cons c cs)
  then show ?case by (cases "P c") simp_all
qed simp

lemma all_conds_map: "all_conds f (map g cs) = all_conds (f \<circ> g) cs"
  by (induction cs) (auto split: option.splits bool.splits)

lemma eval_conds:
  assumes "query_of q cs" and "typed val cs" and "\<And>f. CHR '' '' \<in> set f \<Longrightarrow> val f = None"
  shows "all_conds (eval_cond val q) (q_where q) = Some (list_all (cond_effect val cs) cs)"
    and "all_conds (eval_cond val q) (drop 1 (q_where q)) = Some (list_all (cond_effect val cs) (drop 1 cs))"
proof -
  have w: "q_where q = map cond_text cs" using assms(1) by (simp add: query_of_def)
  show "all_conds (eval_cond val q) (q_where q) = Some (list_all (cond_effect val cs) cs)"
    unfolding w all_conds_map using eval_cond_text [OF assms] by (intro all_conds_total) simp
  show "all_conds (eval_cond val q) (drop 1 (q_where q)) = Some (list_all (cond_effect val cs) (drop 1 cs))"
    unfolding w drop_map all_conds_map using eval_cond_text [OF assms] set_drop_subset [of 1 cs]
    by (intro all_conds_total) auto
qed

text \<open>
  With operators without spaces and no two different conditions on the same field and operator,
  the conditions mean what they say.
\<close>

definition plain_conds :: "qcond list \<Rightarrow> bool" where
  "plain_conds cs \<longleftrightarrow> (\<forall>c \<in> set cs. CHR '' '' \<notin> set (fst (snd c)))
     \<and> (\<forall>c \<in> set cs. \<forall>c' \<in> set cs. same_cond c c' \<longrightarrow> c = c')"

definition cond_holds :: "(string \<rightharpoonup> query_arg) \<Rightarrow> qcond \<Rightarrow> bool" where
  "cond_holds val c \<longleftrightarrow> arg_holds val c (snd (snd c))"

lemma plain_effect:
  assumes p: "plain_conds cs" and c: "c \<in> set cs"
  shows "cond_effect val cs c = cond_holds val c"
proof -
  have "first_arg cs c = snd (snd c)"
  proof (cases "find (same_cond c) cs")
    case (Some c')
    then have "c' \<in> set cs" "same_cond c c'" by (auto simp: find_Some_iff)
    with p c have "c = c'" by (auto simp: plain_conds_def)
    with Some show ?thesis by (simp add: first_arg_def)
  qed (simp add: first_arg_def)
  with p c show ?thesis by (auto simp: cond_effect_def cond_holds_def plain_conds_def)
qed

lemma plain_effects: "plain_conds cs \<Longrightarrow> list_all (cond_effect val cs) cs = list_all (cond_holds val) cs"
  using plain_effect by (metis list.pred_cong)

lemma query_of_add:
  "query_of q cs \<Longrightarrow> CHR '' '' \<notin> set f \<Longrightarrow> query_of (add_cond f op v q) (cs @ [(f, op, v)])"
  by (auto simp: query_of_def add_cond_def cond_text_def)

lemma query_of_new [simp]: "query_of NewUserQuery []" by (simp add: query_of_def NewUserQuery_def)

section \<open>The records' fields\<close>

definition user_value :: "User \<Rightarrow> string \<rightharpoonup> query_arg" where
  "user_value u f =
     (if f = ''Name'' then Some (QString (u_Name u))
      else if f = ''Email'' then Some (QString (u_Email u))
      else if f = ''CreatedAt'' then Some (QInt64 (u_CreatedAt u))
      else if f = ''Active'' then Some (QBool (u_Active u))
      else if f = ''Bio'' then Some (QString (u_Bio u))
      else None)"

definition session_value :: "Session \<Rightarrow> string \<rightharpoonup> query_arg" where
  "session_value u f =
     (if f = ''Token'' then Some (QString (s_Token u))
      else if f = ''UserId'' then Some (QString (s_UserId u))
      else if f = ''Active'' then Some (QBool (s_Active u))
      else None)"

lemma arg_op_cases:
  "arg_op op (QString a) e = (case e of QString x \<Rightarrow> Some (string_op op a x) | _ \<Rightarrow> None)"
  "arg_op op (QInt64 i) e = (case e of QInt64 x \<Rightarrow> Some (int64_op op i x) | _ \<Rightarrow> None)"
  "arg_op op (QBool b) e = (case e of QBool x \<Rightarrow> Some (bool_op op b x) | _ \<Rightarrow> None)"
  by (cases e; simp)+

lemma user_cond_eval: "user_cond q u = eval_cond (user_value u) q"
  by (rule ext) (simp add: user_cond_def eval_cond_def user_value_def compareName_def compareEmail_def
      compareCreatedAt_def compareActive_def compareBio_def compare_string_def compare_bool_def arg_op_cases
      split: list.split option.split query_arg.split)

lemma session_cond_eval: "session_cond q u = eval_cond (session_value u) q"
  by (rule ext) (simp add: session_cond_def eval_cond_def session_value_def compareToken_def compareUserId_def
      session_compareActive_def compare_string_def compare_bool_def arg_op_cases
      split: list.split option.split query_arg.split)

text \<open>The builders' calls as data, and the query they build.\<close>

datatype user_filter =
    UName string bytes | UEmail string bytes | UCreatedAt string "64 word" | UActive string bool
  | UBio string bytes

fun user_where :: "user_filter \<Rightarrow> UserQuery \<Rightarrow> UserQuery" where
  "user_where (UName op v) = WhereName op v"
| "user_where (UEmail op v) = WhereEmail op v"
| "user_where (UCreatedAt op v) = WhereCreatedAt op v"
| "user_where (UActive op v) = WhereActive op v"
| "user_where (UBio op v) = WhereBio op v"

definition user_query :: "user_filter list \<Rightarrow> UserQuery" where
  "user_query ws = fold user_where ws NewUserQuery"

fun user_qcond :: "user_filter \<Rightarrow> qcond" where
  "user_qcond (UName op v) = (''Name'', op, QString v)"
| "user_qcond (UEmail op v) = (''Email'', op, QString v)"
| "user_qcond (UCreatedAt op v) = (''CreatedAt'', op, QInt64 v)"
| "user_qcond (UActive op v) = (''Active'', op, QBool v)"
| "user_qcond (UBio op v) = (''Bio'', op, QString v)"

datatype session_filter = SToken string bytes | SUserId string bytes | SActive string bool

fun session_where :: "session_filter \<Rightarrow> SessionQuery \<Rightarrow> SessionQuery" where
  "session_where (SToken op v) = WhereToken op v"
| "session_where (SUserId op v) = WhereUserId op v"
| "session_where (SActive op v) = session_WhereActive op v"

definition session_query :: "session_filter list \<Rightarrow> SessionQuery" where
  "session_query ws = fold session_where ws NewSessionQuery"

fun session_qcond :: "session_filter \<Rightarrow> qcond" where
  "session_qcond (SToken op v) = (''Token'', op, QString v)"
| "session_qcond (SUserId op v) = (''UserId'', op, QString v)"
| "session_qcond (SActive op v) = (''Active'', op, QBool v)"

lemma user_query_fold: "query_of q cs \<Longrightarrow> query_of (fold user_where ws q) (cs @ map user_qcond ws)"
proof (induction ws arbitrary: q cs)
  case (Cons w ws)
  have "query_of (user_where w q) (cs @ [user_qcond w])"
    by (cases w) (simp_all add: WhereName_def WhereEmail_def WhereCreatedAt_def WhereActive_def WhereBio_def
        query_of_add Cons.prems)
  from Cons.IH [OF this] show ?case by simp
qed simp

lemma user_query_of: "query_of (user_query ws) (map user_qcond ws)"
  using user_query_fold [OF query_of_new, of ws] by (simp add: user_query_def)

lemma session_query_fold: "query_of q cs \<Longrightarrow> query_of (fold session_where ws q) (cs @ map session_qcond ws)"
proof (induction ws arbitrary: q cs)
  case (Cons w ws)
  have "query_of (session_where w q) (cs @ [session_qcond w])"
    by (cases w) (simp_all add: WhereToken_def WhereUserId_def session_WhereActive_def query_of_add Cons.prems)
  from Cons.IH [OF this] show ?case by simp
qed simp

lemma session_query_of: "query_of (session_query ws) (map session_qcond ws)"
  using session_query_fold [OF query_of_new, of ws] by (simp add: session_query_def NewSessionQuery_def)

lemma user_typed: "typed (user_value u) (map user_qcond ws)"
proof -
  have "\<exists>a. user_value u (fst (user_qcond w)) = Some a \<and> (\<forall>op. arg_op op a (snd (snd (user_qcond w))) \<noteq> None)" for w
    by (cases w) (simp_all add: user_value_def)
  then show ?thesis by (simp add: typed_def)
qed

lemma session_typed: "typed (session_value u) (map session_qcond ws)"
proof -
  have "\<exists>a. session_value u (fst (session_qcond w)) = Some a
      \<and> (\<forall>op. arg_op op a (snd (snd (session_qcond w))) \<noteq> None)" for w
    by (cases w) (simp_all add: session_value_def)
  then show ?thesis by (simp add: typed_def)
qed

lemma fields_unspaced:
  "user_value u f = Some a \<Longrightarrow> CHR '' '' \<notin> set f" "session_value s f = Some a \<Longrightarrow> CHR '' '' \<notin> set f"
  unfolding user_value_def session_value_def by (simp split: if_split_asm)+

lemma no_spaced_field:
  "CHR '' '' \<in> set f \<Longrightarrow> user_value u f = None" "CHR '' '' \<in> set f \<Longrightarrow> session_value s f = None"
  using fields_unspaced by (metis not_None_eq)+

definition user_sat :: "user_filter list \<Rightarrow> User \<Rightarrow> bool" where
  "user_sat ws u \<longleftrightarrow> (\<forall>w \<in> set ws. cond_holds (user_value u) (user_qcond w))"

definition session_sat :: "session_filter list \<Rightarrow> Session \<Rightarrow> bool" where
  "session_sat ws s \<longleftrightarrow> (\<forall>w \<in> set ws. cond_holds (session_value s) (session_qcond w))"


section \<open>The documented meaning of a condition\<close>

text \<open>
  What \<open>docs/api.md\<close> promises of a condition, apart from the \<open>switch\<close> of the generated code: a comparison of
  the field with the argument, as numbers, as texts in the order of their bytes, or as flags; \<open>LIKE\<close> asks for a
  part of the text.  \<open>user_supported\<close> and \<open>session_supported\<close> are the operators the generated code implements
  for the type of the field: texts have no order there, so \<open>>\<close>, \<open><\<close>, \<open>>=\<close> and \<open><=\<close> on texts, which the
  document lists, are not among them.
\<close>

definition op_means :: "string \<Rightarrow> 'a::linorder \<Rightarrow> 'a \<Rightarrow> bool" where
  "op_means op a e =
     (if op = ''='' then a = e else if op = ''!='' then a \<noteq> e
      else if op = ''>'' then e < a else if op = ''<'' then a < e
      else if op = ''>='' then e \<le> a else if op = ''<='' then a \<le> e else False)"

definition text_means :: "string \<Rightarrow> bytes \<Rightarrow> bytes \<Rightarrow> bool" where
  "text_means op a e = (if op = ''LIKE'' then sublist e a else op_means op a e)"

definition order_ops :: "string set" where "order_ops = {''>'', ''<'', ''>='', ''<=''}"

definition text_ops :: "string set" where "text_ops = {''='', ''!='', ''LIKE''}"
definition number_ops :: "string set" where "number_ops = {''='', ''!='', ''>'', ''<'', ''>='', ''<=''}"
definition flag_ops :: "string set" where "flag_ops = {''='', ''!=''}"

fun user_filter_means :: "User \<Rightarrow> user_filter \<Rightarrow> bool" where
  "user_filter_means u (UName op v) = text_means op (u_Name u) v"
| "user_filter_means u (UEmail op v) = text_means op (u_Email u) v"
| "user_filter_means u (UCreatedAt op v) = op_means op (sint (u_CreatedAt u)) (sint v)"
| "user_filter_means u (UActive op v) = op_means op (u_Active u) v"
| "user_filter_means u (UBio op v) = text_means op (u_Bio u) v"

fun user_supported :: "user_filter \<Rightarrow> bool" where
  "user_supported (UName op v) = (op \<in> text_ops)"
| "user_supported (UEmail op v) = (op \<in> text_ops)"
| "user_supported (UCreatedAt op v) = (op \<in> number_ops)"
| "user_supported (UActive op v) = (op \<in> flag_ops)"
| "user_supported (UBio op v) = (op \<in> text_ops)"

fun session_filter_means :: "Session \<Rightarrow> session_filter \<Rightarrow> bool" where
  "session_filter_means s (SToken op v) = text_means op (s_Token s) v"
| "session_filter_means s (SUserId op v) = text_means op (s_UserId s) v"
| "session_filter_means s (SActive op v) = op_means op (s_Active s) v"

fun session_supported :: "session_filter \<Rightarrow> bool" where
  "session_supported (SToken op v) = (op \<in> text_ops)"
| "session_supported (SUserId op v) = (op \<in> text_ops)"
| "session_supported (SActive op v) = (op \<in> flag_ops)"

definition user_means :: "user_filter list \<Rightarrow> User \<Rightarrow> bool" where
  "user_means ws u \<longleftrightarrow> (\<forall>w \<in> set ws. user_filter_means u w)"

definition session_means :: "session_filter list \<Rightarrow> Session \<Rightarrow> bool" where
  "session_means ws s \<longleftrightarrow> (\<forall>w \<in> set ws. session_filter_means s w)"

lemma string_op_means: "op \<in> text_ops \<Longrightarrow> string_op op a e = text_means op a e"
  by (auto simp: text_ops_def string_op_def text_means_def op_means_def str_contains_iff)

lemma bool_op_means: "op \<in> flag_ops \<Longrightarrow> bool_op op a e = op_means op a e"
  by (auto simp: flag_ops_def bool_op_def op_means_def)

lemma int64_op_means: "int64_op op a e = op_means op (sint a) (sint e)"
proof -
  have "a = e \<longleftrightarrow> sint a = sint e" by (auto intro: signed_word_eqI)
  then show ?thesis by (simp add: int64_op_def op_means_def word_sless_alt word_sle_eq)
qed

lemma string_op_order: "op \<in> order_ops \<Longrightarrow> \<not> string_op op a e"
  by (auto simp: order_ops_def string_op_def)

lemma user_filter_means_holds:
  "user_supported w \<Longrightarrow> cond_holds (user_value u) (user_qcond w) = user_filter_means u w"
  by (cases w) (simp_all add: cond_holds_def arg_holds_def user_value_def string_op_means bool_op_means int64_op_means)

lemma session_filter_means_holds:
  "session_supported w \<Longrightarrow> cond_holds (session_value s) (session_qcond w) = session_filter_means s w"
  by (cases w) (simp_all add: cond_holds_def arg_holds_def session_value_def string_op_means bool_op_means)

lemma user_sat_means: "list_all user_supported ws \<Longrightarrow> user_sat ws = user_means ws"
  by (rule ext) (simp add: user_sat_def user_means_def list_all_iff user_filter_means_holds)

lemma session_sat_means: "list_all session_supported ws \<Longrightarrow> session_sat ws = session_means ws"
  by (rule ext) (simp add: session_sat_def session_means_def list_all_iff session_filter_means_holds)

end
