(* ===== verification/UserQueries.thy ===== *)
theory UserQueries
  imports Query
begin

text \<open>
  What user queries return.  A query of plain conditions returns exactly the stored users that
  satisfy them, in the numeric order of their ids, cut off at the limit, whichever of the two scans
  runs; cursors over the table continue where the previous page ended.
\<close>


section \<open>Loops that collect rows\<close>

definition take_limit :: "int \<Rightarrow> 'a list \<Rightarrow> 'a list" where
  "take_limit n xs = (if 0 < n then take (nat n) xs else xs)"

definition room :: "int \<Rightarrow> nat \<Rightarrow> 'a list \<Rightarrow> 'a list" where
  "room l n xs = (if 0 < l then take (nat l - n) xs else xs)"

lemma room_Cons:
  assumes "\<not> (0 < l \<and> l \<le> int (Suc n))"
  shows "room l n (x # xs) = x # room l (Suc n) xs"
proof (cases "0 < l")
  case True
  with assms have "nat l - n = Suc (nat l - Suc n)" by auto
  with True show ?thesis by (simp add: room_def)
qed (simp add: room_def)

lemma room_last: "0 < l \<Longrightarrow> l \<le> int (Suc n) \<Longrightarrow> int n < l \<Longrightarrow> room l n (x # xs) = [x]"
proof -
  assume "0 < l" "l \<le> int (Suc n)" "int n < l"
  then have "nat l - n = 1" by auto
  with \<open>0 < l\<close> show ?thesis by (simp add: room_def)
qed

lemma list_for_collect:
  assumes step: "\<And>e d rs. e \<in> set es \<Longrightarrow> I d \<Longrightarrow>
      \<exists>d'. I d' \<and> body e (d, rs) = Some (if P e then collect_row q (g e) (d', rs) else ((d', rs), False))"
    and "I d" and "0 < q_limit q \<Longrightarrow> int (length rs) < q_limit q"
  shows "\<exists>d'. I d' \<and> list_for body es (d, rs)
    = Some (d', rs @ room (q_limit q) (length rs) (map g (filter P es)))"
  using assms
proof (induction es arbitrary: d rs)
  case Nil
  then show ?case by (auto simp: room_def)
next
  case (Cons e es)
  obtain d1 where d1: "I d1"
    "body e (d, rs) = Some (if P e then collect_row q (g e) (d1, rs) else ((d1, rs), False))"
    using Cons.prems(1) [of e d rs] Cons.prems(2) by auto
  have IH: "\<exists>d'. I d' \<and> list_for body es (d1, rs')
    = Some (d', rs' @ room (q_limit q) (length rs') (map g (filter P es)))"
    if "0 < q_limit q \<Longrightarrow> int (length rs') < q_limit q" for rs'
    using Cons.IH [OF Cons.prems(1) d1(1) that] by simp
  show ?case
  proof (cases "P e")
    case False
    with d1 IH [OF Cons.prems(3)] show ?thesis by simp
  next
    case True
    show ?thesis
    proof (cases "0 < q_limit q \<and> q_limit q \<le> int (Suc (length rs))")
      case stop: True
      with Cons.prems(3) True d1 show ?thesis
        by (intro exI [of _ d1]) (simp add: collect_row_def room_last)
    next
      case False
      then have more: "0 < q_limit q \<Longrightarrow> int (length (rs @ [g e])) < q_limit q" by auto
      from IH [OF more] obtain d' where "I d'" "list_for body es (d1, rs @ [g e])
          = Some (d', (rs @ [g e]) @ room (q_limit q) (length (rs @ [g e])) (map g (filter P es)))" by blast
      with False True d1 show ?thesis by (intro exI [of _ d']) (auto simp: collect_row_def room_Cons)
    qed
  qed
qed

lemma list_for_collect_new:
  assumes "\<And>e d rs. e \<in> set es \<Longrightarrow> I d \<Longrightarrow>
      \<exists>d'. I d' \<and> body e (d, rs) = Some (if P e then collect_row q (g e) (d', rs) else ((d', rs), False))"
    and "I d"
  shows "\<exists>d'. I d' \<and> list_for body es (d, []) = Some (d', take_limit (q_limit q) (map g (filter P es)))"
proof -
  have "room (q_limit q) 0 xs = take_limit (q_limit q) xs" for xs :: "'c list"
    by (simp add: room_def take_limit_def)
  then show ?thesis using list_for_collect [of es I body P q g d "[]", OF assms] by simp
qed

section \<open>The rows of a table in key order\<close>

context indexed_table
begin

lemma scan_rows:
  assumes fin: "finite (dom m)" and ok: "table_ok tid pk keys dec rid m"
  obtains rs where
    "map fst (filter (\<lambda>e. prefix (EncodeKey tid []) (fst e) \<and> Q (fst e)) (sorted_entries m))
      = map (\<lambda>r. EncodeKey tid (pk (rid r))) rs"
    "map (dec \<circ> snd) (filter (\<lambda>e. prefix (EncodeKey tid []) (fst e) \<and> Q (fst e)) (sorted_entries m)) = map Some rs"
    "sorted_wrt (\<lambda>a b. pk (rid a) < pk (rid b)) rs"
    "set rs = {r. table_rows tid pk dec m (rid r) = Some r \<and> Q (EncodeKey tid (pk (rid r)))}"
proof -
  let ?es = "filter (\<lambda>e. prefix (EncodeKey tid []) (fst e) \<and> Q (fst e)) (sorted_entries m)"
  let ?rs = "map (the \<circ> dec \<circ> snd) ?es"
  have ent: "\<exists>r. fst e = EncodeKey tid (pk (rid r)) \<and> dec (snd e) = Some r
      \<and> table_rows tid pk dec m (rid r) = Some r" if "e \<in> set ?es" for e
  proof -
    have "m (fst e) = Some (snd e)" "prefix (EncodeKey tid []) (fst e)"
      using that sorted_entries_set [OF fin, of "fst e" "snd e"] by auto
    moreover from this obtain b where "fst e = EncodeKey tid b" by (auto simp: prefix_def EncodeKey_def)
    ultimately show ?thesis using ok_data [OF ok, of b "snd e"] by auto
  qed
  have keys: "map fst ?es = map (\<lambda>r. EncodeKey tid (pk (rid r))) ?rs"
    unfolding map_map by (rule map_cong [OF refl]) (use ent in fastforce)
  have decs: "map (dec \<circ> snd) ?es = map Some ?rs"
    unfolding map_map by (rule map_cong [OF refl]) (use ent in fastforce)
  have "sorted_wrt (<) (map fst (sorted_entries m))"
    using sorted_entries_keys [OF fin] by simp
  then have "sorted_wrt (<) (map fst ?es)" by (simp add: sorted_wrt_map sorted_wrt_filter)
  then have srt: "sorted_wrt (\<lambda>a b. pk (rid a) < pk (rid b)) ?rs"
    unfolding keys by (simp add: sorted_wrt_map key_simps)
  have "set ?rs = {r. table_rows tid pk dec m (rid r) = Some r \<and> Q (EncodeKey tid (pk (rid r)))}"
  proof (intro equalityI subsetI)
    fix r assume "r \<in> set ?rs"
    then obtain e where e: "e \<in> set ?es" "r = the (dec (snd e))" by auto
    with ent [OF e(1)] show "r \<in> {r. table_rows tid pk dec m (rid r) = Some r \<and> Q (EncodeKey tid (pk (rid r)))}"
      by auto
  next
    fix r assume "r \<in> {r. table_rows tid pk dec m (rid r) = Some r \<and> Q (EncodeKey tid (pk (rid r)))}"
    then obtain v where v: "m (EncodeKey tid (pk (rid r))) = Some v" "dec v = Some r" "Q (EncodeKey tid (pk (rid r)))"
      by (auto simp: table_rows_def)
    then have "(EncodeKey tid (pk (rid r)), v) \<in> set ?es"
      using sorted_entries_set [OF fin] by (auto simp: key_simps)
    then show "r \<in> set ?rs" using v(2) by force
  qed
  with keys decs srt that show thesis by blast
qed

end

text \<open>
  \<open>user_listing t Q us\<close>: \<open>us\<close> lists the users of the table \<open>t\<close> whose id satisfies \<open>Q\<close>, in the numeric
  order of their ids.  There is exactly one such list.
\<close>

definition user_listing :: "user_table \<Rightarrow> (64 word \<Rightarrow> bool) \<Rightarrow> User list \<Rightarrow> bool" where
  "user_listing t Q us \<longleftrightarrow> sorted_wrt (\<lambda>u v. u_Id u <s u_Id v) us
     \<and> set us = {u. t (u_Id u) = Some u \<and> Q (u_Id u)}"

lemma pk_less: "encodeUserPrimaryKey i < encodeUserPrimaryKey j \<longleftrightarrow> i <s j"
  "encodeSessionPrimaryKey i < encodeSessionPrimaryKey j \<longleftrightarrow> i <s j"
  by (simp_all add: encodeUserPrimaryKey_def encodeSessionPrimaryKey_def EncodeOrderedInt64_less word_sless_alt)

lemma user_listing_unique:
  assumes "user_listing t Q us" and "user_listing t Q vs"
  shows "us = vs"
proof -
  have ids: "sorted_wrt (<) (map (sint \<circ> u_Id) ws)" if "user_listing t Q ws" for ws
    using that by (simp add: user_listing_def sorted_wrt_map word_sless_alt)
  have "set us = set vs" using assms by (simp add: user_listing_def)
  then have eq: "map (sint \<circ> u_Id) us = map (sint \<circ> u_Id) vs"
    using ids [OF assms(1)] ids [OF assms(2)] by (intro strict_sorted_equal) auto
  have row: "t (u_Id u) = Some u" if "u \<in> set us \<union> set vs" for u
    using that assms by (auto simp: user_listing_def)
  have "inj_on (sint \<circ> u_Id) (set us \<union> set vs)"
  proof (rule inj_onI)
    fix u v assume uv: "u \<in> set us \<union> set vs" "v \<in> set us \<union> set vs" and "(sint \<circ> u_Id) u = (sint \<circ> u_Id) v"
    then have "u_Id u = u_Id v" by (simp add: signed_word_eqI)
    then have "Some u = Some v" using row [OF uv(1)] row [OF uv(2)] by metis
    then show "u = v" by (rule option.inject [THEN iffD1])
  qed
  from map_inj_on [OF eq this] show ?thesis .
qed

lemma user_listing_filter: "user_listing t Q us \<Longrightarrow> user_listing t (\<lambda>i. Q i \<and> R i) (filter (\<lambda>u. R (u_Id u)) us)"
  by (auto simp: user_listing_def sorted_wrt_filter)

lemma user_matches:
  assumes "query_of q (map user_qcond ws)" and "plain_conds (map user_qcond ws)"
  shows "user_matchWhere q u = Some (user_sat ws u)"
    and "user_matchWhereTail q u = Some (user_sat (drop 1 ws) u)"
proof -
  let ?cs = "map user_qcond ws"
  note E = eval_conds [OF assms(1) user_typed no_spaced_field(1), of u]
  have 1: "list_all (cond_effect (user_value u) ?cs) ?cs = user_sat ws u"
    using plain_effects [OF assms(2), of "user_value u"] by (simp add: user_sat_def list_all_iff)
  have "cond_effect (user_value u) ?cs c = cond_holds (user_value u) c" if "c \<in> set (drop 1 ?cs)" for c
    using plain_effect [OF assms(2)] that in_set_dropD by metis
  then have "list_all (cond_effect (user_value u) ?cs) (drop 1 ?cs) = list_all (cond_holds (user_value u)) (drop 1 ?cs)"
    by (rule list.pred_cong [OF refl])
  then have 2: "list_all (cond_effect (user_value u) ?cs) (drop 1 ?cs) = user_sat (drop 1 ws) u"
    by (simp add: drop_map user_sat_def list_all_iff)
  show "user_matchWhere q u = Some (user_sat ws u)"
    unfolding user_matchWhere_def user_cond_eval using E(1) 1 by simp
  show "user_matchWhereTail q u = Some (user_sat (drop 1 ws) u)"
    unfolding user_matchWhereTail_def user_cond_eval using E(2) 2 by simp
qed

section \<open>User queries\<close>

lemma user_dec_Some: "user_dec E v = Some u \<longleftrightarrow> DeserializeUser E v = Some (Inr u)"
  by (auto simp: user_dec_def split: option.splits sum.splits)

text \<open>\<open>cursor q i\<close>: the ids after the cursor.\<close>

definition cursor :: "64 word option \<Rightarrow> 64 word \<Rightarrow> bool" where
  "cursor c i \<longleftrightarrow> (case c of None \<Rightarrow> True | Some j \<Rightarrow> j <s i)"

definition set_cursor :: "64 word option \<Rightarrow> UserQuery \<Rightarrow> UserQuery" where
  "set_cursor c q = (case c of None \<Rightarrow> q | Some j \<Rightarrow> user_After j q)"

lemma query_of_set [simp]:
  "query_of (query_Limit n q) cs = query_of q cs" "query_of (set_cursor c q) cs = query_of q cs"
  by (simp_all add: query_of_def query_Limit_def set_cursor_def user_After_def split: option.split)

lemma user_scan_spec:
  assumes ok: "handle_ok E view pend d" and u: "users_ok E (db_view view d)"
    and it: "iter_laws E view snap pos"
    and q: "query_of q (map user_qcond ws)" "plain_conds (map user_qcond ws)"
    and c: "q_afterSet q = (c \<noteq> None)" "\<And>j. c = Some j \<Longrightarrow> q_lastPK q = encodeUserPrimaryKey j"
    and us: "user_listing (user_rows E (db_view view d)) (cursor c) us"
  shows "user_execFullScan E q d = Some (d, take_limit (q_limit q) (filter (user_sat ws) us))"
proof -
  let ?m = "db_view view d" and ?p = "EncodeKey user_tableID []"
  define Q where "Q = (\<lambda>k. case c of None \<Rightarrow> True | Some j \<Rightarrow> EncodeKey user_tableID (encodeUserPrimaryKey j) < k)"
  let ?es = "filter (\<lambda>e. prefix ?p (fst e) \<and> Q (fst e)) (sorted_entries ?m)"
  have fin: "finite (dom ?m)" using iter_finite [OF it] .
  obtain x where x: "db_Iterate E ?p d = Some x"
    using iter_laws_new [OF it, of "db_pebble d" ?p] ok by (auto simp: db_Iterate_def handle_ok_def)
  obtain rs where rs: "map (user_dec E \<circ> snd) ?es = map Some rs"
    "sorted_wrt (\<lambda>a b. encodeUserPrimaryKey (u_Id a) < encodeUserPrimaryKey (u_Id b)) rs"
    "set rs = {r. table_rows user_tableID encodeUserPrimaryKey (user_dec E) ?m (u_Id r) = Some r
        \<and> Q (EncodeKey user_tableID (encodeUserPrimaryKey (u_Id r)))}"
    by (rule users.scan_rows [OF fin u [unfolded users_ok_def], of Q])
  have "user_listing (user_rows E ?m) (cursor c) rs"
    using rs(2,3) by (simp add: user_listing_def user_rows_def cursor_def Q_def pk_less key_simps split: option.splits)
  then have rs_us: "rs = us" using us by (rule user_listing_unique)
  let ?g = "\<lambda>e. the (user_dec E (snd e))"
  have dec: "user_dec E (snd e) = Some (?g e)" if "e \<in> set ?es" for e
  proof -
    have "user_dec E (snd e) \<in> set (map (user_dec E \<circ> snd) ?es)" unfolding set_map by (rule image_eqI [OF _ that]) (simp only: comp_apply)
    then show ?thesis unfolding rs(1) by auto
  qed
  have us_es: "map ?g ?es = us"
  proof -
    have "map ?g ?es = map the (map (user_dec E \<circ> snd) ?es)" by simp
    also have "\<dots> = us" unfolding rs(1) using rs_us by (simp add: comp_def)
    finally show ?thesis .
  qed
  have "\<exists>d'. d' = d \<and> list_for (\<lambda>e. user_scan_body E q (fst e) (snd e)) ?es (d, [])
      = Some (d', take_limit (q_limit q) (map ?g (filter (\<lambda>e. user_sat ws (?g e)) ?es)))"
  proof (rule list_for_collect_new)
    fix e d1 rs' assume e: "e \<in> set ?es" and "d1 = d"
    then have "DeserializeUser E (snd e) = Some (Inr (?g e))" using dec user_dec_Some by blast
    then show "\<exists>d'. d' = d \<and> user_scan_body E q (fst e) (snd e) (d1, rs')
        = Some (if user_sat ws (?g e) then collect_row q (?g e) (d', rs') else ((d', rs'), False))"
      using user_matches [OF q] \<open>d1 = d\<close> by (simp add: user_scan_body_def)
  qed simp
  moreover have "map ?g (filter (\<lambda>e. user_sat ws (?g e)) ?es) = filter (user_sat ws) us"
    by (simp only: us_es [symmetric] filter_map comp_def)
  moreover have "user_execFullScan E q d = list_for (\<lambda>e. user_scan_body E q (fst e) (snd e)) ?es (d, [])"
    using c by (cases c) (simp_all add: user_execFullScan_def x Q_def it_for_iterate [OF it x] it_for_seek_after [OF it x])
  ultimately show ?thesis by simp
qed


lemma unique_prefix:
  assumes u: "users_ok E m" and p: "prefix (EncodeIndexPrefix user_tableID 3 e) k"
  shows "m k = Some v \<longleftrightarrow> k = EncodeUniqueIndexKey user_tableID 3 e
    \<and> (\<exists>j. email_holder E m e j \<and> v = encodeUserPrimaryKey j)"
proof -
  obtain b where b: "k = EncodeIndexPrefix user_tableID 3 e @ b" using p by (auto simp: prefix_def)
  then have sp: "index_space user_tableID k" by (auto simp: index_space_def)
  have ok: "table_ok user_tableID encodeUserPrimaryKey user_keys (user_dec E) u_Id m"
    using u by (simp only: users_ok_def)
  have "k = EncodeUniqueIndexKey user_tableID 3 e" if some: "m k = Some v"
  proof -
    obtain j r where "k \<in> set (user_keys j r)"
      using users.ok_index [OF ok sp, THEN iffD1, OF some] by blast
    then show ?thesis
      using index_prefix_append_eq [of user_tableID 3 e b user_tableID 3 "u_Email r" "[]"]
      by (auto simp: b user_keys_def encodeUserIndexEmailValue_def EncodeUniqueIndexKey_def index_key_prefix
          index_prefix_append_eq)
  qed
  then show ?thesis using unique_entry [OF u, of e v] by metis
qed

lemma distinct_singleton: "distinct xs \<Longrightarrow> set xs = {a} \<Longrightarrow> xs = [a]"
  by (cases xs; cases "tl xs") auto

lemma distinct_entries: "finite (dom m) \<Longrightarrow> distinct (filter P (sorted_entries m))"
  using sorted_entries_keys [of m] by (metis distinct_filter distinct_map distinct_sorted_list_of_set)

text \<open>The entries of the unique index for one email: none, or one that holds the id of its user.\<close>

lemma unique_entries:
  assumes u: "users_ok E m" and fin: "finite (dom m)"
  shows "filter (\<lambda>x. prefix (EncodeIndexPrefix user_tableID 3 e) (fst x) \<and> Q (fst x)) (sorted_entries m)
    = (case m (EncodeUniqueIndexKey user_tableID 3 e) of
         None \<Rightarrow> []
       | Some v \<Rightarrow> if Q (EncodeUniqueIndexKey user_tableID 3 e) then [(EncodeUniqueIndexKey user_tableID 3 e, v)] else [])"
    (is "?es = _")
proof -
  let ?k = "EncodeUniqueIndexKey user_tableID 3 e"
  have mem: "(k, w) \<in> set ?es \<longleftrightarrow> k = ?k \<and> m ?k = Some w \<and> Q ?k" for k w
  proof (cases "prefix (EncodeIndexPrefix user_tableID 3 e) k")
    case True
    have "m k = Some w \<longleftrightarrow> k = ?k \<and> m ?k = Some w"
      unfolding unique_prefix [OF u True] unique_entry [OF u] ..
    then show ?thesis unfolding set_filter mem_Collect_eq fst_conv sorted_entries_set [OF fin] using True by blast
  next
    case False
    then have "k \<noteq> ?k" by (auto simp: EncodeUniqueIndexKey_def)
    with False show ?thesis by simp
  qed
  show ?thesis
  proof (cases "\<exists>v. m ?k = Some v \<and> Q ?k")
    case False
    have "(k, w) \<notin> set ?es" for k w using mem [of k w] False by blast
    then have "set ?es = {}" by (intro equals0I) (simp only: split_paired_all)
    then have "?es = []" by (simp only: set_empty)
    with False show ?thesis by (cases "m ?k") simp_all
  next
    case True
    then obtain v where v: "m ?k = Some v" "Q ?k" by blast
    then have "set ?es = {(?k, v)}" using mem by (intro set_eqI) (simp only: split_paired_all singleton_iff prod.inject option.inject, blast)
    from distinct_singleton [OF distinct_entries [OF fin] this] v show ?thesis by simp
  qed
qed

lemma take_limit_short: "length xs \<le> 1 \<Longrightarrow> take_limit n xs = xs"
  by (cases xs) (auto simp: take_limit_def)

lemma user_listing_distinct: "user_listing t Q us \<Longrightarrow> distinct us"
proof -
  assume "user_listing t Q us"
  then have "sorted_wrt (<) (map (sint \<circ> u_Id) us)" by (simp add: user_listing_def sorted_wrt_map word_sless_alt)
  then show ?thesis by (metis distinct_map strict_sorted_iff)
qed

lemma user_sat_email: "user_sat (UEmail ''='' e # ws) r \<longleftrightarrow> u_Email r = e \<and> user_sat ws r"
  by (auto simp: user_sat_def cond_holds_def arg_holds_def user_value_def string_op_def)

text \<open>The users a query on one email can find.\<close>

lemma email_filter:
  assumes u: "users_ok E m" and us: "user_listing (user_rows E m) (\<lambda>_. True) us"
  shows "case m (EncodeUniqueIndexKey user_tableID 3 e) of
      None \<Rightarrow> filter (user_sat (UEmail ''='' e # ws)) us = []
    | Some v \<Rightarrow> \<exists>r. v = encodeUserPrimaryKey (u_Id r) \<and> user_rows E m (u_Id r) = Some r
        \<and> filter (user_sat (UEmail ''='' e # ws)) us = (if user_sat ws r then [r] else [])"
proof -
  let ?k = "EncodeUniqueIndexKey user_tableID 3 e" and ?P = "user_sat (UEmail ''='' e # ws)"
  have row: "r \<in> set us \<longleftrightarrow> user_rows E m (u_Id r) = Some r" for r
    using us by (simp add: user_listing_def)
  have holder: "email_holder E m e (u_Id r)" if "r \<in> set us" "?P r" for r
    using that unfolding user_sat_email row email_holder_def by blast
  show ?thesis
  proof (cases "m ?k")
    case None
    have "\<not> ?P r" if "r \<in> set us" for r
      using holder [OF that] unique_entry [OF u, of e "encodeUserPrimaryKey (u_Id r)"] None by (metis option.distinct(1))
    then have "filter ?P us = []" by (simp add: filter_empty_conv)
    with None show ?thesis by simp
  next
    case (Some v)
    then obtain j where j: "email_holder E m e j" "v = encodeUserPrimaryKey j"
      using unique_entry [OF u, of e v] by blast
    then obtain r where r: "user_rows E m j = Some r" "u_Email r = e" by (auto simp: email_holder_def)
    have id: "u_Id r = j"
      using users.rows_rid [OF u [unfolded users_ok_def] r(1) [unfolded user_rows_def]] .
    have in_us: "r \<in> set us" using row [of r] r(1) id by simp
    have only: "s = r" if "s \<in> set us" "?P s" for s
    proof -
      have "u_Id s = j" using email_unique [OF u holder [OF that] j(1)] .
      then have "Some s = Some r" using row [of s] that(1) r(1) by metis
      then show ?thesis by (rule option.inject [THEN iffD1])
    qed
    have "filter ?P us = (if user_sat ws r then [r] else [])"
    proof (cases "user_sat ws r")
      case True
      then have "?P r" using r(2) by (simp add: user_sat_email)
      then have "set (filter ?P us) = {r}" using in_us only unfolding set_filter by blast
      with True distinct_singleton [OF distinct_filter [OF user_listing_distinct [OF us]]] show ?thesis by simp
    next
      case False
      then have "\<not> ?P s" if "s \<in> set us" for s using only [OF that] by (auto simp: user_sat_email)
      with False show ?thesis by (simp add: filter_empty_conv)
    qed
    then show ?thesis unfolding Some option.case j(2) using id r(1) by blast
  qed
qed

lemma user_indexed_spec:
  assumes ok: "handle_ok E view pend d" and u: "users_ok E (db_view view d)"
    and it: "iter_laws E view snap pos"
    and q: "query_of q (map user_qcond (UEmail ''='' e # ws))" "plain_conds (map user_qcond (UEmail ''='' e # ws))"
    and c: "\<not> q_afterSet q"
    and us: "user_listing (user_rows E (db_view view d)) (\<lambda>_. True) us"
  obtains d' where "user_execIndexed E q d
      = Some (d', take_limit (q_limit q) (filter (user_sat (UEmail ''='' e # ws)) us))"
    "handle_ok E view pend d'" "db_view view d' = db_view view d"
proof -
  let ?m = "db_view view d" and ?p = "EncodeIndexPrefix user_tableID 3 e" and ?k = "EncodeUniqueIndexKey user_tableID 3 e"
  let ?ws = "UEmail ''='' e # ws"
  have fin: "finite (dom ?m)" using iter_finite [OF it] .
  obtain x where x: "db_Iterate E ?p d = Some x"
    using iter_laws_new [OF it, of "db_pebble d" ?p] ok by (auto simp: db_Iterate_def handle_ok_def)
  obtain rest where args: "q_args q = QString e # rest" "length (q_where q) = Suc (length ws)"
    using q(1) by (auto simp: query_of_def)
  have run: "user_execIndexed E q d = list_for (\<lambda>x. user_indexed_body E q (fst x) (snd x))
      (case ?m ?k of None \<Rightarrow> [] | Some v \<Rightarrow> [(?k, v)]) (d, [])"
    using c unique_entries [OF u fin, of e "\<lambda>_. True"]
    by (simp add: user_execIndexed_def args x it_for_iterate [OF it x] split: option.splits)
  note F = email_filter [OF u us, of e ws]
  show thesis
  proof (cases "?m ?k")
    case None
    with F run ok show thesis by (intro that [of d]) (simp_all add: take_limit_def)
  next
    case (Some v)
    with F obtain r where r: "v = encodeUserPrimaryKey (u_Id r)" "user_rows E ?m (u_Id r) = Some r"
      "filter (user_sat ?ws) us = (if user_sat ws r then [r] else [])" by auto
    then obtain w where w: "?m (EncodeKey user_tableID v) = Some w" "user_dec E w = Some r"
      by (auto simp: user_rows_def table_rows_def)
    obtain d1 where d1: "db_Get E (EncodeKey user_tableID v) d = (d1, Inr (Some w))"
      "handle_ok E view pend d1" "db_view view d1 = ?m"
      using handle.getE [OF ok, of "EncodeKey user_tableID v"] w(1) by auto
    have tail: "(if 1 < length (q_where q) then user_matchWhereTail q r else Some True) = Some (user_sat ws r)"
      using user_matches(2) [OF q, of r] args(2) by (cases ws) (simp_all add: user_sat_def)
    have "DeserializeUser E w = Some (Inr r)" using w(2) user_dec_Some by blast
    then have "user_execIndexed E q d = Some (d1, if user_sat ws r then [r] else [])"
      using run Some d1(1) tail by (simp add: user_indexed_body_def collect_row_def Let_def)
    then show thesis using d1 r(3) by (intro that [of d1]) (simp_all add: take_limit_short)
  qed
qed


fun by_email :: "user_filter list \<Rightarrow> bool" where
  "by_email (UEmail op v # ws) = (op = ''='')"
| "by_email ws = False"

lemma user_Exec_dispatch:
  assumes q: "query_of q (map user_qcond ws)" and p: "plain_conds (map user_qcond ws)"
  shows "user_Exec E q d = (if by_email ws then user_execIndexed E q d else user_execFullScan E q d)"
proof (cases ws)
  case Nil
  with q show ?thesis by (simp add: user_Exec_def query_of_def)
next
  case (Cons w ws')
  have "CHR '' '' \<notin> set (fst (snd (user_qcond w)))" using p Cons by (simp add: plain_conds_def)
  then have "splitWhere (cond_text (user_qcond w)) = [fst (user_qcond w), fst (snd (user_qcond w))]"
    by (simp add: cond_text_def splitWhere_cond)
  with q Cons show ?thesis by (cases w) (simp_all add: user_Exec_def query_of_def)
qed

lemma user_Exec_spec:
  assumes ok: "handle_ok E view pend d" and u: "users_ok E (db_view view d)"
    and it: "iter_laws E view snap pos" and p: "plain_conds (map user_qcond ws)"
    and us: "user_listing (user_rows E (db_view view d)) (\<lambda>_. True) us"
    and c: "by_email ws \<Longrightarrow> c = None"
  obtains d' where "user_Exec E (set_cursor c (query_Limit n (user_query ws))) d
      = Some (d', take_limit n (filter (user_sat ws) (filter (\<lambda>u. cursor c (u_Id u)) us)))"
    "handle_ok E view pend d'" "db_view view d' = db_view view d"
proof -
  let ?q = "set_cursor c (query_Limit n (user_query ws))"
  have q: "query_of ?q (map user_qcond ws)" using user_query_of [of ws] by simp
  have init: "\<not> q_afterSet (user_query ws)"
  proof -
    have "q_afterSet (fold user_where ws q') = q_afterSet q'" for q'
    proof (induction ws arbitrary: q')
      case (Cons w ws)
      then show ?case by (cases w) (simp_all add: WhereName_def WhereEmail_def WhereCreatedAt_def
          WhereActive_def WhereBio_def add_cond_def)
    qed simp
    then show ?thesis by (simp add: user_query_def NewUserQuery_def)
  qed
  have after: "q_afterSet ?q = (c \<noteq> None)" "\<And>j. c = Some j \<Longrightarrow> q_lastPK ?q = encodeUserPrimaryKey j"
    "q_limit ?q = n"
    using init by (auto simp: set_cursor_def user_After_def query_Limit_def split: option.splits)
  show thesis
  proof (cases "by_email ws")
    case False
    have "user_listing (user_rows E (db_view view d)) (cursor c) (filter (\<lambda>u. cursor c (u_Id u)) us)"
      using user_listing_filter [OF us, of "cursor c"] by simp
    from user_scan_spec [OF ok u it q p after(1,2) this] show thesis
      using user_Exec_dispatch [OF q p, of E d] False ok after(3) by (intro that [of d]) simp_all
  next
    case True
    then obtain e ws' where ws: "ws = UEmail ''='' e # ws'" by (cases ws rule: by_email.cases) auto
    have "\<not> q_afterSet ?q" using after(1) c [OF True] by simp
    moreover have wm: "map user_qcond ws = map user_qcond (UEmail ''='' e # ws')" by (simp only: ws)
    ultimately have noc: "\<not> q_afterSet ?q" by blast
    from user_indexed_spec [OF ok u it q [unfolded wm] p [unfolded wm] noc us]
    obtain d' where "user_execIndexed E ?q d
        = Some (d', take_limit n (filter (user_sat ws) us))" "handle_ok E view pend d'"
        "db_view view d' = db_view view d" unfolding after(3) ws [symmetric] by blast
    moreover have "filter (\<lambda>u. cursor c (u_Id u)) us = us" using c [OF True] by (simp add: cursor_def)
    ultimately show thesis
      using user_Exec_dispatch [OF q p, of E d] True by (intro that [of d']) simp_all
  qed
qed

section \<open>Properties of user queries\<close>

text \<open>
  C13. A user query without a cursor returns exactly the stored users that satisfy all its conditions by the
  documented meaning of their operators (\<open>user_means\<close>: numbers compared as numbers, \<open>LIKE\<close> a part of the text), in
  the numeric order of their ids and cut off at the limit, whether it runs over the unique index or over the
  table; it changes nothing that is stored.  \<open>First\<close> is the first of them and leaves the limit 1 in
  the query, \<open>Count\<close> counts those within the limit.  The operators are those the generated code implements for the
  type of the field (\<open>user_supported\<close>), which leaves out \<open>>\<close>, \<open><\<close>, \<open>>=\<close> and \<open><=\<close> on texts
  (\<open>string_range_finds_nothing\<close>), and no two conditions have the same field and operator and different arguments.
\<close>

theorem user_query_exact:
  assumes "handle_ok E view pend d" and "users_ok E (db_view view d)" and "iter_laws E view snap pos"
    and "plain_conds (map user_qcond ws)" and "list_all user_supported ws"
    and "user_listing (user_rows E (db_view view d)) (\<lambda>_. True) us"
  shows "let q = query_Limit n (user_query ws); found = filter (user_means ws) us in
    \<exists>d1 d2 d3. user_Exec E q d = Some (d1, take_limit n found)
      \<and> user_Count E q d = Some (d2, length (take_limit n found))
      \<and> user_First E q d = Some (query_Limit 1 q, d3, case found of [] \<Rightarrow> None | m # _ \<Rightarrow> Some m)
      \<and> db_view view d1 = db_view view d \<and> db_view view d2 = db_view view d \<and> db_view view d3 = db_view view d"
proof -
  let ?q = "\<lambda>n. query_Limit n (user_query ws)" and ?found = "filter (user_means ws) us"
  note sat = user_sat_means [OF assms(5)]
  have X: "\<exists>d'. user_Exec E (?q n) d = Some (d', take_limit n ?found) \<and> db_view view d' = db_view view d" for n
  proof -
    obtain d' where "user_Exec E (set_cursor None (?q n)) d
        = Some (d', take_limit n (filter (user_sat ws) (filter (\<lambda>u. cursor None (u_Id u)) us)))"
      "handle_ok E view pend d'" "db_view view d' = db_view view d"
      by (rule user_Exec_spec [OF assms(1-4,6), of None n]) simp
    then show ?thesis unfolding sat by (auto simp: set_cursor_def cursor_def)
  qed
  obtain d1 where d1: "user_Exec E (?q n) d = Some (d1, take_limit n ?found)" "db_view view d1 = db_view view d"
    using X [of n] by blast
  obtain d3 where d3: "user_Exec E (?q 1) d = Some (d3, take_limit 1 ?found)" "db_view view d3 = db_view view d"
    using X [of 1] by blast
  have "(?q n)\<lparr>q_limit := 1\<rparr> = ?q 1" "query_Limit 1 (?q n) = ?q 1" by (simp_all add: query_Limit_def)
  then have "user_First E (?q n) d = Some (query_Limit 1 (?q n), d3, case ?found of [] \<Rightarrow> None | m # _ \<Rightarrow> Some m)"
    using d3(1) by (cases ?found) (simp_all add: user_First_def take_limit_def)
  moreover have "user_Count E (?q n) d = Some (d1, length (take_limit n ?found))"
    using d1(1) by (simp add: user_Count_def)
  ultimately show ?thesis using d1 d3 unfolding Let_def by blast
qed

text \<open>
  Paging: a client asks for \<open>n\<close> rows, then for the rows after the last id of the page, until a page
  is empty; \<open>k\<close> bounds the number of pages it asks for.
\<close>

fun user_pages ::
  "nat \<Rightarrow> ('p, 'b, 'i) platform \<Rightarrow> user_filter list \<Rightarrow> int \<Rightarrow> 64 word option \<Rightarrow> 'p DB \<Rightarrow> ('p DB \<times> User list) option" where
  "user_pages 0 E ws n c d = Some (d, [])"
| "user_pages (Suc k) E ws n c d = do {
     (d1, page) \<leftarrow> user_Exec E (set_cursor c (query_Limit n (user_query ws))) d;
     if page = [] then Some (d1, [])
     else do {
       (d2, more) \<leftarrow> user_pages k E ws n (Some (u_Id (last page))) d1;
       Some (d2, page @ more)
     }
   }"

lemma after_page:
  assumes srt: "sorted_wrt (\<lambda>u v. u_Id u <s u_Id v) us" and k: "0 < k" and ne: "us \<noteq> []"
  shows "filter (\<lambda>u. u_Id (last (take k us)) <s u_Id u) us = drop k us"
proof -
  have split: "us = take k us @ drop k us" by simp
  have ne': "take k us \<noteq> []" using k ne by (cases us; cases k) auto
  have S: "sorted_wrt (\<lambda>u v. u_Id u <s u_Id v) (take k us @ drop k us)" using srt by simp
  have lo: "\<not> u_Id (last (take k us)) <s u_Id u" if "u \<in> set (take k us)" for u
  proof -
    obtain xs where xs: "take k us = xs @ [last (take k us)]" using ne' by (metis append_butlast_last_id)
    have "u = last (take k us) \<or> u_Id u <s u_Id (last (take k us))"
      using that S xs sorted_wrt_append [of "\<lambda>u v. u_Id u <s u_Id v" xs "[last (take k us)]"]
      by (metis (no_types, lifting) append.assoc in_set_conv_decomp list.set_intros(1) set_ConsD sorted_wrt_append Un_iff set_append empty_iff empty_set)
    then show ?thesis by (auto simp: word_sless_alt)
  qed
  have hi: "u_Id (last (take k us)) <s u_Id u" if "u \<in> set (drop k us)" for u
    using S that last_in_set [OF ne'] unfolding sorted_wrt_append by blast
  have "filter (\<lambda>u. u_Id (last (take k us)) <s u_Id u) (take k us) = []"
    "filter (\<lambda>u. u_Id (last (take k us)) <s u_Id u) (drop k us) = drop k us"
    using lo hi by (simp_all add: filter_empty_conv filter_id_conv)
  then show ?thesis by (metis append_Nil append_take_drop_id filter_append)
qed

lemma cursor_after:
  assumes "cursor c i"
  shows "filter P (filter (\<lambda>u. cursor (Some i) (u_Id u)) us)
    = filter (\<lambda>u. i <s u_Id u) (filter P (filter (\<lambda>u. cursor c (u_Id u)) us))"
proof -
  have "cursor (Some i) j \<longleftrightarrow> cursor c j \<and> i <s j" for j
    using assms by (auto simp: cursor_def word_sless_alt split: option.splits)
  then show ?thesis by (simp add: conj_commute conj_left_commute)
qed

lemma user_pages_all:
  assumes u: "users_ok E m" and it: "iter_laws E view snap pos" and p: "plain_conds (map user_qcond ws)"
    and us: "user_listing (user_rows E m) (\<lambda>_. True) us" and n: "0 < n" and e: "\<not> by_email ws"
  shows "handle_ok E view pend d \<Longrightarrow> db_view view d = m \<Longrightarrow>
    length (filter (user_sat ws) (filter (\<lambda>u. cursor c (u_Id u)) us)) < k \<Longrightarrow>
    \<exists>d'. user_pages k E ws n c d = Some (d', filter (user_sat ws) (filter (\<lambda>u. cursor c (u_Id u)) us))
      \<and> db_view view d' = m"
proof (induction k arbitrary: c d)
  case (Suc k)
  let ?F = "filter (user_sat ws) (filter (\<lambda>u. cursor c (u_Id u)) us)"
  have u1: "users_ok E (db_view view d)" and us1: "user_listing (user_rows E (db_view view d)) (\<lambda>_. True) us"
    using u us Suc.prems(2) by simp_all
  obtain d1 where d1: "user_Exec E (set_cursor c (query_Limit n (user_query ws))) d = Some (d1, take_limit n ?F)"
    "handle_ok E view pend d1" "db_view view d1 = m"
    using user_Exec_spec [OF Suc.prems(1) u1 it p us1, of c n] e Suc.prems(2) by metis
  have page: "take_limit n ?F = take (nat n) ?F" using n by (simp add: take_limit_def)
  show ?case
  proof (cases "?F = []")
    case True
    with d1 page show ?thesis by simp
  next
    case False
    let ?i = "u_Id (last (take (nat n) ?F))"
    have ne: "take (nat n) ?F \<noteq> []" using False n by (cases ?F) auto
    have "last (take (nat n) ?F) \<in> set ?F" using in_set_takeD [OF last_in_set [OF ne]] .
    then have ci: "cursor c ?i" by simp
    have srt: "sorted_wrt (\<lambda>u v. u_Id u <s u_Id v) ?F"
      using us by (simp add: user_listing_def sorted_wrt_filter)
    have F': "filter (user_sat ws) (filter (\<lambda>u. cursor (Some ?i) (u_Id u)) us) = drop (nat n) ?F"
      unfolding cursor_after [OF ci] by (rule after_page [OF srt _ False]) (use n in simp)
    have "0 < length ?F" "0 < nat n" using False n by (simp_all only: length_greater_0_conv zero_less_nat_eq not_False_eq_True)
    then have "length (drop (nat n) ?F) < k" using Suc.prems(3) unfolding length_drop by linarith
    then obtain d2 where d2: "user_pages k E ws n (Some ?i) d1 = Some (d2, drop (nat n) ?F)" "db_view view d2 = m"
      using Suc.IH [OF d1(2,3), of "Some ?i"] unfolding F' by blast
    have "user_pages (Suc k) E ws n c d = Some (d2, take (nat n) ?F @ drop (nat n) ?F)"
      using d1(1) d2(1) ne unfolding page by (simp del: filter_filter append_take_drop_id)
    then show ?thesis using d2(2) by (simp only: append_take_drop_id) blast
  qed
qed simp

text \<open>
  C32. Pages neither skip nor repeat rows: asking for pages of any size \<open>n > 0\<close>, each after the
  last id of the one before, ends with an empty page and yields all the users that satisfy the conditions by
  their documented meaning, once each and in id order; as many pages as there are such users, and one more, are
  enough.  This is about queries that scan the table: one whose first condition is \<open>Email =\<close> uses the unique index,
  where a cursor finds nothing (\<open>unique_index_cursor_finds_nothing\<close>).  The operators are those implemented for the
  field (no order on texts), and no two conditions have the same field and operator and different arguments.
\<close>

theorem paging_complete:
  assumes "handle_ok E view pend d" and "users_ok E (db_view view d)" and "iter_laws E view snap pos"
    and "plain_conds (map user_qcond ws)" and "\<not> by_email ws" and "0 < n"
    and "user_listing (user_rows E (db_view view d)) (\<lambda>_. True) us"
    and "length (filter (user_means ws) us) < k" and "list_all user_supported ws"
  shows "\<exists>d'. user_pages k E ws n None d = Some (d', filter (user_means ws) us) \<and> db_view view d' = db_view view d"
  using user_pages_all [OF assms(2,3,4,7,6,5,1) refl, of None k] assms(8)
  by (simp add: cursor_def user_sat_means [OF assms(9)])

text \<open>
  A text compared by order finds nothing: \<open>WhereEmail(">=", e)\<close> and its like, which \<open>docs/api.md\<close> lists (and has in
  its example), return no row, whoever is stored.
\<close>

theorem string_range_finds_nothing:
  assumes "handle_ok E view pend d" and "users_ok E (db_view view d)" and "iter_laws E view snap pos"
    and "op \<in> order_ops" and "user_listing (user_rows E (db_view view d)) (\<lambda>_. True) us"
  shows "\<exists>d'. user_Exec E (query_Limit n (user_query [UEmail op e])) d = Some (d', [])"
proof -
  have plain: "plain_conds (map user_qcond [UEmail op e])"
    using assms(4) by (auto simp: plain_conds_def order_ops_def same_cond_def)
  have "\<not> user_sat [UEmail op e] u" for u
    using string_op_order [OF assms(4)] by (simp add: user_sat_def cond_holds_def arg_holds_def user_value_def)
  then have none: "filter (user_sat [UEmail op e]) xs = []" for xs by simp
  obtain d' where "user_Exec E (set_cursor None (query_Limit n (user_query [UEmail op e]))) d
      = Some (d', take_limit n (filter (user_sat [UEmail op e]) (filter (\<lambda>u. cursor None (u_Id u)) us)))"
    by (rule user_Exec_spec [OF assms(1-3) plain assms(5), of None n]) simp
  then show ?thesis unfolding none by (auto simp: set_cursor_def take_limit_def)
qed

text \<open>
  A cursor on a query over the unique index finds nothing: whatever the cursor and the stored
  users, a query whose first condition is \<open>Email =\<close> returns no row after \<open>After\<close>, although the user with this
  email may have a greater id.
\<close>

theorem unique_index_cursor_finds_nothing:
  assumes "handle_ok E view pend d" and "users_ok E (db_view view d)" and "iter_laws E view snap pos"
  shows "user_Exec E (user_After j (WhereEmail ''='' e NewUserQuery)) d = Some (d, [])"
proof -
  let ?q = "user_After j (WhereEmail ''='' e NewUserQuery)" and ?p = "EncodeIndexPrefix user_tableID 3 e"
  let ?t = "EncodeIndexKey user_tableID 3 e (encodeUserPrimaryKey j)"
  have fin: "finite (dom (db_view view d))" using iter_finite [OF assms(3)] .
  obtain x where x: "db_Iterate E ?p d = Some x"
    using iter_laws_new [OF assms(3), of "db_pebble d" ?p] assms(1) by (auto simp: db_Iterate_def handle_ok_def)
  have "\<not> ?t < EncodeUniqueIndexKey user_tableID 3 e"
    using prefix_less_append [of ?p "encodeUserPrimaryKey j"]
    by (auto simp: EncodeUniqueIndexKey_def index_key_prefix)
  then have "filter (\<lambda>x. prefix ?p (fst x) \<and> ?t < fst x) (sorted_entries (db_view view d)) = []"
    using unique_entries [OF assms(2) fin, of e "\<lambda>k. ?t < k"] by (simp split: option.splits)
  then have "it_for E (user_indexed_body E ?q) (it_SeekAfter E ?t x) (d, []) = Some (d, [])"
    by (simp only: it_for_seek_after [OF assms(3) x] list_for.simps)
  moreover have "splitWhere (''Email'' @ '' '' @ ''='' @ '' ?'') = [''Email'', ''='']"
    by (rule splitWhere_pair) simp
  ultimately show ?thesis
    using x by (simp add: user_Exec_def user_execIndexed_def user_After_def WhereEmail_def add_cond_def NewUserQuery_def)
qed


text \<open>A stored user with its index entries.\<close>

definition one_user :: mem_store where
  "one_user = (fold mem_put (save_writes user_tableID encodeUserPrimaryKey user_keys 7
     (the (user_Serialize (calm_platform 0) example_user)) None example_user) [], [])"

lemma one_user_ok:
  "users_ok (calm_platform 0) (mem_view one_user)" "user_rows (calm_platform 0) (mem_view one_user) = [7 \<mapsto> example_user]"
proof -
  let ?E = "calm_platform 0"
  have fits: "user_fits example_user" by (simp add: user_fits_def example_user_def)
  obtain v where v: "user_Serialize ?E example_user = Some v" "user_dec ?E v = Some example_user"
    using user_dec_Serialize [OF calm_laws(4) fits] .
  have id: "u_Id example_user = 7" by (simp add: example_user_def)
  have m: "mem_view one_user = apply_writes (save_writes user_tableID encodeUserPrimaryKey user_keys
      (u_Id example_user) v (user_rows ?E Map.empty (u_Id example_user)) example_user) Map.empty"
    using users_ok_Nil(2) [of ?E "[]"] id
    by (simp add: one_user_def mem_view_def map_of_fold_mem_put v(1))
  have nil: "users_ok ?E Map.empty" "user_rows ?E Map.empty = Map.empty"
    using users_ok_Nil [of ?E "[]"] by (simp_all add: mem_view_def)
  have free: "email_holder ?E Map.empty e j \<Longrightarrow> j = i" for e j i by (simp add: email_holder_def nil(2))
  show "users_ok ?E (mem_view one_user)" by (rule user_save_map(1) [OF nil(1) v(2) free m])
  show "user_rows ?E (mem_view one_user) = [7 \<mapsto> example_user]"
    using user_save_map(2) [OF nil(1) v(2) free m] nil(2) by (simp add: example_user_def)
qed

lemma one_user_listing: "user_listing (user_rows (calm_platform 0) (mem_view one_user)) (\<lambda>_. True) [example_user]"
  by (auto simp: one_user_ok user_listing_def example_user_def split: if_splits)

text \<open>Witness: the user is found by email and flag.\<close>

theorem user_query_exact_witness:
  "\<exists>d1. user_Exec (calm_platform 0) (query_Limit 5 (user_query [UEmail ''='' [66, 67], UActive ''='' True]))
      (with_pebble one_user example_db) = Some (d1, [example_user])"
proof -
  let ?ws = "[UEmail ''='' [66, 67], UActive ''='' True]"
  have "plain_conds (map user_qcond ?ws)" by (simp add: plain_conds_def same_cond_def)
  moreover have "list_all user_supported ?ws" by (simp add: text_ops_def flag_ops_def)
  moreover have "user_means ?ws example_user"
    by (simp add: user_means_def text_means_def op_means_def example_user_def)
  ultimately show ?thesis
    using user_query_exact [OF example_handle [of 0 one_user] _ calm_laws(3), of ?ws "[example_user]" 5]
    by (auto simp: one_user_ok(1) one_user_listing take_limit_def Let_def)
qed

text \<open>Witness: pages of one row over the users whose name contains the empty string.\<close>

theorem paging_complete_witness:
  "\<exists>d1. user_pages 2 (calm_platform 0) [UName ''LIKE'' []] 1 None (with_pebble one_user example_db)
      = Some (d1, [example_user])"
proof -
  let ?ws = "[UName ''LIKE'' []]"
  have "plain_conds (map user_qcond ?ws)" by (simp add: plain_conds_def)
  moreover have "list_all user_supported ?ws" by (simp add: text_ops_def)
  moreover have "user_means ?ws example_user" by (simp add: user_means_def text_means_def)
  ultimately show ?thesis
    using paging_complete [OF example_handle [of 0 one_user] _ calm_laws(3), of ?ws 1 "[example_user]" 2]
    by (auto simp: one_user_ok(1) one_user_listing)
qed

text \<open>Witness: the stored user has an email after the one asked for, and is not found.\<close>

theorem string_range_finds_nothing_witness:
  "(\<exists>d'. user_Exec (calm_platform 0) (query_Limit 5 (user_query [UEmail ''>='' [65]])) (with_pebble one_user example_db)
      = Some (d', []))
   \<and> user_rows (calm_platform 0) (mem_view one_user) 7 = Some example_user
   \<and> user_means [UEmail ''>='' [65]] example_user"
proof -
  have "users_ok (calm_platform 0) (db_view mem_view (with_pebble one_user example_db))"
    "user_listing (user_rows (calm_platform 0) (db_view mem_view (with_pebble one_user example_db))) (\<lambda>_. True) [example_user]"
    using one_user_ok(1) one_user_listing by simp_all
  moreover have "''>='' \<in> order_ops" by (simp add: order_ops_def)
  ultimately have "\<exists>d'. user_Exec (calm_platform 0) (query_Limit 5 (user_query [UEmail ''>='' [65]]))
      (with_pebble one_user example_db) = Some (d', [])"
    using string_range_finds_nothing [OF example_handle [of 0 one_user] _ calm_laws(3)] by blast
  moreover have "user_means [UEmail ''>='' [65]] example_user"
    by (simp add: user_means_def text_means_def op_means_def example_user_def)
  ultimately show ?thesis using one_user_ok(2) by simp
qed

text \<open>Witness: the user 7 has this email, the cursor is at 3.\<close>

theorem unique_index_cursor_finds_nothing_witness:
  "user_Exec (calm_platform 0) (user_After 3 (WhereEmail ''='' [66, 67] NewUserQuery)) (with_pebble one_user example_db)
     = Some (with_pebble one_user example_db, [])
   \<and> user_rows (calm_platform 0) (mem_view one_user) 7 = Some example_user \<and> u_Email example_user = [66, 67]"
  using unique_index_cursor_finds_nothing [OF example_handle [of 0 one_user] _ calm_laws(3), of 3 "[66, 67]"]
  by (simp add: one_user_ok example_user_def)

text \<open>
  What duplicate and spaced conditions do: of several conditions with the same field and operator only
  the first argument counts, and a condition whose operator contains a space is ignored; matching
  never panics.  So a query with \<open>Name != a\<close> and \<open>Name != b\<close> accepts a user named \<open>b\<close>, and one on
  \<open>Name\<close> with the operator \<open>" ="\<close> accepts every user.
\<close>

theorem duplicate_conditions_use_first_argument:
  "user_matchWhere (user_query ws) u = Some (list_all (cond_effect (user_value u) (map user_qcond ws)) (map user_qcond ws))
   \<and> (a \<noteq> b \<longrightarrow> user_matchWhere (user_query [UName ''!='' a, UName ''!='' b]) (u\<lparr>u_Name := b\<rparr>) = Some True)
   \<and> user_matchWhere (user_query [UName '' ='' a]) u = Some True"
proof -
  have M: "user_matchWhere (user_query ws) u = Some (list_all (cond_effect (user_value u) (map user_qcond ws)) (map user_qcond ws))" for ws u
    unfolding user_matchWhere_def user_cond_eval
    using eval_conds(1) [OF user_query_of user_typed no_spaced_field(1), of u ws] by simp
  have "a \<noteq> b \<Longrightarrow> user_matchWhere (user_query [UName ''!='' a, UName ''!='' b]) (u\<lparr>u_Name := b\<rparr>) = Some True"
    unfolding M by (simp add: cond_effect_def arg_holds_def first_arg_def same_cond_def user_value_def string_op_def)
  moreover have "user_matchWhere (user_query [UName '' ='' a]) u = Some True"
    unfolding M by (simp add: cond_effect_def)
  ultimately show ?thesis using M by blast
qed

text \<open>Witness: two values, a user with the second.\<close>

theorem duplicate_conditions_use_first_argument_witness:
  "user_matchWhere (user_query [UName ''!='' [1], UName ''!='' [2]]) (example_user\<lparr>u_Name := [2]\<rparr>) = Some True"
  using duplicate_conditions_use_first_argument [of "[]" example_user "[1]" "[2]"] by simp

end
