(* ===== verification/SessionQueries.thy ===== *)
theory SessionQueries
  imports UserQueries
begin

text \<open>
  What session queries return: the stored sessions that satisfy the conditions and have not
  expired, in the numeric order of their ids, whichever scan runs; on the way they remove expired
  rows, and nothing else.
\<close>


lemma tick_WriteBatch: "db_WriteBatch E ops d = (d', err) \<Longrightarrow> db_tick d \<le> db_tick d'"
proof -
  have drop: "db_tick (fold (\<lambda>op. cache_delete (kp_Key op)) ops d) = db_tick d" for d :: "'a DB"
  proof (induction ops arbitrary: d)
    case (Cons op ops)
    then show ?case by (simp add: cache_delete_def split: option.split)
  qed simp
  have mid: "db_writeBatch E ops d = (d', err) \<Longrightarrow> db_tick d' = db_tick d" for d d' err
    using drop by (auto simp: db_writeBatch_def with_pebble_def Let_def split: if_splits option.splits prod.splits)
  assume "db_WriteBatch E ops d = (d', err)"
  then obtain t d1 d2 where d: "startOp E ''batch'' d = (t, d1)" "db_writeBatch E ops d1 = (d2, err)"
    "db_tick d' = db_tick (opTimer_finish E t err d2)"
    by (auto simp: db_WriteBatch_def Let_def split: prod.splits)
  have "db_tick d \<le> db_tick d1" using d(1) by (auto simp: startOp_def db_now_def split: option.splits)
  also have "\<dots> = db_tick d2" using mid [OF d(2)] by simp
  also have "\<dots> \<le> db_tick d'" by (auto simp: d(3) opTimer_finish_def db_now_def Let_def split: option.split)
  finally show ?thesis .
qed

section \<open>The state of a running session query\<close>

text \<open>
  While a query runs it removes expired rows (or fails to), nothing else; \<open>now\<close> stands for the clock
  readings of the query, which agree on what has expired.
\<close>

definition steady :: "('p, 'b, 'i) platform \<Rightarrow> nat \<Rightarrow> 64 word \<Rightarrow> (64 word \<rightharpoonup> Session \<times> 64 word) \<Rightarrow> bool" where
  "steady E tick now rows \<longleftrightarrow>
     (\<forall>n \<ge> tick. \<forall>i m t. rows i = Some (m, t) \<longrightarrow> expired_at t (time_Now E n) = expired_at t now)"

definition only_expired ::
  "64 word \<Rightarrow> (64 word \<rightharpoonup> Session \<times> 64 word) \<Rightarrow> (64 word \<rightharpoonup> Session \<times> 64 word) \<Rightarrow> bool" where
  "only_expired now rows rows' \<longleftrightarrow>
     (\<forall>i. rows' i = rows i \<or> rows' i = None \<and> (\<exists>m t. rows i = Some (m, t) \<and> expired_at t now))"

lemma only_expiredD:
  assumes "only_expired now rows rows'" and "rows i = Some (m, t)"
  shows "rows' i = Some (m, t) \<or> rows' i = None \<and> expired_at t now"
  using assms(1) [unfolded only_expired_def, rule_format, of i] assms(2) by auto

definition running ::
  "('p, 'b, 'i) platform \<Rightarrow> ('p \<Rightarrow> kv_map) \<Rightarrow> ('b \<Rightarrow> (bytes \<times> bytes option) list) \<Rightarrow> nat \<Rightarrow> 64 word
    \<Rightarrow> (64 word \<rightharpoonup> Session \<times> 64 word) \<Rightarrow> 'p DB \<Rightarrow> bool" where
  "running E view pend tick now rows d \<longleftrightarrow> handle_ok E view pend d \<and> sessions_ok (db_view view d)
     \<and> tick \<le> db_tick d \<and> only_expired now rows (session_rows (db_view view d))"

lemma check_expired_spec:
  assumes r: "running E view pend tick now rows d" and st: "steady E tick now rows" and row: "rows i = Some (m, t)"
  obtains d2 where "check_expired E t d = (d2, expired_at t now)" "running E view pend tick now rows d2"
    "db_view view d2 = db_view view d"
proof (cases "0 <s t")
  case True
  obtain d2 where d2: "db_now E d = (time_Now E (db_tick d), d2)" by (simp add: db_now_def)
  have "handle_ok E view pend d2" "db_view view d2 = db_view view d"
    using handle_ok_now [of E view pend d] db_pebble_now [of E d] r d2 by (auto simp: running_def)
  moreover have "db_tick d \<le> db_tick d2" using tick_now [OF d2] by simp
  moreover have "tick \<le> db_tick d" using r by (simp add: running_def)
  then have "expired_at t (time_Now E (db_tick d)) = expired_at t now"
    using st row unfolding steady_def by blast
  then have "check_expired E t d = (d2, expired_at t now)"
    using True d2 by (simp add: check_expired_def expired_at_def)
  ultimately show ?thesis using r by (intro that [of d2]) (simp_all add: running_def)
next
  case False
  with r show ?thesis by (intro that [of d]) (simp_all add: check_expired_def expired_at_def)
qed

text \<open>Deleting an expired row, here or again.\<close>

lemma drop_expired:
  assumes r: "running E view pend tick now rows d" and row: "rows i = Some (m, t)" and ex: "expired_at t now"
  obtains d' err where "deleteSessionWithIndexes E (EncodeKey session_tableID (encodeSessionPrimaryKey i)) m d = Some (d', err)"
    "running E view pend tick now rows d'"
proof -
  let ?k = "EncodeKey session_tableID (encodeSessionPrimaryKey i)" and ?m = "db_view view d"
  let ?ops = "[kv_del ?k, kv_del (EncodeIndexKey session_tableID 3 (encodeSessionIndexUserIdValue (s_UserId m))
      (encodeSessionPrimaryKey i))]"
  have ok: "handle_ok E view pend d" and s: "sessions_ok ?m" and sub: "only_expired now rows (session_rows ?m)"
    using r by (simp_all add: running_def)
  obtain d' err where d': "db_WriteBatch E ?ops d = (d', err)" "handle_ok E view pend d'"
    "err = None \<Longrightarrow> db_view view d' = apply_writes (map kv_write ?ops) ?m"
    "err \<noteq> None \<Longrightarrow> db_view view d' = ?m"
    using handle.writeE [OF ok, of ?ops] by metis
  have "sessions_ok (db_view view d') \<and> only_expired now rows (session_rows (db_view view d'))"
  proof (cases err)
    case Some
    with d'(4) s sub show ?thesis by simp
  next
    case None
    from d'(3) [OF this] session_delete_writes [of i m t]
    have m': "db_view view d'
        = apply_writes (delete_writes session_tableID encodeSessionPrimaryKey session_keys i (Some (m, t))) ?m"
      by metis
    show ?thesis
    proof (cases "session_rows ?m i")
      case gone: None
      have t: "table_ok session_tableID encodeSessionPrimaryKey session_keys session_dec session_rid ?m"
        using s by (simp only: sessions_ok_def)
      have k: "?m ?k = None"
        using gone sessions.ok_data [OF t, of "encodeSessionPrimaryKey i"]
        by (cases "?m ?k") (fastforce simp: session_rows_def table_rows_def)+
      have ik: "?m x = None" if "x \<in> set (session_keys i (m, t))" for x
      proof (cases "?m x")
        case (Some v)
        have "v = encodeSessionPrimaryKey i"
          using that user_id_entry [OF s] Some by (auto simp: session_keys_def)
        moreover have sp: "index_space session_tableID x" using that by (auto simp: session_keys_def)
        ultimately obtain j q where "session_rows ?m j = Some q" "encodeSessionPrimaryKey i = encodeSessionPrimaryKey j"
          using sessions.ok_index [OF t sp, of v] Some unfolding session_rows_def by blast
        then show ?thesis using gone sessions.pk_inj by force
      qed simp
      have "db_view view d' = ?m"
        unfolding m' by (rule ext) (auto simp: sessions.delete_at k ik)
      with s sub show ?thesis by simp
    next
      case (Some q)
      then have "session_rows ?m i = Some (m, t)" using only_expiredD [OF sub row] by simp
      from session_delete_ok [OF s this m'] sub row ex show ?thesis by (auto simp: only_expired_def)
    qed
  qed
  moreover have "tick \<le> db_tick d'" using tick_WriteBatch [OF d'(1)] r by (simp add: running_def)
  ultimately show ?thesis
    using d'(1,2) session_delete_eq [of E i m d] by (intro that [of d' err]) (simp_all add: running_def)
qed

lemma session_matches:
  assumes "query_of q (map session_qcond ws)" and "plain_conds (map session_qcond ws)"
  shows "session_matchWhere q u = Some (session_sat ws u)"
    and "session_matchWhereTail q u = Some (session_sat (drop 1 ws) u)"
proof -
  let ?cs = "map session_qcond ws"
  note E = eval_conds [OF assms(1) session_typed no_spaced_field(2), of u]
  have 1: "list_all (cond_effect (session_value u) ?cs) ?cs = session_sat ws u"
    using plain_effects [OF assms(2), of "session_value u"] by (simp add: session_sat_def list_all_iff)
  have "cond_effect (session_value u) ?cs c = cond_holds (session_value u) c" if "c \<in> set (drop 1 ?cs)" for c
    using plain_effect [OF assms(2)] that in_set_dropD by metis
  then have "list_all (cond_effect (session_value u) ?cs) (drop 1 ?cs) = list_all (cond_holds (session_value u)) (drop 1 ?cs)"
    by (rule list.pred_cong [OF refl])
  then have 2: "list_all (cond_effect (session_value u) ?cs) (drop 1 ?cs) = session_sat (drop 1 ws) u"
    by (simp add: drop_map session_sat_def list_all_iff)
  show "session_matchWhere q u = Some (session_sat ws u)"
    unfolding session_matchWhere_def session_cond_eval using E(1) 1 by simp
  show "session_matchWhereTail q u = Some (session_sat (drop 1 ws) u)"
    unfolding session_matchWhereTail_def session_cond_eval using E(2) 2 by simp
qed

text \<open>One round of the two loops.\<close>

lemma scan_round:
  assumes r: "running E view pend tick now rows d" and st: "steady E tick now rows"
    and row: "rows i = Some (m, t)" and v: "session_dec v = Some (m, t)"
    and q: "query_of q (map session_qcond ws)" "plain_conds (map session_qcond ws)"
  shows "\<exists>d'. running E view pend tick now rows d' \<and>
    session_scan_body E q (EncodeKey session_tableID (encodeSessionPrimaryKey i)) v (d, rs)
      = Some (if \<not> expired_at t now \<and> session_sat ws m then collect_row q m (d', rs) else ((d', rs), False))"
proof -
  have dec: "DeserializeSessionMeta v = Some (Inr (m, t))"
    using v by (auto simp: session_dec_def split: option.splits sum.splits)
  obtain d2 where d2: "check_expired E t d = (d2, expired_at t now)" "running E view pend tick now rows d2"
    by (rule check_expired_spec [OF r st row])
  show ?thesis
  proof (cases "expired_at t now")
    case True
    obtain d3 err where "deleteSessionWithIndexes E (EncodeKey session_tableID (encodeSessionPrimaryKey i)) m d2 = Some (d3, err)"
      "running E view pend tick now rows d3" by (rule drop_expired [OF d2(2) row True])
    with dec d2(1) True show ?thesis by (intro exI [of _ d3]) (simp add: session_scan_body_def)
  next
    case False
    with dec d2 session_matches(1) [OF q, of m] show ?thesis
      by (intro exI [of _ d2]) (simp add: session_scan_body_def)
  qed
qed

lemma index_round:
  assumes r: "running E view pend tick now rows d" and st: "steady E tick now rows"
    and row: "rows i = Some (m, t)"
    and q: "query_of q (map session_qcond (w # ws))" "plain_conds (map session_qcond (w # ws))"
  shows "\<exists>d'. running E view pend tick now rows d' \<and>
    session_indexed_body E q key (encodeSessionPrimaryKey i) (d, rs)
      = Some (if \<not> expired_at t now \<and> session_sat ws m then collect_row q m (d', rs) else ((d', rs), False))"
proof -
  let ?k = "EncodeKey session_tableID (encodeSessionPrimaryKey i)" and ?m = "db_view view d"
  have ok: "handle_ok E view pend d" and s: "sessions_ok ?m" and sub: "only_expired now rows (session_rows ?m)"
    using r by (simp_all add: running_def)
  obtain d1 where d1: "db_Get E ?k d = (d1, Inr (?m ?k))" "handle_ok E view pend d1" "db_view view d1 = ?m"
    using handle.getE [OF ok, of ?k] by auto
  have r1: "running E view pend tick now rows d1"
    using r d1 tick_Get [OF d1(1)] by (simp add: running_def)
  show ?thesis
  proof (cases "?m ?k")
    case None
    then have "session_rows ?m i = None" by (simp add: session_rows_def table_rows_def)
    then have "expired_at t now" using only_expiredD [OF sub row] by simp
    with None d1(1) r1 show ?thesis by (intro exI [of _ d1]) (simp add: session_indexed_body_def)
  next
    case (Some v)
    then obtain p where p: "session_dec v = Some p"
      using sessions.ok_data [OF s [unfolded sessions_ok_def] Some] by blast
    then have "session_rows ?m i = Some p" using Some by (simp add: session_rows_def table_rows_def)
    then have "p = (m, t)" using only_expiredD [OF sub row] by simp
    then have dec: "DeserializeSessionMeta v = Some (Inr (m, t))"
      using p by (auto simp: session_dec_def split: option.splits sum.splits)
    obtain d2 where d2: "check_expired E t d1 = (d2, expired_at t now)" "running E view pend tick now rows d2"
      by (rule check_expired_spec [OF r1 st row])
    show ?thesis
    proof (cases "expired_at t now")
      case True
      obtain d3 err where "deleteSessionWithIndexes E ?k m d2 = Some (d3, err)" "running E view pend tick now rows d3"
        by (rule drop_expired [OF d2(2) row True])
      with Some d1(1) dec d2(1) True show ?thesis by (intro exI [of _ d3]) (simp add: session_indexed_body_def)
    next
      case False
      have len: "length (q_where q) = Suc (length ws)" using q(1) by (simp add: query_of_def)
      have "(if 1 < length (q_where q) then session_matchWhereTail q m else Some True) = Some (session_sat ws m)"
        using session_matches(2) [OF q, of m] len by (cases ws) (simp_all add: session_sat_def)
      with Some d1(1) dec d2 False show ?thesis by (intro exI [of _ d2]) (simp add: session_indexed_body_def)
    qed
  qed
qed


section \<open>Session queries\<close>

type_synonym session_row = "Session \<times> 64 word"

definition session_listing :: "(64 word \<rightharpoonup> session_row) \<Rightarrow> (64 word \<Rightarrow> bool) \<Rightarrow> session_row list \<Rightarrow> bool" where
  "session_listing t Q ss \<longleftrightarrow> sorted_wrt (\<lambda>u v. s_Id (fst u) <s s_Id (fst v)) ss
     \<and> set ss = {u. t (s_Id (fst u)) = Some u \<and> Q (s_Id (fst u))}"

lemma session_listing_unique:
  assumes "session_listing t Q us" and "session_listing t Q vs"
  shows "us = vs"
proof -
  let ?f = "\<lambda>u. sint (s_Id (fst u))"
  have ids: "sorted_wrt (<) (map ?f ws)" if "session_listing t Q ws" for ws
    using that by (simp add: session_listing_def sorted_wrt_map word_sless_alt)
  have "set us = set vs" using assms by (simp add: session_listing_def)
  then have eq: "map ?f us = map ?f vs"
    using ids [OF assms(1)] ids [OF assms(2)] by (intro strict_sorted_equal) auto
  have row: "t (s_Id (fst u)) = Some u" if "u \<in> set us \<union> set vs" for u
    using that assms by (auto simp: session_listing_def)
  have "inj_on ?f (set us \<union> set vs)"
  proof (rule inj_onI)
    fix u v assume uv: "u \<in> set us \<union> set vs" "v \<in> set us \<union> set vs" and "?f u = ?f v"
    then have "s_Id (fst u) = s_Id (fst v)" by (simp add: signed_word_eqI)
    then have "Some u = Some v" using row [OF uv(1)] row [OF uv(2)] by metis
    then show "u = v" by (rule option.inject [THEN iffD1])
  qed
  from map_inj_on [OF eq this] show ?thesis .
qed

lemma session_listing_filter:
  "session_listing t Q us \<Longrightarrow> session_listing t (\<lambda>i. Q i \<and> R i) (filter (\<lambda>u. R (s_Id (fst u))) us)"
  by (auto simp: session_listing_def sorted_wrt_filter)

lemma list_for_map: "list_for body (map h xs) s = list_for (\<lambda>x. body (h x)) xs s"
  by (induction xs arbitrary: s) (auto split: option.splits prod.splits)

definition live :: "64 word \<Rightarrow> session_row \<Rightarrow> bool" where
  "live now r \<longleftrightarrow> \<not> expired_at (snd r) now"

text \<open>The entries of the table, as a list of rows.\<close>

lemma session_scan_entries:
  assumes s: "sessions_ok m" and fin: "finite (dom m)"
    and ss: "session_listing (session_rows m) (cursor c) ss"
    and Q: "Q = (\<lambda>k. case c of None \<Rightarrow> True | Some j \<Rightarrow> EncodeKey session_tableID (encodeSessionPrimaryKey j) < k)"
  obtains vs where
    "filter (\<lambda>e. prefix (EncodeKey session_tableID []) (fst e) \<and> Q (fst e)) (sorted_entries m)
      = map (\<lambda>(r, v). (EncodeKey session_tableID (encodeSessionPrimaryKey (s_Id (fst r))), v)) (zip ss vs)"
    "map session_dec vs = map Some ss"
proof -
  let ?es = "filter (\<lambda>e. prefix (EncodeKey session_tableID []) (fst e) \<and> Q (fst e)) (sorted_entries m)"
  obtain rs where rs: "map fst ?es = map (\<lambda>r. EncodeKey session_tableID (encodeSessionPrimaryKey (session_rid r))) rs"
    "map (session_dec \<circ> snd) ?es = map Some rs"
    "sorted_wrt (\<lambda>a b. encodeSessionPrimaryKey (session_rid a) < encodeSessionPrimaryKey (session_rid b)) rs"
    "set rs = {r. table_rows session_tableID encodeSessionPrimaryKey session_dec m (session_rid r) = Some r
        \<and> Q (EncodeKey session_tableID (encodeSessionPrimaryKey (session_rid r)))}"
    by (rule sessions.scan_rows [OF fin s [unfolded sessions_ok_def], of Q])
  have "session_listing (session_rows m) (cursor c) rs"
    using rs(3,4) by (simp add: session_listing_def session_rows_def session_rid_def cursor_def Q pk_less key_simps
        split: option.splits)
  then have "rs = ss" using ss by (rule session_listing_unique)
  let ?vs = "map snd ?es"
  have "?es = zip (map fst ?es) (map snd ?es)" by (simp only: zip_map_fst_snd)
  also have "\<dots> = map (\<lambda>(r, v). (EncodeKey session_tableID (encodeSessionPrimaryKey (s_Id (fst r))), v)) (zip ss ?vs)"
    unfolding rs(1) \<open>rs = ss\<close> session_rid_def by (simp only: zip_map1)
  finally have es: "?es = map (\<lambda>(r, v). (EncodeKey session_tableID (encodeSessionPrimaryKey (s_Id (fst r))), v)) (zip ss ?vs)" .
  have "map session_dec ?vs = map Some ss" using rs(2) \<open>rs = ss\<close> by (simp only: map_map)
  from that [OF es this] show thesis .
qed

lemma zip_Some: "map f vs = map Some ss \<Longrightarrow> (r, v) \<in> set (zip ss vs) \<Longrightarrow> f v = Some r"
proof (induction ss arbitrary: vs)
  case (Cons s ss)
  then show ?case by (cases vs) auto
qed simp

lemma session_scan_spec:
  assumes r: "running E view pend (db_tick d) now rows d" and st: "steady E (db_tick d) now rows"
    and rows: "rows = session_rows (db_view view d)"
    and it: "iter_laws E view snap pos"
    and q: "query_of q (map session_qcond ws)" "plain_conds (map session_qcond ws)"
    and c: "q_afterSet q = (c \<noteq> None)" "\<And>j. c = Some j \<Longrightarrow> q_lastPK q = encodeSessionPrimaryKey j"
    and ss: "session_listing rows (cursor c) ss"
  shows "\<exists>d'. running E view pend (db_tick d) now rows d' \<and> session_execFullScan E q d
    = Some (d', take_limit (q_limit q) (filter (session_sat ws) (map fst (filter (live now) ss))))"
proof -
  let ?m = "db_view view d" and ?p = "EncodeKey session_tableID []"
  define Q where "Q = (\<lambda>k. case c of None \<Rightarrow> True | Some j \<Rightarrow> EncodeKey session_tableID (encodeSessionPrimaryKey j) < k)"
  let ?es = "filter (\<lambda>e. prefix ?p (fst e) \<and> Q (fst e)) (sorted_entries ?m)"
  have ok: "handle_ok E view pend d" and s: "sessions_ok ?m" using r by (simp_all add: running_def)
  have fin: "finite (dom ?m)" using iter_finite [OF it] .
  obtain x where x: "db_Iterate E ?p d = Some x"
    using iter_laws_new [OF it, of "db_pebble d" ?p] ok by (auto simp: db_Iterate_def handle_ok_def)
  obtain vs where vs: "?es = map (\<lambda>(r, v). (EncodeKey session_tableID (encodeSessionPrimaryKey (s_Id (fst r))), v)) (zip ss vs)"
    "map session_dec vs = map Some ss"
    using session_scan_entries [OF s fin ss [unfolded rows] Q_def] .
  let ?body = "\<lambda>z. session_scan_body E q (EncodeKey session_tableID (encodeSessionPrimaryKey (s_Id (fst (fst z))))) (snd z)"
  have "\<exists>d'. running E view pend (db_tick d) now rows d' \<and> list_for ?body (zip ss vs) (d, [])
      = Some (d', take_limit (q_limit q) (map (\<lambda>z. fst (fst z))
          (filter (\<lambda>z. \<not> expired_at (snd (fst z)) now \<and> session_sat ws (fst (fst z))) (zip ss vs))))"
  proof (rule list_for_collect_new)
    fix z d1 and rs :: "Session list" assume z: "z \<in> set (zip ss vs)" and "running E view pend (db_tick d) now rows d1"
    obtain m t v where zz: "z = ((m, t), v)" by (metis prod.collapse)
    have "(m, t) \<in> set ss" using z zz by (auto dest: set_zip_leftD)
    then have "rows (s_Id m) = Some (m, t)" using ss by (auto simp: session_listing_def)
    moreover have "session_dec v = Some (m, t)" using zip_Some [OF vs(2), of "(m, t)" v] z zz by simp
    ultimately show "\<exists>d'. running E view pend (db_tick d) now rows d' \<and> ?body z (d1, rs)
        = Some (if \<not> expired_at (snd (fst z)) now \<and> session_sat ws (fst (fst z))
                then collect_row q (fst (fst z)) (d', rs) else ((d', rs), False))"
      unfolding zz fst_conv snd_conv
      by (rule scan_round [OF \<open>running E view pend (db_tick d) now rows d1\<close> st _ _ q])
  qed (rule r)
  moreover have "map (\<lambda>z. fst (fst z)) (filter (\<lambda>z. \<not> expired_at (snd (fst z)) now \<and> session_sat ws (fst (fst z))) (zip ss vs))
      = filter (session_sat ws) (map fst (filter (live now) ss))"
  proof -
    have "filter (session_sat ws) (map fst (filter (live now) (map fst (zip ss vs))))
        = map (\<lambda>z. fst (fst z)) (filter (\<lambda>z. \<not> expired_at (snd (fst z)) now \<and> session_sat ws (fst (fst z))) (zip ss vs))"
      by (simp only: filter_map filter_filter comp_def live_def map_map)
    then show ?thesis using map_eq_imp_length_eq [OF vs(2)] by (simp only: map_fst_zip)
  qed
  moreover have "session_execFullScan E q d = list_for ?body (zip ss vs) (d, [])"
  proof -
    have "session_execFullScan E q d = list_for (\<lambda>e. session_scan_body E q (fst e) (snd e)) ?es (d, [])"
      using c by (cases c) (simp_all add: session_execFullScan_def x Q_def it_for_iterate [OF it x] it_for_seek_after [OF it x])
    then show ?thesis by (simp only: vs(1) list_for_map case_prod_unfold fst_conv snd_conv)
  qed
  ultimately show ?thesis by simp
qed

lemma entries_inj: "finite (dom m) \<Longrightarrow> inj_on fst (set (filter P (sorted_entries m)))"
proof (intro inj_onI)
  assume fin: "finite (dom m)"
  have at: "m (fst e) = Some (snd e)" if "e \<in> set (filter P (sorted_entries m))" for e
    using that sorted_entries_set [OF fin, of "fst e" "snd e"] by simp
  fix x y assume "x \<in> set (filter P (sorted_entries m))" "y \<in> set (filter P (sorted_entries m))" "fst x = fst y"
  with at [of x] at [of y] show "x = y" by (simp add: prod_eq_iff)
qed

text \<open>The entries of the index for one user id, as a list of rows.\<close>

lemma session_index_entries:
  assumes s: "sessions_ok m" and fin: "finite (dom m)"
    and ss: "session_listing (session_rows m) (cursor c) ss"
    and Q: "Q = (\<lambda>k. case c of None \<Rightarrow> True
      | Some j \<Rightarrow> EncodeIndexKey session_tableID 3 u (encodeSessionPrimaryKey j) < k)"
  shows "filter (\<lambda>e. prefix (EncodeIndexPrefix session_tableID 3 u) (fst e) \<and> Q (fst e)) (sorted_entries m)
    = map (\<lambda>r. (EncodeIndexKey session_tableID 3 u (encodeSessionPrimaryKey (s_Id (fst r))), encodeSessionPrimaryKey (s_Id (fst r))))
        (filter (\<lambda>r. s_UserId (fst r) = u) ss)"
    (is "?es = map ?h ?ss")
proof -
  have t: "table_ok session_tableID encodeSessionPrimaryKey session_keys session_dec session_rid m"
    using s by (simp only: sessions_ok_def)
  have sess: "(k, v) \<in> set ?es \<longleftrightarrow> (\<exists>r \<in> set ?ss. (k, v) = ?h r)" for k v
  proof
    assume "(k, v) \<in> set ?es"
    then have k: "prefix (EncodeIndexPrefix session_tableID 3 u) k" "Q k" "m k = Some v"
      using sorted_entries_set [OF fin, of k v] by auto
    then obtain b where b: "k = EncodeIndexPrefix session_tableID 3 u @ b" by (auto simp: prefix_def)
    then have sp: "index_space session_tableID k" by (auto simp: index_space_def)
    obtain j p where p: "session_rows m j = Some p" "k \<in> set (session_keys j p)" "v = encodeSessionPrimaryKey j"
      using sessions.ok_index [OF t sp, THEN iffD1, OF k(3)] unfolding session_rows_def by blast
    have id: "s_Id (fst p) = j"
      using sessions.rows_rid [OF t p(1) [unfolded session_rows_def]] by (simp add: session_rid_def)
    have u: "s_UserId (fst p) = u" "k = EncodeIndexKey session_tableID 3 u (encodeSessionPrimaryKey j)"
      using p(2) b by (auto simp: session_keys_def encodeSessionIndexUserIdValue_def index_key_prefix index_prefix_append_eq)
    have "cursor c j" using k(2) u(2)
      by (auto simp: Q cursor_def index_key_prefix pk_less split: option.splits)
    then have "p \<in> set ?ss" using ss p(1) id u(1) by (simp add: session_listing_def)
    then show "\<exists>r \<in> set ?ss. (k, v) = ?h r" using u(2) p(3) id by blast
  next
    assume "\<exists>r \<in> set ?ss. (k, v) = ?h r"
    then obtain r where r: "r \<in> set ss" "s_UserId (fst r) = u" "(k, v) = ?h r" by auto
    then have row: "session_rows m (s_Id (fst r)) = Some r" "cursor c (s_Id (fst r))"
      using ss by (auto simp: session_listing_def)
    have "k \<in> set (session_keys (s_Id (fst r)) r)"
      using r by (simp add: session_keys_def encodeSessionIndexUserIdValue_def)
    then have "m k = Some v"
      using sessions.ok_index [OF t index_space_key] row(1) r(3) unfolding session_rows_def by blast
    moreover have "Q k" using row(2) r(3) by (auto simp: Q cursor_def index_key_prefix pk_less split: option.splits)
    moreover have "prefix (EncodeIndexPrefix session_tableID 3 u) k" using r(3) by (simp add: index_key_prefix)
    ultimately show "(k, v) \<in> set ?es" using sorted_entries_set [OF fin, of k v] by simp
  qed
  have es: "set ?es = set (map ?h ?ss)"
  proof (rule set_eqI)
    fix e :: "bytes \<times> bytes"
    have "e \<in> set ?es \<longleftrightarrow> (\<exists>r \<in> set ?ss. e = ?h r)" using sess [of "fst e" "snd e"] by (simp only: prod.collapse)
    also have "\<dots> \<longleftrightarrow> e \<in> set (map ?h ?ss)" unfolding set_map by blast
    finally show "e \<in> set ?es \<longleftrightarrow> e \<in> set (map ?h ?ss)" .
  qed
  have "sorted_wrt (<) (map fst (sorted_entries m))" using sorted_entries_keys [OF fin] by simp
  then have s1: "sorted_wrt (<) (map fst ?es)" by (simp add: sorted_wrt_map sorted_wrt_filter)
  have "sorted_wrt (\<lambda>a b. s_Id (fst a) <s s_Id (fst b)) ?ss"
    using ss by (simp add: session_listing_def sorted_wrt_filter)
  then have s2: "sorted_wrt (<) (map fst (map ?h ?ss))"
    by (simp add: sorted_wrt_map index_key_prefix pk_less)
  have keys: "map fst ?es = map fst (map ?h ?ss)"
    by (rule strict_sorted_equal [OF s2 s1]) (simp only: list.set_map es)
  have inj: "inj_on fst (set ?es \<union> set (map ?h ?ss))"
    unfolding es [symmetric] Un_absorb by (rule entries_inj [OF fin])
  show ?thesis using map_inj_on [OF keys inj] .
qed


lemma session_index_spec:
  assumes r: "running E view pend (db_tick d) now rows d" and st: "steady E (db_tick d) now rows"
    and rows: "rows = session_rows (db_view view d)"
    and it: "iter_laws E view snap pos"
    and q: "query_of q (map session_qcond (SUserId ''='' u # ws))" "plain_conds (map session_qcond (SUserId ''='' u # ws))"
    and c: "q_afterSet q = (c \<noteq> None)" "\<And>j. c = Some j \<Longrightarrow> q_lastPK q = encodeSessionPrimaryKey j"
    and ss: "session_listing rows (cursor c) ss"
  shows "\<exists>d'. running E view pend (db_tick d) now rows d' \<and> session_execIndexed E q d
    = Some (d', take_limit (q_limit q) (filter (session_sat (SUserId ''='' u # ws)) (map fst (filter (live now) ss))))"
proof -
  let ?m = "db_view view d" and ?p = "EncodeIndexPrefix session_tableID 3 u"
  define Q where "Q = (\<lambda>k. case c of None \<Rightarrow> True
      | Some j \<Rightarrow> EncodeIndexKey session_tableID 3 u (encodeSessionPrimaryKey j) < k)"
  let ?es = "filter (\<lambda>e. prefix ?p (fst e) \<and> Q (fst e)) (sorted_entries ?m)"
  let ?ss = "filter (\<lambda>r. s_UserId (fst r) = u) ss"
  have ok: "handle_ok E view pend d" and s: "sessions_ok ?m" using r by (simp_all add: running_def)
  have fin: "finite (dom ?m)" using iter_finite [OF it] .
  obtain x where x: "db_Iterate E ?p d = Some x"
    using iter_laws_new [OF it, of "db_pebble d" ?p] ok by (auto simp: db_Iterate_def handle_ok_def)
  obtain rest where args: "q_args q = QString u # rest" using q(1) by (auto simp: query_of_def)
  let ?body = "\<lambda>r. session_indexed_body E q
      (EncodeIndexKey session_tableID 3 u (encodeSessionPrimaryKey (s_Id (fst r)))) (encodeSessionPrimaryKey (s_Id (fst r)))"
  have "\<exists>d'. running E view pend (db_tick d) now rows d' \<and> list_for ?body ?ss (d, [])
      = Some (d', take_limit (q_limit q) (map fst
          (filter (\<lambda>r. \<not> expired_at (snd r) now \<and> session_sat ws (fst r)) ?ss)))"
  proof (rule list_for_collect_new)
    fix p d1 and rs :: "Session list" assume p: "p \<in> set ?ss" and r1: "running E view pend (db_tick d) now rows d1"
    obtain m t where mt: "p = (m, t)" by (cases p)
    have "rows (s_Id m) = Some (m, t)" using p mt ss by (auto simp: session_listing_def)
    from index_round [OF r1 st this q]
    show "\<exists>d'. running E view pend (db_tick d) now rows d' \<and> ?body p (d1, rs)
        = Some (if \<not> expired_at (snd p) now \<and> session_sat ws (fst p)
                then collect_row q (fst p) (d', rs) else ((d', rs), False))"
      unfolding mt fst_conv snd_conv .
  qed (rule r)
  moreover have "map fst (filter (\<lambda>r. \<not> expired_at (snd r) now \<and> session_sat ws (fst r)) ?ss)
      = filter (session_sat (SUserId ''='' u # ws)) (map fst (filter (live now) ss))"
  proof -
    have sat: "session_sat (SUserId ''='' u # ws) m \<longleftrightarrow> s_UserId m = u \<and> session_sat ws m" for m
      by (auto simp: session_sat_def cond_holds_def arg_holds_def session_value_def string_op_def)
    show ?thesis
      by (simp add: filter_map comp_def live_def sat conj_commute conj_left_commute)
  qed
  moreover have "session_execIndexed E q d = list_for ?body ?ss (d, [])"
  proof -
    have "session_execIndexed E q d = list_for (\<lambda>e. session_indexed_body E q (fst e) (snd e)) ?es (d, [])"
      using c by (cases c)
        (simp_all add: session_execIndexed_def args x Q_def it_for_iterate [OF it x] it_for_seek_after [OF it x])
    then show ?thesis
      by (simp only: session_index_entries [OF s fin ss [unfolded rows] Q_def] list_for_map fst_conv snd_conv)
  qed
  ultimately show ?thesis by simp
qed

fun by_user_id :: "session_filter list \<Rightarrow> bool" where
  "by_user_id (SUserId op v # ws) = (op = ''='')"
| "by_user_id ws = False"

lemma session_Exec_dispatch:
  assumes q: "query_of q (map session_qcond ws)" and p: "plain_conds (map session_qcond ws)"
  shows "session_Exec E q d = (if by_user_id ws then session_execIndexed E q d else session_execFullScan E q d)"
proof (cases ws)
  case Nil
  with q show ?thesis by (simp add: session_Exec_def query_of_def)
next
  case (Cons w ws')
  have "CHR '' '' \<notin> set (fst (snd (session_qcond w)))" using p Cons by (simp add: plain_conds_def)
  then have "splitWhere (cond_text (session_qcond w)) = [fst (session_qcond w), fst (snd (session_qcond w))]"
    by (simp add: cond_text_def splitWhere_cond)
  with q Cons show ?thesis by (cases w) (simp_all add: session_Exec_def query_of_def)
qed

definition session_cursor :: "64 word option \<Rightarrow> SessionQuery \<Rightarrow> SessionQuery" where
  "session_cursor c q = (case c of None \<Rightarrow> q | Some j \<Rightarrow> session_After j q)"

lemma session_after_init: "\<not> q_afterSet (session_query ws)"
proof -
  have "q_afterSet (fold session_where ws q') = q_afterSet q'" for q'
  proof (induction ws arbitrary: q')
    case (Cons w ws)
    then show ?case by (cases w) (simp_all add: WhereToken_def WhereUserId_def session_WhereActive_def add_cond_def)
  qed simp
  then show ?thesis by (simp add: session_query_def NewSessionQuery_def NewUserQuery_def)
qed

text \<open>
  C14. A session query returns exactly the stored sessions behind the cursor that have not expired
  and satisfy all its conditions by the documented meaning of their operators, in the numeric order of their
  ids and cut off at the limit, whether it runs over the index on \<open>user_id\<close> or over the table; cursors work on
  both.  Expired rows it meets are removed with their index entries (or stay, if the engine fails); no other row
  changes, and the index stays exact.  \<open>now\<close> stands for the clock readings of the query: they
  agree on what has expired.  The operators are those implemented for the type of the field (\<open>=\<close>, \<open>!=\<close> and \<open>LIKE\<close>
  for texts, whose order the generated code does not know, \<open>=\<close> and \<open>!=\<close> for the flag), and no two conditions have
  the same field and operator and different arguments.
\<close>

theorem session_query_exact:
  assumes "handle_ok E view pend d" and "sessions_ok (db_view view d)" and "iter_laws E view snap pos"
    and "plain_conds (map session_qcond ws)"
    and "session_listing (session_rows (db_view view d)) (cursor c) ss"
    and "steady E (db_tick d) now (session_rows (db_view view d))"
    and "list_all session_supported ws"
  shows "\<exists>d'. session_Exec E (session_cursor c (session_Limit n (session_query ws))) d
      = Some (d', take_limit n (filter (session_means ws) (map fst (filter (live now) ss))))
    \<and> sessions_ok (db_view view d')
    \<and> only_expired now (session_rows (db_view view d)) (session_rows (db_view view d'))"
proof -
  let ?q = "session_cursor c (session_Limit n (session_query ws))"
  have q: "query_of ?q (map session_qcond ws)"
    using session_query_of [of ws]
    by (simp add: query_of_def session_cursor_def session_Limit_def session_After_def split: option.split)
  have after: "q_afterSet ?q = (c \<noteq> None)" "\<And>j. c = Some j \<Longrightarrow> q_lastPK ?q = encodeSessionPrimaryKey j"
    "q_limit ?q = n"
    using session_after_init [of ws]
    by (auto simp: session_cursor_def session_After_def session_Limit_def split: option.splits)
  have r: "running E view pend (db_tick d) now (session_rows (db_view view d)) d"
    using assms(1,2) by (simp add: running_def only_expired_def)
  have "\<exists>d'. running E view pend (db_tick d) now (session_rows (db_view view d)) d' \<and> session_Exec E ?q d
      = Some (d', take_limit n (filter (session_sat ws) (map fst (filter (live now) ss))))"
  proof (cases "by_user_id ws")
    case False
    then show ?thesis
      using session_scan_spec [OF r assms(6) refl assms(3) q assms(4) after(1,2) assms(5)] after(3)
        session_Exec_dispatch [OF q assms(4), of E d] by simp
  next
    case True
    then obtain u ws' where ws: "ws = SUserId ''='' u # ws'" by (cases ws rule: by_user_id.cases) auto
    then have wm: "map session_qcond ws = map session_qcond (SUserId ''='' u # ws')" by simp
    from session_index_spec [OF r assms(6) refl assms(3) q [unfolded wm] assms(4) [unfolded wm] after(1,2) assms(5)]
    show ?thesis
      using True session_Exec_dispatch [OF q assms(4), of E d] unfolding after(3) ws [symmetric] by simp
  qed
  then show ?thesis by (auto simp: running_def session_sat_means [OF assms(7)])
qed

text \<open>Witness: at time 3 the session that expires at 5 is found by its user id; nothing is removed.\<close>

theorem session_query_exact_witness:
  "\<exists>d'. session_Exec (calm_platform 3) (session_Limit 2 (session_query [SUserId ''='' [8]]))
      (with_pebble (one_session 5) example_db) = Some (d', [example_session])"
proof -
  let ?E = "calm_platform 3" and ?ws = "[SUserId ''='' [8]]"
  have "plain_conds (map session_qcond ?ws)" by (simp add: plain_conds_def)
  moreover have "session_means ?ws example_session"
    by (simp add: session_means_def text_means_def op_means_def example_session_def)
  moreover have "list_all session_supported ?ws" by (simp add: text_ops_def)
  moreover have "session_listing [1 \<mapsto> (example_session, 5)] (cursor None) [(example_session, 5)]"
    by (auto simp: session_listing_def cursor_def example_session_def split: if_splits)
  moreover have "live 3 (example_session, 5)" by (simp add: live_def expired_at_def word_sless_alt)
  moreover have "steady ?E n 3 rows" for n rows by (simp add: steady_def)
  ultimately show ?thesis
    using session_query_exact [OF example_handle [of 3 "one_session 5"] _ calm_laws(3), of ?ws None "[(example_session, 5)]" 3 2]
    by (auto simp: one_session_ok session_cursor_def take_limit_def)
qed

end
