(* ===== verification/Mock.thy ===== *)
theory Mock
  imports Store
begin

text \<open>
  The generated mocks of \<open>internal/testmodels/User_sqlitex.go\<close>: \<open>mockUserStore\<close> and
  \<open>mockSessionStore\<close>, maps that hold copies of the records.  The numbers in their error texts are
  left out.
\<close>


section \<open>The mock user store\<close>

type_synonym mock_users = "64 word \<rightharpoonup> User"

definition NewMockUserStore :: mock_users where "NewMockUserStore = Map.empty"

definition cloneUser :: "User option \<Rightarrow> User option" where
  "cloneUser src =
     (case src of
        None \<Rightarrow> None
      | Some s \<Rightarrow> Some \<lparr>u_Id = u_Id s, u_Name = u_Name s, u_Email = u_Email s, u_CreatedAt = u_CreatedAt s,
                       u_Active = u_Active s, u_Bio = u_Bio s\<rparr>)"

definition mock_user_Create :: "User option \<Rightarrow> mock_users \<Rightarrow> mock_users \<times> go_error option" where
  "mock_user_Create r data =
     (case r of
        None \<Rightarrow> (data, Some (ErrorMsg ''sqlitex: cannot create nil User''))
      | Some m \<Rightarrow>
          if data (u_Id m) \<noteq> None then (data, Some (ErrorMsg ''sqlitex: User already exists''))
          else (data(u_Id m := cloneUser (Some m)), None))"

definition mock_user_Update :: "User option \<Rightarrow> mock_users \<Rightarrow> mock_users \<times> go_error option" where
  "mock_user_Update r data =
     (case r of
        None \<Rightarrow> (data, Some (ErrorMsg ''sqlitex: cannot update nil User''))
      | Some m \<Rightarrow>
          if data (u_Id m) = None then (data, Some (ErrorMsg ''sqlitex: User not found''))
          else (data(u_Id m := cloneUser (Some m)), None))"

definition mock_user_Delete :: "64 word \<Rightarrow> mock_users \<Rightarrow> mock_users \<times> go_error option" where
  "mock_user_Delete i data = (data(i := None), None)"

definition mock_user_Get :: "64 word \<Rightarrow> mock_users \<Rightarrow> mock_users \<times> (go_error + User option)" where
  "mock_user_Get i data = (data, Inr (case data i of None \<Rightarrow> None | Some m \<Rightarrow> cloneUser (Some m)))"

section \<open>The mock session store\<close>

type_synonym mock_sessions = "64 word \<rightharpoonup> Session"

definition NewMockSessionStore :: mock_sessions where "NewMockSessionStore = Map.empty"

definition cloneSession :: "Session option \<Rightarrow> Session option" where
  "cloneSession src =
     (case src of
        None \<Rightarrow> None
      | Some s \<Rightarrow> Some \<lparr>s_Id = s_Id s, s_Token = s_Token s, s_UserId = s_UserId s, s_Active = s_Active s\<rparr>)"

definition mock_session_Create :: "Session option \<Rightarrow> mock_sessions \<Rightarrow> mock_sessions \<times> go_error option" where
  "mock_session_Create r data =
     (case r of
        None \<Rightarrow> (data, Some (ErrorMsg ''sqlitex: cannot create nil Session''))
      | Some m \<Rightarrow>
          if data (s_Id m) \<noteq> None then (data, Some (ErrorMsg ''sqlitex: Session already exists''))
          else (data(s_Id m := cloneSession (Some m)), None))"

definition mock_session_Update :: "Session option \<Rightarrow> mock_sessions \<Rightarrow> mock_sessions \<times> go_error option" where
  "mock_session_Update r data =
     (case r of
        None \<Rightarrow> (data, Some (ErrorMsg ''sqlitex: cannot update nil Session''))
      | Some m \<Rightarrow>
          if data (s_Id m) = None then (data, Some (ErrorMsg ''sqlitex: Session not found''))
          else (data(s_Id m := cloneSession (Some m)), None))"

definition mock_session_Delete :: "64 word \<Rightarrow> mock_sessions \<Rightarrow> mock_sessions \<times> go_error option" where
  "mock_session_Delete i data = (data(i := None), None)"

definition mock_session_Get :: "64 word \<Rightarrow> mock_sessions \<Rightarrow> mock_sessions \<times> (go_error + Session option)" where
  "mock_session_Get i data = (data, Inr (case data i of None \<Rightarrow> None | Some m \<Rightarrow> cloneSession (Some m)))"

definition mock_session_PurgeExpired :: "mock_sessions \<Rightarrow> mock_sessions \<times> nat" where
  "mock_session_PurgeExpired data = (data, 0)"

lemma clone [simp]: "cloneUser r = r" "cloneSession s = s"
  by (simp_all add: cloneUser_def cloneSession_def split: option.split)

section \<open>The mock against the store\<close>

fun mock_step :: "user_op \<Rightarrow> mock_users \<Rightarrow> mock_users \<times> user_res" where
  "mock_step (UCreate m) t = map_prod id UErr (mock_user_Create (Some m) t)"
| "mock_step (UUpdate m) t = map_prod id UErr (mock_user_Update (Some m) t)"
| "mock_step (UDelete i) t = map_prod id UErr (mock_user_Delete i t)"
| "mock_step (UGet i) t = map_prod id UGot (mock_user_Get i t)"

fun mock_run :: "user_op list \<Rightarrow> mock_users \<Rightarrow> mock_users \<times> (user_op \<times> user_res) list" where
  "mock_run [] t = (t, [])"
| "mock_run (op # ops) t =
     (let (t1, r) = mock_step op t; (t2, rs) = mock_run ops t1 in (t2, (op, r) # rs))"

text \<open>
  Histories that create only new users, update only stored ones and never reuse an email of another user.
\<close>

fun usual_op :: "user_op \<Rightarrow> mock_users \<Rightarrow> bool" where
  "usual_op (UCreate m) t = (t (u_Id m) = None \<and> \<not> email_taken t m)"
| "usual_op (UUpdate m) t = (t (u_Id m) \<noteq> None \<and> \<not> email_taken t m)"
| "usual_op _ t = True"

fun usual :: "user_op list \<Rightarrow> mock_users \<Rightarrow> bool" where
  "usual [] t = True"
| "usual (op # ops) t = (usual_op op t \<and> usual ops (fst (mock_step op t)))"

lemma usual_step:
  assumes "user_allows True op r t" and "usual_op op t"
  shows "mock_step op t = (user_next op r t, r)"
proof -
  have "mock_step op t = (user_next op r t, r)" if "op = UCreate m" for m
    using assms that by (cases r) (auto simp: mock_user_Create_def save_allowed_def)
  moreover have "mock_step op t = (user_next op r t, r)" if "op = UUpdate m" for m
    using assms that by (cases r) (auto simp: mock_user_Update_def save_allowed_def)
  moreover have "mock_step op t = (user_next op r t, r)" if "op = UDelete i" for i
    using assms that by (cases r) (auto simp: mock_user_Delete_def)
  moreover have "mock_step op t = (user_next op r t, r)" if "op = UGet i" for i
    using assms that by (cases r) (auto simp: mock_user_Get_def split: option.splits)
  ultimately show ?thesis by (cases op) blast+
qed

lemma usual_run:
  "user_spec_run True tr t = Some t' \<Longrightarrow> usual (map fst tr) t \<Longrightarrow> mock_run (map fst tr) t = (t', tr)"
proof (induction tr arbitrary: t)
  case (Cons p tr)
  obtain op r where p: "p = (op, r)" by (cases p)
  then have a: "user_allows True op r t" and rest: "user_spec_run True tr (user_next op r t) = Some t'"
    using Cons.prems(1) by (auto split: if_splits)
  have s: "mock_step op t = (user_next op r t, r)" using usual_step [OF a] Cons.prems(2) p by simp
  then have "usual (map fst tr) (user_next op r t)" using Cons.prems(2) p by simp
  from Cons.IH [OF rest this] s p show ?case by simp
qed simp

text \<open>
  The mock store is a fair stand-in for the user store: on a reliable engine, a history that creates
  only new users, updates only stored ones and keeps emails apart gives exactly the same results,
  operation by operation, and the same users at the end.  Outside of such histories they differ:
  the mock refuses to create a stored user, or to update an absent one, where the store overwrites
  it, and it does not know the unique index.
\<close>

theorem mock_agrees_with_store:
  assumes "handle_ok E view pend d" and "users_ok E (db_view view d)" and "zstd_laws E" and "writes_ok E"
    and "list_all user_op_fits ops" and "usual ops (user_rows E (db_view view d))"
  shows "\<exists>d' tr. user_run E ops d = Some (d', tr)
    \<and> mock_run ops (user_rows E (db_view view d)) = (user_rows E (db_view view d'), tr)"
proof -
  obtain d' tr where r: "user_run E ops d = Some (d', tr)"
    "user_spec_run (writes_ok E) tr (user_rows E (db_view view d)) = Some (user_rows E (db_view view d'))"
    using user_run_refines [OF assms(3,1,2,5)] by blast
  moreover have "map fst tr = ops" using user_run_ops [OF r(1)] .
  ultimately show ?thesis using usual_run [of tr "user_rows E (db_view view d)"] assms(4,6) by auto
qed

text \<open>Witness: create, update, read and delete a user on an empty store.\<close>

theorem mock_agrees_with_store_witness:
  "\<exists>d' tr. user_run (calm_platform 0)
      [UCreate example_user, UUpdate (example_user\<lparr>u_Name := [1]\<rparr>), UGet 7, UDelete 7] (with_pebble ([], []) example_db)
      = Some (d', tr) \<and> map snd tr = [UErr None, UErr None, UGot (Inr (Some (example_user\<lparr>u_Name := [1]\<rparr>))), UErr None]"
proof -
  let ?ops = "[UCreate example_user, UUpdate (example_user\<lparr>u_Name := [1]\<rparr>), UGet 7, UDelete 7]"
  let ?E = "calm_platform 0"
  have rows: "user_rows ?E (mem_view ([], [])) = Map.empty" "users_ok ?E (mem_view ([], []))"
    by (rule users_ok_Nil)+
  have "list_all user_op_fits ?ops" by (simp add: user_fits_def example_user_def)
  moreover have "usual ?ops Map.empty"
    by (simp add: email_taken_def mock_user_Create_def mock_user_Update_def mock_user_Get_def example_user_def)
  moreover have "mock_run ?ops Map.empty = (Map.empty, zip ?ops
      [UErr None, UErr None, UGot (Inr (Some (example_user\<lparr>u_Name := [1]\<rparr>))), UErr None])"
    by (simp add: mock_user_Create_def mock_user_Update_def mock_user_Get_def mock_user_Delete_def
        example_user_def fun_eq_iff)
  ultimately show ?thesis
    using mock_agrees_with_store [OF example_handle [of 0 "([], [])"] _ calm_laws(4,5), of ?ops] rows by auto
qed

end
