(* ===== verification/IR.thy ===== *)
theory IR
  imports GoBytes
begin

text \<open>
  The intermediate representation of the code generator (\<open>internal/codegen/ir.go\<close>): from the
  descriptors of the proto files to a \<open>TableIR\<close> per message that has the table option.  The
  descriptors are what protoc hands over; here they are records of the parts \<open>ir.go\<close> reads, with
  the options already decoded.  Names are ASCII strings.
\<close>

section \<open>Numbers and durations of the standard library\<close>

text \<open>\<open>strconv.ParseInt(s, 10, 64)\<close>; \<open>None\<close> is an error.\<close>

definition is_digit :: "char \<Rightarrow> bool" where
  "is_digit c = (48 \<le> (of_char c :: nat) \<and> (of_char c :: nat) \<le> 57)"

definition digit_val :: "char \<Rightarrow> nat" where "digit_val c = of_char c - 48"

definition parse_uint :: "string \<Rightarrow> nat option" where
  "parse_uint s = (if s \<noteq> [] \<and> list_all is_digit s then Some (foldl (\<lambda>n c. 10 * n + digit_val c) 0 s) else None)"

definition parse_int64 :: "string \<Rightarrow> int option" where
  "parse_int64 s =
     (case s of
        [] \<Rightarrow> None
      | c # cs \<Rightarrow>
          if c = CHR ''-''
          then (case parse_uint cs of None \<Rightarrow> None | Some n \<Rightarrow> if n \<le> 2 ^ 63 then Some (- int n) else None)
          else (case parse_uint (if c = CHR ''+'' then cs else s) of
                  None \<Rightarrow> None | Some n \<Rightarrow> if n < 2 ^ 63 then Some (int n) else None))"

text \<open>
  \<open>time.ParseDuration\<close>.  Fractions are exact here; Go computes them in \<open>float64\<close> and may be off by
  rounding.
\<close>

fun leadingInt :: "string \<Rightarrow> nat \<Rightarrow> (nat \<times> string) option" where
  "leadingInt [] x = Some (x, [])"
| "leadingInt (c # s) x =
     (if \<not> is_digit c then Some (x, c # s)
      else if 2 ^ 63 div 10 < x then None
      else let y = 10 * x + digit_val c in if 2 ^ 63 < y then None else leadingInt s y)"

fun leadingFraction :: "string \<Rightarrow> nat \<Rightarrow> nat \<Rightarrow> bool \<Rightarrow> nat \<times> nat \<times> string" where
  "leadingFraction [] x scale overflow = (x, scale, [])"
| "leadingFraction (c # s) x scale overflow =
     (if \<not> is_digit c then (x, scale, c # s)
      else if overflow \<or> (2 ^ 63 - 1) div 10 < x then leadingFraction s x scale True
      else let y = 10 * x + digit_val c in
        if 2 ^ 63 < y then leadingFraction s x scale True else leadingFraction s y (10 * scale) False)"

definition unit_map :: "string \<rightharpoonup> nat" where
  "unit_map u =
     map_of [(''ns'', 1), (''us'', 1000), ([CHR 0xC2, CHR 0xB5, CHR ''s''], 1000),
             ([CHR 0xCE, CHR 0xBC, CHR ''s''], 1000), (''ms'', 1000000), (''s'', 1000000000),
             (''m'', 60000000000), (''h'', 3600000000000)] u"

definition duration_error :: go_error where "duration_error = ErrorMsg ''time: invalid duration''"

text \<open>One component: number, fraction, unit.  \<open>read_fraction\<close> also says whether it saw digits.\<close>

definition read_fraction :: "string \<Rightarrow> nat \<times> nat \<times> bool \<times> string" where
  "read_fraction s =
     (if s \<noteq> [] \<and> hd s = CHR ''.''
      then (let (f, scale, s') = leadingFraction (tl s) 0 1 False in (f, scale, length (tl s) \<noteq> length s', s'))
      else (0, 1, False, s))"

definition unit_char :: "char \<Rightarrow> bool" where "unit_char c = (c \<noteq> CHR ''.'' \<and> \<not> is_digit c)"

definition scaled :: "nat \<Rightarrow> nat \<Rightarrow> nat \<Rightarrow> nat \<Rightarrow> nat option" where
  "scaled v f scale unit =
     (if 2 ^ 63 div unit < v then None
      else let v' = v * unit + f * unit div scale in if 2 ^ 63 < v' then None else Some v')"

definition parse_component :: "string \<Rightarrow> (nat \<times> string) option" where
  "parse_component s =
     (if s = [] \<or> \<not> (hd s = CHR ''.'' \<or> is_digit (hd s)) then None
      else
        (case leadingInt s 0 of
           None \<Rightarrow> None
         | Some (v, s1) \<Rightarrow>
             (case read_fraction s1 of
                (f, scale, post, s2) \<Rightarrow>
                  let u = takeWhile unit_char s2 in
                  if length s = length s1 \<and> \<not> post \<or> u = [] then None
                  else
                    (case unit_map u of
                       None \<Rightarrow> None
                     | Some unit \<Rightarrow> map_option (\<lambda>v'. (v', drop (length u) s2)) (scaled v f scale unit)))))"

lemma leadingInt_length: "leadingInt s x = Some (v, s') \<Longrightarrow> length s' \<le> length s"
  by (induction s arbitrary: x) (auto simp: Let_def le_SucI split: if_splits)

lemma leadingFraction_length: "length (snd (snd (leadingFraction s x scale ov))) \<le> length s"
  by (induction s x scale ov rule: leadingFraction.induct) (auto simp: Let_def)

lemma read_fraction_length: "read_fraction s = (f, scale, post, s') \<Longrightarrow> length s' \<le> length s"
  using leadingFraction_length [of "tl s" 0 1 False]
  by (auto simp: read_fraction_def split: if_splits prod.splits)

lemma parse_component_length: "parse_component s = Some (v, s') \<Longrightarrow> length s' < length s"
proof -
  assume p: "parse_component s = Some (v, s')"
  then obtain n s1 where s1: "leadingInt s 0 = Some (n, s1)"
    by (auto simp: parse_component_def split: if_splits option.splits)
  obtain f scale post s2 where s2: "read_fraction s1 = (f, scale, post, s2)" by (metis prod_cases4)
  have "takeWhile unit_char s2 \<noteq> []" "s' = drop (length (takeWhile unit_char s2)) s2"
    using p by (auto simp: parse_component_def s1 s2 Let_def split: if_splits option.splits)
  then have "length s' < length s2" by (cases s2) auto
  with read_fraction_length [OF s2] leadingInt_length [OF s1] show ?thesis by linarith
qed

function parse_components :: "string \<Rightarrow> nat \<Rightarrow> nat option" where
  "parse_components s d =
     (if s = [] then Some d
      else (case parse_component s of
              None \<Rightarrow> None
            | Some (v, s') \<Rightarrow> if 2 ^ 63 < d + v then None else parse_components s' (d + v)))"
  by pat_completeness auto
termination
  by (relation "measure (\<lambda>(s, d). length s)") (auto dest: parse_component_length)

definition ParseDuration :: "string \<Rightarrow> go_error + 64 word" where
  "ParseDuration s0 =
     (let neg = (s0 \<noteq> [] \<and> hd s0 = CHR ''-'');
          s = (if s0 \<noteq> [] \<and> (hd s0 = CHR ''-'' \<or> hd s0 = CHR ''+'') then tl s0 else s0)
      in if s = ''0'' then Inr 0
         else if s = [] then Inl duration_error
         else (case parse_components s 0 of
                 None \<Rightarrow> Inl duration_error
               | Some d \<Rightarrow>
                   if neg then Inr (- word_of_nat d)
                   else if 2 ^ 63 - 1 < d then Inl duration_error
                   else Inr (word_of_nat d)))"

section \<open>Descriptors\<close>

datatype proto_type =
    TYPE_DOUBLE | TYPE_FLOAT | TYPE_INT64 | TYPE_UINT64 | TYPE_INT32 | TYPE_FIXED64 | TYPE_FIXED32
  | TYPE_BOOL | TYPE_STRING | TYPE_GROUP | TYPE_MESSAGE | TYPE_BYTES | TYPE_UINT32 | TYPE_ENUM
  | TYPE_SFIXED32 | TYPE_SFIXED64 | TYPE_SINT32 | TYPE_SINT64

datatype IndexOption = INDEX_NONE | INDEX_NORMAL | INDEX_UNIQUE

record FieldOption =
  fo_index :: IndexOption
  fo_compress :: bool
  fo_primary_key :: bool
  fo_ttl :: string

record FieldDescriptor =
  fd_name :: string
  fd_type :: proto_type
  fd_number :: "32 word"
  fd_repeated :: bool
  fd_option :: "FieldOption option"

record TableOption =
  to_primary_key :: string
  to_compress :: bool
  to_compress_threshold :: "32 word"

record MessageDescriptor =
  md_name :: string
  md_fields :: "FieldDescriptor list"
  md_table :: "TableOption option"

record FileDescriptor =
  pf_package :: string
  pf_go_package :: string
  pf_messages :: "MessageDescriptor list"

section \<open>The representation\<close>

record FieldIR =
  fi_Name :: string
  fi_GoName :: string
  fi_GoType :: string
  fi_ProtoType :: proto_type
  fi_Number :: "32 word"
  fi_Index :: IndexOption
  fi_Compress :: bool
  fi_IsPrimaryKey :: bool
  fi_TTL :: string
  fi_IsRepeated :: bool

record TableIR =
  t_MessageName :: string
  t_StoreName :: string
  t_PrimaryKey :: "FieldIR option"
  t_Fields :: "FieldIR list"
  t_IndexedFields :: "FieldIR list"
  t_CompressibleFields :: "FieldIR list"
  t_TableCompress :: bool
  t_CompressThreshold :: "32 word"
  t_TableID :: "64 word"
  t_GoPackage :: string
  t_TTL :: "64 word"
  t_HasTTL :: bool

definition fnv1a64 :: "string \<Rightarrow> 64 word" where
  "fnv1a64 s = fnv64a_write fnv64a_offset (map of_char s)"

definition parseTTL :: "string \<Rightarrow> go_error + 64 word" where
  "parseTTL s =
     (if s \<noteq> [] \<and> last s = CHR ''d''
      then (case parse_int64 (butlast s) of
              None \<Rightarrow> Inl (ErrorMsg ''invalid TTL day value'')
            | Some days \<Rightarrow>
                if days \<le> 0 then Inl (ErrorMsg ''invalid TTL day value'')
                else Inr (word_of_int days * 24 * 3600000000000))
      else (case ParseDuration s of
              Inl err \<Rightarrow> Inl err
            | Inr d \<Rightarrow> if d \<le>s 0 then Inl (ErrorMsg ''TTL must be positive'') else Inr d))"

fun protoTypeToGo :: "proto_type \<Rightarrow> go_error + string" where
  "protoTypeToGo TYPE_DOUBLE = Inr ''float64''"
| "protoTypeToGo TYPE_FLOAT = Inr ''float32''"
| "protoTypeToGo TYPE_INT64 = Inr ''int64''"
| "protoTypeToGo TYPE_SINT64 = Inr ''int64''"
| "protoTypeToGo TYPE_SFIXED64 = Inr ''int64''"
| "protoTypeToGo TYPE_UINT64 = Inr ''uint64''"
| "protoTypeToGo TYPE_FIXED64 = Inr ''uint64''"
| "protoTypeToGo TYPE_INT32 = Inr ''int32''"
| "protoTypeToGo TYPE_SINT32 = Inr ''int32''"
| "protoTypeToGo TYPE_SFIXED32 = Inr ''int32''"
| "protoTypeToGo TYPE_UINT32 = Inr ''uint32''"
| "protoTypeToGo TYPE_FIXED32 = Inr ''uint32''"
| "protoTypeToGo TYPE_BOOL = Inr ''bool''"
| "protoTypeToGo TYPE_STRING = Inr ''string''"
| "protoTypeToGo TYPE_BYTES = Inr ''[]byte''"
| "protoTypeToGo TYPE_ENUM = Inr ''int32''"
| "protoTypeToGo _ = Inl (ErrorMsg ''unsupported proto type'')"

definition buildFieldIR :: "FieldDescriptor \<Rightarrow> go_error + FieldIR" where
  "buildFieldIR field =
     (case protoTypeToGo (fd_type field) of
        Inl err \<Rightarrow> Inl err
      | Inr goType \<Rightarrow>
          (let fir = \<lparr>fi_Name = fd_name field, fi_GoName = fd_name field,
                 fi_GoType = (if fd_repeated field then ''[]'' @ goType else goType),
                 fi_ProtoType = fd_type field, fi_Number = fd_number field, fi_Index = INDEX_NONE,
                 fi_Compress = False, fi_IsPrimaryKey = False, fi_TTL = '''', fi_IsRepeated = fd_repeated field\<rparr>
           in (case fd_option field of
                 None \<Rightarrow> Inr fir
               | Some opt \<Rightarrow>
                   Inr (fir\<lparr>fi_Index := fo_index opt, fi_Compress := fo_compress opt,
                            fi_IsPrimaryKey := fo_primary_key opt, fi_TTL := fo_ttl opt\<rparr>))))"

definition shouldCompress :: "FieldIR \<Rightarrow> bool \<Rightarrow> 32 word \<Rightarrow> bool" where
  "shouldCompress f tableCompress threshold =
     (if fi_IsRepeated f then False
      else if fi_ProtoType f \<noteq> TYPE_STRING \<and> fi_ProtoType f \<noteq> TYPE_BYTES then False
      else if fi_Compress f then True
      else tableCompress)"

text \<open>
  The loop of \<open>buildTableIR\<close>, one field.  The Go code shares one \<open>FieldIR\<close> between the lists and sets its
  primary-key flag after appending it; here the flag is set first.
\<close>

definition placeField :: "FieldIR \<Rightarrow> TableIR \<Rightarrow> go_error + TableIR" where
  "placeField fir t =
     (let t1 = t\<lparr>t_Fields := t_Fields t @ [fir]\<rparr>
      in if fi_IsPrimaryKey fir \<and> t_PrimaryKey t1 \<noteq> None then Inl (ErrorMsg ''duplicate primary key'')
         else
           (let t2 = (if fi_IsPrimaryKey fir then t1\<lparr>t_PrimaryKey := Some fir\<rparr> else t1);
                t3 = (if fi_Index fir \<noteq> INDEX_NONE \<and> \<not> fi_IsPrimaryKey fir
                      then t2\<lparr>t_IndexedFields := t_IndexedFields t2 @ [fir]\<rparr> else t2);
                t4 = (if shouldCompress fir (t_TableCompress t3) (t_CompressThreshold t3)
                      then t3\<lparr>t_CompressibleFields := t_CompressibleFields t3 @ [fir]\<rparr> else t3)
            in if \<not> t_HasTTL t4 \<and> fi_TTL fir \<noteq> ''''
               then (case parseTTL (fi_TTL fir) of
                       Inl err \<Rightarrow> Inl (ErrorWrap (''field '' @ fi_Name fir @ '' ttl: '') err)
                     | Inr d \<Rightarrow> Inr (t4\<lparr>t_TTL := d, t_HasTTL := True\<rparr>))
               else Inr t4))"

definition addField :: "TableOption \<Rightarrow> FieldDescriptor \<Rightarrow> TableIR \<Rightarrow> go_error + TableIR" where
  "addField opt field t =
     (case buildFieldIR field of
        Inl err \<Rightarrow> Inl (ErrorWrap (''field '' @ fd_name field @ '': '') err)
      | Inr fir \<Rightarrow>
          if fi_IsRepeated fir
          then Inl (ErrorMsg (''field '' @ fd_name field @ '': repeated fields are not supported in Phase 1''))
          else
            placeField (fir\<lparr>fi_IsPrimaryKey := fi_IsPrimaryKey fir \<or> fi_Name fir = to_primary_key opt\<rparr>) t)"

fun addFields :: "TableOption \<Rightarrow> FieldDescriptor list \<Rightarrow> TableIR \<Rightarrow> go_error + TableIR" where
  "addFields opt [] t = Inr t"
| "addFields opt (f # fs) t = (case addField opt f t of Inl err \<Rightarrow> Inl err | Inr t' \<Rightarrow> addFields opt fs t')"

definition buildTableIR :: "MessageDescriptor \<Rightarrow> TableOption \<Rightarrow> string \<Rightarrow> 64 word \<Rightarrow> go_error + TableIR" where
  "buildTableIR msg opt goPkg tableID =
     (let t0 = \<lparr>t_MessageName = md_name msg, t_StoreName = md_name msg @ ''Store'', t_PrimaryKey = None,
            t_Fields = [], t_IndexedFields = [], t_CompressibleFields = [], t_TableCompress = to_compress opt,
            t_CompressThreshold = (if to_compress_threshold opt \<le>s 0 then 256 else to_compress_threshold opt),
            t_TableID = tableID, t_GoPackage = goPkg, t_TTL = 0, t_HasTTL = False\<rparr>
      in case addFields opt (md_fields msg) t0 of
           Inl err \<Rightarrow> Inl err
         | Inr t \<Rightarrow> if t_PrimaryKey t = None then Inl (ErrorMsg ''primary key not found in message fields'') else Inr t)"

definition after_last :: "char \<Rightarrow> string \<Rightarrow> string" where
  "after_last c s = rev (takeWhile (\<lambda>x. x \<noteq> c) (rev s))"

definition resolveGoPackage :: "FileDescriptor \<Rightarrow> string" where
  "resolveGoPackage file =
     (let gopkg = pf_go_package file in
      if gopkg = '''' then ''''
      else if CHR '';'' \<in> set gopkg then after_last CHR '';'' gopkg
      else if CHR ''/'' \<in> set gopkg then after_last CHR ''/'' gopkg
      else gopkg)"

definition isProtobufInternalMessage :: "string \<Rightarrow> bool" where
  "isProtobufInternalMessage name = prefix ''_'' name"

definition fqName :: "string \<Rightarrow> string \<Rightarrow> string" where
  "fqName pkg name = (if pkg = '''' then name else pkg @ ''.'' @ name)"

text \<open>The two loops of \<open>BuildIR\<close>; \<open>ids\<close> is the set of table ids taken.\<close>

type_synonym ir_state = "(64 word \<rightharpoonup> string) \<times> TableIR list"

fun addMessages :: "string \<Rightarrow> string \<Rightarrow> MessageDescriptor list \<Rightarrow> ir_state \<Rightarrow> go_error + ir_state" where
  "addMessages goPkg pkg [] st = Inr st"
| "addMessages goPkg pkg (msg # msgs) st =
     (if isProtobufInternalMessage (md_name msg) then addMessages goPkg pkg msgs st
      else
        (case md_table msg of
           None \<Rightarrow> addMessages goPkg pkg msgs st
         | Some opt \<Rightarrow>
             (let name = fqName pkg (md_name msg); tableID = fnv1a64 name in
              if fst st tableID \<noteq> None then Inl (ErrorMsg ''table ID collision'')
              else
                (case buildTableIR msg opt goPkg tableID of
                   Inl err \<Rightarrow> Inl (ErrorWrap (''message '' @ md_name msg @ '': '') err)
                 | Inr t \<Rightarrow> addMessages goPkg pkg msgs ((fst st)(tableID \<mapsto> name), snd st @ [t])))))"

fun addFiles :: "FileDescriptor list \<Rightarrow> ir_state \<Rightarrow> go_error + ir_state" where
  "addFiles [] st = Inr st"
| "addFiles (f # fs) st =
     (case addMessages (resolveGoPackage f) (pf_package f) (pf_messages f) st of
        Inl err \<Rightarrow> Inl err
      | Inr st' \<Rightarrow> addFiles fs st')"

definition BuildIR :: "FileDescriptor list \<Rightarrow> go_error + TableIR list" where
  "BuildIR files = map_sum id snd (addFiles files (Map.empty, []))"


declare parse_components.simps [simp del]

section \<open>What a table looks like\<close>

definition ttl_fields :: "TableIR \<Rightarrow> FieldIR list" where
  "ttl_fields t = filter (\<lambda>f. fi_TTL f \<noteq> '''') (t_Fields t)"

definition fields_wf :: "TableIR \<Rightarrow> bool" where
  "fields_wf t \<longleftrightarrow>
     filter fi_IsPrimaryKey (t_Fields t) = (case t_PrimaryKey t of None \<Rightarrow> [] | Some pk \<Rightarrow> [pk])
   \<and> t_IndexedFields t = filter (\<lambda>f. fi_Index f \<noteq> INDEX_NONE \<and> \<not> fi_IsPrimaryKey f) (t_Fields t)
   \<and> t_CompressibleFields t = filter (\<lambda>f. shouldCompress f (t_TableCompress t) (t_CompressThreshold t)) (t_Fields t)
   \<and> (\<forall>f \<in> set (t_Fields t). \<not> fi_IsRepeated f \<and> protoTypeToGo (fi_ProtoType f) = Inr (fi_GoType f))
   \<and> t_HasTTL t = (ttl_fields t \<noteq> [])
   \<and> (t_HasTTL t \<longrightarrow> parseTTL (fi_TTL (hd (ttl_fields t))) = Inr (t_TTL t))"

definition table_wf :: "TableIR \<Rightarrow> bool" where
  "table_wf t \<longleftrightarrow> fields_wf t \<and> t_PrimaryKey t \<noteq> None \<and> 0 <s t_CompressThreshold t"

lemma buildFieldIR_type:
  "buildFieldIR field = Inr f \<Longrightarrow> \<not> fi_IsRepeated f \<Longrightarrow> protoTypeToGo (fi_ProtoType f) = Inr (fi_GoType f)"
  by (auto simp: buildFieldIR_def Let_def split: sum.splits option.splits)

lemma placeField_fields:
  assumes "placeField f t = Inr t'"
  shows "(fi_IsPrimaryKey f \<longrightarrow> t_PrimaryKey t = None)
    \<and> t_PrimaryKey t' = (if fi_IsPrimaryKey f then Some f else t_PrimaryKey t)
    \<and> t_Fields t' = t_Fields t @ [f]
    \<and> t_IndexedFields t'
        = t_IndexedFields t @ (if fi_Index f \<noteq> INDEX_NONE \<and> \<not> fi_IsPrimaryKey f then [f] else [])
    \<and> t_CompressibleFields t' = t_CompressibleFields t
        @ (if shouldCompress f (t_TableCompress t) (t_CompressThreshold t) then [f] else [])
    \<and> t_TableCompress t' = t_TableCompress t \<and> t_CompressThreshold t' = t_CompressThreshold t
    \<and> t_TableID t' = t_TableID t
    \<and> (if \<not> t_HasTTL t \<and> fi_TTL f \<noteq> [] then parseTTL (fi_TTL f) = Inr (t_TTL t') \<and> t_HasTTL t'
       else t_TTL t' = t_TTL t \<and> t_HasTTL t' = t_HasTTL t)"
proof (cases "\<not> t_HasTTL t \<and> fi_TTL f \<noteq> []")
  case True
  have free: "fi_IsPrimaryKey f \<Longrightarrow> t_PrimaryKey t = None"
    using assms by (cases "t_PrimaryKey t") (simp_all add: placeField_def Let_def)
  from True obtain d where d: "parseTTL (fi_TTL f) = Inr d"
    using assms [symmetric] free by (cases "parseTTL (fi_TTL f)") (simp_all add: placeField_def Let_def split: if_splits)
  show ?thesis
    using assms free True d by (simp add: placeField_def Let_def) (auto simp: d)
next
  case False
  have free: "fi_IsPrimaryKey f \<Longrightarrow> t_PrimaryKey t = None"
    using assms by (cases "t_PrimaryKey t") (simp_all add: placeField_def Let_def)
  show ?thesis
    using assms free False by (simp add: placeField_def Let_def) (auto)
qed

lemma addField_wf:
  assumes wf: "fields_wf t" and add: "addField opt field t = Inr t'"
  shows "fields_wf t' \<and> t_CompressThreshold t' = t_CompressThreshold t \<and> t_TableID t' = t_TableID t"
proof -
  obtain f where ty: "\<not> fi_IsRepeated f" "protoTypeToGo (fi_ProtoType f) = Inr (fi_GoType f)"
    and place: "placeField f t = Inr t'"
  proof -
    obtain f0 where f0: "buildFieldIR field = Inr f0" "\<not> fi_IsRepeated f0"
      using add by (auto simp: addField_def split: sum.splits if_splits)
    show thesis
      by (rule that [of "f0\<lparr>fi_IsPrimaryKey := fi_IsPrimaryKey f0 \<or> fi_Name f0 = to_primary_key opt\<rparr>"])
         (use f0 buildFieldIR_type [OF f0] add in \<open>simp_all add: addField_def\<close>)
  qed
  note fields = placeField_fields [OF place]
  have ttl: "if \<not> t_HasTTL t \<and> fi_TTL f \<noteq> [] then parseTTL (fi_TTL f) = Inr (t_TTL t') \<and> t_HasTTL t'
       else t_TTL t' = t_TTL t \<and> t_HasTTL t' = t_HasTTL t" using fields by blast
  have "fields_wf t'"
    unfolding fields_wf_def
  proof (intro conjI)
    show "filter fi_IsPrimaryKey (t_Fields t') = (case t_PrimaryKey t' of None \<Rightarrow> [] | Some pk \<Rightarrow> [pk])"
      using wf by (auto simp: fields fields_wf_def)
    show "t_IndexedFields t' = filter (\<lambda>f. fi_Index f \<noteq> INDEX_NONE \<and> \<not> fi_IsPrimaryKey f) (t_Fields t')"
      using wf by (simp add: fields fields_wf_def)
    show "t_CompressibleFields t' = filter (\<lambda>f. shouldCompress f (t_TableCompress t') (t_CompressThreshold t')) (t_Fields t')"
      using wf by (simp add: fields fields_wf_def)
    show "\<forall>f \<in> set (t_Fields t'). \<not> fi_IsRepeated f \<and> protoTypeToGo (fi_ProtoType f) = Inr (fi_GoType f)"
      using wf ty by (auto simp: fields fields_wf_def)
    show "t_HasTTL t' = (ttl_fields t' \<noteq> [])"
      using wf ttl by (auto simp: fields fields_wf_def ttl_fields_def split: if_splits)
    show "t_HasTTL t' \<longrightarrow> parseTTL (fi_TTL (hd (ttl_fields t'))) = Inr (t_TTL t')"
    proof (cases "t_HasTTL t")
      case True
      then have "ttl_fields t \<noteq> []" "parseTTL (fi_TTL (hd (ttl_fields t))) = Inr (t_TTL t)"
        using wf by (auto simp: fields_wf_def)
      with True ttl show ?thesis by (simp add: fields ttl_fields_def)
    next
      case False
      then have "ttl_fields t = []" using wf by (auto simp: fields_wf_def)
      with False ttl show ?thesis by (auto simp: fields ttl_fields_def split: if_splits)
    qed
  qed
  then show ?thesis by (simp add: fields)
qed

lemma addFields_wf:
  "addFields opt fs t = Inr t' \<Longrightarrow> fields_wf t \<Longrightarrow>
    fields_wf t' \<and> t_CompressThreshold t' = t_CompressThreshold t \<and> t_TableID t' = t_TableID t"
proof (induction fs arbitrary: t)
  case (Cons f fs)
  then obtain t1 where t1: "addField opt f t = Inr t1" "addFields opt fs t1 = Inr t'"
    by (auto split: sum.splits)
  with addField_wf [OF Cons.prems(2) t1(1)] Cons.IH [OF t1(2)] show ?case by simp
qed simp

lemma buildTableIR_wf: "buildTableIR msg opt goPkg i = Inr t \<Longrightarrow> table_wf t \<and> t_TableID t = i"
proof -
  assume b: "buildTableIR msg opt goPkg i = Inr t"
  let ?t0 = "\<lparr>t_MessageName = md_name msg, t_StoreName = md_name msg @ ''Store'', t_PrimaryKey = None,
            t_Fields = [], t_IndexedFields = [], t_CompressibleFields = [], t_TableCompress = to_compress opt,
            t_CompressThreshold = (if to_compress_threshold opt \<le>s 0 then 256 else to_compress_threshold opt),
            t_TableID = i, t_GoPackage = goPkg, t_TTL = 0, t_HasTTL = False\<rparr>"
  have add: "addFields opt (md_fields msg) ?t0 = Inr t" and pk: "t_PrimaryKey t \<noteq> None"
    using b by (auto simp: buildTableIR_def Let_def split: sum.splits if_splits)
  have "fields_wf ?t0" by (simp add: fields_wf_def ttl_fields_def)
  from addFields_wf [OF add this] pk show ?thesis
    by (auto simp: table_wf_def word_sless_alt word_sle_eq split: if_splits)
qed

text \<open>The messages that become tables, with their full names.\<close>

definition table_names :: "FileDescriptor \<Rightarrow> string list" where
  "table_names f = map (\<lambda>m. fqName (pf_package f) (md_name m))
     (filter (\<lambda>m. \<not> isProtobufInternalMessage (md_name m) \<and> md_table m \<noteq> None) (pf_messages f))"

definition ir_inv :: "ir_state \<Rightarrow> bool" where
  "ir_inv st \<longleftrightarrow> list_all table_wf (snd st) \<and> distinct (map t_TableID (snd st))
     \<and> set (map t_TableID (snd st)) = dom (fst st)"

lemma addMessages_wf:
  "addMessages goPkg pkg msgs st = Inr st' \<Longrightarrow> ir_inv st \<Longrightarrow>
    ir_inv st' \<and> map t_TableID (snd st') = map t_TableID (snd st)
      @ map (\<lambda>m. fnv1a64 (fqName pkg (md_name m)))
          (filter (\<lambda>m. \<not> isProtobufInternalMessage (md_name m) \<and> md_table m \<noteq> None) msgs)"
proof (induction msgs arbitrary: st)
  case (Cons msg msgs)
  show ?case
  proof (cases "isProtobufInternalMessage (md_name msg) \<or> md_table msg = None")
    case True
    then have "addMessages goPkg pkg msgs st = Inr st'" using Cons.prems(1)
      by (cases "isProtobufInternalMessage (md_name msg)") simp_all
    from Cons.IH [OF this Cons.prems(2)] True show ?thesis by auto
  next
    case False
    then obtain opt where opt: "md_table msg = Some opt" by blast
    let ?i = "fnv1a64 (fqName pkg (md_name msg))"
    have free: "fst st ?i = None"
      using Cons.prems(1) False opt by (auto simp: Let_def split: if_splits)
    obtain t where t: "buildTableIR msg opt goPkg ?i = Inr t"
      "addMessages goPkg pkg msgs ((fst st)(?i \<mapsto> fqName pkg (md_name msg)), snd st @ [t]) = Inr st'"
      using Cons.prems(1) False opt free by (auto simp: Let_def split: sum.splits)
    from buildTableIR_wf [OF t(1)] have wf: "table_wf t" "t_TableID t = ?i" by auto
    have "ir_inv ((fst st)(?i \<mapsto> fqName pkg (md_name msg)), snd st @ [t])"
      using Cons.prems(2) wf free by (auto simp: ir_inv_def)
    from Cons.IH [OF t(2) this] wf False show ?thesis by simp
  qed
qed simp

lemma addFiles_wf:
  "addFiles fs st = Inr st' \<Longrightarrow> ir_inv st \<Longrightarrow>
    ir_inv st' \<and> map t_TableID (snd st') = map t_TableID (snd st) @ map fnv1a64 (concat (map table_names fs))"
proof (induction fs arbitrary: st)
  case (Cons f fs)
  then obtain st1 where st1: "addMessages (resolveGoPackage f) (pf_package f) (pf_messages f) st = Inr st1"
    "addFiles fs st1 = Inr st'" by (auto split: sum.splits)
  with addMessages_wf [OF st1(1) Cons.prems(2)] Cons.IH [OF st1(2)] show ?case
    by (simp add: table_names_def comp_def)
qed simp

section \<open>Properties\<close>

text \<open>
  C27. Every table the generator accepts is well-formed: exactly one field is marked as the primary key and
  it is the table's; the indexed fields are the other fields with an index, the compressible fields those
  that should be compressed, both in declaration order; no field is repeated and every Go type is that of
  its protobuf type; the time to live is that of the first field that declares one, and is well-formed.  The
  tables are the annotated messages in order; their ids are pairwise distinct and the 64-bit FNV-1a hashes of the
  full names: the \<open>package\<close> of the proto file, a dot and the name of the message, whatever its \<open>go_package\<close>.
\<close>

theorem build_ir_wellformed:
  assumes "BuildIR files = Inr ts"
  shows "list_all table_wf ts \<and> distinct (map t_TableID ts)
    \<and> map t_TableID ts = map fnv1a64 (concat (map table_names files))"
proof -
  obtain st where st: "addFiles files (Map.empty, []) = Inr st" "ts = snd st"
    using assms by (cases "addFiles files (Map.empty, [])") (auto simp: BuildIR_def)
  have "ir_inv (Map.empty, [])" by (simp add: ir_inv_def)
  from addFiles_wf [OF st(1) this] st(2) show ?thesis by (auto simp: ir_inv_def)
qed

text \<open>
  Time-to-live strings in days: a positive number of days up to 106751 means that many days in
  nanoseconds, a number that is not positive is refused; from 106752 days on the 64-bit product wraps around
  and the result is a negative time to live that is accepted all the same (shown up to 213503 days, where it
  becomes positive again), although every string that is not in days yields a positive one or an error.
\<close>

theorem ttl_days_wrap:
  assumes "parse_int64 s = Some n"
  shows "(n \<le> 0 \<longrightarrow> (\<exists>e. parseTTL (s @ ''d'') = Inl e))
    \<and> (0 < n \<and> n \<le> 106751 \<longrightarrow> (\<exists>w. parseTTL (s @ ''d'') = Inr w \<and> sint w = n * 86400000000000))
    \<and> (106752 \<le> n \<and> n \<le> 213503 \<longrightarrow> (\<exists>w. parseTTL (s @ ''d'') = Inr w \<and> sint w < 0))
    \<and> (\<forall>s' w. (s' = [] \<or> last s' \<noteq> CHR ''d'') \<and> parseTTL s' = Inr w \<longrightarrow> 0 < sint w)"
proof -
  have "word_of_int n * 24 * 3600000000000 = (word_of_int (n * 86400000000000) :: 64 word)"
    by (simp only: wi_hom_mult [symmetric] word_of_int_numeral [symmetric] mult.assoc) simp
  then have "parseTTL (s @ ''d'') = (if n \<le> 0 then Inl (ErrorMsg ''invalid TTL day value'')
      else Inr (word_of_int (n * 86400000000000)))"
    using assms by (simp add: parseTTL_def)
  moreover have "sint (word_of_int (n * 86400000000000) :: 64 word) = n * 86400000000000" if "0 < n" "n \<le> 106751"
    using that by (simp only: sint_sbintrunc') (simp add: signed_take_bit_int_eq_self)
  moreover have "sint (word_of_int (n * 86400000000000) :: 64 word) = n * 86400000000000 - 2 ^ 64"
    if "106752 \<le> n" "n \<le> 213503"
  proof -
    have range: "0 \<le> n * 86400000000000 + 2 ^ 63 - (2 :: int) ^ 64" "n * 86400000000000 + 2 ^ 63 - (2 :: int) ^ 64 < 2 ^ 64"
      using that by simp_all
    have "(n * 86400000000000 + 2 ^ 63) mod 2 ^ 64 = (n * 86400000000000 + 2 ^ 63 - 2 ^ 64 + 2 ^ 64) mod (2 :: int) ^ 64"
      by (simp only: diff_add_cancel)
    also have "\<dots> = n * 86400000000000 + 2 ^ 63 - 2 ^ 64"
      using mod_pos_pos_trivial [OF range] by (simp only: mod_add_self2)
    finally show ?thesis
      by (simp only: sint_sbintrunc') (simp add: signed_take_bit_eq_take_bit_shift take_bit_eq_mod)
  qed
  moreover have "0 < sint w" if "s' = [] \<or> last s' \<noteq> CHR ''d''" "parseTTL s' = Inr w" for s' w
    using that by (auto simp: parseTTL_def word_sle_eq split: if_splits sum.splits)
  ultimately show ?thesis by auto
qed

text \<open>Witness: seven days.\<close>

theorem ttl_days_wrap_witness: "\<exists>w. parseTTL ''7d'' = Inr w \<and> sint w = 604800000000000"
proof -
  have "parse_int64 ''7'' = Some 7" by (simp add: parse_int64_def parse_uint_def is_digit_def digit_val_def)
  from ttl_days_wrap [OF this] show ?thesis by simp
qed

section \<open>The models of the test package\<close>

text \<open>The descriptors of \<open>internal/testmodels/testmodels.proto\<close> and the tables they become.\<close>

definition plain_field :: "string \<Rightarrow> proto_type \<Rightarrow> 32 word \<Rightarrow> FieldDescriptor" where
  "plain_field name ty number =
     \<lparr>fd_name = name, fd_type = ty, fd_number = number, fd_repeated = False, fd_option = None\<rparr>"

definition field_option :: FieldOption where
  "field_option = \<lparr>fo_index = INDEX_NONE, fo_compress = False, fo_primary_key = False, fo_ttl = ''''\<rparr>"

definition id_table :: TableOption where
  "id_table = \<lparr>to_primary_key = ''id'', to_compress = False, to_compress_threshold = 0\<rparr>"

definition id_field :: FieldDescriptor where
  "id_field = (plain_field ''id'' TYPE_INT64 1)\<lparr>fd_option := Some (field_option\<lparr>fo_primary_key := True\<rparr>)\<rparr>"

definition user_message :: MessageDescriptor where
  "user_message =
     \<lparr>md_name = ''User'',
      md_fields =
        [id_field,
         plain_field ''name'' TYPE_STRING 2,
         (plain_field ''email'' TYPE_STRING 3)\<lparr>fd_option := Some (field_option\<lparr>fo_index := INDEX_UNIQUE\<rparr>)\<rparr>,
         (plain_field ''created_at'' TYPE_INT64 4)\<lparr>fd_option := Some (field_option\<lparr>fo_index := INDEX_NORMAL\<rparr>)\<rparr>,
         plain_field ''active'' TYPE_BOOL 5,
         (plain_field ''bio'' TYPE_STRING 6)\<lparr>fd_option := Some (field_option\<lparr>fo_compress := True\<rparr>)\<rparr>],
      md_table = Some id_table\<rparr>"

definition session_message :: MessageDescriptor where
  "session_message =
     \<lparr>md_name = ''Session'',
      md_fields =
        [id_field,
         (plain_field ''token'' TYPE_STRING 2)\<lparr>fd_option := Some (field_option\<lparr>fo_ttl := ''1s''\<rparr>)\<rparr>,
         (plain_field ''user_id'' TYPE_STRING 3)\<lparr>fd_option := Some (field_option\<lparr>fo_index := INDEX_NORMAL\<rparr>)\<rparr>,
         plain_field ''active'' TYPE_BOOL 4],
      md_table = Some id_table\<rparr>"

definition testmodels_proto :: FileDescriptor where
  "testmodels_proto =
     \<lparr>pf_package = ''testmodels'', pf_go_package = ''github.com/mogumc/sqlitex/internal/testmodels'',
      pf_messages = [user_message, session_message]\<rparr>"

definition user_table :: TableIR where
  "user_table =
     (let f = (\<lambda>name go ty number. \<lparr>fi_Name = name, fi_GoName = name, fi_GoType = go, fi_ProtoType = ty,
            fi_Number = number, fi_Index = INDEX_NONE, fi_Compress = False, fi_IsPrimaryKey = False,
            fi_TTL = '''', fi_IsRepeated = False\<rparr>);
          pk = (f ''id'' ''int64'' TYPE_INT64 1)\<lparr>fi_IsPrimaryKey := True\<rparr>;
          email = (f ''email'' ''string'' TYPE_STRING 3)\<lparr>fi_Index := INDEX_UNIQUE\<rparr>;
          created = (f ''created_at'' ''int64'' TYPE_INT64 4)\<lparr>fi_Index := INDEX_NORMAL\<rparr>;
          bio = (f ''bio'' ''string'' TYPE_STRING 6)\<lparr>fi_Compress := True\<rparr>
      in \<lparr>t_MessageName = ''User'', t_StoreName = ''UserStore'', t_PrimaryKey = Some pk,
          t_Fields = [pk, f ''name'' ''string'' TYPE_STRING 2, email, created, f ''active'' ''bool'' TYPE_BOOL 5, bio],
          t_IndexedFields = [email, created], t_CompressibleFields = [bio], t_TableCompress = False,
          t_CompressThreshold = 256, t_TableID = 12299085994647318028, t_GoPackage = ''testmodels'',
          t_TTL = 0, t_HasTTL = False\<rparr>)"

definition session_table :: TableIR where
  "session_table =
     (let f = (\<lambda>name go ty number. \<lparr>fi_Name = name, fi_GoName = name, fi_GoType = go, fi_ProtoType = ty,
            fi_Number = number, fi_Index = INDEX_NONE, fi_Compress = False, fi_IsPrimaryKey = False,
            fi_TTL = '''', fi_IsRepeated = False\<rparr>);
          pk = (f ''id'' ''int64'' TYPE_INT64 1)\<lparr>fi_IsPrimaryKey := True\<rparr>;
          user_id = (f ''user_id'' ''string'' TYPE_STRING 3)\<lparr>fi_Index := INDEX_NORMAL\<rparr>
      in \<lparr>t_MessageName = ''Session'', t_StoreName = ''SessionStore'', t_PrimaryKey = Some pk,
          t_Fields = [pk, (f ''token'' ''string'' TYPE_STRING 2)\<lparr>fi_TTL := ''1s''\<rparr>, user_id,
            f ''active'' ''bool'' TYPE_BOOL 4],
          t_IndexedFields = [user_id], t_CompressibleFields = [], t_TableCompress = False,
          t_CompressThreshold = 256, t_TableID = 17504996543229074857, t_GoPackage = ''testmodels'',
          t_TTL = 1000000000, t_HasTTL = True\<rparr>)"

lemma parseTTL_1s: "parseTTL ''1s'' = Inr 1000000000"
  by (simp add: parseTTL_def ParseDuration_def parse_components.simps parse_component_def read_fraction_def
      is_digit_def digit_val_def unit_char_def unit_map_def scaled_def Let_def word_sle_eq)

lemma user_table_id: "fnv1a64 ''testmodels.User'' = 12299085994647318028" by code_simp
lemma session_table_id: "fnv1a64 ''testmodels.Session'' = 17504996543229074857" by code_simp

lemmas build_defs = buildTableIR_def addField_def buildFieldIR_def placeField_def shouldCompress_def Let_def

lemma build_user_table: "buildTableIR user_message id_table ''testmodels'' 12299085994647318028 = Inr user_table"
  by (simp add: build_defs user_message_def id_table_def id_field_def plain_field_def field_option_def
      user_table_def)

lemma build_session_table:
  "buildTableIR session_message id_table ''testmodels'' 17504996543229074857 = Inr session_table"
  by (simp add: build_defs session_message_def id_table_def id_field_def plain_field_def field_option_def
      session_table_def parseTTL_1s)

lemma testmodels_package: "resolveGoPackage testmodels_proto = ''testmodels''"
  by (simp add: resolveGoPackage_def testmodels_proto_def after_last_def)

lemma BuildIR_testmodels: "BuildIR [testmodels_proto] = Inr [user_table, session_table]"
proof -
  have names: "fqName ''testmodels'' ''User'' = ''testmodels.User''"
    "fqName ''testmodels'' ''Session'' = ''testmodels.Session''" by (simp_all add: fqName_def)
  have msgs: "md_name user_message = ''User''" "md_table user_message = Some id_table"
    "md_name session_message = ''Session''" "md_table session_message = Some id_table"
    by (simp_all add: user_message_def session_message_def)
  have "pf_messages testmodels_proto = [user_message, session_message]" "pf_package testmodels_proto = ''testmodels''"
    by (simp_all add: testmodels_proto_def)
  then show ?thesis
    by (simp add: BuildIR_def testmodels_package msgs names isProtobufInternalMessage_def user_table_id
        session_table_id build_user_table build_session_table)
qed

text \<open>Witness: the two models of the test package.\<close>

theorem build_ir_wellformed_witness:
  "list_all table_wf [user_table, session_table] \<and> distinct (map t_TableID [user_table, session_table])
    \<and> map t_TableID [user_table, session_table] = map fnv1a64 (concat (map table_names [testmodels_proto]))"
  by (rule build_ir_wellformed [OF BuildIR_testmodels])

end
