(* ===== verification/SerializerGen.thy ===== *)
theory SerializerGen
  imports IR Store
begin

text \<open>
  The serializer generator (\<open>internal/codegen/serializer.go\<close>): the data it computes from a table, and
  the functions its template emits for that data, as interpreters of the data.  The emitted code of every
  accepted table round-trips, and for the tables of the test package it is the code of \<open>Models\<close>.
\<close>


section \<open>The data of the template\<close>

record serFieldInfo =
  sf_GoName :: string
  sf_GoType :: string
  sf_IsVarLen :: bool
  sf_FixedLen :: nat
  sf_Compress :: bool

record serializerData =
  sd_MessageName :: string
  sd_PackageName :: string
  sd_Fields :: "serFieldInfo list"
  sd_MinSize :: nat
  sd_HasTTL :: bool
  sd_HasFloat :: bool
  sd_HasVarLenField :: bool

definition fixedSize :: "FieldIR \<Rightarrow> nat" where
  "fixedSize f =
     (case fi_ProtoType f of
        TYPE_BOOL \<Rightarrow> 1
      | TYPE_INT32 \<Rightarrow> 4 | TYPE_UINT32 \<Rightarrow> 4 | TYPE_SINT32 \<Rightarrow> 4 | TYPE_FIXED32 \<Rightarrow> 4 | TYPE_SFIXED32 \<Rightarrow> 4
      | TYPE_FLOAT \<Rightarrow> 4 | TYPE_ENUM \<Rightarrow> 4
      | TYPE_INT64 \<Rightarrow> 8 | TYPE_UINT64 \<Rightarrow> 8 | TYPE_SINT64 \<Rightarrow> 8 | TYPE_FIXED64 \<Rightarrow> 8 | TYPE_SFIXED64 \<Rightarrow> 8
      | TYPE_DOUBLE \<Rightarrow> 8
      | TYPE_STRING \<Rightarrow> 0 | TYPE_BYTES \<Rightarrow> 0
      | _ \<Rightarrow> 0)"

text \<open>\<open>strings.Split\<close> on a one-byte separator, and \<open>strings.ToUpper\<close> of a first ASCII letter.\<close>

fun split_on :: "char \<Rightarrow> string \<Rightarrow> string list" where
  "split_on c [] = [[]]"
| "split_on c (x # s) =
     (if x = c then [] # split_on c s
      else (case split_on c s of [] \<Rightarrow> [[x]] | p # ps \<Rightarrow> (x # p) # ps))"

definition to_upper :: "char \<Rightarrow> char" where
  "to_upper c = (if (of_char c :: nat) \<in> {97..122} then char_of (of_char c - 32 :: nat) else c)"

fun upper_first :: "string \<Rightarrow> string" where
  "upper_first [] = []"
| "upper_first (c # p) = to_upper c # p"

definition toGoName :: "string \<Rightarrow> string" where
  "toGoName s = concat (map upper_first (split_on CHR ''_'' s))"

definition ser_field_info :: "string set \<Rightarrow> FieldIR \<Rightarrow> serFieldInfo" where
  "ser_field_info compressSet f =
     (let n = (if fi_IsRepeated f then 0 else fixedSize f)
      in \<lparr>sf_GoName = toGoName (fi_Name f), sf_GoType = fi_GoType f,
          sf_IsVarLen = (fi_IsRepeated f \<or> n = 0), sf_FixedLen = n,
          sf_Compress = (fi_Name f \<in> compressSet)\<rparr>)"

definition field_min :: "serFieldInfo \<Rightarrow> nat" where
  "field_min fi =
     (if sf_IsVarLen fi then 0 else sf_FixedLen fi) + (if sf_Compress fi \<and> sf_IsVarLen fi then 8 else 0)"

definition buildSerializerData :: "TableIR \<Rightarrow> serializerData" where
  "buildSerializerData table =
     (let compressSet = set (map fi_Name (t_CompressibleFields table));
          fields = map (ser_field_info compressSet) (t_Fields table)
      in \<lparr>sd_MessageName = t_MessageName table, sd_PackageName = t_GoPackage table, sd_Fields = fields,
          sd_MinSize = sum_list (map field_min fields), sd_HasTTL = t_HasTTL table,
          sd_HasFloat = list_ex (\<lambda>fi. sf_GoType fi = ''float32'' \<or> sf_GoType fi = ''float64'') fields,
          sd_HasVarLenField = list_ex sf_IsVarLen fields\<rparr>)"

section \<open>What the template emits\<close>

text \<open>
  The emitted functions, as the interpretation of the template's branches: one step per field of the data.
  A Go struct maps its field names to values; floating-point values stand for their bits, the signed integers
  for their two's complement.  \<open>None\<close> is a panic, or code that does not compile because the branch
  taken does not fit the field's type.
\<close>

datatype go_value = GBool bool | G32 "32 word" | G64 "64 word" | GBytes bytes

type_synonym go_struct = "string \<rightharpoonup> go_value"

definition w_fixed :: "nat \<Rightarrow> bytes \<Rightarrow> wstep" where
  "w_fixed fixedLen v st = map_option (\<lambda>b. (b, snd st + fixedLen)) (put_at (fst st) (snd st) v)"

definition w_stuck :: wstep where "w_stuck st = None"

definition ser_field :: "('p, 'b, 'i) platform \<Rightarrow> go_struct \<Rightarrow> serFieldInfo \<Rightarrow> wstep" where
  "ser_field E m f =
     (if sf_IsVarLen f
      then (case m (sf_GoName f) of
              Some (GBytes raw) \<Rightarrow> if sf_Compress f then w_compress E raw else w_varlen raw
            | _ \<Rightarrow> w_stuck)
      else if sf_GoType f = ''bool''
      then (case m (sf_GoName f) of
              Some (GBool b) \<Rightarrow> w_fixed (sf_FixedLen f) [if b then 1 else 0]
            | _ \<Rightarrow> w_stuck)
      else if sf_GoType f \<in> {''float32'', ''int32'', ''uint32''}
      then (case m (sf_GoName f) of
              Some (G32 v) \<Rightarrow> w_fixed (sf_FixedLen f) (put_le32 v)
            | _ \<Rightarrow> w_stuck)
      else if sf_GoType f \<in> {''float64'', ''int64'', ''uint64''}
      then (case m (sf_GoName f) of
              Some (G64 v) \<Rightarrow> w_fixed (sf_FixedLen f) (put_le64 v)
            | _ \<Rightarrow> w_stuck)
      else Some)"

text \<open>
  A compressible field declares \<open>raw\<close> and \<open>compressed\<close> in the body of the writer, and \<open>origLen\<close> in that
  of the reader; Go refuses to declare a name twice in one scope.
\<close>

definition declared :: "serializerData \<Rightarrow> string list" where
  "declared d =
     concat (map (\<lambda>f. if sf_IsVarLen f \<and> sf_Compress f then [''raw'', ''compressed'', ''origLen''] else []) (sd_Fields d))"

definition compiles :: "serializerData \<Rightarrow> bool" where
  "compiles d = distinct (declared d)"

fun bytes_of :: "go_value option \<Rightarrow> bytes" where
  "bytes_of (Some (GBytes v)) = v"
| "bytes_of _ = []"

definition gen_Size :: "serializerData \<Rightarrow> go_struct \<Rightarrow> nat" where
  "gen_Size d m =
     (if sd_HasTTL d then sd_MinSize d + 8 else sd_MinSize d)
     + sum_list (map (\<lambda>f. if sf_IsVarLen f then 4 + length (bytes_of (m (sf_GoName f))) else 0) (sd_Fields d))"

definition gen_SerializeWithExpiry ::
  "('p, 'b, 'i) platform \<Rightarrow> serializerData \<Rightarrow> 64 word \<Rightarrow> go_struct \<Rightarrow> bytes option" where
  "gen_SerializeWithExpiry E d expiresAt m =
     (if \<not> compiles d then None
      else map_option fst
        (w_all (w_u64 expiresAt # map (ser_field E m) (sd_Fields d)) (replicate (gen_Size d m) 0, 0)))"

definition gen_Serialize :: "('p, 'b, 'i) platform \<Rightarrow> serializerData \<Rightarrow> go_struct \<Rightarrow> bytes option" where
  "gen_Serialize E d m =
     (if sd_HasTTL d then gen_SerializeWithExpiry E d 0 m
      else if \<not> compiles d then None
      else map_option fst (w_all (map (ser_field E m) (sd_Fields d)) (replicate (gen_Size d m) 0, 0)))"

definition r_fixed :: "string \<Rightarrow> nat \<Rightarrow> (bytes \<Rightarrow> nat \<Rightarrow> go_value option) \<Rightarrow> go_value rstep" where
  "r_fixed field fixedLen get data off =
     (if length data < off + fixedLen then Some (Inl (truncated field))
      else map_option (\<lambda>v. Inr (v, off + fixedLen)) (get data off))"

definition get_bool :: "bytes \<Rightarrow> nat \<Rightarrow> go_value option" where
  "get_bool data off = map_option (\<lambda>b. GBool (b \<noteq> 0)) (byte_at data off)"

definition get_32 :: "bytes \<Rightarrow> nat \<Rightarrow> go_value option" where
  "get_32 data off = map_option G32 (Option.bind (slice_from data off) le32)"

definition get_64 :: "bytes \<Rightarrow> nat \<Rightarrow> go_value option" where
  "get_64 data off = map_option G64 (Option.bind (slice_from data off) le64)"

definition des_field ::
  "('p, 'b, 'i) platform \<Rightarrow> string \<Rightarrow> serFieldInfo \<Rightarrow> go_struct \<Rightarrow> go_struct rstep" where
  "des_field E message f m =
     (let name = message @ ''.'' @ sf_GoName f;
          store = (\<lambda>v. r_return (m(sf_GoName f \<mapsto> v)))
      in if sf_IsVarLen f
         then r_then (if sf_Compress f then r_compress E name else r_varlen name) (\<lambda>v. store (GBytes v))
         else if sf_GoType f = ''bool'' then r_then (r_fixed name (sf_FixedLen f) get_bool) store
         else if sf_GoType f \<in> {''float32'', ''int32'', ''uint32''}
         then r_then (r_fixed name (sf_FixedLen f) get_32) store
         else if sf_GoType f \<in> {''float64'', ''int64'', ''uint64''}
         then r_then (r_fixed name (sf_FixedLen f) get_64) store
         else r_return m)"

fun des_fields ::
  "('p, 'b, 'i) platform \<Rightarrow> string \<Rightarrow> serFieldInfo list \<Rightarrow> go_struct \<Rightarrow> go_struct rstep" where
  "des_fields E message [] m = r_return m"
| "des_fields E message (f # fs) m = r_then (des_field E message f m) (des_fields E message fs)"

text \<open>\<open>m := &T{}\<close>: every field has the zero value of its type.\<close>

definition zero_value :: "serFieldInfo \<Rightarrow> go_value" where
  "zero_value f =
     (if sf_GoType f = ''bool'' then GBool False
      else if sf_GoType f \<in> {''float32'', ''int32'', ''uint32''} then G32 0
      else if sf_GoType f \<in> {''float64'', ''int64'', ''uint64''} then G64 0
      else GBytes [])"

definition zero_struct :: "serFieldInfo list \<Rightarrow> go_struct" where
  "zero_struct fs = map_of (map (\<lambda>f. (sf_GoName f, zero_value f)) fs)"

definition too_short :: "serializerData \<Rightarrow> go_error" where
  "too_short d = ErrorMsg (''sqlitex: '' @ sd_MessageName d @ '' data too short'')"

definition gen_DeserializeMeta ::
  "('p, 'b, 'i) platform \<Rightarrow> serializerData \<Rightarrow> bytes \<Rightarrow> (go_error + go_struct \<times> 64 word) option" where
  "gen_DeserializeMeta E d data =
     (if \<not> compiles d then None
      else if length data < sd_MinSize d + 8 then Some (Inl (too_short d))
      else
        (case le64 data of
           None \<Rightarrow> None
         | Some expiresAt \<Rightarrow> map_option (map_sum id (\<lambda>r. (fst r, expiresAt)))
             (des_fields E (sd_MessageName d) (sd_Fields d) (zero_struct (sd_Fields d)) data 8)))"

definition gen_Deserialize ::
  "('p, 'b, 'i) platform \<Rightarrow> serializerData \<Rightarrow> bytes \<Rightarrow> (go_error + go_struct) option" where
  "gen_Deserialize E d data =
     (if sd_HasTTL d then map_option (map_sum id fst) (gen_DeserializeMeta E d data)
      else if \<not> compiles d then None
      else if length data < sd_MinSize d then Some (Inl (too_short d))
      else map_option (map_sum id fst)
             (des_fields E (sd_MessageName d) (sd_Fields d) (zero_struct (sd_Fields d)) data 0))"

section \<open>What a field writes and reads\<close>

abbreviation go32 :: "string set" where "go32 \<equiv> {''float32'', ''int32'', ''uint32''}"
abbreviation go64 :: "string set" where "go64 \<equiv> {''float64'', ''int64'', ''uint64''}"

text \<open>The length of a field fits its type.\<close>

definition field_ok :: "serFieldInfo \<Rightarrow> bool" where
  "field_ok f \<longleftrightarrow>
     (if sf_IsVarLen f then sf_GoType f \<in> {''string'', ''[]byte''} \<and> sf_FixedLen f = 0
      else sf_GoType f = ''bool'' \<and> sf_FixedLen f = 1 \<or> sf_GoType f \<in> go32 \<and> sf_FixedLen f = 4
         \<or> sf_GoType f \<in> go64 \<and> sf_FixedLen f = 8)"

lemma ser_field_info_ok:
  "\<not> fi_IsRepeated f \<Longrightarrow> protoTypeToGo (fi_ProtoType f) = Inr (fi_GoType f) \<Longrightarrow> field_ok (ser_field_info S f)"
  by (cases "fi_ProtoType f") (auto simp: ser_field_info_def field_ok_def fixedSize_def Let_def)

lemma buildSerializerData_ok: "fields_wf t \<Longrightarrow> f \<in> set (sd_Fields (buildSerializerData t)) \<Longrightarrow> field_ok f"
  by (auto simp: buildSerializerData_def Let_def fields_wf_def intro: ser_field_info_ok)

text \<open>The values of a field's type whose length fits the 32-bit prefix.\<close>

definition value_ok :: "serFieldInfo \<Rightarrow> go_value option \<Rightarrow> bool" where
  "value_ok f v \<longleftrightarrow>
     (case v of None \<Rightarrow> False
      | Some (GBytes b) \<Rightarrow> sf_IsVarLen f \<and> length b < 2 ^ 32
      | Some (GBool b) \<Rightarrow> \<not> sf_IsVarLen f \<and> sf_GoType f = ''bool''
      | Some (G32 w) \<Rightarrow> \<not> sf_IsVarLen f \<and> sf_GoType f \<in> go32
      | Some (G64 w) \<Rightarrow> \<not> sf_IsVarLen f \<and> sf_GoType f \<in> go64)"

definition struct_ok :: "serFieldInfo list \<Rightarrow> go_struct \<Rightarrow> bool" where
  "struct_ok fs m \<longleftrightarrow> dom m = set (map sf_GoName fs) \<and> (\<forall>f \<in> set fs. value_ok f (m (sf_GoName f)))"

fun field_bytes :: "('p, 'b, 'i) platform \<Rightarrow> serFieldInfo \<Rightarrow> go_value option \<Rightarrow> bytes" where
  "field_bytes E f (Some (GBool b)) = [if b then 1 else 0]"
| "field_bytes E f (Some (G32 v)) = put_le32 v"
| "field_bytes E f (Some (G64 v)) = put_le64 v"
| "field_bytes E f (Some (GBytes v)) = (if sf_Compress f then compress_bytes E v else varlen_bytes v)"
| "field_bytes E f None = []"

abbreviation struct_bytes :: "('p, 'b, 'i) platform \<Rightarrow> serFieldInfo list \<Rightarrow> go_struct \<Rightarrow> bytes" where
  "struct_bytes E fs m \<equiv> concat (map (\<lambda>f. field_bytes E f (m (sf_GoName f))) fs)"

lemma emits_fixed: "n = length v \<Longrightarrow> emits (w_fixed n v) v"
  by (simp add: emits_def w_fixed_def put_at_append)

lemma value_ok_cases:
  assumes "field_ok f" and "value_ok f v"
  obtains (bytes) b where "v = Some (GBytes b)" "sf_IsVarLen f" "length b < 2 ^ 32"
    | (bool) b where "v = Some (GBool b)" "\<not> sf_IsVarLen f" "sf_GoType f = ''bool''" "sf_FixedLen f = 1"
    | (g32) w where "v = Some (G32 w)" "\<not> sf_IsVarLen f" "sf_GoType f \<in> go32" "sf_FixedLen f = 4"
    | (g64) w where "v = Some (G64 w)" "\<not> sf_IsVarLen f" "sf_GoType f \<in> go64" "sf_FixedLen f = 8"
proof (cases v)
  case None
  with assms show thesis by (simp add: value_ok_def)
next
  case (Some x)
  with assms that show thesis by (cases x) (auto simp: value_ok_def field_ok_def)
qed

lemma emits_field:
  assumes "field_ok f" and "value_ok f (m (sf_GoName f))"
  shows "emits (ser_field E m f) (field_bytes E f (m (sf_GoName f)))"
  using assms
proof (cases rule: value_ok_cases)
  case bytes
  then show ?thesis by (simp add: ser_field_def emit_intros)
next
  case bool
  then show ?thesis by (simp add: ser_field_def emits_fixed)
next
  case g32
  then have "sf_GoType f \<noteq> ''bool''" by auto
  with g32 show ?thesis by (simp add: ser_field_def emits_fixed)
next
  case g64
  then have "sf_GoType f \<noteq> ''bool''" "sf_GoType f \<notin> go32" by auto
  with g64 show ?thesis by (simp add: ser_field_def emits_fixed)
qed

lemma parses_fixed:
  "(\<And>w z. get (w @ v @ z) (length w) = Some x) \<Longrightarrow> n = length v \<Longrightarrow> parses (r_fixed field n get) v x"
  by (simp add: parses_def r_fixed_def)

lemma get_parses:
  "get_bool (w @ [if b then 1 else 0] @ z) (length w) = Some (GBool b)"
  "get_32 (w @ put_le32 v32 @ z) (length w) = Some (G32 v32)"
  "get_64 (w @ put_le64 v64 @ z) (length w) = Some (G64 v64)"
  by (simp_all add: get_bool_def get_32_def get_64_def byte_at_def slice_from_def)

lemma parses_store: "parses f v x \<Longrightarrow> parses (r_then f (\<lambda>x. r_return (g x))) v (g x)"
  using parses_then [OF _ parses_return, of f v x "\<lambda>x. g x"] by simp

lemma parses_field:
  assumes "zstd_laws E" and "field_ok f" and "value_ok f v"
  shows "parses (des_field E message f m) (field_bytes E f v) (m(sf_GoName f := v))"
  using assms(2,3)
proof (cases rule: value_ok_cases)
  case (bytes b)
  with assms(1) show ?thesis
    by (auto simp: des_field_def Let_def intro!: parses_store [where g = "\<lambda>v. m(sf_GoName f \<mapsto> GBytes v)"] parse_intros)
next
  case (bool b)
  have "parses (r_then (r_fixed name 1 get_bool) (\<lambda>x. r_return (m(sf_GoName f \<mapsto> x))))
      [if b then 1 else 0] (m(sf_GoName f \<mapsto> GBool b))" for name
    by (rule parses_store, rule parses_fixed, rule get_parses) simp
  with bool show ?thesis by (cases b) (simp_all add: des_field_def Let_def)
next
  case (g32 w)
  then have "sf_GoType f \<noteq> ''bool''" by auto
  with g32 show ?thesis
    using parses_store [OF parses_fixed, of get_32 "put_le32 w" "G32 w" 4]
    by (simp add: des_field_def Let_def get_parses)
next
  case (g64 w)
  then have "sf_GoType f \<noteq> ''bool''" "sf_GoType f \<notin> go32" by auto
  with g64 show ?thesis
    using parses_store [OF parses_fixed, of get_64 "put_le64 w" "G64 w" 8]
    by (simp add: des_field_def Let_def get_parses)
qed

lemma parses_fields:
  assumes "zstd_laws E"
  shows "\<forall>f \<in> set fs. field_ok f \<and> value_ok f (m (sf_GoName f)) \<Longrightarrow>
    parses (des_fields E message fs m0) (struct_bytes E fs m)
      (\<lambda>n. if n \<in> set (map sf_GoName fs) then m n else m0 n)"
proof (induction fs arbitrary: m0)
  case Nil
  then show ?case using parses_return [of m0] by simp
next
  case (Cons f fs)
  let ?m1 = "m0(sf_GoName f := m (sf_GoName f))"
  have "parses (des_field E message f m0) (field_bytes E f (m (sf_GoName f))) ?m1"
    using Cons.prems assms by (intro parses_field) simp_all
  moreover have "parses (des_fields E message fs ?m1) (struct_bytes E fs m)
      (\<lambda>n. if n \<in> set (map sf_GoName fs) then m n else ?m1 n)"
    using Cons.prems by (intro Cons.IH) simp
  ultimately have "parses (des_fields E message (f # fs) m0)
      (field_bytes E f (m (sf_GoName f)) @ struct_bytes E fs m)
      (\<lambda>n. if n \<in> set (map sf_GoName fs) then m n else ?m1 n)"
    using parses_then by simp
  moreover have "(\<lambda>n. if n \<in> set (map sf_GoName fs) then m n else ?m1 n)
      = (\<lambda>n. if n \<in> set (map sf_GoName (f # fs)) then m n else m0 n)" by auto
  ultimately show ?case by simp
qed

lemma safe_fixed:
  assumes "\<And>data off. off + n \<le> length data \<Longrightarrow> \<exists>v. get data off = Some v"
  shows "safe (r_fixed field n get)"
  unfolding safe_alt
proof (intro allI impI)
  fix data :: bytes and off
  assume "off \<le> length data"
  then show "(\<exists>e. r_fixed field n get data off = Some (Inl e))
      \<or> (\<exists>x off'. r_fixed field n get data off = Some (Inr (x, off')) \<and> off' \<le> length data)"
    using assms [of off data] by (cases "length data < off + n") (auto simp: r_fixed_def)
qed

lemma get_total:
  "off + 1 \<le> length data \<Longrightarrow> \<exists>v. get_bool data off = Some v"
  "off + 4 \<le> length data \<Longrightarrow> \<exists>v. get_32 data off = Some v"
  "off + 8 \<le> length data \<Longrightarrow> \<exists>v. get_64 data off = Some v"
  using read32 [of off data] read64 [of off data]
  by (auto simp: get_bool_def get_32_def get_64_def byte_at_def)

lemma safe_field: "field_ok f \<Longrightarrow> safe (des_field E message f m)"
  by (auto simp: des_field_def Let_def field_ok_def
      intro!: safe_then safe_return safe_compress safe_varlen safe_fixed get_total)

lemma safe_fields: "\<forall>f \<in> set fs. field_ok f \<Longrightarrow> safe (des_fields E message fs m)"
  by (induction fs arbitrary: m) (auto intro!: safe_return safe_then safe_field)

section \<open>Sizes\<close>

lemma field_length:
  assumes "field_ok f" and "value_ok f v"
  shows "field_min f \<le> length (field_bytes E f v)
    \<and> length (field_bytes E f v) \<le> field_min f + (if sf_IsVarLen f then 4 + length (bytes_of v) else 0)"
  using assms
proof (cases rule: value_ok_cases)
  case (bytes b)
  have "8 \<le> length (compress_bytes E b)" by (simp add: compress_bytes_def Let_def)
  with bytes length_compress [of E b] show ?thesis by (simp add: field_min_def)
qed (auto simp: field_min_def)

lemma struct_length:
  "\<forall>f \<in> set fs. field_ok f \<and> value_ok f (m (sf_GoName f)) \<Longrightarrow>
    sum_list (map field_min fs) \<le> length (struct_bytes E fs m)
    \<and> length (struct_bytes E fs m) \<le> sum_list (map field_min fs)
      + sum_list (map (\<lambda>f. if sf_IsVarLen f then 4 + length (bytes_of (m (sf_GoName f))) else 0) fs)"
proof (induction fs)
  case (Cons f fs)
  with field_length [of f "m (sf_GoName f)" E] show ?case by auto
qed simp

lemma fields_emit:
  "\<forall>f \<in> set fs. field_ok f \<and> value_ok f (m (sf_GoName f)) \<Longrightarrow>
    list_all2 emits (map (ser_field E m) fs) (map (\<lambda>f. field_bytes E f (m (sf_GoName f))) fs)"
  by (auto simp: list_all2_map1 list_all2_map2 intro!: list.rel_refl_strong emits_field)

lemma gen_SerializeWithExpiry_eq:
  assumes "compiles d" "sd_HasTTL d" "sd_MinSize d = sum_list (map field_min (sd_Fields d))"
    and ok: "\<forall>f \<in> set (sd_Fields d). field_ok f \<and> value_ok f (m (sf_GoName f))"
  shows "\<exists>z. gen_SerializeWithExpiry E d e m = Some (put_le64 e @ struct_bytes E (sd_Fields d) m @ z)"
proof -
  have "emits (w_all (w_u64 e # map (ser_field E m) (sd_Fields d)))
      (concat (put_le64 e # map (\<lambda>f. field_bytes E f (m (sf_GoName f))) (sd_Fields d)))"
    using ok by (intro emits_all) (simp add: emit_intros fields_emit)
  moreover have "length (concat (put_le64 e # map (\<lambda>f. field_bytes E f (m (sf_GoName f))) (sd_Fields d))) \<le> gen_Size d m"
    using struct_length [OF ok, of E] assms(2,3) by (simp add: gen_Size_def)
  ultimately show ?thesis
    using assms(1) by (simp add: gen_SerializeWithExpiry_def emits_run)
qed

lemma gen_Serialize_eq:
  assumes "compiles d" "\<not> sd_HasTTL d" "sd_MinSize d = sum_list (map field_min (sd_Fields d))"
    and ok: "\<forall>f \<in> set (sd_Fields d). field_ok f \<and> value_ok f (m (sf_GoName f))"
  shows "\<exists>z. gen_Serialize E d m = Some (struct_bytes E (sd_Fields d) m @ z)"
proof -
  have "emits (w_all (map (ser_field E m) (sd_Fields d))) (struct_bytes E (sd_Fields d) m)"
    using ok by (intro emits_all fields_emit)
  moreover have "length (struct_bytes E (sd_Fields d) m) \<le> gen_Size d m"
    using struct_length [OF ok, of E] assms(2,3) by (simp add: gen_Size_def)
  ultimately show ?thesis
    using assms(1,2) by (simp add: gen_Serialize_def emits_run)
qed

lemma des_struct:
  assumes "zstd_laws E" and ok: "\<forall>f \<in> set fs. field_ok f \<and> value_ok f (m (sf_GoName f))"
    and dom: "dom m = set (map sf_GoName fs)"
  shows "\<exists>off. des_fields E message fs (zero_struct fs) (w @ struct_bytes E fs m @ z) (length w) = Some (Inr (m, off))"
proof -
  have "dom (zero_struct fs) = set (map sf_GoName fs)"
    by (simp add: zero_struct_def dom_map_of_conv_image_fst image_image)
  then have "zero_struct fs n = m n" if "n \<notin> set (map sf_GoName fs)" for n
    using that dom by (metis domIff)
  then have "(\<lambda>n. if n \<in> set (map sf_GoName fs) then m n else zero_struct fs n) = m"
    by (simp add: fun_eq_iff)
  with parses_run [OF parses_fields [OF assms(1) ok, where ?m0.0 = "zero_struct fs" and message = message], of w z]
  show ?thesis by simp
qed

lemma gen_roundtrip:
  assumes zstd: "zstd_laws E" and comp: "compiles d"
    and size: "sd_MinSize d = sum_list (map field_min (sd_Fields d))"
    and fields: "\<forall>f \<in> set (sd_Fields d). field_ok f" and m: "struct_ok (sd_Fields d) m"
  shows "(\<exists>data. gen_Serialize E d m = Some data \<and> gen_Deserialize E d data = Some (Inr m))
    \<and> (sd_HasTTL d \<longrightarrow> (\<exists>data. gen_SerializeWithExpiry E d e m = Some data
          \<and> gen_DeserializeMeta E d data = Some (Inr (m, e))))"
proof -
  have ok: "\<forall>f \<in> set (sd_Fields d). field_ok f \<and> value_ok f (m (sf_GoName f))"
    and dom: "dom m = set (map sf_GoName (sd_Fields d))"
    using fields m by (auto simp: struct_ok_def)
  note len = struct_length [OF ok, of E]
  have meta: "\<exists>data. gen_SerializeWithExpiry E d e m = Some data \<and> gen_DeserializeMeta E d data = Some (Inr (m, e))"
    if ttl: "sd_HasTTL d" for e
  proof -
    obtain z where z: "gen_SerializeWithExpiry E d e m = Some (put_le64 e @ struct_bytes E (sd_Fields d) m @ z)"
      using gen_SerializeWithExpiry_eq [OF comp ttl size ok] by blast
    obtain off where off: "des_fields E (sd_MessageName d) (sd_Fields d) (zero_struct (sd_Fields d))
        (put_le64 e @ struct_bytes E (sd_Fields d) m @ z) 8 = Some (Inr (m, off))"
      using des_struct [OF zstd ok dom, of "sd_MessageName d" "put_le64 e" z] by auto
    have "\<not> length (put_le64 e @ struct_bytes E (sd_Fields d) m @ z) < sd_MinSize d + 8"
      using len size by simp
    with z off comp show ?thesis by (simp add: gen_DeserializeMeta_def)
  qed
  have "\<exists>data. gen_Serialize E d m = Some data \<and> gen_Deserialize E d data = Some (Inr m)"
  proof (cases "sd_HasTTL d")
    case True
    with meta [of 0] show ?thesis by (auto simp: gen_Serialize_def gen_Deserialize_def)
  next
    case False
    then obtain z where z: "gen_Serialize E d m = Some (struct_bytes E (sd_Fields d) m @ z)"
      using gen_Serialize_eq [OF comp _ size ok] by blast
    obtain off where "des_fields E (sd_MessageName d) (sd_Fields d) (zero_struct (sd_Fields d))
        (struct_bytes E (sd_Fields d) m @ z) 0 = Some (Inr (m, off))"
      using des_struct [OF zstd ok dom, of "sd_MessageName d" "[]" z] by auto
    moreover have "\<not> length (struct_bytes E (sd_Fields d) m @ z) < sd_MinSize d" using len size by simp
    ultimately show ?thesis using z False comp by (simp add: gen_Deserialize_def)
  qed
  with meta show ?thesis by blast
qed

lemma gen_Deserialize_safe:
  assumes "compiles d" and fields: "\<forall>f \<in> set (sd_Fields d). field_ok f"
  shows "gen_Deserialize E d data \<noteq> None \<and> gen_DeserializeMeta E d data \<noteq> None"
proof -
  note safe = safe_fields [OF fields, where E = E and message = "sd_MessageName d" and m = "zero_struct (sd_Fields d)"]
  have run: "des_fields E (sd_MessageName d) (sd_Fields d) (zero_struct (sd_Fields d)) data off \<noteq> None"
    if "off \<le> length data" for off
    using safe that unfolding safe_def by (metis option.simps(4))
  have "length data < 8" if "le64 data = None" using that by (simp add: le64_def split: if_splits)
  with run [of 8] assms(1) have meta: "gen_DeserializeMeta E d data \<noteq> None"
    by (auto simp: gen_DeserializeMeta_def split: option.split)
  with run [of 0] assms(1) show ?thesis by (auto simp: gen_Deserialize_def)
qed

lemma declared_eq:
  "declared d = concat (map (\<lambda>_. [''raw'', ''compressed'', ''origLen'']) (filter (\<lambda>f. sf_IsVarLen f \<and> sf_Compress f) (sd_Fields d)))"
proof -
  have "concat (map (\<lambda>f. if P f then xs else []) fs) = concat (map (\<lambda>_. xs) (filter P fs))"
    for P and xs :: "string list" and fs :: "serFieldInfo list" by (induction fs) auto
  then show ?thesis by (simp add: declared_def)
qed

lemma compiles_iff: "compiles d \<longleftrightarrow> length (filter (\<lambda>f. sf_IsVarLen f \<and> sf_Compress f) (sd_Fields d)) \<le> 1"
proof -
  have "distinct (concat (map (\<lambda>_. [''raw'', ''compressed'', ''origLen'']) fs)) \<longleftrightarrow> length fs \<le> 1"
    for fs :: "serFieldInfo list" by (cases fs; cases "tl fs") auto
  then show ?thesis by (simp add: compiles_def declared_eq)
qed

section \<open>The test package\<close>

definition ser_info :: "string \<Rightarrow> string \<Rightarrow> nat \<Rightarrow> bool \<Rightarrow> serFieldInfo" where
  "ser_info name ty n c =
     \<lparr>sf_GoName = name, sf_GoType = ty, sf_IsVarLen = (n = 0), sf_FixedLen = n, sf_Compress = c\<rparr>"

lemma user_data:
  "buildSerializerData user_table =
     \<lparr>sd_MessageName = ''User'', sd_PackageName = ''testmodels'',
      sd_Fields = [ser_info ''Id'' ''int64'' 8 False, ser_info ''Name'' ''string'' 0 False,
        ser_info ''Email'' ''string'' 0 False, ser_info ''CreatedAt'' ''int64'' 8 False,
        ser_info ''Active'' ''bool'' 1 False, ser_info ''Bio'' ''string'' 0 True],
      sd_MinSize = 25, sd_HasTTL = False, sd_HasFloat = False, sd_HasVarLenField = True\<rparr>"
  by code_simp

lemma session_data:
  "buildSerializerData session_table =
     \<lparr>sd_MessageName = ''Session'', sd_PackageName = ''testmodels'',
      sd_Fields = [ser_info ''Id'' ''int64'' 8 False, ser_info ''Token'' ''string'' 0 False,
        ser_info ''UserId'' ''string'' 0 False, ser_info ''Active'' ''bool'' 1 False],
      sd_MinSize = 9, sd_HasTTL = True, sd_HasFloat = False, sd_HasVarLenField = True\<rparr>"
  by code_simp

definition user_struct :: "User \<Rightarrow> go_struct" where
  "user_struct m =
     [''Id'' \<mapsto> G64 (u_Id m), ''Name'' \<mapsto> GBytes (u_Name m), ''Email'' \<mapsto> GBytes (u_Email m),
      ''CreatedAt'' \<mapsto> G64 (u_CreatedAt m), ''Active'' \<mapsto> GBool (u_Active m), ''Bio'' \<mapsto> GBytes (u_Bio m)]"

definition session_struct :: "Session \<Rightarrow> go_struct" where
  "session_struct m =
     [''Id'' \<mapsto> G64 (s_Id m), ''Token'' \<mapsto> GBytes (s_Token m), ''UserId'' \<mapsto> GBytes (s_UserId m),
      ''Active'' \<mapsto> GBool (s_Active m)]"

lemma w_fixed_eqs:
  "w_fixed 8 (put_le64 v) = w_u64 v"
  "w_fixed (Suc 0) [if b then 1 else 0] = w_bool b"
  by (auto simp: fun_eq_iff w_fixed_def w_u64_def w_bool_def w_byte_def put_at_def set_at_def upd_conv_take_nth_drop)


text \<open>Reading a chain of fields, and renaming its result.\<close>

definition r_map :: "('a \<Rightarrow> 'b) \<Rightarrow> 'a rstep \<Rightarrow> 'b rstep" where
  "r_map h f data off = map_option (map_sum id (map_prod h id)) (f data off)"

lemma r_map_return: "r_map h (r_return x) = r_return (h x)"
  by (simp add: fun_eq_iff r_map_def r_return_def)

lemma r_map_then: "r_map h (r_then f g) = r_then f (\<lambda>x. r_map h (g x))"
  by (simp add: fun_eq_iff r_map_def r_then_def split: option.split sum.split)

lemma r_then_assoc: "r_then (r_then f g) h = r_then f (\<lambda>x. r_then (g x) h)"
  by (simp add: fun_eq_iff r_then_def split: option.split sum.split)

lemma r_then_return: "r_then (r_return x) g = g x"
  by (simp add: fun_eq_iff r_then_def r_return_def)

lemma r_fixed_eqs:
  "r_fixed field 8 get_64 = r_map G64 (r_u64 field)"
  "r_fixed field (Suc 0) get_bool = r_map GBool (r_bool field)"
  by (auto simp: fun_eq_iff r_fixed_def r_map_def r_u64_def r_bool_def get_64_def get_bool_def
      split: option.split Option.bind_split)

lemma r_then_map: "r_then (r_map h f) g = r_then f (\<lambda>x. g (h x))"
  by (simp add: fun_eq_iff r_then_def r_map_def split: option.split sum.split)

lemmas r_chain = r_map_return r_map_then r_then_assoc r_then_return r_then_map r_fixed_eqs

lemma user_des:
  "des_fields E ''User'' (sd_Fields (buildSerializerData user_table)) (zero_struct (sd_Fields (buildSerializerData user_table)))
   = r_map user_struct (r_then (r_u64 ''User.Id'') (\<lambda>i.
          r_then (r_varlen ''User.Name'') (\<lambda>n.
          r_then (r_varlen ''User.Email'') (\<lambda>e.
          r_then (r_u64 ''User.CreatedAt'') (\<lambda>c.
          r_then (r_bool ''User.Active'') (\<lambda>a.
          r_then (r_compress E ''User.Bio'') (\<lambda>b.
          r_return \<lparr>u_Id = i, u_Name = n, u_Email = e, u_CreatedAt = c, u_Active = a, u_Bio = b\<rparr>)))))))"
proof -
  have "(zero_struct (sd_Fields (buildSerializerData user_table)))
      (''Id'' \<mapsto> G64 i, ''Name'' \<mapsto> GBytes n, ''Email'' \<mapsto> GBytes e, ''CreatedAt'' \<mapsto> G64 c,
       ''Active'' \<mapsto> GBool a, ''Bio'' \<mapsto> GBytes b)
    = user_struct \<lparr>u_Id = i, u_Name = n, u_Email = e, u_CreatedAt = c, u_Active = a, u_Bio = b\<rparr>" for i n e c a b
    by (simp add: fun_eq_iff user_data ser_info_def zero_struct_def zero_value_def user_struct_def)
  then show ?thesis
    by (simp add: user_data ser_info_def des_field_def Let_def r_chain)
qed

lemma session_des:
  "des_fields E ''Session'' (sd_Fields (buildSerializerData session_table))
      (zero_struct (sd_Fields (buildSerializerData session_table)))
   = r_map session_struct (r_then (r_u64 ''Session.Id'') (\<lambda>i.
              r_then (r_varlen ''Session.Token'') (\<lambda>t.
              r_then (r_varlen ''Session.UserId'') (\<lambda>u.
              r_then (r_bool ''Session.Active'') (\<lambda>a.
              r_return \<lparr>s_Id = i, s_Token = t, s_UserId = u, s_Active = a\<rparr>)))))"
proof -
  have "(zero_struct (sd_Fields (buildSerializerData session_table)))
      (''Id'' \<mapsto> G64 i, ''Token'' \<mapsto> GBytes t, ''UserId'' \<mapsto> GBytes u, ''Active'' \<mapsto> GBool a)
    = session_struct \<lparr>s_Id = i, s_Token = t, s_UserId = u, s_Active = a\<rparr>" for i t u a
    by (simp add: fun_eq_iff session_data ser_info_def zero_struct_def zero_value_def session_struct_def)
  then show ?thesis
    by (simp add: session_data ser_info_def des_field_def Let_def r_chain)
qed

lemma user_compiles: "compiles (buildSerializerData user_table)"
  by (simp add: compiles_iff user_data ser_info_def)

lemma session_compiles: "compiles (buildSerializerData session_table)"
  by (simp add: compiles_iff session_data ser_info_def)

lemma user_gen_Serialize: "gen_Serialize E (buildSerializerData user_table) (user_struct m) = user_Serialize E m"
proof -
  have "gen_Size (buildSerializerData user_table) (user_struct m) = user_Size m"
    by (simp add: gen_Size_def user_Size_def user_data ser_info_def user_struct_def)
  moreover have "map (ser_field E (user_struct m)) (sd_Fields (buildSerializerData user_table))
      = [w_u64 (u_Id m), w_varlen (u_Name m), w_varlen (u_Email m), w_u64 (u_CreatedAt m),
         w_bool (u_Active m), w_compress E (u_Bio m)]"
    using w_fixed_eqs(2) by (simp add: user_data ser_info_def user_struct_def ser_field_def w_fixed_eqs)
  moreover have "\<not> sd_HasTTL (buildSerializerData user_table)" by (simp add: user_data)
  ultimately show ?thesis by (simp only: gen_Serialize_def user_Serialize_def user_compiles simp_thms if_False)
qed

lemma session_gen_Serialize:
  "gen_SerializeWithExpiry E (buildSerializerData session_table) e (session_struct m)
   = session_SerializeWithExpiry e m"
proof -
  have "gen_Size (buildSerializerData session_table) (session_struct m) = session_Size m"
    by (simp add: gen_Size_def session_Size_def session_data ser_info_def session_struct_def)
  moreover have "map (ser_field E (session_struct m)) (sd_Fields (buildSerializerData session_table))
      = [w_u64 (s_Id m), w_varlen (s_Token m), w_varlen (s_UserId m), w_bool (s_Active m)]"
    using w_fixed_eqs(2) by (simp add: session_data ser_info_def session_struct_def ser_field_def w_fixed_eqs)
  ultimately show ?thesis
    by (simp only: gen_SerializeWithExpiry_def session_SerializeWithExpiry_def session_compiles simp_thms if_False)
qed

lemma run_r_map:
  "map_option (map_sum id fst) (r_map h f data off)
   = map_option (map_sum id h) (map_option (map_sum id fst) (f data off))"
  by (simp add: r_map_def option.map_comp comp_def sum.map_comp)

lemma map_meta_r_map:
  "map_option (map_sum id (\<lambda>r. (fst r, t))) (r_map h f data off)
   = map_option (map_sum id (map_prod h id)) (map_option (map_sum id (\<lambda>r. (fst r, t))) (f data off))"
  by (simp add: r_map_def option.map_comp comp_def sum.map_comp)

lemma user_gen_Deserialize:
  "gen_Deserialize E (buildSerializerData user_table) data
   = map_option (map_sum id user_struct) (DeserializeUser E data)"
proof -
  have "sd_MessageName (buildSerializerData user_table) = ''User''" "sd_MinSize (buildSerializerData user_table) = 25"
    "\<not> sd_HasTTL (buildSerializerData user_table)" by (simp_all add: user_data)
  then show ?thesis
    by (simp add: gen_Deserialize_def user_compiles user_des run_r_map DeserializeUser_def too_short_def)
qed

lemma session_gen_DeserializeMeta:
  "gen_DeserializeMeta E (buildSerializerData session_table) data
   = map_option (map_sum id (map_prod session_struct id)) (DeserializeSessionMeta data)"
proof -
  have "sd_MessageName (buildSerializerData session_table) = ''Session''"
    "sd_MinSize (buildSerializerData session_table) = 9" by (simp_all add: session_data)
  then show ?thesis
    by (simp add: gen_DeserializeMeta_def session_compiles session_des map_meta_r_map DeserializeSessionMeta_def
        too_short_def split: option.split)
qed

lemma session_gen_Deserialize:
  "gen_Deserialize E (buildSerializerData session_table) data
   = map_option (map_sum id session_struct) (DeserializeSession data)"
proof -
  have "sd_HasTTL (buildSerializerData session_table)" by (simp add: session_data)
  then show ?thesis
    by (simp add: gen_Deserialize_def session_gen_DeserializeMeta DeserializeSession_def option.map_comp
        comp_def sum.map_comp)
qed

section \<open>Properties\<close>

lemma accepted_fields_ok:
  assumes "BuildIR files = Inr ts" and "t \<in> set ts"
  shows "\<forall>f \<in> set (sd_Fields (buildSerializerData t)). field_ok f"
    and "sd_MinSize (buildSerializerData t) = sum_list (map field_min (sd_Fields (buildSerializerData t)))"
proof -
  obtain st where "addFiles files (Map.empty, []) = Inr st" "ts = snd st"
    using assms(1) by (cases "addFiles files (Map.empty, [])") (auto simp: BuildIR_def)
  with addFiles_wf [of files "(Map.empty, [])" st] assms(2) have "fields_wf t"
    by (auto simp: ir_inv_def list_all_iff table_wf_def)
  then show "\<forall>f \<in> set (sd_Fields (buildSerializerData t)). field_ok f" by (simp add: buildSerializerData_ok)
  show "sd_MinSize (buildSerializerData t) = sum_list (map field_min (sd_Fields (buildSerializerData t)))"
    by (simp add: buildSerializerData_def Let_def)
qed

text \<open>
  C6. For every table the generator accepts, whatever its fields, the serializer it emits and the
  deserializer it emits are inverse: a record whose variable-length fields are shorter than \<open>2 ^ 32\<close>
  bytes serializes without a panic and comes back equal, and with a time to live so does its expiry time.
  The emitted deserializer returns a record or an error on every byte string.  (A table
  with two compressible fields is excepted: what is emitted for it does not compile.)
\<close>

theorem generated_serializers_roundtrip:
  assumes "BuildIR files = Inr ts" and "t \<in> set ts" and "zstd_laws E" and "d = buildSerializerData t"
    and "compiles d" and "struct_ok (sd_Fields d) m"
  shows "(\<exists>data. gen_Serialize E d m = Some data \<and> gen_Deserialize E d data = Some (Inr m))
    \<and> (t_HasTTL t \<longrightarrow> (\<exists>data. gen_SerializeWithExpiry E d e m = Some data
          \<and> gen_DeserializeMeta E d data = Some (Inr (m, e))))
    \<and> gen_Deserialize E d any \<noteq> None \<and> gen_DeserializeMeta E d any \<noteq> None"
proof -
  note ok = accepted_fields_ok [OF assms(1,2), folded assms(4)]
  have "sd_HasTTL d = t_HasTTL t" by (simp add: assms(4) buildSerializerData_def Let_def)
  with gen_roundtrip [OF assms(3,5) ok(2,1) assms(6)] gen_Deserialize_safe [OF assms(5) ok(1)] show ?thesis by simp
qed

text \<open>
  C17. The generated file of the test package is what the generator produces: from the descriptors of
  \<open>testmodels.proto\<close> \<open>BuildIR\<close> computes the two tables with the ids the stores use, the emitted
  functions of \<open>User\<close> and \<open>Session\<close> compile, and each is the function in the file, on every record and every
  byte string.
\<close>

theorem generator_reproduces_testmodels:
  "\<exists>u s. BuildIR [testmodels_proto] = Inr [u, s]
    \<and> t_TableID u = user_tableID \<and> t_TableID s = session_tableID
    \<and> map fi_Number (t_IndexedFields u) = [3, 4] \<and> map fi_Number (t_IndexedFields s) = [3]
    \<and> gen_Serialize E (buildSerializerData u) (user_struct m) = user_Serialize E m
    \<and> gen_Deserialize E (buildSerializerData u) data = map_option (map_sum id user_struct) (DeserializeUser E data)
    \<and> gen_SerializeWithExpiry E (buildSerializerData s) e (session_struct n) = session_SerializeWithExpiry e n
    \<and> gen_DeserializeMeta E (buildSerializerData s) data
        = map_option (map_sum id (map_prod session_struct id)) (DeserializeSessionMeta data)
    \<and> gen_Deserialize E (buildSerializerData s) data = map_option (map_sum id session_struct) (DeserializeSession data)"
proof -
  have ids: "t_TableID user_table = user_tableID" "t_TableID session_table = session_tableID"
    "map fi_Number (t_IndexedFields user_table) = [3, 4]" "map fi_Number (t_IndexedFields session_table) = [3]"
    by (simp_all add: user_table_def session_table_def user_tableID_def session_tableID_def Let_def)
  show ?thesis
    by (rule exI [of _ user_table], rule exI [of _ session_table])
       (simp only: BuildIR_testmodels ids user_gen_Serialize user_gen_Deserialize session_gen_Serialize
          session_gen_DeserializeMeta session_gen_Deserialize simp_thms)
qed

text \<open>
  Two compressible fields break the generated code: the emitted functions of an accepted table with
  distinct field names compile exactly when at most one field is compressible, since every such field
  declares the same local names; otherwise there is no serializer for any record.
\<close>

theorem one_compressible_field:
  assumes "BuildIR files = Inr ts" and "t \<in> set ts" and "distinct (map fi_Name (t_Fields t))"
  shows "(compiles (buildSerializerData t) \<longleftrightarrow> length (t_CompressibleFields t) \<le> 1)
    \<and> (2 \<le> length (t_CompressibleFields t) \<longrightarrow> gen_Serialize E (buildSerializerData t) m = None)"
proof -
  obtain st where st: "addFiles files (Map.empty, []) = Inr st" "ts = snd st"
    using assms(1) by (cases "addFiles files (Map.empty, [])") (auto simp: BuildIR_def)
  with addFiles_wf [of files "(Map.empty, [])" st] assms(2) have wf: "fields_wf t"
    by (auto simp: ir_inv_def list_all_iff table_wf_def)
  let ?P = "\<lambda>f. shouldCompress f (t_TableCompress t) (t_CompressThreshold t)"
  let ?S = "set (map fi_Name (t_CompressibleFields t))"
  have comp: "t_CompressibleFields t = filter ?P (t_Fields t)" using wf by (simp add: fields_wf_def)
  have in_S: "fi_Name f \<in> ?S \<longleftrightarrow> ?P f" if "f \<in> set (t_Fields t)" for f
    using that assms(3) by (auto simp: comp distinct_map inj_on_def)
  have vary: "sf_IsVarLen (ser_field_info S f)" if "?P f" for S f
    using that by (auto simp: shouldCompress_def ser_field_info_def fixedSize_def Let_def split: if_splits)
  have "filter (\<lambda>f. sf_IsVarLen f \<and> sf_Compress f) (sd_Fields (buildSerializerData t))
      = map (ser_field_info ?S) (filter ?P (t_Fields t))"
  proof -
    have "sf_Compress (ser_field_info ?S f) \<longleftrightarrow> fi_Name f \<in> ?S" for f by (simp add: ser_field_info_def Let_def)
    then have "filter (\<lambda>f. sf_IsVarLen (ser_field_info ?S f) \<and> sf_Compress (ser_field_info ?S f)) (t_Fields t)
        = filter ?P (t_Fields t)"
      using in_S vary by (intro filter_cong) auto
    then show ?thesis by (simp add: buildSerializerData_def Let_def filter_map comp_def)
  qed
  then have iff: "compiles (buildSerializerData t) \<longleftrightarrow> length (t_CompressibleFields t) \<le> 1"
    by (simp add: compiles_iff comp)
  then have "\<not> compiles (buildSerializerData t)" if "2 \<le> length (t_CompressibleFields t)" using that by simp
  with iff show ?thesis by (auto simp: gen_Serialize_def gen_SerializeWithExpiry_def)
qed

text \<open>Witnesses: the example user under the table of the test package; a table with two compressible fields.\<close>

theorem generated_serializers_roundtrip_witness:
  "\<exists>data. gen_Serialize mem_platform (buildSerializerData user_table) (user_struct example_user) = Some data
    \<and> gen_Deserialize mem_platform (buildSerializerData user_table) data = Some (Inr (user_struct example_user))"
proof -
  let ?d = "buildSerializerData user_table"
  have dom: "dom (user_struct example_user) = set (map sf_GoName (sd_Fields ?d))"
    by (auto simp: user_struct_def user_data ser_info_def)
  have "\<forall>f \<in> set (sd_Fields ?d). value_ok f (user_struct example_user (sf_GoName f))"
    by (simp add: user_data ser_info_def value_ok_def user_struct_def example_user_def)
  with dom have "struct_ok (sd_Fields ?d) (user_struct example_user)" by (simp only: struct_ok_def simp_thms)
  from generated_serializers_roundtrip [OF BuildIR_testmodels _ mem_zstd_laws refl user_compiles this]
  show ?thesis by simp
qed

definition letter_message :: MessageDescriptor where
  "letter_message =
     \<lparr>md_name = ''Letter'',
      md_fields = [plain_field ''id'' TYPE_UINT32 1, plain_field ''title'' TYPE_STRING 2, plain_field ''text'' TYPE_BYTES 3],
      md_table = Some (id_table\<lparr>to_compress := True\<rparr>)\<rparr>"

definition letter_proto :: FileDescriptor where
  "letter_proto = \<lparr>pf_package = '''', pf_go_package = ''letters'', pf_messages = [letter_message]\<rparr>"

lemma BuildIR_letter:
  "case BuildIR [letter_proto] of
     Inr [t] \<Rightarrow> map fi_Name (t_Fields t) = [''id'', ''title'', ''text''] \<and> length (t_CompressibleFields t) = 2
   | _ \<Rightarrow> False"
  by code_simp

theorem one_compressible_field_witness:
  "\<exists>t. BuildIR [letter_proto] = Inr [t] \<and> gen_Serialize mem_platform (buildSerializerData t) Map.empty = None"
proof -
  obtain t where t: "BuildIR [letter_proto] = Inr [t]" "map fi_Name (t_Fields t) = [''id'', ''title'', ''text'']"
    "length (t_CompressibleFields t) = 2"
    using BuildIR_letter by (simp split: sum.splits list.splits)
  have "distinct (map fi_Name (t_Fields t))" by (simp only: t(2)) simp
  from one_compressible_field [OF t(1) _ this, of mem_platform Map.empty] t(3)
  have "gen_Serialize mem_platform (buildSerializerData t) Map.empty = None" by (simp del: length_map)
  with t(1) show ?thesis by blast
qed

end
