(* ===== verification/Admin.thy ===== *)
theory Admin
  imports SerializerGen
begin

text \<open>
  The schema decoder of the admin panel (\<open>cmd/sqlitex-admin/schema.go\<close>, and \<open>printable\<close> of
  \<open>main.go\<close>): the import of a proto file, the physical keys and the rows as the panel shows them.  The
  parser of proto files, the text of floating-point numbers and the zstd decoder are parameters; dates stand
  for their instant.  A method of the schema store reads it under its lock, so a call is one step.
\<close>


section \<open>UTF-8\<close>

text \<open>
  \<open>utf8.DecodeRune\<close>: the rune and its size; an invalid byte is the rune \<open>0xFFFD\<close> of size 1.  The second
  byte of a sequence is in a range that depends on the first.
\<close>

definition cont_byte :: "byte \<Rightarrow> bool" where "cont_byte b = (0x80 \<le> b \<and> b \<le> 0xBF)"

definition second_range :: "byte \<Rightarrow> byte \<times> byte" where
  "second_range b =
     (if b = 0xE0 then (0xA0, 0xBF) else if b = 0xED then (0x80, 0x9F)
      else if b = 0xF0 then (0x90, 0xBF) else if b = 0xF4 then (0x80, 0x8F) else (0x80, 0xBF))"

definition rune_size :: "byte \<Rightarrow> nat" where
  "rune_size b =
     (if b < 0x80 then 1 else if 0xC2 \<le> b \<and> b \<le> 0xDF then 2 else if 0xE0 \<le> b \<and> b \<le> 0xEF then 3
      else if 0xF0 \<le> b \<and> b \<le> 0xF4 then 4 else 0)"

definition RuneError :: int where "RuneError = 0xFFFD"

definition rune_value :: "bytes \<Rightarrow> int" where
  "rune_value bs =
     (case map uint bs of
        [a] \<Rightarrow> a
      | [a, b] \<Rightarrow> (a mod 32) * 64 + b mod 64
      | [a, b, c] \<Rightarrow> (a mod 16) * 4096 + (b mod 64) * 64 + c mod 64
      | [a, b, c, d] \<Rightarrow> (a mod 8) * 262144 + (b mod 64) * 4096 + (c mod 64) * 64 + d mod 64
      | _ \<Rightarrow> RuneError)"

definition DecodeRune :: "bytes \<Rightarrow> int \<times> nat" where
  "DecodeRune bs =
     (case bs of
        [] \<Rightarrow> (RuneError, 0)
      | b # rest \<Rightarrow>
          (let n = rune_size b in
           if n = 1 then (uint b, 1)
           else if n = 0 \<or> length bs < n then (RuneError, 1)
           else
             (let lohi = second_range b; tail = take (n - 1) rest in
              if fst lohi \<le> hd tail \<and> hd tail \<le> snd lohi \<and> list_all cont_byte tail
              then (rune_value (b # tail), n)
              else (RuneError, 1))))"

lemma DecodeRune_size: "bs \<noteq> [] \<Longrightarrow> 1 \<le> snd (DecodeRune bs)"
  by (auto simp: DecodeRune_def Let_def rune_size_def split: list.split)

text \<open>\<open>for _, r := range string(b)\<close>: the runes with the bytes they stand in.\<close>

function runes :: "bytes \<Rightarrow> (int \<times> bytes) list" where
  "runes bs =
     (if bs = [] then []
      else (let (r, n) = DecodeRune bs in (r, take n bs) # runes (drop n bs)))"
  by pat_completeness auto
termination
proof (relation "measure length")
  fix bs x and r :: int and n :: nat
  assume "bs \<noteq> ([] :: bytes)" "x = DecodeRune bs" "(r, n) = x"
  moreover from this have "n = snd (DecodeRune bs)" by (metis snd_conv)
  ultimately show "(drop n bs, bs) \<in> measure length" using DecodeRune_size [of bs] by (cases bs) auto
qed simp

declare runes.simps [simp del]

definition hex_digit :: "nat \<Rightarrow> byte" where
  "hex_digit n = (if n < 10 then word_of_nat (48 + n) else word_of_nat (87 + n))"

definition hex_byte :: "byte \<Rightarrow> bytes" where
  "hex_byte b = [hex_digit (unat b div 16), hex_digit (unat b mod 16)]"

text \<open>
  \<open>printable\<close>: a rune is written back as the bytes it stands in; \<open>\x\<close> and two hexadecimal digits replace an
  invalid byte or a control character.
\<close>

definition show_rune :: "int \<times> bytes \<Rightarrow> bytes" where
  "show_rune x =
     (case x of (r, bs) \<Rightarrow>
        if r = RuneError \<and> length bs \<le> 1 \<or> r < 0x20 \<or> r = 0x7F
        then 0x5C # 0x78 # hex_byte (hd bs) else bs)"

definition printable :: "bytes \<Rightarrow> bytes" where
  "printable b = concat (map show_rune (runes b))"

definition utf8Clean :: "bytes \<Rightarrow> bool" where
  "utf8Clean b =
     list_all (\<lambda>(r, _). \<not> (r = RuneError \<or> r < 0x20 \<and> r \<noteq> 10 \<and> r \<noteq> 9 \<and> r \<noteq> 13)) (runes b)"

definition maxFieldValueLen :: nat where "maxFieldValueLen = 256"

definition previewBytes :: "bytes \<Rightarrow> bytes" where
  "previewBytes b =
     (if utf8Clean b
      then (if maxFieldValueLen < length b then take maxFieldValueLen b @ [0xE2, 0x80, 0xA6] else b)
      else printable b)"

section \<open>The imported schema\<close>

record fieldSchema =
  fs_Name :: string
  fs_Type :: string
  fs_Index :: string
  fs_Compress :: bool
  fs_Repeated :: bool
  fs_Primary :: bool
  fs_fieldNum :: "32 word"
  fs_protoType :: proto_type

record tableSchema =
  ts_TableID :: "64 word"
  ts_Message :: string
  ts_PKName :: string
  ts_PKType :: string
  ts_HasTTL :: bool
  ts_TTL :: "64 word option"
  ts_Fields :: "fieldSchema list"
  ts_byFieldNum :: "32 word \<rightharpoonup> nat"
  ts_pkProto :: proto_type

definition field_schema :: "FieldIR \<Rightarrow> fieldSchema" where
  "field_schema f =
     \<lparr>fs_Name = fi_GoName f, fs_Type = fi_GoType f,
      fs_Index = (case fi_Index f of INDEX_UNIQUE \<Rightarrow> ''unique'' | INDEX_NORMAL \<Rightarrow> ''normal'' | INDEX_NONE \<Rightarrow> ''none''),
      fs_Compress = fi_Compress f, fs_Repeated = fi_IsRepeated f, fs_Primary = fi_IsPrimaryKey f,
      fs_fieldNum = fi_Number f, fs_protoType = fi_ProtoType f\<rparr>"

text \<open>\<open>byFieldNum\<close> after the loop; of two fields with one number the later wins.\<close>

definition by_field_num :: "FieldIR list \<Rightarrow> (32 word \<rightharpoonup> nat)" where
  "by_field_num fs = fold (\<lambda>(i, f) m. m(fi_Number f \<mapsto> i)) (enumerate 0 fs) Map.empty"

text \<open>\<open>None\<close>: the table has no primary key, a nil dereference.\<close>

definition buildTableSchema :: "TableIR \<Rightarrow> tableSchema option" where
  "buildTableSchema t =
     (case t_PrimaryKey t of
        None \<Rightarrow> None
      | Some pk \<Rightarrow>
          Some \<lparr>ts_TableID = t_TableID t, ts_Message = t_MessageName t, ts_PKName = fi_GoName pk,
            ts_PKType = fi_GoType pk, ts_HasTTL = t_HasTTL t, ts_TTL = (if t_HasTTL t then Some (t_TTL t) else None),
            ts_Fields = map field_schema (t_Fields t), ts_byFieldNum = by_field_num (t_Fields t),
            ts_pkProto = fi_ProtoType pk\<rparr>)"

record schemaStore =
  ss_source :: string
  ss_tables :: "64 word \<rightharpoonup> tableSchema"
  ss_list :: "tableSchema list"

definition newSchemaStore :: schemaStore where
  "newSchemaStore = \<lparr>ss_source = '''', ss_tables = Map.empty, ss_list = []\<rparr>"

definition ss_clear :: "schemaStore \<Rightarrow> schemaStore" where "ss_clear s = newSchemaStore"

definition ss_snapshot :: "schemaStore \<Rightarrow> string \<times> tableSchema list" where
  "ss_snapshot s = (ss_source s, ss_list s)"

text \<open>
  A parsed file: its name, the files it imports, its descriptor.  The parser is a parameter of
  \<open>importProto\<close>; \<open>collect\<close> is its closure over the imports, each file once and after its imports.
\<close>

datatype file_desc = FileDesc (fd_file: string) (fd_deps: "file_desc list") (fd_proto: FileDescriptor)

type_synonym collected = "string set \<times> FileDescriptor list"

fun collect_file :: "string \<Rightarrow> file_desc \<Rightarrow> collected \<Rightarrow> collected" where
  "collect_file filename (FileDesc name deps proto) st =
     (if name \<in> fst st then st
      else
        (let st' = fold (collect_file filename) deps (insert name (fst st), snd st)
         in if name \<noteq> filename then (fst st', snd st' @ [proto]) else st'))"

definition collect_parsed :: "string \<Rightarrow> file_desc list \<Rightarrow> FileDescriptor list" where
  "collect_parsed filename parsed =
     snd (fold (\<lambda>fd st.
        (let st' = collect_file filename fd st
         in if fd_file fd = filename then (fst st', snd st' @ [fd_proto fd]) else st')) parsed ({}, []))"

definition importProto ::
  "(string \<Rightarrow> bytes \<Rightarrow> go_error + file_desc list) \<Rightarrow> string \<Rightarrow> bytes \<Rightarrow> schemaStore
    \<Rightarrow> (schemaStore \<times> go_error option) option" where
  "importProto parse filename src s =
     (case parse filename src of
        Inl err \<Rightarrow> Some (s, Some (ErrorWrap ''parse proto: '' err))
      | Inr parsed \<Rightarrow>
          (case BuildIR (collect_parsed filename parsed) of
             Inl err \<Rightarrow> Some (s, Some err)
           | Inr tables \<Rightarrow>
               (let built = map buildTableSchema tables in
                if None \<in> set built then None
                else
                  (let l = map the built in
                   Some (\<lparr>ss_source = filename,
                          ss_tables = fold (\<lambda>ts m. m(ts_TableID ts \<mapsto> ts)) l Map.empty, ss_list = l\<rparr>, None)))))"

section \<open>Keys\<close>

definition ss_table :: "64 word \<Rightarrow> schemaStore \<Rightarrow> tableSchema option" where
  "ss_table i s = ss_tables s i"

definition table_hash :: "bytes \<Rightarrow> 64 word option" where
  "table_hash raw = Option.bind (slice raw 1 9) be64"

definition tableOf :: "bytes \<Rightarrow> schemaStore \<Rightarrow> tableSchema option option" where
  "tableOf raw s =
     (if length raw < 9 \<or> raw ! 0 \<noteq> 0x00 then Some None else map_option (\<lambda>h. ss_table h s) (table_hash raw))"

definition tableOfIndex :: "bytes \<Rightarrow> schemaStore \<Rightarrow> tableSchema option option" where
  "tableOfIndex raw s =
     (if length raw < 9 \<or> raw ! 0 \<noteq> 0xFF then Some None else map_option (\<lambda>h. ss_table h s) (table_hash raw))"

datatype any_value = AString bytes | AInt64 "64 word" | AUint64 "64 word" | AInt32 "32 word" | AUint32 "32 word"

record decodedKey =
  dk_Kind :: string
  dk_Table :: string
  dk_PK :: "any_value option"
  dk_IndexField :: string
  dk_IndexValue :: "any_value option"

definition unknown_key :: decodedKey where
  "unknown_key = \<lparr>dk_Kind = ''unknown'', dk_Table = '''', dk_PK = None, dk_IndexField = '''', dk_IndexValue = None\<rparr>"

definition decodePK :: "tableSchema \<Rightarrow> bytes \<Rightarrow> any_value option" where
  "decodePK ts b =
     (if ts_PKType ts = ''string'' then Some (AString b)
      else if ts_PKType ts = ''int64'' \<and> length b = 8 then map_option AInt64 (DecodeOrderedInt64 b)
      else if ts_PKType ts = ''uint64'' \<and> length b = 8 then map_option AUint64 (DecodeOrderedUint64 b)
      else if ts_PKType ts = ''int32'' \<and> length b = 4 then map_option AInt32 (DecodeOrderedInt32 b)
      else if ts_PKType ts = ''uint32'' \<and> length b = 4 then map_option AUint32 (DecodeOrderedUint32 b)
      else if b = [] then Some (AString [])
      else Some (AString (printable b)))"

definition decodeScalarByType :: "proto_type \<Rightarrow> bytes \<Rightarrow> any_value option" where
  "decodeScalarByType t b =
     (if t = TYPE_STRING then Some (AString b)
      else if t \<in> {TYPE_INT64, TYPE_UINT64, TYPE_SINT64, TYPE_FIXED64, TYPE_SFIXED64} \<and> length b = 8
      then map_option AInt64 (le64 b)
      else if t \<in> {TYPE_INT32, TYPE_UINT32, TYPE_SINT32, TYPE_FIXED32, TYPE_SFIXED32, TYPE_ENUM} \<and> length b = 4
      then map_option AInt32 (le32 b)
      else Some (AString (printable b)))"

text \<open>\<open>None\<close> is a panic.\<close>

definition decode_index_key :: "bytes \<Rightarrow> schemaStore \<Rightarrow> decodedKey option" where
  "decode_index_key raw s = do {
     tableHash \<leftarrow> table_hash raw;
     (case ss_table tableHash s of
        None \<Rightarrow> Some (unknown_key\<lparr>dk_Kind := ''index''\<rparr>)
      | Some ts \<Rightarrow>
          (let d = unknown_key\<lparr>dk_Kind := ''index'', dk_Table := ts_Message ts\<rparr> in
           if length raw < 10 then Some (d\<lparr>dk_Kind := ''unknown''\<rparr>)
           else do {
             fb \<leftarrow> byte_at raw 9;
             rest \<leftarrow> slice_from raw 10;
             (let (vLen, nVal) = uvarint rest in
              if nVal \<le> 0 \<or> length rest - nat nVal < vLen then Some (d\<lparr>dk_Kind := ''unknown''\<rparr>)
              else do {
                fieldValue \<leftarrow> slice rest (nat nVal) (nat nVal + vLen);
                (case ts_byFieldNum ts (ucast fb) of
                   None \<Rightarrow> Some (d\<lparr>dk_IndexValue := Some (AString (printable fieldValue))\<rparr>)
                 | Some idx \<Rightarrow>
                     if idx < length (ts_Fields ts)
                     then do {
                       v \<leftarrow> decodeScalarByType (fs_protoType (ts_Fields ts ! idx)) fieldValue;
                       Some (d\<lparr>dk_IndexField := fs_Name (ts_Fields ts ! idx), dk_IndexValue := Some v\<rparr>)
                     }
                     else None)
              })
           }))
   }"

definition ss_decodeKey :: "bytes \<Rightarrow> schemaStore \<Rightarrow> decodedKey option" where
  "ss_decodeKey raw s =
     (if length raw < 9 then Some unknown_key
      else if raw ! 0 = 0xFF then decode_index_key raw s
      else if raw ! 0 \<noteq> 0x00 then Some unknown_key
      else do {
        tableHash \<leftarrow> table_hash raw;
        (case ss_table tableHash s of
           None \<Rightarrow> Some unknown_key
         | Some ts \<Rightarrow> do {
             b \<leftarrow> slice_from raw 9;
             pk \<leftarrow> decodePK ts b;
             Some (unknown_key\<lparr>dk_Kind := ''data'', dk_Table := ts_Message ts, dk_PK := Some pk\<rparr>)
           })
      })"

section \<open>Values\<close>

definition fixedProtoSize :: "proto_type \<Rightarrow> nat" where
  "fixedProtoSize t =
     (if t = TYPE_BOOL then 1
      else if t \<in> {TYPE_INT32, TYPE_UINT32, TYPE_SINT32, TYPE_FIXED32, TYPE_SFIXED32, TYPE_FLOAT, TYPE_ENUM} then 4
      else if t \<in> {TYPE_INT64, TYPE_UINT64, TYPE_SINT64, TYPE_FIXED64, TYPE_SFIXED64, TYPE_DOUBLE} then 8
      else 0)"

definition decodeFixed :: "float_texts \<Rightarrow> proto_type \<Rightarrow> bytes \<Rightarrow> bytes option" where
  "decodeFixed F t b =
     (case t of
        TYPE_BOOL \<Rightarrow> map_option (\<lambda>x. if x \<noteq> 0 then str_bytes ''true'' else str_bytes ''false'') (byte_at b 0)
      | TYPE_FLOAT \<Rightarrow> map_option (ft_float32 F) (le32 b)
      | TYPE_DOUBLE \<Rightarrow> map_option (ft_float64 F) (le64 b)
      | TYPE_INT64 \<Rightarrow> map_option (\<lambda>w. show_int (sint w)) (le64 b)
      | TYPE_SINT64 \<Rightarrow> map_option (\<lambda>w. show_int (sint w)) (le64 b)
      | TYPE_SFIXED64 \<Rightarrow> map_option (\<lambda>w. show_int (sint w)) (le64 b)
      | TYPE_UINT64 \<Rightarrow> map_option (\<lambda>w. show_nat (unat w)) (le64 b)
      | TYPE_FIXED64 \<Rightarrow> map_option (\<lambda>w. show_nat (unat w)) (le64 b)
      | TYPE_INT32 \<Rightarrow> map_option (\<lambda>w. show_int (sint w)) (le32 b)
      | TYPE_SINT32 \<Rightarrow> map_option (\<lambda>w. show_int (sint w)) (le32 b)
      | TYPE_SFIXED32 \<Rightarrow> map_option (\<lambda>w. show_int (sint w)) (le32 b)
      | TYPE_ENUM \<Rightarrow> map_option (\<lambda>w. show_int (sint w)) (le32 b)
      | TYPE_UINT32 \<Rightarrow> map_option (\<lambda>w. show_nat (unat w)) (le32 b)
      | TYPE_FIXED32 \<Rightarrow> map_option (\<lambda>w. show_nat (unat w)) (le32 b)
      | _ \<Rightarrow> Some (printable b))"

text \<open>The text, the new offset and whether the text was cut.\<close>

definition decodeOneField ::
  "('p, 'b, 'i) platform \<Rightarrow> float_texts \<Rightarrow> fieldSchema \<Rightarrow> (bytes \<times> bool) rstep" where
  "decodeOneField E F f data off =
     (let size = fixedProtoSize (fs_protoType f) in
      if \<not> fs_Repeated f \<and> \<not> fs_Compress f \<and> 0 < size
      then (if length data < off + size then Some (Inl (ErrorMsg ''need more bytes''))
            else do {
              b \<leftarrow> slice data off (off + size);
              v \<leftarrow> decodeFixed F (fs_protoType f) b;
              Some (Inr ((v, False), off + size))
            })
      else if length data < off + 4 then Some (Inl (ErrorMsg ''length prefix truncated''))
      else do {
        d \<leftarrow> slice_from data off;
        n \<leftarrow> le32 d;
        (let vLen = unat n; off = off + 4 in
         if fs_Compress f
         then
           (if length data < off + 4 then Some (Inl (ErrorMsg ''compress header truncated''))
            else do {
              d2 \<leftarrow> slice_from data off;
              m \<leftarrow> le32 d2;
              (let origLen = unat m; off = off + 4 in
               if length data < off + vLen then Some (Inl (ErrorMsg ''data truncated''))
               else do {
                 raw \<leftarrow> slice data off (off + vLen);
                 (case (if vLen \<noteq> origLen then zstd_Decompress E raw else Inr raw) of
                    Inl err \<Rightarrow> Some (Inl (ErrorWrap ''zstd: '' err))
                  | Inr raw \<Rightarrow> Some (Inr ((previewBytes raw, maxFieldValueLen < length raw), off + vLen)))
               })
            })
         else if length data < off + vLen then Some (Inl (ErrorMsg ''data truncated''))
         else do {
           raw \<leftarrow> slice data off (off + vLen);
           Some (Inr ((previewBytes raw, maxFieldValueLen < vLen), off + vLen))
         })
      })"

text \<open>\<open>df_Value\<close> is \<open>Inl err\<close> for the text that reports the failure \<open>err\<close>.  An expiry time is shown as a date.\<close>

record decodedField =
  df_Name :: string
  df_Type :: string
  df_Value :: "go_error + bytes"
  df_Truncated :: bool

record decodedValue =
  dv_Fields :: "decodedField list"
  dv_ExpiresAt :: "64 word option"
  dv_Expired :: bool

fun decode_fields ::
  "('p, 'b, 'i) platform \<Rightarrow> float_texts \<Rightarrow> fieldSchema list \<Rightarrow> bytes \<Rightarrow> nat \<Rightarrow> decodedField list option" where
  "decode_fields E F [] data off = Some []"
| "decode_fields E F (f # fs) data off =
     (case decodeOneField E F f data off of
        None \<Rightarrow> None
      | Some (Inl err) \<Rightarrow>
          Some [\<lparr>df_Name = fs_Name f, df_Type = fs_Type f, df_Value = Inl err, df_Truncated = False\<rparr>]
      | Some (Inr ((val, trunc), off')) \<Rightarrow>
          map_option ((#) \<lparr>df_Name = fs_Name f, df_Type = fs_Type f, df_Value = Inr val, df_Truncated = trunc\<rparr>)
            (decode_fields E F fs data off'))"

definition ss_decodeValue ::
  "('p, 'b, 'i) platform \<Rightarrow> float_texts \<Rightarrow> 64 word \<Rightarrow> tableSchema \<Rightarrow> bytes \<Rightarrow> decodedValue option" where
  "ss_decodeValue E F now ts data =
     (let dv = \<lparr>dv_Fields = [], dv_ExpiresAt = None, dv_Expired = False\<rparr> in
      if ts_HasTTL ts
      then (if length data < 8 then Some dv
            else do {
              e \<leftarrow> le64 data;
              let dv = (if 0 <s e then dv\<lparr>dv_ExpiresAt := Some e, dv_Expired := e <s now\<rparr> else dv);
              fields \<leftarrow> decode_fields E F (ts_Fields ts) data 8;
              Some (dv\<lparr>dv_Fields := fields\<rparr>)
            })
      else map_option (\<lambda>fields. dv\<lparr>dv_Fields := fields\<rparr>) (decode_fields E F (ts_Fields ts) data 0))"

definition encodeDataKeyPrefix :: "64 word \<Rightarrow> bytes" where
  "encodeDataKeyPrefix tableHash = 0x00 # put_be64 tableHash"

section \<open>What a decoded field shows\<close>

text \<open>The text of a field's value.\<close>

definition signed_types :: "proto_type set" where
  "signed_types = {TYPE_INT64, TYPE_SINT64, TYPE_SFIXED64, TYPE_INT32, TYPE_SINT32, TYPE_SFIXED32, TYPE_ENUM}"

fun value_text :: "float_texts \<Rightarrow> proto_type \<Rightarrow> go_value \<Rightarrow> bytes" where
  "value_text F ty (GBool b) = str_bytes (if b then ''true'' else ''false'')"
| "value_text F ty (G32 w) =
     (if ty = TYPE_FLOAT then ft_float32 F w else if ty \<in> signed_types then show_int (sint w) else show_nat (unat w))"
| "value_text F ty (G64 w) =
     (if ty = TYPE_DOUBLE then ft_float64 F w else if ty \<in> signed_types then show_int (sint w) else show_nat (unat w))"
| "value_text F ty (GBytes b) = previewBytes b"

definition value_cut :: "go_value \<Rightarrow> bool" where
  "value_cut v = (case v of GBytes b \<Rightarrow> maxFieldValueLen < length b | _ \<Rightarrow> False)"

definition field_shown :: "float_texts \<Rightarrow> FieldIR \<Rightarrow> go_value \<Rightarrow> decodedField" where
  "field_shown F f v =
     \<lparr>df_Name = fi_GoName f, df_Type = fi_GoType f, df_Value = Inr (value_text F (fi_ProtoType f) v), df_Truncated = value_cut v\<rparr>"

text \<open>The decoder reads the field option for compression; the serializer compresses what the table says.\<close>

definition compress_agrees :: "TableIR \<Rightarrow> bool" where
  "compress_agrees t \<longleftrightarrow>
     (\<forall>f \<in> set (t_Fields t). fi_Compress f \<longleftrightarrow> fi_Name f \<in> set (map fi_Name (t_CompressibleFields t)))
   \<and> (\<forall>f \<in> set (t_Fields t). fi_Compress f \<longrightarrow> fi_ProtoType f \<in> {TYPE_STRING, TYPE_BYTES})"

lemma field_schema_simps [simp]:
  "fs_Name (field_schema f) = fi_GoName f" "fs_Type (field_schema f) = fi_GoType f"
  "fs_protoType (field_schema f) = fi_ProtoType f" "fs_Compress (field_schema f) = fi_Compress f"
  "fs_Repeated (field_schema f) = fi_IsRepeated f"
  by (simp_all add: field_schema_def)

lemma decodeOneField_parses:
  assumes zstd: "zstd_laws E"
    and ir: "\<not> fi_IsRepeated f" "protoTypeToGo (fi_ProtoType f) = Inr (fi_GoType f)"
    and comp: "fi_Compress f \<longleftrightarrow> fi_Name f \<in> S" "fi_Compress f \<longrightarrow> fi_ProtoType f \<in> {TYPE_STRING, TYPE_BYTES}"
    and v: "value_ok (ser_field_info S f) (Some v)"
  shows "parses (decodeOneField E F (field_schema f)) (field_bytes E (ser_field_info S f) (Some v))
    (value_text F (fi_ProtoType f) v, value_cut v)"
proof (cases v)
  case (GBytes b)
  have var: "fixedProtoSize (fi_ProtoType f) = 0" and len: "length b < 4294967296"
    using v ir by (cases "fi_ProtoType f"; simp add: GBytes value_ok_def ser_field_info_def fixedSize_def fixedProtoSize_def Let_def)+
  have c: "sf_Compress (ser_field_info S f) = fi_Compress f" by (simp add: ser_field_info_def Let_def comp(1))
  show ?thesis
  proof (cases "fi_Compress f")
    case True
    let ?c = "zstd_Compress E b"
    let ?d = "if length ?c < length b then ?c else b"
    have d: "length ?d < 4294967296" using len by auto
    have dec: "zstd_Decompress E ?c = Inr b" using zstd by (simp add: zstd_laws_def)
    have "decodeOneField E F (field_schema f)
        (w @ (put_le32 (word_of_nat (length ?d)) @ put_le32 (word_of_nat (length b)) @ ?d) @ z) (length w)
      = Some (Inr ((previewBytes b, maxFieldValueLen < length b), length w + 8 + length ?d))" for w z
      using d len dec True var
      by (auto simp: decodeOneField_def field_schema_def slice_from_def slice_def unat32_of_nat drop_append Let_def)
    with True c show ?thesis by (simp add: parses_def GBytes compress_bytes_def Let_def value_cut_def)
  next
    case False
    with var len c show ?thesis
      by (simp add: parses_def GBytes varlen_bytes_def value_cut_def decodeOneField_def field_schema_def slice_from_def slice_def
          unat32_of_nat Let_def)
  qed
next
  case (GBool b)
  then have "fi_ProtoType f = TYPE_BOOL"
    using v ir by (cases "fi_ProtoType f"; simp add: value_ok_def ser_field_info_def fixedSize_def Let_def)
  with ir comp GBool show ?thesis
    by (cases b) (auto simp: parses_def decodeOneField_def field_schema_def fixedProtoSize_def decodeFixed_def slice_def
        byte_at_def value_cut_def str_bytes_def)
next
  case (G32 w)
  have "le32 (put_le32 w) = Some w" using le32_put [of w "[]"] by simp
  with G32 v ir comp show ?thesis
    by (cases "fi_ProtoType f")
       (auto simp: value_ok_def ser_field_info_def fixedSize_def Let_def parses_def decodeOneField_def field_schema_def
          fixedProtoSize_def decodeFixed_def slice_def value_cut_def signed_types_def)
next
  case (G64 w)
  have "le64 (put_le64 w) = Some w" using le64_put [of w "[]"] by simp
  with G64 v ir comp show ?thesis
    by (cases "fi_ProtoType f")
       (auto simp: value_ok_def ser_field_info_def fixedSize_def Let_def parses_def decodeOneField_def field_schema_def
          fixedProtoSize_def decodeFixed_def slice_def value_cut_def signed_types_def)
qed

definition row_shown :: "float_texts \<Rightarrow> FieldIR list \<Rightarrow> go_struct \<Rightarrow> decodedField list" where
  "row_shown F fs m = map (\<lambda>f. field_shown F f (the (m (toGoName (fi_Name f))))) fs"

lemma decode_fields_row:
  assumes zstd: "zstd_laws E"
  shows "\<forall>f \<in> set fs. \<not> fi_IsRepeated f \<and> protoTypeToGo (fi_ProtoType f) = Inr (fi_GoType f)
      \<and> (fi_Compress f \<longleftrightarrow> fi_Name f \<in> S) \<and> (fi_Compress f \<longrightarrow> fi_ProtoType f \<in> {TYPE_STRING, TYPE_BYTES})
      \<and> value_ok (ser_field_info S f) (m (toGoName (fi_Name f))) \<Longrightarrow>
    decode_fields E F (map field_schema fs) (w @ struct_bytes E (map (ser_field_info S) fs) m @ z) (length w)
      = Some (row_shown F fs m)"
proof (induction fs arbitrary: w)
  case Nil
  then show ?case by (simp add: row_shown_def)
next
  case (Cons f fs)
  let ?v = "m (toGoName (fi_Name f))"
  from Cons.prems obtain v where v: "?v = Some v" by (auto simp: value_ok_def split: option.splits)
  have go: "sf_GoName (ser_field_info S f) = toGoName (fi_Name f)" by (simp add: ser_field_info_def Let_def)
  let ?b = "field_bytes E (ser_field_info S f) (Some v)"
  let ?r = "struct_bytes E (map (ser_field_info S) fs) m"
  have ok: "\<not> fi_IsRepeated f" "protoTypeToGo (fi_ProtoType f) = Inr (fi_GoType f)" "fi_Compress f \<longleftrightarrow> fi_Name f \<in> S"
    "fi_Compress f \<longrightarrow> fi_ProtoType f \<in> {TYPE_STRING, TYPE_BYTES}" "value_ok (ser_field_info S f) (Some v)"
    using Cons.prems v by simp_all
  from parses_run [OF decodeOneField_parses [OF zstd ok, of F], of w "?r @ z"]
  have one: "decodeOneField E F (field_schema f) (w @ ?b @ ?r @ z) (length w)
      = Some (Inr ((value_text F (fi_ProtoType f) v, value_cut v), length (w @ ?b)))" .
  have rest: "decode_fields E F (map field_schema fs) ((w @ ?b) @ ?r @ z) (length (w @ ?b)) = Some (row_shown F fs m)"
    using Cons.prems by (intro Cons.IH) simp
  have "w @ struct_bytes E (map (ser_field_info S) (f # fs)) m @ z = w @ ?b @ ?r @ z" by (simp add: go v)
  with one rest show ?case
    by (simp add: row_shown_def field_shown_def v)
qed

lemma wf_schema: "table_wf t \<Longrightarrow> \<exists>ts. buildTableSchema t = Some ts \<and> ts_HasTTL ts = t_HasTTL t
    \<and> ts_Fields ts = map field_schema (t_Fields t)"
  by (auto simp: table_wf_def buildTableSchema_def split: option.split)

lemma decodeValue_row:
  assumes zstd: "zstd_laws E" and wf: "table_wf t" and agree: "compress_agrees t"
    and comp: "compiles (buildSerializerData t)" and m: "struct_ok (sd_Fields (buildSerializerData t)) m"
    and ts: "buildTableSchema t = Some ts"
  shows "t_HasTTL t \<Longrightarrow> \<exists>data. gen_SerializeWithExpiry E (buildSerializerData t) e m = Some data
      \<and> ss_decodeValue E F now ts data
        = Some \<lparr>dv_Fields = row_shown F (t_Fields t) m, dv_ExpiresAt = (if 0 <s e then Some e else None),
            dv_Expired = (0 <s e \<and> e <s now)\<rparr>"
    and "\<not> t_HasTTL t \<Longrightarrow> \<exists>data. gen_Serialize E (buildSerializerData t) m = Some data
      \<and> ss_decodeValue E F now ts data
        = Some \<lparr>dv_Fields = row_shown F (t_Fields t) m, dv_ExpiresAt = None, dv_Expired = False\<rparr>"
proof -
  let ?d = "buildSerializerData t"
  let ?S = "set (map fi_Name (t_CompressibleFields t))"
  have d: "sd_Fields ?d = map (ser_field_info ?S) (t_Fields t)" "sd_HasTTL ?d = t_HasTTL t"
    "sd_MinSize ?d = sum_list (map field_min (sd_Fields ?d))"
    by (simp_all add: buildSerializerData_def Let_def)
  have fw: "fields_wf t" using wf by (simp add: table_wf_def)
  have ok: "\<forall>f \<in> set (sd_Fields ?d). field_ok f \<and> value_ok f (m (sf_GoName f))"
    using m buildSerializerData_ok [OF fw] by (simp add: struct_ok_def)
  have fields: "\<forall>f \<in> set (t_Fields t). \<not> fi_IsRepeated f \<and> protoTypeToGo (fi_ProtoType f) = Inr (fi_GoType f)
      \<and> (fi_Compress f \<longleftrightarrow> fi_Name f \<in> ?S) \<and> (fi_Compress f \<longrightarrow> fi_ProtoType f \<in> {TYPE_STRING, TYPE_BYTES})
      \<and> value_ok (ser_field_info ?S f) (m (toGoName (fi_Name f)))"
  proof
    fix f assume f: "f \<in> set (t_Fields t)"
    then have "value_ok (ser_field_info ?S f) (m (sf_GoName (ser_field_info ?S f)))" using ok d(1) by auto
    moreover have "sf_GoName (ser_field_info ?S f) = toGoName (fi_Name f)" by (simp add: ser_field_info_def Let_def)
    ultimately show "\<not> fi_IsRepeated f \<and> protoTypeToGo (fi_ProtoType f) = Inr (fi_GoType f)
      \<and> (fi_Compress f \<longleftrightarrow> fi_Name f \<in> ?S) \<and> (fi_Compress f \<longrightarrow> fi_ProtoType f \<in> {TYPE_STRING, TYPE_BYTES})
      \<and> value_ok (ser_field_info ?S f) (m (toGoName (fi_Name f)))"
      using f fw agree by (simp add: fields_wf_def compress_agrees_def)
  qed
  note run = decode_fields_row [OF zstd fields, of F]
  have s: "ts_HasTTL ts = t_HasTTL t" "ts_Fields ts = map field_schema (t_Fields t)"
    using wf_schema [OF wf] ts by auto
  show "\<exists>data. gen_SerializeWithExpiry E ?d e m = Some data \<and> ss_decodeValue E F now ts data
        = Some \<lparr>dv_Fields = row_shown F (t_Fields t) m, dv_ExpiresAt = (if 0 <s e then Some e else None),
            dv_Expired = (0 <s e \<and> e <s now)\<rparr>" if ttl: "t_HasTTL t"
  proof -
    obtain z where z: "gen_SerializeWithExpiry E ?d e m = Some (put_le64 e @ struct_bytes E (sd_Fields ?d) m @ z)"
      using gen_SerializeWithExpiry_eq [OF comp _ d(3) ok] ttl d(2) by blast
    have "decode_fields E F (ts_Fields ts) (put_le64 e @ struct_bytes E (sd_Fields ?d) m @ z) 8
        = Some (row_shown F (t_Fields t) m)"
      using run [of "put_le64 e" z] s(2) d(1) by simp
    with z ttl s(1) show ?thesis by (simp add: ss_decodeValue_def)
  qed
  show "\<exists>data. gen_Serialize E ?d m = Some data \<and> ss_decodeValue E F now ts data
        = Some \<lparr>dv_Fields = row_shown F (t_Fields t) m, dv_ExpiresAt = None, dv_Expired = False\<rparr>"
    if ttl: "\<not> t_HasTTL t"
  proof -
    obtain z where z: "gen_Serialize E ?d m = Some (struct_bytes E (sd_Fields ?d) m @ z)"
      using gen_Serialize_eq [OF comp _ d(3) ok] ttl d(2) by blast
    have "decode_fields E F (ts_Fields ts) (struct_bytes E (sd_Fields ?d) m @ z) 0 = Some (row_shown F (t_Fields t) m)"
      using run [of "[]" z] s(2) d(1) by simp
    with z ttl s(1) show ?thesis by (simp add: ss_decodeValue_def)
  qed
qed

section \<open>No panics\<close>

lemma byte_at_total: "i < length b \<Longrightarrow> byte_at b i \<noteq> None" by (simp add: byte_at_def)

lemma decodeFixed_total: "length b = fixedProtoSize t \<Longrightarrow> decodeFixed F t b \<noteq> None"
  by (cases t) (simp_all add: decodeFixed_def fixedProtoSize_def byte_at_def le32_def le64_def)

lemma slice_total: "lo + n \<le> length b \<Longrightarrow> \<exists>s. slice b lo (lo + n) = Some s \<and> length s = n"
  by (simp add: slice_def)

lemma safe_decodeOneField: "safe (decodeOneField E F f)"
  unfolding safe_alt
proof (intro allI impI)
  fix data :: bytes and off
  assume off: "off \<le> length data"
  let ?n = "fixedProtoSize (fs_protoType f)"
  let ?goal = "\<lambda>r. (\<exists>e. r = Some (Inl e)) \<or> (\<exists>x off'. r = Some (Inr (x, off')) \<and> off' \<le> length data)"
  show "?goal (decodeOneField E F f data off)"
  proof (cases "\<not> fs_Repeated f \<and> \<not> fs_Compress f \<and> 0 < ?n")
    case True
    show ?thesis
    proof (cases "length data < off + ?n")
      case False
      then obtain b where b: "slice data off (off + ?n) = Some b" "length b = ?n" using slice_total [of off ?n data] by auto
      from decodeFixed_total [OF b(2), of F] obtain v where "decodeFixed F (fs_protoType f) b = Some v" by blast
      with b True False show ?thesis by (auto simp: decodeOneField_def Let_def)
    qed (use True in \<open>simp add: decodeOneField_def Let_def\<close>)
  next
    case var: False
    show ?thesis
    proof (cases "length data < off + 4")
      case True
      with var show ?thesis by (auto simp: decodeOneField_def Let_def)
    next
      case False
      then obtain d n where d: "slice_from data off = Some d" "le32 d = Some n" using read32 [of off data] by auto
      show ?thesis
      proof (cases "fs_Compress f \<and> \<not> length data < off + 8")
        case True
        then obtain d2 k where d2: "slice_from data (off + 4) = Some d2" "le32 d2 = Some k"
          using read32 [of "off + 4" data] by auto
        show ?thesis
        proof (cases "length data < off + 8 + unat n")
          case short: True
          with var False True d d2 show ?thesis by (auto simp: decodeOneField_def Let_def add.assoc)
        next
          case fits: False
          then obtain r where r: "slice data (off + 8) (off + 8 + unat n) = Some r"
            using slice_total [of "off + 8" "unat n" data] by auto
          show ?thesis
          proof (cases "if unat n \<noteq> unat k then zstd_Decompress E r else Inr r")
            case (Inl err)
            with var False True d d2 fits r show ?thesis
              by (auto simp: decodeOneField_def Let_def add.assoc split: if_splits)
          next
            case (Inr x)
            with var False True d d2 fits r show ?thesis
              by (auto simp: decodeOneField_def Let_def add.assoc split: if_splits)
          qed
        qed
      next
        case False
        have "\<exists>r. slice data (off + 4) (off + 4 + unat n) = Some r" if "off + 4 + unat n \<le> length data"
          using slice_total [OF that] by blast
        with var \<open>\<not> length data < off + 4\<close> False d show ?thesis
          by (auto simp: decodeOneField_def Let_def add.assoc)
      qed
    qed
  qed
qed

lemma decode_fields_total: "off \<le> length data \<Longrightarrow> decode_fields E F fs data off \<noteq> None"
proof (induction fs arbitrary: off)
  case (Cons f fs)
  from safe_decodeOneField [of E F f] Cons.prems consider e where "decodeOneField E F f data off = Some (Inl e)"
    | x off' where "decodeOneField E F f data off = Some (Inr (x, off'))" "off' \<le> length data"
    unfolding safe_alt by blast
  then show ?case
  proof cases
    case 2
    with Cons.IH [of off'] show ?thesis by (cases x) auto
  qed simp
qed simp

lemma decodeValue_total: "ss_decodeValue E F now ts data \<noteq> None"
proof -
  obtain rs where rs: "decode_fields E F (ts_Fields ts) data 0 = Some rs"
    using decode_fields_total [of 0 data E F "ts_Fields ts"] by auto
  show ?thesis
  proof (cases "ts_HasTTL ts \<and> 8 \<le> length data")
    case True
    then obtain e rs8 where "le64 data = Some e" "decode_fields E F (ts_Fields ts) data 8 = Some rs8"
      using decode_fields_total [of 8 data E F "ts_Fields ts"] by (auto simp: le64_def)
    with True show ?thesis by (simp add: ss_decodeValue_def Let_def)
  next
    case False
    with rs show ?thesis by (auto simp: ss_decodeValue_def Let_def)
  qed
qed

section \<open>The tables of an import\<close>

lemma fold_upd_other: "i \<notin> set (map g l) \<Longrightarrow> fold (\<lambda>x m. m(g x \<mapsto> x)) l m0 i = m0 i"
  by (induction l arbitrary: m0) auto

lemma fold_upd: "distinct (map g l) \<Longrightarrow> x \<in> set l \<Longrightarrow> fold (\<lambda>x m. m(g x \<mapsto> x)) l m0 (g x) = Some x"
proof (induction l arbitrary: m0)
  case (Cons y l)
  show ?case
  proof (cases "x = y")
    case True
    with Cons.prems fold_upd_other [of "g x" g l "m0(g x \<mapsto> x)"] show ?thesis
      by (simp del: fun_upd_apply add: fun_upd_same)
  next
    case False
    with Cons.prems Cons.IH [of "m0(g y \<mapsto> y)"] show ?thesis by simp
  qed
qed simp

lemma schema_of_wf: "table_wf t \<Longrightarrow> \<exists>ts. buildTableSchema t = Some ts \<and> ts_TableID ts = t_TableID t"
  by (auto simp: table_wf_def buildTableSchema_def split: option.split)

lemma BuildIR_tables_wf: "BuildIR files = Inr tables \<Longrightarrow> list_all table_wf tables \<and> distinct (map t_TableID tables)"
  using addFiles_wf [of files "(Map.empty, [])"]
  by (cases "addFiles files (Map.empty, [])") (auto simp: BuildIR_def ir_inv_def)

lemma importProto_tables:
  assumes "parse filename src = Inr parsed" and "BuildIR (collect_parsed filename parsed) = Inr tables"
  shows "\<exists>s'. importProto parse filename src s = Some (s', None) \<and> ss_source s' = filename
    \<and> map buildTableSchema tables = map Some (ss_list s')
    \<and> (\<forall>t \<in> set tables. ss_table (t_TableID t) s' = buildTableSchema t)"
proof -
  note wf = BuildIR_tables_wf [OF assms(2)]
  let ?l = "map (the \<circ> buildTableSchema) tables"
  have some: "buildTableSchema t = Some (the (buildTableSchema t)) \<and> ts_TableID (the (buildTableSchema t)) = t_TableID t"
    if "t \<in> set tables" for t
    using schema_of_wf [of t] wf that by (auto simp: list_all_iff)
  then have none: "None \<notin> set (map buildTableSchema tables)" by force
  have "map ts_TableID ?l = map t_TableID tables" using some by simp
  then have dist: "distinct (map ts_TableID ?l)" using wf by (simp only:)
  have look: "fold (\<lambda>ts m. m(ts_TableID ts \<mapsto> ts)) ?l Map.empty (t_TableID t) = buildTableSchema t"
    if t: "t \<in> set tables" for t
    using fold_upd [OF dist, of "the (buildTableSchema t)" Map.empty] some [OF t] t by simp
  let ?s = "\<lparr>ss_source = filename, ss_tables = fold (\<lambda>ts m. m(ts_TableID ts \<mapsto> ts)) ?l Map.empty, ss_list = ?l\<rparr>"
  have "importProto parse filename src s = Some (?s, None)"
    using none by (simp add: importProto_def assms Let_def)
  moreover have "map buildTableSchema tables = map Some ?l" using some by simp
  moreover have "\<forall>t \<in> set tables. ss_table (t_TableID t) ?s = buildTableSchema t"
    using look by (simp add: ss_table_def)
  ultimately show ?thesis by (intro exI [of _ ?s]) simp
qed

section \<open>Reading keys\<close>

lemma table_hash_key: "table_hash (p # put_be64 h @ rest) = Some h"
  by (simp add: table_hash_def slice_def)

lemma decodePK_total: "decodePK ts b \<noteq> None"
  by (auto simp: decodePK_def DecodeOrderedInt64_def DecodeOrderedUint64_def DecodeOrderedInt32_def
      DecodeOrderedUint32_def be64_def be32_def)

lemma decodeScalarByType_total: "decodeScalarByType t b \<noteq> None"
  by (auto simp: decodeScalarByType_def le64_def le32_def)

lemma decodePK_ordered:
  "ts_PKType ts = ''int64'' \<Longrightarrow> decodePK ts (EncodeOrderedInt64 v64) = Some (AInt64 v64)"
  "ts_PKType ts = ''uint64'' \<Longrightarrow> decodePK ts (EncodeOrderedUint64 v64) = Some (AUint64 v64)"
  "ts_PKType ts = ''int32'' \<Longrightarrow> decodePK ts (EncodeOrderedInt32 v32) = Some (AInt32 v32)"
  "ts_PKType ts = ''uint32'' \<Longrightarrow> decodePK ts (EncodeOrderedUint32 v32) = Some (AUint32 v32)"
  "ts_PKType ts = ''string'' \<Longrightarrow> decodePK ts b = Some (AString b)"
  by (simp_all add: decodePK_def DecodeOrderedUint64_def EncodeOrderedUint64_def DecodeOrderedUint32_def
      EncodeOrderedUint32_def)

lemma decodeKey_data:
  assumes "ss_table h s = Some ts"
  shows "ss_decodeKey (EncodeKey h b) s
    = Some \<lparr>dk_Kind = ''data'', dk_Table = ts_Message ts, dk_PK = decodePK ts b, dk_IndexField = '''', dk_IndexValue = None\<rparr>"
proof -
  obtain v where "decodePK ts b = Some v" using decodePK_total [of ts b] by blast
  with assms show ?thesis
    by (simp add: ss_decodeKey_def EncodeKey_def DataPrefix_def table_hash_key slice_from_def unknown_key_def)
qed

lemma decodeKey_index:
  assumes "ss_table h s = Some ts" and "length value < 2 ^ 64"
    and "ts_byFieldNum ts (ucast (ucast n :: byte)) = Some i" and "i < length (ts_Fields ts)"
  shows "ss_decodeKey (EncodeIndexPrefix h n value @ pk) s
    = Some \<lparr>dk_Kind = ''index'', dk_Table = ts_Message ts, dk_PK = None, dk_IndexField = fs_Name (ts_Fields ts ! i),
        dk_IndexValue = decodeScalarByType (fs_protoType (ts_Fields ts ! i)) value\<rparr>"
proof -
  obtain v where v: "decodeScalarByType (fs_protoType (ts_Fields ts ! i)) value = Some v"
    using decodeScalarByType_total by blast
  let ?raw = "0xFF # put_be64 h @ ucast n # put_uvarint (length value) @ value @ pk"
  have raw: "EncodeIndexPrefix h n value @ pk = ?raw" by (simp add: EncodeIndexPrefix_def IndexPrefix_def)
  have nine: "byte_at ?raw 9 = Some (ucast n)"
    using nth_append_length [of "0xFF # put_be64 h" "ucast n" "put_uvarint (length value) @ value @ pk"]
    by (simp add: byte_at_def)
  have rest: "slice_from ?raw 10 = Some (put_uvarint (length value) @ value @ pk)"
    by (simp add: slice_from_def)
  have "decode_index_key ?raw s
    = Some \<lparr>dk_Kind = ''index'', dk_Table = ts_Message ts, dk_PK = None, dk_IndexField = fs_Name (ts_Fields ts ! i),
        dk_IndexValue = Some v\<rparr>"
    using assms v by (simp add: decode_index_key_def table_hash_key nine rest slice_def unknown_key_def Let_def)
  then show ?thesis using v by (simp add: raw ss_decodeKey_def)
qed

lemma byte_number: "n < 256 \<Longrightarrow> ucast (ucast n :: byte) = (n :: 32 word)"
proof -
  assume "n < 256"
  then have "unat n < 256" by (simp add: word_less_nat_alt)
  moreover have "ucast n = (word_of_nat (unat n) :: byte)" by simp
  then have "unat (ucast n :: byte) = unat n mod 256" by (simp only: unat_byte_of_nat)
  ultimately have "unat (ucast n :: byte) = unat n" by simp
  moreover have "ucast (ucast n :: byte) = (word_of_nat (unat (ucast n :: byte)) :: 32 word)" by simp
  ultimately have "ucast (ucast n :: byte) = (word_of_nat (unat n) :: 32 word)" by (simp only:)
  then show ?thesis by simp
qed

lemma by_field_num_snoc: "by_field_num (fs @ [f]) = (by_field_num fs)(fi_Number f \<mapsto> length fs)"
  by (simp add: by_field_num_def enumerate_append_eq)

lemma by_field_num_bound: "by_field_num fs n = Some i \<Longrightarrow> i < length fs"
proof (induction fs rule: rev_induct)
  case Nil
  then show ?case by (simp add: by_field_num_def)
next
  case (snoc f fs)
  then show ?case by (auto simp: by_field_num_snoc split: if_splits)
qed

lemma by_field_num_nth: "distinct (map fi_Number fs) \<Longrightarrow> i < length fs \<Longrightarrow> by_field_num fs (fi_Number (fs ! i)) = Some i"
proof (induction fs rule: rev_induct)
  case (snoc f fs)
  show ?case
  proof (cases "i = length fs")
    case False
    with snoc.prems have i: "i < length fs" by simp
    then have "fi_Number (fs ! i) \<in> fi_Number ` set fs" by (intro imageI nth_mem)
    moreover have "fi_Number f \<notin> fi_Number ` set fs" using snoc.prems(1) by simp
    ultimately have "fi_Number (fs ! i) \<noteq> fi_Number f" by metis
    moreover have "by_field_num fs (fi_Number (fs ! i)) = Some i" using snoc.IH snoc.prems(1) i by simp
    ultimately show ?thesis using i by (simp add: by_field_num_snoc nth_append)
  qed (simp add: by_field_num_snoc)
qed simp

lemma decodeKey_total:
  assumes "\<And>h ts. ss_table h s = Some ts \<Longrightarrow> \<forall>n i. ts_byFieldNum ts n = Some i \<longrightarrow> i < length (ts_Fields ts)"
  shows "ss_decodeKey raw s \<noteq> None"
proof (cases "length raw < 9")
  case False
  then obtain h where h: "table_hash raw = Some h" by (auto simp: table_hash_def slice_def be64_def)
  have data: "ss_decodeKey raw s \<noteq> None" if "raw ! 0 \<noteq> 0xFF"
    using False that h decodePK_total [of _ "drop 9 raw"]
    by (auto simp: ss_decodeKey_def slice_from_def split: option.split)
  have index: "decode_index_key raw s \<noteq> None"
  proof (cases "ss_table h s")
    case (Some ts)
    show ?thesis
    proof (cases "length raw < 10")
      case ten: False
      let ?rest = "drop 10 raw"
      obtain vLen nVal where u: "uvarint ?rest = (vLen, nVal)" by fastforce
      show ?thesis
      proof (cases "nVal \<le> 0 \<or> length ?rest - nat nVal < vLen")
        case True
        with h Some ten u show ?thesis by (auto simp: decode_index_key_def slice_from_def byte_at_def Let_def)
      next
        case ok: False
        with uvarint_read_le [OF u] have "nat nVal + vLen \<le> length ?rest" by linarith
        then obtain v where v: "slice ?rest (nat nVal) (nat nVal + vLen) = Some v" using slice_total by blast
        show ?thesis
        proof (cases "ts_byFieldNum ts (ucast (raw ! 9))")
          case None
          with h Some ten u ok v show ?thesis by (auto simp: decode_index_key_def slice_from_def byte_at_def Let_def)
        next
          case (Some i)
          obtain x where "decodeScalarByType (fs_protoType (ts_Fields ts ! i)) v = Some x"
            using decodeScalarByType_total by blast
          moreover have "i < length (ts_Fields ts)" using assms [OF \<open>ss_table h s = Some ts\<close>] Some by blast
          ultimately show ?thesis
            using h Some \<open>ss_table h s = Some ts\<close> ten u ok v
            by (auto simp: decode_index_key_def slice_from_def byte_at_def Let_def)
        qed
      qed
    qed (use h Some in \<open>simp add: decode_index_key_def Let_def\<close>)
  qed (use h in \<open>simp add: decode_index_key_def\<close>)
  with data False show ?thesis by (auto simp: ss_decodeKey_def)
qed (simp add: ss_decodeKey_def)

section \<open>Properties\<close>

text \<open>
  C19. The panel shows what was stored: after the import of a proto file, for every table it declares whose
  fields are compressed exactly where their own option says so, the row that the generated serializer
  wrote is decoded into all fields in order, each with the text of its value; for a table with a time to live
  the expiry time is shown, and the row is marked as expired when it has passed.
\<close>

theorem admin_shows_stored_rows:
  assumes "parse filename src = Inr parsed" and "BuildIR (collect_parsed filename parsed) = Inr tables"
    and "t \<in> set tables" and "zstd_laws E" and "compress_agrees t" and "d = buildSerializerData t" and "compiles d"
    and "struct_ok (sd_Fields d) m"
  shows "\<exists>s' ts. importProto parse filename src s = Some (s', None) \<and> ss_table (t_TableID t) s' = Some ts
    \<and> (t_HasTTL t \<longrightarrow> (\<exists>data. gen_SerializeWithExpiry E d e m = Some data
          \<and> ss_decodeValue E F now ts data
            = Some \<lparr>dv_Fields = row_shown F (t_Fields t) m, dv_ExpiresAt = (if 0 <s e then Some e else None),
                dv_Expired = (0 <s e \<and> e <s now)\<rparr>))
    \<and> (\<not> t_HasTTL t \<longrightarrow> (\<exists>data. gen_Serialize E d m = Some data
          \<and> ss_decodeValue E F now ts data
            = Some \<lparr>dv_Fields = row_shown F (t_Fields t) m, dv_ExpiresAt = None, dv_Expired = False\<rparr>))"
proof -
  have wf: "table_wf t" using BuildIR_tables_wf [OF assms(2)] assms(3) by (auto simp: list_all_iff)
  obtain s' where s': "importProto parse filename src s = Some (s', None)"
    "ss_table (t_TableID t) s' = buildTableSchema t"
    using importProto_tables [where parse = parse and filename = filename and src = src and s = s, OF assms(1,2)] assms(3) by blast
  obtain ts where ts: "buildTableSchema t = Some ts" using wf_schema [OF wf] by blast
  note rows = decodeValue_row [OF assms(4) wf assms(5) assms(7,8) [unfolded assms(6)] ts, folded assms(6)]
  show ?thesis using s' ts rows by auto
qed

text \<open>
  C39. Physical keys are read back: a data key of an imported table shows the table and, for ordered
  integer and text primary keys, the key's value; an index key, unique or not, of a field with number below
  256 shows the table, the field and the value as \<open>decodeScalarByType\<close> reads it, which for text and signed
  integers is the value.
\<close>

theorem admin_decodes_keys:
  assumes "parse filename src = Inr parsed" and "BuildIR (collect_parsed filename parsed) = Inr tables"
    and "t \<in> set tables" and "t_PrimaryKey t = Some p" and "distinct (map fi_Number (t_Fields t))"
    and "importProto parse filename src s = Some (s', None)"
  shows "ss_decodeKey (EncodeKey (t_TableID t) b) s'
      = Some \<lparr>dk_Kind = ''data'', dk_Table = t_MessageName t,
          dk_PK = decodePK (the (buildTableSchema t)) b, dk_IndexField = '''', dk_IndexValue = None\<rparr>
    \<and> (fi_GoType p = ''int64'' \<longrightarrow> decodePK (the (buildTableSchema t)) (EncodeOrderedInt64 v64) = Some (AInt64 v64))
    \<and> (fi_GoType p = ''uint64'' \<longrightarrow> decodePK (the (buildTableSchema t)) (EncodeOrderedUint64 v64) = Some (AUint64 v64))
    \<and> (fi_GoType p = ''string'' \<longrightarrow> decodePK (the (buildTableSchema t)) b = Some (AString b))
    \<and> (\<forall>f v pk. f \<in> set (t_Fields t) \<and> fi_Number f < 256 \<and> length v < 2 ^ 64 \<longrightarrow>
         ss_decodeKey (EncodeIndexKey (t_TableID t) (fi_Number f) v pk) s'
           = Some \<lparr>dk_Kind = ''index'', dk_Table = t_MessageName t, dk_PK = None, dk_IndexField = fi_GoName f,
               dk_IndexValue = decodeScalarByType (fi_ProtoType f) v\<rparr>
       \<and> ss_decodeKey (EncodeUniqueIndexKey (t_TableID t) (fi_Number f) v) s'
           = ss_decodeKey (EncodeIndexKey (t_TableID t) (fi_Number f) v []) s')
    \<and> decodeScalarByType TYPE_STRING b = Some (AString b)
    \<and> decodeScalarByType TYPE_INT64 (put_le64 v64) = Some (AInt64 v64)
    \<and> decodeScalarByType TYPE_INT32 (put_le32 v32) = Some (AInt32 v32)"
proof -
  let ?ts = "the (buildTableSchema t)"
  have build: "buildTableSchema t = Some ?ts" "ts_Message ?ts = t_MessageName t" "ts_PKType ?ts = fi_GoType p"
    "ts_Fields ?ts = map field_schema (t_Fields t)" "ts_byFieldNum ?ts = by_field_num (t_Fields t)"
    using assms(4) by (simp_all add: buildTableSchema_def)
  obtain s1 where "importProto parse filename src s = Some (s1, None)" "ss_table (t_TableID t) s1 = buildTableSchema t"
    using importProto_tables [where parse = parse and filename = filename and src = src and s = s, OF assms(1,2)] assms(3) by blast
  with assms(6) build(1) have tab: "ss_table (t_TableID t) s' = Some ?ts" by simp
  have index: "ss_decodeKey (EncodeIndexPrefix (t_TableID t) (fi_Number f) v @ pk) s'
      = Some \<lparr>dk_Kind = ''index'', dk_Table = t_MessageName t, dk_PK = None, dk_IndexField = fi_GoName f,
               dk_IndexValue = decodeScalarByType (fi_ProtoType f) v\<rparr>"
    if f: "f \<in> set (t_Fields t)" "fi_Number f < 256" "length v < 2 ^ 64" for f v pk
  proof -
    from f(1) obtain i where i: "i < length (t_Fields t)" "t_Fields t ! i = f" by (auto simp: in_set_conv_nth)
    have "ucast (ucast (fi_Number f) :: byte) = fi_Number f" by (rule byte_number [OF f(2)])
    then have "ts_byFieldNum ?ts (ucast (ucast (fi_Number f) :: byte)) = Some i"
      using by_field_num_nth [OF assms(5) i(1)] i(2) build(5) by simp
    from decodeKey_index [OF tab f(3) this] i build show ?thesis by simp
  qed
  have prefix: "EncodeIndexKey h n v pk = EncodeIndexPrefix h n v @ pk"
    "EncodeUniqueIndexKey h n v = EncodeIndexKey h n v []" for h n v pk
    by (simp_all add: EncodeIndexKey_def EncodeIndexPrefix_def EncodeUniqueIndexKey_def)
  have "le64 (put_le64 v64) = Some v64" "le32 (put_le32 v32) = Some v32"
    using le64_put [of v64 "[]"] le32_put [of v32 "[]"] by simp_all
  then have scalar: "decodeScalarByType TYPE_STRING b = Some (AString b)"
    "decodeScalarByType TYPE_INT64 (put_le64 v64) = Some (AInt64 v64)"
    "decodeScalarByType TYPE_INT32 (put_le32 v32) = Some (AInt32 v32)"
    by (simp_all add: decodeScalarByType_def)
  have keys: "ss_decodeKey (EncodeIndexKey (t_TableID t) (fi_Number f) v pk) s'
           = Some \<lparr>dk_Kind = ''index'', dk_Table = t_MessageName t, dk_PK = None, dk_IndexField = fi_GoName f,
               dk_IndexValue = decodeScalarByType (fi_ProtoType f) v\<rparr>
       \<and> ss_decodeKey (EncodeUniqueIndexKey (t_TableID t) (fi_Number f) v) s'
           = ss_decodeKey (EncodeIndexKey (t_TableID t) (fi_Number f) v []) s'"
    if "f \<in> set (t_Fields t)" "fi_Number f < 256" "length v < 2 ^ 64" for f v pk
    unfolding prefix by (simp only: index [OF that])
  have data: "ss_decodeKey (EncodeKey (t_TableID t) b) s'
      = Some \<lparr>dk_Kind = ''data'', dk_Table = t_MessageName t,
          dk_PK = decodePK ?ts b, dk_IndexField = '''', dk_IndexValue = None\<rparr>"
    using decodeKey_data [OF tab, of b] build(2) by simp
  show ?thesis
    by (intro conjI allI impI; (elim conjE)?)
       (simp_all only: data keys [THEN conjunct1] keys [THEN conjunct2] scalar decodePK_ordered build(3))
qed

text \<open>A schema is one that imports can have built.\<close>

definition schema_ok :: "schemaStore \<Rightarrow> bool" where
  "schema_ok s \<longleftrightarrow> (\<forall>h ts. ss_table h s = Some ts \<longrightarrow> (\<exists>t. buildTableSchema t = Some ts))"

lemma schema_ok_import:
  assumes "schema_ok s" and "importProto parse filename src s = Some (s', err)"
  shows "schema_ok s'"
proof (cases "err = None")
  case False
  with assms show ?thesis by (auto simp: importProto_def Let_def split: sum.splits if_splits)
next
  case True
  then obtain tables where none: "None \<notin> set (map buildTableSchema tables)"
    and s': "ss_tables s' = fold (\<lambda>ts m. m(ts_TableID ts \<mapsto> ts)) (map the (map buildTableSchema tables)) Map.empty"
    using assms(2) by (auto simp: importProto_def Let_def split: sum.splits if_splits)
  have "ran (fold (\<lambda>ts m. m(ts_TableID ts \<mapsto> ts)) l m0) \<subseteq> set l \<union> ran m0" for l and m0 :: "64 word \<rightharpoonup> tableSchema"
  proof (induction l arbitrary: m0)
    case (Cons x l)
    have "ran (m0(ts_TableID x \<mapsto> x)) \<subseteq> insert x (ran m0)" by (auto simp: ran_def)
    with Cons [of "m0(ts_TableID x \<mapsto> x)"] show ?case by (simp del: fun_upd_apply) blast
  qed simp
  from this [of "map the (map buildTableSchema tables)" Map.empty]
  have "ran (ss_tables s') \<subseteq> set (map the (map buildTableSchema tables))" by (simp add: s')
  moreover have "\<exists>t. buildTableSchema t = Some ts" if "ts \<in> set (map the (map buildTableSchema tables))" for ts
    using that none by (force simp: image_iff)
  ultimately show ?thesis unfolding schema_ok_def ss_table_def by (meson ranI subsetD)
qed

lemma admin_total:
  assumes "schema_ok s"
  shows "ss_decodeKey raw s \<noteq> None \<and> tableOf raw s \<noteq> None \<and> tableOfIndex raw s \<noteq> None
    \<and> ss_decodeValue E F now ts data \<noteq> None"
proof -
  have "\<forall>n i. ts_byFieldNum ts n = Some i \<longrightarrow> i < length (ts_Fields ts)" if "ss_table h s = Some ts" for h ts
    using assms that by_field_num_bound
    by (fastforce simp: schema_ok_def buildTableSchema_def split: option.splits)
  then have key: "ss_decodeKey raw s \<noteq> None" by (rule decodeKey_total)
  have "table_hash raw \<noteq> None" if "9 \<le> length raw" using that by (simp add: table_hash_def slice_def be64_def)
  then have "tableOf raw s \<noteq> None" "tableOfIndex raw s \<noteq> None"
    by (auto simp: tableOf_def tableOfIndex_def not_less)
  with key decodeValue_total show ?thesis by blast
qed

text \<open>An import ends, and a failed one changes nothing.\<close>

lemma importProto_total: "importProto parse filename src s \<noteq> None"
proof (cases "parse filename src")
  case (Inr parsed)
  show ?thesis
  proof (cases "BuildIR (collect_parsed filename parsed)")
    case (Inr tables)
    from importProto_tables [where parse = parse and filename = filename and src = src and s = s,
        OF \<open>parse filename src = Inr parsed\<close> this] show ?thesis by auto
  qed (simp add: importProto_def Inr)
qed (simp add: importProto_def)

lemma importProto_failed: "importProto parse filename src s = Some (s', err) \<Longrightarrow> err \<noteq> None \<Longrightarrow> s' = s"
  by (auto simp: importProto_def Let_def split: sum.splits if_splits)

text \<open>
  The panel never panics on stored bytes: whatever was imported, every key and every value, however
  damaged, is decoded to something; an import never panics either, and one that fails leaves the schema alone.
\<close>

theorem admin_never_panics:
  assumes "schema_ok s"
  shows "ss_decodeKey raw s \<noteq> None \<and> tableOf raw s \<noteq> None \<and> tableOfIndex raw s \<noteq> None
    \<and> ss_decodeValue E F now ts data \<noteq> None
    \<and> importProto parse filename src s \<noteq> None
    \<and> (\<forall>s' err. importProto parse filename src s = Some (s', err) \<longrightarrow> schema_ok s' \<and> (err \<noteq> None \<longrightarrow> s' = s))"
  using admin_total [OF assms, of raw E F now ts data] importProto_total [of parse filename src s]
    schema_ok_import [OF assms, of parse filename src] importProto_failed [of parse filename src s]
  by (simp del: not_None_eq)

text \<open>
  Compression set on the table, not on the field, is missed by the panel: the row's bytes hold two
  lengths before the text, the decoder expects one, so it shows the second length and the beginning of the
  text instead of the text, and reads every later field from a wrong offset.
\<close>

theorem table_compression_misread:
  assumes "shouldCompress f True threshold" and "\<not> fi_Compress f" and "length raw < 2 ^ 32"
    and "length raw \<le> length (zstd_Compress E raw)"
  shows "decodeOneField E F (field_schema f) (w @ compress_bytes E raw @ z) (length w)
    = Some (Inr ((previewBytes (take (length raw) (put_le32 (word_of_nat (length raw)) @ raw)),
        maxFieldValueLen < length raw), length (w @ compress_bytes E raw) - 4))"
proof -
  have var: "fixedProtoSize (fi_ProtoType f) = 0"
    using assms(1) by (auto simp: shouldCompress_def fixedProtoSize_def split: if_splits)
  show ?thesis
    using assms(2-4) var
    by (simp add: decodeOneField_def compress_bytes_def slice_from_def slice_def unat32_of_nat Let_def)
qed

text \<open>Witnesses: the import of \<open>testmodels.proto\<close>, and a text of four bytes in a table with compression.\<close>

definition testmodels_parse :: "string \<Rightarrow> bytes \<Rightarrow> go_error + file_desc list" where
  "testmodels_parse filename src = Inr [FileDesc filename [] testmodels_proto]"

lemma testmodels_collect: "collect_parsed f [FileDesc f [] testmodels_proto] = [testmodels_proto]"
  by (simp add: collect_parsed_def)

lemma testmodels_parse_eq:
  "testmodels_parse f src = Inr [FileDesc f [] testmodels_proto]"
  "BuildIR (collect_parsed f [FileDesc f [] testmodels_proto]) = Inr [user_table, session_table]"
  by (simp_all add: testmodels_parse_def testmodels_collect BuildIR_testmodels)

theorem admin_shows_stored_rows_witness:
  "\<exists>s' ts data. importProto testmodels_parse ''t.proto'' [] newSchemaStore = Some (s', None)
    \<and> ss_table (t_TableID user_table) s' = Some ts
    \<and> gen_Serialize mem_platform (buildSerializerData user_table) (user_struct example_user) = Some data
    \<and> ss_decodeValue mem_platform no_floats 0 ts data
      = Some \<lparr>dv_Fields = row_shown no_floats (t_Fields user_table) (user_struct example_user), dv_ExpiresAt = None, dv_Expired = False\<rparr>"
proof -
  let ?d = "buildSerializerData user_table"
  have dom: "dom (user_struct example_user) = set (map sf_GoName (sd_Fields ?d))"
    by (auto simp: user_struct_def user_data ser_info_def)
  have "\<forall>f \<in> set (sd_Fields ?d). value_ok f (user_struct example_user (sf_GoName f))"
    by (simp add: user_data ser_info_def value_ok_def user_struct_def example_user_def)
  with dom have ok: "struct_ok (sd_Fields ?d) (user_struct example_user)" by (simp only: struct_ok_def simp_thms)
  have agree: "compress_agrees user_table" by (simp add: compress_agrees_def user_table_def Let_def)
  have ttl: "\<not> t_HasTTL user_table" by (simp add: user_table_def Let_def)
  have mem: "user_table \<in> set [user_table, session_table]" by simp
  from admin_shows_stored_rows [where parse = testmodels_parse and filename = "''t.proto''" and src = "[]"
      and s = newSchemaStore and F = no_floats and now = 0,
      OF testmodels_parse_eq mem mem_zstd_laws agree refl user_compiles ok] ttl
  show ?thesis by blast
qed

theorem admin_decodes_keys_witness:
  "\<exists>s'. importProto testmodels_parse ''t.proto'' [] newSchemaStore = Some (s', None)
    \<and> ss_decodeKey (EncodeIndexKey (t_TableID user_table) 3 [65] [0]) s'
      = Some \<lparr>dk_Kind = ''index'', dk_Table = ''User'', dk_PK = None, dk_IndexField = ''email'',
          dk_IndexValue = Some (AString [65])\<rparr>"
proof -
  obtain s' where s': "importProto testmodels_parse ''t.proto'' [] newSchemaStore = Some (s', None)"
    using importProto_tables [where parse = testmodels_parse and filename = "''t.proto''" and src = "[]"
        and s = newSchemaStore, OF testmodels_parse_eq] by blast
  obtain pk where pk: "t_PrimaryKey user_table = Some pk" by (simp add: user_table_def Let_def)
  have dist: "distinct (map fi_Number (t_Fields user_table))" by (simp add: user_table_def Let_def)
  let ?email = "t_Fields user_table ! 2"
  have email: "?email \<in> set (t_Fields user_table)" "fi_Number ?email = 3" "fi_GoName ?email = ''email''"
    "fi_ProtoType ?email = TYPE_STRING" "t_MessageName user_table = ''User''"
    by (simp_all add: user_table_def Let_def)
  have mem: "user_table \<in> set [user_table, session_table]" by simp
  note K = admin_decodes_keys [where parse = testmodels_parse and filename = "''t.proto''" and src = "[]"
      and s = newSchemaStore, OF testmodels_parse_eq mem pk dist s']
  have "fi_Number ?email < 256 \<and> length [65 :: byte] < 2 ^ 64" using email(2) by simp
  with K email(1) have "ss_decodeKey (EncodeIndexKey (t_TableID user_table) (fi_Number ?email) [65] [0]) s'
      = Some \<lparr>dk_Kind = ''index'', dk_Table = t_MessageName user_table, dk_PK = None, dk_IndexField = fi_GoName ?email,
          dk_IndexValue = decodeScalarByType (fi_ProtoType ?email) [65]\<rparr>" by blast
  then have "ss_decodeKey (EncodeIndexKey (t_TableID user_table) 3 [65] [0]) s'
      = Some \<lparr>dk_Kind = ''index'', dk_Table = ''User'', dk_PK = None, dk_IndexField = ''email'',
          dk_IndexValue = decodeScalarByType TYPE_STRING [65]\<rparr>" unfolding email(2-5) .
  with s' show ?thesis by (simp add: decodeScalarByType_def)
qed

theorem admin_never_panics_witness:
  "ss_decodeKey [0xFF, 1, 2, 3, 4, 5, 6, 7, 8, 9] newSchemaStore \<noteq> None
    \<and> importProto testmodels_parse ''t.proto'' [] newSchemaStore \<noteq> None"
proof -
  have "schema_ok newSchemaStore" by (simp add: schema_ok_def ss_table_def newSchemaStore_def)
  from admin_never_panics [OF this] show ?thesis by blast
qed

theorem table_compression_misread_witness:
  "decodeOneField mem_platform no_floats (field_schema (t_Fields user_table ! 1))
      (compress_bytes mem_platform [83, 81, 76, 33]) 0
    = Some (Inr ((printable [4, 0, 0, 0], False), 8))"
proof -
  let ?f = "t_Fields user_table ! 1"
  have f: "shouldCompress ?f True 256" "\<not> fi_Compress ?f"
    by (simp_all add: user_table_def Let_def shouldCompress_def)
  have len: "length [83, 81, 76, 33 :: byte] < 2 ^ 32"
    "length [83, 81, 76, 33 :: byte] \<le> length (zstd_Compress mem_platform [83, 81, 76, 33])"
    by (simp_all add: mem_platform_def)
  have four: "put_le32 4 = [4, 0, 0, 0]" by code_simp
  have "\<not> utf8Clean [4, 0, 0, 0]" by code_simp
  then have "previewBytes [4, 0, 0, 0] = printable [4, 0, 0, 0]" by (simp add: previewBytes_def)
  moreover have "length (compress_bytes mem_platform [83, 81, 76, 33]) = 12"
    using len(2) by (simp add: compress_bytes_def Let_def)
  ultimately show ?thesis
    using table_compression_misread [OF f len, of no_floats "[]" "[]"] four by (simp add: maxFieldValueLen_def)
qed

end
