(* ===== verification/StoreGen.thy ===== *)
theory StoreGen
  imports SerializerGen
begin

text \<open>
  The stores the code generator emits (\<open>internal/codegen/store.go\<close>): the data of the template
  (\<open>buildStoreData\<close>) and the methods of \<open>storeTmpl\<close>, interpreted on that data.  A conditional of the
  template is a conditional on the data, a range of the template a recursion over the fields; the body of a
  method is otherwise the emitted Go code.  The emitted file is typed: a field of a record holds a value of its
  Go type.  The theory shows that for the tables of the test package the emitted methods are the methods of
  \<open>internal/testmodels/User_sqlitex.go\<close>, the ones of theory \<open>Store\<close>.
\<close>


section \<open>The data of the template\<close>

record indexField =
  xf_GoName :: string
  xf_ProtoName :: string
  xf_GoType :: string
  xf_FieldNum :: "32 word"
  xf_IsUnique :: bool

record storeData =
  st_MessageName :: string
  st_PackageName :: string
  st_StoreName :: string
  st_StoreImpl :: string
  st_PKGoName :: string
  st_PKGoType :: string
  st_TableID :: "64 word"
  st_IndexedFields :: "indexField list"
  st_UniqueFields :: "indexField list"
  st_NormalFields :: "indexField list"
  st_HasUnique :: bool
  st_HasTTL :: bool
  st_TTL :: "64 word"

fun lowerFirst :: "string \<Rightarrow> string" where
  "lowerFirst [] = []"
| "lowerFirst (c # s) = (if (of_char c :: nat) \<in> {65..90} then char_of (of_char c + 32 :: nat) # s else c # s)"

definition index_field :: "FieldIR \<Rightarrow> indexField" where
  "index_field f =
     \<lparr>xf_GoName = toGoName (fi_Name f), xf_ProtoName = fi_Name f, xf_GoType = fi_GoType f,
      xf_FieldNum = fi_Number f, xf_IsUnique = (fi_Index f = INDEX_UNIQUE)\<rparr>"

text \<open>\<open>None\<close>: the table has no primary key, a nil dereference.\<close>

definition buildStoreData :: "TableIR \<Rightarrow> storeData option" where
  "buildStoreData table =
     (case t_PrimaryKey table of
        None \<Rightarrow> None
      | Some pk \<Rightarrow>
          (let idx = map index_field (t_IndexedFields table); unique = filter xf_IsUnique idx
           in Some \<lparr>st_MessageName = t_MessageName table, st_PackageName = t_GoPackage table,
                st_StoreName = t_MessageName table @ ''Store'',
                st_StoreImpl = lowerFirst (t_MessageName table) @ ''Store'', st_PKGoName = toGoName (fi_Name pk),
                st_PKGoType = fi_GoType pk, st_TableID = t_TableID table, st_IndexedFields = idx,
                st_UniqueFields = unique, st_NormalFields = filter (\<lambda>x. \<not> xf_IsUnique x) idx,
                st_HasUnique = (unique \<noteq> []), st_HasTTL = t_HasTTL table, st_TTL = t_TTL table\<rparr>))"

section \<open>What the template emits\<close>

text \<open>
  As for the serializers, the emitted methods are interpreted on the data: \<open>x\<close> is the data of this
  template, \<open>d\<close> that of the serializer, \<open>None\<close> a panic or a value that does not fit its Go type.
  \<open>go_text\<close> is \<open>fmt.Sprintf("%v", v)\<close>.
\<close>

fun go_text :: "float_texts \<Rightarrow> string \<Rightarrow> go_value \<Rightarrow> bytes" where
  "go_text F ty (GBool b) = str_bytes (if b then ''true'' else ''false'')"
| "go_text F ty (G32 w) =
     (if ty = ''float32'' then ft_float32 F w else if ty = ''int32'' then show_int (sint w) else show_nat (unat w))"
| "go_text F ty (G64 w) =
     (if ty = ''float64'' then ft_float64 F w else if ty = ''int64'' then show_int (sint w) else show_nat (unat w))"
| "go_text F ty (GBytes b) = b"

definition encodePrimaryKey :: "float_texts \<Rightarrow> storeData \<Rightarrow> go_value \<Rightarrow> bytes" where
  "encodePrimaryKey F x v =
     (case v of
        GBytes b \<Rightarrow> b
      | G64 w \<Rightarrow> if st_PKGoType x = ''int64'' then EncodeOrderedInt64 w
                  else if st_PKGoType x = ''uint64'' then EncodeOrderedUint64 w else go_text F (st_PKGoType x) v
      | G32 w \<Rightarrow> if st_PKGoType x = ''int32'' then EncodeOrderedInt32 w
                  else if st_PKGoType x = ''uint32'' then EncodeOrderedUint32 w else go_text F (st_PKGoType x) v
      | _ \<Rightarrow> go_text F (st_PKGoType x) v)"

definition encodeIndexValue :: "float_texts \<Rightarrow> indexField \<Rightarrow> go_value \<Rightarrow> bytes" where
  "encodeIndexValue F f v =
     (case v of
        GBytes b \<Rightarrow> b
      | G64 w \<Rightarrow> if xf_GoType f = ''int64'' then put_le64 w else go_text F (xf_GoType f) v
      | G32 w \<Rightarrow> if xf_GoType f = ''int32'' then put_le32 w else go_text F (xf_GoType f) v
      | _ \<Rightarrow> go_text F (xf_GoType f) v)"

text \<open>The index key of a field of \<open>m\<close>; unique keys do not carry the primary key.\<close>

definition index_key :: "float_texts \<Rightarrow> storeData \<Rightarrow> bytes \<Rightarrow> go_struct \<Rightarrow> indexField \<Rightarrow> bytes" where
  "index_key F x pkBytes m f =
     (let v = encodeIndexValue F f (the (m (xf_GoName f)))
      in if xf_IsUnique f then EncodeUniqueIndexKey (st_TableID x) (xf_FieldNum f) v
         else EncodeIndexKey (st_TableID x) (xf_FieldNum f) v pkBytes)"

definition gen_index_deletes :: "float_texts \<Rightarrow> storeData \<Rightarrow> go_struct option \<Rightarrow> bytes \<Rightarrow> KVPair list" where
  "gen_index_deletes F x old pkBytes =
     (case old of None \<Rightarrow> []
      | Some o' \<Rightarrow> map (kv_del \<circ> index_key F x pkBytes o') (st_UniqueFields x @ st_NormalFields x))"

definition gen_deleteWithIndexes ::
  "('p, 'b, 'i) platform \<Rightarrow> float_texts \<Rightarrow> storeData \<Rightarrow> bytes \<Rightarrow> go_struct \<Rightarrow> 'p DB \<Rightarrow> ('p DB \<times> go_error option) option" where
  "gen_deleteWithIndexes E F x dataKey m h =
     (case DecodeKey dataKey of
        None \<Rightarrow> None
      | Some (Inl err) \<Rightarrow> Some (h, Some err)
      | Some (Inr (_, pkBytes)) \<Rightarrow>
          if st_IndexedFields x \<noteq> []
          then Some (db_WriteBatch E (kv_del dataKey # gen_index_deletes F x (Some m) pkBytes) h)
          else Some (db_Delete E dataKey h))"

definition gen_Get ::
  "('p, 'b, 'i) platform \<Rightarrow> float_texts \<Rightarrow> storeData \<Rightarrow> serializerData \<Rightarrow> go_value \<Rightarrow> 'p DB
    \<Rightarrow> ('p DB \<times> (go_error + go_struct option)) option" where
  "gen_Get E F x d pk h =
     (let key = EncodeKey (st_TableID x) (encodePrimaryKey F x pk); (h1, r) = db_Get E key h in
      case r of
        Inl err \<Rightarrow> Some (h1, Inl (ErrorWrap (''sqlitex: get '' @ st_MessageName x @ '': '') err))
      | Inr None \<Rightarrow> Some (h1, Inr None)
      | Inr (Some value) \<Rightarrow>
          if st_HasTTL x
          then (case gen_DeserializeMeta E d value of
                  None \<Rightarrow> None
                | Some (Inl err) \<Rightarrow> Some (h1, Inl err)
                | Some (Inr (m, expiresAt)) \<Rightarrow>
                    if 0 <s expiresAt then
                      (let (now, h2) = db_now E h1 in
                       if expiresAt <s now
                       then map_option (\<lambda>y. (fst y, Inr None)) (gen_deleteWithIndexes E F x key m h2)
                       else Some (h2, Inr (Some m)))
                    else Some (h1, Inr (Some m)))
          else map_option (\<lambda>y. (h1, map_sum id Some y)) (gen_Deserialize E d value))"

text \<open>\<open>value := m.Serialize()\<close>, with the expiry time when the table has a time to live.\<close>

definition gen_value ::
  "('p, 'b, 'i) platform \<Rightarrow> storeData \<Rightarrow> serializerData \<Rightarrow> go_struct \<Rightarrow> 'p DB \<Rightarrow> ('p DB \<times> bytes) option" where
  "gen_value E x d m h =
     (if st_HasTTL x
      then (let (now, h1) = db_now E h in map_option (Pair h1) (gen_SerializeWithExpiry E d (now + st_TTL x) m))
      else map_option (Pair h) (gen_Serialize E d m))"

text \<open>The conflict checks of the unique fields in turn, up to the first error.\<close>

fun gen_unique_checks ::
  "('p, 'b, 'i) platform \<Rightarrow> float_texts \<Rightarrow> storeData \<Rightarrow> string \<Rightarrow> bytes \<Rightarrow> go_struct \<Rightarrow> indexField list \<Rightarrow> 'p DB
    \<Rightarrow> 'p DB \<times> go_error option" where
  "gen_unique_checks E F x what pkBytes m [] h = (h, None)"
| "gen_unique_checks E F x what pkBytes m (f # fs) h =
     (let (h1, existing) = db_Get E (index_key F x pkBytes m f) h in
      case existing of
        Inl err \<Rightarrow>
          (h1, Some (ErrorWrap (''sqlitex: check unique index '' @ st_MessageName x @ ''.'' @ xf_ProtoName f @ '': '') err))
      | Inr ex \<Rightarrow>
          if ex \<noteq> None \<and> ex \<noteq> Some pkBytes
          then (h1, Some (ErrorWrap (''sqlitex: '' @ what @ '' '' @ st_MessageName x @ '': unique index ''
                  @ st_MessageName x @ ''.'' @ xf_ProtoName f @ '' conflict: '') ErrDuplicateKey))
          else gen_unique_checks E F x what pkBytes m fs h1)"

text \<open>
  \<open>Create\<close> and \<open>Update\<close>: they differ in the text of the conflict error and in the order in which the new index
  entries are added, first the unique ones or as declared.
\<close>

definition gen_save ::
  "string \<Rightarrow> indexField list \<Rightarrow> ('p, 'b, 'i) platform \<Rightarrow> float_texts \<Rightarrow> storeData \<Rightarrow> serializerData \<Rightarrow> go_struct \<Rightarrow> 'p DB
    \<Rightarrow> ('p DB \<times> go_error option) option" where
  "gen_save what order E F x d m h = do {
     let pkBytes = encodePrimaryKey F x (the (m (st_PKGoName x)));
     let dataKey = EncodeKey (st_TableID x) pkBytes;
     (h0, value) \<leftarrow> gen_value E x d m h;
     (h1, deletes) \<leftarrow>
       (if st_IndexedFields x = [] then Some (h0, [])
        else map_option (\<lambda>(h1, got). (h1, gen_index_deletes F x (ignore_error got) pkBytes))
               (gen_Get E F x d (the (m (st_PKGoName x))) h0));
     (case gen_unique_checks E F x what pkBytes m (st_UniqueFields x) h1 of
        (h2, Some err) \<Rightarrow> Some (h2, Some err)
      | (h2, None) \<Rightarrow>
          Some (db_WriteBatch E
            (kv_put dataKey value # deletes @ map (\<lambda>f. kv_put (index_key F x pkBytes m f) pkBytes) order) h2))
   }"

definition gen_Create ::
  "('p, 'b, 'i) platform \<Rightarrow> float_texts \<Rightarrow> storeData \<Rightarrow> serializerData \<Rightarrow> go_struct option \<Rightarrow> 'p DB
    \<Rightarrow> ('p DB \<times> go_error option) option" where
  "gen_Create E F x d mp h =
     (case mp of
        None \<Rightarrow> Some (h, Some (ErrorMsg (''sqlitex: cannot create nil '' @ st_MessageName x)))
      | Some m \<Rightarrow> gen_save ''create'' (st_UniqueFields x @ st_NormalFields x) E F x d m h)"

definition gen_Update ::
  "('p, 'b, 'i) platform \<Rightarrow> float_texts \<Rightarrow> storeData \<Rightarrow> serializerData \<Rightarrow> go_struct option \<Rightarrow> 'p DB
    \<Rightarrow> ('p DB \<times> go_error option) option" where
  "gen_Update E F x d mp h =
     (case mp of
        None \<Rightarrow> Some (h, Some (ErrorMsg (''sqlitex: cannot update nil '' @ st_MessageName x)))
      | Some m \<Rightarrow> gen_save ''update'' (st_IndexedFields x) E F x d m h)"

definition gen_Delete ::
  "('p, 'b, 'i) platform \<Rightarrow> float_texts \<Rightarrow> storeData \<Rightarrow> serializerData \<Rightarrow> go_value \<Rightarrow> 'p DB
    \<Rightarrow> ('p DB \<times> go_error option) option" where
  "gen_Delete E F x d pk h = do {
     let pkBytes = encodePrimaryKey F x pk;
     (h1, deletes) \<leftarrow>
       (if st_IndexedFields x = [] then Some (h, [])
        else map_option (\<lambda>(h1, got). (h1, gen_index_deletes F x (ignore_error got) pkBytes)) (gen_Get E F x d pk h));
     Some (db_WriteBatch E (kv_del (EncodeKey (st_TableID x) pkBytes) # deletes) h1)
   }"

definition gen_purge_body ::
  "('p, 'b, 'i) platform \<Rightarrow> float_texts \<Rightarrow> storeData \<Rightarrow> serializerData \<Rightarrow> 64 word \<Rightarrow> bytes \<Rightarrow> bytes \<Rightarrow> 'p DB \<times> nat
    \<Rightarrow> (('p DB \<times> nat) \<times> bool) option" where
  "gen_purge_body E F x d now key value s =
     (case gen_DeserializeMeta E d value of
        None \<Rightarrow> None
      | Some (Inl err) \<Rightarrow> Some (s, False)
      | Some (Inr (m, expiresAt)) \<Rightarrow>
          if expired_at expiresAt now
          then (case gen_deleteWithIndexes E F x key m (fst s) of
                  None \<Rightarrow> None
                | Some (h, err) \<Rightarrow> Some ((h, if err = None then Suc (snd s) else snd s), False))
          else Some (s, False))"

definition gen_PurgeExpired ::
  "('p, 'b, 'i) platform \<Rightarrow> float_texts \<Rightarrow> storeData \<Rightarrow> serializerData \<Rightarrow> 'p DB \<Rightarrow> ('p DB \<times> nat) option" where
  "gen_PurgeExpired E F x d h =
     (case db_Iterate E (EncodeKey (st_TableID x) []) h of
        None \<Rightarrow> Some (h, 0)
      | Some it \<Rightarrow> (let (now, h1) = db_now E h in it_for E (gen_purge_body E F x d now) it (h1, 0)))"

section \<open>The test package\<close>

definition idx :: "string \<Rightarrow> string \<Rightarrow> string \<Rightarrow> 32 word \<Rightarrow> bool \<Rightarrow> indexField" where
  "idx go name ty n u = \<lparr>xf_GoName = go, xf_ProtoName = name, xf_GoType = ty, xf_FieldNum = n, xf_IsUnique = u\<rparr>"

definition user_store_data :: storeData where
  "user_store_data =
     \<lparr>st_MessageName = ''User'', st_PackageName = ''testmodels'', st_StoreName = ''UserStore'',
      st_StoreImpl = ''userStore'', st_PKGoName = ''Id'', st_PKGoType = ''int64'', st_TableID = user_tableID,
      st_IndexedFields = [idx ''Email'' ''email'' ''string'' 3 True, idx ''CreatedAt'' ''created_at'' ''int64'' 4 False],
      st_UniqueFields = [idx ''Email'' ''email'' ''string'' 3 True],
      st_NormalFields = [idx ''CreatedAt'' ''created_at'' ''int64'' 4 False], st_HasUnique = True, st_HasTTL = False,
      st_TTL = 0\<rparr>"

definition session_store_data :: storeData where
  "session_store_data =
     \<lparr>st_MessageName = ''Session'', st_PackageName = ''testmodels'', st_StoreName = ''SessionStore'',
      st_StoreImpl = ''sessionStore'', st_PKGoName = ''Id'', st_PKGoType = ''int64'', st_TableID = session_tableID,
      st_IndexedFields = [idx ''UserId'' ''user_id'' ''string'' 3 False], st_UniqueFields = [],
      st_NormalFields = [idx ''UserId'' ''user_id'' ''string'' 3 False], st_HasUnique = False, st_HasTTL = True,
      st_TTL = 1000000000\<rparr>"

lemma user_store_data: "buildStoreData user_table = Some user_store_data" by code_simp
lemma session_store_data: "buildStoreData session_table = Some session_store_data" by code_simp

abbreviation user_d :: serializerData where "user_d \<equiv> buildSerializerData user_table"
abbreviation session_d :: serializerData where "session_d \<equiv> buildSerializerData session_table"

lemma user_index_keys:
  "index_key F user_store_data pkb (user_struct m) (idx ''Email'' ''email'' ''string'' 3 True)
     = EncodeUniqueIndexKey user_tableID 3 (encodeUserIndexEmailValue (u_Email m))"
  "index_key F user_store_data pkb (user_struct m) (idx ''CreatedAt'' ''created_at'' ''int64'' 4 False)
     = EncodeIndexKey user_tableID 4 (encodeUserIndexCreatedAtValue (u_CreatedAt m)) pkb"
  by (simp_all add: index_key_def idx_def encodeIndexValue_def user_struct_def user_store_data_def
      encodeUserIndexEmailValue_def encodeUserIndexCreatedAtValue_def)

lemma session_index_keys:
  "index_key F session_store_data pkb (session_struct m) (idx ''UserId'' ''user_id'' ''string'' 3 False)
     = EncodeIndexKey session_tableID 3 (encodeSessionIndexUserIdValue (s_UserId m)) pkb"
  by (simp add: index_key_def idx_def encodeIndexValue_def session_struct_def session_store_data_def
      encodeSessionIndexUserIdValue_def)

lemma user_store_fields:
  "st_MessageName user_store_data = ''User''" "st_PKGoName user_store_data = ''Id''" "st_TableID user_store_data = user_tableID"
  "st_IndexedFields user_store_data = [idx ''Email'' ''email'' ''string'' 3 True, idx ''CreatedAt'' ''created_at'' ''int64'' 4 False]"
  "st_UniqueFields user_store_data = [idx ''Email'' ''email'' ''string'' 3 True]"
  "st_NormalFields user_store_data = [idx ''CreatedAt'' ''created_at'' ''int64'' 4 False]" "\<not> st_HasTTL user_store_data"
  by (simp_all add: user_store_data_def)

lemma session_store_fields:
  "st_MessageName session_store_data = ''Session''" "st_PKGoName session_store_data = ''Id''"
  "st_TableID session_store_data = session_tableID"
  "st_IndexedFields session_store_data = [idx ''UserId'' ''user_id'' ''string'' 3 False]"
  "st_UniqueFields session_store_data = []"
  "st_NormalFields session_store_data = [idx ''UserId'' ''user_id'' ''string'' 3 False]"
  "st_HasTTL session_store_data" "st_TTL session_store_data = session_ttl"
  by (simp_all add: session_store_data_def session_ttl_def)

lemma user_pk: "encodePrimaryKey F user_store_data (G64 i) = encodeUserPrimaryKey i"
  by (simp add: encodePrimaryKey_def user_store_data_def encodeUserPrimaryKey_def)

lemma session_pk: "encodePrimaryKey F session_store_data (G64 i) = encodeSessionPrimaryKey i"
  by (simp add: encodePrimaryKey_def session_store_data_def encodeSessionPrimaryKey_def)

lemma user_struct_pk: "user_struct m ''Id'' = Some (G64 (u_Id m))" by (simp add: user_struct_def)
lemma session_struct_pk: "session_struct m ''Id'' = Some (G64 (s_Id m))" by (simp add: session_struct_def)

lemma user_gen_deletes:
  "gen_index_deletes F user_store_data (map_option user_struct o') pkb = user_index_deletes o' pkb"
  by (cases o') (simp_all add: gen_index_deletes_def user_index_deletes_def user_store_fields user_index_keys)

lemma session_gen_deletes:
  "gen_index_deletes F session_store_data (map_option session_struct o') pkb = session_index_deletes o' pkb"
  by (cases o') (simp_all add: gen_index_deletes_def session_index_deletes_def session_store_fields session_index_keys)

lemma ignore_error_map: "ignore_error (map_sum id (map_option g) r) = map_option g (ignore_error r)"
  by (cases r) simp_all

lemma user_gen_Get:
  "gen_Get E F user_store_data user_d (G64 i) h
   = map_option (\<lambda>(h', r). (h', map_sum id (map_option user_struct) r)) (user_Get E i h)"
proof -
  have "map_sum id Some (map_sum id user_struct r) = map_sum id (map_option user_struct) (map_sum id Some r)"
    for r :: "go_error + User" by (cases r) simp_all
  then show ?thesis
    by (simp add: gen_Get_def user_Get_def user_store_fields user_pk user_gen_Deserialize option.map_comp comp_def
        Let_def split: prod.split sum.split option.split)
qed

lemma session_gen_delete:
  "gen_deleteWithIndexes E F session_store_data key (session_struct m) h = deleteSessionWithIndexes E key m h"
  using session_gen_deletes [of F "Some m"]
  by (simp add: gen_deleteWithIndexes_def deleteSessionWithIndexes_def session_store_fields session_index_deletes_def
      split: option.split sum.split)

lemma session_gen_Get:
  "gen_Get E F session_store_data session_d (G64 i) h
   = map_option (\<lambda>(h', r). (h', map_sum id (map_option session_struct) r)) (session_Get E i h)"
  by (simp add: gen_Get_def session_Get_def session_store_fields session_pk session_gen_DeserializeMeta
      session_gen_delete option.map_comp comp_def case_prod_unfold Let_def split: prod.split sum.split option.split)

lemma user_gen_save:
  "gen_save what (st_UniqueFields user_store_data @ st_NormalFields user_store_data) E F user_store_data user_d (user_struct m) h
   = user_save what E m h"
proof -
  have err: "''sqlitex: check unique index '' @ ''User'' @ ''.'' @ ''email'' @ '': '' = ''sqlitex: check unique index User.email: ''"
    "''sqlitex: '' @ what @ '' '' @ ''User'' @ '': unique index '' @ ''User'' @ ''.'' @ ''email'' @ '' conflict: ''
      = ''sqlitex: '' @ what @ '' User: unique index User.email conflict: ''" by simp_all
  have email: "xf_ProtoName (idx ''Email'' ''email'' ''string'' 3 True) = ''email''" by (simp add: idx_def)
  show ?thesis
  proof (cases "user_Serialize E m")
    case (Some v)
    show ?thesis
    proof (cases "user_Get E (u_Id m) h")
      case got: (Some g)
      obtain h1 r where g: "g = (h1, r)" by fastforce
      obtain h2 existing where ex: "db_Get E (EncodeUniqueIndexKey user_tableID 3 (encodeUserIndexEmailValue (u_Email m))) h1 = (h2, existing)"
        by fastforce
      show ?thesis
        using Some got g ex
        by (cases existing)
           (simp_all add: gen_save_def user_save_def gen_value_def user_store_fields user_gen_Serialize user_struct_pk user_pk
              user_gen_Get ignore_error_map user_gen_deletes user_index_keys email Let_def)
    qed (use Some in \<open>simp add: gen_save_def user_save_def gen_value_def user_store_fields user_gen_Serialize
        user_struct_pk user_pk user_gen_Get Let_def\<close>)
  qed (simp add: gen_save_def user_save_def gen_value_def user_store_fields user_gen_Serialize Let_def)
qed

lemma user_order: "st_UniqueFields user_store_data @ st_NormalFields user_store_data = st_IndexedFields user_store_data"
  by (simp add: user_store_fields)

lemma user_gen_Create:
  "gen_Create E F user_store_data user_d (map_option user_struct mp) h = user_Create E mp h"
  by (cases mp) (simp_all add: gen_Create_def user_Create_def user_gen_save user_store_fields(1))

lemma user_gen_Update:
  "gen_Update E F user_store_data user_d (map_option user_struct mp) h = user_Update E mp h"
  by (cases mp) (simp_all add: gen_Update_def user_Update_def user_gen_save [unfolded user_order] user_store_fields(1))

lemma user_gen_Delete: "gen_Delete E F user_store_data user_d (G64 i) h = user_Delete E i h"
  by (cases "user_Get E i h")
     (auto simp: gen_Delete_def user_Delete_def user_store_fields(3,4) user_pk user_gen_Get ignore_error_map user_gen_deletes Let_def)

lemma session_gen_save:
  "gen_save what order E F session_store_data session_d (session_struct m) h = session_save E m h"
  if "order = st_IndexedFields session_store_data"
proof -
  obtain now h0 where now: "db_now E h = (now, h0)" by fastforce
  show ?thesis
  proof (cases "session_SerializeWithExpiry (now + session_ttl) m")
    case (Some v)
    show ?thesis
      by (cases "session_Get E (s_Id m) h0")
         (auto simp: that gen_save_def session_save_def gen_value_def session_store_fields session_gen_Serialize
            session_struct_pk session_pk session_gen_Get ignore_error_map session_gen_deletes session_index_keys now Some Let_def)
  qed (simp add: gen_save_def session_save_def gen_value_def session_store_fields session_gen_Serialize now Let_def)
qed

lemma session_order: "st_UniqueFields session_store_data @ st_NormalFields session_store_data = st_IndexedFields session_store_data"
  by (simp add: session_store_fields)

lemma session_gen_Create:
  "gen_Create E F session_store_data session_d (map_option session_struct mp) h = session_Create E mp h"
  by (cases mp) (simp_all add: gen_Create_def session_Create_def session_gen_save session_order session_store_fields(1))

lemma session_gen_Update:
  "gen_Update E F session_store_data session_d (map_option session_struct mp) h = session_Update E mp h"
  by (cases mp) (simp_all add: gen_Update_def session_Update_def session_gen_save session_store_fields(1))

lemma session_gen_Delete: "gen_Delete E F session_store_data session_d (G64 i) h = session_Delete E i h"
  by (cases "session_Get E i h")
     (auto simp: gen_Delete_def session_Delete_def session_store_fields(3,4) session_pk session_gen_Get ignore_error_map
        session_gen_deletes Let_def)

lemma session_gen_purge: "gen_PurgeExpired E F session_store_data session_d h = PurgeExpired E h"
proof -
  have body: "gen_purge_body E F session_store_data session_d = purge_body E"
    by (intro ext)
       (simp add: gen_purge_body_def purge_body_def session_gen_DeserializeMeta session_gen_delete
          split: option.split sum.split)
  show ?thesis unfolding gen_PurgeExpired_def PurgeExpired_def session_store_fields(3) body ..
qed

section \<open>Properties\<close>

text \<open>
  C18. The stores of the generated file are what the generator produces: for the tables \<open>BuildIR\<close> computes from
  \<open>testmodels.proto\<close>, every emitted method of the user store and the session store is the method in the file, on
  every record, in every state of the database.
\<close>

theorem generator_reproduces_stores:
  "\<exists>u s xu xs. BuildIR [testmodels_proto] = Inr [u, s] \<and> buildStoreData u = Some xu \<and> buildStoreData s = Some xs
    \<and> gen_Create E F xu (buildSerializerData u) (map_option user_struct m) h = user_Create E m h
    \<and> gen_Update E F xu (buildSerializerData u) (map_option user_struct m) h = user_Update E m h
    \<and> gen_Delete E F xu (buildSerializerData u) (G64 i) h = user_Delete E i h
    \<and> gen_Get E F xu (buildSerializerData u) (G64 i) h
        = map_option (\<lambda>(h', r). (h', map_sum id (map_option user_struct) r)) (user_Get E i h)
    \<and> gen_Create E F xs (buildSerializerData s) (map_option session_struct n) h = session_Create E n h
    \<and> gen_Update E F xs (buildSerializerData s) (map_option session_struct n) h = session_Update E n h
    \<and> gen_Delete E F xs (buildSerializerData s) (G64 i) h = session_Delete E i h
    \<and> gen_Get E F xs (buildSerializerData s) (G64 i) h
        = map_option (\<lambda>(h', r). (h', map_sum id (map_option session_struct) r)) (session_Get E i h)
    \<and> gen_PurgeExpired E F xs (buildSerializerData s) h = PurgeExpired E h"
  by (rule exI [of _ user_table], rule exI [of _ session_table], rule exI [of _ user_store_data],
      rule exI [of _ session_store_data])
     (simp only: BuildIR_testmodels user_store_data session_store_data user_gen_Create user_gen_Update user_gen_Delete
        user_gen_Get session_gen_Create session_gen_Update session_gen_Delete session_gen_Get session_gen_purge simp_thms)

end
