(* ===== verification/Base64.thy ===== *)
theory Base64
  imports Prelude
begin

text \<open>
  The text form of a key in the admin panel: \<open>base64.RawURLEncoding\<close> of Go's standard library, the URL alphabet
  without padding.  As there, the decoder passes over line feeds and carriage returns, refuses every other byte
  outside the alphabet and a lone last character, and ignores the unused low bits of the last one.
\<close>

unbundle bit_operations_syntax

definition b64_char :: "8 word \<Rightarrow> 8 word" where
  "b64_char v =
     (if v < 26 then v + 65 else if v < 52 then v + 71 else if v < 62 then v - 4 else if v = 62 then 45 else 95)"

definition b64_index :: "8 word \<Rightarrow> 8 word option" where
  "b64_index c =
     (if 65 \<le> c \<and> c \<le> 90 then Some (c - 65)
      else if 97 \<le> c \<and> c \<le> 122 then Some (c - 71)
      else if 48 \<le> c \<and> c \<le> 57 then Some (c + 4)
      else if c = 45 then Some 62 else if c = 95 then Some 63 else None)"

text \<open>The four six-bit groups of three bytes, and the bytes of the groups; a missing byte counts as zero.\<close>

definition b64_s0 :: "8 word \<Rightarrow> 8 word" where "b64_s0 a = drop_bit 2 a"
definition b64_s1 :: "8 word \<Rightarrow> 8 word \<Rightarrow> 8 word" where "b64_s1 a b = push_bit 4 (a AND 3) OR drop_bit 4 b"
definition b64_s2 :: "8 word \<Rightarrow> 8 word \<Rightarrow> 8 word" where "b64_s2 b c = push_bit 2 (b AND 15) OR drop_bit 6 c"
definition b64_s3 :: "8 word \<Rightarrow> 8 word" where "b64_s3 c = c AND 63"

definition b64_b0 :: "8 word \<Rightarrow> 8 word \<Rightarrow> 8 word" where "b64_b0 x y = push_bit 2 x OR drop_bit 4 y"
definition b64_b1 :: "8 word \<Rightarrow> 8 word \<Rightarrow> 8 word" where "b64_b1 y z = push_bit 4 y OR drop_bit 2 z"
definition b64_b2 :: "8 word \<Rightarrow> 8 word \<Rightarrow> 8 word" where "b64_b2 z w = push_bit 6 z OR w"

fun b64_split :: "bytes \<Rightarrow> bytes" where
  "b64_split [] = []"
| "b64_split [a] = [b64_s0 a, b64_s1 a 0]"
| "b64_split [a, b] = [b64_s0 a, b64_s1 a b, b64_s2 b 0]"
| "b64_split (a # b # c # r) = b64_s0 a # b64_s1 a b # b64_s2 b c # b64_s3 c # b64_split r"

fun b64_join :: "bytes \<Rightarrow> bytes option" where
  "b64_join [] = Some []"
| "b64_join [x] = None"
| "b64_join [x, y] = Some [b64_b0 x y]"
| "b64_join [x, y, z] = Some [b64_b0 x y, b64_b1 y z]"
| "b64_join (x # y # z # w # r) = map_option ((@) [b64_b0 x y, b64_b1 y z, b64_b2 z w]) (b64_join r)"

fun b64_indexes :: "bytes \<Rightarrow> bytes option" where
  "b64_indexes [] = Some []"
| "b64_indexes (c # cs) =
     (if c = 10 \<or> c = 13 then b64_indexes cs
      else (case b64_index c of None \<Rightarrow> None | Some v \<Rightarrow> map_option ((#) v) (b64_indexes cs)))"

definition b64_encode :: "bytes \<Rightarrow> bytes" where
  "b64_encode b = map b64_char (b64_split b)"

definition b64_decode :: "bytes \<Rightarrow> bytes option" where
  "b64_decode s = Option.bind (b64_indexes s) b64_join"

lemma b64_char_index:
  assumes "v < 64" shows "b64_index (b64_char v) = Some v \<and> b64_char v \<noteq> 10 \<and> b64_char v \<noteq> 13"
proof -
  have "unat v \<in> set [0..<64]" using assms by (simp add: word_less_nat_alt)
  moreover have "\<forall>n \<in> set [0..<64]. b64_index (b64_char (word_of_nat n)) = Some (word_of_nat n)
      \<and> b64_char (word_of_nat n) \<noteq> 10 \<and> b64_char (word_of_nat n) \<noteq> 13"
    by code_simp
  ultimately have "b64_index (b64_char (word_of_nat (unat v))) = Some (word_of_nat (unat v))
      \<and> b64_char (word_of_nat (unat v)) \<noteq> 10 \<and> b64_char (word_of_nat (unat v)) \<noteq> 13"
    by (rule bspec [rotated])
  then show ?thesis by simp
qed

lemma b64_masks: "(3 :: 8 word) = mask 2" "(15 :: 8 word) = mask 4" "(63 :: 8 word) = mask 6"
  by (simp_all add: mask_eq_exp_minus_1)

lemmas b64_groups = b64_s0_def b64_s1_def b64_s2_def b64_s3_def b64_b0_def b64_b1_def b64_b2_def

lemma b64_small: "(\<And>n. 6 \<le> n \<Longrightarrow> \<not> bit x n) \<Longrightarrow> x < (64 :: 8 word)"
proof -
  assume h: "\<not> bit x n" if "6 \<le> n" for n
  have "bit x n \<longleftrightarrow> bit (take_bit 6 x) n" for n using h [of n] by (cases "6 \<le> n") (simp_all add: bit_take_bit_iff)
  then have "x = take_bit 6 x" by (rule bit_word_eqI)
  moreover have "take_bit 6 x < 64" by (simp add: take_bit_eq_mod word_mod_less_divisor)
  ultimately show ?thesis by simp
qed

lemma b64_six_bits: "b64_s0 a < 64" "b64_s1 a b < 64" "b64_s2 b c < 64" "b64_s3 c < 64"
  by (rule b64_small, auto simp: b64_groups b64_masks bit_simps dest: bit_imp_le_length)+

lemma b64_bytes:
  "b64_b0 (b64_s0 a) (b64_s1 a b) = a" "b64_b1 (b64_s1 a b) (b64_s2 b c) = b" "b64_b2 (b64_s2 b c) (b64_s3 c) = c"
proof -
  have 2: "Suc (Suc (n - 2)) = n" if "2 \<le> n" for n using that by simp
  show "b64_b0 (b64_s0 a) (b64_s1 a b) = a"
  proof (rule bit_word_eqI)
    fix n :: nat assume "n < LENGTH(8)"
    then show "bit (b64_b0 (b64_s0 a) (b64_s1 a b)) n = bit a n"
      by (cases "2 \<le> n") (auto simp: b64_groups b64_masks bit_simps 2)
  qed
  show "b64_b1 (b64_s1 a b) (b64_s2 b c) = b"
  proof (rule bit_word_eqI)
    fix n :: nat assume "n < LENGTH(8)"
    then show "bit (b64_b1 (b64_s1 a b) (b64_s2 b c)) n = bit b n"
      by (cases "4 \<le> n") (auto simp: b64_groups b64_masks bit_simps 2)
  qed
  show "b64_b2 (b64_s2 b c) (b64_s3 c) = c"
    by (rule bit_word_eqI) (auto simp: b64_groups b64_masks bit_simps 2)
qed

lemma b64_indexes_char: "list_all (\<lambda>v. v < 64) vs \<Longrightarrow> b64_indexes (map b64_char vs) = Some vs"
  by (induction vs) (simp_all add: b64_char_index)

lemma b64_split_small: "list_all (\<lambda>v. v < 64) (b64_split b)"
  by (induction b rule: b64_split.induct) (simp_all add: b64_six_bits)

lemma b64_join_split: "b64_join (b64_split b) = Some b"
  by (induction b rule: b64_split.induct) (simp_all add: b64_bytes)

lemma b64_decode_encode [simp]: "b64_decode (b64_encode b) = Some b"
  by (simp add: b64_decode_def b64_encode_def b64_indexes_char b64_split_small b64_join_split)

lemma b64_encode_empty [simp]: "b64_encode b = [] \<longleftrightarrow> b = []"
  by (cases b rule: b64_split.cases) (simp_all add: b64_encode_def)

lemma b64_decode_Nil [simp]: "b64_decode [] = Some []"
  by (simp add: b64_decode_def)

lemma b64_encode_inj [simp]: "b64_encode b = b64_encode b' \<longleftrightarrow> b = b'"
  by (metis b64_decode_encode option.inject)

end
