(* ===== verification/AdminPages.thy ===== *)
theory AdminPages
  imports Admin StoreGen Base64
begin

text \<open>
  The handlers of the admin panel (\<open>cmd/sqlitex-admin/main.go\<close>) that read the store: the paged list of
  keys and the view of one key.  The panel opens the engine read-only and uses its iterators directly, so
  the state \<open>p\<close> does not change.  Reading the request and writing JSON are left out.
\<close>


section \<open>The handlers\<close>

text \<open>
  \<open>key_b64\<close> and \<open>next_cursor\<close> are base64 texts (\<open>b64_encode\<close>); the empty \<open>next_cursor\<close>, which the JSON
  omits, is the end of the list.
\<close>

record rowView =
  rv_Fields :: "decodedField list"
  rv_ExpiresAt :: "64 word option"
  rv_Expired :: bool

record keyEntry =
  ke_Key :: bytes
  ke_KeyB64 :: bytes
  ke_Size :: nat
  ke_Preview :: bytes
  ke_Decoded :: "decodedKey option"
  ke_Row :: "rowView option"

record keysResponse =
  kr_Entries :: "keyEntry list"
  kr_NextCursor :: bytes

definition buildEntry ::
  "('p, 'b, 'i) platform \<Rightarrow> float_texts \<Rightarrow> 64 word \<Rightarrow> schemaStore \<Rightarrow> bytes \<Rightarrow> bytes \<Rightarrow> bool \<Rightarrow> keyEntry option" where
  "buildEntry E F now s k v decode = do {
     let entry = \<lparr>ke_Key = printable k, ke_KeyB64 = b64_encode k, ke_Size = length v, ke_Preview = printable (take 64 v),
                  ke_Decoded = None, ke_Row = None\<rparr>;
     d \<leftarrow> ss_decodeKey k s;
     (if dk_Kind d = ''unknown'' then Some entry
      else
        (let entry = entry\<lparr>ke_Decoded := Some d\<rparr> in
         if decode \<and> dk_Kind d = ''data''
         then
           (case tableOf k s of
              None \<Rightarrow> None
            | Some None \<Rightarrow> Some entry
            | Some (Some ts) \<Rightarrow>
                map_option (\<lambda>dv. entry\<lparr>ke_Row := Some \<lparr>rv_Fields = dv_Fields dv, rv_ExpiresAt = dv_ExpiresAt dv,
                    rv_Expired = dv_Expired dv\<rparr>\<rparr>) (ss_decodeValue E F now ts v))
         else Some entry))
   }"

text \<open>
  The loop of \<open>handleKeysPhysical\<close> with room for \<open>n\<close> more entries: the rows it visits, and whether it
  stopped at a further row with the prefix.
\<close>

fun keys_loop :: "('p, 'b, 'i) platform \<Rightarrow> bytes \<Rightarrow> nat \<Rightarrow> 'i \<Rightarrow> (bytes \<times> bytes) list \<times> bool" where
  "keys_loop E pre 0 it = ([], pb_Valid E it \<and> prefix pre (pb_Key E it))"
| "keys_loop E pre (Suc n) it =
     (if pb_Valid E it \<and> prefix pre (pb_Key E it)
      then (let (rows, more) = keys_loop E pre n (pb_Next E it)
            in ((pb_Key E it, pb_Value E it) # rows, more))
      else ([], False))"

fun build_entries ::
  "('p, 'b, 'i) platform \<Rightarrow> float_texts \<Rightarrow> 64 word \<Rightarrow> schemaStore \<Rightarrow> bool \<Rightarrow> (bytes \<times> bytes) list \<Rightarrow> keyEntry list option" where
  "build_entries E F now s decode [] = Some []"
| "build_entries E F now s decode ((k, v) # rows) =
     (case buildEntry E F now s k v decode of
        None \<Rightarrow> None
      | Some entry \<Rightarrow> map_option ((#) entry) (build_entries E F now s decode rows))"

definition lastKeyOf :: "keyEntry list \<Rightarrow> bytes option" where
  "lastKeyOf entries = (if entries = [] then None else Some (ke_KeyB64 (last entries)))"

text \<open>\<open>cur\<close> is the text of the parameter \<open>cursor\<close>, empty when it is absent.\<close>

definition handleKeysPhysical ::
  "('p, 'b, 'i) platform \<Rightarrow> float_texts \<Rightarrow> 64 word \<Rightarrow> schemaStore \<Rightarrow> 'p \<Rightarrow> bytes \<Rightarrow> bytes \<Rightarrow> nat \<Rightarrow> bool
    \<Rightarrow> (go_error + keysResponse) option" where
  "handleKeysPhysical E F now s p cur pre limit decode =
     (case pb_NewIter E p pre of
        Inl err \<Rightarrow> Some (Inl err)
      | Inr it \<Rightarrow>
          (let start =
             (if cur \<noteq> []
              then
                (case b64_decode cur of
                   None \<Rightarrow> None
                 | Some lst \<Rightarrow>
                     if length lst = 0 then None
                     else
                       (let i = pb_SeekGE E lst it
                        in Some (if pb_Valid E i \<and> pb_Key E i = lst then pb_Next E i else i)))
              else Some (pb_SeekGE E pre it))
           in case start of
                None \<Rightarrow> Some (Inl (ErrorMsg ''invalid cursor''))
              | Some it1 \<Rightarrow>
                  (let (rows, more) = keys_loop E pre limit it1
                   in (case build_entries E F now s decode rows of
                         None \<Rightarrow> None
                       | Some entries \<Rightarrow>
                           if more
                           then map_option (\<lambda>t. Inr \<lparr>kr_Entries = entries, kr_NextCursor = t\<rparr>) (lastKeyOf entries)
                           else Some (Inr \<lparr>kr_Entries = entries, kr_NextCursor = []\<rparr>)))))"

text \<open>\<open>fmt.Sscanf\<close> and \<open>strconv.ParseUint\<close> have read the parameters: \<open>None\<close> where they fail.\<close>

definition atoiClamp :: "int option \<Rightarrow> int \<Rightarrow> int \<Rightarrow> int" where
  "atoiClamp s lo hi =
     (case s of None \<Rightarrow> 0 | Some n \<Rightarrow> if n < lo then lo else if hi < n then hi else n)"

definition handleKeys ::
  "('p, 'b, 'i) platform \<Rightarrow> float_texts \<Rightarrow> 64 word \<Rightarrow> schemaStore \<Rightarrow> 'p \<Rightarrow> bytes \<Rightarrow> bytes
    \<Rightarrow> int option \<Rightarrow> 64 word option option \<Rightarrow> bool \<Rightarrow> (go_error + keysResponse) option" where
  "handleKeys E F now s p cur pre limit_param table_id decode =
     (let n = atoiClamp limit_param 1 500; limit = (if 0 < n then n else 50)
      in case table_id of
           Some None \<Rightarrow> Some (Inl (ErrorMsg ''invalid table_id''))
         | Some (Some i) \<Rightarrow> handleKeysPhysical E F now s p cur (encodeDataKeyPrefix i) (nat limit) decode
         | None \<Rightarrow> handleKeysPhysical E F now s p cur pre (nat limit) decode)"

text \<open>The schema part of \<open>handleKey\<close>: the decoded key, with its primary key for an index key, and the value.\<close>

definition handleKey_decoded ::
  "('p, 'b, 'i) platform \<Rightarrow> float_texts \<Rightarrow> 64 word \<Rightarrow> schemaStore \<Rightarrow> bytes \<Rightarrow> bytes
    \<Rightarrow> (decodedKey option \<times> decodedValue option) option" where
  "handleKey_decoded E F now s kb val = do {
     d \<leftarrow> ss_decodeKey kb s;
     (if dk_Kind d = ''data''
      then (case tableOf kb s of
              None \<Rightarrow> None
            | Some None \<Rightarrow> Some (None, None)
            | Some (Some ts) \<Rightarrow> map_option (\<lambda>dv. (Some d, Some dv)) (ss_decodeValue E F now ts val))
      else if dk_Kind d = ''index''
      then (case tableOfIndex kb s of
              None \<Rightarrow> None
            | Some None \<Rightarrow> Some (Some d, None)
            | Some (Some ts) \<Rightarrow> map_option (\<lambda>pk. (Some (d\<lparr>dk_PK := Some pk\<rparr>), None)) (decodePK ts val))
      else Some (None, None))
   }"

definition maxValueDumpBytes :: nat where "maxValueDumpBytes = 262144"
definition maxValuePrintBytes :: nat where "maxValuePrintBytes = 4096"

definition truncateForDump :: "bytes \<Rightarrow> bytes \<times> bytes \<times> bool" where
  "truncateForDump val =
     (if maxValueDumpBytes < length val
      then (concat (map hex_byte (take maxValueDumpBytes val)), printable (take maxValuePrintBytes val), True)
      else if maxValuePrintBytes < length val
      then (concat (map hex_byte val), printable (take maxValuePrintBytes val), False)
      else (concat (map hex_byte val), printable val, False))"

section \<open>One page\<close>

lemma buildEntry_key: "buildEntry E F now s k v decode = Some e \<Longrightarrow> ke_KeyB64 e = b64_encode k"
  by (auto simp: buildEntry_def Let_def split: if_splits option.splits Option.bind_splits)

lemma buildEntry_total: "schema_ok s \<Longrightarrow> buildEntry E F now s k v decode \<noteq> None"
proof -
  assume s: "schema_ok s"
  note T = admin_total [OF s, of k E F now _ v]
  obtain d o' where d: "ss_decodeKey k s = Some d" "tableOf k s = Some o'" using T by blast
  show ?thesis
  proof (cases o')
    case None
    with d show ?thesis by (simp add: buildEntry_def Let_def)
  next
    case (Some ts)
    obtain dv where "ss_decodeValue E F now ts v = Some dv" using T by blast
    with d Some show ?thesis by (simp add: buildEntry_def Let_def)
  qed
qed

lemma build_entries_eq:
  "schema_ok s \<Longrightarrow> build_entries E F now s decode rows
    = Some (map (\<lambda>(k, v). the (buildEntry E F now s k v decode)) rows)"
proof (induction rows)
  case (Cons r rows)
  obtain k v where r: "r = (k, v)" by fastforce
  obtain e where "buildEntry E F now s k v decode = Some e" using buildEntry_total [OF Cons.prems] by blast
  with Cons r show ?case by simp
qed simp

lemma keys_loop_eq:
  assumes laws: "iter_laws E view snap pos"
  shows "pos it = Some n \<Longrightarrow>
    keys_loop E pre lim it =
      (let rows = takeWhile (\<lambda>e. prefix pre (fst e)) (drop n (snap it)) in (take lim rows, lim < length rows))"
proof (induction lim arbitrary: it n)
  case 0
  note L = iter_laws_D [OF laws]
  show ?case
  proof (cases "n < length (snap it)")
    case True
    then show ?thesis using 0 L(9,10) [of it] by (auto simp: Cons_nth_drop_Suc [symmetric])
  next
    case False
    then show ?thesis using 0 L(9) [of it] by auto
  qed
next
  case (Suc lim)
  note L = iter_laws_D [OF laws]
  show ?case
  proof (cases "n < length (snap it)")
    case True
    then have "pos (pb_Next E it) = Some (Suc n)" "snap (pb_Next E it) = snap it" using Suc.prems L(3,5) by auto
    with True Suc L(9,10,11) [of it] show ?thesis
      by (auto simp: Cons_nth_drop_Suc [symmetric] Let_def prod_eq_iff split: prod.split)
  next
    case False
    then show ?thesis using Suc.prems L(9) [of it] by auto
  qed
qed


text \<open>The key a cursor text stands for, \<open>None\<close> inside when there is no cursor; an invalid text has none.\<close>

definition cursor_key :: "bytes \<Rightarrow> bytes option option" where
  "cursor_key cur =
     (if cur = [] then Some None
      else (case b64_decode cur of None \<Rightarrow> None | Some t \<Rightarrow> if t = [] then None else Some (Some t)))"

lemma cursor_key_simps [simp]:
  "cursor_key [] = Some None" "t \<noteq> [] \<Longrightarrow> cursor_key (b64_encode t) = Some (Some t)"
  by (simp_all add: cursor_key_def)

definition after_cursor :: "bytes option \<Rightarrow> bytes \<Rightarrow> bool" where
  "after_cursor c k = (case c of Some t \<Rightarrow> t < k | None \<Rightarrow> True)"

definition page_rows :: "bytes option \<Rightarrow> bytes \<Rightarrow> kv_map \<Rightarrow> (bytes \<times> bytes) list" where
  "page_rows c pre m = filter (\<lambda>e. prefix pre (fst e) \<and> after_cursor c (fst e)) (sorted_entries m)"

lemma handleKeysPhysical_bad:
  "pb_NewIter E p pre = Inr it \<Longrightarrow> cursor_key cur = None \<Longrightarrow>
    handleKeysPhysical E F now s p cur pre limit decode = Some (Inl (ErrorMsg ''invalid cursor''))"
  by (auto simp: handleKeysPhysical_def cursor_key_def split: if_splits option.splits)

lemma handleKeysPhysical_eq:
  assumes laws: "iter_laws E view snap pos" and s: "schema_ok s" and cur: "cursor_key cur = Some c" and lim: "0 < limit"
  shows "handleKeysPhysical E F now s p cur pre limit decode
    = Some (Inr \<lparr>kr_Entries = map (\<lambda>(k, v). the (buildEntry E F now s k v decode)) (take limit (page_rows c pre (view p))),
        kr_NextCursor = (if limit < length (page_rows c pre (view p))
          then b64_encode (fst (page_rows c pre (view p) ! (limit - 1))) else [])\<rparr>)"
proof -
  note L = iter_laws_D [OF laws]
  let ?m = "view p"
  let ?rows = "page_rows c pre ?m"
  have fin: "finite (dom ?m)" by (rule iter_finite [OF laws])
  obtain it where it: "pb_NewIter E p pre = Inr it" "snap it = entries_from pre ?m"
    using iter_laws_new [OF laws] by blast
  have sd: "sorted (map fst (snap it))" "distinct (map fst (snap it))"
    using entries_from_sorted [OF fin, of pre] it(2) by auto
  define it1 where "it1 = (case c of
      Some t \<Rightarrow> (let i = pb_SeekGE E t it in if pb_Valid E i \<and> pb_Key E i = t then pb_Next E i else i)
    | None \<Rightarrow> pb_SeekGE E pre it)"
  have handler: "handleKeysPhysical E F now s p cur pre limit decode =
      (let (rows, more) = keys_loop E pre limit it1
       in (case build_entries E F now s decode rows of
             None \<Rightarrow> None
           | Some entries \<Rightarrow>
               if more
               then map_option (\<lambda>t. Inr \<lparr>kr_Entries = entries, kr_NextCursor = t\<rparr>) (lastKeyOf entries)
               else Some (Inr \<lparr>kr_Entries = entries, kr_NextCursor = []\<rparr>)))"
    using cur it(1) by (auto simp: handleKeysPhysical_def cursor_key_def it1_def Let_def split: if_splits option.splits)
  have "\<exists>n. pos it1 = Some n \<and> snap it1 = snap it
      \<and> drop n (snap it) = filter (\<lambda>e. after_cursor c (fst e)) (entries_from pre ?m)"
  proof (cases c)
    case (Some t)
    let ?i = "pb_SeekGE E t it" and ?n = "first_ge t (snap it)"
    have i: "pos ?i = Some ?n" "snap ?i = snap it" using L(6,7) by auto
    have at: "pb_Valid E ?i \<and> pb_Key E ?i = t \<longleftrightarrow> ?n < length (snap it) \<and> fst (snap it ! ?n) = t"
      using L(9,10) [of ?i] i by auto
    have aft: "after_cursor c = (\<lambda>k. t < k)" by (simp add: after_cursor_def Some fun_eq_iff)
    show ?thesis
    proof (cases "?n < length (snap it) \<and> fst (snap it ! ?n) = t")
      case True
      then have "it1 = pb_Next E ?i" using at by (simp add: it1_def Some)
      moreover have "pos (pb_Next E ?i) = Some (Suc ?n)" "snap (pb_Next E ?i) = snap it"
        using L(3,5) [of ?i] i True by auto
      ultimately show ?thesis using first_gt [OF sd, of t] True it(2) aft by auto
    next
      case False
      then have "it1 = ?i" using at by (auto simp: it1_def Some Let_def)
      with i show ?thesis using first_gt [OF sd, of t] False it(2) aft by auto
    qed
  next
    case None
    have le: "pre \<le> fst e" if "e \<in> set (snap it)" for e using that it(2) by (auto simp: entries_from_def)
    have "first_ge pre (snap it) = 0"
      using le [of "hd (snap it)"] by (cases "snap it") (auto simp: first_ge_def not_less)
    with None L(6,7) it(2) show ?thesis
      by (intro exI [of _ 0]) (simp add: it1_def after_cursor_def)
  qed
  then obtain n where n: "pos it1 = Some n" "snap it1 = snap it"
    "drop n (snap it) = filter (\<lambda>e. after_cursor c (fst e)) (entries_from pre ?m)" by blast
  have rows: "takeWhile (\<lambda>e. prefix pre (fst e)) (drop n (snap it)) = ?rows"
    using takeWhile_entries [OF fin, of pre "\<lambda>e. after_cursor c (fst e)"] by (simp add: n(3) page_rows_def)
  have loop: "keys_loop E pre limit it1 = (take limit ?rows, limit < length ?rows)"
    using keys_loop_eq [OF laws n(1), of pre limit] rows n(2) by (simp add: Let_def)
  show ?thesis
  proof (cases "limit < length ?rows")
    case True
    let ?es = "map (\<lambda>(k, v). the (buildEntry E F now s k v decode)) (take limit ?rows)"
    have ne: "take limit ?rows \<noteq> []" using True lim by (cases ?rows; cases limit) auto
    have "last (take limit ?rows) = ?rows ! (limit - 1)"
      using True lim ne by (simp add: last_conv_nth)
    moreover obtain e where "buildEntry E F now s (fst (?rows ! (limit - 1))) (snd (?rows ! (limit - 1))) decode = Some e"
      using buildEntry_total [OF s] by blast
    ultimately have "lastKeyOf ?es = Some (b64_encode (fst (?rows ! (limit - 1))))"
      using ne by (simp add: lastKeyOf_def last_map case_prod_unfold buildEntry_key)
    with True loop show ?thesis
      by (simp add: handler build_entries_eq [OF s])
  next
    case False
    with False loop show ?thesis
      by (simp add: handler build_entries_eq [OF s])
  qed
qed


section \<open>All pages\<close>

text \<open>A client that follows the cursors; \<open>k\<close> bounds the number of pages it asks for.\<close>

fun admin_pages ::
  "nat \<Rightarrow> ('p, 'b, 'i) platform \<Rightarrow> float_texts \<Rightarrow> 64 word \<Rightarrow> schemaStore \<Rightarrow> 'p \<Rightarrow> bytes \<Rightarrow> bytes
    \<Rightarrow> int option \<Rightarrow> 64 word option option \<Rightarrow> bool \<Rightarrow> keyEntry list option" where
  "admin_pages 0 E F now s p cur pre lim tab decode = None"
| "admin_pages (Suc k) E F now s p cur pre lim tab decode =
     (case handleKeys E F now s p cur pre lim tab decode of
        Some (Inr r) \<Rightarrow>
          (if kr_NextCursor r = [] then Some (kr_Entries r)
           else map_option ((@) (kr_Entries r)) (admin_pages k E F now s p (kr_NextCursor r) pre lim tab decode))
      | _ \<Rightarrow> None)"

lemma filter_after_nth:
  "sorted (map fst es) \<Longrightarrow> distinct (map fst es) \<Longrightarrow> i < length es \<Longrightarrow>
    filter (\<lambda>e. fst (es ! i) < fst e) es = drop (Suc i) (es :: (bytes \<times> 'a) list)"
proof (induction es arbitrary: i)
  case (Cons e es)
  have gt: "fst e < fst e'" if "e' \<in> set es" for e' using Cons.prems(1,2) that by (auto simp: order_less_le)
  show ?case
  proof (cases i)
    case 0
    then show ?thesis using gt by (auto simp: filter_id_conv)
  next
    case (Suc j)
    then have "j < length es" using Cons.prems(3) by simp
    moreover from this have "\<not> fst (es ! j) < fst e" using gt [of "es ! j"] by (simp add: order_less_imp_not_less)
    ultimately show ?thesis using Cons Suc by simp
  qed
qed simp

lemma page_rows_next:
  assumes fin: "finite (dom m)" and i: "0 < limit" "limit < length (page_rows c pre m)"
  shows "page_rows (Some (fst (page_rows c pre m ! (limit - 1)))) pre m = drop limit (page_rows c pre m)"
proof -
  let ?rows = "page_rows c pre m" and ?t = "fst (page_rows c pre m ! (limit - 1))"
  have sd: "sorted (map fst (sorted_entries m))" "distinct (map fst (sorted_entries m))"
    using entries_from_sorted [OF fin, of "[]"] by (simp_all add: entries_from_def)
  then have rows: "sorted (map fst ?rows)" "distinct (map fst ?rows)"
    by (simp_all add: page_rows_def sorted_filter distinct_map_filter)
  have "?rows ! (limit - 1) \<in> set ?rows" using i by (intro nth_mem) simp
  then have t: "after_cursor c ?t" by (simp add: page_rows_def)
  have aft: "after_cursor c k" if "?t < k" for k
    using t that by (cases c) (auto simp: after_cursor_def)
  have "page_rows (Some x) pre m = filter (\<lambda>e. x < fst e) ?rows" if "\<And>k. x < k \<Longrightarrow> after_cursor c k" for x
    using that by (auto simp: page_rows_def after_cursor_def [of "Some x"] intro!: filter_cong)
  from this [OF aft] have "page_rows (Some ?t) pre m = filter (\<lambda>e. ?t < fst e) ?rows" .
  also have "\<dots> = drop limit ?rows" using filter_after_nth [OF rows, of "limit - 1"] i by simp
  finally show ?thesis .
qed

definition page_limit :: "int option \<Rightarrow> nat" where
  "page_limit lim = (let n = atoiClamp lim 1 500 in nat (if 0 < n then n else 50))"

lemma page_limit_bounds: "1 \<le> page_limit lim \<and> page_limit lim \<le> 500"
  by (auto simp: page_limit_def atoiClamp_def Let_def split: option.split)

definition page_prefix :: "64 word option option \<Rightarrow> bytes \<Rightarrow> bytes" where
  "page_prefix tab pre = (case tab of Some (Some i) \<Rightarrow> EncodeKey i [] | _ \<Rightarrow> pre)"

lemma handleKeys_eq:
  "tab \<noteq> Some None \<Longrightarrow> handleKeys E F now s p cur pre lim tab decode
    = handleKeysPhysical E F now s p cur (page_prefix tab pre) (page_limit lim) decode"
  by (auto simp: handleKeys_def page_prefix_def page_limit_def encodeDataKeyPrefix_def EncodeKey_def DataPrefix_def
      Let_def split: option.split)

lemma page_rows_nonempty:
  assumes "m [] = None" and "finite (dom m)" and "e \<in> set (page_rows c pre m)" shows "fst e \<noteq> []"
proof -
  have "e \<in> set (sorted_entries m)" using assms(3) by (simp add: page_rows_def)
  then have "m (fst e) \<noteq> None" using assms(2) by (auto simp: sorted_entries_def)
  with assms(1) show ?thesis by auto
qed

lemma admin_pages_eq:
  assumes laws: "iter_laws E view snap pos" and s: "schema_ok s" and tab: "tab \<noteq> Some None" and key: "view p [] = None"
  shows "cursor_key cur = Some c \<Longrightarrow> length (page_rows c (page_prefix tab pre) (view p)) \<le> Suc k * page_limit lim \<Longrightarrow>
    admin_pages (Suc k) E F now s p cur pre lim tab decode
      = Some (map (\<lambda>(k, v). the (buildEntry E F now s k v decode)) (page_rows c (page_prefix tab pre) (view p)))"
proof (induction k arbitrary: cur c)
  case 0
  with page_limit_bounds [of lim] show ?case
    by (simp add: handleKeys_eq [OF tab] handleKeysPhysical_eq [OF laws s])
next
  case (Suc k)
  let ?n = "page_limit lim" and ?pre = "page_prefix tab pre"
  let ?rows = "page_rows c ?pre (view p)"
  let ?t = "fst (?rows ! (?n - 1))"
  have pos: "0 < ?n" using page_limit_bounds [of lim] by simp
  note page = handleKeysPhysical_eq [OF laws s Suc.prems(1) pos, of F now p ?pre decode]
  show ?case
  proof (cases "?n < length ?rows")
    case False
    then show ?thesis using page by (simp add: handleKeys_eq [OF tab])
  next
    case True
    have "?rows ! (?n - 1) \<in> set ?rows" using True by (intro nth_mem) simp
    then have ne: "?t \<noteq> []" using page_rows_nonempty [OF key iter_finite [OF laws]] by blast
    note rest = page_rows_next [OF iter_finite [OF laws] pos True]
    have "length (drop ?n ?rows) \<le> Suc k * ?n" using Suc.prems(2) by simp
    then have "admin_pages (Suc k) E F now s p (b64_encode ?t) pre lim tab decode
        = Some (map (\<lambda>(k, v). the (buildEntry E F now s k v decode)) (drop ?n ?rows))"
      using Suc.IH [of "b64_encode ?t" "Some ?t"] ne rest by simp
    then have "admin_pages (Suc (Suc k)) E F now s p cur pre lim tab decode
        = Some (map (\<lambda>(k, v). the (buildEntry E F now s k v decode)) (take ?n ?rows @ drop ?n ?rows))"
      using True page ne unfolding admin_pages.simps(2) [of "Suc k"] map_append
      by (simp add: handleKeys_eq [OF tab] del: append_take_drop_id admin_pages.simps)
    then show ?thesis by (simp only: append_take_drop_id)
  qed
qed

text \<open>
  C38. Browsing the database misses nothing: a client that follows the cursors of the panel, with any limit
  (at most 500 rows per page, 50 by default) and any prefix or table, gets an entry for every stored key with
  the prefix, once each and in key order (each named by the base64 text of its key), and then no further cursor;
  the number of keys over the limit, rounded up, is a bound on the number of pages.  The empty key is not stored:
  the handle refuses it, and its base64 text as a cursor would be the end of the list.
\<close>

theorem admin_paging_complete:
  assumes "iter_laws E view snap pos" and "schema_ok s" and "tab \<noteq> Some None"
    and "rows = filter (\<lambda>e. prefix (page_prefix tab pre) (fst e)) (sorted_entries (view p))"
    and "length rows \<le> k * page_limit lim" and "0 < k" and "view p [] = None"
  shows "\<exists>entries. admin_pages k E F now s p [] pre lim tab decode = Some entries
    \<and> map (b64_decode \<circ> ke_KeyB64) entries = map (Some \<circ> fst) rows
    \<and> list_all2 (\<lambda>e (k, v). buildEntry E F now s k v decode = Some e) entries rows
    \<and> 1 \<le> page_limit lim \<and> page_limit lim \<le> 500"
proof -
  have rows: "page_rows None (page_prefix tab pre) (view p) = rows"
    by (simp add: page_rows_def after_cursor_def assms(4))
  let ?es = "map (\<lambda>(k, v). the (buildEntry E F now s k v decode)) rows"
  have built: "\<exists>e. buildEntry E F now s k v decode = Some e" for k v using buildEntry_total [OF assms(2)] by blast
  have "admin_pages k E F now s p [] pre lim tab decode = Some ?es"
    using admin_pages_eq [OF assms(1-3,7), of "[]" None pre "k - 1" lim F now decode] assms(5,6) rows by simp
  moreover have "ke_KeyB64 (the (buildEntry E F now s k v decode)) = b64_encode k" for k v
    using built [of k v] buildEntry_key by fastforce
  then have "map (b64_decode \<circ> ke_KeyB64) ?es = map (Some \<circ> fst) rows" by (simp add: case_prod_unfold)
  moreover have "buildEntry E F now s k v decode = Some (the (buildEntry E F now s k v decode))" for k v
    using built [of k v] by auto
  then have "list_all2 (\<lambda>e (k, v). buildEntry E F now s k v decode = Some e) ?es rows"
    by (auto simp: list_all2_map1 case_prod_unfold intro!: list.rel_refl_strong)
  ultimately show ?thesis using page_limit_bounds [of lim] by blast
qed

text \<open>Witness: three keys with the prefix, two per page.\<close>

definition browse_store :: mem_store where
  "browse_store = ([([1, 2], [10]), ([2], [20]), ([1], [30]), ([1, 1], [40])], [])"

theorem admin_paging_complete_witness:
  "\<exists>entries. admin_pages 2 mem_platform no_floats 0 newSchemaStore browse_store [] [1] (Some 2) None False = Some entries
    \<and> map (b64_decode \<circ> ke_KeyB64) entries = [Some [1], Some [1, 1], Some [1, 2]]"
proof -
  have s: "schema_ok newSchemaStore" by (simp add: schema_ok_def ss_table_def newSchemaStore_def)
  have "sorted_entries (mem_view browse_store) = mem_sorted (fst browse_store)"
    by (simp add: mem_sorted_entries mem_view_def)
  also have "\<dots> = [([1], [30]), ([1, 1], [40]), ([1, 2], [10]), ([2], [20])]"
    by (simp add: browse_store_def mem_sorted_def)
  finally have rows: "[([1], [30]), ([1, 1], [40]), ([1, 2], [10])]
      = filter (\<lambda>e. prefix (page_prefix None [1]) (fst e)) (sorted_entries (mem_view browse_store))"
    by (simp add: page_prefix_def)
  have len: "length [([1 :: byte], [30 :: byte]), ([1, 1], [40]), ([1, 2], [10])] \<le> 2 * page_limit (Some 2)"
    by (simp add: page_limit_def atoiClamp_def)
  have key: "mem_view browse_store [] = None" by (simp add: mem_view_def browse_store_def)
  from admin_paging_complete [OF mem_iter_laws s _ rows len _ key, of no_floats 0 False] show ?thesis by auto
qed

text \<open>The panel's view of one key never panics.\<close>

lemma handleKey_total: "schema_ok s \<Longrightarrow> handleKey_decoded E F now s kb val \<noteq> None"
proof -
  assume s: "schema_ok s"
  note T = admin_total [OF s, of kb E F now _ val]
  obtain d o1 o2 where d: "ss_decodeKey kb s = Some d" "tableOf kb s = Some o1" "tableOfIndex kb s = Some o2"
    using T by blast
  have v: "\<exists>dv. ss_decodeValue E F now ts val = Some dv" for ts using T by blast
  have pk: "\<exists>pk. decodePK ts val = Some pk" for ts using decodePK_total by blast
  show ?thesis
  proof (cases o1)
    case o1: None
    show ?thesis
    proof (cases o2)
      case (Some ts)
      with d o1 pk [of ts] show ?thesis by (auto simp: handleKey_decoded_def)
    qed (use d o1 in \<open>simp add: handleKey_decoded_def\<close>)
  next
    case o1: (Some t1)
    show ?thesis
    proof (cases o2)
      case (Some ts)
      with d o1 pk [of ts] v [of t1] show ?thesis by (auto simp: handleKey_decoded_def)
    qed (use d o1 v [of t1] in \<open>auto simp: handleKey_decoded_def\<close>)
  qed
qed


section \<open>The values of indexes\<close>

lemma ascii_digits:
  "show_nat 12345678 = [49, 50, 51, 52, 53, 54, 55, 56]" "show_nat 1234 = [49, 50, 51, 52]"
  "le64 [49, 50, 51, 52, 53, 54, 55, 56] = Some 4050765991979987505" "le32 [49, 50, 51, 52] = Some 875770417"
proof -
  show "show_nat 12345678 = [49, 50, 51, 52, 53, 54, 55, 56]" "show_nat 1234 = [49, 50, 51, 52]"
    by (simp_all add: show_nat.simps [of 12345678] show_nat.simps [of 1234567] show_nat.simps [of 123456]
        show_nat.simps [of 12345] show_nat.simps [of 1234] show_nat.simps [of 123] show_nat.simps [of 12]
        show_nat.simps [of "Suc 0"])
  show "le64 [49, 50, 51, 52, 53, 54, 55, 56] = Some 4050765991979987505" by (simp add: le64_def)
  show "le32 [49, 50, 51, 52] = Some 875770417" by (simp add: le32_def)
qed

text \<open>
  What the panel shows of an index entry against what the store writes: text and signed integers are shown
  as they are, but the store writes an unsigned integer as decimal text, and the panel takes a text of eight (four)
  digits for the bytes of an integer: the entry of 12345678 is shown as 4050765991979987505.
\<close>

theorem unsigned_index_misread:
  assumes "protoTypeToGo (fi_ProtoType f) = Inr (fi_GoType f)"
  shows "(fi_GoType f = ''string''
      \<longrightarrow> decodeScalarByType (fi_ProtoType f) (encodeIndexValue F (index_field f) (GBytes b)) = Some (AString b))
    \<and> (fi_GoType f = ''int64''
      \<longrightarrow> decodeScalarByType (fi_ProtoType f) (encodeIndexValue F (index_field f) (G64 w64)) = Some (AInt64 w64))
    \<and> (fi_GoType f = ''int32''
      \<longrightarrow> decodeScalarByType (fi_ProtoType f) (encodeIndexValue F (index_field f) (G32 w32)) = Some (AInt32 w32))
    \<and> (fi_GoType f = ''uint64''
      \<longrightarrow> decodeScalarByType (fi_ProtoType f) (encodeIndexValue F (index_field f) (G64 12345678))
        = Some (AInt64 4050765991979987505))
    \<and> (fi_GoType f = ''uint32''
      \<longrightarrow> decodeScalarByType (fi_ProtoType f) (encodeIndexValue F (index_field f) (G32 1234))
        = Some (AInt32 875770417))"
proof -
  have le: "le64 (put_le64 w64) = Some w64" "le32 (put_le32 w32) = Some w32"
    using le64_put [of w64 "[]"] le32_put [of w32 "[]"] by simp_all
  show ?thesis
    using assms [symmetric] le ascii_digits
    by (cases "fi_ProtoType f") (simp_all add: decodeScalarByType_def encodeIndexValue_def index_field_def)
qed

theorem unsigned_index_misread_witness:
  "decodeScalarByType TYPE_UINT64 (encodeIndexValue no_floats (index_field (the (t_PrimaryKey user_table)\<lparr>fi_ProtoType := TYPE_UINT64,
      fi_GoType := ''uint64''\<rparr>)) (G64 12345678)) = Some (AInt64 4050765991979987505)"
  using unsigned_index_misread [of "the (t_PrimaryKey user_table)\<lparr>fi_ProtoType := TYPE_UINT64, fi_GoType := ''uint64''\<rparr>"]
  by simp

end
