(* ===== verification/GenTables.thy ===== *)
theory GenTables
  imports StoreGen
begin

text \<open>
  The table a generated store keeps, for every accepted message without a time to live: rows are keyed by the
  encoding of the primary key, index keys by field number and value.  The layout is an interpretation of
  \<open>indexed_table\<close>, so the effect of the batches comes from theory \<open>Table\<close>; the lemmas here follow the
  emitted \<open>Create\<close>, \<open>Update\<close>, \<open>Delete\<close> and \<open>Get\<close> of theory \<open>StoreGen\<close> through the handle.
\<close>


section \<open>The layout of a generated table\<close>

text \<open>A row is keyed by the encoding of its primary key.\<close>

definition index_value :: "float_texts \<Rightarrow> go_struct \<Rightarrow> indexField \<Rightarrow> bytes" where
  "index_value F m f = encodeIndexValue F f (the (m (xf_GoName f)))"

definition gen_keys :: "float_texts \<Rightarrow> storeData \<Rightarrow> bytes \<Rightarrow> go_struct \<Rightarrow> bytes list" where
  "gen_keys F x i r = map (index_key F x i r) (st_UniqueFields x @ st_NormalFields x)"

definition gen_dec :: "('p, 'b, 'i) platform \<Rightarrow> serializerData \<Rightarrow> bytes \<Rightarrow> go_struct option" where
  "gen_dec E d v = (case gen_Deserialize E d v of Some (Inr r) \<Rightarrow> Some r | _ \<Rightarrow> None)"

definition gen_rid :: "float_texts \<Rightarrow> storeData \<Rightarrow> go_struct \<Rightarrow> bytes" where
  "gen_rid F x r = encodePrimaryKey F x (the (r (st_PKGoName x)))"

definition gen_ok ::
  "('p, 'b, 'i) platform \<Rightarrow> float_texts \<Rightarrow> storeData \<Rightarrow> serializerData \<Rightarrow> kv_map \<Rightarrow> bool" where
  "gen_ok E F x d m = table_ok (st_TableID x) (\<lambda>i. i) (gen_keys F x) (gen_dec E d) (gen_rid F x) m"

definition gen_rows ::
  "('p, 'b, 'i) platform \<Rightarrow> storeData \<Rightarrow> serializerData \<Rightarrow> kv_map \<Rightarrow> bytes \<rightharpoonup> go_struct" where
  "gen_rows E x d m = table_rows (st_TableID x) (\<lambda>i. i) (gen_dec E d) m"

lemma index_key_eq:
  "index_key F x i m f = EncodeIndexPrefix (st_TableID x) (xf_FieldNum f) (index_value F m f)
     @ (if xf_IsUnique f then [] else i)"
  by (simp add: index_key_def index_value_def Let_def EncodeUniqueIndexKey_def index_key_prefix)

interpretation gen: indexed_table "st_TableID x" "\<lambda>i. i" "gen_keys F x" "gen_dec E d" "gen_rid F x"
  for E :: "('p, 'b, 'i) platform" and F x d
  by unfold_locales (auto simp: gen_keys_def index_key_def Let_def)

text \<open>Index fields whose numbers agree in their low byte would share their keys.\<close>

definition numbers_apart :: "storeData \<Rightarrow> bool" where
  "numbers_apart x \<longleftrightarrow> distinct (map (\<lambda>f. ucast (xf_FieldNum f) :: byte) (st_IndexedFields x))"

lemma buildStoreData_fields:
  assumes "buildStoreData t = Some x"
  shows "st_UniqueFields x = filter xf_IsUnique (st_IndexedFields x)"
    and "st_NormalFields x = filter (\<lambda>f. \<not> xf_IsUnique f) (st_IndexedFields x)"
    and "st_HasTTL x = t_HasTTL t"
  using assms by (auto simp: buildStoreData_def Let_def split: option.splits)

lemma fields_set:
  "buildStoreData t = Some x \<Longrightarrow> set (st_UniqueFields x @ st_NormalFields x) = set (st_IndexedFields x)"
  by (auto simp: buildStoreData_fields)

lemma keys_mem:
  assumes t: "buildStoreData t = Some x" and apart: "numbers_apart x" and f: "f \<in> set (st_IndexedFields x)"
  shows "index_key F x i r f \<in> set (gen_keys F x j q)
    \<longleftrightarrow> index_value F q f = index_value F r f \<and> (xf_IsUnique f \<or> i = j)"
proof -
  have same: "g = f" if "g \<in> set (st_IndexedFields x)" "(ucast (xf_FieldNum g) :: byte) = ucast (xf_FieldNum f)" for g
    using apart f that by (auto simp: numbers_apart_def distinct_map dest: inj_onD)
  have eq: "index_key F x i r f = index_key F x j q g
      \<longleftrightarrow> g = f \<and> index_value F q f = index_value F r f \<and> (xf_IsUnique f \<or> i = j)"
    if "g \<in> set (st_IndexedFields x)" for g
    using same [OF that] by (auto simp: index_key_eq index_prefix_append_eq)
  have "index_key F x i r f \<in> set (gen_keys F x j q)
      \<longleftrightarrow> (\<exists>g \<in> set (st_IndexedFields x). index_key F x i r f = index_key F x j q g)"
    unfolding gen_keys_def set_map fields_set [OF t] by blast
  with eq f show ?thesis by blast
qed

text \<open>Another row holds the value of a unique field.\<close>

definition gen_holder ::
  "('p, 'b, 'i) platform \<Rightarrow> float_texts \<Rightarrow> storeData \<Rightarrow> serializerData \<Rightarrow> kv_map \<Rightarrow> go_struct \<Rightarrow> indexField \<Rightarrow> bytes \<Rightarrow> bool" where
  "gen_holder E F x d m r f j \<longleftrightarrow> (\<exists>q. gen_rows E x d m j = Some q \<and> index_value F q f = index_value F r f)"

lemma gen_entry:
  assumes t: "buildStoreData t = Some x" and apart: "numbers_apart x" and f: "f \<in> set (st_IndexedFields x)"
    and ok: "gen_ok E F x d m"
  shows "m (index_key F x i r f) = Some v \<longleftrightarrow> gen_holder E F x d m r f v \<and> (xf_IsUnique f \<or> v = i)"
proof -
  let ?k = "index_key F x i r f"
  have "index_space (st_TableID x) ?k"
    by (rule gen.keys_space [of _ F x i r]) (use keys_mem [OF t apart f] in blast)
  from gen.ok_index [OF ok [unfolded gen_ok_def] this]
  have "m ?k = Some v \<longleftrightarrow> (\<exists>q. gen_rows E x d m v = Some q \<and> ?k \<in> set (gen_keys F x v q))"
    by (auto simp: gen_rows_def)
  then show ?thesis by (auto simp: keys_mem [OF t apart f] gen_holder_def)
qed

lemma gen_unique_checks_spec:
  assumes "handle_ok E view pend h"
  obtains h' err where "gen_unique_checks E F x what i r fs h = (h', err)" "handle_ok E view pend h'"
    "db_view view h' = db_view view h"
    "if \<exists>f \<in> set fs. \<exists>v. db_view view h (index_key F x i r f) = Some v \<and> v \<noteq> i
     then \<exists>e. err = Some e \<and> errors_is e ErrDuplicateKey else err = None"
  using assms
proof (induction fs arbitrary: h thesis)
  case Nil
  then show ?case by simp
next
  case (Cons f fs)
  let ?k = "index_key F x i r f"
  have "?k \<noteq> []" by (simp add: index_key_eq)
  then obtain h1 where h1: "db_Get E ?k h = (h1, Inr (db_view view h ?k))" "handle_ok E view pend h1"
    "db_view view h1 = db_view view h" using handle.getE [OF Cons.prems(2)] by blast
  show ?case
  proof (cases "db_view view h ?k \<noteq> None \<and> db_view view h ?k \<noteq> Some i")
    case True
    then show ?thesis by (intro Cons.prems(1) [OF _ h1(2,3)]) (auto simp: h1(1))
  next
    case False
    obtain h' err where r: "gen_unique_checks E F x what i r fs h1 = (h', err)" "handle_ok E view pend h'"
      "db_view view h' = db_view view h1"
      "if \<exists>f \<in> set fs. \<exists>v. db_view view h1 (index_key F x i r f) = Some v \<and> v \<noteq> i
       then \<exists>e. err = Some e \<and> errors_is e ErrDuplicateKey else err = None"
      using Cons.IH [OF _ h1(2)] by blast
    have "gen_unique_checks E F x what i r (f # fs) h = (h', err)" using False h1(1) r(1) by auto
    then show ?thesis
      by (rule Cons.prems(1)) (use r h1(3) False in auto)
  qed
qed

lemma gen_deletes_writes: "map kv_write (gen_index_deletes F x old i) = index_dels (gen_keys F x) i old"
  by (cases old) (simp_all add: gen_index_deletes_def index_dels_def gen_keys_def)

lemma gen_deletes_keys: "[] \<notin> kp_Key ` set (gen_index_deletes F x old i)"
  by (cases old) (auto simp: gen_index_deletes_def index_key_eq eq_commute [of "[]"])

lemma gen_Get_eq:
  assumes ok: "handle_ok E view pend h" and u: "gen_ok E F x d (db_view view h)" and ttl: "\<not> st_HasTTL x"
  obtains h' where
    "gen_Get E F x d pk h = Some (h', Inr (gen_rows E x d (db_view view h) (encodePrimaryKey F x pk)))"
    "handle_ok E view pend h'" "db_view view h' = db_view view h"
proof -
  let ?i = "encodePrimaryKey F x pk"
  let ?k = "EncodeKey (st_TableID x) ?i"
  obtain h' where h': "db_Get E ?k h = (h', Inr (db_view view h ?k))" "handle_ok E view pend h'"
    "db_view view h' = db_view view h"
    using handle.getE [OF ok, of ?k] by auto
  have "gen_Get E F x d pk h = Some (h', Inr (gen_rows E x d (db_view view h) ?i))"
  proof (cases "db_view view h ?k")
    case None
    with h'(1) show ?thesis by (simp add: gen_Get_def gen_rows_def table_rows_def)
  next
    case (Some v)
    then obtain r where "gen_dec E d v = Some r"
      using gen.ok_data [OF u [unfolded gen_ok_def]] by blast
    with h'(1) Some ttl show ?thesis
      by (auto simp: gen_Get_def gen_rows_def table_rows_def gen_dec_def split: option.splits sum.splits)
  qed
  with h' that show ?thesis by blast
qed

text \<open>The old row, which is read only when the table has indexes.\<close>

lemma gen_old:
  assumes ok: "handle_ok E view pend h" and u: "gen_ok E F x d (db_view view h)" and ttl: "\<not> st_HasTTL x"
    and t: "buildStoreData t = Some x" and i: "i = encodePrimaryKey F x pk"
  obtains h' old where
    "(if st_IndexedFields x = [] then Some (h, [])
      else map_option (\<lambda>(h1, got). (h1, gen_index_deletes F x (ignore_error got) i)) (gen_Get E F x d pk h))
     = Some (h', gen_index_deletes F x old i)"
    "index_dels (gen_keys F x) i old = index_dels (gen_keys F x) i (gen_rows E x d (db_view view h) i)"
    "handle_ok E view pend h'" "db_view view h' = db_view view h"
proof (cases "st_IndexedFields x = []")
  case True
  then have "gen_keys F x i r = []" for r using fields_set [OF t] by (simp add: gen_keys_def)
  then have "index_dels (gen_keys F x) i (gen_rows E x d (db_view view h) i) = []"
    by (simp add: index_dels_def split: option.split)
  with True ok show ?thesis
    by (intro that [of h None]) (simp_all add: gen_index_deletes_def index_dels_def)
next
  case False
  obtain h' where "gen_Get E F x d pk h = Some (h', Inr (gen_rows E x d (db_view view h) i))"
    "handle_ok E view pend h'" "db_view view h' = db_view view h"
    using gen_Get_eq [OF ok u ttl] unfolding i .
  with False show ?thesis by (intro that [of h' "gen_rows E x d (db_view view h) i"]) auto
qed

text \<open>A save is refused when another row holds one of its unique values.\<close>

definition gen_taken ::
  "('p, 'b, 'i) platform \<Rightarrow> float_texts \<Rightarrow> storeData \<Rightarrow> serializerData \<Rightarrow> kv_map \<Rightarrow> go_struct \<Rightarrow> bool" where
  "gen_taken E F x d m r \<longleftrightarrow> (\<exists>f \<in> set (st_UniqueFields x). \<exists>j. gen_holder E F x d m r f j \<and> j \<noteq> gen_rid F x r)"

lemma gen_taken_entry:
  assumes t: "buildStoreData t = Some x" and apart: "numbers_apart x" and ok: "gen_ok E F x d m"
  shows "gen_taken E F x d m r
    \<longleftrightarrow> (\<exists>f \<in> set (st_UniqueFields x). \<exists>v. m (index_key F x (gen_rid F x r) r f) = Some v \<and> v \<noteq> gen_rid F x r)"
proof -
  have "f \<in> set (st_IndexedFields x) \<and> xf_IsUnique f" if "f \<in> set (st_UniqueFields x)" for f
    using that by (auto simp: buildStoreData_fields [OF t])
  then have "m (index_key F x (gen_rid F x r) r f) = Some v \<longleftrightarrow> gen_holder E F x d m r f v"
    if "f \<in> set (st_UniqueFields x)" for f v
    using gen_entry [OF t apart _ ok] that by simp
  then show ?thesis by (simp add: gen_taken_def)
qed

lemma gen_free:
  assumes t: "buildStoreData t = Some x" and apart: "numbers_apart x" and ok: "gen_ok E F x d m"
    and free: "\<not> gen_taken E F x d m r" and k: "k \<in> set (gen_keys F x (gen_rid F x r) r)"
  shows "m k = None \<or> m k = Some (gen_rid F x r)"
proof (cases "m k")
  case (Some v)
  from k obtain f where f: "f \<in> set (st_UniqueFields x @ st_NormalFields x)" "k = index_key F x (gen_rid F x r) r f"
    by (auto simp: gen_keys_def)
  then have idx: "f \<in> set (st_IndexedFields x)" using fields_set [OF t] by blast
  note e = gen_entry [OF t apart idx ok, of "gen_rid F x r" r v, folded f(2)]
  show ?thesis
  proof (cases "xf_IsUnique f")
    case True
    with idx have "f \<in> set (st_UniqueFields x)" by (simp add: buildStoreData_fields [OF t])
    with e Some free show ?thesis by (auto simp: gen_taken_def)
  qed (use e Some in simp)
qed simp

text \<open>The order in which the index entries are put does not matter.\<close>

lemma gen_puts:
  assumes "set order = set (st_UniqueFields x @ st_NormalFields x)"
  shows "apply_writes ((EncodeKey (st_TableID x) i, Some v) # index_dels (gen_keys F x) i old
      @ map (\<lambda>f. (index_key F x i r f, Some i)) order) m
    = apply_writes (save_writes (st_TableID x) (\<lambda>i. i) (gen_keys F x) i v old r) m"
proof -
  have puts: "apply_writes (map (\<lambda>f. (index_key F x i r f, Some i)) fs) m' k
      = (if k \<in> index_key F x i r ` set fs then Some i else m' k)" for fs m' k
    using apply_puts [of i "map (index_key F x i r) fs" m' k] by (simp add: comp_def)
  have "map (\<lambda>k. (k, Some i)) (gen_keys F x i r)
      = map (\<lambda>f. (index_key F x i r f, Some i)) (st_UniqueFields x @ st_NormalFields x)"
    by (simp add: gen_keys_def)
  with assms show ?thesis unfolding save_writes_def by (simp add: fun_eq_iff puts image_Un)
qed

lemma gen_save_map:
  assumes t: "buildStoreData t = Some x" and apart: "numbers_apart x" and ok: "gen_ok E F x d m"
    and free: "\<not> gen_taken E F x d m r" and dec: "gen_dec E d v = Some r" and i: "i = gen_rid F x r"
    and m': "m' = apply_writes (save_writes (st_TableID x) (\<lambda>i. i) (gen_keys F x) i v (gen_rows E x d m i) r) m"
  shows "gen_ok E F x d m'" and "gen_rows E x d m' = (gen_rows E x d m)(i \<mapsto> r)"
proof -
  show "gen_ok E F x d m'"
    using gen.save_ok [OF ok [unfolded gen_ok_def] refl dec i [symmetric], folded gen_rows_def]
      gen_free [OF t apart ok free, folded i]
    unfolding m' gen_ok_def by blast
  show "gen_rows E x d m' = (gen_rows E x d m)(i \<mapsto> r)"
    unfolding m' gen_rows_def by (rule gen.save_rows [OF dec])
qed

text \<open>What a save and a deletion write.\<close>

lemma gen_save_run:
  assumes ok: "handle_ok E view pend h" and u: "gen_ok E F x d (db_view view h)" and ttl: "\<not> st_HasTTL x"
    and t: "buildStoreData t = Some x" and apart: "numbers_apart x"
    and ser: "gen_Serialize E d r = Some v"
    and order: "set order = set (st_UniqueFields x @ st_NormalFields x)"
  obtains h' err where "gen_save what order E F x d r h = Some (h', err)" "handle_ok E view pend h'"
    "if gen_taken E F x d (db_view view h) r
     then db_view view h' = db_view view h \<and> (\<exists>e. err = Some e \<and> errors_is e ErrDuplicateKey)
     else if err = None
     then db_view view h' = apply_writes (save_writes (st_TableID x) (\<lambda>i. i) (gen_keys F x) (gen_rid F x r) v
       (gen_rows E x d (db_view view h) (gen_rid F x r)) r) (db_view view h)
     else db_view view h' = db_view view h \<and> \<not> writes_ok E"
proof -
  let ?m = "db_view view h" and ?i = "gen_rid F x r" and ?pk = "the (r (st_PKGoName x))"
  let ?puts = "map (\<lambda>f. kv_put (index_key F x ?i r f) ?i) order"
  obtain h1 old where h1: "(if st_IndexedFields x = [] then Some (h, [])
      else map_option (\<lambda>(h1, got). (h1, gen_index_deletes F x (ignore_error got) ?i)) (gen_Get E F x d ?pk h))
     = Some (h1, gen_index_deletes F x old ?i)"
    "index_dels (gen_keys F x) ?i old = index_dels (gen_keys F x) ?i (gen_rows E x d ?m ?i)"
    "handle_ok E view pend h1" "db_view view h1 = ?m"
    using gen_old [OF ok u ttl t gen_rid_def] .
  obtain h2 res where h2: "gen_unique_checks E F x what ?i r (st_UniqueFields x) h1 = (h2, res)"
    "handle_ok E view pend h2" "db_view view h2 = ?m"
    "if gen_taken E F x d ?m r then \<exists>e. res = Some e \<and> errors_is e ErrDuplicateKey else res = None"
    using gen_unique_checks_spec [OF h1(3), of F x what ?i r "st_UniqueFields x"]
    unfolding h1(4) gen_taken_entry [OF t apart u] by metis
  have gv: "gen_value E x d r h = Some (h, v)" by (simp add: gen_value_def ttl ser)
  note run = gen_save_def [of what order E F x d r h, folded gen_rid_def, unfolded gv Let_def, simplified]
  show ?thesis
  proof (cases "gen_taken E F x d ?m r")
    case True
    with h2(4) obtain e where e: "res = Some e" "errors_is e ErrDuplicateKey" by auto
    have "gen_save what order E F x d r h = Some (h2, res)"
      using run h1(1) h2(1) e(1) by (simp split: if_splits)
    with True e h2 show ?thesis by (intro that [of h2 res]) auto
  next
    case False
    let ?ops = "kv_put (EncodeKey (st_TableID x) ?i) v # gen_index_deletes F x old ?i @ ?puts"
    obtain h3 err where h3: "db_WriteBatch E ?ops h2 = (h3, err)" "handle_ok E view pend h3"
      "err = None \<Longrightarrow> db_view view h3 = apply_writes (map kv_write ?ops) ?m"
      "err \<noteq> None \<Longrightarrow> db_view view h3 = ?m"
      using handle.writeE [OF h2(2), of ?ops] h2(3) by metis
    have res: "gen_save what order E F x d r h = Some (h3, err)"
      using run h1(1) h2(1,4) h3(1) False by (simp split: if_splits)
    show ?thesis
    proof (cases err)
      case None
      have "apply_writes (map kv_write ?ops) ?m
          = apply_writes (save_writes (st_TableID x) (\<lambda>i. i) (gen_keys F x) ?i v (gen_rows E x d ?m ?i) r) ?m"
        using gen_puts [OF order, of ?i v F "gen_rows E x d ?m ?i" r ?m]
        by (simp add: gen_deletes_writes h1(2) comp_def)
      with h3(3) [OF None] None res h3(2) False show ?thesis by (intro that [of h3 err]) simp_all
    next
      case (Some e)
      have "[] \<notin> kp_Key ` set ?ops"
        using gen_deletes_keys [of F x old ?i] by (auto simp: index_key_eq eq_commute [of "[]"])
      then have "\<not> writes_ok E"
        using WriteBatch_ok [of E h2 ?ops] h2(2) h3(1) Some by (auto simp: handle_ok_def)
      with res h3 False Some show ?thesis by (intro that [of h3]) auto
    qed
  qed
qed

lemma gen_Delete_run:
  assumes ok: "handle_ok E view pend h" and u: "gen_ok E F x d (db_view view h)" and ttl: "\<not> st_HasTTL x"
    and t: "buildStoreData t = Some x" and i: "i = encodePrimaryKey F x pk"
  obtains h' err where "gen_Delete E F x d pk h = Some (h', err)" "handle_ok E view pend h'"
    "if err = None
     then db_view view h' = apply_writes (delete_writes (st_TableID x) (\<lambda>i. i) (gen_keys F x) i
       (gen_rows E x d (db_view view h) i)) (db_view view h)
     else db_view view h' = db_view view h \<and> \<not> writes_ok E"
proof -
  let ?m = "db_view view h"
  obtain h1 old where h1: "(if st_IndexedFields x = [] then Some (h, [])
      else map_option (\<lambda>(h1, got). (h1, gen_index_deletes F x (ignore_error got) i)) (gen_Get E F x d pk h))
     = Some (h1, gen_index_deletes F x old i)"
    "index_dels (gen_keys F x) i old = index_dels (gen_keys F x) i (gen_rows E x d ?m i)"
    "handle_ok E view pend h1" "db_view view h1 = ?m"
    using gen_old [OF ok u ttl t i] .
  let ?ops = "kv_del (EncodeKey (st_TableID x) i) # gen_index_deletes F x old i"
  have w: "map kv_write ?ops = delete_writes (st_TableID x) (\<lambda>i. i) (gen_keys F x) i (gen_rows E x d ?m i)"
    by (simp add: gen_deletes_writes h1(2) delete_writes_def)
  obtain h2 err where h2: "db_WriteBatch E ?ops h1 = (h2, err)" "handle_ok E view pend h2"
    "err = None \<Longrightarrow> db_view view h2 = apply_writes (map kv_write ?ops) ?m"
    "err \<noteq> None \<Longrightarrow> db_view view h2 = ?m"
    using handle.writeE [OF h1(3), of ?ops] h1(4) by metis
  have run: "gen_Delete E F x d pk h = Some (h2, err)"
    using h1(1) h2(1) by (simp add: gen_Delete_def i [symmetric] Let_def split: if_splits)
  show ?thesis
  proof (cases err)
    case None
    with h2(3) [OF None, unfolded w] run h2(2) show ?thesis by (intro that [of h2 err]) simp_all
  next
    case (Some e)
    have "[] \<notin> kp_Key ` set ?ops" using gen_deletes_keys [of F x old i] by (auto simp: eq_commute [of "[]"])
    then have "\<not> writes_ok E"
      using WriteBatch_ok [of E h1 ?ops] h1(3) h2(1) Some by (auto simp: handle_ok_def)
    with run h2 Some show ?thesis by (intro that [of h2]) auto
  qed
qed

lemma gen_save_spec:
  assumes ok: "handle_ok E view pend h" and u: "gen_ok E F x d (db_view view h)" and ttl: "\<not> st_HasTTL x"
    and t: "buildStoreData t = Some x" and apart: "numbers_apart x"
    and ser: "gen_Serialize E d r = Some v" "gen_dec E d v = Some r"
    and order: "set order = set (st_UniqueFields x @ st_NormalFields x)"
  obtains h' err where "gen_save what order E F x d r h = Some (h', err)" "handle_ok E view pend h'"
    "gen_ok E F x d (db_view view h')"
    "if gen_taken E F x d (db_view view h) r
     then db_view view h' = db_view view h \<and> (\<exists>e. err = Some e \<and> errors_is e ErrDuplicateKey)
     else if err = None
     then gen_rows E x d (db_view view h') = (gen_rows E x d (db_view view h))(gen_rid F x r \<mapsto> r)
     else db_view view h' = db_view view h \<and> \<not> writes_ok E"
proof -
  obtain h' err where h': "gen_save what order E F x d r h = Some (h', err)" "handle_ok E view pend h'"
    "if gen_taken E F x d (db_view view h) r
     then db_view view h' = db_view view h \<and> (\<exists>e. err = Some e \<and> errors_is e ErrDuplicateKey)
     else if err = None
     then db_view view h' = apply_writes (save_writes (st_TableID x) (\<lambda>i. i) (gen_keys F x) (gen_rid F x r) v
       (gen_rows E x d (db_view view h) (gen_rid F x r)) r) (db_view view h)
     else db_view view h' = db_view view h \<and> \<not> writes_ok E"
    by (rule gen_save_run [OF ok u ttl t apart ser(1) order])
  show ?thesis
  proof (cases "gen_taken E F x d (db_view view h) r \<or> err \<noteq> None")
    case True
    with h' u show ?thesis by (intro that [of h' err]) (auto split: if_splits)
  next
    case False
    then have free: "\<not> gen_taken E F x d (db_view view h) r" by simp
    with h'(3) False have "db_view view h' = apply_writes (save_writes (st_TableID x) (\<lambda>i. i) (gen_keys F x) (gen_rid F x r) v
       (gen_rows E x d (db_view view h) (gen_rid F x r)) r) (db_view view h)" by simp
    from gen_save_map [OF t apart u free ser(2) refl this] h' False show ?thesis by (intro that [of h' err]) simp_all
  qed
qed

lemma gen_Delete_spec:
  assumes ok: "handle_ok E view pend h" and u: "gen_ok E F x d (db_view view h)" and ttl: "\<not> st_HasTTL x"
    and t: "buildStoreData t = Some x" and i: "i = encodePrimaryKey F x pk"
  obtains h' err where "gen_Delete E F x d pk h = Some (h', err)" "handle_ok E view pend h'"
    "gen_ok E F x d (db_view view h')"
    "if err = None then gen_rows E x d (db_view view h') = (gen_rows E x d (db_view view h))(i := None)
     else db_view view h' = db_view view h \<and> \<not> writes_ok E"
proof -
  obtain h' err where h': "gen_Delete E F x d pk h = Some (h', err)" "handle_ok E view pend h'"
    "if err = None
     then db_view view h' = apply_writes (delete_writes (st_TableID x) (\<lambda>i. i) (gen_keys F x) i
       (gen_rows E x d (db_view view h) i)) (db_view view h)
     else db_view view h' = db_view view h \<and> \<not> writes_ok E"
    by (rule gen_Delete_run [OF ok u ttl t i])
  show ?thesis
  proof (cases err)
    case None
    with h'(3) have m: "db_view view h' = apply_writes (delete_writes (st_TableID x) (\<lambda>i. i) (gen_keys F x) i
       (gen_rows E x d (db_view view h) i)) (db_view view h)" by simp
    have "gen_ok E F x d (db_view view h')"
      unfolding m gen_ok_def gen_rows_def using u [unfolded gen_ok_def] by (rule gen.delete_ok) (rule refl)
    moreover have "gen_rows E x d (db_view view h') = (gen_rows E x d (db_view view h))(i := None)"
      unfolding m unfolding gen_rows_def by (rule gen.delete_rows)
    ultimately show ?thesis using None h'(1,2) by (intro that [of h' err]) simp_all
  qed (use h' u in \<open>intro that [of h' err]; simp\<close>)
qed

section \<open>Properties\<close>

definition gen_save_ok ::
  "('p, 'b, 'i) platform \<Rightarrow> float_texts \<Rightarrow> storeData \<Rightarrow> serializerData \<Rightarrow> ('p DB \<Rightarrow> kv_map) \<Rightarrow> go_struct \<Rightarrow> 'p DB
    \<Rightarrow> 'p DB \<Rightarrow> go_error option \<Rightarrow> bool" where
  "gen_save_ok E F x d view r h h' err \<longleftrightarrow>
     (if gen_taken E F x d (view h) r then view h' = view h \<and> (\<exists>e. err = Some e \<and> errors_is e ErrDuplicateKey)
      else if err = None then gen_rows E x d (view h') = (gen_rows E x d (view h))(gen_rid F x r \<mapsto> r)
      else view h' = view h \<and> \<not> writes_ok E)"

lemma gen_ok_empty: "gen_ok E F x d Map.empty" "gen_rows E x d Map.empty = Map.empty"
  by (auto simp: gen_ok_def table_ok_def gen_rows_def table_rows_def)

lemma gen_save_accepted:
  assumes "BuildIR files = Inr ts" and "t \<in> set ts" and "\<not> t_HasTTL t"
    and "d = buildSerializerData t" and "compiles d"
    and "buildStoreData t = Some x" and "numbers_apart x"
    and "zstd_laws E" and "handle_ok E view pend h" and "gen_ok E F x d (db_view view h)"
    and "struct_ok (sd_Fields d) r" and order: "set order = set (st_UniqueFields x @ st_NormalFields x)"
  obtains h' err where "gen_save what order E F x d r h = Some (h', err)" "handle_ok E view pend h'"
    "gen_ok E F x d (db_view view h')" "gen_save_ok E F x d (db_view view) r h h' err"
proof -
  note fields = accepted_fields_ok [OF assms(1,2), folded assms(4)]
  obtain v where v: "gen_Serialize E d r = Some v" "gen_dec E d v = Some r"
    using gen_roundtrip [OF assms(8,5) fields(2,1) assms(11), of 0] by (auto simp: gen_dec_def)
  have ttl: "\<not> st_HasTTL x" using assms(3) by (simp add: buildStoreData_fields [OF assms(6)])
  from gen_save_spec [OF assms(9,10) ttl assms(6,7) v order, of what] that show ?thesis
    unfolding gen_save_ok_def by metis
qed

text \<open>The first row of a table, when writing does not fail.\<close>

lemma gen_Create_first:
  assumes "BuildIR files = Inr ts" and "t \<in> set ts" and "\<not> t_HasTTL t"
    and "d = buildSerializerData t" and "compiles d"
    and "buildStoreData t = Some x" and "numbers_apart x"
    and "zstd_laws E" and "writes_ok E" and "handle_ok E view pend h" and "db_view view h = Map.empty"
    and "struct_ok (sd_Fields d) r"
  obtains h' where "gen_Create E F x d (Some r) h = Some (h', None)" "handle_ok E view pend h'"
    "gen_ok E F x d (db_view view h')" "gen_rows E x d (db_view view h') = [gen_rid F x r \<mapsto> r]"
proof -
  note empty = gen_ok_empty
  have "\<not> gen_taken E F x d Map.empty r" by (simp add: gen_taken_def gen_holder_def empty)
  moreover obtain h' err where "gen_Create E F x d (Some r) h = Some (h', err)" "handle_ok E view pend h'"
    "gen_ok E F x d (db_view view h')" "gen_save_ok E F x d (db_view view) r h h' err"
    using gen_save_accepted [where F = F and what = "''create''",
        OF assms(1-8,10) empty(1) [folded assms(11)] assms(12) refl]
    by (simp only: gen_Create_def option.case) blast
  ultimately show ?thesis using that assms(9,11) by (auto simp: gen_save_ok_def empty split: if_splits)
qed

text \<open>
  C4. The stores the generator emits keep a table for every accepted message without a time to live, whatever its
  fields, primary key and indexes, as long as no two indexed fields have numbers that agree in the low byte and the
  serializer compiles: \<open>Create\<close> and \<open>Update\<close> of a record of the message's type are refused with \<open>ErrDuplicateKey\<close>
  and change nothing exactly when another row holds one of its unique values; otherwise they put the record under its
  primary key.  \<open>Delete\<close> removes the row of its key, \<open>Get\<close> returns it, and every operation keeps data rows and
  index entries consistent.  An engine without disk errors never makes them fail.
\<close>

theorem generated_store_refines_table:
  assumes "BuildIR files = Inr ts" and "t \<in> set ts" and "\<not> t_HasTTL t"
    and "d = buildSerializerData t" and "compiles d"
    and "buildStoreData t = Some x" and "numbers_apart x"
    and "zstd_laws E" and "handle_ok E view pend h" and "gen_ok E F x d (db_view view h)"
    and "struct_ok (sd_Fields d) r"
  shows "(\<exists>h' err. gen_Create E F x d (Some r) h = Some (h', err) \<and> handle_ok E view pend h'
      \<and> gen_ok E F x d (db_view view h') \<and> gen_save_ok E F x d (db_view view) r h h' err)
    \<and> (\<exists>h' err. gen_Update E F x d (Some r) h = Some (h', err) \<and> handle_ok E view pend h'
      \<and> gen_ok E F x d (db_view view h') \<and> gen_save_ok E F x d (db_view view) r h h' err)
    \<and> (\<exists>h' err. gen_Delete E F x d pk h = Some (h', err) \<and> handle_ok E view pend h'
      \<and> gen_ok E F x d (db_view view h')
      \<and> (if err = None
         then gen_rows E x d (db_view view h') = (gen_rows E x d (db_view view h))(encodePrimaryKey F x pk := None)
         else db_view view h' = db_view view h \<and> \<not> writes_ok E))
    \<and> (\<exists>h'. gen_Get E F x d pk h = Some (h', Inr (gen_rows E x d (db_view view h) (encodePrimaryKey F x pk)))
      \<and> handle_ok E view pend h' \<and> db_view view h' = db_view view h)"
proof -
  have ttl: "\<not> st_HasTTL x" using assms(3) by (simp add: buildStoreData_fields [OF assms(6)])
  note save = gen_save_accepted [where F = F, OF assms]
  have order: "set (st_IndexedFields x) = set (st_UniqueFields x @ st_NormalFields x)"
    using fields_set [OF assms(6)] by (rule sym)
  have delete: "\<exists>h' err. gen_Delete E F x d pk h = Some (h', err) \<and> handle_ok E view pend h'
      \<and> gen_ok E F x d (db_view view h')
      \<and> (if err = None
         then gen_rows E x d (db_view view h') = (gen_rows E x d (db_view view h))(encodePrimaryKey F x pk := None)
         else db_view view h' = db_view view h \<and> \<not> writes_ok E)"
    using gen_Delete_spec [OF assms(9,10) ttl assms(6) refl, of pk] by metis
  have get: "\<exists>h'. gen_Get E F x d pk h = Some (h', Inr (gen_rows E x d (db_view view h) (encodePrimaryKey F x pk)))
      \<and> handle_ok E view pend h' \<and> db_view view h' = db_view view h"
    using gen_Get_eq [OF assms(9,10) ttl, of pk] by metis
  have create: "\<exists>h' err. gen_Create E F x d (Some r) h = Some (h', err) \<and> handle_ok E view pend h'
      \<and> gen_ok E F x d (db_view view h') \<and> gen_save_ok E F x d (db_view view) r h h' err"
    using save [OF refl, where what = "''create''"] by (simp only: gen_Create_def option.case) metis
  have update: "\<exists>h' err. gen_Update E F x d (Some r) h = Some (h', err) \<and> handle_ok E view pend h'
      \<and> gen_ok E F x d (db_view view h') \<and> gen_save_ok E F x d (db_view view) r h h' err"
    using save [OF order, where what = "''update''"] by (simp only: gen_Update_def option.case) metis
  from create update delete get show ?thesis by (simp only: simp_thms)
qed

lemma user_struct_ok: "user_fits m \<Longrightarrow> struct_ok (sd_Fields user_d) (user_struct m)"
proof -
  assume fits: "user_fits m"
  have dom: "dom (user_struct m) = set (map sf_GoName (sd_Fields user_d))"
    by (auto simp: user_struct_def user_data ser_info_def)
  have "\<forall>f \<in> set (sd_Fields user_d). value_ok f (user_struct m (sf_GoName f))"
    using fits by (simp add: user_data ser_info_def value_ok_def user_struct_def user_fits_def)
  with dom show ?thesis by (simp only: struct_ok_def simp_thms)
qed

lemma user_numbers_apart: "numbers_apart user_store_data"
  by (simp add: numbers_apart_def user_store_fields idx_def)

theorem generated_store_refines_table_witness:
  "\<exists>h1 h2 e. gen_Create (calm_platform 0) no_floats user_store_data user_d (Some (user_struct example_user))
        (with_pebble ([], []) example_db) = Some (h1, None)
    \<and> gen_Create (calm_platform 0) no_floats user_store_data user_d
        (Some (user_struct (example_user\<lparr>u_Id := 8\<rparr>))) h1 = Some (h2, Some e) \<and> errors_is e ErrDuplicateKey"
proof -
  let ?E = "calm_platform 0" and ?h = "with_pebble ([], []) example_db" and ?F = no_floats
  let ?r = "user_struct example_user" and ?q = "user_struct (example_user\<lparr>u_Id := 8\<rparr>)"
  have fits: "user_fits example_user" "user_fits (example_user\<lparr>u_Id := 8\<rparr>)"
    by (simp_all add: user_fits_def example_user_def)
  have ttl: "\<not> t_HasTTL user_table" by (simp add: user_table_def Let_def)
  note step = generated_store_refines_table [OF BuildIR_testmodels _ ttl refl user_compiles user_store_data
      user_numbers_apart calm_laws(4), where F = ?F and pk = "G64 0", THEN conjunct1]
  have empty: "db_view mem_view ?h = Map.empty" by (simp add: mem_view_def)
  have rows: "gen_ok ?E ?F user_store_data user_d (db_view mem_view ?h)"
    "\<not> gen_taken ?E ?F user_store_data user_d (db_view mem_view ?h) ?r"
    unfolding empty by (simp_all add: gen_ok_empty gen_taken_def gen_holder_def)
  obtain h1 err where h1: "gen_Create ?E ?F user_store_data user_d (Some ?r) ?h = Some (h1, err)"
    "handle_ok ?E mem_view id h1" "gen_ok ?E ?F user_store_data user_d (db_view mem_view h1)"
    "gen_save_ok ?E ?F user_store_data user_d (db_view mem_view) ?r ?h h1 err"
    using step [OF _ example_handle rows(1) user_struct_ok [OF fits(1)]] by auto
  have none: "err = None" using h1(4) rows(2) calm_laws(5) [of 0] by (auto simp: gen_save_ok_def split: if_splits)
  with h1(4) rows(2) have t1: "gen_rows ?E user_store_data user_d (db_view mem_view h1) (gen_rid ?F user_store_data ?r) = Some ?r"
    by (simp add: gen_save_ok_def)
  have "gen_rid ?F user_store_data ?r \<noteq> gen_rid ?F user_store_data ?q"
    by (simp add: gen_rid_def user_store_fields user_struct_pk user_pk encodeUserPrimaryKey_def example_user_def)
  moreover have "index_value ?F ?r f = index_value ?F ?q f" if "f \<in> set (st_UniqueFields user_store_data)" for f
    using that by (simp add: user_store_fields index_value_def encodeIndexValue_def idx_def user_struct_def)
  ultimately have taken: "gen_taken ?E ?F user_store_data user_d (db_view mem_view h1) ?q"
    using t1 unfolding gen_taken_def gen_holder_def by (auto simp: user_store_fields)
  obtain h2 err2 where h2: "gen_Create ?E ?F user_store_data user_d (Some ?q) h1 = Some (h2, err2)"
    "gen_save_ok ?E ?F user_store_data user_d (db_view mem_view) ?q h1 h2 err2"
    using step [OF _ h1(2,3) user_struct_ok [OF fits(2)]] by auto
  from h2(2) taken obtain e where "err2 = Some e" "errors_is e ErrDuplicateKey" by (auto simp: gen_save_ok_def)
  with h1(1) h2(1) none show ?thesis by blast
qed

end
