(* ===== verification/GenExpiry.thy ===== *)
theory GenExpiry
  imports GenTables
begin

text \<open>
  The table an emitted store keeps for an accepted message with a time to live (\<open>store.go\<close>): what a save, a
  deletion and a read do to the rows and their expiry times, and that an expired row disappears when it is read.
\<close>


section \<open>Rows with an expiry time\<close>

definition ttl_dec :: "('p, 'b, 'i) platform \<Rightarrow> serializerData \<Rightarrow> bytes \<Rightarrow> (go_struct \<times> 64 word) option" where
  "ttl_dec E d v = (case gen_DeserializeMeta E d v of Some (Inr p) \<Rightarrow> Some p | _ \<Rightarrow> None)"

definition ttl_rows ::
  "('p, 'b, 'i) platform \<Rightarrow> storeData \<Rightarrow> serializerData \<Rightarrow> kv_map \<Rightarrow> bytes \<rightharpoonup> go_struct \<times> 64 word" where
  "ttl_rows E x d m i = Option.bind (m (EncodeKey (st_TableID x) i)) (ttl_dec E d)"

lemma ttl_dec_fst: "sd_HasTTL d \<Longrightarrow> gen_dec E d v = map_option fst (ttl_dec E d v)"
  by (simp add: gen_dec_def ttl_dec_def gen_Deserialize_def split: option.split sum.split)

lemma ttl_rows_fst: "sd_HasTTL d \<Longrightarrow> gen_rows E x d m i = map_option fst (ttl_rows E x d m i)"
  by (simp add: gen_rows_def ttl_rows_def table_rows_def ttl_dec_fst split: option.split Option.bind_split)

text \<open>The data rows after a save and after a deletion.\<close>

lemma ttl_saved:
  assumes "ttl_dec E d v = Some (r, t)"
  shows "ttl_rows E x d (apply_writes (save_writes (st_TableID x) (\<lambda>i. i) (gen_keys F x) i v old r) m)
    = (ttl_rows E x d m)(i \<mapsto> (r, t))"
  using assms gen.data_not_keys [where x = x and F = F] by (auto simp: fun_eq_iff ttl_rows_def gen.save_at key_simps)

lemma ttl_deleted:
  "ttl_rows E x d (apply_writes (delete_writes (st_TableID x) (\<lambda>i. i) (gen_keys F x) i old) m) = (ttl_rows E x d m)(i := None)"
  using gen.data_not_keys [where x = x and F = F] by (auto simp: fun_eq_iff ttl_rows_def gen.delete_at key_simps)

lemma ttl_delete_ok:
  assumes "gen_ok E F x d m" and "gen_rows E x d m i = Some r"
  shows "gen_ok E F x d (apply_writes (delete_writes (st_TableID x) (\<lambda>i. i) (gen_keys F x) i (Some r)) m)"
  using gen.delete_ok [OF assms(1) [unfolded gen_ok_def], of "Some r" i] assms(2) by (simp add: gen_ok_def gen_rows_def)

text \<open>\<open>deleteWithIndexes\<close>: a batch for a table with indexes, else a single deletion through the queue.\<close>

lemma gen_delete_run:
  assumes ok: "handle_ok E view pend h" and t: "buildStoreData t = Some x"
  obtains h' err where "gen_deleteWithIndexes E F x (EncodeKey (st_TableID x) i) r h = Some (h', err)" "handle_ok E view pend h'"
    "db_view view h' = (if err = None
       then apply_writes (delete_writes (st_TableID x) (\<lambda>i. i) (gen_keys F x) i (Some r)) (db_view view h) else db_view view h)"
    "writes_ok E \<Longrightarrow> st_IndexedFields x \<noteq> [] \<Longrightarrow> err = None"
proof (cases "st_IndexedFields x = []")
  case True
  then have keys: "gen_keys F x i q = []" for q using fields_set [OF t] by (simp add: gen_keys_def)
  let ?k = "EncodeKey (st_TableID x) i"
  obtain h' err where d: "db_Delete E ?k h = (h', err)" by fastforce
  from Delete_spec [OF _ _ d, of view pend] ok have w: "wrote view h h' err (\<lambda>m. m(?k := None))"
    by (simp add: handle_ok_def)
  have "gen_deleteWithIndexes E F x ?k r h = Some (h', err)"
    by (simp add: gen_deleteWithIndexes_def DecodeKey_EncodeKey True d)
  moreover have "handle_ok E view pend h'" using w ok by (simp add: wrote_def handle_ok_def)
  moreover have "db_view view h' = (if err = None
       then apply_writes (delete_writes (st_TableID x) (\<lambda>i. i) (gen_keys F x) i (Some r)) (db_view view h) else db_view view h)"
    using w by (simp add: wrote_def delete_writes_def index_dels_def keys)
  ultimately show ?thesis using True that by blast
next
  case False
  let ?k = "EncodeKey (st_TableID x) i"
  let ?ops = "kv_del ?k # gen_index_deletes F x (Some r) i"
  have w: "map kv_write ?ops = delete_writes (st_TableID x) (\<lambda>i. i) (gen_keys F x) i (Some r)"
    by (simp add: gen_deletes_writes delete_writes_def)
  obtain h' err where h': "db_WriteBatch E ?ops h = (h', err)" "handle_ok E view pend h'"
    "err = None \<Longrightarrow> db_view view h' = apply_writes (map kv_write ?ops) (db_view view h)"
    "err \<noteq> None \<Longrightarrow> db_view view h' = db_view view h"
    using handle.writeE [OF ok, of ?ops] by metis
  have "gen_deleteWithIndexes E F x ?k r h = Some (h', err)"
    by (simp add: gen_deleteWithIndexes_def DecodeKey_EncodeKey False h'(1))
  moreover have "err = None" if "writes_ok E"
    using WriteBatch_ok [OF that, of h ?ops] ok h'(1) gen_deletes_keys [of F x "Some r" i]
    by (simp add: handle_ok_def eq_commute [of "[]"])
  moreover have "db_view view h' = (if err = None
       then apply_writes (delete_writes (st_TableID x) (\<lambda>i. i) (gen_keys F x) i (Some r)) (db_view view h) else db_view view h)"
    using h'(3) [unfolded w] h'(4) by (cases err) simp_all
  ultimately show ?thesis using h'(2) that by blast
qed

section \<open>Reading\<close>

definition ttl_read ::
  "('p, 'b, 'i) platform \<Rightarrow> float_texts \<Rightarrow> storeData \<Rightarrow> serializerData \<Rightarrow> bytes \<Rightarrow> 64 word \<Rightarrow> kv_map \<Rightarrow> go_struct option \<Rightarrow> kv_map \<Rightarrow> bool" where
  "ttl_read E F x d i now m res m' \<longleftrightarrow>
     (case ttl_rows E x d m i of
        None \<Rightarrow> res = None \<and> m' = m
      | Some (r, t) \<Rightarrow>
          if expired_at t now
          then res = None
            \<and> (ttl_rows E x d m' = (ttl_rows E x d m)(i := None) \<or> m' = m \<and> \<not> (writes_ok E \<and> st_IndexedFields x \<noteq> []))
          else res = Some r \<and> m' = m)"

lemma gen_Get_ttl:
  assumes ok: "handle_ok E view pend h" and u: "gen_ok E F x d (db_view view h)"
    and ttl: "st_HasTTL x" "sd_HasTTL d" and t: "buildStoreData t = Some x"
  obtains h' res n where "gen_Get E F x d pk h = Some (h', Inr res)" "handle_ok E view pend h'"
    "gen_ok E F x d (db_view view h')" "db_tick h \<le> n"
    "ttl_read E F x d (encodePrimaryKey F x pk) (time_Now E n) (db_view view h) res (db_view view h')"
proof -
  let ?i = "encodePrimaryKey F x pk" and ?m = "db_view view h"
  let ?k = "EncodeKey (st_TableID x) ?i"
  obtain h1 where h1: "db_Get E ?k h = (h1, Inr (?m ?k))" "handle_ok E view pend h1" "db_view view h1 = ?m"
    using handle.getE [OF ok, of ?k] by auto
  have tick: "db_tick h \<le> db_tick h1" using tick_Get [OF h1(1)] .
  show ?thesis
  proof (cases "?m ?k")
    case None
    then have "gen_Get E F x d pk h = Some (h1, Inr None)" "ttl_rows E x d ?m ?i = None"
      using h1(1) by (simp_all add: gen_Get_def ttl_rows_def Let_def)
    with h1 u tick show ?thesis by (intro that [of h1 None "db_tick h"]) (auto simp: ttl_read_def)
  next
    case (Some v)
    then obtain p where "gen_dec E d v = Some p" using gen.ok_data [OF u [unfolded gen_ok_def] Some] by blast
    then obtain r e where dec: "gen_DeserializeMeta E d v = Some (Inr (r, e))"
      using ttl_dec_fst [OF ttl(2), of E v] by (auto simp: ttl_dec_def split: option.splits sum.splits)
    then have row: "ttl_rows E x d ?m ?i = Some (r, e)" using Some by (simp add: ttl_rows_def ttl_dec_def)
    obtain now h2 where now: "db_now E h1 = (now, h2)" by fastforce
    have h2: "handle_ok E view pend h2" "db_view view h2 = ?m" "now = time_Now E (db_tick h1)"
      using handle_ok_now [of E view pend h1] db_pebble_now [of E h1] h1 now tick_now [OF now] by auto
    show ?thesis
    proof (cases "expired_at e now")
      case True
      obtain h3 err where h3: "gen_deleteWithIndexes E F x ?k r h2 = Some (h3, err)" "handle_ok E view pend h3"
        "db_view view h3 = (if err = None
           then apply_writes (delete_writes (st_TableID x) (\<lambda>i. i) (gen_keys F x) ?i (Some r)) ?m else ?m)"
        "writes_ok E \<Longrightarrow> st_IndexedFields x \<noteq> [] \<Longrightarrow> err = None"
        using gen_delete_run [OF h2(1) t, of F ?i r] unfolding h2(2) by blast
      have "gen_Get E F x d pk h = Some (h3, Inr None)"
        using h1(1) Some dec now True h3(1) ttl(1) by (simp add: gen_Get_def expired_at_def Let_def)
      moreover have "gen_ok E F x d (db_view view h3)"
        using h3(3) u ttl_delete_ok [OF u, of ?i r] ttl_rows_fst [OF ttl(2), of E x ?m ?i] row by simp
      moreover have "ttl_read E F x d ?i now ?m None (db_view view h3)"
        using row True h3(3,4) ttl_deleted [of E x d F ?i "Some r" ?m] by (auto simp: ttl_read_def split: if_splits)
      ultimately show ?thesis using h3(2) h2(3) tick by (intro that [of h3 None "db_tick h1"]) simp_all
    next
      case False
      have "\<exists>h4. gen_Get E F x d pk h = Some (h4, Inr (Some r)) \<and> handle_ok E view pend h4 \<and> db_view view h4 = ?m"
        using h1 h2 Some dec now False ttl(1) by (cases "0 <s e") (simp_all add: gen_Get_def expired_at_def Let_def)
      then obtain h4 where "gen_Get E F x d pk h = Some (h4, Inr (Some r))" "handle_ok E view pend h4" "db_view view h4 = ?m"
        by blast
      then show ?thesis using u row False h2(3) tick
        by (intro that [of h4 "Some r" "db_tick h1"]) (simp_all add: ttl_read_def)
    qed
  qed
qed


section \<open>Writing\<close>

text \<open>Two maps agree on the rows of the table except that the row of \<open>i\<close> may be gone.\<close>

definition row_gone :: "('p, 'b, 'i) platform \<Rightarrow> storeData \<Rightarrow> serializerData \<Rightarrow> bytes \<Rightarrow> kv_map \<Rightarrow> kv_map \<Rightarrow> bool" where
  "row_gone E x d i m m' \<longleftrightarrow> ttl_rows E x d m' = ttl_rows E x d m \<or> ttl_rows E x d m' = (ttl_rows E x d m)(i := None)"

lemma ttl_old:
  assumes ok: "handle_ok E view pend h" and u: "gen_ok E F x d (db_view view h)"
    and ttl: "st_HasTTL x" "sd_HasTTL d" and t: "buildStoreData t = Some x" and w: "writes_ok E"
    and i: "i = encodePrimaryKey F x pk"
  obtains h' old where
    "(if st_IndexedFields x = [] then Some (h, [])
      else map_option (\<lambda>(h1, got). (h1, gen_index_deletes F x (ignore_error got) i)) (gen_Get E F x d pk h))
     = Some (h', gen_index_deletes F x old i)"
    "index_dels (gen_keys F x) i old = index_dels (gen_keys F x) i (gen_rows E x d (db_view view h') i)"
    "handle_ok E view pend h'" "gen_ok E F x d (db_view view h')" "row_gone E x d i (db_view view h) (db_view view h')"
proof (cases "st_IndexedFields x = []")
  case True
  then have "gen_keys F x i r = []" for r using fields_set [OF t] by (simp add: gen_keys_def)
  then have "index_dels (gen_keys F x) i (gen_rows E x d (db_view view h) i) = []"
    by (simp add: index_dels_def split: option.split)
  with True ok u show ?thesis
    by (intro that [of h None]) (simp_all add: gen_index_deletes_def index_dels_def row_gone_def)
next
  case False
  obtain h' res n where g: "gen_Get E F x d pk h = Some (h', Inr res)" "handle_ok E view pend h'"
    "gen_ok E F x d (db_view view h')" "ttl_read E F x d i (time_Now E n) (db_view view h) res (db_view view h')"
    using gen_Get_ttl [OF ok u ttl t, of pk] unfolding i by metis
  have "gen_rows E x d (db_view view h') i = res \<and> row_gone E x d i (db_view view h) (db_view view h')"
    using g(4) w False
    by (auto simp: ttl_read_def ttl_rows_fst [OF ttl(2)] row_gone_def split: option.splits if_splits)
  with False g show ?thesis by (intro that [of h' res]) auto
qed

lemma row_gone_taken:
  assumes "row_gone E x d (gen_rid F x r) m m'" and "sd_HasTTL d"
  shows "gen_taken E F x d m' r = gen_taken E F x d m r"
proof -
  have "gen_rows E x d m' j = gen_rows E x d m j" if "j \<noteq> gen_rid F x r" for j
    using assms that by (auto simp: row_gone_def ttl_rows_fst)
  then show ?thesis unfolding gen_taken_def gen_holder_def by metis
qed

definition ttl_save ::
  "('p, 'b, 'i) platform \<Rightarrow> float_texts \<Rightarrow> storeData \<Rightarrow> serializerData \<Rightarrow> 64 word \<Rightarrow> kv_map \<Rightarrow> go_struct \<Rightarrow> go_error option
    \<Rightarrow> kv_map \<Rightarrow> bool" where
  "ttl_save E F x d now m r err m' \<longleftrightarrow>
     (if gen_taken E F x d m r
      then (\<exists>e. err = Some e \<and> errors_is e ErrDuplicateKey) \<and> row_gone E x d (gen_rid F x r) m m'
      else err = None \<and> ttl_rows E x d m' = (ttl_rows E x d m)(gen_rid F x r \<mapsto> (r, now + st_TTL x)))"

lemma gen_save_ttl:
  assumes ok: "handle_ok E view pend h" and u: "gen_ok E F x d (db_view view h)"
    and ttl: "st_HasTTL x" "sd_HasTTL d" and t: "buildStoreData t = Some x" and apart: "numbers_apart x" and w: "writes_ok E"
    and ser: "gen_SerializeWithExpiry E d (time_Now E (db_tick h) + st_TTL x) r = Some v"
      "ttl_dec E d v = Some (r, time_Now E (db_tick h) + st_TTL x)"
    and order: "set order = set (st_UniqueFields x @ st_NormalFields x)"
  obtains h' err where "gen_save what order E F x d r h = Some (h', err)" "handle_ok E view pend h'"
    "gen_ok E F x d (db_view view h')" "ttl_save E F x d (time_Now E (db_tick h)) (db_view view h) r err (db_view view h')"
proof -
  let ?i = "gen_rid F x r" and ?pk = "the (r (st_PKGoName x))" and ?e = "time_Now E (db_tick h) + st_TTL x"
  let ?puts = "map (\<lambda>f. kv_put (index_key F x ?i r f) ?i) order"
  obtain h0 where now: "db_now E h = (time_Now E (db_tick h), h0)" by (simp add: db_now_def)
  then have h0: "handle_ok E view pend h0" "db_view view h0 = db_view view h"
    using handle_ok_now [of E view pend h] db_pebble_now [of E h] ok by auto
  obtain h1 old where h1: "(if st_IndexedFields x = [] then Some (h0, [])
      else map_option (\<lambda>(h1, got). (h1, gen_index_deletes F x (ignore_error got) ?i)) (gen_Get E F x d ?pk h0))
     = Some (h1, gen_index_deletes F x old ?i)"
    "index_dels (gen_keys F x) ?i old = index_dels (gen_keys F x) ?i (gen_rows E x d (db_view view h1) ?i)"
    "handle_ok E view pend h1" "gen_ok E F x d (db_view view h1)" "row_gone E x d ?i (db_view view h) (db_view view h1)"
    using ttl_old [OF h0(1) _ ttl t w gen_rid_def] u unfolding h0(2) by metis
  let ?m = "db_view view h1"
  note taken = row_gone_taken [OF h1(5) ttl(2)]
  obtain h2 res where h2: "gen_unique_checks E F x what ?i r (st_UniqueFields x) h1 = (h2, res)"
    "handle_ok E view pend h2" "db_view view h2 = ?m"
    "if gen_taken E F x d ?m r then \<exists>e. res = Some e \<and> errors_is e ErrDuplicateKey else res = None"
    using gen_unique_checks_spec [OF h1(3), of F x what ?i r "st_UniqueFields x"]
    unfolding gen_taken_entry [OF t apart h1(4)] by metis
  have gv: "gen_value E x d r h = Some (h0, v)" by (simp add: gen_value_def ttl(1) now ser(1))
  note run = gen_save_def [of what order E F x d r h, folded gen_rid_def, unfolded gv Let_def, simplified]
  show ?thesis
  proof (cases "gen_taken E F x d ?m r")
    case True
    with h2(4) obtain e where e: "res = Some e" "errors_is e ErrDuplicateKey" by auto
    have "gen_save what order E F x d r h = Some (h2, res)"
      using run h1(1) h2(1) e(1) by (simp split: if_splits)
    then show ?thesis using True taken e h1(4,5) h2(2,3) by (intro that [of h2 res]) (simp_all add: ttl_save_def)
  next
    case False
    let ?ops = "kv_put (EncodeKey (st_TableID x) ?i) v # gen_index_deletes F x old ?i @ ?puts"
    obtain h3 err where h3: "db_WriteBatch E ?ops h2 = (h3, err)" "handle_ok E view pend h3"
      "err = None \<Longrightarrow> db_view view h3 = apply_writes (map kv_write ?ops) ?m"
      using handle.writeE [OF h2(2), of ?ops] h2(3) by metis
    have res: "gen_save what order E F x d r h = Some (h3, err)"
      using run h1(1) h2(1,4) h3(1) False by (simp split: if_splits)
    have "[] \<notin> kp_Key ` set ?ops"
      using gen_deletes_keys [of F x old ?i] by (auto simp: index_key_eq eq_commute [of "[]"])
    then have err: "err = None"
      using WriteBatch_ok [OF w, of h2 ?ops] h2(2) h3(1) by (simp add: handle_ok_def)
    have m3: "db_view view h3
        = apply_writes (save_writes (st_TableID x) (\<lambda>i. i) (gen_keys F x) ?i v (gen_rows E x d ?m ?i) r) ?m"
      using h3(3) [OF err] gen_puts [OF order, of ?i v F "gen_rows E x d ?m ?i" r ?m]
      by (simp add: gen_deletes_writes h1(2) comp_def)
    have dec: "gen_dec E d v = Some r" by (simp add: ttl_dec_fst [OF ttl(2)] ser(2))
    have "gen_ok E F x d (db_view view h3)" by (rule gen_save_map(1) [OF t apart h1(4) False dec refl m3])
    moreover have "ttl_rows E x d (db_view view h3) = (ttl_rows E x d (db_view view h))(?i \<mapsto> (r, ?e))"
      unfolding m3 ttl_saved [OF ser(2)] using h1(5) by (auto simp: row_gone_def fun_eq_iff)
    ultimately show ?thesis
      using res h3(2) err False taken by (intro that [of h3 err]) (simp_all add: ttl_save_def)
  qed
qed

lemma gen_Delete_ttl:
  assumes ok: "handle_ok E view pend h" and u: "gen_ok E F x d (db_view view h)"
    and ttl: "st_HasTTL x" "sd_HasTTL d" and t: "buildStoreData t = Some x" and w: "writes_ok E"
  obtains h' where "gen_Delete E F x d pk h = Some (h', None)" "handle_ok E view pend h'" "gen_ok E F x d (db_view view h')"
    "ttl_rows E x d (db_view view h') = (ttl_rows E x d (db_view view h))(encodePrimaryKey F x pk := None)"
proof -
  let ?i = "encodePrimaryKey F x pk"
  obtain h1 old where h1: "(if st_IndexedFields x = [] then Some (h, [])
      else map_option (\<lambda>(h1, got). (h1, gen_index_deletes F x (ignore_error got) ?i)) (gen_Get E F x d pk h))
     = Some (h1, gen_index_deletes F x old ?i)"
    "index_dels (gen_keys F x) ?i old = index_dels (gen_keys F x) ?i (gen_rows E x d (db_view view h1) ?i)"
    "handle_ok E view pend h1" "gen_ok E F x d (db_view view h1)" "row_gone E x d ?i (db_view view h) (db_view view h1)"
    using ttl_old [OF ok u ttl t w refl] .
  let ?m = "db_view view h1"
  let ?ops = "kv_del (EncodeKey (st_TableID x) ?i) # gen_index_deletes F x old ?i"
  have wr: "map kv_write ?ops = delete_writes (st_TableID x) (\<lambda>i. i) (gen_keys F x) ?i (gen_rows E x d ?m ?i)"
    by (simp add: gen_deletes_writes h1(2) delete_writes_def)
  obtain h2 err where h2: "db_WriteBatch E ?ops h1 = (h2, err)" "handle_ok E view pend h2"
    "err = None \<Longrightarrow> db_view view h2 = apply_writes (map kv_write ?ops) ?m"
    using handle.writeE [OF h1(3), of ?ops] by metis
  have "[] \<notin> kp_Key ` set ?ops" using gen_deletes_keys [of F x old ?i] by (auto simp: eq_commute [of "[]"])
  then have err: "err = None" using WriteBatch_ok [OF w, of h1 ?ops] h1(3) h2(1) by (simp add: handle_ok_def)
  note m2 = h2(3) [OF err, unfolded wr]
  have "gen_ok E F x d (db_view view h2)"
    unfolding m2 gen_ok_def gen_rows_def using h1(4) [unfolded gen_ok_def] by (rule gen.delete_ok) (rule refl)
  moreover have "ttl_rows E x d (db_view view h2) = (ttl_rows E x d (db_view view h))(?i := None)"
    unfolding m2 ttl_deleted using h1(5) by (auto simp: row_gone_def fun_eq_iff)
  moreover have "gen_Delete E F x d pk h = Some (h2, None)"
    using h1(1) h2(1) err by (simp add: gen_Delete_def Let_def split: if_splits)
  ultimately show ?thesis using h2(2) that by blast
qed


section \<open>The table\<close>

lemma gen_save_accepted_ttl:
  assumes "BuildIR files = Inr ts" and "t \<in> set ts" and "t_HasTTL t"
    and "d = buildSerializerData t" and "compiles d"
    and "buildStoreData t = Some x" and "numbers_apart x"
    and "zstd_laws E" and "writes_ok E" and "handle_ok E view pend h" and "gen_ok E F x d (db_view view h)"
    and "struct_ok (sd_Fields d) r" and order: "set order = set (st_UniqueFields x @ st_NormalFields x)"
  obtains h' err where "gen_save what order E F x d r h = Some (h', err)" "handle_ok E view pend h'"
    "gen_ok E F x d (db_view view h')" "ttl_save E F x d (time_Now E (db_tick h)) (db_view view h) r err (db_view view h')"
proof -
  let ?e = "time_Now E (db_tick h) + st_TTL x"
  note fields = accepted_fields_ok [OF assms(1,2), folded assms(4)]
  have ttl: "st_HasTTL x" "sd_HasTTL d"
    using assms(3) by (simp_all add: buildStoreData_fields [OF assms(6)] assms(4) buildSerializerData_def Let_def)
  obtain v where v: "gen_SerializeWithExpiry E d ?e r = Some v" "ttl_dec E d v = Some (r, ?e)"
    using gen_roundtrip [OF assms(8,5) fields(2,1) assms(12), of ?e] ttl(2) by (auto simp: ttl_dec_def)
  show ?thesis using gen_save_ttl [OF assms(10,11) ttl assms(6,7,9) v order, where what = what] that by blast
qed

text \<open>
  C5. The same for every accepted message with a time to live, on an engine whose writes do not fail.  Every row carries
  the time of its save plus the table's time to live.  \<open>Create\<close> and \<open>Update\<close> are refused with \<open>ErrDuplicateKey\<close>
  exactly when another row, expired or not, holds one of the record's unique values, and otherwise put the row with its
  new expiry time; \<open>Delete\<close> removes it.  \<open>Get\<close> returns a row whose time has not passed on the clock it reads; one whose time
  has passed it does not return, and removes with its index entries (a table without indexes deletes it through the
  queue, which may refuse).  Every operation keeps data rows and index entries consistent.
\<close>

theorem generated_ttl_store:
  assumes "BuildIR files = Inr ts" and "t \<in> set ts" and "t_HasTTL t"
    and "d = buildSerializerData t" and "compiles d"
    and "buildStoreData t = Some x" and "numbers_apart x"
    and "zstd_laws E" and "writes_ok E" and "handle_ok E view pend h" and "gen_ok E F x d (db_view view h)"
    and "struct_ok (sd_Fields d) r"
  shows "(\<exists>h' err. gen_Create E F x d (Some r) h = Some (h', err) \<and> handle_ok E view pend h' \<and> gen_ok E F x d (db_view view h')
      \<and> ttl_save E F x d (time_Now E (db_tick h)) (db_view view h) r err (db_view view h'))
    \<and> (\<exists>h' err. gen_Update E F x d (Some r) h = Some (h', err) \<and> handle_ok E view pend h' \<and> gen_ok E F x d (db_view view h')
      \<and> ttl_save E F x d (time_Now E (db_tick h)) (db_view view h) r err (db_view view h'))
    \<and> (\<exists>h'. gen_Delete E F x d pk h = Some (h', None) \<and> handle_ok E view pend h' \<and> gen_ok E F x d (db_view view h')
      \<and> ttl_rows E x d (db_view view h') = (ttl_rows E x d (db_view view h))(encodePrimaryKey F x pk := None))
    \<and> (\<exists>h' res n. gen_Get E F x d pk h = Some (h', Inr res) \<and> handle_ok E view pend h' \<and> gen_ok E F x d (db_view view h')
      \<and> db_tick h \<le> n
      \<and> ttl_read E F x d (encodePrimaryKey F x pk) (time_Now E n) (db_view view h) res (db_view view h'))"
proof -
  have ttl: "st_HasTTL x" "sd_HasTTL d"
    using assms(3) by (simp_all add: buildStoreData_fields [OF assms(6)] assms(4) buildSerializerData_def Let_def)
  note save = gen_save_accepted_ttl [OF assms]
  have order: "set (st_IndexedFields x) = set (st_UniqueFields x @ st_NormalFields x)"
    using fields_set [OF assms(6)] by (rule sym)
  have "\<exists>h' err. gen_Create E F x d (Some r) h = Some (h', err) \<and> handle_ok E view pend h' \<and> gen_ok E F x d (db_view view h')
      \<and> ttl_save E F x d (time_Now E (db_tick h)) (db_view view h) r err (db_view view h')"
    using save [OF refl, where what = "''create''"] by (simp only: gen_Create_def option.case) metis
  moreover have "\<exists>h' err. gen_Update E F x d (Some r) h = Some (h', err) \<and> handle_ok E view pend h' \<and> gen_ok E F x d (db_view view h')
      \<and> ttl_save E F x d (time_Now E (db_tick h)) (db_view view h) r err (db_view view h')"
    using save [OF order, where what = "''update''"] by (simp only: gen_Update_def option.case) metis
  moreover have "\<exists>h'. gen_Delete E F x d pk h = Some (h', None) \<and> handle_ok E view pend h' \<and> gen_ok E F x d (db_view view h')
      \<and> ttl_rows E x d (db_view view h') = (ttl_rows E x d (db_view view h))(encodePrimaryKey F x pk := None)"
    using gen_Delete_ttl [OF assms(10,11) ttl assms(6,9), of pk] by blast
  moreover have "\<exists>h' res n. gen_Get E F x d pk h = Some (h', Inr res) \<and> handle_ok E view pend h' \<and> gen_ok E F x d (db_view view h')
      \<and> db_tick h \<le> n
      \<and> ttl_read E F x d (encodePrimaryKey F x pk) (time_Now E n) (db_view view h) res (db_view view h')"
    using gen_Get_ttl [OF assms(10,11) ttl assms(6), of pk] by blast
  ultimately show ?thesis by (simp only: simp_thms)
qed

lemma session_struct_ok: "session_fits m \<Longrightarrow> struct_ok (sd_Fields session_d) (session_struct m)"
proof -
  assume fits: "session_fits m"
  have dom: "dom (session_struct m) = set (map sf_GoName (sd_Fields session_d))"
    by (auto simp: session_struct_def session_data ser_info_def)
  have "\<forall>f \<in> set (sd_Fields session_d). value_ok f (session_struct m (sf_GoName f))"
    using fits by (simp add: session_data ser_info_def value_ok_def session_struct_def session_fits_def)
  with dom show ?thesis by (simp only: struct_ok_def simp_thms)
qed

lemma session_numbers_apart: "numbers_apart session_store_data"
  by (simp add: numbers_apart_def session_store_fields idx_def)

text \<open>The unique check reads the index entry alone, so a row that \<open>Get\<close> no longer answers still refuses its value.\<close>

lemma expired_row_blocks_unique:
  assumes "sd_HasTTL d" and "ttl_rows E x d m j = Some (q, e)" and "j \<noteq> gen_rid F x r"
    and "f \<in> set (st_UniqueFields x)" and "index_value F q f = index_value F r f"
    and "ttl_save E F x d now m r err m'"
  shows "\<exists>dup. err = Some dup \<and> errors_is dup ErrDuplicateKey"
proof -
  have "gen_rows E x d m j = Some q" using assms(1,2) by (simp add: ttl_rows_fst)
  then have "gen_taken E F x d m r" using assms(3-5) unfolding gen_taken_def gen_holder_def by blast
  with assms(6) show ?thesis by (simp add: ttl_save_def)
qed

text \<open>The clock of a calm platform may move on between operations.\<close>

lemma calm_later:
  "handle_ok (calm_platform a) mem_view id h \<Longrightarrow> handle_ok (calm_platform b) mem_view id h"
  by (simp add: handle_ok_def calm_laws)

lemma calm_dec: "gen_DeserializeMeta (calm_platform a) d = gen_DeserializeMeta (calm_platform b) d"
proof -
  have dec: "zstd_Decompress (calm_platform a) = zstd_Decompress (calm_platform b)" by (simp add: calm_platform_def)
  have "r_compress (calm_platform a) = r_compress (calm_platform b)" by (intro ext) (simp only: r_compress_def dec)
  then have field: "des_field (calm_platform a) = des_field (calm_platform b)" by (intro ext) (simp only: des_field_def)
  have "des_fields (calm_platform a) s fs = des_fields (calm_platform b) s fs" for s fs
    by (induction fs) (intro ext; simp only: des_fields.simps field)+
  then show ?thesis by (intro ext) (simp only: gen_DeserializeMeta_def)
qed

lemma calm_rows: "ttl_rows (calm_platform a) x d = ttl_rows (calm_platform b) x d"
  by (simp add: fun_eq_iff ttl_rows_def ttl_dec_def [abs_def] calm_dec [of a d b])

lemma calm_ok: "sd_HasTTL d \<Longrightarrow> gen_ok (calm_platform a) F x d m \<Longrightarrow> gen_ok (calm_platform b) F x d m"
  by (simp add: gen_ok_def gen_dec_def [abs_def] gen_Deserialize_def calm_dec [of a d b])

text \<open>Witness: a session created at time 10 is read as long as its second has not passed, and is gone after it.\<close>

theorem generated_ttl_store_witness:
  "\<exists>h1 h2 h3. gen_Create (calm_platform 10) no_floats session_store_data session_d (Some (session_struct example_session))
        (with_pebble ([], []) example_db) = Some (h1, None)
    \<and> gen_Get (calm_platform 11) no_floats session_store_data session_d (G64 1) h1
      = Some (h2, Inr (Some (session_struct example_session)))
    \<and> gen_Get (calm_platform 2000000000) no_floats session_store_data session_d (G64 1) h1 = Some (h3, Inr None)
    \<and> ttl_rows (calm_platform 10) session_store_data session_d (db_view mem_view h3) = Map.empty"
proof -
  let ?F = no_floats and ?h = "with_pebble ([], []) example_db" and ?r = "session_struct example_session"
    and ?x = session_store_data and ?d = session_d
  have ttl: "t_HasTTL session_table" "sd_HasTTL ?d" by (simp add: session_table_def Let_def) (simp add: session_data)
  have fits: "session_fits example_session" by (simp add: session_fits_def example_session_def)
  have rid: "encodePrimaryKey ?F ?x (G64 1) = gen_rid ?F ?x ?r"
    by (simp add: gen_rid_def session_store_fields session_struct_pk example_session_def)
  note step = generated_ttl_store [OF BuildIR_testmodels _ ttl(1) refl session_compiles session_store_data
      session_numbers_apart calm_laws(4,5), where F = ?F and pk = "G64 1" and r = ?r]
  have empty: "db_view mem_view ?h = Map.empty" by (simp add: mem_view_def)
  have free: "\<not> gen_taken (calm_platform 10) ?F ?x ?d (db_view mem_view ?h) ?r"
    "ttl_rows (calm_platform 10) ?x ?d (db_view mem_view ?h) = Map.empty"
    unfolding empty by (simp_all add: gen_ok_empty gen_taken_def gen_holder_def ttl_rows_def fun_eq_iff)
  have start: "gen_ok (calm_platform 10) ?F ?x ?d (db_view mem_view ?h)" unfolding empty by (rule gen_ok_empty)
  obtain h1 where h1: "gen_Create (calm_platform 10) ?F ?x ?d (Some ?r) ?h = Some (h1, None)"
    "handle_ok (calm_platform 10) mem_view id h1" "gen_ok (calm_platform 10) ?F ?x ?d (db_view mem_view h1)"
    "ttl_rows (calm_platform 10) ?x ?d (db_view mem_view h1) = [gen_rid ?F ?x ?r \<mapsto> (?r, 1000000010)]"
    using step [OF _ example_handle start session_struct_ok [OF fits], THEN conjunct1] free
    by (auto simp: ttl_save_def session_store_fields session_ttl_def)
  have get: "\<exists>h' res. gen_Get (calm_platform n) ?F ?x ?d (G64 1) h1 = Some (h', Inr res)
      \<and> ttl_read (calm_platform n) ?F ?x ?d (gen_rid ?F ?x ?r) n (db_view mem_view h1) res (db_view mem_view h')" for n
    using step [OF _ calm_later [OF h1(2)] calm_ok [OF ttl(2) h1(3)] session_struct_ok [OF fits], of n,
        THEN conjunct2, THEN conjunct2, THEN conjunct2] by (auto simp: rid)
  obtain h2 where "gen_Get (calm_platform 11) ?F ?x ?d (G64 1) h1 = Some (h2, Inr (Some ?r))"
    using get [of 11] by (auto simp: ttl_read_def calm_rows [of 11 ?x ?d 10] h1(4) expired_at_def word_sless_alt)
  moreover obtain h3 where "gen_Get (calm_platform 2000000000) ?F ?x ?d (G64 1) h1 = Some (h3, Inr None)"
    "ttl_rows (calm_platform 10) ?x ?d (db_view mem_view h3) = Map.empty"
    using get [of 2000000000] calm_laws(5)
    by (auto simp: ttl_read_def calm_rows [of 2000000000 ?x ?d 10] h1(4) expired_at_def word_sless_alt session_store_fields)
  ultimately show ?thesis using h1(1) by blast
qed

end
