(* ===== verification/QueryGen.thy ===== *)
theory QueryGen
  imports StoreGen SessionQueries
begin

text \<open>
  The query builders the code generator emits (\<open>internal/codegen/query.go\<close>): the data of the template
  (\<open>GenerateQuery\<close>) and the methods of \<open>queryTemplate\<close>, interpreted on that data in the way of theory
  \<open>StoreGen\<close>.  For the tables of the test package the emitted builders and scans are those of
  \<open>internal/testmodels/User_sqlitex.go\<close>, the ones of theory \<open>Query\<close>.
\<close>



section \<open>The data of the template\<close>

record queryField =
  qf_GoName :: string
  qf_GoType :: string
  qf_FieldNum :: "32 word"
  qf_IsIndex :: bool

record queryData =
  qd_PackageName :: string
  qd_StoreName :: string
  qd_EntityName :: string
  qd_QueryName :: string
  qd_TableID :: "64 word"
  qd_QueryFields :: "queryField list"
  qd_IndexedField :: "queryField option"
  qd_PKGoType :: string
  qd_HasTTL :: bool
  qd_HasStringLike :: bool

text \<open>\<open>indexedFieldNums\<close>; a name that is missing reads as 0.\<close>

definition indexedFieldNums :: "TableIR \<Rightarrow> (string \<rightharpoonup> 32 word)" where
  "indexedFieldNums table = fold (\<lambda>f m. m(fi_Name f \<mapsto> fi_Number f)) (t_IndexedFields table) Map.empty"

definition query_field :: "(string \<rightharpoonup> 32 word) \<Rightarrow> FieldIR \<Rightarrow> queryField" where
  "query_field nums f =
     \<lparr>qf_GoName = toGoName (fi_Name f), qf_GoType = fi_GoType f, qf_FieldNum = fi_Number f,
      qf_IsIndex = (case nums (fi_Name f) of None \<Rightarrow> False | Some n \<Rightarrow> 0 <s n)\<rparr>"

text \<open>\<open>None\<close>: the table has no primary key, a nil dereference.\<close>

definition buildQueryData :: "TableIR \<Rightarrow> queryData option" where
  "buildQueryData table =
     (case t_PrimaryKey table of
        None \<Rightarrow> None
      | Some pk \<Rightarrow>
          (let queried = filter (\<lambda>f. \<not> (fi_IsPrimaryKey f \<or> fi_IsRepeated f)) (t_Fields table);
               qfs = map (query_field (indexedFieldNums table)) queried
           in Some \<lparr>qd_PackageName = t_GoPackage table, qd_StoreName = t_StoreName table,
                qd_EntityName = t_MessageName table, qd_QueryName = t_MessageName table @ ''Query'',
                qd_TableID = t_TableID table, qd_QueryFields = qfs, qd_IndexedField = find qf_IsIndex qfs,
                qd_PKGoType = fi_GoType pk, qd_HasTTL = t_HasTTL table,
                qd_HasStringLike = list_ex (\<lambda>f. fi_GoType f = ''string'') queried\<rparr>))"

section \<open>The emitted builder\<close>

text \<open>
  The emitted methods are interpreted on the data, as in theory \<open>StoreGen\<close>: \<open>x\<close> is the data of the store
  template, \<open>d\<close> that of the serializer, \<open>Q\<close> of this one.  An argument is kept with its dynamic type.
\<close>

record genQuery =
  gq_where :: "string list"
  gq_args :: "(string \<times> go_value) list"
  gq_limit :: int
  gq_lastPK :: bytes
  gq_afterSet :: bool

definition gen_NewQuery :: genQuery where
  "gen_NewQuery = \<lparr>gq_where = [], gq_args = [], gq_limit = 0, gq_lastPK = [], gq_afterSet = False\<rparr>"

definition gen_Where :: "queryField \<Rightarrow> string \<Rightarrow> go_value \<Rightarrow> genQuery \<Rightarrow> genQuery" where
  "gen_Where f op v q =
     q\<lparr>gq_where := gq_where q @ [qf_GoName f @ '' '' @ op @ '' ?''], gq_args := gq_args q @ [(qf_GoType f, v)]\<rparr>"

definition gen_Limit :: "int \<Rightarrow> genQuery \<Rightarrow> genQuery" where "gen_Limit n q = q\<lparr>gq_limit := n\<rparr>"

definition gen_After :: "float_texts \<Rightarrow> storeData \<Rightarrow> go_value \<Rightarrow> genQuery \<Rightarrow> genQuery" where
  "gen_After F x lastPK q = q\<lparr>gq_lastPK := encodePrimaryKey F x lastPK, gq_afterSet := True\<rparr>"

section \<open>The emitted comparisons\<close>

text \<open>
  Floating-point numbers are compared as IEEE 754 asks, on their bits: not-a-number compares to nothing, the
  two zeros are equal, otherwise sign and magnitude decide.
\<close>

definition float_nan :: "string \<Rightarrow> go_value \<Rightarrow> bool" where
  "float_nan ty v =
     (case v of
        G32 w \<Rightarrow> 0x7F800000 < uint w mod 0x80000000
      | G64 w \<Rightarrow> 0x7FF0000000000000 < uint w mod 0x8000000000000000
      | _ \<Rightarrow> False)"

definition float_key :: "go_value \<Rightarrow> int" where
  "float_key v =
     (case v of
        G32 w \<Rightarrow> if 0x80000000 \<le> uint w then - (uint w mod 0x80000000) else uint w
      | G64 w \<Rightarrow> if 0x8000000000000000 \<le> uint w then - (uint w mod 0x8000000000000000) else uint w
      | _ \<Rightarrow> 0)"

text \<open>The integer a value of an integer type stands for.\<close>

definition int_key :: "string \<Rightarrow> go_value \<Rightarrow> int" where
  "int_key ty v =
     (case v of
        G32 w \<Rightarrow> if ty = ''int32'' then sint w else uint w
      | G64 w \<Rightarrow> if ty = ''int64'' then sint w else uint w
      | _ \<Rightarrow> 0)"

definition number_op :: "string \<Rightarrow> int \<Rightarrow> int \<Rightarrow> bool" where
  "number_op op a e =
     (if op = ''='' then a = e else if op = ''!='' then a \<noteq> e
      else if op = ''>'' then e < a else if op = ''<'' then a < e
      else if op = ''>='' then e \<le> a else if op = ''<='' then a \<le> e else False)"

definition gen_op :: "string \<Rightarrow> string \<Rightarrow> go_value \<Rightarrow> go_value \<Rightarrow> bool" where
  "gen_op ty op actual expected =
     (if ty \<in> {''float32'', ''float64''}
      then (if float_nan ty actual \<or> float_nan ty expected then op = ''!=''
            else number_op op (float_key actual) (float_key expected))
      else if ty \<in> {''int32'', ''int64'', ''uint32'', ''uint64''}
      then number_op op (int_key ty actual) (int_key ty expected)
      else if op = ''='' then actual = expected
      else if op = ''!='' then actual \<noteq> expected
      else if ty = ''string'' \<and> op = ''LIKE''
      then (case (actual, expected) of (GBytes a, GBytes e) \<Rightarrow> str_contains a e | _ \<Rightarrow> False)
      else False)"

definition gen_compare :: "queryField \<Rightarrow> genQuery \<Rightarrow> go_value \<Rightarrow> string \<Rightarrow> bool option" where
  "gen_compare f q actual op =
     (case find_cond (qf_GoName f) op (gq_where q) of
        None \<Rightarrow> Some False
      | Some i \<Rightarrow>
          if length (gq_args q) \<le> i then Some False
          else (case gq_args q ! i of
                  (ty, expected) \<Rightarrow> if ty = qf_GoType f then Some (gen_op ty op actual expected) else None))"

definition gen_cond :: "queryData \<Rightarrow> genQuery \<Rightarrow> go_struct \<Rightarrow> string \<Rightarrow> bool option" where
  "gen_cond Q q item cond =
     (case splitWhere cond of
        [field, op] \<Rightarrow>
          (case find (\<lambda>f. qf_GoName f = field) (qd_QueryFields Q) of
             None \<Rightarrow> Some True
           | Some f \<Rightarrow> gen_compare f q (the (item (qf_GoName f))) op)
      | _ \<Rightarrow> Some True)"

definition gen_matchWhere :: "queryData \<Rightarrow> genQuery \<Rightarrow> go_struct \<Rightarrow> bool option" where
  "gen_matchWhere Q q item = all_conds (gen_cond Q q item) (gq_where q)"

definition gen_matchWhereTail :: "queryData \<Rightarrow> genQuery \<Rightarrow> go_struct \<Rightarrow> bool option" where
  "gen_matchWhereTail Q q item = all_conds (gen_cond Q q item) (drop 1 (gq_where q))"

section \<open>The emitted scans\<close>

text \<open>\<open>fmt.Sprintf("%v", val)\<close> of an argument: a byte slice prints as its numbers in brackets.\<close>

fun join_bytes :: "bytes \<Rightarrow> bytes" where
  "join_bytes [] = []"
| "join_bytes [b] = show_nat (unat b)"
| "join_bytes (b # bs) = show_nat (unat b) @ 0x20 # join_bytes bs"

definition arg_text :: "float_texts \<Rightarrow> string \<times> go_value \<Rightarrow> bytes" where
  "arg_text F a =
     (case a of
        (ty, GBytes b) \<Rightarrow> if ty = ''[]byte'' then 0x5B # join_bytes b @ [0x5D] else b
      | (ty, v) \<Rightarrow> go_text F ty v)"

definition gen_fieldValue :: "float_texts \<Rightarrow> queryField \<Rightarrow> string \<times> go_value \<Rightarrow> bytes option" where
  "gen_fieldValue F f a =
     (if qf_GoType f = ''string''
      then (case a of (ty, GBytes b) \<Rightarrow> if ty = ''string'' then Some b else None | _ \<Rightarrow> None)
      else if qf_GoType f = ''int64''
      then (case a of (ty, G64 w) \<Rightarrow> if ty = ''int64'' then Some (put_le64 w) else None | _ \<Rightarrow> None)
      else if qf_GoType f = ''int32''
      then (case a of (ty, G32 w) \<Rightarrow> if ty = ''int32'' then Some (put_le32 w) else None | _ \<Rightarrow> None)
      else Some (arg_text F a))"

definition gen_collect :: "genQuery \<Rightarrow> 'r \<Rightarrow> 'd \<times> 'r list \<Rightarrow> ('d \<times> 'r list) \<times> bool" where
  "gen_collect q m s =
     (let results = snd s @ [m]
      in ((fst s, results), 0 < gq_limit q \<and> gq_limit q \<le> int (length results)))"

text \<open>
  The part of a loop body after the row has been read: decode it, drop it when it has expired,
  check the conditions, collect it.
\<close>

definition gen_row ::
  "('p, 'b, 'i) platform \<Rightarrow> float_texts \<Rightarrow> storeData \<Rightarrow> serializerData \<Rightarrow> queryData \<Rightarrow> genQuery
    \<Rightarrow> (go_struct \<Rightarrow> bool option) \<Rightarrow> bytes \<Rightarrow> bytes \<Rightarrow> 'p DB \<times> go_struct list
    \<Rightarrow> (('p DB \<times> go_struct list) \<times> bool) option" where
  "gen_row E F x d Q q matches key value s =
     (if qd_HasTTL Q
      then (case gen_DeserializeMeta E d value of
              None \<Rightarrow> None
            | Some (Inl err) \<Rightarrow> Some (s, False)
            | Some (Inr (m, expiresAt)) \<Rightarrow>
                (let (d2, gone) = check_expired E expiresAt (fst s) in
                 if gone
                 then map_option (\<lambda>(d3, err). ((d3, snd s), False)) (gen_deleteWithIndexes E F x key m d2)
                 else
                   (case matches m of
                      None \<Rightarrow> None
                    | Some False \<Rightarrow> Some ((d2, snd s), False)
                    | Some True \<Rightarrow> Some (gen_collect q m (d2, snd s)))))
      else (case gen_Deserialize E d value of
              None \<Rightarrow> None
            | Some (Inl err) \<Rightarrow> Some (s, False)
            | Some (Inr m) \<Rightarrow>
                (case matches m of
                   None \<Rightarrow> None
                 | Some False \<Rightarrow> Some (s, False)
                 | Some True \<Rightarrow> Some (gen_collect q m s))))"

definition gen_indexed_body ::
  "('p, 'b, 'i) platform \<Rightarrow> float_texts \<Rightarrow> storeData \<Rightarrow> serializerData \<Rightarrow> queryData \<Rightarrow> genQuery
    \<Rightarrow> bytes \<Rightarrow> bytes \<Rightarrow> 'p DB \<times> go_struct list \<Rightarrow> (('p DB \<times> go_struct list) \<times> bool) option" where
  "gen_indexed_body E F x d Q q key pkBytes s =
     (let dataKey = EncodeKey (qd_TableID Q) pkBytes; (d1, r) = db_Get E dataKey (fst s); s1 = (d1, snd s) in
      case r of
        Inl err \<Rightarrow> Some (s1, False)
      | Inr None \<Rightarrow> Some (s1, False)
      | Inr (Some value) \<Rightarrow>
          gen_row E F x d Q q (\<lambda>m. if 1 < length (gq_where q) then gen_matchWhereTail Q q m else Some True)
            dataKey value s1)"

definition gen_execIndexed ::
  "('p, 'b, 'i) platform \<Rightarrow> float_texts \<Rightarrow> storeData \<Rightarrow> serializerData \<Rightarrow> queryData \<Rightarrow> queryField \<Rightarrow> genQuery
    \<Rightarrow> 'p DB \<Rightarrow> ('p DB \<times> go_struct list) option" where
  "gen_execIndexed E F x d Q f q h =
     (case gq_args q of
        [] \<Rightarrow> None
      | val # _ \<Rightarrow>
          (case gen_fieldValue F f val of
             None \<Rightarrow> None
           | Some fieldValue \<Rightarrow>
               (case db_Iterate E (EncodeIndexPrefix (qd_TableID Q) (qf_FieldNum f) fieldValue) h of
                  None \<Rightarrow> Some (h, [])
                | Some it \<Rightarrow>
                    (let it' = if gq_afterSet q
                               then it_SeekAfter E
                                 (EncodeIndexKey (qd_TableID Q) (qf_FieldNum f) fieldValue (gq_lastPK q)) it
                               else it
                     in it_for E (gen_indexed_body E F x d Q q) it' (h, [])))))"

definition gen_execFullScan ::
  "('p, 'b, 'i) platform \<Rightarrow> float_texts \<Rightarrow> storeData \<Rightarrow> serializerData \<Rightarrow> queryData \<Rightarrow> genQuery
    \<Rightarrow> 'p DB \<Rightarrow> ('p DB \<times> go_struct list) option" where
  "gen_execFullScan E F x d Q q h =
     (case db_Iterate E (EncodeKey (qd_TableID Q) []) h of
        None \<Rightarrow> Some (h, [])
      | Some it \<Rightarrow>
          (let it' = if gq_afterSet q then it_SeekAfter E (EncodeKey (qd_TableID Q) (gq_lastPK q)) it else it
           in it_for E (gen_row E F x d Q q (gen_matchWhere Q q)) it' (h, [])))"

definition gen_Exec ::
  "('p, 'b, 'i) platform \<Rightarrow> float_texts \<Rightarrow> storeData \<Rightarrow> serializerData \<Rightarrow> queryData \<Rightarrow> genQuery
    \<Rightarrow> 'p DB \<Rightarrow> ('p DB \<times> go_struct list) option" where
  "gen_Exec E F x d Q q h =
     (case (qd_IndexedField Q, gq_where q) of
        (Some f, w # _) \<Rightarrow>
          if splitWhere w = [qf_GoName f, ''=''] then gen_execIndexed E F x d Q f q h
          else gen_execFullScan E F x d Q q h
      | _ \<Rightarrow> gen_execFullScan E F x d Q q h)"

definition gen_First ::
  "('p, 'b, 'i) platform \<Rightarrow> float_texts \<Rightarrow> storeData \<Rightarrow> serializerData \<Rightarrow> queryData \<Rightarrow> genQuery
    \<Rightarrow> 'p DB \<Rightarrow> (genQuery \<times> 'p DB \<times> go_struct option) option" where
  "gen_First E F x d Q q h =
     (let q' = q\<lparr>gq_limit := 1\<rparr> in
      map_option (\<lambda>(h', r). (q', h', case r of [] \<Rightarrow> None | m # _ \<Rightarrow> Some m)) (gen_Exec E F x d Q q' h))"

definition gen_Count ::
  "('p, 'b, 'i) platform \<Rightarrow> float_texts \<Rightarrow> storeData \<Rightarrow> serializerData \<Rightarrow> queryData \<Rightarrow> genQuery
    \<Rightarrow> 'p DB \<Rightarrow> ('p DB \<times> nat) option" where
  "gen_Count E F x d Q q h = map_option (\<lambda>(h', r). (h', length r)) (gen_Exec E F x d Q q h)"



section \<open>The test package\<close>

text \<open>Loops whose bodies agree under a map of the states agree under it.\<close>

definition bodies_agree :: "('s \<Rightarrow> 't) \<Rightarrow> (bytes \<Rightarrow> bytes \<Rightarrow> 's \<Rightarrow> ('s \<times> bool) option)
    \<Rightarrow> (bytes \<Rightarrow> bytes \<Rightarrow> 't \<Rightarrow> ('t \<times> bool) option) \<Rightarrow> bool" where
  "bodies_agree g body body' \<longleftrightarrow> (\<forall>k v s. body' k v (g s) = map_option (map_prod g id) (body k v s))"

lemma bodies_agreeD: "bodies_agree g body body' \<Longrightarrow> body' k v (g s) = map_option (map_prod g id) (body k v s)"
  by (simp add: bodies_agree_def)

lemma it_for_map_Some:
  assumes "bodies_agree g body body'" and "it_for E body it s = Some y"
  shows "it_for E body' it (g s) = Some (g y)"
proof -
  have "bodies_agree g body body' \<longrightarrow> it_for E body' it (g s) = Some (g y)"
  proof (rule it_for.raw_induct [where P = "\<lambda>E body it s y. bodies_agree g body body'
      \<longrightarrow> it_for E body' it (g s) = Some (g y)", OF _ assms(2)], intro impI)
    fix loop E body it s y
    assume IH: "\<And>E body it s y. loop E body it s = Some y \<Longrightarrow>
        bodies_agree g body body' \<longrightarrow> it_for E body' it (g s) = Some (g y)"
      and run: "(case it_Next E it of (it', b) \<Rightarrow>
        if b then (case body (it_Key E it') (it_Value E it') s of None \<Rightarrow> None
             | Some (s', brk) \<Rightarrow> if brk then Some s' else loop E body it' s') else Some s) = Some y"
      and b: "bodies_agree g body body'"
    obtain it' more where nx: "it_Next E it = (it', more)" by fastforce
    show "it_for E body' it (g s) = Some (g y)"
    proof (cases more)
      case True
      obtain s' brk where s': "body (it_Key E it') (it_Value E it') s = Some (s', brk)"
        using run nx True by (auto split: option.splits)
      have "it_for E body' it' (g s') = Some (g y)" if "\<not> brk" using IH b run nx True s' that by simp
      then show ?thesis using run nx True s' bodies_agreeD [OF b] by (subst it_for.simps) auto
    qed (use run nx in \<open>simp add: it_for.simps\<close>)
  qed
  with assms(1) show ?thesis by simp
qed

lemma it_for_map_inv:
  assumes "bodies_agree g body body'" and "it_for E body' it (g s) = Some z"
  shows "\<exists>y. it_for E body it s = Some y \<and> z = g y"
proof -
  have "\<forall>s'. bodies_agree g body body' \<and> g s = g s' \<longrightarrow> (\<exists>y. it_for E body it s' = Some y \<and> z = g y)"
  proof (rule it_for.raw_induct [where P = "\<lambda>E body' it t z. \<forall>s. bodies_agree g body body' \<and> t = g s
      \<longrightarrow> (\<exists>y. it_for E body it s = Some y \<and> z = g y)", OF _ assms(2)], intro allI impI, elim conjE)
    fix loop E body' it t z s
    assume IH: "\<And>E body' it t z. loop E body' it t = Some z \<Longrightarrow>
        \<forall>s. bodies_agree g body body' \<and> t = g s \<longrightarrow> (\<exists>y. it_for E body it s = Some y \<and> z = g y)"
      and run: "(case it_Next E it of (it', b) \<Rightarrow>
        if b then (case body' (it_Key E it') (it_Value E it') t of None \<Rightarrow> None
             | Some (s', brk) \<Rightarrow> if brk then Some s' else loop E body' it' s') else Some t) = Some z"
      and b: "bodies_agree g body body'" and t: "t = g s"
    obtain it' more where nx: "it_Next E it = (it', more)" by fastforce
    show "\<exists>y. it_for E body it s = Some y \<and> z = g y"
    proof (cases more)
      case True
      obtain s' brk where s': "body (it_Key E it') (it_Value E it') s = Some (s', brk)"
        using run nx True bodies_agreeD [OF b, of "it_Key E it'" "it_Value E it'" s]
        by (auto simp: t split: option.splits)
      have "if brk then z = g s' else loop E body' it' (g s') = Some z"
        using run nx True bodies_agreeD [OF b, of "it_Key E it'" "it_Value E it'" s] s' by (auto simp: t split: if_splits)
      then have "if brk then z = g s' else \<exists>y. it_for E body it' s' = Some y \<and> z = g y"
        using IH b by (auto split: if_splits)
      then show ?thesis using nx True s' by (subst it_for.simps) (auto split: if_splits)
    qed (use run nx t in \<open>simp add: it_for.simps\<close>)
  qed
  with assms(1) show ?thesis by blast
qed

lemma it_for_map:
  assumes "bodies_agree g body body'"
  shows "it_for E body' it (g s) = map_option g (it_for E body it s)"
proof (cases "it_for E body it s")
  case None
  then show ?thesis
    using it_for_map_inv [OF assms, of E it s] by (cases "it_for E body' it (g s)") auto
next
  case (Some y)
  from it_for_map_Some [OF assms this] Some show ?thesis by simp
qed

fun arg_pair :: "query_arg \<Rightarrow> string \<times> go_value" where
  "arg_pair (QString b) = (''string'', GBytes b)"
| "arg_pair (QInt64 w) = (''int64'', G64 w)"
| "arg_pair (QBool b) = (''bool'', GBool b)"

definition as_gen :: "UserQuery \<Rightarrow> genQuery" where
  "as_gen q = \<lparr>gq_where = q_where q, gq_args = map arg_pair (q_args q), gq_limit = q_limit q,
     gq_lastPK = q_lastPK q, gq_afterSet = q_afterSet q\<rparr>"

lemma as_gen_simps [simp]:
  "gq_where (as_gen q) = q_where q" "gq_args (as_gen q) = map arg_pair (q_args q)"
  "gq_limit (as_gen q) = q_limit q" "gq_lastPK (as_gen q) = q_lastPK q" "gq_afterSet (as_gen q) = q_afterSet q"
  by (simp_all add: as_gen_def)

definition qfield :: "string \<Rightarrow> string \<Rightarrow> 32 word \<Rightarrow> bool \<Rightarrow> queryField" where
  "qfield go ty n i = \<lparr>qf_GoName = go, qf_GoType = ty, qf_FieldNum = n, qf_IsIndex = i\<rparr>"

definition user_query_data :: queryData where
  "user_query_data =
     \<lparr>qd_PackageName = ''testmodels'', qd_StoreName = ''UserStore'', qd_EntityName = ''User'',
      qd_QueryName = ''UserQuery'', qd_TableID = user_tableID,
      qd_QueryFields = [qfield ''Name'' ''string'' 2 False, qfield ''Email'' ''string'' 3 True,
        qfield ''CreatedAt'' ''int64'' 4 True, qfield ''Active'' ''bool'' 5 False, qfield ''Bio'' ''string'' 6 False],
      qd_IndexedField = Some (qfield ''Email'' ''string'' 3 True), qd_PKGoType = ''int64'', qd_HasTTL = False,
      qd_HasStringLike = True\<rparr>"

definition session_query_data :: queryData where
  "session_query_data =
     \<lparr>qd_PackageName = ''testmodels'', qd_StoreName = ''SessionStore'', qd_EntityName = ''Session'',
      qd_QueryName = ''SessionQuery'', qd_TableID = session_tableID,
      qd_QueryFields = [qfield ''Token'' ''string'' 2 False, qfield ''UserId'' ''string'' 3 True,
        qfield ''Active'' ''bool'' 4 False],
      qd_IndexedField = Some (qfield ''UserId'' ''string'' 3 True), qd_PKGoType = ''int64'', qd_HasTTL = True,
      qd_HasStringLike = True\<rparr>"

lemma user_query_data: "buildQueryData user_table = Some user_query_data" by code_simp
lemma session_query_data: "buildQueryData session_table = Some session_query_data" by code_simp

lemma gen_op_eqs:
  "gen_op ''string'' op (GBytes a) (GBytes e) = string_op op a e"
  "gen_op ''int64'' op (G64 v) (G64 w) = int64_op op v w"
  "gen_op ''bool'' op (GBool b) (GBool c) = bool_op op b c"
proof -
  have "sint v = sint w \<longleftrightarrow> v = w" by (auto intro: signed_word_eqI)
  then show "gen_op ''int64'' op (G64 v) (G64 w) = int64_op op v w"
    by (simp add: gen_op_def int64_op_def number_op_def int_key_def word_sless_alt word_sle_eq)
qed (simp_all add: gen_op_def string_op_def bool_op_def)

lemma gen_compare_as_gen:
  assumes "qf_GoType f = fst (arg_pair a)"
  shows "gen_compare f (as_gen q) (snd (arg_pair a)) op
    = (case target_arg (qf_GoName f) op q of None \<Rightarrow> Some False | Some e \<Rightarrow> arg_op op a e)"
proof (cases "find_cond (qf_GoName f) op (q_where q)")
  case (Some i)
  show ?thesis
  proof (cases "length (q_args q) \<le> i")
    case False
    then show ?thesis
      using Some assms by (cases a; cases "q_args q ! i") (simp_all add: gen_compare_def target_arg_def gen_op_eqs)
  qed (simp add: gen_compare_def target_arg_def Some)
qed (simp add: gen_compare_def target_arg_def)

lemma user_gen_cond: "gen_cond user_query_data (as_gen q) (user_struct m) = user_cond q m"
proof (rule ext)
  fix cond
  note cmp = gen_compare_as_gen [where q = q, of _ "QString _", simplified] gen_compare_as_gen [where q = q, of _ "QInt64 _", simplified]
    gen_compare_as_gen [where q = q, of _ "QBool _", simplified]
  show "gen_cond user_query_data (as_gen q) (user_struct m) cond = user_cond q m cond"
    unfolding user_cond_eval
    by (simp add: gen_cond_def eval_cond_def user_query_data_def qfield_def user_struct_def user_value_def cmp
        split: list.split)
qed

lemma session_gen_cond: "gen_cond session_query_data (as_gen q) (session_struct m) = session_cond q m"
proof (rule ext)
  fix cond
  note cmp = gen_compare_as_gen [where q = q, of _ "QString _", simplified]
    gen_compare_as_gen [where q = q, of _ "QBool _", simplified]
  show "gen_cond session_query_data (as_gen q) (session_struct m) cond = session_cond q m cond"
    unfolding session_cond_eval
    by (simp add: gen_cond_def eval_cond_def session_query_data_def qfield_def session_struct_def session_value_def cmp
        split: list.split)
qed

definition as_rows :: "('r \<Rightarrow> go_struct) \<Rightarrow> 'd \<times> 'r list \<Rightarrow> 'd \<times> go_struct list" where
  "as_rows g s = (fst s, map g (snd s))"

lemma as_rows_simps [simp]: "fst (as_rows g s) = fst s" "as_rows g (h, rs) = (h, map g rs)"
  by (simp_all add: as_rows_def)

lemma gen_collect_as_gen: "gen_collect (as_gen q) (g m) (as_rows g s) = map_prod (as_rows g) id (collect_row q m s)"
  by (simp add: gen_collect_def collect_row_def as_rows_def Let_def)

lemma user_query_fields:
  "qd_TableID user_query_data = user_tableID" "\<not> qd_HasTTL user_query_data"
  "qd_IndexedField user_query_data = Some (qfield ''Email'' ''string'' 3 True)"
  "qd_TableID session_query_data = session_tableID" "qd_HasTTL session_query_data"
  "qd_IndexedField session_query_data = Some (qfield ''UserId'' ''string'' 3 True)"
  by (simp_all add: user_query_data_def session_query_data_def)

lemma gen_matches:
  "gen_matchWhere user_query_data (as_gen q) (user_struct m) = user_matchWhere q m"
  "gen_matchWhereTail user_query_data (as_gen q) (user_struct m) = user_matchWhereTail q m"
  "gen_matchWhere session_query_data (as_gen q) (session_struct s) = session_matchWhere q s"
  "gen_matchWhereTail session_query_data (as_gen q) (session_struct s) = session_matchWhereTail q s"
  by (simp_all add: gen_matchWhere_def user_matchWhere_def user_gen_cond gen_matchWhereTail_def user_matchWhereTail_def
      session_matchWhere_def session_gen_cond session_matchWhereTail_def)

text \<open>One row, for a table without and with a time to live.\<close>

definition user_row ::
  "('p, 'b, 'i) platform \<Rightarrow> UserQuery \<Rightarrow> (User \<Rightarrow> bool option) \<Rightarrow> bytes \<Rightarrow> 'p DB \<times> User list
    \<Rightarrow> (('p DB \<times> User list) \<times> bool) option" where
  "user_row E q P v s =
     (case DeserializeUser E v of
        None \<Rightarrow> None
      | Some (Inl err) \<Rightarrow> Some (s, False)
      | Some (Inr m) \<Rightarrow>
          (case P m of None \<Rightarrow> None | Some False \<Rightarrow> Some (s, False) | Some True \<Rightarrow> Some (collect_row q m s)))"

definition session_row ::
  "('p, 'b, 'i) platform \<Rightarrow> UserQuery \<Rightarrow> (Session \<Rightarrow> bool option) \<Rightarrow> bytes \<Rightarrow> bytes \<Rightarrow> 'p DB \<times> Session list
    \<Rightarrow> (('p DB \<times> Session list) \<times> bool) option" where
  "session_row E q P key v s =
     (case DeserializeSessionMeta v of
        None \<Rightarrow> None
      | Some (Inl err) \<Rightarrow> Some (s, False)
      | Some (Inr (m, expiresAt)) \<Rightarrow>
          (let (d2, gone) = check_expired E expiresAt (fst s) in
           if gone
           then map_option (\<lambda>(d3, err). ((d3, snd s), False)) (deleteSessionWithIndexes E key m d2)
           else
             (case P m of
                None \<Rightarrow> None
              | Some False \<Rightarrow> Some ((d2, snd s), False)
              | Some True \<Rightarrow> Some (collect_row q m (d2, snd s)))))"

definition tail_match :: "UserQuery \<Rightarrow> ('r \<Rightarrow> bool option) \<Rightarrow> 'r \<Rightarrow> bool option" where
  "tail_match q P m = (if 1 < length (q_where q) then P m else Some True)"

lemma user_gen_row:
  assumes "\<And>m. matches (user_struct m) = P m"
  shows "gen_row E F x user_d user_query_data (as_gen q) matches key v (as_rows user_struct s)
    = map_option (map_prod (as_rows user_struct) id) (user_row E q P v s)"
proof (cases "DeserializeUser E v")
  case (Some r)
  show ?thesis
  proof (cases r)
    case (Inr m)
    show ?thesis
      by (cases "P m")
         (simp_all add: gen_row_def user_row_def user_query_fields user_gen_Deserialize assms gen_collect_as_gen Some Inr
            split: bool.split)
  qed (simp add: gen_row_def user_row_def user_query_fields user_gen_Deserialize Some)
qed (simp add: gen_row_def user_row_def user_query_fields user_gen_Deserialize)

lemma session_gen_row:
  assumes "\<And>m. matches (session_struct m) = P m"
  shows "gen_row E F session_store_data session_d session_query_data (as_gen q) matches key v (as_rows session_struct s)
    = map_option (map_prod (as_rows session_struct) id) (session_row E q P key v s)"
proof (cases "DeserializeSessionMeta v")
  case (Some r)
  show ?thesis
  proof (cases r)
    case (Inr me)
    obtain m e where me: "me = (m, e)" by fastforce
    obtain d2 gone where c: "check_expired E e (fst s) = (d2, gone)" by fastforce
    have rows: "(d2, snd (as_rows session_struct s)) = as_rows session_struct (d2, snd s)" for d2
      by (simp add: as_rows_def)
    have P: "P m = None \<or> P m = Some True \<or> P m = Some False" by (cases "P m") auto
    show ?thesis
    proof (cases gone)
      case True
      then show ?thesis
        by (simp add: gen_row_def session_row_def user_query_fields session_gen_DeserializeMeta Some Inr me c session_gen_delete
            option.map_comp comp_def case_prod_unfold as_rows_def)
    next
      case False
      with P show ?thesis
        by (elim disjE)
           (simp_all add: gen_row_def session_row_def user_query_fields session_gen_DeserializeMeta Some Inr me c assms rows
              gen_collect_as_gen del: as_rows_simps(2))
    qed
  qed (simp add: gen_row_def session_row_def user_query_fields session_gen_DeserializeMeta Some)
qed (simp add: gen_row_def session_row_def user_query_fields session_gen_DeserializeMeta)

lemma body_rows:
  "user_scan_body E q key v s = user_row E q (user_matchWhere q) v s"
  "session_scan_body E q key v t = session_row E q (session_matchWhere q) key v t"
  "user_indexed_body E q key pkBytes s =
     (let (d1, r) = db_Get E (EncodeKey user_tableID pkBytes) (fst s) in
      case r of
        Inl err \<Rightarrow> Some ((d1, snd s), False)
      | Inr None \<Rightarrow> Some ((d1, snd s), False)
      | Inr (Some value) \<Rightarrow> user_row E q (tail_match q (user_matchWhereTail q)) value (d1, snd s))"
  "session_indexed_body E q key pkBytes t =
     (let (d1, r) = db_Get E (EncodeKey session_tableID pkBytes) (fst t) in
      case r of
        Inl err \<Rightarrow> Some ((d1, snd t), False)
      | Inr None \<Rightarrow> Some ((d1, snd t), False)
      | Inr (Some value) \<Rightarrow>
          session_row E q (tail_match q (session_matchWhereTail q)) (EncodeKey session_tableID pkBytes) value (d1, snd t))"
proof -
  show "user_indexed_body E q key pkBytes s =
     (let (d1, r) = db_Get E (EncodeKey user_tableID pkBytes) (fst s) in
      case r of
        Inl err \<Rightarrow> Some ((d1, snd s), False)
      | Inr None \<Rightarrow> Some ((d1, snd s), False)
      | Inr (Some value) \<Rightarrow> user_row E q (tail_match q (user_matchWhereTail q)) value (d1, snd s))"
    unfolding user_indexed_body_def user_row_def tail_match_def
    by (cases "db_Get E (EncodeKey user_tableID pkBytes) (fst s)") (simp only: Let_def prod.case)
  show "session_indexed_body E q key pkBytes t =
     (let (d1, r) = db_Get E (EncodeKey session_tableID pkBytes) (fst t) in
      case r of
        Inl err \<Rightarrow> Some ((d1, snd t), False)
      | Inr None \<Rightarrow> Some ((d1, snd t), False)
      | Inr (Some value) \<Rightarrow>
          session_row E q (tail_match q (session_matchWhereTail q)) (EncodeKey session_tableID pkBytes) value (d1, snd t))"
    unfolding session_indexed_body_def session_row_def tail_match_def
    by (cases "db_Get E (EncodeKey session_tableID pkBytes) (fst t)") (simp only: Let_def prod.case fst_conv snd_conv)
qed (simp_all add: user_scan_body_def session_scan_body_def user_row_def session_row_def)

lemma gen_indexed_body_eq:
  "gen_indexed_body E F x d Q (as_gen q) key pkBytes (as_rows g s) =
     (let (d1, r) = db_Get E (EncodeKey (qd_TableID Q) pkBytes) (fst s) in
      case r of
        Inl err \<Rightarrow> Some (as_rows g (d1, snd s), False)
      | Inr None \<Rightarrow> Some (as_rows g (d1, snd s), False)
      | Inr (Some value) \<Rightarrow>
          gen_row E F x d Q (as_gen q) (tail_match q (gen_matchWhereTail Q (as_gen q)))
            (EncodeKey (qd_TableID Q) pkBytes) value (as_rows g (d1, snd s)))"
proof -
  have "tail_match q P = (\<lambda>m. if 1 < length (q_where q) then P m else Some True)" for P :: "go_struct \<Rightarrow> bool option"
    by (simp add: tail_match_def fun_eq_iff)
  then show ?thesis by (simp add: gen_indexed_body_def as_rows_def Let_def split: prod.split sum.split option.split)
qed

lemma user_bodies:
  "bodies_agree (as_rows user_struct) (user_scan_body E q)
     (gen_row E F x user_d user_query_data (as_gen q) (gen_matchWhere user_query_data (as_gen q)))"
  "bodies_agree (as_rows user_struct) (user_indexed_body E q)
     (gen_indexed_body E F x user_d user_query_data (as_gen q))"
proof -
  show "bodies_agree (as_rows user_struct) (user_scan_body E q)
     (gen_row E F x user_d user_query_data (as_gen q) (gen_matchWhere user_query_data (as_gen q)))"
    unfolding bodies_agree_def body_rows by (intro allI user_gen_row) (rule gen_matches)
  have row: "gen_row E F x user_d user_query_data (as_gen q)
      (tail_match q (gen_matchWhereTail user_query_data (as_gen q))) key v (as_rows user_struct s)
    = map_option (map_prod (as_rows user_struct) id) (user_row E q (tail_match q (user_matchWhereTail q)) v s)" for key v s
    by (rule user_gen_row) (simp add: tail_match_def gen_matches)
  show "bodies_agree (as_rows user_struct) (user_indexed_body E q)
     (gen_indexed_body E F x user_d user_query_data (as_gen q))"
    unfolding bodies_agree_def body_rows gen_indexed_body_eq user_query_fields(1) row Let_def
    by (simp split: prod.split sum.split option.split)
qed

lemma session_bodies:
  "bodies_agree (as_rows session_struct) (session_scan_body E q)
     (gen_row E F session_store_data session_d session_query_data (as_gen q) (gen_matchWhere session_query_data (as_gen q)))"
  "bodies_agree (as_rows session_struct) (session_indexed_body E q)
     (gen_indexed_body E F session_store_data session_d session_query_data (as_gen q))"
proof -
  show "bodies_agree (as_rows session_struct) (session_scan_body E q)
     (gen_row E F session_store_data session_d session_query_data (as_gen q) (gen_matchWhere session_query_data (as_gen q)))"
    unfolding bodies_agree_def body_rows by (intro allI session_gen_row) (rule gen_matches)
  have row: "gen_row E F session_store_data session_d session_query_data (as_gen q)
      (tail_match q (gen_matchWhereTail session_query_data (as_gen q))) key v (as_rows session_struct s)
    = map_option (map_prod (as_rows session_struct) id)
        (session_row E q (tail_match q (session_matchWhereTail q)) key v s)" for key v s
    by (rule session_gen_row) (simp add: tail_match_def gen_matches)
  show "bodies_agree (as_rows session_struct) (session_indexed_body E q)
     (gen_indexed_body E F session_store_data session_d session_query_data (as_gen q))"
    unfolding bodies_agree_def body_rows gen_indexed_body_eq user_query_fields(4) row Let_def
    by (simp split: prod.split sum.split option.split)
qed

lemma gen_index_values:
  "gen_fieldValue F (qfield go ''string'' n u) (arg_pair a) = (case a of QString b \<Rightarrow> Some b | _ \<Rightarrow> None)"
  by (cases a) (simp_all add: gen_fieldValue_def qfield_def)

lemma user_loops:
  "it_for E (gen_row E F x user_d user_query_data (as_gen q) (gen_matchWhere user_query_data (as_gen q))) it (h, [])
    = map_option (as_rows user_struct) (it_for E (user_scan_body E q) it (h, []))"
  "it_for E (gen_indexed_body E F x user_d user_query_data (as_gen q)) it (h, [])
    = map_option (as_rows user_struct) (it_for E (user_indexed_body E q) it (h, []))"
  using it_for_map [OF user_bodies(1), where E = E and s = "(h, [])"] it_for_map [OF user_bodies(2), where E = E and s = "(h, [])"]
  by simp_all

lemma session_loops:
  "it_for E (gen_row E F session_store_data session_d session_query_data (as_gen q) (gen_matchWhere session_query_data (as_gen q)))
      it (h, [])
    = map_option (as_rows session_struct) (it_for E (session_scan_body E q) it (h, []))"
  "it_for E (gen_indexed_body E F session_store_data session_d session_query_data (as_gen q)) it (h, [])
    = map_option (as_rows session_struct) (it_for E (session_indexed_body E q) it (h, []))"
  using it_for_map [OF session_bodies(1), where E = E and s = "(h, [])"] it_for_map [OF session_bodies(2), where E = E and s = "(h, [])"]
  by simp_all

lemma user_gen_scan:
  "gen_execFullScan E F x user_d user_query_data (as_gen q) h = map_option (as_rows user_struct) (user_execFullScan E q h)"
  by (simp add: gen_execFullScan_def user_execFullScan_def user_query_fields user_loops Let_def split: option.split)

lemma user_gen_indexed:
  "gen_execIndexed E F x user_d user_query_data (qfield ''Email'' ''string'' 3 True) (as_gen q) h
    = map_option (as_rows user_struct) (user_execIndexed E q h)"
proof (cases "q_args q")
  case (Cons a as)
  have n: "qf_FieldNum (qfield ''Email'' ''string'' 3 True) = 3" by (simp add: qfield_def)
  show ?thesis
    by (cases a) (simp_all add: gen_execIndexed_def user_execIndexed_def Cons gen_index_values user_query_fields n
        user_loops Let_def del: arg_pair.simps split: option.split)
qed (simp add: gen_execIndexed_def user_execIndexed_def)

lemma user_gen_Exec:
  "gen_Exec E F x user_d user_query_data (as_gen q) h = map_option (as_rows user_struct) (user_Exec E q h)"
proof -
  have n: "qf_GoName (qfield ''Email'' ''string'' 3 True) = ''Email''" by (simp add: qfield_def)
  show ?thesis
    by (simp only: gen_Exec_def user_Exec_def user_query_fields prod.case option.case as_gen_simps n)
       (simp add: user_gen_scan user_gen_indexed split: list.split)
qed

lemma session_gen_scan:
  "gen_execFullScan E F session_store_data session_d session_query_data (as_gen q) h
    = map_option (as_rows session_struct) (session_execFullScan E q h)"
  by (simp add: gen_execFullScan_def session_execFullScan_def user_query_fields session_loops Let_def split: option.split)

lemma session_gen_indexed:
  "gen_execIndexed E F session_store_data session_d session_query_data (qfield ''UserId'' ''string'' 3 True) (as_gen q) h
    = map_option (as_rows session_struct) (session_execIndexed E q h)"
proof (cases "q_args q")
  case (Cons a as)
  have n: "qf_FieldNum (qfield ''UserId'' ''string'' 3 True) = 3" by (simp add: qfield_def)
  show ?thesis
    by (cases a) (simp_all add: gen_execIndexed_def session_execIndexed_def Cons gen_index_values user_query_fields n
        session_loops Let_def del: arg_pair.simps split: option.split)
qed (simp add: gen_execIndexed_def session_execIndexed_def)

lemma session_gen_Exec:
  "gen_Exec E F session_store_data session_d session_query_data (as_gen q) h
    = map_option (as_rows session_struct) (session_Exec E q h)"
proof -
  have n: "qf_GoName (qfield ''UserId'' ''string'' 3 True) = ''UserId''" by (simp add: qfield_def)
  show ?thesis
    by (simp only: gen_Exec_def session_Exec_def user_query_fields prod.case option.case as_gen_simps n)
       (simp add: session_gen_scan session_gen_indexed split: list.split)
qed

section \<open>Properties\<close>

lemma as_gen_builder:
  "gen_NewQuery = as_gen NewUserQuery"
  "gen_Where (qfield ''Name'' ''string'' 2 i) op (GBytes b) (as_gen q) = as_gen (WhereName op b q)"
  "gen_Where (qfield ''Email'' ''string'' 3 i) op (GBytes b) (as_gen q) = as_gen (WhereEmail op b q)"
  "gen_Where (qfield ''CreatedAt'' ''int64'' 4 i) op (G64 w) (as_gen q) = as_gen (WhereCreatedAt op w q)"
  "gen_Where (qfield ''Active'' ''bool'' 5 i) op (GBool c) (as_gen q) = as_gen (WhereActive op c q)"
  "gen_Where (qfield ''Bio'' ''string'' 6 i) op (GBytes b) (as_gen q) = as_gen (WhereBio op b q)"
  "gen_Limit n (as_gen q) = as_gen (query_Limit n q)"
  "gen_After F user_store_data (G64 w) (as_gen q) = as_gen (user_After w q)"
  by (simp_all add: as_gen_def gen_NewQuery_def NewUserQuery_def gen_Where_def qfield_def WhereName_def WhereEmail_def
      WhereCreatedAt_def WhereActive_def WhereBio_def add_cond_def gen_Limit_def query_Limit_def gen_After_def
      user_After_def user_pk)

lemma as_gen_session_builder:
  "gen_Where (qfield ''Token'' ''string'' 2 i) op (GBytes b) (as_gen q) = as_gen (WhereToken op b q)"
  "gen_Where (qfield ''UserId'' ''string'' 3 i) op (GBytes b) (as_gen q) = as_gen (WhereUserId op b q)"
  "gen_Where (qfield ''Active'' ''bool'' 4 i) op (GBool c) (as_gen q) = as_gen (session_WhereActive op c q)"
  "gen_After F session_store_data (G64 w) (as_gen q) = as_gen (session_After w q)"
  by (simp_all add: as_gen_def gen_Where_def qfield_def WhereToken_def WhereUserId_def session_WhereActive_def add_cond_def
      gen_After_def session_After_def session_pk)

lemma user_gen_First:
  "gen_First E F x user_d user_query_data (as_gen q) h
    = map_option (\<lambda>(q', h', r). (as_gen q', h', map_option user_struct r)) (user_First E q h)"
proof -
  have lim: "(as_gen q)\<lparr>gq_limit := 1\<rparr> = as_gen (q\<lparr>q_limit := 1\<rparr>)" by (simp add: as_gen_def)
  show ?thesis
    unfolding gen_First_def user_First_def Let_def lim by (simp only: user_gen_Exec option.map_comp)
      (rule option.map_cong [OF refl]; simp add: as_rows_def case_prod_unfold split: list.split)
qed

lemma session_gen_First:
  "gen_First E F session_store_data session_d session_query_data (as_gen q) h
    = map_option (\<lambda>(q', h', r). (as_gen q', h', map_option session_struct r)) (session_First E q h)"
proof -
  have lim: "(as_gen q)\<lparr>gq_limit := 1\<rparr> = as_gen (q\<lparr>q_limit := 1\<rparr>)" by (simp add: as_gen_def)
  show ?thesis
    unfolding gen_First_def session_First_def Let_def lim by (simp only: session_gen_Exec option.map_comp)
      (rule option.map_cong [OF refl]; simp add: as_rows_def case_prod_unfold split: list.split)
qed

lemma gen_Counts:
  "gen_Count E F x user_d user_query_data (as_gen q) h = user_Count E q h"
  "gen_Count E F session_store_data session_d session_query_data (as_gen q) h = session_Count E q h"
  by (simp_all add: gen_Count_def user_Count_def session_Count_def user_gen_Exec session_gen_Exec option.map_comp comp_def
      case_prod_unfold as_rows_def)

lemma query_fields_at:
  "qd_QueryFields user_query_data ! 0 = qfield ''Name'' ''string'' 2 False"
  "qd_QueryFields user_query_data ! 1 = qfield ''Email'' ''string'' 3 True"
  "qd_QueryFields user_query_data ! 2 = qfield ''CreatedAt'' ''int64'' 4 True"
  "qd_QueryFields user_query_data ! 3 = qfield ''Active'' ''bool'' 5 False"
  "qd_QueryFields user_query_data ! 4 = qfield ''Bio'' ''string'' 6 False"
  "qd_QueryFields session_query_data ! 0 = qfield ''Token'' ''string'' 2 False"
  "qd_QueryFields session_query_data ! 1 = qfield ''UserId'' ''string'' 3 True"
  "qd_QueryFields session_query_data ! 2 = qfield ''Active'' ''bool'' 4 False"
  by (simp_all add: user_query_data_def session_query_data_def)

text \<open>
  C20. The queries of the generated file are what the generator produces: for the tables \<open>BuildIR\<close> computes from
  \<open>testmodels.proto\<close>, the emitted builder calls build the queries of the file, and the emitted \<open>Exec\<close>, \<open>First\<close> and
  \<open>Count\<close> return what those of the file return and leave the same state, for every query and in every state, also
  where they panic or do not end.
\<close>

theorem generator_reproduces_queries:
  "\<exists>u s xu xs Qu Qs. BuildIR [testmodels_proto] = Inr [u, s] \<and> buildStoreData u = Some xu \<and> buildStoreData s = Some xs
    \<and> buildQueryData u = Some Qu \<and> buildQueryData s = Some Qs
    \<and> gen_NewQuery = as_gen NewUserQuery \<and> gen_Limit n (as_gen q) = as_gen (query_Limit n q)
    \<and> gen_After F xu (G64 w) (as_gen q) = as_gen (user_After w q)
    \<and> gen_Where (qd_QueryFields Qu ! 0) op (GBytes b) (as_gen q) = as_gen (WhereName op b q)
    \<and> gen_Where (qd_QueryFields Qu ! 1) op (GBytes b) (as_gen q) = as_gen (WhereEmail op b q)
    \<and> gen_Where (qd_QueryFields Qu ! 2) op (G64 w) (as_gen q) = as_gen (WhereCreatedAt op w q)
    \<and> gen_Where (qd_QueryFields Qu ! 3) op (GBool c) (as_gen q) = as_gen (WhereActive op c q)
    \<and> gen_Where (qd_QueryFields Qu ! 4) op (GBytes b) (as_gen q) = as_gen (WhereBio op b q)
    \<and> gen_Exec E F xu (buildSerializerData u) Qu (as_gen q) h = map_option (as_rows user_struct) (user_Exec E q h)
    \<and> gen_First E F xu (buildSerializerData u) Qu (as_gen q) h
        = map_option (\<lambda>(q', h', r). (as_gen q', h', map_option user_struct r)) (user_First E q h)
    \<and> gen_Count E F xu (buildSerializerData u) Qu (as_gen q) h = user_Count E q h
    \<and> gen_After F xs (G64 w) (as_gen q) = as_gen (session_After w q)
    \<and> gen_Where (qd_QueryFields Qs ! 0) op (GBytes b) (as_gen q) = as_gen (WhereToken op b q)
    \<and> gen_Where (qd_QueryFields Qs ! 1) op (GBytes b) (as_gen q) = as_gen (WhereUserId op b q)
    \<and> gen_Where (qd_QueryFields Qs ! 2) op (GBool c) (as_gen q) = as_gen (session_WhereActive op c q)
    \<and> gen_Exec E F xs (buildSerializerData s) Qs (as_gen q) h = map_option (as_rows session_struct) (session_Exec E q h)
    \<and> gen_First E F xs (buildSerializerData s) Qs (as_gen q) h
        = map_option (\<lambda>(q', h', r). (as_gen q', h', map_option session_struct r)) (session_First E q h)
    \<and> gen_Count E F xs (buildSerializerData s) Qs (as_gen q) h = session_Count E q h"
  by (rule exI [of _ user_table], rule exI [of _ session_table], rule exI [of _ user_store_data],
      rule exI [of _ session_store_data], rule exI [of _ user_query_data], rule exI [of _ session_query_data])
     (simp only: BuildIR_testmodels user_store_data session_store_data user_query_data session_query_data query_fields_at
        as_gen_builder as_gen_session_builder user_gen_Exec session_gen_Exec user_gen_First session_gen_First gen_Counts
        simp_thms)

end
