(* ===== verification/GenQueries.thy ===== *)
theory GenQueries
  imports GenTables QueryGen Admin
begin

text \<open>
  What the emitted queries of an accepted table without a TTL field return: the rows of the table that satisfy the
  conditions, in key order, after the cursor and up to the limit, whichever of the two scans runs.  The index scan
  agrees with the full scan when the index values of the indexed type determine the field (\<open>exact_types\<close>); for a
  byte-slice field the emitted text of the argument is not the value the index holds, and the last section proves
  what is lost.
\<close>


section \<open>Types of values\<close>

definition has_type :: "string \<Rightarrow> go_value \<Rightarrow> bool" where
  "has_type ty v \<longleftrightarrow>
     (case v of GBool _ \<Rightarrow> ty = ''bool'' | G32 _ \<Rightarrow> ty \<in> go32 | G64 _ \<Rightarrow> ty \<in> go64
      | GBytes _ \<Rightarrow> ty \<in> {''string'', ''[]byte''})"

definition typed_struct :: "serFieldInfo list \<Rightarrow> go_struct \<Rightarrow> bool" where
  "typed_struct fs m \<longleftrightarrow> (\<forall>f \<in> set fs. \<exists>v. m (sf_GoName f) = Some v \<and> has_type (sf_GoType f) v)"

lemma typed_upd:
  assumes "typed_struct fs m" and "distinct (map sf_GoName fs)" and "f \<in> set fs" and "has_type (sf_GoType f) v"
  shows "typed_struct fs (m(sf_GoName f \<mapsto> v))"
proof -
  have "g = f" if "g \<in> set fs" "sf_GoName g = sf_GoName f" for g
    using assms(2,3) that by (auto simp: distinct_map dest: inj_onD)
  with assms(1,4) show ?thesis by (auto simp: typed_struct_def)
qed

lemma r_then_Inr:
  "r_then f g data off = Some (Inr (y, k)) \<longleftrightarrow> (\<exists>x j. f data off = Some (Inr (x, j)) \<and> g x data j = Some (Inr (y, k)))"
  by (auto simp: r_then_def split: option.splits sum.splits)

lemma des_field_typed:
  assumes t: "typed_struct fs m" and "distinct (map sf_GoName fs)" and "f \<in> set fs" and ok: "field_ok f"
    and run: "des_field E message f m data off = Some (Inr (m', k))"
  shows "typed_struct fs m'"
proof -
  have get: "has_type ''bool'' v" if "get_bool d j = Some v" for d j v
    using that by (auto simp: get_bool_def has_type_def)
  have get32: "has_type (sf_GoType f) v" if "get_32 d j = Some v" "sf_GoType f \<in> go32" for d j v
    using that by (auto simp: get_32_def has_type_def)
  have get64: "has_type (sf_GoType f) v" if "get_64 d j = Some v" "sf_GoType f \<in> go64" for d j v
    using that by (auto simp: get_64_def has_type_def)
  have "\<exists>v. has_type (sf_GoType f) v \<and> m' = m(sf_GoName f \<mapsto> v)"
  proof (cases "sf_IsVarLen f")
    case True
    with ok have "has_type (sf_GoType f) (GBytes b)" for b by (auto simp: field_ok_def has_type_def)
    with run True show ?thesis by (auto simp: des_field_def r_then_Inr r_return_def Let_def)
  next
    case False
    consider "sf_GoType f = ''bool''" | "sf_GoType f \<in> go32" | "sf_GoType f \<in> go64"
      using ok False by (auto simp: field_ok_def)
    then show ?thesis
    proof cases
      case 1
      with run False get show ?thesis
        by (auto simp: des_field_def r_then_Inr r_return_def r_fixed_def Let_def split: if_splits)
    next
      case 2
      then have "sf_GoType f \<noteq> ''bool''" by auto
      with 2 run False get32 show ?thesis
        by (auto simp: des_field_def r_then_Inr r_return_def r_fixed_def Let_def split: if_splits)
    next
      case 3
      then have "sf_GoType f \<noteq> ''bool''" "sf_GoType f \<notin> go32" by auto
      with 3 run False get64 show ?thesis
        by (auto simp: des_field_def r_then_Inr r_return_def r_fixed_def Let_def split: if_splits)
    qed
  qed
  with typed_upd [OF t assms(2,3)] show ?thesis by blast
qed

lemma des_fields_typed:
  assumes "distinct (map sf_GoName fs)" and "\<forall>f \<in> set fs. field_ok f"
  shows "set gs \<subseteq> set fs \<Longrightarrow> typed_struct fs m \<Longrightarrow> des_fields E message gs m data off = Some (Inr (m', k))
    \<Longrightarrow> typed_struct fs m'"
proof (induction gs arbitrary: m off)
  case Nil
  then show ?case by (simp add: r_return_def)
next
  case (Cons g gs)
  then obtain m1 j where m1: "des_field E message g m data off = Some (Inr (m1, j))"
    "des_fields E message gs m1 data j = Some (Inr (m', k))" by (auto simp: r_then_Inr)
  have "typed_struct fs m1"
    using des_field_typed [OF Cons.prems(2) assms(1) _ _ m1(1)] Cons.prems(1) assms(2) by auto
  with Cons.IH [OF _ _ m1(2)] Cons.prems(1) show ?case by simp
qed

lemma zero_typed:
  assumes "distinct (map sf_GoName fs)" and "\<forall>f \<in> set fs. field_ok f"
  shows "typed_struct fs (zero_struct fs)"
proof -
  have "zero_struct fs (sf_GoName f) = Some (zero_value f)" if "f \<in> set fs" for f
    unfolding zero_struct_def by (rule map_of_is_SomeI) (use assms(1) that in \<open>simp_all add: comp_def\<close>)
  moreover have "has_type (sf_GoType f) (zero_value f)" if "field_ok f" for f
    using that by (auto simp: zero_value_def has_type_def field_ok_def split: if_splits)
  ultimately show ?thesis using assms(2) by (auto simp: typed_struct_def)
qed

lemma gen_dec_typed:
  assumes "distinct (map sf_GoName (sd_Fields d))" and "\<forall>f \<in> set (sd_Fields d). field_ok f"
    and "\<not> sd_HasTTL d" and "gen_dec E d v = Some r"
  shows "typed_struct (sd_Fields d) r"
proof -
  obtain z where z: "des_fields E (sd_MessageName d) (sd_Fields d) (zero_struct (sd_Fields d)) v 0 = Some z"
    "map_sum id fst z = Inr r"
    using assms(3,4) by (auto simp: gen_dec_def gen_Deserialize_def split: option.splits sum.splits if_splits)
  then obtain k where "des_fields E (sd_MessageName d) (sd_Fields d) (zero_struct (sd_Fields d)) v 0 = Some (Inr (r, k))"
    by (cases z) auto
  from des_fields_typed [OF assms(1,2) subset_refl zero_typed [OF assms(1,2)] this] show ?thesis .
qed

section \<open>Index values\<close>

text \<open>Decimal texts determine their number, so equal index values mean equal fields.\<close>

fun nat_of_text :: "bytes \<Rightarrow> nat" where
  "nat_of_text bs = foldl (\<lambda>n b. 10 * n + (unat b - 48)) 0 bs"

lemma nat_of_show: "nat_of_text (show_nat n) = n"
proof (induction n rule: show_nat.induct)
  case (1 n)
  have digit: "unat (word_of_nat (48 + k) :: byte) = 48 + k" if "k < 10" for k
    using that unat_byte_of_nat [of "48 + k"] by simp
  show ?case
  proof (cases "n < 10")
    case True
    then show ?thesis by (simp add: show_nat.simps [of n] digit del: of_nat_add)
  next
    case False
    have "n mod 10 < 10" by simp
    with False 1 show ?thesis
      by (simp add: show_nat.simps [of n] digit del: of_nat_add)
  qed
qed

lemma show_nat_eq: "show_nat m = show_nat n \<longleftrightarrow> m = n"
  using nat_of_show by metis

text \<open>The types whose index values agree exactly when the values do.\<close>

definition exact_types :: "string set" where
  "exact_types = {''string'', ''int32'', ''int64'', ''uint32'', ''uint64'', ''bool''}"

lemma has_types:
  "has_type ''string'' v \<longleftrightarrow> (\<exists>b. v = GBytes b)" "has_type ''bool'' v \<longleftrightarrow> (\<exists>b. v = GBool b)"
  "has_type ''int32'' v \<longleftrightarrow> (\<exists>w. v = G32 w)" "has_type ''uint32'' v \<longleftrightarrow> (\<exists>w. v = G32 w)"
  "has_type ''int64'' v \<longleftrightarrow> (\<exists>w. v = G64 w)" "has_type ''uint64'' v \<longleftrightarrow> (\<exists>w. v = G64 w)"
  by (cases v; simp add: has_type_def)+

lemma index_value_exact:
  assumes "ty \<in> exact_types" and "has_type ty a" and "has_type ty e" and "xf_GoType g = ty"
  shows "encodeIndexValue F g a = encodeIndexValue F g e \<longleftrightarrow> gen_op ty ''='' a e"
proof -
  have put64: "put_le64 v = put_le64 w \<longleftrightarrow> v = w" for v w
    using le64_put [of v "[]"] le64_put [of w "[]"] by (metis append_Nil2 option.inject)
  have put32: "put_le32 v = put_le32 w \<longleftrightarrow> v = w" for v w
    using le32_put [of v "[]"] le32_put [of w "[]"] by (metis append_Nil2 option.inject)
  have sint64: "sint v = sint w \<longleftrightarrow> v = w" for v w :: "64 word" by (auto intro: signed_word_eqI)
  have sint32: "sint v = sint w \<longleftrightarrow> v = w" for v w :: "32 word" by (auto intro: signed_word_eqI)
  have unat32: "unat v = unat w \<longleftrightarrow> uint v = uint w" for v w :: "32 word" by (simp flip: word_unat_eq_iff word_uint_eq_iff)
  have unat64: "unat v = unat w \<longleftrightarrow> uint v = uint w" for v w :: "64 word" by (simp flip: word_unat_eq_iff word_uint_eq_iff)
  have "ty = ''string'' \<or> ty = ''bool'' \<or> ty = ''int32'' \<or> ty = ''uint32'' \<or> ty = ''int64'' \<or> ty = ''uint64''"
    using assms(1) unfolding exact_types_def by (simp only: insert_iff empty_iff simp_thms disj_ac)
  then show ?thesis
  proof (elim disjE)
    assume "ty = ''string''"
    with assms show ?thesis by (auto simp: has_types encodeIndexValue_def gen_op_def)
  next
    assume "ty = ''bool''"
    moreover have "str_bytes ''true'' \<noteq> str_bytes ''false''" by (simp add: str_bytes_def)
    ultimately show ?thesis using assms by (auto simp: has_types encodeIndexValue_def gen_op_def split: if_splits)
  next
    assume "ty = ''int32''"
    with assms show ?thesis by (auto simp: has_types encodeIndexValue_def gen_op_def number_op_def int_key_def put32 sint32)
  next
    assume "ty = ''uint32''"
    with assms show ?thesis
      by (auto simp: has_types encodeIndexValue_def gen_op_def number_op_def int_key_def show_nat_eq unat32)
  next
    assume "ty = ''int64''"
    with assms show ?thesis by (auto simp: has_types encodeIndexValue_def gen_op_def number_op_def int_key_def put64 sint64)
  next
    assume "ty = ''uint64''"
    with assms show ?thesis
      by (auto simp: has_types encodeIndexValue_def gen_op_def number_op_def int_key_def show_nat_eq unat64)
  qed
qed

section \<open>What emitted conditions mean\<close>

type_synonym gen_filter = "queryField \<times> string \<times> go_value"

definition gen_query :: "float_texts \<Rightarrow> storeData \<Rightarrow> gen_filter list \<Rightarrow> int \<Rightarrow> go_value option \<Rightarrow> genQuery" where
  "gen_query F x ws n c =
     (let q = gen_Limit n (fold (\<lambda>(f, op, v). gen_Where f op v) ws gen_NewQuery)
      in case c of None \<Rightarrow> q | Some pk \<Rightarrow> gen_After F x pk q)"

definition gen_holds :: "gen_filter \<Rightarrow> go_struct \<Rightarrow> bool" where
  "gen_holds w r = (case w of (f, op, v) \<Rightarrow> gen_op (qf_GoType f) op (the (r (qf_GoName f))) v)"

definition gen_sat :: "gen_filter list \<Rightarrow> go_struct \<Rightarrow> bool" where
  "gen_sat ws r = list_all (\<lambda>w. gen_holds w r) ws"

text \<open>
  Filters on fields of the table, with operators without spaces, no two of them with one field and one operator.
\<close>

definition plain_filters :: "queryData \<Rightarrow> gen_filter list \<Rightarrow> bool" where
  "plain_filters Q ws \<longleftrightarrow>
     (\<forall>(f, op, v) \<in> set ws. f \<in> set (qd_QueryFields Q) \<and> has_type (qf_GoType f) v \<and> CHR '' '' \<notin> set op)
   \<and> (\<forall>(f, op, v) \<in> set ws. \<forall>(g, op', w) \<in> set ws. f = g \<and> op = op' \<longrightarrow> v = w)"

text \<open>The Go names of the fields are identifiers, one per field.\<close>

definition names_ok :: "queryData \<Rightarrow> bool" where
  "names_ok Q \<longleftrightarrow> distinct (map qf_GoName (qd_QueryFields Q))
     \<and> (\<forall>f \<in> set (qd_QueryFields Q). CHR '' '' \<notin> set (qf_GoName f))"

definition qc :: "gen_filter \<Rightarrow> qcond" where
  "qc w = (case w of (f, op, v) \<Rightarrow> (qf_GoName f, op, QBool False))"

lemma gen_where_fold:
  "gq_where (fold (\<lambda>(f, op, v). gen_Where f op v) ws q) = gq_where q @ map (cond_text \<circ> qc) ws
   \<and> gq_args (fold (\<lambda>(f, op, v). gen_Where f op v) ws q) = gq_args q @ map (\<lambda>(f, op, v). (qf_GoType f, v)) ws"
  by (induction ws arbitrary: q) (auto simp: gen_Where_def cond_text_def qc_def)

lemma gen_Where_afterSet: "gq_afterSet (gen_Where f op v q) = gq_afterSet q"
  by (simp add: gen_Where_def)

lemma gen_query_simps [simp]:
  "gq_where (gen_query F x ws n c) = map (cond_text \<circ> qc) ws"
  "gq_args (gen_query F x ws n c) = map (\<lambda>(f, op, v). (qf_GoType f, v)) ws"
  "gq_limit (gen_query F x ws n c) = n"
  "gq_afterSet (gen_query F x ws n None) = False" "gq_afterSet (gen_query F x ws n (Some pk)) = True"
  "gq_lastPK (gen_query F x ws n (Some pk)) = encodePrimaryKey F x pk"
proof -
  have unset: "gq_afterSet (fold (\<lambda>(f, op, v). gen_Where f op v) ws q) = gq_afterSet q" for q
    by (induction ws arbitrary: q) (simp_all add: gen_Where_afterSet case_prod_unfold)
  show "gq_where (gen_query F x ws n c) = map (cond_text \<circ> qc) ws"
    "gq_args (gen_query F x ws n c) = map (\<lambda>(f, op, v). (qf_GoType f, v)) ws"
    "gq_limit (gen_query F x ws n c) = n"
    "gq_afterSet (gen_query F x ws n None) = False" "gq_afterSet (gen_query F x ws n (Some pk)) = True"
    "gq_lastPK (gen_query F x ws n (Some pk)) = encodePrimaryKey F x pk"
    using gen_where_fold [of ws gen_NewQuery] unset [of gen_NewQuery]
    by (simp_all add: gen_query_def gen_Limit_def gen_After_def gen_NewQuery_def Let_def split: option.split)
qed

lemma gen_cond_holds:
  assumes n: "names_ok Q" and p: "plain_filters Q ws" and w: "w \<in> set ws"
    and q: "gq_where q = map (cond_text \<circ> qc) ws" "gq_args q = map (\<lambda>(f, op, v). (qf_GoType f, v)) ws"
  shows "gen_cond Q q r (cond_text (qc w)) = Some (gen_holds w r)"
proof -
  obtain f op v where fov: "w = (f, op, v)" by (cases w)
  have f: "f \<in> set (qd_QueryFields Q)" "CHR '' '' \<notin> set op" "CHR '' '' \<notin> set (qf_GoName f)"
    using n p w fov by (auto simp: names_ok_def plain_filters_def)
  have inj: "g = f" if "g \<in> set (qd_QueryFields Q)" "qf_GoName g = qf_GoName f" for g
    using n f(1) that by (auto simp: names_ok_def distinct_map dest: inj_onD)
  let ?cs = "map qc ws"
  have unspaced: "\<forall>c \<in> set ?cs. CHR '' '' \<notin> set (fst c)"
    using n p by (auto simp: names_ok_def plain_filters_def qc_def)
  let ?u = "\<lparr>q_where = map cond_text ?cs, q_args = map (snd \<circ> snd) ?cs, q_limit = 0, q_lastPK = [], q_afterSet = False\<rparr>"
  have "query_of ?u ?cs" using unspaced by (simp add: query_of_def)
  moreover have "qc w \<in> set ?cs" using w by simp
  ultimately have "target_arg (qf_GoName f) op ?u \<noteq> None"
    using target_arg_text [of ?u ?cs "qc w"] f(2) by (simp add: fov qc_def)
  then obtain i where i: "find_cond (qf_GoName f) op (gq_where q) = Some i"
    by (auto simp: target_arg_def q(1) split: option.splits)
  from find_cond_text [OF unspaced f(3,2), of "QBool False"] i
  have at: "i < length ws" "find (same_cond (qf_GoName f, op, QBool False)) ?cs = Some (qc (ws ! i))"
    by (auto simp: q(1))
  obtain g op' e where wi: "ws ! i = (g, op', e)" by (cases "ws ! i")
  have "same_cond (qf_GoName f, op, QBool False) (qc (ws ! i))" using at(2) by (auto simp: find_Some_iff)
  then have "qf_GoName g = qf_GoName f" "op' = op" by (simp_all add: wi qc_def same_cond_def)
  moreover have "(g, op', e) \<in> set ws" using at(1) wi nth_mem by metis
  ultimately have gf: "g = f" "op' = op" "e = v"
    using inj [of g] p w fov by (auto simp: plain_filters_def) fastforce
  have "gq_args q ! i = (qf_GoType f, v)" "i < length (gq_args q)" using at(1) by (simp_all add: q(2) wi gf)
  with i have cmp: "gen_compare f q a op = Some (gen_op (qf_GoType f) op a v)" for a by (simp add: gen_compare_def)
  have "find (\<lambda>g. qf_GoName g = qf_GoName f) (qd_QueryFields Q) = Some f"
  proof (cases "find (\<lambda>g. qf_GoName g = qf_GoName f) (qd_QueryFields Q)")
    case None
    with f(1) show ?thesis by (auto simp: find_None_iff)
  next
    case (Some g)
    then have "g \<in> set (qd_QueryFields Q)" "qf_GoName g = qf_GoName f" by (auto simp: find_Some_iff)
    with Some inj show ?thesis by simp
  qed
  moreover have "splitWhere (cond_text (qc w)) = [qf_GoName f, op]"
    using splitWhere_pair [OF f(2), of "qf_GoName f"] by (simp add: cond_text_def fov qc_def)
  ultimately show ?thesis by (simp add: gen_cond_def cmp gen_holds_def fov)
qed

lemma gen_matches_sat:
  assumes n: "names_ok Q" and p: "plain_filters Q ws"
    and q: "gq_where q = map (cond_text \<circ> qc) ws" "gq_args q = map (\<lambda>(f, op, v). (qf_GoType f, v)) ws"
  shows "gen_matchWhere Q q r = Some (gen_sat ws r)" "gen_matchWhereTail Q q r = Some (gen_sat (drop 1 ws) r)"
proof -
  note E = gen_cond_holds [OF n p _ q, of _ r]
  show "gen_matchWhere Q q r = Some (gen_sat ws r)"
    unfolding gen_matchWhere_def q(1) all_conds_map gen_sat_def by (intro all_conds_total) (simp add: E)
  show "gen_matchWhereTail Q q r = Some (gen_sat (drop 1 ws) r)"
    unfolding gen_matchWhereTail_def q(1) drop_map all_conds_map gen_sat_def
    by (intro all_conds_total) (simp add: E in_set_dropD)
qed

section \<open>What the emitted scans return\<close>

text \<open>\<open>gen_listing t rid P rs\<close>: \<open>rs\<close> lists the rows of \<open>t\<close> whose key satisfies \<open>P\<close>, in key order.\<close>

definition gen_listing :: "(bytes \<rightharpoonup> go_struct) \<Rightarrow> (go_struct \<Rightarrow> bytes) \<Rightarrow> (bytes \<Rightarrow> bool) \<Rightarrow> go_struct list \<Rightarrow> bool" where
  "gen_listing t rid P rs \<longleftrightarrow> sorted_wrt (\<lambda>a b. rid a < rid b) rs \<and> set rs = {r. t (rid r) = Some r \<and> P (rid r)}"

definition after_key :: "bytes option \<Rightarrow> bytes \<Rightarrow> bool" where
  "after_key c i = (case c of None \<Rightarrow> True | Some b \<Rightarrow> b < i)"

lemma sorted_key_unique:
  fixes f :: "'a \<Rightarrow> 'b :: linorder"
  assumes "sorted_wrt (\<lambda>a b. f a < f b) xs" and "sorted_wrt (\<lambda>a b. f a < f b) ys" and "set xs = set ys"
  shows "xs = ys"
proof -
  have s: "sorted_wrt (<) (map f xs)" "sorted_wrt (<) (map f ys)" using assms(1,2) by (simp_all add: sorted_wrt_map)
  then have "map f xs = map f ys" using assms(3) by (intro strict_sorted_equal) auto
  moreover have "inj_on f (set xs \<union> set ys)" using s(1) assms(3) by (metis Un_absorb distinct_map strict_sorted_iff)
  ultimately show ?thesis by (rule map_inj_on)
qed

lemma sorted_key_distinct: "sorted_wrt (\<lambda>a b. f a < (f b :: 'b :: linorder)) xs \<Longrightarrow> distinct xs"
proof -
  assume "sorted_wrt (\<lambda>a b. f a < f b) xs"
  then have "sorted_wrt (<) (map f xs)" by (simp add: sorted_wrt_map)
  then show "distinct xs" by (simp add: strict_sorted_iff distinct_map)
qed

lemma distinct_at_most_one:
  assumes "\<And>a b. a \<in> set xs \<Longrightarrow> b \<in> set xs \<Longrightarrow> a = b" and "distinct xs"
  shows "length xs \<le> 1"
proof (rule ccontr)
  assume "\<not> length xs \<le> 1"
  then have "0 < length xs" "1 < length xs" by linarith+
  then have "xs ! 0 \<in> set xs" "xs ! 1 \<in> set xs" "xs ! 0 \<noteq> xs ! 1"
    using nth_eq_iff_index_eq [OF assms(2), of 0 1] by (simp_all del: One_nat_def)
  with assms(1) show False by blast
qed

lemma sorted_wrt_short: "length xs \<le> 1 \<Longrightarrow> sorted_wrt R (map g xs)"
  by (cases xs; cases "tl xs") auto

lemma gen_table: "indexed_table (st_TableID x) (\<lambda>i. i) (gen_keys F x)"
  by unfold_locales (auto simp: gen_keys_def index_key_def Let_def)

lemma gen_collect_row: "gen_collect q m s = collect_row (NewUserQuery\<lparr>q_limit := gq_limit q\<rparr>) m s"
  by (simp add: gen_collect_def collect_row_def)

lemma gen_dec_Some: "gen_dec E d v = Some r \<longleftrightarrow> gen_Deserialize E d v = Some (Inr r)"
  by (auto simp: gen_dec_def split: option.splits sum.splits)

lemma gen_rows_rid: "gen_ok E F x d m \<Longrightarrow> gen_rows E x d m i = Some r \<Longrightarrow> gen_rid F x r = i"
  using gen.rows_rid [of x F E d m i r] by (simp add: gen_ok_def gen_rows_def)

lemma gen_scan_spec:
  assumes ok: "handle_ok E view pend h" and u: "gen_ok E F x d (db_view view h)" and it: "iter_laws E view snap pos"
    and Q: "\<not> qd_HasTTL Q" "qd_TableID Q = st_TableID x"
    and match: "\<And>r. gen_matchWhere Q q r = Some (P r)"
    and c: "gq_afterSet q = (c \<noteq> None)" "\<And>b. c = Some b \<Longrightarrow> gq_lastPK q = b"
  obtains rs where "gen_listing (gen_rows E x d (db_view view h)) (gen_rid F x) (after_key c) rs"
    "gen_execFullScan E F x d Q q h = Some (h, take_limit (gq_limit q) (filter P rs))"
proof -
  let ?m = "db_view view h" and ?tid = "st_TableID x"
  let ?p = "EncodeKey ?tid []"
  define after where "after = (\<lambda>k. case c of None \<Rightarrow> True | Some b \<Rightarrow> EncodeKey ?tid b < k)"
  let ?es = "filter (\<lambda>e. prefix ?p (fst e) \<and> after (fst e)) (sorted_entries ?m)"
  have fin: "finite (dom ?m)" using iter_finite [OF it] .
  obtain y where y: "db_Iterate E ?p h = Some y"
    using iter_laws_new [OF it, of "db_pebble h" ?p] ok by (auto simp: db_Iterate_def handle_ok_def)
  obtain rs where rs: "map (gen_dec E d \<circ> snd) ?es = map Some rs"
    "sorted_wrt (\<lambda>a b. gen_rid F x a < gen_rid F x b) rs"
    "set rs = {r. table_rows ?tid (\<lambda>i. i) (gen_dec E d) ?m (gen_rid F x r) = Some r
        \<and> after (EncodeKey ?tid (gen_rid F x r))}"
    by (rule indexed_table.scan_rows [OF gen_table fin u [unfolded gen_ok_def], of after])
  have list: "gen_listing (gen_rows E x d ?m) (gen_rid F x) (after_key c) rs"
    using rs(2,3) by (cases c) (simp_all add: gen_listing_def gen_rows_def after_def after_key_def key_simps)
  let ?g = "\<lambda>e. the (gen_dec E d (snd e))"
  have dec: "gen_dec E d (snd e) = Some (?g e)" if "e \<in> set ?es" for e
  proof -
    have "gen_dec E d (snd e) \<in> set (map (gen_dec E d \<circ> snd) ?es)"
      unfolding set_map by (rule image_eqI [OF _ that]) (simp only: comp_apply)
    then show ?thesis unfolding rs(1) by auto
  qed
  have rs_es: "map ?g ?es = rs"
  proof -
    have "map ?g ?es = map the (map (gen_dec E d \<circ> snd) ?es)" by simp
    then show ?thesis unfolding rs(1) by (simp add: comp_def)
  qed
  have "\<exists>h'. h' = h \<and> list_for (\<lambda>e. gen_row E F x d Q q (gen_matchWhere Q q) (fst e) (snd e)) ?es (h, [])
      = Some (h', take_limit (q_limit (NewUserQuery\<lparr>q_limit := gq_limit q\<rparr>)) (map ?g (filter (\<lambda>e. P (?g e)) ?es)))"
  proof (rule list_for_collect_new)
    fix e h1 rs' assume e: "e \<in> set ?es" and "h1 = h"
    then have "gen_Deserialize E d (snd e) = Some (Inr (?g e))" using dec gen_dec_Some by blast
    then show "\<exists>h'. h' = h \<and> gen_row E F x d Q q (gen_matchWhere Q q) (fst e) (snd e) (h1, rs')
        = Some (if P (?g e) then collect_row (NewUserQuery\<lparr>q_limit := gq_limit q\<rparr>) (?g e) (h', rs') else ((h', rs'), False))"
      using match Q(1) \<open>h1 = h\<close> by (simp add: gen_row_def gen_collect_row)
  qed simp
  moreover have "map ?g (filter (\<lambda>e. P (?g e)) ?es) = filter P rs"
    by (simp only: rs_es [symmetric] filter_map comp_def)
  moreover have "gen_execFullScan E F x d Q q h
      = list_for (\<lambda>e. gen_row E F x d Q q (gen_matchWhere Q q) (fst e) (snd e)) ?es (h, [])"
    using c by (cases c) (simp_all add: gen_execFullScan_def Q(2) y after_def it_for_iterate [OF it y] it_for_seek_after [OF it y])
  ultimately show ?thesis using list by (intro that) simp_all
qed

lemma gen_listing_ex:
  assumes fin: "finite (dom m)" and u: "gen_ok E F x d m"
  obtains rs where "gen_listing (gen_rows E x d m) (gen_rid F x) (after_key c) rs"
proof -
  define after where "after = (\<lambda>k. case c of None \<Rightarrow> True | Some b \<Rightarrow> EncodeKey (st_TableID x) b < k)"
  obtain rs where "sorted_wrt (\<lambda>a b. gen_rid F x a < gen_rid F x b) rs"
    "set rs = {r. table_rows (st_TableID x) (\<lambda>i. i) (gen_dec E d) m (gen_rid F x r) = Some r
        \<and> after (EncodeKey (st_TableID x) (gen_rid F x r))}"
    by (rule indexed_table.scan_rows [OF gen_table fin u [unfolded gen_ok_def], of after])
  then have "gen_listing (gen_rows E x d m) (gen_rid F x) (after_key c) rs"
    by (cases c) (simp_all add: gen_listing_def gen_rows_def after_def after_key_def key_simps)
  with that show ?thesis by blast
qed

lemma prefix_keys:
  assumes t: "buildStoreData t = Some x" and apart: "numbers_apart x" and f: "f \<in> set (st_IndexedFields x)"
  shows "prefix (EncodeIndexPrefix (st_TableID x) (xf_FieldNum f) v) k \<and> k \<in> set (gen_keys F x i r)
    \<longleftrightarrow> index_value F r f = v \<and> k = index_key F x i r f"
proof
  assume k: "prefix (EncodeIndexPrefix (st_TableID x) (xf_FieldNum f) v) k \<and> k \<in> set (gen_keys F x i r)"
  then obtain g where g: "g \<in> set (st_IndexedFields x)" "k = index_key F x i r g"
    using fields_set [OF t] by (auto simp: gen_keys_def)
  from k obtain us where "k = EncodeIndexPrefix (st_TableID x) (xf_FieldNum f) v @ us" by (auto simp: prefix_def)
  with g(2) have "(ucast (xf_FieldNum g) :: byte) = ucast (xf_FieldNum f)" "index_value F r g = v"
    by (auto simp: index_key_eq index_prefix_append_eq)
  moreover from this have "g = f" using apart f g(1) by (auto simp: numbers_apart_def distinct_map dest: inj_onD)
  ultimately show "index_value F r f = v \<and> k = index_key F x i r f" using g(2) by simp
next
  assume k: "index_value F r f = v \<and> k = index_key F x i r f"
  then have "k \<in> set (gen_keys F x i r)" using fields_set [OF t] f unfolding gen_keys_def by auto
  with k show "prefix (EncodeIndexPrefix (st_TableID x) (xf_FieldNum f) v) k \<and> k \<in> set (gen_keys F x i r)"
    by (simp add: index_key_eq)
qed

text \<open>The entries of an index for one value, without and with a cursor, are those of the rows with the value.\<close>

lemma index_entries:
  assumes t: "buildStoreData t = Some x" and apart: "numbers_apart x" and f: "f \<in> set (st_IndexedFields x)"
    and fin: "finite (dom m)" and u: "gen_ok E F x d m"
    and c: "xf_IsUnique f \<longrightarrow> c = None"
    and rs: "gen_listing (gen_rows E x d m) (gen_rid F x) (after_key c) rs"
  shows "filter (\<lambda>e. prefix (EncodeIndexPrefix (st_TableID x) (xf_FieldNum f) v) (fst e)
        \<and> (case c of None \<Rightarrow> True | Some b \<Rightarrow> EncodeIndexKey (st_TableID x) (xf_FieldNum f) v b < fst e)) (sorted_entries m)
    = map (\<lambda>r. (index_key F x (gen_rid F x r) r f, gen_rid F x r)) (filter (\<lambda>r. index_value F r f = v) rs)"
    (is "?es = map ?entry ?rf")
proof (rule sorted_key_unique)
  let ?pre = "EncodeIndexPrefix (st_TableID x) (xf_FieldNum f) v"
  have "sorted_wrt (<) (map fst (sorted_entries m))" using sorted_entries_keys [OF fin] by simp
  then show "sorted_wrt (\<lambda>a b. fst a < fst b) ?es" by (simp add: sorted_wrt_map sorted_wrt_filter)
  have sorted: "sorted_wrt (\<lambda>a b. gen_rid F x a < gen_rid F x b) ?rf"
    using rs by (simp add: gen_listing_def sorted_wrt_filter)
  have rows: "gen_rows E x d m (gen_rid F x r) = Some r \<and> after_key c (gen_rid F x r) \<and> index_value F r f = v"
    if "r \<in> set ?rf" for r using that rs by (simp add: gen_listing_def)
  have key: "index_key F x i r f = ?pre @ (if xf_IsUnique f then [] else i)" if "index_value F r f = v" for i r
    using that by (simp add: index_key_eq)
  show "sorted_wrt (\<lambda>a b. fst a < fst b) (map ?entry ?rf)"
  proof (cases "xf_IsUnique f")
    case False
    have "index_key F x (gen_rid F x a) a f < index_key F x (gen_rid F x b) b f"
      if "a \<in> set ?rf" "b \<in> set ?rf" "gen_rid F x a < gen_rid F x b" for a b
      using that rows [OF that(1)] rows [OF that(2)] False by (simp add: key)
    then show ?thesis
      unfolding sorted_wrt_map fst_conv by (intro sorted_wrt_mono_rel [OF _ sorted])
  next
    case True
    have "a = b" if ab: "a \<in> set ?rf" "b \<in> set ?rf" for a b
    proof -
      have entry: "m (index_key F x j r f) = Some (gen_rid F x r)" if "r \<in> set ?rf" for r j
        using gen_entry [OF t apart f u, of j r "gen_rid F x r"] rows [OF that] True unfolding gen_holder_def by blast
      have k: "index_key F x [] a f = index_key F x [] b f" using rows [OF ab(1)] rows [OF ab(2)] key by simp
      have "gen_rid F x a = gen_rid F x b"
        using entry [OF ab(1), of "[]"] entry [OF ab(2), of "[]"] unfolding k by simp
      then have "Some a = Some b" using rows [OF ab(1)] rows [OF ab(2)] by metis
      then show ?thesis by simp
    qed
    then have "length ?rf \<le> 1" by (rule distinct_at_most_one [OF _ sorted_key_distinct [OF sorted]])
    then show ?thesis by (simp only: length_map sorted_wrt_short)
  qed
  have after: "(case c of None \<Rightarrow> True | Some b \<Rightarrow> EncodeIndexKey (st_TableID x) (xf_FieldNum f) v b < index_key F x i r f)
      \<longleftrightarrow> after_key c i" if "index_value F r f = v" for i r
    using c that by (cases c) (auto simp: after_key_def key index_key_prefix)
  have ent: "m k = Some w \<longleftrightarrow> (\<exists>r. gen_rows E x d m w = Some r \<and> k \<in> set (gen_keys F x w r))" if "prefix ?pre k" for k w
    using gen.ok_index [OF u [unfolded gen_ok_def], of k w] that by (auto simp: gen_rows_def index_space_def prefix_def)
  show "set ?es = set (map ?entry ?rf)"
  proof (intro set_eqI iffI)
    fix e assume "e \<in> set ?es"
    then have e: "prefix ?pre (fst e)" "m (fst e) = Some (snd e)"
      "case c of None \<Rightarrow> True | Some b \<Rightarrow> EncodeIndexKey (st_TableID x) (xf_FieldNum f) v b < fst e"
      using sorted_entries_set [OF fin, of "fst e" "snd e"] by auto
    from ent [OF e(1)] e(2) obtain r where r: "gen_rows E x d m (snd e) = Some r" "fst e \<in> set (gen_keys F x (snd e) r)"
      by blast
    then have k: "index_value F r f = v" "fst e = index_key F x (snd e) r f"
      using prefix_keys [OF t apart f, of v "fst e"] e(1) by blast+
    have "after_key c (snd e)" using e(3) unfolding k(2) after [OF k(1)] .
    moreover have "gen_rid F x r = snd e" using gen_rows_rid [OF u r(1)] .
    moreover from calculation have "r \<in> set ?rf" using r(1) k(1) rs by (simp add: gen_listing_def)
    ultimately show "e \<in> set (map ?entry ?rf)" using k(2) by (auto intro!: image_eqI [of _ _ r] simp: prod_eq_iff)
  next
    fix e assume "e \<in> set (map ?entry ?rf)"
    then obtain r where r: "r \<in> set ?rf" "e = ?entry r" by auto
    note row = rows [OF r(1)]
    have k: "prefix ?pre (index_key F x (gen_rid F x r) r f)"
      "index_key F x (gen_rid F x r) r f \<in> set (gen_keys F x (gen_rid F x r) r)"
      using prefix_keys [OF t apart f] row by blast+
    then have "m (index_key F x (gen_rid F x r) r f) = Some (gen_rid F x r)" using ent row by blast
    moreover have "case c of None \<Rightarrow> True
      | Some b \<Rightarrow> EncodeIndexKey (st_TableID x) (xf_FieldNum f) v b < index_key F x (gen_rid F x r) r f"
      using after row by blast
    ultimately show "e \<in> set ?es"
      using k(1) sorted_entries_set [OF fin] unfolding r(2) set_filter mem_Collect_eq fst_conv by blast
  qed
qed

lemma gen_indexed_spec:
  assumes ok: "handle_ok E view pend h" and u: "gen_ok E F x d (db_view view h)" and it: "iter_laws E view snap pos"
    and Q: "\<not> qd_HasTTL Q" "qd_TableID Q = st_TableID x"
    and t: "buildStoreData t = Some x" and apart: "numbers_apart x" and f: "f \<in> set (st_IndexedFields x)"
    and g: "qf_FieldNum g = xf_FieldNum f" and arg: "gq_args q = a # as" "gen_fieldValue F g a = Some v"
    and match: "\<And>r. (if 1 < length (gq_where q) then gen_matchWhereTail Q q r else Some True) = Some (P r)"
    and c: "gq_afterSet q = (c \<noteq> None)" "\<And>b. c = Some b \<Longrightarrow> gq_lastPK q = b" "xf_IsUnique f \<longrightarrow> c = None"
    and rs: "gen_listing (gen_rows E x d (db_view view h)) (gen_rid F x) (after_key c) rs"
  obtains h' where "gen_execIndexed E F x d Q g q h
      = Some (h', take_limit (gq_limit q) (filter (\<lambda>r. index_value F r f = v \<and> P r) rs))"
    "handle_ok E view pend h'" "db_view view h' = db_view view h"
proof -
  let ?m = "db_view view h" and ?tid = "st_TableID x"
  let ?p = "EncodeIndexPrefix ?tid (xf_FieldNum f) v"
  let ?es = "filter (\<lambda>e. prefix ?p (fst e) \<and> (case c of None \<Rightarrow> True
      | Some b \<Rightarrow> EncodeIndexKey ?tid (xf_FieldNum f) v b < fst e)) (sorted_entries ?m)"
  let ?rf = "filter (\<lambda>r. index_value F r f = v) rs"
  let ?g = "\<lambda>e. the (gen_rows E x d ?m (snd e))"
  have fin: "finite (dom ?m)" using iter_finite [OF it] .
  obtain y where y: "db_Iterate E ?p h = Some y"
    using iter_laws_new [OF it, of "db_pebble h" ?p] ok by (auto simp: db_Iterate_def handle_ok_def)
  note es = index_entries [OF t apart f fin u c(3) rs, of v]
  have row: "gen_rows E x d ?m (gen_rid F x r) = Some r" if "r \<in> set rs" for r
    using that rs by (simp add: gen_listing_def)
  have ent: "\<exists>r w. snd e = gen_rid F x r \<and> ?g e = r \<and> ?m (EncodeKey ?tid (snd e)) = Some w
      \<and> gen_Deserialize E d w = Some (Inr r)" if in_es: "e \<in> set ?es" for e
  proof -
    obtain r where r: "r \<in> set ?rf" "e = (index_key F x (gen_rid F x r) r f, gen_rid F x r)"
      using in_es unfolding es by auto
    then have rr: "gen_rows E x d ?m (gen_rid F x r) = Some r" using row by simp
    then obtain w where "?m (EncodeKey ?tid (gen_rid F x r)) = Some w" "gen_Deserialize E d w = Some (Inr r)"
      by (auto simp: gen_rows_def table_rows_def gen_dec_Some bind_eq_Some_conv)
    with r(2) rr show ?thesis by simp
  qed
  have rf_es: "map ?g ?es = ?rf"
    unfolding es map_map by (rule map_idI) (simp add: row)
  have "\<exists>h'. (handle_ok E view pend h' \<and> db_view view h' = ?m)
      \<and> list_for (\<lambda>e. gen_indexed_body E F x d Q q (fst e) (snd e)) ?es (h, [])
      = Some (h', take_limit (q_limit (NewUserQuery\<lparr>q_limit := gq_limit q\<rparr>)) (map ?g (filter (\<lambda>e. P (?g e)) ?es)))"
  proof (rule list_for_collect_new)
    fix e h1 rs' assume e: "e \<in> set ?es" and h1: "handle_ok E view pend h1 \<and> db_view view h1 = ?m"
    obtain r w where r: "?g e = r" "?m (EncodeKey ?tid (snd e)) = Some w" "gen_Deserialize E d w = Some (Inr r)"
      using ent [OF e] by blast
    obtain h2 where h2: "db_Get E (EncodeKey ?tid (snd e)) h1 = (h2, Inr (Some w))" "handle_ok E view pend h2"
      "db_view view h2 = ?m"
      using handle.getE [of E view pend h1 "EncodeKey ?tid (snd e)"] h1 r(2) by auto
    have "gen_indexed_body E F x d Q q (fst e) (snd e) (h1, rs')
        = Some (if P r then collect_row (NewUserQuery\<lparr>q_limit := gq_limit q\<rparr>) r (h2, rs') else ((h2, rs'), False))"
      using match [of r] h2(1) r(3) Q by (simp add: gen_indexed_body_def gen_row_def gen_collect_row)
    with h2 r(1) show "\<exists>h'. (handle_ok E view pend h' \<and> db_view view h' = ?m)
        \<and> gen_indexed_body E F x d Q q (fst e) (snd e) (h1, rs')
          = Some (if P (?g e) then collect_row (NewUserQuery\<lparr>q_limit := gq_limit q\<rparr>) (?g e) (h', rs') else ((h', rs'), False))"
      by blast
  qed (use ok in simp)
  moreover have "map ?g (filter (\<lambda>e. P (?g e)) ?es) = filter (\<lambda>r. index_value F r f = v \<and> P r) rs"
  proof -
    have "map ?g (filter (\<lambda>e. P (?g e)) ?es) = filter P (map ?g ?es)" by (simp only: filter_map comp_def)
    then show ?thesis by (simp only: rf_es filter_filter)
  qed
  moreover have "gen_execIndexed E F x d Q g q h
      = list_for (\<lambda>e. gen_indexed_body E F x d Q q (fst e) (snd e)) ?es (h, [])"
    using c(1,2) by (cases c) (simp_all add: gen_execIndexed_def arg Q(2) g y it_for_iterate [OF it y] it_for_seek_after [OF it y])
  ultimately show ?thesis by (auto intro: that)
qed

section \<open>The data of the templates\<close>

text \<open>The Go names of the fields are distinct identifiers, as the Go compiler asks.\<close>

definition go_names_ok :: "TableIR \<Rightarrow> bool" where
  "go_names_ok t \<longleftrightarrow> distinct (map (\<lambda>f. toGoName (fi_Name f)) (t_Fields t))
     \<and> (\<forall>f \<in> set (t_Fields t). CHR '' '' \<notin> set (toGoName (fi_Name f)))"

lemma accepted_wf: "BuildIR files = Inr ts \<Longrightarrow> t \<in> set ts \<Longrightarrow> fields_wf t"
  using BuildIR_tables_wf [of files ts] by (auto simp: list_all_iff table_wf_def)

lemma query_data:
  assumes x: "buildStoreData t = Some x" and Q: "buildQueryData t = Some Q" and wf: "fields_wf t" and n: "go_names_ok t"
  shows "qd_HasTTL Q = t_HasTTL t" and "qd_TableID Q = st_TableID x" and "names_ok Q"
    and "qd_IndexedField Q = Some g \<Longrightarrow> g \<in> set (qd_QueryFields Q)
      \<and> (\<exists>f \<in> set (st_IndexedFields x). xf_FieldNum f = qf_FieldNum g \<and> xf_GoType f = qf_GoType g \<and> xf_GoName f = qf_GoName g)"
proof -
  let ?queried = "filter (\<lambda>f. \<not> (fi_IsPrimaryKey f \<or> fi_IsRepeated f)) (t_Fields t)"
  let ?nums = "indexedFieldNums t"
  have fields: "qd_QueryFields Q = map (query_field ?nums) ?queried"
    "qd_IndexedField Q = find qf_IsIndex (map (query_field ?nums) ?queried)"
    and tab: "qd_HasTTL Q = t_HasTTL t" "qd_TableID Q = st_TableID x"
    and idx: "st_IndexedFields x = map index_field (t_IndexedFields t)"
    using x Q by (auto simp: buildQueryData_def buildStoreData_def Let_def split: option.splits)
  show "qd_HasTTL Q = t_HasTTL t" "qd_TableID Q = st_TableID x" by (fact tab)+
  have name: "qf_GoName (query_field nums f) = toGoName (fi_Name f)" for nums f by (simp add: query_field_def)
  have dist: "distinct (map (\<lambda>f. toGoName (fi_Name f)) ?queried)"
    using n by (simp add: go_names_ok_def distinct_map_filter)
  then show "names_ok Q"
    using n by (auto simp: names_ok_def fields(1) comp_def name go_names_ok_def)
  assume g: "qd_IndexedField Q = Some g"
  then have "g \<in> set (map (query_field ?nums) ?queried)" and gi: "qf_IsIndex g"
    unfolding fields(2) find_Some_iff using nth_mem by blast+
  then obtain f where f: "f \<in> set ?queried" "g = query_field ?nums f" by (auto simp: image_iff)
  then obtain k where k: "?nums (fi_Name f) = Some k" using gi by (auto simp: query_field_def split: option.splits)
  have dom: "m (fi_Name f) \<noteq> None \<or> (\<exists>f' \<in> set l. fi_Name f' = fi_Name f)"
    if "fold (\<lambda>f m. m(fi_Name f \<mapsto> fi_Number f)) l m (fi_Name f) = Some k" for l and m :: "string \<rightharpoonup> 32 word"
    using that
  proof (induction l arbitrary: m)
    case (Cons a l)
    from Cons.IH [of "m(fi_Name a \<mapsto> fi_Number a)"] Cons.prems show ?case by (auto split: if_splits)
  qed simp
  then obtain f' where f': "f' \<in> set (t_IndexedFields t)" "fi_Name f' = fi_Name f"
    using k unfolding indexedFieldNums_def by fastforce
  then have "f' \<in> set ?queried" using wf by (auto simp: fields_wf_def)
  moreover have "inj_on (\<lambda>f. toGoName (fi_Name f)) (set ?queried)" using dist unfolding distinct_map by blast
  ultimately have "f' = f" using f(1) f'(2) by (elim inj_onD) simp_all
  with f' f(1,2) show "g \<in> set (qd_QueryFields Q)
      \<and> (\<exists>f \<in> set (st_IndexedFields x). xf_FieldNum f = qf_FieldNum g \<and> xf_GoType f = qf_GoType g \<and> xf_GoName f = qf_GoName g)"
    unfolding idx fields(1) by (auto simp: query_field_def index_field_def intro!: bexI [of _ f])
qed

lemma row_typed:
  assumes "BuildIR files = Inr ts" "t \<in> set ts" "\<not> t_HasTTL t" and d: "d = buildSerializerData t"
    and n: "go_names_ok t" and Q: "buildQueryData t = Some Q" and g: "g \<in> set (qd_QueryFields Q)"
    and row: "gen_rows E x d m i = Some r"
  shows "\<exists>v. r (qf_GoName g) = Some v \<and> has_type (qf_GoType g) v"
proof -
  let ?S = "set (map fi_Name (t_CompressibleFields t))"
  have fs: "sd_Fields d = map (ser_field_info ?S) (t_Fields t)" "sd_HasTTL d = t_HasTTL t"
    by (simp_all add: d buildSerializerData_def Let_def)
  have info: "sf_GoName (ser_field_info S f) = toGoName (fi_Name f)" "sf_GoType (ser_field_info S f) = fi_GoType f" for S f
    by (simp_all add: ser_field_info_def Let_def)
  have "distinct (map sf_GoName (sd_Fields d))" using n by (simp add: fs go_names_ok_def comp_def info)
  moreover obtain v where "gen_dec E d v = Some r" using row by (auto simp: gen_rows_def table_rows_def bind_eq_Some_conv)
  ultimately have typed: "typed_struct (sd_Fields d) r"
    using gen_dec_typed accepted_fields_ok(1) [OF assms(1,2)] assms(3) fs(2) d by simp
  obtain f where "f \<in> set (t_Fields t)" "qf_GoName g = toGoName (fi_Name f)" "qf_GoType g = fi_GoType f"
    using Q g by (auto simp: buildQueryData_def Let_def query_field_def split: option.splits)
  with typed show ?thesis unfolding typed_struct_def fs(1) by (auto simp: info)
qed

section \<open>Queries of accepted tables\<close>

lemma gen_fieldValue_exact:
  assumes "qf_GoType g \<in> exact_types" and "has_type (qf_GoType g) v" and "xf_GoType f = qf_GoType g"
  shows "gen_fieldValue F g (qf_GoType g, v) = Some (encodeIndexValue F f v)"
proof -
  have "qf_GoType g = ''string'' \<or> qf_GoType g = ''bool'' \<or> qf_GoType g = ''int32'' \<or> qf_GoType g = ''uint32''
      \<or> qf_GoType g = ''int64'' \<or> qf_GoType g = ''uint64''"
    using assms(1) unfolding exact_types_def by (simp only: insert_iff empty_iff simp_thms disj_ac)
  then show ?thesis
    using assms(2,3) by (elim disjE) (auto simp: has_types gen_fieldValue_def encodeIndexValue_def arg_text_def)
qed

text \<open>
  When the first filter chooses the index, its type is one whose index values are exact, and a cursor is used
  only with an index that is not unique.
\<close>

definition index_usable :: "queryData \<Rightarrow> storeData \<Rightarrow> gen_filter list \<Rightarrow> go_value option \<Rightarrow> bool" where
  "index_usable Q x ws c \<longleftrightarrow>
     (case (qd_IndexedField Q, ws) of
        (Some g, (f, op, v) # _) \<Rightarrow>
          f = g \<and> op = ''='' \<longrightarrow> qf_GoType g \<in> exact_types
            \<and> (c = None \<or> (\<forall>u \<in> set (st_IndexedFields x). xf_FieldNum u = qf_FieldNum g \<longrightarrow> \<not> xf_IsUnique u))
      | _ \<Rightarrow> True)"

lemma gen_Exec_cases:
  assumes n: "names_ok Q" and p: "plain_filters Q ws"
    and g: "\<And>g. qd_IndexedField Q = Some g \<Longrightarrow> g \<in> set (qd_QueryFields Q)"
  obtains (indexed) g v ws' where "qd_IndexedField Q = Some g" "ws = (g, ''='', v) # ws'"
      "gen_Exec E F x d Q (gen_query F x ws n c) h = gen_execIndexed E F x d Q g (gen_query F x ws n c) h"
  | (full) "gen_Exec E F x d Q (gen_query F x ws n c) h = gen_execFullScan E F x d Q (gen_query F x ws n c) h"
proof (cases "qd_IndexedField Q")
  case None
  then show ?thesis by (intro full) (simp add: gen_Exec_def)
next
  case (Some g)
  show ?thesis
  proof (cases ws)
    case Nil
    then show ?thesis by (intro full) (simp add: gen_Exec_def split: option.split)
  next
    case (Cons w ws')
    obtain f op v where w: "w = (f, op, v)" by (cases w)
    then have f: "f \<in> set (qd_QueryFields Q)" "CHR '' '' \<notin> set op" "CHR '' '' \<notin> set (qf_GoName f)"
      using n p Cons by (auto simp: names_ok_def plain_filters_def)
    have split: "splitWhere (cond_text (qc w)) = [qf_GoName f, op]"
      using splitWhere_pair [OF f(2), of "qf_GoName f"] by (simp add: cond_text_def w qc_def)
    have inj: "f = g" if "qf_GoName f = qf_GoName g"
      using n f(1) g [OF Some] that by (auto simp: names_ok_def distinct_map dest: inj_onD)
    show ?thesis
    proof (cases "f = g \<and> op = ''=''")
      case True
      with split have "splitWhere (cond_text (qc w)) = [qf_GoName g, ''='']" by simp
      with True show ?thesis
        by (intro indexed [OF Some, of v ws']) (simp_all add: gen_Exec_def Some Cons w)
    next
      case False
      with inj have "\<not> (qf_GoName f = qf_GoName g \<and> op = ''='')" by blast
      then show ?thesis by (intro full) (auto simp add: gen_Exec_def Some Cons split)
    qed
  qed
qed

text \<open>
  A query whose first filter is an equality on the indexed field returns the rows with the index value of its argument.\<close>

lemma gen_indexed_accepted:
  assumes "BuildIR files = Inr ts" and "t \<in> set ts" and "\<not> t_HasTTL t"
    and "buildStoreData t = Some x" and "buildQueryData t = Some Q"
    and "numbers_apart x" and "go_names_ok t"
    and "handle_ok E view pend h" and "gen_ok E F x d (db_view view h)" and "iter_laws E view snap pos"
    and "plain_filters Q ws" and ws: "ws = (g, ''='', v) # ws'"
    and f: "f \<in> set (st_IndexedFields x)" "xf_FieldNum f = qf_FieldNum g" "xf_IsUnique f \<longrightarrow> c = None"
    and val: "gen_fieldValue F g (qf_GoType g, v) = Some b"
    and rs: "gen_listing (gen_rows E x d (db_view view h)) (gen_rid F x) (after_key (map_option (encodePrimaryKey F x) c)) rs"
  obtains h' where "gen_execIndexed E F x d Q g (gen_query F x ws n c) h
      = Some (h', take_limit n (filter (\<lambda>r. index_value F r f = b \<and> gen_sat ws' r) rs))"
    "handle_ok E view pend h'" "db_view view h' = db_view view h"
proof -
  let ?q = "gen_query F x ws n c" and ?c = "map_option (encodePrimaryKey F x) c"
  note data = query_data [OF assms(4,5) accepted_wf [OF assms(1,2)] assms(7)]
  have Q: "\<not> qd_HasTTL Q" "qd_TableID Q = st_TableID x" using data(1,2) assms(3) by simp_all
  note sat = gen_matches_sat [OF data(3) assms(11) gen_query_simps(1,2)]
  have cur: "gq_afterSet ?q = (?c \<noteq> None)" "?c = Some b \<Longrightarrow> gq_lastPK ?q = b" "xf_IsUnique f \<longrightarrow> ?c = None" for b
    using f(3) by (cases c; simp)+
  have args: "gq_args ?q = (qf_GoType g, v) # map (\<lambda>(f, op, v). (qf_GoType f, v)) ws'" by (simp add: ws)
  have tail: "(if 1 < length (gq_where ?q) then gen_matchWhereTail Q ?q r else Some True) = Some (gen_sat ws' r)" for r
    by (simp add: sat(2)) (simp add: ws gen_sat_def)
  show ?thesis
    by (rule gen_indexed_spec [OF assms(8,9,10) Q assms(4,6) f(1) f(2) [symmetric] args val tail cur rs])
       (assumption, rule that, unfold gen_query_simps(3), assumption+)
qed

text \<open>What a query of an accepted table returns.\<close>

lemma gen_Exec_accepted:
  assumes "BuildIR files = Inr ts" and "t \<in> set ts" and "\<not> t_HasTTL t"
    and "d = buildSerializerData t" and "buildStoreData t = Some x" and "buildQueryData t = Some Q"
    and "numbers_apart x" and "go_names_ok t"
    and "handle_ok E view pend h" and "gen_ok E F x d (db_view view h)" and "iter_laws E view snap pos"
    and "plain_filters Q ws" and "index_usable Q x ws c"
  shows "\<exists>h' rs. gen_listing (gen_rows E x d (db_view view h)) (gen_rid F x) (after_key (map_option (encodePrimaryKey F x) c)) rs
    \<and> gen_Exec E F x d Q (gen_query F x ws n c) h = Some (h', take_limit n (filter (gen_sat ws) rs))
    \<and> handle_ok E view pend h' \<and> db_view view h' = db_view view h"
proof -
  let ?m = "db_view view h" and ?q = "gen_query F x ws n c" and ?c = "map_option (encodePrimaryKey F x) c"
  note data = query_data [OF assms(5,6) accepted_wf [OF assms(1,2)] assms(8)]
  have Q: "\<not> qd_HasTTL Q" "qd_TableID Q = st_TableID x" using data(1,2) assms(3) by simp_all
  note sat = gen_matches_sat [OF data(3) assms(12) gen_query_simps(1,2)]
  have cur: "gq_afterSet ?q = (?c \<noteq> None)" "?c = Some b \<Longrightarrow> gq_lastPK ?q = b" for b by (cases c; simp)+
  show ?thesis
  proof (rule gen_Exec_cases [where E = E and F = F and x = x and d = d and n = n and c = c and h = h,
      OF data(3) assms(12) data(4) [THEN conjunct1]])
    assume full: "gen_Exec E F x d Q ?q h = gen_execFullScan E F x d Q ?q h"
    from gen_scan_spec [OF assms(9,10,11) Q sat(1) cur]
    obtain rs where "gen_listing (gen_rows E x d ?m) (gen_rid F x) (after_key ?c) rs"
      "gen_execFullScan E F x d Q ?q h = Some (h, take_limit (gq_limit ?q) (filter (gen_sat ws) rs))" by blast
    with full assms(9) show ?thesis by (metis gen_query_simps(3))
  next
    fix g v ws'
    assume indexed: "qd_IndexedField Q = Some g" "ws = (g, ''='', v) # ws'"
      "gen_Exec E F x d Q ?q h = gen_execIndexed E F x d Q g ?q h"
    obtain f where f: "f \<in> set (st_IndexedFields x)" "xf_FieldNum f = qf_FieldNum g" "xf_GoType f = qf_GoType g"
      "xf_GoName f = qf_GoName g" using data(4) [OF indexed(1)] by blast
    have g: "g \<in> set (qd_QueryFields Q)" "has_type (qf_GoType g) v" "qf_GoType g \<in> exact_types" "xf_IsUnique f \<longrightarrow> c = None"
      using assms(12,13) f(1,2) data(4) [OF indexed(1)] by (auto simp: plain_filters_def index_usable_def indexed(1,2))
    have val: "gen_fieldValue F g (qf_GoType g, v) = Some (encodeIndexValue F f v)"
      by (rule gen_fieldValue_exact [OF g(3,2) f(3)])
    obtain rs where rs: "gen_listing (gen_rows E x d ?m) (gen_rid F x) (after_key ?c) rs"
      by (rule gen_listing_ex [OF iter_finite [OF assms(11)] assms(10)])
    obtain h' where h': "gen_execIndexed E F x d Q g ?q h
        = Some (h', take_limit n (filter (\<lambda>r. index_value F r f = encodeIndexValue F f v \<and> gen_sat ws' r) rs))"
      "handle_ok E view pend h'" "db_view view h' = ?m"
      by (rule gen_indexed_accepted [OF assms(1-3,5-12) indexed(2) f(1,2) g(4) val rs])
    have "index_value F r f = encodeIndexValue F f v \<longleftrightarrow> gen_holds (g, ''='', v) r" if r: "r \<in> set rs" for r
    proof -
      have "gen_rows E x d ?m (gen_rid F x r) = Some r" using r rs by (simp add: gen_listing_def)
      then obtain a where "r (qf_GoName g) = Some a" "has_type (qf_GoType g) a"
        using row_typed [OF assms(1-4,8,6) g(1)] by blast
      then show ?thesis
        using index_value_exact [OF g(3) _ g(2) f(3), of a F] by (simp add: index_value_def f(4) gen_holds_def)
    qed
    then have "filter (\<lambda>r. index_value F r f = encodeIndexValue F f v \<and> gen_sat ws' r) rs = filter (gen_sat ws) rs"
      by (intro filter_cong refl) (simp add: indexed(2) gen_sat_def)
    with h' rs indexed(3) show ?thesis by auto
  qed
qed

section \<open>The documented meaning of emitted conditions\<close>

text \<open>
  As in theory \<open>Query\<close>, for the Go types of accepted fields: numbers compare as numbers, floating-point ones as IEEE
  754 asks (not-a-number differs from everything), texts and byte slices by their bytes, flags as flags.
\<close>

definition value_means :: "string \<Rightarrow> string \<Rightarrow> go_value \<Rightarrow> go_value \<Rightarrow> bool" where
  "value_means ty op actual expected =
     (case (actual, expected) of
        (GBytes a, GBytes e) \<Rightarrow> text_means op a e
      | (GBool a, GBool e) \<Rightarrow> op_means op a e
      | (a, e) \<Rightarrow>
          if ty \<in> {''float32'', ''float64''}
          then (if float_nan ty a \<or> float_nan ty e then op = ''!='' else op_means op (float_key a) (float_key e))
          else op_means op (int_key ty a) (int_key ty e))"

definition supported_op :: "string \<Rightarrow> string \<Rightarrow> bool" where
  "supported_op ty op =
     (if ty = ''string'' then op \<in> text_ops else if ty \<in> {''bool'', ''[]byte''} then op \<in> flag_ops else op \<in> number_ops)"

definition supported_filters :: "gen_filter list \<Rightarrow> bool" where
  "supported_filters ws = list_all (\<lambda>(f, op, v). supported_op (qf_GoType f) op) ws"

definition gen_means :: "gen_filter list \<Rightarrow> go_struct \<Rightarrow> bool" where
  "gen_means ws r \<longleftrightarrow>
     (\<forall>(f, op, v) \<in> set ws. \<exists>a. r (qf_GoName f) = Some a \<and> value_means (qf_GoType f) op a v)"

lemma number_op_means: "number_op op a e = op_means op a e"
  by (simp add: number_op_def op_means_def)

lemma gen_op_means:
  assumes "has_type ty a" and "has_type ty e" and "supported_op ty op"
  shows "gen_op ty op a e = value_means ty op a e"
proof (cases a)
  case (GBytes x)
  then obtain y where e: "e = GBytes y" and ty: "ty = ''string'' \<or> ty = ''[]byte''"
    using assms(1,2) by (cases e) (auto simp: has_type_def)
  from ty show ?thesis
  proof
    assume "ty = ''string''"
    with assms(3) GBytes e show ?thesis
      by (auto simp: supported_op_def text_ops_def gen_op_def value_means_def text_means_def op_means_def str_contains_iff)
  next
    assume "ty = ''[]byte''"
    with assms(3) GBytes e show ?thesis
      by (auto simp: supported_op_def flag_ops_def gen_op_def value_means_def text_means_def op_means_def)
  qed
next
  case (GBool x)
  then obtain y where "e = GBool y" "ty = ''bool''" using assms(1,2) by (cases e) (auto simp: has_type_def)
  with assms(3) GBool show ?thesis
    by (auto simp: supported_op_def flag_ops_def gen_op_def value_means_def op_means_def)
next
  case (G32 w)
  then obtain v where e: "e = G32 v" and ty: "ty \<in> go32" using assms(1,2) by (cases e) (auto simp: has_type_def)
  from ty consider "ty = ''float32''" | "ty = ''int32''" | "ty = ''uint32''" by blast
  then show ?thesis by cases (simp_all add: G32 e gen_op_def value_means_def number_op_means)
next
  case (G64 w)
  then obtain v where e: "e = G64 v" and ty: "ty \<in> go64" using assms(1,2) by (cases e) (auto simp: has_type_def)
  from ty consider "ty = ''float64''" | "ty = ''int64''" | "ty = ''uint64''" by blast
  then show ?thesis by cases (simp_all add: G64 e gen_op_def value_means_def number_op_means)
qed

lemma gen_sat_means:
  assumes "plain_filters Q ws" and "supported_filters ws"
    and "\<And>g. g \<in> set (qd_QueryFields Q) \<Longrightarrow> \<exists>a. r (qf_GoName g) = Some a \<and> has_type (qf_GoType g) a"
  shows "gen_sat ws r = gen_means ws r"
proof -
  have "gen_holds (f, op, v) r \<longleftrightarrow> (\<exists>a. r (qf_GoName f) = Some a \<and> value_means (qf_GoType f) op a v)"
    if w: "(f, op, v) \<in> set ws" for f op v
  proof -
    have f: "f \<in> set (qd_QueryFields Q)" "has_type (qf_GoType f) v" "supported_op (qf_GoType f) op"
      using assms(1,2) w by (auto simp: plain_filters_def supported_filters_def list_all_iff)
    obtain a where "r (qf_GoName f) = Some a" "has_type (qf_GoType f) a" using assms(3) [OF f(1)] by blast
    then show ?thesis using gen_op_means [OF _ f(2,3), of a] by (simp add: gen_holds_def)
  qed
  then show ?thesis by (fastforce simp: gen_sat_def gen_means_def list_all_iff)
qed

section \<open>Properties\<close>

text \<open>
  C7. A query emitted for an accepted table without a TTL field, built from filters on its fields with arguments of
  their types, returns the rows of the table that satisfy every filter by the documented meaning of its operator
  (\<open>gen_means\<close>), in the order of their keys, after the cursor and up to the limit, and changes nothing, whichever
  of the two scans it runs.  What it excludes: filters with the same field and operator and different
  arguments, and operators the emitted code does not implement for the type (\<open>plain_filters\<close>, \<open>supported_filters\<close>: no
  order on texts); when the first filter is an equality on the indexed field, a byte-slice or floating-point
  field (\<open>bytes_index_query_misses\<close>), and a cursor where the index is unique, which would find nothing (\<open>index_usable\<close>);
  field numbers that agree modulo 256 (\<open>numbers_apart\<close>) and Go names that collide (\<open>go_names_ok\<close>).
\<close>

theorem generated_query_exact:
  assumes "BuildIR files = Inr ts" and "t \<in> set ts" and "\<not> t_HasTTL t"
    and "d = buildSerializerData t" and "buildStoreData t = Some x" and "buildQueryData t = Some Q"
    and "numbers_apart x" and "go_names_ok t"
    and "handle_ok E view pend h" and "gen_ok E F x d (db_view view h)" and "iter_laws E view snap pos"
    and "plain_filters Q ws" and "index_usable Q x ws c" and "supported_filters ws"
  shows "\<exists>h' rs. gen_listing (gen_rows E x d (db_view view h)) (gen_rid F x) (after_key (map_option (encodePrimaryKey F x) c)) rs
    \<and> gen_Exec E F x d Q (gen_query F x ws n c) h = Some (h', take_limit n (filter (gen_means ws) rs))
    \<and> handle_ok E view pend h' \<and> db_view view h' = db_view view h"
proof -
  obtain h' rs where rs: "gen_listing (gen_rows E x d (db_view view h)) (gen_rid F x)
      (after_key (map_option (encodePrimaryKey F x) c)) rs"
    and run: "gen_Exec E F x d Q (gen_query F x ws n c) h = Some (h', take_limit n (filter (gen_sat ws) rs))"
      "handle_ok E view pend h'" "db_view view h' = db_view view h"
    using gen_Exec_accepted [OF assms(1-13)] by blast
  have "gen_sat ws r = gen_means ws r" if "r \<in> set rs" for r
  proof (rule gen_sat_means [OF assms(12,14)])
    fix g assume g: "g \<in> set (qd_QueryFields Q)"
    have "gen_rows E x d (db_view view h) (gen_rid F x r) = Some r" using that rs by (simp add: gen_listing_def)
    then show "\<exists>a. r (qf_GoName g) = Some a \<and> has_type (qf_GoType g) a"
      using row_typed [OF assms(1-4,8,6) g] by blast
  qed
  then have "filter (gen_sat ws) rs = filter (gen_means ws) rs" by (intro filter_cong refl)
  with rs run show ?thesis by metis
qed

lemma listing_single:
  assumes "gen_listing [rid r \<mapsto> r] rid P rs" and "P (rid r)"
  shows "rs = [r]"
proof -
  have "rs = r # []"
  proof (rule sorted_key_unique)
    show "sorted_wrt (\<lambda>a b. rid a < rid b) rs" using assms(1) by (simp add: gen_listing_def)
    show "set rs = set [r]" using assms by (auto simp: gen_listing_def split: if_splits)
  qed simp
  then show ?thesis .
qed

lemma user_query_ok: "go_names_ok user_table"
  by code_simp

theorem generated_query_exact_witness:
  "\<exists>h1 h2. gen_Create (calm_platform 0) no_floats user_store_data user_d (Some (user_struct example_user))
        (with_pebble ([], []) example_db) = Some (h1, None)
    \<and> gen_Exec (calm_platform 0) no_floats user_store_data user_d user_query_data
        (gen_query no_floats user_store_data [(qfield ''Email'' ''string'' 3 True, ''='', GBytes [66, 67])] 5 None) h1
      = Some (h2, [user_struct example_user])"
proof -
  let ?E = "calm_platform 0" and ?h = "with_pebble ([], []) example_db" and ?r = "user_struct example_user"
    and ?ws = "[(qfield ''Email'' ''string'' 3 True, ''='', GBytes [66, 67])]"
  have ttl: "\<not> t_HasTTL user_table" by (simp add: user_table_def Let_def)
  have fits: "user_fits example_user" by (simp add: user_fits_def example_user_def)
  have empty: "db_view mem_view ?h = Map.empty" by (simp add: mem_view_def)
  have user: "user_table \<in> set [user_table, session_table]" by simp
  obtain h1 where h1: "gen_Create ?E no_floats user_store_data user_d (Some ?r) ?h = Some (h1, None)"
    "handle_ok ?E mem_view id h1" "gen_ok ?E no_floats user_store_data user_d (db_view mem_view h1)"
    "gen_rows ?E user_store_data user_d (db_view mem_view h1) = [gen_rid no_floats user_store_data ?r \<mapsto> ?r]"
    by (rule gen_Create_first [OF BuildIR_testmodels user ttl refl user_compiles user_store_data user_numbers_apart
          calm_laws(4,5) example_handle empty user_struct_ok [OF fits]])
  have plain: "plain_filters user_query_data ?ws"
    by (simp add: plain_filters_def user_query_data_def qfield_def has_type_def)
  have usable: "index_usable user_query_data user_store_data ?ws None"
    by (simp add: index_usable_def user_query_data_def qfield_def exact_types_def)
  have supported: "supported_filters ?ws"
    by (simp add: supported_filters_def supported_op_def qfield_def text_ops_def)
  obtain h2 rs where rs: "gen_listing (gen_rows ?E user_store_data user_d (db_view mem_view h1))
      (gen_rid no_floats user_store_data) (after_key None) rs"
    and run: "gen_Exec ?E no_floats user_store_data user_d user_query_data (gen_query no_floats user_store_data ?ws 5 None) h1
      = Some (h2, take_limit 5 (filter (gen_means ?ws) rs))"
    using generated_query_exact [OF BuildIR_testmodels user ttl refl user_store_data user_query_data user_numbers_apart
        user_query_ok h1(2,3) calm_laws(3) plain usable supported, where n = 5] by auto
  have "rs = [?r]" by (rule listing_single [OF rs [unfolded h1(4)]]) (simp add: after_key_def)
  moreover have "gen_means ?ws ?r"
    by (simp add: gen_means_def value_means_def text_means_def op_means_def qfield_def user_struct_def example_user_def)
  ultimately show ?thesis using h1(1) run by (auto simp: take_limit_def)
qed


section \<open>Byte-slice indexes\<close>

lemma show_nat_nonempty: "0 < length (show_nat n)"
  by (subst show_nat.simps) (simp add: Let_def)

lemma join_bytes_length: "length bs \<le> length (join_bytes bs)"
proof (induction bs rule: join_bytes.induct)
  case (2 b)
  then show ?case using show_nat_nonempty [of "unat b"] by (simp add: Suc_le_eq)
next
  case (3 b c bs)
  then show ?case using show_nat_nonempty [of "unat b"] by simp
qed simp

lemma splitWhere_qc: "CHR '' '' \<notin> set op \<Longrightarrow> splitWhere (cond_text (qc (g, op, v))) = [qf_GoName g, op]"
  using splitWhere_pair [of op "qf_GoName g"] by (simp add: cond_text_def qc_def)

lemma arg_text_bytes: "arg_text F (''[]byte'', GBytes b) \<noteq> b"
proof
  assume "arg_text F (''[]byte'', GBytes b) = b"
  then have "length (arg_text F (''[]byte'', GBytes b)) = length b" by simp
  then show False using join_bytes_length [of b] by (simp add: arg_text_def)
qed

definition blob_message :: MessageDescriptor where
  "blob_message =
     \<lparr>md_name = ''Blob'',
      md_fields = [id_field, (plain_field ''data'' TYPE_BYTES 2)\<lparr>fd_option := Some (field_option\<lparr>fo_index := INDEX_NORMAL\<rparr>)\<rparr>],
      md_table = Some id_table\<rparr>"

definition blob_proto :: FileDescriptor where
  "blob_proto = \<lparr>pf_package = '''', pf_go_package = ''blobs'', pf_messages = [blob_message]\<rparr>"

definition blob_table :: TableIR where
  "blob_table = (case BuildIR [blob_proto] of Inr (t # _) \<Rightarrow> t | _ \<Rightarrow> user_table)"

lemma BuildIR_blob: "BuildIR [blob_proto] = Inr [blob_table]"
  by code_simp

definition blob_query_data :: queryData where
  "blob_query_data = the (buildQueryData blob_table)"

definition blob_store_data :: storeData where
  "blob_store_data = the (buildStoreData blob_table)"

lemma blob_data:
  "buildStoreData blob_table = Some blob_store_data" "buildQueryData blob_table = Some blob_query_data"
  by code_simp+

lemma blob_facts: "\<not> t_HasTTL blob_table" "compiles (buildSerializerData blob_table)" "go_names_ok blob_table"
  "numbers_apart blob_store_data"
  by code_simp+

definition blob_row :: go_struct where
  "blob_row = [''Id'' \<mapsto> G64 7, ''Data'' \<mapsto> GBytes [1, 2]]"

lemma blob_fields:
  "sd_Fields (buildSerializerData blob_table) = [ser_info ''Id'' ''int64'' 8 False, ser_info ''Data'' ''[]byte'' 0 False]"
  "st_PKGoName blob_store_data = ''Id''" "st_PKGoType blob_store_data = ''int64''" 
  "qd_QueryFields blob_query_data = [qfield ''Data'' ''[]byte'' 2 True]"
  "qd_IndexedField blob_query_data = Some (qfield ''Data'' ''[]byte'' 2 True)"
  by code_simp+

text \<open>
  An indexed query on a byte-slice field misses every row it asks for.
\<close>

theorem bytes_index_query_misses:
  assumes "BuildIR files = Inr ts" and "t \<in> set ts" and "\<not> t_HasTTL t"
    and "d = buildSerializerData t" and "buildStoreData t = Some x" and "buildQueryData t = Some Q"
    and "numbers_apart x" and "go_names_ok t"
    and "handle_ok E view pend h" and "gen_ok E F x d (db_view view h)" and "iter_laws E view snap pos"
    and "qd_IndexedField Q = Some g" and "qf_GoType g = ''[]byte''" and "plain_filters Q ((g, ''='', GBytes b) # ws)"
  shows "\<exists>h' rs. gen_Exec E F x d Q (gen_query F x ((g, ''='', GBytes b) # ws) n None) h = Some (h', rs)
    \<and> handle_ok E view pend h' \<and> db_view view h' = db_view view h
    \<and> (\<forall>r \<in> set rs. gen_rows E x d (db_view view h) (gen_rid F x r) = Some r \<and> r (qf_GoName g) \<noteq> Some (GBytes b))"
proof -
  let ?m = "db_view view h" and ?ws = "(g, ''='', GBytes b) # ws"
  note data = query_data [OF assms(5,6) accepted_wf [OF assms(1,2)] assms(8)]
  obtain f where f: "f \<in> set (st_IndexedFields x)" "xf_FieldNum f = qf_FieldNum g" "xf_GoType f = qf_GoType g"
    "xf_GoName f = qf_GoName g" using data(4) [OF assms(12)] by blast
  let ?b = "arg_text F (''[]byte'', GBytes b)"
  have val: "gen_fieldValue F g (qf_GoType g, GBytes b) = Some ?b"
    by (simp add: gen_fieldValue_def assms(13))
  obtain rs where rs: "gen_listing (gen_rows E x d ?m) (gen_rid F x) (after_key (map_option (encodePrimaryKey F x) None)) rs"
    by (rule gen_listing_ex [OF iter_finite [OF assms(11)] assms(10)])
  obtain h' where h': "gen_execIndexed E F x d Q g (gen_query F x ?ws n None) h
      = Some (h', take_limit n (filter (\<lambda>r. index_value F r f = ?b \<and> gen_sat ws r) rs))"
    "handle_ok E view pend h'" "db_view view h' = ?m"
    by (rule gen_indexed_accepted [OF assms(1-3,5-11,14) refl f(1,2) _ val rs]) simp
  have "gen_rows E x d ?m (gen_rid F x r) = Some r \<and> r (qf_GoName g) \<noteq> Some (GBytes b)"
    if "r \<in> set (take_limit n (filter (\<lambda>r. index_value F r f = ?b \<and> gen_sat ws r) rs))" for r
  proof -
    have "r \<in> set (filter (\<lambda>r. index_value F r f = ?b \<and> gen_sat ws r) rs)"
      using that by (auto simp: take_limit_def dest: in_set_takeD split: if_splits)
    then have r: "r \<in> set rs" "index_value F r f = ?b" by simp_all
    moreover have "r (qf_GoName g) \<noteq> Some (GBytes b)"
      using r(2) arg_text_bytes [of F b] by (auto simp: index_value_def encodeIndexValue_def f(4))
    ultimately show ?thesis using rs by (simp add: gen_listing_def)
  qed
  moreover have "gen_Exec E F x d Q (gen_query F x ?ws n None) h = gen_execIndexed E F x d Q g (gen_query F x ?ws n None) h"
    using splitWhere_qc [of "''=''" g "GBytes b"] by (simp add: gen_Exec_def assms(12))
  ultimately show ?thesis
    using h' by (intro exI [of _ h'] exI [of _ "take_limit n (filter (\<lambda>r. index_value F r f = ?b \<and> gen_sat ws r) rs)"])
      (simp only: simp_thms, intro ballI)
qed

theorem bytes_index_query_misses_witness:
  "\<exists>h1 h2. gen_Create (calm_platform 0) no_floats blob_store_data (buildSerializerData blob_table) (Some blob_row)
        (with_pebble ([], []) example_db) = Some (h1, None)
    \<and> gen_Exec (calm_platform 0) no_floats blob_store_data (buildSerializerData blob_table) blob_query_data
        (gen_query no_floats blob_store_data [(qfield ''Data'' ''[]byte'' 2 True, ''='', GBytes [1, 2])] 0 None) h1
      = Some (h2, [])
    \<and> gen_holds (qfield ''Data'' ''[]byte'' 2 True, ''='', GBytes [1, 2]) blob_row"
proof -
  let ?E = "calm_platform 0" and ?h = "with_pebble ([], []) example_db" and ?d = "buildSerializerData blob_table"
    and ?g = "qfield ''Data'' ''[]byte'' 2 True"
  have blob: "blob_table \<in> set [blob_table]" by simp
  have row: "struct_ok (sd_Fields ?d) blob_row"
    by (auto simp: struct_ok_def blob_fields blob_row_def value_ok_def ser_info_def split: if_splits)
  have empty: "db_view mem_view ?h = Map.empty" by (simp add: mem_view_def)
  obtain h1 where h1: "gen_Create ?E no_floats blob_store_data ?d (Some blob_row) ?h = Some (h1, None)"
    "handle_ok ?E mem_view id h1" "gen_ok ?E no_floats blob_store_data ?d (db_view mem_view h1)"
    "gen_rows ?E blob_store_data ?d (db_view mem_view h1) = [gen_rid no_floats blob_store_data blob_row \<mapsto> blob_row]"
    by (rule gen_Create_first [OF BuildIR_blob blob blob_facts(1) refl blob_facts(2) blob_data(1) blob_facts(4)
          calm_laws(4,5) example_handle empty row])
  have g: "qf_GoType ?g = ''[]byte''" "qf_GoName ?g = ''Data''" by (simp_all add: qfield_def)
  have plain: "plain_filters blob_query_data [(?g, ''='', GBytes [1, 2])]"
    by (simp add: plain_filters_def blob_fields g has_type_def)
  obtain h2 rs where run: "gen_Exec ?E no_floats blob_store_data ?d blob_query_data
      (gen_query no_floats blob_store_data [(?g, ''='', GBytes [1, 2])] 0 None) h1 = Some (h2, rs)"
    and rs: "\<forall>r \<in> set rs. gen_rows ?E blob_store_data ?d (db_view mem_view h1) (gen_rid no_floats blob_store_data r) = Some r
      \<and> r ''Data'' \<noteq> Some (GBytes [1, 2])"
    using bytes_index_query_misses [OF BuildIR_blob blob blob_facts(1) refl blob_data blob_facts(4,3)
        h1(2,3) calm_laws(3) blob_fields(5) g(1) plain, where n = 0] unfolding g(2) by blast
  have "blob_row ''Data'' = Some (GBytes [1, 2])" by (simp add: blob_row_def)
  then have "rs = []" using rs unfolding h1(4) by (cases rs) (auto split: if_splits)
  moreover have "gen_holds (?g, ''='', GBytes [1, 2]) blob_row"
    by (simp add: gen_holds_def g gen_op_def blob_row_def)
  ultimately show ?thesis using h1(1) run by blast
qed

end
