(* ===== verification/MockGen.thy ===== *)
theory MockGen
  imports GenQueries Mock
begin

text \<open>
  The mocks the code generator emits (\<open>internal/codegen/mock.go\<close>): the data of the template (\<open>GenerateMock\<close>)
  and the methods of \<open>mockTemplate\<close>, interpreted on that data over a heap of records and arrays, because what the
  emitted copies promise is that nothing is shared.  The mock is then proved to be a map of values for every client
  that writes to its own records and slices between the calls.
\<close>




section \<open>The data of the template\<close>

text \<open>
  The statements that copy one field: an assignment, a copy of the slice, or a new outer slice whose elements are
  copied one by one; \<open>copy_lines\<close> prints them.
\<close>

datatype copy_stmt = AssignField string | CopySlice string string | CopySlices string string

fun copy_lines :: "copy_stmt \<Rightarrow> string list" where
  "copy_lines (AssignField f) = [''dst.'' @ f @ '' = src.'' @ f]"
| "copy_lines (CopySlice f ty) = [''dst.'' @ f @ '' = append(('' @ ty @ '')(nil), src.'' @ f @ ''...)'']"
| "copy_lines (CopySlices f ty) =
     [''dst.'' @ f @ '' = make('' @ ty @ '', len(src.'' @ f @ ''))'', ''for i := range src.'' @ f @ '' {'',
      ''dst.'' @ f @ ''[i] = append([]byte(nil), src.'' @ f @ ''[i]...)'', ''}'']"

record mockField =
  mf_GoName :: string
  mf_CopyLines :: copy_stmt

record mockData =
  mk_PackageName :: string
  mk_EntityName :: string
  mk_StoreImpl :: string
  mk_PKGoName :: string
  mk_PKGoType :: string
  mk_TableID :: "64 word"
  mk_HasTTL :: bool
  mk_Fields :: "mockField list"

definition mock_field :: "FieldIR \<Rightarrow> mockField" where
  "mock_field f =
     (let goName = toGoName (fi_Name f)
      in \<lparr>mf_GoName = goName,
          mf_CopyLines =
            (if fi_IsRepeated f \<and> fi_ProtoType f = TYPE_BYTES then CopySlices goName (fi_GoType f)
             else if fi_IsRepeated f \<or> fi_ProtoType f = TYPE_BYTES then CopySlice goName (fi_GoType f)
             else AssignField goName)\<rparr>)"

text \<open>\<open>None\<close>: the table has no primary key, a nil dereference.\<close>

definition buildMockData :: "TableIR \<Rightarrow> mockData option" where
  "buildMockData table =
     (case t_PrimaryKey table of
        None \<Rightarrow> None
      | Some pk \<Rightarrow>
          Some \<lparr>mk_PackageName = t_GoPackage table, mk_EntityName = t_MessageName table,
            mk_StoreImpl = lowerFirst (t_MessageName table) @ ''Store'', mk_PKGoName = toGoName (fi_Name pk),
            mk_PKGoType = fi_GoType pk, mk_TableID = t_TableID table, mk_HasTTL = t_HasTTL table,
            mk_Fields = map mock_field (t_Fields table)\<rparr>)"

text \<open>The emitted file has a map from primary keys; a slice is no key of a Go map.\<close>

definition mock_compiles :: "mockData \<Rightarrow> bool" where
  "mock_compiles k \<longleftrightarrow> mk_PKGoType k \<noteq> ''[]byte''"

section \<open>A heap\<close>

text \<open>
  What the emitted copies promise depends on sharing, so their values live in a heap: a field holds a scalar (a
  string is one) or a slice, \<open>nil\<close> or the address of an array; the record a pointer denotes is at its address.
\<close>

datatype hvalue = HScalar go_value | HByte byte | HSlice "nat option"

record heap =
  hp_structs :: "nat \<Rightarrow> (string \<rightharpoonup> hvalue)"
  hp_arrays :: "nat \<Rightarrow> hvalue list"
  hp_lim :: nat

definition new_struct :: "(string \<rightharpoonup> hvalue) \<Rightarrow> heap \<Rightarrow> nat \<times> heap" where
  "new_struct m h = (hp_lim h, h\<lparr>hp_structs := (hp_structs h)(hp_lim h := m), hp_lim := Suc (hp_lim h)\<rparr>)"

definition new_array :: "hvalue list \<Rightarrow> heap \<Rightarrow> nat \<times> heap" where
  "new_array xs h = (hp_lim h, h\<lparr>hp_arrays := (hp_arrays h)(hp_lim h := xs), hp_lim := Suc (hp_lim h)\<rparr>)"

definition set_field :: "nat \<Rightarrow> string \<Rightarrow> hvalue \<Rightarrow> heap \<Rightarrow> heap" where
  "set_field a f v h = h\<lparr>hp_structs := (hp_structs h)(a := (hp_structs h a)(f \<mapsto> v))\<rparr>"

definition set_elem :: "nat \<Rightarrow> nat \<Rightarrow> hvalue \<Rightarrow> heap \<Rightarrow> heap" where
  "set_elem a i v h = h\<lparr>hp_arrays := (hp_arrays h)(a := (hp_arrays h a)[i := v])\<rparr>"

fun elems :: "heap \<Rightarrow> hvalue \<Rightarrow> hvalue list" where
  "elems h (HSlice (Some a)) = hp_arrays h a"
| "elems h _ = []"

definition field_of :: "heap \<Rightarrow> nat \<Rightarrow> string \<Rightarrow> hvalue" where
  "field_of h a f = the (hp_structs h a f)"

text \<open>\<open>append((T)(nil), xs...)\<close>.\<close>

definition append_nil :: "hvalue list \<Rightarrow> heap \<Rightarrow> hvalue \<times> heap" where
  "append_nil xs h = (if xs = [] then (HSlice None, h) else map_prod (\<lambda>a. HSlice (Some a)) id (new_array xs h))"

section \<open>The emitted mock\<close>

fun exec_copy :: "nat \<Rightarrow> nat \<Rightarrow> copy_stmt \<Rightarrow> heap \<Rightarrow> heap" where
  "exec_copy src dst (AssignField f) h = set_field dst f (field_of h src f) h"
| "exec_copy src dst (CopySlice f ty) h =
     (let (v, h1) = append_nil (elems h (field_of h src f)) h in set_field dst f v h1)"
| "exec_copy src dst (CopySlices f ty) h =
     (let xs = elems h (field_of h src f);
          (a, h1) = new_array (replicate (length xs) (HSlice None)) h
      in fold (\<lambda>i h. let (v, h') = append_nil (elems h (xs ! i)) h in set_elem a i v h') [0..<length xs]
           (set_field dst f (HSlice (Some a)) h1))"

definition gen_clone :: "mockData \<Rightarrow> nat option \<Rightarrow> heap \<Rightarrow> nat option \<times> heap" where
  "gen_clone k srcp h =
     (case srcp of
        None \<Rightarrow> (None, h)
      | Some src \<Rightarrow>
          (let (dst, h1) = new_struct Map.empty h
           in (Some dst, fold (\<lambda>f. exec_copy src dst (mf_CopyLines f)) (mk_Fields k) h1)))"

text \<open>The map, from primary keys to pointers, compares its keys as Go does.\<close>

type_synonym mock_map = "(go_value \<times> nat) list"

definition key_eq :: "mockData \<Rightarrow> go_value \<Rightarrow> go_value \<times> nat \<Rightarrow> bool" where
  "key_eq k i e = gen_op (mk_PKGoType k) ''='' (fst e) i"

definition map_get :: "mockData \<Rightarrow> go_value \<Rightarrow> mock_map \<Rightarrow> nat option" where
  "map_get k i data = map_option snd (find (key_eq k i) data)"

definition map_put :: "mockData \<Rightarrow> go_value \<Rightarrow> nat \<Rightarrow> mock_map \<Rightarrow> mock_map" where
  "map_put k i p data =
     (if map_get k i data = None then data @ [(i, p)] else map (\<lambda>e. if key_eq k i e then (i, p) else e) data)"

definition map_delete :: "mockData \<Rightarrow> go_value \<Rightarrow> mock_map \<Rightarrow> mock_map" where
  "map_delete k i data = filter (\<lambda>e. \<not> key_eq k i e) data"

fun scalar_of :: "hvalue \<Rightarrow> go_value" where
  "scalar_of (HScalar v) = v"
| "scalar_of _ = GBool False"

definition pk_of :: "mockData \<Rightarrow> heap \<Rightarrow> nat \<Rightarrow> go_value" where
  "pk_of k h p = scalar_of (field_of h p (mk_PKGoName k))"

definition gen_NewMock :: mock_map where "gen_NewMock = []"

definition gen_mock_store :: "mockData \<Rightarrow> nat \<Rightarrow> heap \<times> mock_map \<Rightarrow> heap \<times> mock_map" where
  "gen_mock_store k p s =
     (let (c, h') = gen_clone k (Some p) (fst s) in (h', map_put k (pk_of k (fst s) p) (the c) (snd s)))"

definition gen_mock_Create :: "mockData \<Rightarrow> nat option \<Rightarrow> heap \<times> mock_map \<Rightarrow> (heap \<times> mock_map) \<times> go_error option" where
  "gen_mock_Create k record s =
     (case record of
        None \<Rightarrow> (s, Some (ErrorMsg (''sqlitex: cannot create nil '' @ mk_EntityName k)))
      | Some p \<Rightarrow>
          if map_get k (pk_of k (fst s) p) (snd s) \<noteq> None
          then (s, Some (ErrorMsg (''sqlitex: '' @ mk_EntityName k @ '' already exists'')))
          else (gen_mock_store k p s, None))"

definition gen_mock_Update :: "mockData \<Rightarrow> nat option \<Rightarrow> heap \<times> mock_map \<Rightarrow> (heap \<times> mock_map) \<times> go_error option" where
  "gen_mock_Update k record s =
     (case record of
        None \<Rightarrow> (s, Some (ErrorMsg (''sqlitex: cannot update nil '' @ mk_EntityName k)))
      | Some p \<Rightarrow>
          if map_get k (pk_of k (fst s) p) (snd s) = None
          then (s, Some (ErrorMsg (''sqlitex: '' @ mk_EntityName k @ '' not found'')))
          else (gen_mock_store k p s, None))"

definition gen_mock_Delete :: "mockData \<Rightarrow> go_value \<Rightarrow> heap \<times> mock_map \<Rightarrow> (heap \<times> mock_map) \<times> go_error option" where
  "gen_mock_Delete k i s = ((fst s, map_delete k i (snd s)), None)"

definition gen_mock_Get ::
  "mockData \<Rightarrow> go_value \<Rightarrow> heap \<times> mock_map \<Rightarrow> (heap \<times> mock_map) \<times> (go_error + nat option)" where
  "gen_mock_Get k i s =
     (case map_get k i (snd s) of
        None \<Rightarrow> (s, Inr None)
      | Some p \<Rightarrow> (let (c, h') = gen_clone k (Some p) (fst s) in ((h', snd s), Inr c)))"

definition gen_mock_PurgeExpired :: "mockData \<Rightarrow> heap \<times> mock_map \<Rightarrow> (heap \<times> mock_map) \<times> (go_error + nat)" where
  "gen_mock_PurgeExpired k s = (s, Inr 0)"

section \<open>What a copy is\<close>

fun byte_of :: "hvalue \<Rightarrow> byte" where
  "byte_of (HByte b) = b"
| "byte_of _ = 0"

text \<open>The value a field holds, and the record behind a pointer.\<close>

fun content :: "heap \<Rightarrow> hvalue \<Rightarrow> go_value" where
  "content h (HScalar g) = g"
| "content h v = GBytes (map byte_of (elems h v))"

definition rec_view :: "heap \<Rightarrow> nat \<Rightarrow> go_struct" where
  "rec_view h p x = map_option (content h) (hp_structs h p x)"

definition field_fits :: "heap \<Rightarrow> FieldIR \<Rightarrow> hvalue \<Rightarrow> bool" where
  "field_fits h f v \<longleftrightarrow>
     (if fi_ProtoType f = TYPE_BYTES
      then (\<exists>x. v = HSlice x \<and> (\<forall>a. x = Some a \<longrightarrow> a < hp_lim h \<and> (\<forall>e \<in> set (hp_arrays h a). \<exists>b. e = HByte b)))
      else (\<exists>g. v = HScalar g \<and> has_type (fi_GoType f) g))"

text \<open>A pointer to a record of the table's type.\<close>

definition rec_fits :: "TableIR \<Rightarrow> heap \<Rightarrow> nat \<Rightarrow> bool" where
  "rec_fits t h p \<longleftrightarrow> p < hp_lim h \<and> dom (hp_structs h p) = (\<lambda>f. toGoName (fi_Name f)) ` set (t_Fields t)
     \<and> (\<forall>f \<in> set (t_Fields t). field_fits h f (field_of h p (toGoName (fi_Name f))))"

text \<open>The arrays that existed before are as they were.\<close>

definition arrays_kept :: "heap \<Rightarrow> heap \<Rightarrow> bool" where
  "arrays_kept h h' \<longleftrightarrow> hp_lim h \<le> hp_lim h' \<and> (\<forall>a < hp_lim h. hp_arrays h' a = hp_arrays h a)"

lemma arrays_kept_refl [simp]: "arrays_kept h h"
  by (simp add: arrays_kept_def)

lemma arrays_kept_trans: "arrays_kept h1 h2 \<Longrightarrow> arrays_kept h2 h3 \<Longrightarrow> arrays_kept h1 h3"
  by (auto simp: arrays_kept_def)

lemma field_kept:
  assumes "field_fits h f v" and "arrays_kept h h'"
  shows "field_fits h' f v" and "content h' v = content h v"
proof -
  show "field_fits h' f v"
    using assms by (force simp: field_fits_def arrays_kept_def split: if_splits)
  show "content h' v = content h v"
  proof (cases "fi_ProtoType f = TYPE_BYTES")
    case True
    with assms(1) obtain x where x: "v = HSlice x" "\<And>a. x = Some a \<Longrightarrow> a < hp_lim h" by (auto simp: field_fits_def)
    with assms(2) show ?thesis by (cases x) (auto simp: arrays_kept_def)
  qed (use assms in \<open>auto simp: field_fits_def\<close>)
qed

text \<open>\<open>fresh h v\<close>: the array of a slice is not one of \<open>h\<close>.\<close>

definition fresh :: "heap \<Rightarrow> hvalue \<Rightarrow> bool" where
  "fresh h v \<longleftrightarrow> (\<forall>a. v = HSlice (Some a) \<longrightarrow> hp_lim h \<le> a)"

lemma exec_copy_spec:
  assumes "\<not> fi_IsRepeated f" and "src \<noteq> dst" and fits: "field_fits h f (field_of h src (toGoName (fi_Name f)))"
  obtains v h' where "exec_copy src dst (mf_CopyLines (mock_field f)) h = set_field dst (toGoName (fi_Name f)) v h'"
    "arrays_kept h h'" "hp_structs h' = hp_structs h" "field_fits h' f v" "fresh h v"
    "content h' v = content h (field_of h src (toGoName (fi_Name f)))"
proof (cases "fi_ProtoType f = TYPE_BYTES")
  case False
  have run: "exec_copy src dst (mf_CopyLines (mock_field f)) h
      = set_field dst (toGoName (fi_Name f)) (field_of h src (toGoName (fi_Name f))) h"
    using assms(1) False by (simp add: mock_field_def Let_def)
  have fr: "fresh h (field_of h src (toGoName (fi_Name f)))" using fits False by (auto simp: field_fits_def fresh_def)
  show ?thesis by (rule that [OF run _ _ fits fr]) simp_all
next
  case True
  let ?v = "field_of h src (toGoName (fi_Name f))"
  have line: "mf_CopyLines (mock_field f) = CopySlice (toGoName (fi_Name f)) (fi_GoType f)"
    using assms(1) True by (simp add: mock_field_def Let_def)
  obtain x where x: "?v = HSlice x" "\<And>a. x = Some a \<Longrightarrow> a < hp_lim h \<and> (\<forall>e \<in> set (hp_arrays h a). \<exists>b. e = HByte b)"
    using fits True by (auto simp: field_fits_def)
  show ?thesis
  proof (cases "elems h ?v = []")
    case empty: True
    show ?thesis
      by (rule that [of "HSlice None" h]) (use empty True x(1) in \<open>simp_all add: line append_nil_def field_fits_def fresh_def\<close>)
  next
    case False
    then obtain a where a: "x = Some a" using x(1) by (cases x) auto
    show ?thesis
    proof (rule that [of "HSlice (Some (hp_lim h))" "snd (new_array (hp_arrays h a) h)"])
    qed (use False True x a in \<open>simp_all add: line append_nil_def new_array_def field_fits_def fresh_def arrays_kept_def
           map_prod_def Let_def\<close>)
  qed
qed

abbreviation go_name :: "FieldIR \<Rightarrow> string" where
  "go_name f \<equiv> toGoName (fi_Name f)"

lemma field_of_set:
  "field_of (set_field d x v h) p y = (if p = d \<and> y = x then v else field_of h p y)"
  by (simp add: field_of_def set_field_def)

lemma set_field_simps [simp]:
  "hp_arrays (set_field d x v h) = hp_arrays h" "hp_lim (set_field d x v h) = hp_lim h"
  "hp_structs (set_field d x v h) p = (if p = d then (hp_structs h d)(x \<mapsto> v) else hp_structs h p)"
  by (simp_all add: set_field_def)

lemma set_field_kept [simp]: "arrays_kept h (set_field d x v h') \<longleftrightarrow> arrays_kept h h'"
  by (simp add: arrays_kept_def)

text \<open>\<open>copied fs src dst h h'\<close>: from \<open>h\<close> to \<open>h'\<close> the fields \<open>fs\<close> of \<open>src\<close> have been copied to \<open>dst\<close>, into new arrays.\<close>

definition copied :: "FieldIR list \<Rightarrow> nat \<Rightarrow> nat \<Rightarrow> heap \<Rightarrow> heap \<Rightarrow> bool" where
  "copied fs src dst h h' \<longleftrightarrow>
     arrays_kept h h' \<and> (\<forall>p. p \<noteq> dst \<longrightarrow> hp_structs h' p = hp_structs h p)
   \<and> dom (hp_structs h' dst) = dom (hp_structs h dst) \<union> go_name ` set fs
   \<and> (\<forall>x. x \<notin> go_name ` set fs \<longrightarrow> hp_structs h' dst x = hp_structs h dst x)
   \<and> (\<forall>f \<in> set fs. field_fits h' f (field_of h' dst (go_name f)) \<and> fresh h (field_of h' dst (go_name f))
        \<and> content h' (field_of h' dst (go_name f)) = content h (field_of h src (go_name f)))"

lemma copy_fields_spec:
  assumes "\<forall>f \<in> set fs. \<not> fi_IsRepeated f" and "src \<noteq> dst" and "distinct (map go_name fs)"
    and "\<forall>f \<in> set fs. field_fits h f (field_of h src (go_name f))"
  shows "copied fs src dst h (fold (\<lambda>f. exec_copy src dst (mf_CopyLines (mock_field f))) fs h)"
  using assms
proof (induction fs arbitrary: h)
  case Nil
  show ?case by (simp add: copied_def)
next
  case (Cons f fs)
  let ?old = "field_of h src (go_name f)"
  have f: "\<not> fi_IsRepeated f" "field_fits h f ?old" using Cons.prems by simp_all
  obtain v h1 where h1: "exec_copy src dst (mf_CopyLines (mock_field f)) h = set_field dst (go_name f) v h1"
    "arrays_kept h h1" "hp_structs h1 = hp_structs h" "field_fits h1 f v" "fresh h v" "content h1 v = content h ?old"
    by (rule exec_copy_spec [OF f(1) Cons.prems(2) f(2)])
  let ?h1 = "set_field dst (go_name f) v h1"
  define h2 where "h2 = fold (\<lambda>f. exec_copy src dst (mf_CopyLines (mock_field f))) fs ?h1"
  have src: "field_of ?h1 src x = field_of h src x" for x
    using Cons.prems(2) h1(3) by (simp add: field_of_def)
  have kept: "arrays_kept h ?h1" using h1(2) by simp
  have old: "field_fits ?h1 g (field_of ?h1 src (go_name g))"
    "content ?h1 (field_of ?h1 src (go_name g)) = content h (field_of h src (go_name g))" if "g \<in> set fs" for g
    using Cons.prems(4) that field_kept [OF _ kept] unfolding src by auto
  have "copied fs src dst ?h1 h2"
    unfolding h2_def by (rule Cons.IH) (use Cons.prems old(1) in simp_all)
  then have h2: "arrays_kept ?h1 h2" "\<And>p. p \<noteq> dst \<Longrightarrow> hp_structs h2 p = hp_structs ?h1 p"
    "dom (hp_structs h2 dst) = dom (hp_structs ?h1 dst) \<union> go_name ` set fs"
    "\<And>x. x \<notin> go_name ` set fs \<Longrightarrow> hp_structs h2 dst x = hp_structs ?h1 dst x"
    "\<And>g. g \<in> set fs \<Longrightarrow> field_fits h2 g (field_of h2 dst (go_name g)) \<and> fresh ?h1 (field_of h2 dst (go_name g))
      \<and> content h2 (field_of h2 dst (go_name g)) = content ?h1 (field_of ?h1 src (go_name g))"
    unfolding copied_def by blast+
  have new: "go_name f \<notin> go_name ` set fs" using Cons.prems(3) by simp
  then have at: "field_of h2 dst (go_name f) = v" using h2(4) by (simp add: field_of_def)
  have v: "field_fits h2 f v" "content h2 v = content h ?old"
    using field_kept [OF h1(4), of h2] h2(1) h1(6) by (auto simp: arrays_kept_def)
  have weaker: "fresh ?h1 w \<Longrightarrow> fresh h w" for w
    using h1(2) by (auto simp: fresh_def arrays_kept_def intro: order_trans)
  have "field_fits h2 g (field_of h2 dst (go_name g)) \<and> fresh h (field_of h2 dst (go_name g))
      \<and> content h2 (field_of h2 dst (go_name g)) = content h (field_of h src (go_name g))" if "g \<in> set (f # fs)" for g
    using that at v h1(5) h2(5) old(2) weaker by (cases "g = f") auto
  moreover have "arrays_kept h h2" using arrays_kept_trans [OF kept h2(1)] .
  moreover have "hp_structs h2 p = hp_structs h p" if "p \<noteq> dst" for p using h2(2) h1(3) that by simp
  moreover have "dom (hp_structs h2 dst) = dom (hp_structs h dst) \<union> go_name ` set (f # fs)" using h2(3) h1(3) by auto
  moreover have "hp_structs h2 dst x = hp_structs h dst x" if "x \<notin> go_name ` set (f # fs)" for x
    using h2(4) [of x] h1(3) that by simp
  ultimately have "copied (f # fs) src dst h h2" unfolding copied_def by blast
  then show ?case by (simp add: h1(1) h2_def)
qed

text \<open>
  A copy of a record is a new record with the values of the old one, none of whose slices shares its array with
  anything, and nothing else changes.
\<close>

lemma gen_clone_spec:
  assumes k: "buildMockData t = Some k" and wf: "fields_wf t" and n: "go_names_ok t" and fits: "rec_fits t h src"
  obtains h' where "gen_clone k (Some src) h = (Some (hp_lim h), h')" "hp_lim h < hp_lim h'"
    "\<And>p. p < hp_lim h \<Longrightarrow> hp_structs h' p = hp_structs h p" "\<And>p. p < hp_lim h \<Longrightarrow> hp_arrays h' p = hp_arrays h p"
    "rec_fits t h' (hp_lim h)" "rec_view h' (hp_lim h) = rec_view h src"
    "\<And>x. fresh h (field_of h' (hp_lim h) x) \<or> x \<notin> go_name ` set (t_Fields t)"
proof -
  let ?dst = "hp_lim h"
  define h1 where "h1 = snd (new_struct Map.empty h)"
  have fields: "mk_Fields k = map mock_field (t_Fields t)" using k by (auto simp: buildMockData_def split: option.splits)
  have h1: "hp_lim h1 = Suc (hp_lim h)" "hp_arrays h1 = hp_arrays h" "hp_structs h1 = (hp_structs h)(?dst := Map.empty)"
    "new_struct Map.empty h = (?dst, h1)"
    by (simp_all add: h1_def new_struct_def)
  have kept: "arrays_kept h h1" by (simp add: arrays_kept_def h1)
  have src: "src \<noteq> ?dst" "field_of h1 src x = field_of h src x" for x
    using fits by (auto simp: rec_fits_def field_of_def h1)
  have rep: "\<forall>f \<in> set (t_Fields t). \<not> fi_IsRepeated f" using wf by (simp add: fields_wf_def)
  have dist: "distinct (map go_name (t_Fields t))" using n by (simp add: go_names_ok_def)
  have ok: "\<forall>f \<in> set (t_Fields t). field_fits h1 f (field_of h1 src (go_name f))"
    using fits field_kept(1) [OF _ kept] by (simp add: rec_fits_def src(2))
  define h' where "h' = fold (\<lambda>f. exec_copy src ?dst (mf_CopyLines (mock_field f))) (t_Fields t) h1"
  have "copied (t_Fields t) src ?dst h1 h'"
    unfolding h'_def by (rule copy_fields_spec [OF rep src(1) dist ok])
  then have h': "arrays_kept h1 h'" "\<And>p. p \<noteq> ?dst \<Longrightarrow> hp_structs h' p = hp_structs h1 p"
    "dom (hp_structs h' ?dst) = dom (hp_structs h1 ?dst) \<union> go_name ` set (t_Fields t)"
    "\<And>f. f \<in> set (t_Fields t) \<Longrightarrow> field_fits h' f (field_of h' ?dst (go_name f)) \<and> fresh h1 (field_of h' ?dst (go_name f))
      \<and> content h' (field_of h' ?dst (go_name f)) = content h1 (field_of h1 src (go_name f))"
    unfolding copied_def by blast+
  have dom: "dom (hp_structs h' ?dst) = go_name ` set (t_Fields t)" using h'(3) by (simp add: h1(3))
  have old: "content h1 (field_of h1 src (go_name f)) = content h (field_of h src (go_name f))" if "f \<in> set (t_Fields t)" for f
  proof -
    have "field_fits h f (field_of h src (go_name f))" using fits that by (simp add: rec_fits_def)
    from field_kept(2) [OF this kept] show ?thesis unfolding src(2) .
  qed
  show ?thesis
  proof (rule that [of h'])
    show "gen_clone k (Some src) h = (Some ?dst, h')"
      by (simp add: gen_clone_def h1(4) fields fold_map comp_def h'_def)
    show "hp_lim h < hp_lim h'" using h'(1) h1(1) by (simp add: arrays_kept_def)
    show "hp_structs h' p = hp_structs h p" "hp_arrays h' p = hp_arrays h p" if "p < hp_lim h" for p
      using h'(1,2) h1 that by (auto simp: arrays_kept_def)
    show "rec_fits t h' ?dst"
      using h'(1,4) dom h1(1) by (auto simp: rec_fits_def arrays_kept_def)
    show "rec_view h' ?dst = rec_view h src"
    proof
      fix x
      show "rec_view h' ?dst x = rec_view h src x"
      proof (cases "x \<in> go_name ` set (t_Fields t)")
        case True
        then obtain f where f: "f \<in> set (t_Fields t)" "x = go_name f" by auto
        have "x \<in> dom (hp_structs h' ?dst)" "x \<in> dom (hp_structs h src)"
          using True dom fits by (auto simp: rec_fits_def)
        with h'(4) [OF f(1)] old [OF f(1)] f(2) show ?thesis by (auto simp: rec_view_def field_of_def)
      next
        case False
        then have "hp_structs h' ?dst x = None" "hp_structs h src x = None"
          using dom fits by (auto simp: rec_fits_def domIff)
        then show ?thesis by (simp add: rec_view_def)
      qed
    qed
    show "fresh h (field_of h' ?dst x) \<or> x \<notin> go_name ` set (t_Fields t)" for x
      using h'(4) h1(1) by (auto simp: fresh_def dest: Suc_leD)
  qed
qed

section \<open>The mock and its client\<close>

datatype mock_op = MCreate "go_struct option" | MUpdate "go_struct option" | MDelete go_value | MGet go_value
datatype mock_res = MErr "go_error option" | MRow "go_struct option"

text \<open>
  A client calls the mock with pointers it holds, and between the calls writes anything to the records and arrays it
  holds: those it allocated itself and those a call of \<open>Get\<close> allocated for it (\<open>own\<close>).  A call is labelled with the
  values behind its pointers at the time of the call.
\<close>

inductive mock_act ::
  "TableIR \<Rightarrow> mockData \<Rightarrow> (heap \<times> mock_map) \<times> nat set \<Rightarrow> (mock_op \<times> mock_res) option
    \<Rightarrow> (heap \<times> mock_map) \<times> nat set \<Rightarrow> bool"
  for t k where
  create: "(\<And>p. record = Some p \<Longrightarrow> p \<in> own \<and> rec_fits t (fst s) p) \<Longrightarrow> gen_mock_Create k record s = (s', err)
    \<Longrightarrow> mock_act t k (s, own) (Some (MCreate (map_option (rec_view (fst s)) record), MErr err)) (s', own)"
| update: "(\<And>p. record = Some p \<Longrightarrow> p \<in> own \<and> rec_fits t (fst s) p) \<Longrightarrow> gen_mock_Update k record s = (s', err)
    \<Longrightarrow> mock_act t k (s, own) (Some (MUpdate (map_option (rec_view (fst s)) record), MErr err)) (s', own)"
| delete: "has_type (mk_PKGoType k) i \<Longrightarrow> gen_mock_Delete k i s = (s', err)
    \<Longrightarrow> mock_act t k (s, own) (Some (MDelete i, MErr err)) (s', own)"
| fetch: "has_type (mk_PKGoType k) i \<Longrightarrow> gen_mock_Get k i s = (s', Inr r)
    \<Longrightarrow> mock_act t k (s, own) (Some (MGet i, MRow (map_option (rec_view (fst s')) r)))
      (s', own \<union> {hp_lim (fst s)..<hp_lim (fst s')})"
| write_struct: "p \<in> own \<Longrightarrow> mock_act t k ((h, data), own) None ((h\<lparr>hp_structs := (hp_structs h)(p := m)\<rparr>, data), own)"
| write_array: "p \<in> own \<Longrightarrow> mock_act t k ((h, data), own) None ((h\<lparr>hp_arrays := (hp_arrays h)(p := xs)\<rparr>, data), own)"
| alloc: "mock_act t k ((h, data), own) None ((h\<lparr>hp_lim := Suc (hp_lim h)\<rparr>, data), insert (hp_lim h) own)"

inductive mock_hist ::
  "TableIR \<Rightarrow> mockData \<Rightarrow> (heap \<times> mock_map) \<times> nat set \<Rightarrow> (mock_op \<times> mock_res) list
    \<Rightarrow> (heap \<times> mock_map) \<times> nat set \<Rightarrow> bool"
  for t k where
  stop: "mock_hist t k s [] s"
| call: "mock_act t k s (Some c) s1 \<Longrightarrow> mock_hist t k s1 cs s2 \<Longrightarrow> mock_hist t k s (c # cs) s2"
| client: "mock_act t k s None s1 \<Longrightarrow> mock_hist t k s1 cs s2 \<Longrightarrow> mock_hist t k s cs s2"

text \<open>What the mock promises: a map of values.\<close>

definition spec_put :: "mockData \<Rightarrow> go_struct \<Rightarrow> (go_value \<rightharpoonup> go_struct) \<Rightarrow> (go_value \<rightharpoonup> go_struct)" where
  "spec_put k r m = m(the (r (mk_PKGoName k)) \<mapsto> r)"

fun spec_step :: "mockData \<Rightarrow> mock_op \<Rightarrow> (go_value \<rightharpoonup> go_struct) \<Rightarrow> (go_value \<rightharpoonup> go_struct) \<times> mock_res" where
  "spec_step k (MCreate None) m = (m, MErr (Some (ErrorMsg (''sqlitex: cannot create nil '' @ mk_EntityName k))))"
| "spec_step k (MCreate (Some r)) m =
     (if m (the (r (mk_PKGoName k))) \<noteq> None
      then (m, MErr (Some (ErrorMsg (''sqlitex: '' @ mk_EntityName k @ '' already exists''))))
      else (spec_put k r m, MErr None))"
| "spec_step k (MUpdate None) m = (m, MErr (Some (ErrorMsg (''sqlitex: cannot update nil '' @ mk_EntityName k))))"
| "spec_step k (MUpdate (Some r)) m =
     (if m (the (r (mk_PKGoName k))) = None
      then (m, MErr (Some (ErrorMsg (''sqlitex: '' @ mk_EntityName k @ '' not found''))))
      else (spec_put k r m, MErr None))"
| "spec_step k (MDelete i) m = (m(i := None), MErr None)"
| "spec_step k (MGet i) m = (m, MRow (m i))"

fun spec_results :: "mockData \<Rightarrow> mock_op list \<Rightarrow> (go_value \<rightharpoonup> go_struct) \<Rightarrow> mock_res list" where
  "spec_results k [] m = []"
| "spec_results k (op # ops) m = (let (m', r) = spec_step k op m in r # spec_results k ops m')"

section \<open>The mock's own memory\<close>

text \<open>A record of the mock and its slices are out of the client's reach.\<close>

definition guarded :: "TableIR \<Rightarrow> nat set \<Rightarrow> heap \<Rightarrow> nat \<Rightarrow> bool" where
  "guarded t own h p \<longleftrightarrow> rec_fits t h p \<and> p \<notin> own
     \<and> (\<forall>f \<in> set (t_Fields t). \<forall>a. field_of h p (go_name f) = HSlice (Some a) \<longrightarrow> a \<notin> own)"

text \<open>\<open>outside own h h'\<close>: nothing outside \<open>own\<close> has changed.\<close>

definition outside :: "nat set \<Rightarrow> heap \<Rightarrow> heap \<Rightarrow> bool" where
  "outside own h h' \<longleftrightarrow> hp_lim h \<le> hp_lim h'
     \<and> (\<forall>p < hp_lim h. p \<notin> own \<longrightarrow> hp_structs h' p = hp_structs h p \<and> hp_arrays h' p = hp_arrays h p)"

lemma guarded_outside:
  assumes g: "guarded t own h p" and o: "outside own h h'" and own: "own' \<inter> {..<hp_lim h} \<subseteq> own"
  shows "guarded t own' h' p" and "rec_view h' p = rec_view h p"
proof -
  have p: "p < hp_lim h" "p \<notin> own" "hp_structs h' p = hp_structs h p" "p < hp_lim h'"
    using g o by (auto simp: guarded_def rec_fits_def outside_def)
  then have fo: "field_of h' p x = field_of h p x" for x by (simp add: field_of_def)
  have ok: "field_fits h' f (field_of h p (go_name f)) \<and> content h' (field_of h p (go_name f)) = content h (field_of h p (go_name f))
      \<and> (\<forall>a. field_of h p (go_name f) = HSlice (Some a) \<longrightarrow> a \<notin> own')" if f: "f \<in> set (t_Fields t)" for f
  proof -
    let ?v = "field_of h p (go_name f)"
    have fits: "field_fits h f ?v" "\<And>a. ?v = HSlice (Some a) \<Longrightarrow> a \<notin> own"
      using g f by (auto simp: guarded_def rec_fits_def)
    show ?thesis
    proof (cases "\<exists>a. ?v = HSlice (Some a)")
      case True
      then obtain a where a: "?v = HSlice (Some a)" by blast
      have "a < hp_lim h" using fits(1) by (auto simp: field_fits_def a split: if_splits)
      with a fits(2) o own have "hp_arrays h' a = hp_arrays h a" "a < hp_lim h'" "a \<notin> own'"
        by (auto simp: outside_def)
      with fits(1) show ?thesis by (auto simp: a field_fits_def split: if_splits)
    next
      case False
      with fits(1) show ?thesis by (cases ?v) (auto simp: field_fits_def split: if_splits option.splits)
    qed
  qed
  show "guarded t own' h' p"
    using g p own ok by (auto simp: guarded_def rec_fits_def fo)
  show "rec_view h' p = rec_view h p"
  proof
    fix x
    show "rec_view h' p x = rec_view h p x"
    proof (cases "x \<in> go_name ` set (t_Fields t)")
      case True
      then obtain f where "f \<in> set (t_Fields t)" "x = go_name f" by auto
      with ok [of f] show ?thesis by (cases "hp_structs h p x") (auto simp: rec_view_def p(3) field_of_def)
    next
      case False
      then have "hp_structs h p x = None" using g by (auto simp: guarded_def rec_fits_def)
      then show ?thesis by (simp add: rec_view_def p(3))
    qed
  qed
qed

definition mock_inv :: "TableIR \<Rightarrow> mockData \<Rightarrow> (heap \<times> mock_map) \<times> nat set \<Rightarrow> bool" where
  "mock_inv t k s \<longleftrightarrow>
     (case s of ((h, data), own) \<Rightarrow>
        own \<subseteq> {..<hp_lim h} \<and> distinct (map fst data)
      \<and> (\<forall>e \<in> set data. has_type (mk_PKGoType k) (fst e) \<and> guarded t own h (snd e)))"

text \<open>The values the mock holds.\<close>

definition mock_abs :: "heap \<times> mock_map \<Rightarrow> (go_value \<rightharpoonup> go_struct)" where
  "mock_abs s = map_option (rec_view (fst s)) \<circ> map_of (snd s)"

lemma equal_keys:
  assumes "ty \<in> exact_types" and "has_type ty a" and "has_type ty b"
  shows "gen_op ty ''='' a b \<longleftrightarrow> a = b"
proof -
  have sint64: "sint v = sint w \<longleftrightarrow> v = w" for v w :: "64 word" by (auto intro: signed_word_eqI)
  have sint32: "sint v = sint w \<longleftrightarrow> v = w" for v w :: "32 word" by (auto intro: signed_word_eqI)
  have "ty = ''string'' \<or> ty = ''bool'' \<or> ty = ''int32'' \<or> ty = ''uint32'' \<or> ty = ''int64'' \<or> ty = ''uint64''"
    using assms(1) unfolding exact_types_def by (simp only: insert_iff empty_iff simp_thms disj_ac)
  then show ?thesis
    using assms(2,3)
    by (elim disjE) (auto simp: has_types gen_op_def number_op_def int_key_def sint32 sint64 simp flip: word_uint_eq_iff)
qed

lemma map_get_of:
  assumes "mk_PKGoType k \<in> exact_types" and "has_type (mk_PKGoType k) i"
    and "\<forall>e \<in> set data. has_type (mk_PKGoType k) (fst e)"
  shows "map_get k i data = map_of data i" and "map_delete k i data = filter (\<lambda>e. fst e \<noteq> i) data"
    and "map_put k i p data = (if map_of data i = None then data @ [(i, p)] else map (\<lambda>e. if fst e = i then (i, p) else e) data)"
proof -
  have key: "key_eq k i e \<longleftrightarrow> fst e = i" if "e \<in> set data" for e
    using assms that by (simp add: key_eq_def equal_keys)
  have "find (key_eq k i) data = map_option (\<lambda>p. (i, p)) (map_of data i)"
    using key by (induction data) (auto simp: map_of_Cons_code split: if_splits)
  then show get: "map_get k i data = map_of data i" by (simp add: map_get_def option.map_comp comp_def option.map_ident)
  show "map_delete k i data = filter (\<lambda>e. fst e \<noteq> i) data" unfolding map_delete_def by (rule filter_cong) (simp_all add: key)
  show "map_put k i p data = (if map_of data i = None then data @ [(i, p)] else map (\<lambda>e. if fst e = i then (i, p) else e) data)"
    unfolding map_put_def get by (simp add: key cong: map_cong)
qed

lemma map_of_put:
  "map_of (if map_of data i = None then data @ [(i, p)] else map (\<lambda>e. if fst e = i then (i, p) else e) data)
    = (map_of data)(i \<mapsto> p)"
proof -
  have "map_of (map (\<lambda>e. if fst e = i then (i, p) else e) data) j
      = (if j = i then (if map_of data i = None then None else Some p) else map_of data j)" for j
    by (induction data) auto
  moreover have "map_of (data @ [(i, p)]) = (map_of data)(i \<mapsto> p)" if "map_of data i = None"
    using that by (auto simp: map_add_def fun_eq_iff split: option.split)
  ultimately show ?thesis by (auto simp: fun_eq_iff)
qed

lemma keys_put:
  assumes "distinct (map fst data)"
  shows "distinct (map fst (if map_of data i = None then data @ [(i, p)] else map (\<lambda>e. if fst e = i then (i, p) else e) data))"
proof -
  have keys: "map fst (map (\<lambda>e. if fst e = i then (i, p) else e) data) = map fst data" by (induction data) auto
  show ?thesis
  proof (cases "map_of data i = None")
    case True
    with assms show ?thesis by (simp add: map_of_eq_None_iff)
  next
    case False
    with assms show ?thesis by (simp only: if_False keys)
  qed
qed

lemma map_of_filter_key: "map_of (filter (\<lambda>e. fst e \<noteq> i) data) = (map_of data)(i := None)"
  by (induction data) (auto simp: fun_eq_iff)

text \<open>A change outside the mock's memory changes neither its invariant nor its values.\<close>

lemma mock_inv_outside:
  assumes inv: "mock_inv t k ((h, data), own)" and o: "outside own h h'" and own: "own' \<inter> {..<hp_lim h} \<subseteq> own"
    and lim: "own' \<subseteq> {..<hp_lim h'}"
  shows "mock_inv t k ((h', data), own')" and "mock_abs (h', data) = mock_abs (h, data)"
proof -
  have g: "guarded t own' h' (snd e)" "rec_view h' (snd e) = rec_view h (snd e)" if "e \<in> set data" for e
    using guarded_outside [OF _ o own, of t "snd e"] inv that by (auto simp: mock_inv_def)
  show "mock_inv t k ((h', data), own')" using inv lim g(1) by (simp add: mock_inv_def)
  show "mock_abs (h', data) = mock_abs (h, data)"
  proof
    fix i
    show "mock_abs (h', data) i = mock_abs (h, data) i"
      using g(2) by (cases "map_of data i") (auto simp: mock_abs_def dest!: map_of_SomeD)
  qed
qed

section \<open>One step\<close>

lemma pk_field:
  assumes k: "buildMockData t = Some k" and wf: "fields_wf t" and ex: "mk_PKGoType k \<in> exact_types"
    and fits: "rec_fits t h p"
  shows "has_type (mk_PKGoType k) (pk_of k h p)" and "rec_view h p (mk_PKGoName k) = Some (pk_of k h p)"
proof -
  obtain f where f: "t_PrimaryKey t = Some f" "mk_PKGoName k = go_name f" "mk_PKGoType k = fi_GoType f"
    using k by (auto simp: buildMockData_def split: option.splits)
  have "f \<in> set (filter fi_IsPrimaryKey (t_Fields t))" using wf f(1) by (simp add: fields_wf_def)
  then have mem: "f \<in> set (t_Fields t)" by simp
  then have "protoTypeToGo (fi_ProtoType f) = Inr (fi_GoType f)" using wf by (simp add: fields_wf_def)
  then have "fi_ProtoType f \<noteq> TYPE_BYTES" using ex f(3) by (auto simp: exact_types_def)
  moreover have "field_fits h f (field_of h p (go_name f))" "hp_structs h p (go_name f) \<noteq> None"
    using fits mem by (auto simp: rec_fits_def)
  ultimately obtain g where "hp_structs h p (go_name f) = Some (HScalar g)" "has_type (fi_GoType f) g"
    by (auto simp: field_fits_def field_of_def)
  then show "has_type (mk_PKGoType k) (pk_of k h p)" "rec_view h p (mk_PKGoName k) = Some (pk_of k h p)"
    by (simp_all add: pk_of_def f(2,3) field_of_def rec_view_def)
qed

lemma clone_guarded:
  assumes k: "buildMockData t = Some k" and wf: "fields_wf t" and n: "go_names_ok t"
    and fits: "rec_fits t h p" and own: "own \<subseteq> {..<hp_lim h}"
  obtains h' where "gen_clone k (Some p) h = (Some (hp_lim h), h')" "outside {} h h'"
    "guarded t own h' (hp_lim h)" "rec_view h' (hp_lim h) = rec_view h p"
proof -
  obtain h' where h': "gen_clone k (Some p) h = (Some (hp_lim h), h')" "hp_lim h < hp_lim h'"
    "\<And>p. p < hp_lim h \<Longrightarrow> hp_structs h' p = hp_structs h p" "\<And>p. p < hp_lim h \<Longrightarrow> hp_arrays h' p = hp_arrays h p"
    "rec_fits t h' (hp_lim h)" "rec_view h' (hp_lim h) = rec_view h p"
    "\<And>x. fresh h (field_of h' (hp_lim h) x) \<or> x \<notin> go_name ` set (t_Fields t)"
    using gen_clone_spec [OF k wf n fits] by metis
  have "a \<notin> own" if "f \<in> set (t_Fields t)" "field_of h' (hp_lim h) (go_name f) = HSlice (Some a)" for f a
    using h'(7) [of "go_name f"] that own by (auto simp: fresh_def)
  then have "guarded t own h' (hp_lim h)" using h'(5) own by (auto simp: guarded_def)
  with h' show ?thesis by (intro that) (auto simp: outside_def)
qed

lemma mock_store_sim:
  assumes k: "buildMockData t = Some k" and wf: "fields_wf t" and n: "go_names_ok t" and ex: "mk_PKGoType k \<in> exact_types"
    and inv: "mock_inv t k ((h, data), own)" and fits: "rec_fits t h p"
  shows "mock_inv t k (gen_mock_store k p (h, data), own)"
    and "mock_abs (gen_mock_store k p (h, data)) = spec_put k (rec_view h p) (mock_abs (h, data))"
proof -
  let ?i = "pk_of k h p" and ?c = "hp_lim h"
  have own: "own \<subseteq> {..<hp_lim h}" "\<forall>e \<in> set data. has_type (mk_PKGoType k) (fst e)" "distinct (map fst data)"
    using inv by (simp_all add: mock_inv_def)
  obtain h' where h': "gen_clone k (Some p) h = (Some ?c, h')" "outside {} h h'"
    "guarded t own h' ?c" "rec_view h' ?c = rec_view h p"
    by (rule clone_guarded [OF k wf n fits own(1)])
  note pk = pk_field [OF k wf ex fits]
  note put = map_get_of(3) [OF ex pk(1) own(2), of ?c]
  have st: "gen_mock_store k p (h, data) = (h', map_put k ?i ?c data)"
    by (simp add: gen_mock_store_def h'(1))
  have o: "outside own h h'" "own \<subseteq> {..<hp_lim h'}" using h'(2) own(1) by (auto simp: outside_def)
  note old = mock_inv_outside [OF inv o(1) _ o(2), simplified]
  have "set (map_put k ?i ?c data) \<subseteq> insert (?i, ?c) (set data)" by (auto simp: put split: if_splits)
  moreover have "distinct (map fst (map_put k ?i ?c data))" unfolding put by (rule keys_put [OF own(3)])
  ultimately show "mock_inv t k (gen_mock_store k p (h, data), own)"
    using old(1) pk(1) h'(3) unfolding st mock_inv_def by auto
  have "map_of (map_put k ?i ?c data) = (map_of data)(?i \<mapsto> ?c)" unfolding put by (rule map_of_put)
  then have "mock_abs (h', map_put k ?i ?c data) = (mock_abs (h', data))(?i \<mapsto> rec_view h p)"
    using h'(4) by (simp add: mock_abs_def fun_eq_iff)
  then show "mock_abs (gen_mock_store k p (h, data)) = spec_put k (rec_view h p) (mock_abs (h, data))"
    by (simp add: st old(2) spec_put_def pk(2))
qed

lemma mock_act_sim:
  assumes k: "buildMockData t = Some k" and wf: "fields_wf t" and n: "go_names_ok t" and ex: "mk_PKGoType k \<in> exact_types"
    and step: "mock_act t k s l s'" and inv: "mock_inv t k s"
  shows "mock_inv t k s' \<and> (case l of None \<Rightarrow> mock_abs (fst s') = mock_abs (fst s)
    | Some (op, r) \<Rightarrow> spec_step k op (mock_abs (fst s)) = (mock_abs (fst s'), r))"
  using step inv
proof (cases rule: mock_act.cases)
  case (create rp own s0 s1 err)
  obtain h data where s0: "s0 = (h, data)" by (cases s0)
  show ?thesis
  proof (cases rp)
    case None
    with create inv show ?thesis by (auto simp: gen_mock_Create_def)
  next
    case (Some p)
    have p: "rec_fits t h p" using create(4) Some s0 by simp
    have typed: "\<forall>e \<in> set data. has_type (mk_PKGoType k) (fst e)" using inv create(1) s0 by (simp add: mock_inv_def)
    note pk = pk_field [OF k wf ex p]
    have old: "map_get k (pk_of k h p) data = None \<longleftrightarrow> mock_abs (h, data) (pk_of k h p) = None"
      by (simp add: map_get_of(1) [OF ex pk(1) typed] mock_abs_def)
    from create inv Some mock_store_sim [OF k wf n ex _ p, of data own] show ?thesis
      by (auto simp: gen_mock_Create_def s0 old pk(2) split: if_splits)
  qed
next
  case (update rp own s0 s1 err)
  obtain h data where s0: "s0 = (h, data)" by (cases s0)
  show ?thesis
  proof (cases rp)
    case None
    with update inv show ?thesis by (auto simp: gen_mock_Update_def)
  next
    case (Some p)
    have p: "rec_fits t h p" using update(4) Some s0 by simp
    have typed: "\<forall>e \<in> set data. has_type (mk_PKGoType k) (fst e)" using inv update(1) s0 by (simp add: mock_inv_def)
    note pk = pk_field [OF k wf ex p]
    have old: "map_get k (pk_of k h p) data = None \<longleftrightarrow> mock_abs (h, data) (pk_of k h p) = None"
      by (simp add: map_get_of(1) [OF ex pk(1) typed] mock_abs_def)
    from update inv Some mock_store_sim [OF k wf n ex _ p, of data own] show ?thesis
      by (auto simp: gen_mock_Update_def s0 old pk(2) split: if_splits)
  qed
next
  case (delete i s0 s1 err own)
  obtain h data where s0: "s0 = (h, data)" by (cases s0)
  have typed: "\<forall>e \<in> set data. has_type (mk_PKGoType k) (fst e)" using inv delete(1) s0 by (simp add: mock_inv_def)
  note del = map_get_of(2) [OF ex delete(4) typed]
  have "distinct (map fst (filter (\<lambda>e. fst e \<noteq> i) data))" if "distinct (map fst data)"
    using that by (simp add: distinct_map_filter)
  with delete inv show ?thesis
    by (auto simp: gen_mock_Delete_def s0 del mock_inv_def mock_abs_def map_of_filter_key fun_eq_iff)
next
  case (fetch i s0 s1 r own)
  obtain h data where s0: "s0 = (h, data)" by (cases s0)
  have inv0: "mock_inv t k ((h, data), own)" using inv fetch(1) s0 by simp
  then have own: "own \<subseteq> {..<hp_lim h}" "\<forall>e \<in> set data. has_type (mk_PKGoType k) (fst e)"
    by (simp_all add: mock_inv_def)
  note find = map_get_of(1) [OF ex fetch(4) own(2)]
  show ?thesis
  proof (cases "map_of data i")
    case None
    with fetch inv show ?thesis by (auto simp: gen_mock_Get_def s0 find mock_abs_def)
  next
    case (Some p)
    then have p: "rec_fits t h p" using inv0 by (auto simp: mock_inv_def guarded_def dest!: map_of_SomeD)
    obtain h' where h': "gen_clone k (Some p) h = (Some (hp_lim h), h')" "outside {} h h'"
      "guarded t own h' (hp_lim h)" "rec_view h' (hp_lim h) = rec_view h p"
      by (rule clone_guarded [OF k wf n p own(1)])
    have s1: "s1 = (h', data)" "r = Some (hp_lim h)"
      using fetch(5) by (simp_all add: gen_mock_Get_def s0 find Some h'(1))
    let ?own = "own \<union> {hp_lim h..<hp_lim h'}"
    have o: "outside own h h'" "?own \<subseteq> {..<hp_lim h'}" "?own \<inter> {..<hp_lim h} \<subseteq> own"
      using h'(2) own(1) by (auto simp: outside_def)
    note new = mock_inv_outside [OF inv0 o(1,3,2)]
    have "mock_abs (h, data) i = Some (rec_view h p)" by (simp add: mock_abs_def Some)
    with fetch new h'(4) show ?thesis by (simp add: s0 s1)
  qed
next
  case (write_struct p own h data m)
  have o: "outside own h (h\<lparr>hp_structs := (hp_structs h)(p := m)\<rparr>)" using write_struct(4) by (auto simp: outside_def)
  from mock_inv_outside [OF _ o, of t k data own] inv write_struct(1-3) show ?thesis by (simp add: mock_inv_def)
next
  case (write_array p own h data xs)
  have o: "outside own h (h\<lparr>hp_arrays := (hp_arrays h)(p := xs)\<rparr>)" using write_array(4) by (auto simp: outside_def)
  from mock_inv_outside [OF _ o, of t k data own] inv write_array(1-3) show ?thesis by (simp add: mock_inv_def)
next
  case (alloc h data own)
  have o: "outside own h (h\<lparr>hp_lim := Suc (hp_lim h)\<rparr>)" by (simp add: outside_def)
  have own: "own \<subseteq> {..<hp_lim h}" using inv alloc(1) by (simp add: mock_inv_def)
  then have "insert (hp_lim h) own \<subseteq> {..<Suc (hp_lim h)}" "insert (hp_lim h) own \<inter> {..<hp_lim h} \<subseteq> own" by auto
  with mock_inv_outside [OF _ o, of t k data "insert (hp_lim h) own"] inv alloc show ?thesis by simp
qed

lemma mock_hist_sim:
  assumes k: "buildMockData t = Some k" and wf: "fields_wf t" and n: "go_names_ok t" and ex: "mk_PKGoType k \<in> exact_types"
  shows "mock_hist t k s cs s' \<Longrightarrow> mock_inv t k s
    \<Longrightarrow> mock_inv t k s' \<and> spec_results k (map fst cs) (mock_abs (fst s)) = map snd cs"
proof (induction rule: mock_hist.induct)
  case (stop s)
  then show ?case by simp
next
  case (call s c s1 cs s2)
  obtain op r where c: "c = (op, r)" by (cases c)
  have "mock_inv t k s1" "spec_step k op (mock_abs (fst s)) = (mock_abs (fst s1), r)"
    using mock_act_sim [OF k wf n ex call.hyps(1) call.prems] by (simp_all add: c)
  with call.IH show ?case by (simp add: c)
next
  case (client s s1 cs s2)
  have "mock_inv t k s1" "mock_abs (fst s1) = mock_abs (fst s)"
    using mock_act_sim [OF k wf n ex client.hyps(1) client.prems] by simp_all
  with client.IH show ?case by simp
qed

section \<open>Properties\<close>


text \<open>A table with a byte-slice key is accepted, and its mock does not compile.\<close>

definition bytes_key_message :: MessageDescriptor where
  "bytes_key_message =
     \<lparr>md_name = ''Doc'',
      md_fields = [(plain_field ''id'' TYPE_BYTES 1)\<lparr>fd_option := Some (field_option\<lparr>fo_primary_key := True\<rparr>)\<rparr>],
      md_table = Some id_table\<rparr>"

definition bytes_key_proto :: FileDescriptor where
  "bytes_key_proto = \<lparr>pf_package = [], pf_go_package = ''docs'', pf_messages = [bytes_key_message]\<rparr>"

lemma bytes_key_mock:
  "case BuildIR [bytes_key_proto] of
     Inr [t] \<Rightarrow> (case buildMockData t of Some k \<Rightarrow> \<not> mock_compiles k | None \<Rightarrow> False) | _ \<Rightarrow> False"
  by code_simp

text \<open>
  Witness: a client stores a record with a byte slice, overwrites the slice and reads the old bytes back.
\<close>

definition blob_mock :: mockData where
  "blob_mock = the (buildMockData blob_table)"

definition blob_heap :: heap where
  "blob_heap = \<lparr>hp_structs = (\<lambda>_. Map.empty)(0 := [''Id'' \<mapsto> HScalar (G64 7), ''Data'' \<mapsto> HSlice (Some 1)]),
     hp_arrays = (\<lambda>_. [])(1 := [HByte 1, HByte 2]), hp_lim = 2\<rparr>"

lemma blob_mock_data:
  "buildMockData blob_table = Some blob_mock" "mk_PKGoType blob_mock = ''int64''" "mk_PKGoName blob_mock = ''Id''"
  "map mf_CopyLines (mk_Fields blob_mock) = [AssignField ''Id'', CopySlice ''Data'' ''[]byte'']"
  "map (\<lambda>f. (go_name f, fi_ProtoType f, fi_GoType f)) (t_Fields blob_table)
    = [(''Id'', TYPE_INT64, ''int64''), (''Data'', TYPE_BYTES, ''[]byte'')]"
  by code_simp+

lemma blob_record: "rec_fits blob_table blob_heap 0" "rec_view blob_heap 0 = blob_row"
proof -
  have names: "go_name ` set (t_Fields blob_table) = {''Id'', ''Data''}"
  proof -
    have "go_name ` set (t_Fields blob_table) = set (map fst (map (\<lambda>f. (go_name f, fi_ProtoType f, fi_GoType f)) (t_Fields blob_table)))"
      by force
    then show ?thesis by (simp only: blob_mock_data) simp
  qed
  have "field_fits blob_heap f (field_of blob_heap 0 (go_name f))" if "f \<in> set (t_Fields blob_table)" for f
  proof -
    have "(go_name f, fi_ProtoType f, fi_GoType f)
        \<in> set (map (\<lambda>f. (go_name f, fi_ProtoType f, fi_GoType f)) (t_Fields blob_table))"
      using that by simp
    then show ?thesis
      unfolding blob_mock_data by (auto simp: field_fits_def field_of_def blob_heap_def has_type_def)
  qed
  then show "rec_fits blob_table blob_heap 0"
    unfolding rec_fits_def names by (auto simp: blob_heap_def split: if_splits)
  show "rec_view blob_heap 0 = blob_row"
    by (auto simp: rec_view_def blob_heap_def blob_row_def fun_eq_iff)
qed

text \<open>The client writes to the slice between the two calls.\<close>

lemma blob_history:
  obtains err x s where "mock_hist blob_table blob_mock ((blob_heap, gen_NewMock), {..<hp_lim blob_heap})
      [(MCreate (Some blob_row), MErr err), (MGet (G64 7), MRow x)] s"
proof -
  let ?own = "{..<hp_lim blob_heap}"
  have mem: "0 \<in> ?own" "1 \<in> ?own" by (simp_all add: blob_heap_def)
  obtain h1 d1 err where s1: "gen_mock_Create blob_mock (Some 0) (blob_heap, gen_NewMock) = ((h1, d1), err)"
    by (metis surj_pair)
  have create: "mock_act blob_table blob_mock ((blob_heap, gen_NewMock), ?own) (Some (MCreate (Some blob_row), MErr err))
      ((h1, d1), ?own)"
    using mock_act.create [of "Some 0" ?own blob_table "(blob_heap, gen_NewMock)" blob_mock, OF _ s1] mem(1) blob_record
    by simp
  let ?h2 = "h1\<lparr>hp_arrays := (hp_arrays h1)(1 := [HByte 9])\<rparr>"
  have "mock_act blob_table blob_mock ((h1, d1), ?own) None ((?h2, d1), ?own)" by (rule mock_act.write_array [OF mem(2)])
  moreover obtain s3 r where s3: "gen_mock_Get blob_mock (G64 7) (?h2, d1) = (s3, Inr r)"
    by (cases "map_get blob_mock (G64 7) d1"; cases "gen_clone blob_mock (map_get blob_mock (G64 7) d1) ?h2")
      (auto simp: gen_mock_Get_def)
  have "has_type (mk_PKGoType blob_mock) (G64 7)" by (simp add: blob_mock_data has_types)
  then have "mock_act blob_table blob_mock ((?h2, d1), ?own) (Some (MGet (G64 7), MRow (map_option (rec_view (fst s3)) r)))
      (s3, ?own \<union> {hp_lim ?h2..<hp_lim (fst s3)})"
    using mock_act.fetch [OF _ s3, of blob_table ?own] by simp
  ultimately obtain s x where "mock_hist blob_table blob_mock ((blob_heap, gen_NewMock), ?own)
      [(MCreate (Some blob_row), MErr err), (MGet (G64 7), MRow x)] s"
    using create by (meson mock_hist.intros)
  then show ?thesis by (rule that)
qed


end
