(* ===== verification/MockStores.thy ===== *)
theory MockStores
  imports MockGen
begin

text \<open>
  The emitted mocks against the rest: for the tables of the test package they are the mocks of the generated file
  (theory \<open>Mock\<close>), and for every accepted table without a TTL field a history that creates only new records,
  updates only stored ones and keeps unique values apart is answered alike by the emitted mock and the emitted store.
\<close>


section \<open>The mocks of the test package\<close>

definition user_mock :: mockData where "user_mock = the (buildMockData user_table)"

definition session_mock :: mockData where "session_mock = the (buildMockData session_table)"

lemma test_mock_data:
  "buildMockData user_table = Some user_mock" "buildMockData session_table = Some session_mock"
  "mk_EntityName user_mock = ''User''" "mk_PKGoName user_mock = ''Id''" "mk_PKGoType user_mock = ''int64''"
  "mk_EntityName session_mock = ''Session''" "mk_PKGoName session_mock = ''Id''" "mk_PKGoType session_mock = ''int64''"
  "mk_HasTTL user_mock = False" "mk_HasTTL session_mock = True"
  "concat (map (copy_lines \<circ> mf_CopyLines) (mk_Fields user_mock))
    = [''dst.Id = src.Id'', ''dst.Name = src.Name'', ''dst.Email = src.Email'', ''dst.CreatedAt = src.CreatedAt'',
       ''dst.Active = src.Active'', ''dst.Bio = src.Bio'']"
  "concat (map (copy_lines \<circ> mf_CopyLines) (mk_Fields session_mock))
    = [''dst.Id = src.Id'', ''dst.Token = src.Token'', ''dst.UserId = src.UserId'', ''dst.Active = src.Active'']"
  by code_simp+

text \<open>The maps of the generated file, as maps of values.\<close>

definition as_mock :: "('r \<Rightarrow> go_struct) \<Rightarrow> (64 word \<rightharpoonup> 'r) \<Rightarrow> (go_value \<rightharpoonup> go_struct)" where
  "as_mock f t i = (case i of G64 w \<Rightarrow> map_option f (t w) | _ \<Rightarrow> None)"

lemma as_mock_simps [simp]:
  "as_mock f t (G64 w) = map_option f (t w)"
  "(as_mock f t)(G64 w := None) = as_mock f (t(w := None))"
  "(as_mock f t)(G64 w \<mapsto> f m) = as_mock f (t(w \<mapsto> m))"
  by (auto simp: as_mock_def fun_eq_iff split: go_value.split)

lemma user_struct_id: "user_struct m ''Id'' = Some (G64 (u_Id m))"
  by (simp add: user_struct_def)

lemma session_struct_id: "session_struct m ''Id'' = Some (G64 (s_Id m))"
  by (simp add: session_struct_def)

lemma mock_steps:
  assumes "mk_EntityName k = e" and "mk_PKGoName k = ''Id''" and "\<And>m. f m ''Id'' = Some (G64 (i m))"
  shows "spec_step k (MCreate (map_option f r)) (as_mock f t)
      = (case r of None \<Rightarrow> (as_mock f t, MErr (Some (ErrorMsg (''sqlitex: cannot create nil '' @ e))))
         | Some m \<Rightarrow> if t (i m) \<noteq> None then (as_mock f t, MErr (Some (ErrorMsg (''sqlitex: '' @ e @ '' already exists''))))
             else (as_mock f (t(i m \<mapsto> m)), MErr None))"
    and "spec_step k (MUpdate (map_option f r)) (as_mock f t)
      = (case r of None \<Rightarrow> (as_mock f t, MErr (Some (ErrorMsg (''sqlitex: cannot update nil '' @ e))))
         | Some m \<Rightarrow> if t (i m) = None then (as_mock f t, MErr (Some (ErrorMsg (''sqlitex: '' @ e @ '' not found''))))
             else (as_mock f (t(i m \<mapsto> m)), MErr None))"
    and "spec_step k (MDelete (G64 w)) (as_mock f t) = (as_mock f (t(w := None)), MErr None)"
    and "spec_step k (MGet (G64 w)) (as_mock f t) = (as_mock f t, MRow (map_option f (t w)))"
  using assms by (simp_all add: spec_put_def split: option.split)

lemmas user_mock_steps = mock_steps [where f = user_struct and i = u_Id, OF test_mock_data(3,4) user_struct_id]

lemmas session_mock_steps = mock_steps [where f = session_struct and i = s_Id, OF test_mock_data(6,7) session_struct_id]

text \<open>
  The mocks of the generated file are what the generator produces: for the tables \<open>BuildIR\<close> computes from
  \<open>testmodels.proto\<close> the emitted copy functions are the lines of the file, and the maps of values the emitted mocks
  keep answer and change as the mocks of the file.
\<close>

theorem generator_reproduces_mocks:
  "\<exists>u s ku ks. BuildIR [testmodels_proto] = Inr [u, s] \<and> buildMockData u = Some ku \<and> buildMockData s = Some ks
    \<and> concat (map (copy_lines \<circ> mf_CopyLines) (mk_Fields ku))
        = [''dst.Id = src.Id'', ''dst.Name = src.Name'', ''dst.Email = src.Email'', ''dst.CreatedAt = src.CreatedAt'',
           ''dst.Active = src.Active'', ''dst.Bio = src.Bio'']
    \<and> concat (map (copy_lines \<circ> mf_CopyLines) (mk_Fields ks))
        = [''dst.Id = src.Id'', ''dst.Token = src.Token'', ''dst.UserId = src.UserId'', ''dst.Active = src.Active'']
    \<and> spec_step ku (MCreate (map_option user_struct r)) (as_mock user_struct t)
        = map_prod (as_mock user_struct) MErr (mock_user_Create r t)
    \<and> spec_step ku (MUpdate (map_option user_struct r)) (as_mock user_struct t)
        = map_prod (as_mock user_struct) MErr (mock_user_Update r t)
    \<and> spec_step ku (MDelete (G64 i)) (as_mock user_struct t) = map_prod (as_mock user_struct) MErr (mock_user_Delete i t)
    \<and> spec_step ku (MGet (G64 i)) (as_mock user_struct t)
        = map_prod (as_mock user_struct) (\<lambda>x. MRow (map_option user_struct (projr x))) (mock_user_Get i t)
    \<and> spec_step ks (MCreate (map_option session_struct q)) (as_mock session_struct v)
        = map_prod (as_mock session_struct) MErr (mock_session_Create q v)
    \<and> spec_step ks (MUpdate (map_option session_struct q)) (as_mock session_struct v)
        = map_prod (as_mock session_struct) MErr (mock_session_Update q v)
    \<and> spec_step ks (MDelete (G64 i)) (as_mock session_struct v)
        = map_prod (as_mock session_struct) MErr (mock_session_Delete i v)
    \<and> spec_step ks (MGet (G64 i)) (as_mock session_struct v)
        = map_prod (as_mock session_struct) (\<lambda>x. MRow (map_option session_struct (projr x))) (mock_session_Get i v)
    \<and> mk_HasTTL ks \<and> snd (gen_mock_PurgeExpired ks s0) = Inr (snd (mock_session_PurgeExpired v))"
proof -
  have user: "(case r of None \<Rightarrow> (as_mock user_struct t, MErr (Some (ErrorMsg (''sqlitex: cannot create nil '' @ ''User''))))
         | Some m \<Rightarrow> if t (u_Id m) \<noteq> None then (as_mock user_struct t, MErr (Some (ErrorMsg (''sqlitex: '' @ ''User'' @ '' already exists''))))
             else (as_mock user_struct (t(u_Id m \<mapsto> m)), MErr None))
      = map_prod (as_mock user_struct) MErr (mock_user_Create r t)"
    "(case r of None \<Rightarrow> (as_mock user_struct t, MErr (Some (ErrorMsg (''sqlitex: cannot update nil '' @ ''User''))))
         | Some m \<Rightarrow> if t (u_Id m) = None then (as_mock user_struct t, MErr (Some (ErrorMsg (''sqlitex: '' @ ''User'' @ '' not found''))))
             else (as_mock user_struct (t(u_Id m \<mapsto> m)), MErr None))
      = map_prod (as_mock user_struct) MErr (mock_user_Update r t)"
    by (simp_all add: mock_user_Create_def mock_user_Update_def split: option.split)
  have session: "(case q of None \<Rightarrow> (as_mock session_struct v, MErr (Some (ErrorMsg (''sqlitex: cannot create nil '' @ ''Session''))))
         | Some m \<Rightarrow> if v (s_Id m) \<noteq> None then (as_mock session_struct v, MErr (Some (ErrorMsg (''sqlitex: '' @ ''Session'' @ '' already exists''))))
             else (as_mock session_struct (v(s_Id m \<mapsto> m)), MErr None))
      = map_prod (as_mock session_struct) MErr (mock_session_Create q v)"
    "(case q of None \<Rightarrow> (as_mock session_struct v, MErr (Some (ErrorMsg (''sqlitex: cannot update nil '' @ ''Session''))))
         | Some m \<Rightarrow> if v (s_Id m) = None then (as_mock session_struct v, MErr (Some (ErrorMsg (''sqlitex: '' @ ''Session'' @ '' not found''))))
             else (as_mock session_struct (v(s_Id m \<mapsto> m)), MErr None))
      = map_prod (as_mock session_struct) MErr (mock_session_Update q v)"
    by (simp_all add: mock_session_Create_def mock_session_Update_def split: option.split)
  have rest: "(as_mock user_struct (t(i := None)), MErr None) = map_prod (as_mock user_struct) MErr (mock_user_Delete i t)"
    "(as_mock user_struct t, MRow (map_option user_struct (t i)))
      = map_prod (as_mock user_struct) (\<lambda>x. MRow (map_option user_struct (projr x))) (mock_user_Get i t)"
    "(as_mock session_struct (v(i := None)), MErr None)
      = map_prod (as_mock session_struct) MErr (mock_session_Delete i v)"
    "(as_mock session_struct v, MRow (map_option session_struct (v i)))
      = map_prod (as_mock session_struct) (\<lambda>x. MRow (map_option session_struct (projr x))) (mock_session_Get i v)"
    by (simp_all add: mock_user_Delete_def mock_user_Get_def mock_session_Delete_def mock_session_Get_def split: option.split)
  have purge: "snd (gen_mock_PurgeExpired session_mock s0) = Inr (snd (mock_session_PurgeExpired v))"
    by (simp add: gen_mock_PurgeExpired_def mock_session_PurgeExpired_def)
  show ?thesis
    by (rule exI [of _ user_table], rule exI [of _ session_table], rule exI [of _ user_mock], rule exI [of _ session_mock])
       (simp only: BuildIR_testmodels test_mock_data user_mock_steps session_mock_steps user session rest purge simp_thms)
qed

section \<open>The mock and the store\<close>

fun gen_store_step ::
  "('p, 'b, 'i) platform \<Rightarrow> float_texts \<Rightarrow> storeData \<Rightarrow> serializerData \<Rightarrow> mock_op \<Rightarrow> 'p DB \<Rightarrow> ('p DB \<times> mock_res) option" where
  "gen_store_step E F x d (MCreate r) h = map_option (map_prod id MErr) (gen_Create E F x d r h)"
| "gen_store_step E F x d (MUpdate r) h = map_option (map_prod id MErr) (gen_Update E F x d r h)"
| "gen_store_step E F x d (MDelete i) h = map_option (map_prod id MErr) (gen_Delete E F x d i h)"
| "gen_store_step E F x d (MGet i) h =
     map_option (map_prod id (\<lambda>r. case r of Inl e \<Rightarrow> MErr (Some e) | Inr v \<Rightarrow> MRow v)) (gen_Get E F x d i h)"

fun gen_store_run ::
  "('p, 'b, 'i) platform \<Rightarrow> float_texts \<Rightarrow> storeData \<Rightarrow> serializerData \<Rightarrow> mock_op list \<Rightarrow> 'p DB
    \<Rightarrow> ('p DB \<times> mock_res list) option" where
  "gen_store_run E F x d [] h = Some (h, [])"
| "gen_store_run E F x d (op # ops) h =
     (case gen_store_step E F x d op h of
        None \<Rightarrow> None
      | Some (h1, r) \<Rightarrow> map_option (map_prod id ((#) r)) (gen_store_run E F x d ops h1))"

text \<open>
  The histories a mock can stand in for: they create only new records, update only stored ones, and keep the values
  of unique fields apart.
\<close>

definition value_taken :: "float_texts \<Rightarrow> storeData \<Rightarrow> (go_value \<rightharpoonup> go_struct) \<Rightarrow> go_struct \<Rightarrow> bool" where
  "value_taken F x m r \<longleftrightarrow>
     (\<exists>f \<in> set (st_UniqueFields x). \<exists>j q. m j = Some q \<and> j \<noteq> the (r (st_PKGoName x)) \<and> index_value F q f = index_value F r f)"

fun fair_op :: "float_texts \<Rightarrow> storeData \<Rightarrow> serializerData \<Rightarrow> mock_op \<Rightarrow> (go_value \<rightharpoonup> go_struct) \<Rightarrow> bool" where
  "fair_op F x d (MCreate (Some r)) m =
     (struct_ok (sd_Fields d) r \<and> m (the (r (st_PKGoName x))) = None \<and> \<not> value_taken F x m r)"
| "fair_op F x d (MUpdate (Some r)) m =
     (struct_ok (sd_Fields d) r \<and> m (the (r (st_PKGoName x))) \<noteq> None \<and> \<not> value_taken F x m r)"
| "fair_op F x d (MDelete i) m = has_type (st_PKGoType x) i"
| "fair_op F x d (MGet i) m = has_type (st_PKGoType x) i"
| "fair_op F x d _ m = True"

fun fair :: "float_texts \<Rightarrow> storeData \<Rightarrow> serializerData \<Rightarrow> mockData \<Rightarrow> mock_op list \<Rightarrow> (go_value \<rightharpoonup> go_struct) \<Rightarrow> bool" where
  "fair F x d k [] m = True"
| "fair F x d k (op # ops) m = (fair_op F x d op m \<and> fair F x d k ops (fst (spec_step k op m)))"

lemma encodePrimaryKey_inj:
  assumes "st_PKGoType x \<in> exact_types" and "has_type (st_PKGoType x) a" and "has_type (st_PKGoType x) b"
  shows "encodePrimaryKey F x a = encodePrimaryKey F x b \<longleftrightarrow> a = b"
proof -
  have "st_PKGoType x = ''string'' \<or> st_PKGoType x = ''bool'' \<or> st_PKGoType x = ''int32'' \<or> st_PKGoType x = ''uint32''
      \<or> st_PKGoType x = ''int64'' \<or> st_PKGoType x = ''uint64''"
    using assms(1) unfolding exact_types_def by (simp only: insert_iff empty_iff simp_thms disj_ac)
  moreover have "str_bytes ''true'' \<noteq> str_bytes ''false''" by (simp add: str_bytes_def)
  moreover have "EncodeOrderedInt32 v = EncodeOrderedInt32 w \<longleftrightarrow> v = w" for v w by (metis DecodeOrderedInt32_Encode option.inject)
  moreover have "EncodeOrderedUint32 v = EncodeOrderedUint32 w \<longleftrightarrow> v = w" for v w
    by (metis ordered_decoders append_Nil2 option.inject)
  moreover have "EncodeOrderedUint64 v = EncodeOrderedUint64 w \<longleftrightarrow> v = w" for v w
    by (metis ordered_decoders append_Nil2 option.inject)
  ultimately show ?thesis
    using assms(2,3) by (elim disjE) (auto simp: has_types encodePrimaryKey_def split: if_splits)
qed

text \<open>The stored rows are those of the map of values, each under the encoding of its key.\<close>

definition same_rows :: "float_texts \<Rightarrow> storeData \<Rightarrow> (bytes \<rightharpoonup> go_struct) \<Rightarrow> (go_value \<rightharpoonup> go_struct) \<Rightarrow> bool" where
  "same_rows F x rows m \<longleftrightarrow>
     (\<forall>i q. m i = Some q \<longrightarrow> has_type (st_PKGoType x) i)
   \<and> (\<forall>b q. rows b = Some q \<longleftrightarrow> (\<exists>i. m i = Some q \<and> encodePrimaryKey F x i = b))"

lemma same_rows_at:
  assumes "same_rows F x rows m" and "st_PKGoType x \<in> exact_types" and "has_type (st_PKGoType x) i"
  shows "rows (encodePrimaryKey F x i) = m i"
proof (cases "m i")
  case (Some q)
  with assms(1) show ?thesis by (auto simp: same_rows_def)
next
  case None
  have "rows (encodePrimaryKey F x i) \<noteq> Some q" for q
  proof
    assume "rows (encodePrimaryKey F x i) = Some q"
    with assms(1) obtain j where "m j = Some q" "encodePrimaryKey F x j = encodePrimaryKey F x i"
      by (auto simp: same_rows_def)
    with assms None show False by (auto simp: same_rows_def encodePrimaryKey_inj)
  qed
  then have "rows (encodePrimaryKey F x i) = None" by blast
  with None show ?thesis by simp
qed

lemma same_rows_put:
  assumes "same_rows F x rows m" and "st_PKGoType x \<in> exact_types" and "has_type (st_PKGoType x) i"
  shows "same_rows F x (rows(encodePrimaryKey F x i \<mapsto> r)) (m(i \<mapsto> r))"
  using assms encodePrimaryKey_inj [OF assms(2)] unfolding same_rows_def by (auto split: if_splits)

lemma same_rows_delete:
  assumes "same_rows F x rows m" and "st_PKGoType x \<in> exact_types" and "has_type (st_PKGoType x) i"
  shows "same_rows F x (rows(encodePrimaryKey F x i := None)) (m(i := None))"
  using assms encodePrimaryKey_inj [OF assms(2)] unfolding same_rows_def by (auto split: if_splits)

lemma struct_ok_typed: "struct_ok fs r \<Longrightarrow> \<forall>f \<in> set fs. field_ok f \<Longrightarrow> typed_struct fs r"
  unfolding typed_struct_def
proof (intro ballI)
  fix f assume r: "struct_ok fs r" "\<forall>f \<in> set fs. field_ok f" and f: "f \<in> set fs"
  then have "value_ok f (r (sf_GoName f))" "field_ok f" by (simp_all add: struct_ok_def)
  then show "\<exists>v. r (sf_GoName f) = Some v \<and> has_type (sf_GoType f) v"
    by (auto simp: value_ok_def field_ok_def has_type_def split: option.splits go_value.splits)
qed

lemma pk_typed:
  assumes wf: "fields_wf t" and x: "buildStoreData t = Some x" and typed: "typed_struct (sd_Fields (buildSerializerData t)) r"
  shows "has_type (st_PKGoType x) (the (r (st_PKGoName x)))"
proof -
  obtain f where f: "t_PrimaryKey t = Some f" "st_PKGoName x = go_name f" "st_PKGoType x = fi_GoType f"
    using x by (auto simp: buildStoreData_def Let_def split: option.splits)
  have "f \<in> set (filter fi_IsPrimaryKey (t_Fields t))" using wf f(1) by (simp add: fields_wf_def)
  then have mem: "f \<in> set (t_Fields t)" by simp
  let ?S = "set (map fi_Name (t_CompressibleFields t))"
  have fs: "sd_Fields (buildSerializerData t) = map (ser_field_info ?S) (t_Fields t)"
    by (simp add: buildSerializerData_def Let_def)
  have info: "sf_GoName (ser_field_info ?S f) = go_name f" "sf_GoType (ser_field_info ?S f) = fi_GoType f"
    by (simp_all add: ser_field_info_def Let_def)
  obtain v where "r (sf_GoName (ser_field_info ?S f)) = Some v" "has_type (sf_GoType (ser_field_info ?S f)) v"
    using typed mem unfolding fs typed_struct_def by auto
  then show ?thesis unfolding info f(2,3) by simp
qed

lemma taken_same:
  assumes same: "same_rows F x (gen_rows E x d m) a" and ex: "st_PKGoType x \<in> exact_types"
    and pk: "has_type (st_PKGoType x) (the (r (st_PKGoName x)))"
  shows "gen_taken E F x d m r \<longleftrightarrow> value_taken F x a r"
proof -
  have rows: "gen_rows E x d m b = Some q \<longleftrightarrow> (\<exists>i. a i = Some q \<and> encodePrimaryKey F x i = b)" for b q
    using same by (simp add: same_rows_def)
  have "encodePrimaryKey F x i = gen_rid F x r \<longleftrightarrow> i = the (r (st_PKGoName x))" if "a i = Some q" for i q
    using same that by (simp add: gen_rid_def same_rows_def encodePrimaryKey_inj [OF ex _ pk])
  then show ?thesis unfolding gen_taken_def gen_holder_def value_taken_def rows by metis
qed

text \<open>One operation of the store and of the map of values.\<close>

lemma fair_step:
  assumes acc: "BuildIR files = Inr ts" "t \<in> set ts" "\<not> t_HasTTL t" "d = buildSerializerData t" "compiles d"
    "buildStoreData t = Some x" "numbers_apart x" "zstd_laws E" and w: "writes_ok E"
    and k: "buildMockData t = Some k" and ex: "st_PKGoType x \<in> exact_types"
    and ok: "handle_ok E view pend h" and u: "gen_ok E F x d (db_view view h)"
    and same: "same_rows F x (gen_rows E x d (db_view view h)) m" and fair: "fair_op F x d op m"
  shows "\<exists>h' m' r. gen_store_step E F x d op h = Some (h', r) \<and> spec_step k op m = (m', r)
    \<and> handle_ok E view pend h' \<and> gen_ok E F x d (db_view view h') \<and> same_rows F x (gen_rows E x d (db_view view h')) m'"
proof -
  let ?v = "db_view view h"
  have ttl: "\<not> st_HasTTL x" using acc(3) by (simp add: buildStoreData_fields [OF acc(6)])
  have names: "mk_EntityName k = st_MessageName x" "mk_PKGoName k = st_PKGoName x"
    using k acc(6) by (auto simp: buildMockData_def buildStoreData_def Let_def split: option.splits)
  note wf = accepted_wf [OF acc(1,2)]
  note fields = accepted_fields_ok [OF acc(1,2), folded acc(4)]
  have pk: "has_type (st_PKGoType x) (the (r (st_PKGoName x)))" if "struct_ok (sd_Fields d) r" for r
    using pk_typed [OF wf acc(6)] struct_ok_typed [OF that fields(1)] unfolding acc(4) .
  have save: "\<exists>h'. gen_save what order E F x d r h = Some (h', None) \<and> handle_ok E view pend h' \<and> gen_ok E F x d (db_view view h')
      \<and> same_rows F x (gen_rows E x d (db_view view h')) (spec_put k r m)"
    if r: "struct_ok (sd_Fields d) r" "\<not> value_taken F x m r" and order: "set order = set (st_UniqueFields x @ st_NormalFields x)"
    for what order r
  proof -
    obtain h' err where h': "gen_save what order E F x d r h = Some (h', err)" "handle_ok E view pend h'"
      "gen_ok E F x d (db_view view h')" "gen_save_ok E F x d (db_view view) r h h' err"
      by (rule gen_save_accepted [OF acc ok u r(1) order])
    have "\<not> gen_taken E F x d ?v r" using r(2) taken_same [where r = r, OF same ex pk [OF r(1)]] by simp
    with h'(4) w have "err = None" "gen_rows E x d (db_view view h') = (gen_rows E x d ?v)(gen_rid F x r \<mapsto> r)"
      by (auto simp: gen_save_ok_def split: if_splits)
    with h' same_rows_put [OF same ex pk [OF r(1)], of r] show ?thesis
      by (simp add: spec_put_def names gen_rid_def)
  qed
  have order: "set (st_IndexedFields x) = set (st_UniqueFields x @ st_NormalFields x)"
    using fields_set [OF acc(6)] by (rule sym)
  show ?thesis
  proof (cases op)
    case (MCreate rp)
    show ?thesis
    proof (cases rp)
      case None
      with MCreate ok u same show ?thesis by (simp add: gen_Create_def names)
    next
      case (Some r)
      then obtain h' where "gen_save ''create'' (st_UniqueFields x @ st_NormalFields x) E F x d r h = Some (h', None)"
        "handle_ok E view pend h'" "gen_ok E F x d (db_view view h')"
        "same_rows F x (gen_rows E x d (db_view view h')) (spec_put k r m)"
        using save [of r, OF _ _ refl] fair MCreate by auto
      with MCreate Some fair show ?thesis by (simp add: gen_Create_def names)
    qed
  next
    case (MUpdate rp)
    show ?thesis
    proof (cases rp)
      case None
      with MUpdate ok u same show ?thesis by (simp add: gen_Update_def names)
    next
      case (Some r)
      then obtain h' where "gen_save ''update'' (st_IndexedFields x) E F x d r h = Some (h', None)"
        "handle_ok E view pend h'" "gen_ok E F x d (db_view view h')"
        "same_rows F x (gen_rows E x d (db_view view h')) (spec_put k r m)"
        using save [of r, OF _ _ order] fair MUpdate by auto
      with MUpdate Some fair show ?thesis by (simp add: gen_Update_def names)
    qed
  next
    case (MDelete i)
    obtain h' err where h': "gen_Delete E F x d i h = Some (h', err)" "handle_ok E view pend h'"
      "gen_ok E F x d (db_view view h')"
      "if err = None then gen_rows E x d (db_view view h') = (gen_rows E x d ?v)(encodePrimaryKey F x i := None)
       else db_view view h' = ?v \<and> \<not> writes_ok E"
      by (rule gen_Delete_spec [OF ok u ttl acc(6) refl])
    with w same_rows_delete [OF same ex, of i] fair MDelete show ?thesis by (auto split: if_splits)
  next
    case (MGet i)
    obtain h' where h': "gen_Get E F x d i h = Some (h', Inr (gen_rows E x d ?v (encodePrimaryKey F x i)))"
      "handle_ok E view pend h'" "db_view view h' = ?v"
      by (rule gen_Get_eq [OF ok u ttl])
    with u same same_rows_at [OF same ex, of i] fair MGet show ?thesis by simp
  qed
qed

lemma fair_run:
  assumes acc: "BuildIR files = Inr ts" "t \<in> set ts" "\<not> t_HasTTL t" "d = buildSerializerData t" "compiles d"
    "buildStoreData t = Some x" "numbers_apart x" "zstd_laws E" and w: "writes_ok E"
    and k: "buildMockData t = Some k" and ex: "st_PKGoType x \<in> exact_types"
  shows "handle_ok E view pend h \<Longrightarrow> gen_ok E F x d (db_view view h) \<Longrightarrow> same_rows F x (gen_rows E x d (db_view view h)) m
    \<Longrightarrow> fair F x d k ops m \<Longrightarrow> \<exists>h'. gen_store_run E F x d ops h = Some (h', spec_results k ops m)"
proof (induction ops arbitrary: h m)
  case Nil
  then show ?case by simp
next
  case (Cons op ops)
  obtain h1 m1 r where s: "gen_store_step E F x d op h = Some (h1, r)" "spec_step k op m = (m1, r)"
    "handle_ok E view pend h1" "gen_ok E F x d (db_view view h1)" "same_rows F x (gen_rows E x d (db_view view h1)) m1"
    using fair_step [OF acc w k ex Cons.prems(1-3), of op] Cons.prems(4) by auto
  obtain h2 where "gen_store_run E F x d ops h1 = Some (h2, spec_results k ops m1)"
    using Cons.IH [OF s(3-5)] Cons.prems(4) s(2) by auto
  with s show ?case by simp
qed



end
