(* ===== verification/OutputGen.thy ===== *)
theory OutputGen
  imports MockGen
begin

text \<open>
  The output of the code generator (\<open>internal/codegen/generator.go\<close>, \<open>preamble.go\<close>): the parameters of a request,
  the sections the four templates render for every table, and their joining into one file, where the order of the
  imports is that of a loop over a Go map.  The texts the templates render are parameters, their data is that of the
  theories \<open>SerializerGen\<close>, \<open>StoreGen\<close>, \<open>QueryGen\<close> and \<open>MockGen\<close>.
\<close>


section \<open>Strings of the standard library\<close>

abbreviation nl :: char where "nl \<equiv> CHR 0x0A"
abbreviation tab :: char where "tab \<equiv> CHR 0x09"

text \<open>\<open>strings.TrimSpace\<close> on ASCII text, \<open>strings.Join\<close>, and \<open>strings.SplitN(s, sep, 2)\<close> on a one-byte separator.\<close>

definition is_space :: "char \<Rightarrow> bool" where
  "is_space c \<longleftrightarrow> c \<in> {CHR 0x09, CHR 0x0A, CHR 0x0B, CHR 0x0C, CHR 0x0D, CHR 0x20}"

definition trim_space :: "string \<Rightarrow> string" where
  "trim_space s = rev (dropWhile is_space (rev (dropWhile is_space s)))"

fun join_with :: "string \<Rightarrow> string list \<Rightarrow> string" where
  "join_with sep [] = []"
| "join_with sep [s] = s"
| "join_with sep (s # ss) = s @ sep @ join_with sep ss"

definition split_two :: "char \<Rightarrow> string \<Rightarrow> string list" where
  "split_two c s = (if c \<in> set s then [takeWhile (\<lambda>x. x \<noteq> c) s, tl (dropWhile (\<lambda>x. x \<noteq> c) s)] else [s])"

section \<open>Parameters and requests\<close>

record CodeGeneratorRequest =
  rq_FileToGenerate :: "string list"
  rq_Parameter :: string
  rq_ProtoFile :: "(string \<times> FileDescriptor) list"

record CodeGeneratorResponse =
  rs_Error :: "go_error option"
  rs_File :: "(string \<times> string) list"

definition add_param :: "string \<Rightarrow> (string \<rightharpoonup> string) \<Rightarrow> (string \<rightharpoonup> string)" where
  "add_param kv result =
     (case split_two CHR ''='' (trim_space kv) of
        [k, v] \<Rightarrow> result(k \<mapsto> v)
      | [k] \<Rightarrow> if k \<noteq> [] then result(k \<mapsto> ''true'') else result
      | _ \<Rightarrow> result)"

definition parseParams :: "string \<Rightarrow> (string \<rightharpoonup> string)" where
  "parseParams paramStr = (if paramStr = [] then Map.empty else fold add_param (split_on CHR '','' paramStr) Map.empty)"

definition getSourceFiles :: "CodeGeneratorRequest \<Rightarrow> string \<Rightarrow> string" where
  "getSourceFiles req msgName =
     (case find (\<lambda>f. list_ex (\<lambda>m. md_name m = msgName) (pf_messages (snd f))) (rq_ProtoFile req) of
        None \<Rightarrow> ''unknown.proto''
      | Some f \<Rightarrow> fst f)"

section \<open>Joining the sections\<close>

definition linesOf :: "string \<Rightarrow> string list" where
  "linesOf s = split_on nl s"

text \<open>The lines of an import block up to its closing parenthesis, and the lines after it.\<close>

fun import_block :: "string list \<Rightarrow> string list \<times> string list" where
  "import_block [] = ([], [])"
| "import_block (line # rest) =
     (if trim_space line = '')'' then ([], rest)
      else (let (imports, rest') = import_block rest
            in (if trim_space line \<noteq> [] then trim_space line # imports else imports, rest')))"

definition head_line :: "string \<Rightarrow> bool" where
  "head_line l \<longleftrightarrow> trim_space l = [] \<or> prefix ''package '' (trim_space l)"

definition extractImports :: "string \<Rightarrow> string list \<times> string" where
  "extractImports code =
     (let ls = dropWhile head_line (linesOf code);
          (imports, rest) =
            (case ls of l # ls' \<Rightarrow> if trim_space l = ''import ('' then import_block ls' else ([], ls) | [] \<Rightarrow> ([], ls))
      in (imports, join_with [nl] rest))"

definition preambleBody :: string where
  "preambleBody = join_with [nl]
     ['''',
      ''var ('',
      tab # ''_zstdEnc *zstd.Encoder'',
      tab # ''_zstdDec *zstd.Decoder'',
      '')'',
      '''',
      ''func init() {'',
      tab # ''var err error'',
      tab # ''_zstdEnc, err = zstd.NewWriter(nil, zstd.WithEncoderLevel(zstd.SpeedFastest))'',
      tab # ''if err != nil { panic(err) }'',
      tab # ''_zstdDec, err = zstd.NewReader(nil, zstd.WithDecoderConcurrency(0))'',
      tab # ''if err != nil { panic(err) }'',
      ''}'',
      '''',
      ''func _compressZstd(src []byte) []byte {'',
      tab # ''return _zstdEnc.EncodeAll(src, nil)'',
      ''}'',
      '''',
      ''func _decompressZstd(src []byte) ([]byte, error) {'',
      tab # ''return _zstdDec.DecodeAll(src, nil)'',
      ''}'',
      '''',
      ''func splitWhere(cond string) []string {'',
      tab # ''lastSpace := -1'',
      tab # ''for i := len(cond) - 1; i >= 0; i-- { if cond[i] == ' ' { lastSpace = i; break } }'',
      tab # ''if lastSpace < 0 { return nil }'',
      tab # ''inner := cond[:lastSpace]'',
      tab # ''for i := len(inner) - 1; i >= 0; i-- { if inner[i] == ' ' { return []string{inner[:i], inner[i+1:]} } }'',
      tab # ''return nil'',
      ''}'',
      '''']"

definition GeneratePreamble :: string where "GeneratePreamble = preambleBody"

definition zstd_import :: string where
  "zstd_import = ''zstd \"github.com/klauspost/compress/zstd\"''"

text \<open>
  A Go loop over a map visits its keys in an order of its own: \<open>ord\<close> gives the order of this run.
\<close>

definition map_order :: "(string set \<Rightarrow> string list) \<Rightarrow> bool" where
  "map_order ord \<longleftrightarrow> (\<forall>S. finite S \<longrightarrow> distinct (ord S) \<and> set (ord S) = S)"

definition mergeAllSections :: "(string set \<Rightarrow> string list) \<Rightarrow> string \<Rightarrow> string list \<Rightarrow> string" where
  "mergeAllSections ord pkgName sections =
     (let parts = map extractImports sections;
          importSet = insert zstd_import (set (concat (map fst parts)))
      in ''package '' @ pkgName @ [nl, nl]
         @ (if 1 < card importSet
            then ''import ('' @ [nl] @ concat (map (\<lambda>imp. tab # imp @ [nl]) (ord importSet)) @ '')'' @ [nl, nl]
            else [])
         @ GeneratePreamble @ [nl] @ concat (map (\<lambda>p. snd p @ [nl]) parts))"

section \<open>The response\<close>

text \<open>
  The texts the four templates render from their data, by \<open>text/template\<close>; rendering the query template can fail.
\<close>

record section_texts =
  tx_serializer :: "serializerData \<Rightarrow> string"
  tx_store :: "storeData \<Rightarrow> string"
  tx_query :: "queryData \<Rightarrow> go_error + string"
  tx_mock :: "mockData \<Rightarrow> string"

text \<open>\<open>None\<close>: a table without a primary key makes the generators panic.\<close>

definition table_sections :: "section_texts \<Rightarrow> TableIR \<Rightarrow> (go_error + string list) option" where
  "table_sections T t =
     (case (buildStoreData t, buildQueryData t, buildMockData t) of
        (Some x, Some Q, Some k) \<Rightarrow>
          Some (case tx_query T Q of
                  Inl qerr \<Rightarrow> Inl (ErrorWrap (''generate query for '' @ t_MessageName t @ '': '') qerr)
                | Inr queryCode \<Rightarrow>
                    Inr [tx_serializer T (buildSerializerData t), tx_store T x, queryCode, tx_mock T k])
      | _ \<Rightarrow> None)"

fun all_sections :: "section_texts \<Rightarrow> TableIR list \<Rightarrow> (go_error + string list) option" where
  "all_sections T [] = Some (Inr [])"
| "all_sections T (t # ts) =
     (case table_sections T t of
        None \<Rightarrow> None
      | Some (Inl err) \<Rightarrow> Some (Inl err)
      | Some (Inr secs) \<Rightarrow> map_option (map_sum id ((@) secs)) (all_sections T ts))"

definition package_name :: "CodeGeneratorRequest \<Rightarrow> TableIR \<Rightarrow> string" where
  "package_name req t =
     (let pkg = (case parseParams (rq_Parameter req) ''package'' of None \<Rightarrow> [] | Some v \<Rightarrow> v);
          pkg1 = (if pkg = [] then t_GoPackage t else pkg)
      in if pkg1 = [] then ''generated'' else pkg1)"

definition file_content :: "string \<Rightarrow> string \<Rightarrow> string" where
  "file_content source merged =
     ''// Code generated by protoc-gen-sqlitex. DO NOT EDIT.'' @ [nl] @ ''// source: '' @ source @ [nl, nl] @ merged @ [nl]"

definition GenerateResponse ::
  "(string set \<Rightarrow> string list) \<Rightarrow> section_texts \<Rightarrow> CodeGeneratorRequest \<Rightarrow> CodeGeneratorResponse option" where
  "GenerateResponse ord T req =
     (case BuildIR (map snd (rq_ProtoFile req)) of
        Inl err \<Rightarrow> Some \<lparr>rs_Error = Some (ErrorWrap ''build IR: '' err), rs_File = []\<rparr>
      | Inr [] \<Rightarrow> Some \<lparr>rs_Error = None, rs_File = []\<rparr>
      | Inr (t # ts) \<Rightarrow>
          (let pkgName = package_name req t;
               tables = map (\<lambda>t. t\<lparr>t_GoPackage := pkgName\<rparr>) (t # ts)
           in case all_sections T tables of
                None \<Rightarrow> None
              | Some (Inl err) \<Rightarrow> Some \<lparr>rs_Error = Some err, rs_File = []\<rparr>
              | Some (Inr sections) \<Rightarrow>
                  Some \<lparr>rs_Error = None,
                    rs_File = [(t_MessageName t @ ''_sqlitex.go'',
                      file_content (getSourceFiles req (t_MessageName t)) (mergeAllSections ord pkgName sections))]\<rparr>))"

section \<open>Splitting and joining\<close>

lemma split_on_nonempty [simp]: "split_on c s \<noteq> []"
  by (induction s) (simp_all split: list.split)

lemma split_on_absent: "c \<notin> set s \<Longrightarrow> split_on c s = [s]"
  by (induction s) auto

lemma split_on_append: "c \<notin> set s \<Longrightarrow> split_on c (s @ c # r) = s # split_on c r"
  by (induction s) auto

lemma split_on_hit: "split_on c (c # s) = [] # split_on c s"
  by simp

lemma join_split: "join_with [c] (split_on c s) = s"
proof (induction s)
  case (Cons x s)
  then show ?case by (cases "split_on c s"; cases "tl (split_on c s)") auto
qed simp

lemma join_Cons: "ls \<noteq> [] \<Longrightarrow> join_with sep (l # ls) = l @ sep @ join_with sep ls"
  by (cases ls) simp_all

lemma split_join:
  "ls \<noteq> [] \<Longrightarrow> \<forall>l \<in> set ls. c \<notin> set l \<Longrightarrow> split_on c (join_with [c] ls) = ls"
proof (induction ls)
  case (Cons l ls)
  show ?case
  proof (cases "ls = []")
    case False
    with Cons show ?thesis by (simp add: join_Cons split_on_append)
  qed (use Cons in \<open>simp add: split_on_absent\<close>)
qed simp

lemma split_two_pair: "c \<notin> set k \<Longrightarrow> split_two c (k @ c # v) = [k, v]"
  by (induction k) (auto simp: split_two_def)

section \<open>Parameters\<close>

text \<open>A parameter is a flag or a key with its value.\<close>

definition param_text :: "string \<times> string option \<Rightarrow> string" where
  "param_text p = (case snd p of None \<Rightarrow> fst p | Some v \<Rightarrow> fst p @ ''='' @ v)"

definition param_ok :: "string \<times> string option \<Rightarrow> bool" where
  "param_ok p \<longleftrightarrow> CHR '','' \<notin> set (param_text p) \<and> CHR ''='' \<notin> set (fst p) \<and> fst p \<noteq> []
     \<and> trim_space (param_text p) = param_text p"

definition param_value :: "string \<times> string option \<Rightarrow> string \<times> string" where
  "param_value p = (fst p, case snd p of None \<Rightarrow> ''true'' | Some v \<Rightarrow> v)"

lemma add_param_text: "param_ok p \<Longrightarrow> add_param (param_text p) m = m(fst (param_value p) \<mapsto> snd (param_value p))"
proof -
  assume p: "param_ok p"
  obtain k v where kv: "p = (k, v)" by (cases p)
  show ?thesis
  proof (cases v)
    case None
    with p have "split_two CHR ''='' (trim_space (param_text p)) = [k]"
      by (simp add: kv param_ok_def param_text_def split_two_def)
    with p None show ?thesis by (simp add: add_param_def kv param_value_def param_ok_def)
  next
    case (Some w)
    with p have "split_two CHR ''='' (trim_space (param_text p)) = [k, w]"
      by (simp add: kv param_ok_def param_text_def split_two_pair)
    with Some show ?thesis by (simp add: add_param_def kv param_value_def)
  qed
qed

lemma fold_params:
  assumes "\<forall>p \<in> set ps. param_ok p"
  shows "fold add_param (map param_text ps) m = m ++ map_of (rev (map param_value ps))"
proof -
  have "fold add_param (map param_text ps) m = fold (\<lambda>(k, v) m. m(k \<mapsto> v)) (map param_value ps) m"
    using assms by (induction ps arbitrary: m) (simp_all add: add_param_text case_prod_unfold)
  then show ?thesis by (simp add: map_add_map_of_foldr foldr_conv_fold)
qed

text \<open>
  The generator reads its parameters as they are written: a comma-separated list of flags and \<open>key=value\<close>
  pairs is read as the map of the keys to their values, \<open>true\<close> for a flag, and the last of equal keys counts.
\<close>

theorem params_roundtrip:
  assumes "\<forall>p \<in> set ps. param_ok p"
  shows "parseParams (join_with '','' (map param_text ps)) = map_of (rev (map param_value ps))"
proof (cases "ps = []")
  case False
  have nonempty: "param_text p \<noteq> []" if "param_ok p" for p
    using that by (cases p; cases "snd p") (auto simp: param_ok_def param_text_def)
  have "join_with '','' (map param_text ps) \<noteq> []"
    using False assms nonempty by (cases ps; cases "tl ps") auto
  moreover have "split_on CHR '','' (join_with '','' (map param_text ps)) = map param_text ps"
    using False assms by (intro split_join) (auto simp: param_ok_def)
  ultimately show ?thesis using fold_params [OF assms, of Map.empty] by (simp add: parseParams_def)
qed (simp add: parseParams_def)

theorem params_roundtrip_witness:
  "parseParams ''package=models,debug,package=a=b'' = [''debug'' \<mapsto> ''true'', ''package'' \<mapsto> ''a=b'']"
proof -
  have ok: "\<forall>p \<in> set [(''package'', Some ''models''), (''debug'', None), (''package'', Some ''a=b'')]. param_ok p"
    by (simp add: param_ok_def param_text_def trim_space_def is_space_def)
  have "join_with '','' (map param_text [(''package'', Some ''models''), (''debug'', None), (''package'', Some ''a=b'')])
      = ''package=models,debug,package=a=b''" by (simp add: param_text_def)
  with params_roundtrip [OF ok] show ?thesis by (simp add: param_value_def fun_eq_iff)
qed

section \<open>Sections\<close>

text \<open>
  The shape of the rendered sections, as the templates begin: a package line, an empty line, an import block with
  one path per line and empty lines between its groups, and the rest.
\<close>

definition section_text :: "string \<Rightarrow> string list \<Rightarrow> string \<Rightarrow> string" where
  "section_text pkg imps body =
     ''package '' @ pkg @ [nl, nl] @ ''import ('' @ [nl] @ concat (map (\<lambda>l. l @ [nl]) imps) @ '')'' @ [nl] @ body"

definition import_line :: "string \<Rightarrow> bool" where
  "import_line l \<longleftrightarrow> nl \<notin> set l \<and> trim_space l \<noteq> '')''"

definition package_ok :: "string \<Rightarrow> bool" where
  "package_ok pkg \<longleftrightarrow> nl \<notin> set pkg \<and> (\<exists>c \<in> set pkg. \<not> is_space c)"

lemma import_block_lines:
  assumes "\<forall>l \<in> set imps. import_line l"
  shows "import_block (imps @ '')'' # rest) = (filter (\<lambda>t. t \<noteq> []) (map trim_space imps), rest)"
proof -
  have "trim_space '')'' = '')''" by (simp add: trim_space_def is_space_def)
  with assms show ?thesis by (induction imps) (auto simp: import_line_def)
qed

lemma head_package: "package_ok pkg \<Longrightarrow> head_line (''package '' @ pkg)"
proof -
  assume "package_ok pkg"
  then obtain c where c: "c \<in> set pkg" "\<not> is_space c" by (auto simp: package_ok_def)
  define p where "p = dropWhile is_space (rev pkg)"
  have "dropWhile is_space (rev pkg @ rev ''package '') = p @ rev ''package ''"
    using c unfolding p_def by (intro dropWhile_append1 [of c]) simp_all
  moreover have "dropWhile is_space (''package '' @ pkg) = ''package '' @ pkg" by (simp add: is_space_def)
  ultimately have "trim_space (''package '' @ pkg) = ''package '' @ rev p" by (simp add: trim_space_def)
  then show ?thesis by (simp add: head_line_def)
qed

lemma lines_of_block: "\<forall>l \<in> set imps. nl \<notin> set l \<Longrightarrow> split_on nl (concat (map (\<lambda>l. l @ [nl]) imps) @ r) = imps @ split_on nl r"
  by (induction imps) (simp_all add: split_on_append)

lemma extract_section:
  assumes "package_ok pkg" and "\<forall>l \<in> set imps. import_line l"
  shows "extractImports (section_text pkg imps body) = (filter (\<lambda>t. t \<noteq> []) (map trim_space imps), body)"
proof -
  have nls: "nl \<notin> set (''package '' @ pkg)" "\<forall>l \<in> set imps. nl \<notin> set l" "nl \<notin> set ''import (''" "nl \<notin> set '')''"
    using assms by (auto simp: package_ok_def import_line_def)
  have lines: "linesOf (section_text pkg imps body)
      = (''package '' @ pkg) # [] # ''import ('' # imps @ '')'' # split_on nl body"
  proof -
    have "section_text pkg imps body = (''package '' @ pkg) @ nl # [] @ nl # ''import ('' @ nl # concat (map (\<lambda>l. l @ [nl]) imps)
        @ '')'' @ nl # body" by (simp add: section_text_def)
    then show ?thesis
      by (simp only: linesOf_def split_on_append [OF nls(1)] split_on_hit split_on_append [OF nls(3)]
          lines_of_block [OF nls(2)] split_on_append [OF nls(4)] append_Nil)
  qed
  have heads: "head_line []" "\<not> head_line ''import (''" "trim_space ''import ('' = ''import (''"
    by (simp_all add: head_line_def trim_space_def is_space_def)
  show ?thesis
    unfolding extractImports_def lines
    by (simp add: head_package [OF assms(1), simplified] heads import_block_lines [OF assms(2)] join_split Let_def)
qed

section \<open>The generated file\<close>

text \<open>The imports of sections with these import lines, as the merged file lists them.\<close>

definition imports_of :: "(string list \<times> string) list \<Rightarrow> string set" where
  "imports_of secs = insert zstd_import (set (filter (\<lambda>t. t \<noteq> []) (map trim_space (concat (map fst secs)))))"

definition merged_text :: "string list \<Rightarrow> string \<Rightarrow> string list \<Rightarrow> string" where
  "merged_text imports pkg bodies =
     ''package '' @ pkg @ [nl, nl]
     @ (if 1 < length imports
        then ''import ('' @ [nl] @ concat (map (\<lambda>imp. tab # imp @ [nl]) imports) @ '')'' @ [nl, nl] else [])
     @ preambleBody @ [nl] @ concat (map (\<lambda>b. b @ [nl]) bodies)"

lemma merged:
  assumes ord: "map_order ord" and pkg: "package_ok pkg'"
    and imps: "\<forall>s \<in> set secs. \<forall>l \<in> set (fst s). import_line l"
  shows "mergeAllSections ord pkg (map (\<lambda>s. section_text pkg' (fst s) (snd s)) secs)
    = merged_text (ord (imports_of secs)) pkg (map snd secs)"
proof -
  have parts: "map extractImports (map (\<lambda>s. section_text pkg' (fst s) (snd s)) secs)
      = map (\<lambda>s. (filter (\<lambda>t. t \<noteq> []) (map trim_space (fst s)), snd s)) secs"
    using extract_section [OF pkg] imps by simp
  have set: "insert zstd_import (set (concat (map fst (map (\<lambda>s. (filter (\<lambda>t. t \<noteq> []) (map trim_space (fst s)), snd s)) secs))))
      = imports_of secs" by (auto simp: imports_of_def)
  have "finite (imports_of secs)" by (simp add: imports_of_def)
  with ord have "distinct (ord (imports_of secs))" "set (ord (imports_of secs)) = imports_of secs"
    by (simp_all add: map_order_def)
  then have "length (ord (imports_of secs)) = card (imports_of secs)" by (metis distinct_card)
  then show ?thesis
    unfolding mergeAllSections_def Let_def parts set merged_text_def GeneratePreamble_def by (simp add: comp_def)
qed

lemma all_sections_map:
  assumes "\<forall>u \<in> set us. table_sections T (g u) = Some (Inr (f u))"
  shows "all_sections T (map g us) = Some (Inr (concat (map f us)))"
  using assms by (induction us) simp_all

text \<open>
  C12. What the generator writes for an accepted request whose sections have the shape of the templates: one file,
  named after the first table, with the package clause, every import of any section exactly once, the shared helpers
  exactly once, and the bodies of all sections, unchanged and table after table, each table's serializer, store, query
  builder and mock.
\<close>

theorem generated_file_exact:
  assumes "map_order ord" and "BuildIR (map snd (rq_ProtoFile req)) = Inr (t # ts)"
    and "package_ok (package_name req t)"
    and "\<forall>u \<in> set (t # ts). table_sections T (u\<lparr>t_GoPackage := package_name req t\<rparr>)
      = Some (Inr (map (\<lambda>s. section_text (package_name req t) (fst s) (snd s)) (secs u)))"
    and "\<forall>u \<in> set (t # ts). \<forall>s \<in> set (secs u). \<forall>l \<in> set (fst s). import_line l"
  shows "\<exists>imports. distinct imports \<and> set imports = imports_of (concat (map secs (t # ts)))
    \<and> GenerateResponse ord T req = Some \<lparr>rs_Error = None, rs_File = [(t_MessageName t @ ''_sqlitex.go'',
        file_content (getSourceFiles req (t_MessageName t))
          (merged_text imports (package_name req t) (map snd (concat (map secs (t # ts))))))]\<rparr>"
proof -
  let ?pkg = "package_name req t" and ?secs = "concat (map secs (t # ts))"
  let ?imports = "ord (imports_of ?secs)"
  have "finite (imports_of ?secs)" by (simp add: imports_of_def)
  then have ordered: "distinct ?imports" "set ?imports = imports_of ?secs" using assms(1) by (simp_all add: map_order_def)
  have "all_sections T (map (\<lambda>u. u\<lparr>t_GoPackage := ?pkg\<rparr>) (t # ts))
      = Some (Inr (map (\<lambda>s. section_text ?pkg (fst s) (snd s)) ?secs))"
    using all_sections_map [OF assms(4)] by (simp only: map_concat list.map_comp comp_def)
  moreover have "mergeAllSections ord ?pkg (map (\<lambda>s. section_text ?pkg (fst s) (snd s)) ?secs)
      = merged_text ?imports ?pkg (map snd ?secs)"
    by (rule merged [OF assms(1,3)]) (use assms(5) in auto)
  ultimately have "GenerateResponse ord T req = Some \<lparr>rs_Error = None, rs_File = [(t_MessageName t @ ''_sqlitex.go'',
        file_content (getSourceFiles req (t_MessageName t)) (merged_text ?imports ?pkg (map snd ?secs)))]\<rparr>"
    unfolding GenerateResponse_def assms(2) by (simp only: sum.case list.case Let_def option.case)
  with ordered show ?thesis by blast
qed

text \<open>Witness: the request for \<open>testmodels.proto\<close>, with short bodies.\<close>

definition plain_texts :: section_texts where
  "plain_texts =
     \<lparr>tx_serializer = \<lambda>d. section_text (sd_PackageName d) [tab # ''\"encoding/binary\"'', tab # ''\"fmt\"''] ''// serializer'',
      tx_store = \<lambda>x. section_text (st_PackageName x) [tab # ''\"fmt\"'', [], tab # ''\"github.com/mogumc/sqlitex\"''] ''// store'',
      tx_query = \<lambda>Q. Inr (section_text (qd_PackageName Q) [tab # ''\"fmt\"''] ''// query''),
      tx_mock = \<lambda>k. section_text (mk_PackageName k) [tab # ''\"fmt\"'', tab # ''\"sync\"''] ''// mock''\<rparr>"

definition plain_secs :: "(string list \<times> string) list" where
  "plain_secs =
     [([tab # ''\"encoding/binary\"'', tab # ''\"fmt\"''], ''// serializer''),
      ([tab # ''\"fmt\"'', [], tab # ''\"github.com/mogumc/sqlitex\"''], ''// store''),
      ([tab # ''\"fmt\"''], ''// query''), ([tab # ''\"fmt\"'', tab # ''\"sync\"''], ''// mock'')]"

definition testmodels_request :: CodeGeneratorRequest where
  "testmodels_request =
     \<lparr>rq_FileToGenerate = [''testmodels.proto''], rq_Parameter = [], rq_ProtoFile = [(''testmodels.proto'', testmodels_proto)]\<rparr>"

lemma plain_table_sections:
  assumes "t_PrimaryKey u \<noteq> None"
  shows "table_sections plain_texts (u\<lparr>t_GoPackage := pkg\<rparr>)
    = Some (Inr (map (\<lambda>s. section_text pkg (fst s) (snd s)) plain_secs))"
  using assms
  by (auto simp: table_sections_def buildStoreData_def buildQueryData_def buildMockData_def buildSerializerData_def
      plain_texts_def plain_secs_def Let_def)

theorem generated_file_exact_witness:
  "\<exists>ord merged. map_order ord \<and> GenerateResponse ord plain_texts testmodels_request
    = Some \<lparr>rs_Error = None, rs_File = [(''User_sqlitex.go'', file_content ''testmodels.proto'' merged)]\<rparr>"
proof -
  have "\<forall>S. \<exists>xs. finite S \<longrightarrow> distinct xs \<and> set xs = (S :: string set)" using finite_distinct_list by metis
  then obtain ord :: "string set \<Rightarrow> string list" where ord: "map_order ord" unfolding map_order_def by metis
  have ir: "BuildIR (map snd (rq_ProtoFile testmodels_request)) = Inr [user_table, session_table]"
    by (simp add: testmodels_request_def BuildIR_testmodels)
  have tables: "t_MessageName user_table = ''User''" "t_GoPackage user_table = ''testmodels''"
    "t_PrimaryKey user_table \<noteq> None" "t_PrimaryKey session_table \<noteq> None"
    by (simp_all add: user_table_def session_table_def Let_def)
  have pkg: "package_name testmodels_request user_table = ''testmodels''"
    by (simp add: package_name_def testmodels_request_def parseParams_def tables)
  have ok: "package_ok ''testmodels''" by (simp add: package_ok_def is_space_def)
  have source: "getSourceFiles testmodels_request ''User'' = ''testmodels.proto''"
    by (simp add: getSourceFiles_def testmodels_request_def testmodels_proto_def user_message_def)
  have secs: "\<forall>u \<in> set [user_table, session_table]. table_sections plain_texts (u\<lparr>t_GoPackage := ''testmodels''\<rparr>)
      = Some (Inr (map (\<lambda>s. section_text ''testmodels'' (fst s) (snd s)) plain_secs))"
    using plain_table_sections tables(3,4) by simp
  have lines: "\<forall>u \<in> set [user_table, session_table]. \<forall>s \<in> set plain_secs. \<forall>l \<in> set (fst s). import_line l"
    by (simp add: plain_secs_def import_line_def trim_space_def is_space_def)
  from generated_file_exact [OF ord ir ok [folded pkg] secs [folded pkg] lines]
  show ?thesis using ord unfolding tables(1) source by auto
qed

text \<open>
  C40. The generator answers every request: without a file and with an error when the tables are refused or the code of a
  query cannot be rendered, without a file and without an error when there is no table, and with exactly one file
  otherwise.
\<close>

theorem response_total:
  "\<exists>r. GenerateResponse ord T req = Some r
    \<and> (case BuildIR (map snd (rq_ProtoFile req)) of
         Inl err \<Rightarrow> r = \<lparr>rs_Error = Some (ErrorWrap ''build IR: '' err), rs_File = []\<rparr>
       | Inr ts \<Rightarrow>
           (if ts = [] then rs_File r = [] \<and> rs_Error r = None
            else if \<exists>u \<in> set ts. \<exists>Q e. buildQueryData (u\<lparr>t_GoPackage := package_name req (hd ts)\<rparr>) = Some Q \<and> tx_query T Q = Inl e
            then rs_File r = [] \<and> rs_Error r \<noteq> None
            else length (rs_File r) = 1 \<and> rs_Error r = None))"
proof (cases "BuildIR (map snd (rq_ProtoFile req))")
  case (Inl err)
  then show ?thesis by (simp add: GenerateResponse_def)
next
  case (Inr us)
  show ?thesis
  proof (cases us)
    case Nil
    with Inr show ?thesis by (simp add: GenerateResponse_def)
  next
    case (Cons t ts)
    let ?p = "package_name req t"
    let ?bad = "\<lambda>us. \<exists>u \<in> set us. \<exists>Q e. buildQueryData (u\<lparr>t_GoPackage := ?p\<rparr>) = Some Q \<and> tx_query T Q = Inl e"
    have pk: "t_PrimaryKey u \<noteq> None" if "u \<in> set us" for u
      using BuildIR_tables_wf [OF Inr] that by (auto simp: list_all_iff table_wf_def)
    have "\<exists>res. all_sections T (map (\<lambda>u. u\<lparr>t_GoPackage := ?p\<rparr>) vs) = Some res \<and> (\<exists>e. res = Inl e) = ?bad vs"
      if "set vs \<subseteq> set us" for vs
      using that
    proof (induction vs)
      case Nil
      then show ?case by simp
    next
      case (Cons u vs)
      then obtain res where res: "all_sections T (map (\<lambda>u. u\<lparr>t_GoPackage := ?p\<rparr>) vs) = Some res" "(\<exists>e. res = Inl e) = ?bad vs"
        by auto
      obtain pkf where "t_PrimaryKey u = Some pkf" using pk [of u] Cons.prems by auto
      then obtain x Q k where data: "buildStoreData (u\<lparr>t_GoPackage := ?p\<rparr>) = Some x" "buildQueryData (u\<lparr>t_GoPackage := ?p\<rparr>) = Some Q"
        "buildMockData (u\<lparr>t_GoPackage := ?p\<rparr>) = Some k"
        by (simp add: buildStoreData_def buildQueryData_def buildMockData_def Let_def)
      show ?case
      proof (cases "tx_query T Q")
        case (Inl e)
        then show ?thesis by (auto simp: table_sections_def data)
      next
        case (Inr code)
        with res show ?thesis by (cases res) (auto simp: table_sections_def data)
      qed
    qed
    from this [of us] obtain res where res: "all_sections T (map (\<lambda>u. u\<lparr>t_GoPackage := ?p\<rparr>) us) = Some res"
      "(\<exists>e. res = Inl e) = ?bad us" by blast
    show ?thesis
      using res Inr Cons by (cases res) (simp_all add: GenerateResponse_def Let_def)
  qed
qed

end
