(* ===== verification/DemoFile.thy ===== *)
theory DemoFile
  imports Query Mock
begin

text \<open>
  The generated file of the demo package, \<open>example/demo/User_sqlitex.go\<close>, translated function by function, apart from
  the generator.  Its messages are those of the test package under other table ids, so the records, the query object and
  the helpers without a table (\<open>splitWhere\<close>, the comparisons by type, the building blocks of the serializers) are shared
  with the theories \<open>Models\<close>, \<open>Store\<close>, \<open>Query\<close> and \<open>Mock\<close>.
\<close>

section \<open>Serializers\<close>

definition demo_user_Size :: "User \<Rightarrow> nat" where
  "demo_user_Size m = 25 + (4 + length (u_Name m)) + (4 + length (u_Email m)) + (4 + length (u_Bio m))"

definition demo_user_Serialize :: "('p, 'b, 'i) platform \<Rightarrow> User \<Rightarrow> bytes option" where
  "demo_user_Serialize E m =
     map_option fst (w_all
       [w_u64 (u_Id m), w_varlen (u_Name m), w_varlen (u_Email m), w_u64 (u_CreatedAt m),
        w_bool (u_Active m), w_compress E (u_Bio m)]
       (replicate (demo_user_Size m) 0, 0))"

definition demo_DeserializeUser :: "('p, 'b, 'i) platform \<Rightarrow> bytes \<Rightarrow> (go_error + User) option" where
  "demo_DeserializeUser E data =
     (if length data < 25 then Some (Inl (ErrorMsg ''sqlitex: User data too short''))
      else map_option (map_sum id fst)
        ((r_then (r_u64 ''User.Id'') (\<lambda>i.
          r_then (r_varlen ''User.Name'') (\<lambda>n.
          r_then (r_varlen ''User.Email'') (\<lambda>e.
          r_then (r_u64 ''User.CreatedAt'') (\<lambda>c.
          r_then (r_bool ''User.Active'') (\<lambda>a.
          r_then (r_compress E ''User.Bio'') (\<lambda>b.
          r_return \<lparr>u_Id = i, u_Name = n, u_Email = e, u_CreatedAt = c, u_Active = a, u_Bio = b\<rparr>))))))
         ) data 0))"

definition demo_session_Size :: "Session \<Rightarrow> nat" where
  "demo_session_Size m = 9 + 8 + (4 + length (s_Token m)) + (4 + length (s_UserId m))"

definition demo_session_SerializeWithExpiry :: "64 word \<Rightarrow> Session \<Rightarrow> bytes option" where
  "demo_session_SerializeWithExpiry expiresAt m =
     map_option fst (w_all
       [w_u64 expiresAt, w_u64 (s_Id m), w_varlen (s_Token m), w_varlen (s_UserId m),
        w_bool (s_Active m)]
       (replicate (demo_session_Size m) 0, 0))"

definition demo_session_Serialize :: "Session \<Rightarrow> bytes option" where
  "demo_session_Serialize m = demo_session_SerializeWithExpiry 0 m"

definition demo_DeserializeSessionMeta :: "bytes \<Rightarrow> (go_error + Session \<times> 64 word) option" where
  "demo_DeserializeSessionMeta data =
     (if length data < 9 + 8 then Some (Inl (ErrorMsg ''sqlitex: Session data too short''))
      else
        (case le64 data of
           None \<Rightarrow> None
         | Some expiresAt \<Rightarrow> map_option (map_sum id (\<lambda>r. (fst r, expiresAt)))
            ((r_then (r_u64 ''Session.Id'') (\<lambda>i.
              r_then (r_varlen ''Session.Token'') (\<lambda>t.
              r_then (r_varlen ''Session.UserId'') (\<lambda>u.
              r_then (r_bool ''Session.Active'') (\<lambda>a.
              r_return \<lparr>s_Id = i, s_Token = t, s_UserId = u, s_Active = a\<rparr>))))
             ) data 8)))"

definition demo_DeserializeSession :: "bytes \<Rightarrow> (go_error + Session) option" where
  "demo_DeserializeSession data = map_option (map_sum id fst) (demo_DeserializeSessionMeta data)"

section \<open>Stores\<close>

definition demo_user_tableID :: "64 word" where "demo_user_tableID = 6216217600485199210"

definition demo_encodeUserPrimaryKey :: "64 word \<Rightarrow> bytes" where
  "demo_encodeUserPrimaryKey i = EncodeOrderedInt64 i"

definition demo_encodeUserIndexEmailValue :: "bytes \<Rightarrow> bytes" where
  "demo_encodeUserIndexEmailValue v = v"

definition demo_encodeUserIndexCreatedAtValue :: "64 word \<Rightarrow> bytes" where
  "demo_encodeUserIndexCreatedAtValue v = put_le64 v"

definition demo_user_Get ::
  "('p, 'b, 'i) platform \<Rightarrow> 64 word \<Rightarrow> 'p DB \<Rightarrow> ('p DB \<times> (go_error + User option)) option" where
  "demo_user_Get E i d =
     (let (d1, r) = db_Get E (EncodeKey demo_user_tableID (demo_encodeUserPrimaryKey i)) d in
      case r of
        Inl err \<Rightarrow> Some (d1, Inl (ErrorWrap ''sqlitex: get User: '' err))
      | Inr None \<Rightarrow> Some (d1, Inr None)
      | Inr (Some value) \<Rightarrow> map_option (\<lambda>x. (d1, map_sum id Some x)) (demo_DeserializeUser E value))"

definition demo_user_index_deletes :: "User option \<Rightarrow> bytes \<Rightarrow> KVPair list" where
  "demo_user_index_deletes old pkBytes =
     (case old of None \<Rightarrow> []
      | Some o' \<Rightarrow>
          [kv_del (EncodeUniqueIndexKey demo_user_tableID 3 (demo_encodeUserIndexEmailValue (u_Email o'))),
           kv_del (EncodeIndexKey demo_user_tableID 4 (demo_encodeUserIndexCreatedAtValue (u_CreatedAt o')) pkBytes)])"

definition demo_user_save ::
  "string \<Rightarrow> ('p, 'b, 'i) platform \<Rightarrow> User \<Rightarrow> 'p DB \<Rightarrow> ('p DB \<times> go_error option) option" where
  "demo_user_save what E m d = do {
     let pkBytes = demo_encodeUserPrimaryKey (u_Id m);
     let dataKey = EncodeKey demo_user_tableID pkBytes;
     value \<leftarrow> demo_user_Serialize E m;
     (d1, got) \<leftarrow> demo_user_Get E (u_Id m) d;
     let ops = kv_put dataKey value # demo_user_index_deletes (ignore_error got) pkBytes;
     let ukeyEmail = EncodeUniqueIndexKey demo_user_tableID 3 (demo_encodeUserIndexEmailValue (u_Email m));
     let (d2, existing) = db_Get E ukeyEmail d1;
     (case existing of
        Inl err \<Rightarrow> Some (d2, Some (ErrorWrap ''sqlitex: check unique index User.email: '' err))
      | Inr ex \<Rightarrow>
          if ex \<noteq> None \<and> ex \<noteq> Some pkBytes
          then Some (d2, Some (ErrorWrap (''sqlitex: '' @ what @ '' User: unique index User.email conflict: '')
                                 ErrDuplicateKey))
          else Some (db_WriteBatch E
                 (ops @ [kv_put ukeyEmail pkBytes,
                         kv_put (EncodeIndexKey demo_user_tableID 4
                                   (demo_encodeUserIndexCreatedAtValue (u_CreatedAt m)) pkBytes) pkBytes]) d2))
   }"

definition demo_user_Create ::
  "('p, 'b, 'i) platform \<Rightarrow> User option \<Rightarrow> 'p DB \<Rightarrow> ('p DB \<times> go_error option) option" where
  "demo_user_Create E mp d =
     (case mp of None \<Rightarrow> Some (d, Some (ErrorMsg ''sqlitex: cannot create nil User''))
      | Some m \<Rightarrow> demo_user_save ''create'' E m d)"

definition demo_user_Update ::
  "('p, 'b, 'i) platform \<Rightarrow> User option \<Rightarrow> 'p DB \<Rightarrow> ('p DB \<times> go_error option) option" where
  "demo_user_Update E mp d =
     (case mp of None \<Rightarrow> Some (d, Some (ErrorMsg ''sqlitex: cannot update nil User''))
      | Some m \<Rightarrow> demo_user_save ''update'' E m d)"

definition demo_user_Delete ::
  "('p, 'b, 'i) platform \<Rightarrow> 64 word \<Rightarrow> 'p DB \<Rightarrow> ('p DB \<times> go_error option) option" where
  "demo_user_Delete E i d = do {
     let pkBytes = demo_encodeUserPrimaryKey i;
     (d1, got) \<leftarrow> demo_user_Get E i d;
     Some (db_WriteBatch E
       (kv_del (EncodeKey demo_user_tableID pkBytes) # demo_user_index_deletes (ignore_error got) pkBytes) d1)
   }"

definition demo_session_tableID :: "64 word" where "demo_session_tableID = 12471666076920910287"

definition demo_encodeSessionPrimaryKey :: "64 word \<Rightarrow> bytes" where
  "demo_encodeSessionPrimaryKey i = EncodeOrderedInt64 i"

definition demo_encodeSessionIndexUserIdValue :: "bytes \<Rightarrow> bytes" where
  "demo_encodeSessionIndexUserIdValue v = v"

definition demo_deleteSessionWithIndexes ::
  "('p, 'b, 'i) platform \<Rightarrow> bytes \<Rightarrow> Session \<Rightarrow> 'p DB \<Rightarrow> ('p DB \<times> go_error option) option" where
  "demo_deleteSessionWithIndexes E dataKey m d =
     (case DecodeKey dataKey of
        None \<Rightarrow> None
      | Some (Inl err) \<Rightarrow> Some (d, Some err)
      | Some (Inr (_, pkBytes)) \<Rightarrow>
          Some (db_WriteBatch E
            [kv_del dataKey,
             kv_del (EncodeIndexKey demo_session_tableID 3 (demo_encodeSessionIndexUserIdValue (s_UserId m)) pkBytes)] d))"

definition demo_session_Get ::
  "('p, 'b, 'i) platform \<Rightarrow> 64 word \<Rightarrow> 'p DB \<Rightarrow> ('p DB \<times> (go_error + Session option)) option" where
  "demo_session_Get E i d =
     (let key = EncodeKey demo_session_tableID (demo_encodeSessionPrimaryKey i); (d1, r) = db_Get E key d in
      case r of
        Inl err \<Rightarrow> Some (d1, Inl (ErrorWrap ''sqlitex: get Session: '' err))
      | Inr None \<Rightarrow> Some (d1, Inr None)
      | Inr (Some value) \<Rightarrow>
          (case demo_DeserializeSessionMeta value of
             None \<Rightarrow> None
           | Some (Inl err) \<Rightarrow> Some (d1, Inl err)
           | Some (Inr (m, expiresAt)) \<Rightarrow>
               if 0 <s expiresAt then
                 (let (now, d2) = db_now E d1 in
                  if expiresAt <s now
                  then map_option (\<lambda>x. (fst x, Inr None)) (demo_deleteSessionWithIndexes E key m d2)
                  else Some (d2, Inr (Some m)))
               else Some (d1, Inr (Some m))))"

definition demo_session_index_deletes :: "Session option \<Rightarrow> bytes \<Rightarrow> KVPair list" where
  "demo_session_index_deletes old pkBytes =
     (case old of None \<Rightarrow> []
      | Some o' \<Rightarrow> [kv_del (EncodeIndexKey demo_session_tableID 3 (demo_encodeSessionIndexUserIdValue (s_UserId o')) pkBytes)])"

definition demo_session_save ::
  "('p, 'b, 'i) platform \<Rightarrow> Session \<Rightarrow> 'p DB \<Rightarrow> ('p DB \<times> go_error option) option" where
  "demo_session_save E m d = do {
     let pkBytes = demo_encodeSessionPrimaryKey (s_Id m);
     let dataKey = EncodeKey demo_session_tableID pkBytes;
     let (now, d0) = db_now E d;
     value \<leftarrow> demo_session_SerializeWithExpiry (now + session_ttl) m;
     (d1, got) \<leftarrow> demo_session_Get E (s_Id m) d0;
     let ops = kv_put dataKey value # demo_session_index_deletes (ignore_error got) pkBytes;
     Some (db_WriteBatch E
       (ops @ [kv_put (EncodeIndexKey demo_session_tableID 3 (demo_encodeSessionIndexUserIdValue (s_UserId m)) pkBytes)
                 pkBytes]) d1)
   }"

definition demo_session_Create ::
  "('p, 'b, 'i) platform \<Rightarrow> Session option \<Rightarrow> 'p DB \<Rightarrow> ('p DB \<times> go_error option) option" where
  "demo_session_Create E mp d =
     (case mp of None \<Rightarrow> Some (d, Some (ErrorMsg ''sqlitex: cannot create nil Session''))
      | Some m \<Rightarrow> demo_session_save E m d)"

definition demo_session_Update ::
  "('p, 'b, 'i) platform \<Rightarrow> Session option \<Rightarrow> 'p DB \<Rightarrow> ('p DB \<times> go_error option) option" where
  "demo_session_Update E mp d =
     (case mp of None \<Rightarrow> Some (d, Some (ErrorMsg ''sqlitex: cannot update nil Session''))
      | Some m \<Rightarrow> demo_session_save E m d)"

definition demo_session_Delete ::
  "('p, 'b, 'i) platform \<Rightarrow> 64 word \<Rightarrow> 'p DB \<Rightarrow> ('p DB \<times> go_error option) option" where
  "demo_session_Delete E i d = do {
     let pkBytes = demo_encodeSessionPrimaryKey i;
     (d1, got) \<leftarrow> demo_session_Get E i d;
     Some (db_WriteBatch E
       (kv_del (EncodeKey demo_session_tableID pkBytes) # demo_session_index_deletes (ignore_error got) pkBytes) d1)
   }"

definition demo_purge_body ::
  "('p, 'b, 'i) platform \<Rightarrow> 64 word \<Rightarrow> bytes \<Rightarrow> bytes \<Rightarrow> 'p DB \<times> nat \<Rightarrow> (('p DB \<times> nat) \<times> bool) option" where
  "demo_purge_body E now key value s =
     (case demo_DeserializeSessionMeta value of
        None \<Rightarrow> None
      | Some (Inl err) \<Rightarrow> Some (s, False)
      | Some (Inr (m, expiresAt)) \<Rightarrow>
          if expired_at expiresAt now
          then (case demo_deleteSessionWithIndexes E key m (fst s) of
                  None \<Rightarrow> None
                | Some (d, err) \<Rightarrow> Some ((d, if err = None then Suc (snd s) else snd s), False))
          else Some (s, False))"

definition demo_PurgeExpired ::
  "('p, 'b, 'i) platform \<Rightarrow> 'p DB \<Rightarrow> ('p DB \<times> nat) option" where
  "demo_PurgeExpired E d =
     (case db_Iterate E (EncodeKey demo_session_tableID []) d of
        None \<Rightarrow> Some (d, 0)
      | Some it \<Rightarrow> (let (now, d1) = db_now E d in it_for E (demo_purge_body E now) it (d1, 0)))"

section \<open>Queries\<close>

definition demo_NewUserQuery :: UserQuery where
  "demo_NewUserQuery = \<lparr>q_where = [], q_args = [], q_limit = 0, q_lastPK = [], q_afterSet = False\<rparr>"

definition demo_WhereName :: "string \<Rightarrow> bytes \<Rightarrow> UserQuery \<Rightarrow> UserQuery" where
  "demo_WhereName op value q = add_cond ''Name'' op (QString value) q"

definition demo_WhereEmail :: "string \<Rightarrow> bytes \<Rightarrow> UserQuery \<Rightarrow> UserQuery" where
  "demo_WhereEmail op value q = add_cond ''Email'' op (QString value) q"

definition demo_WhereCreatedAt :: "string \<Rightarrow> 64 word \<Rightarrow> UserQuery \<Rightarrow> UserQuery" where
  "demo_WhereCreatedAt op value q = add_cond ''CreatedAt'' op (QInt64 value) q"

definition demo_WhereActive :: "string \<Rightarrow> bool \<Rightarrow> UserQuery \<Rightarrow> UserQuery" where
  "demo_WhereActive op value q = add_cond ''Active'' op (QBool value) q"

definition demo_WhereBio :: "string \<Rightarrow> bytes \<Rightarrow> UserQuery \<Rightarrow> UserQuery" where
  "demo_WhereBio op value q = add_cond ''Bio'' op (QString value) q"

definition demo_query_Limit :: "int \<Rightarrow> UserQuery \<Rightarrow> UserQuery" where "demo_query_Limit n q = q\<lparr>q_limit := n\<rparr>"

definition demo_user_After :: "64 word \<Rightarrow> UserQuery \<Rightarrow> UserQuery" where
  "demo_user_After lastPK q = q\<lparr>q_lastPK := demo_encodeUserPrimaryKey lastPK, q_afterSet := True\<rparr>"

definition demo_compareName :: "UserQuery \<Rightarrow> bytes \<Rightarrow> string \<Rightarrow> bool option" where
  "demo_compareName = compare_string ''Name''"

definition demo_compareEmail :: "UserQuery \<Rightarrow> bytes \<Rightarrow> string \<Rightarrow> bool option" where
  "demo_compareEmail = compare_string ''Email''"

definition demo_compareCreatedAt :: "UserQuery \<Rightarrow> 64 word \<Rightarrow> string \<Rightarrow> bool option" where
  "demo_compareCreatedAt q actual op =
     (case target_arg ''CreatedAt'' op q of
        None \<Rightarrow> Some False
      | Some (QInt64 expected) \<Rightarrow> Some (int64_op op actual expected)
      | Some _ \<Rightarrow> None)"

definition demo_compareActive :: "UserQuery \<Rightarrow> bool \<Rightarrow> string \<Rightarrow> bool option" where
  "demo_compareActive = compare_bool ''Active''"

definition demo_compareBio :: "UserQuery \<Rightarrow> bytes \<Rightarrow> string \<Rightarrow> bool option" where
  "demo_compareBio = compare_string ''Bio''"

definition demo_user_cond :: "UserQuery \<Rightarrow> User \<Rightarrow> string \<Rightarrow> bool option" where
  "demo_user_cond q item cond =
     (case splitWhere cond of
        [field, op] \<Rightarrow>
          if field = ''Name'' then demo_compareName q (u_Name item) op
          else if field = ''Email'' then demo_compareEmail q (u_Email item) op
          else if field = ''CreatedAt'' then demo_compareCreatedAt q (u_CreatedAt item) op
          else if field = ''Active'' then demo_compareActive q (u_Active item) op
          else if field = ''Bio'' then demo_compareBio q (u_Bio item) op
          else Some True
      | _ \<Rightarrow> Some True)"

definition demo_user_matchWhere :: "UserQuery \<Rightarrow> User \<Rightarrow> bool option" where
  "demo_user_matchWhere q item = all_conds (demo_user_cond q item) (q_where q)"

definition demo_user_matchWhereTail :: "UserQuery \<Rightarrow> User \<Rightarrow> bool option" where
  "demo_user_matchWhereTail q item = all_conds (demo_user_cond q item) (drop 1 (q_where q))"

definition demo_user_indexed_body ::
  "('p, 'b, 'i) platform \<Rightarrow> UserQuery \<Rightarrow> bytes \<Rightarrow> bytes \<Rightarrow> 'p DB \<times> User list \<Rightarrow> (('p DB \<times> User list) \<times> bool) option" where
  "demo_user_indexed_body E q key pkBytes s =
     (let (d1, r) = db_Get E (EncodeKey demo_user_tableID pkBytes) (fst s); s1 = (d1, snd s) in
      case r of
        Inl err \<Rightarrow> Some (s1, False)
      | Inr None \<Rightarrow> Some (s1, False)
      | Inr (Some value) \<Rightarrow>
          (case demo_DeserializeUser E value of
             None \<Rightarrow> None
           | Some (Inl err) \<Rightarrow> Some (s1, False)
           | Some (Inr m) \<Rightarrow>
               (case if 1 < length (q_where q) then demo_user_matchWhereTail q m else Some True of
                  None \<Rightarrow> None
                | Some False \<Rightarrow> Some (s1, False)
                | Some True \<Rightarrow> Some (collect_row q m s1))))"

definition demo_user_execIndexed :: "('p, 'b, 'i) platform \<Rightarrow> UserQuery \<Rightarrow> 'p DB \<Rightarrow> ('p DB \<times> User list) option" where
  "demo_user_execIndexed E q d =
     (case q_args q of
        QString fieldValue # _ \<Rightarrow>
          (case db_Iterate E (EncodeIndexPrefix demo_user_tableID 3 fieldValue) d of
             None \<Rightarrow> Some (d, [])
           | Some it \<Rightarrow>
               (let it' = if q_afterSet q
                          then it_SeekAfter E (EncodeIndexKey demo_user_tableID 3 fieldValue (q_lastPK q)) it
                          else it
                in it_for E (demo_user_indexed_body E q) it' (d, [])))
      | _ \<Rightarrow> None)"

definition demo_user_scan_body ::
  "('p, 'b, 'i) platform \<Rightarrow> UserQuery \<Rightarrow> bytes \<Rightarrow> bytes \<Rightarrow> 'p DB \<times> User list \<Rightarrow> (('p DB \<times> User list) \<times> bool) option" where
  "demo_user_scan_body E q key value s =
     (case demo_DeserializeUser E value of
        None \<Rightarrow> None
      | Some (Inl err) \<Rightarrow> Some (s, False)
      | Some (Inr m) \<Rightarrow>
          (case demo_user_matchWhere q m of
             None \<Rightarrow> None
           | Some False \<Rightarrow> Some (s, False)
           | Some True \<Rightarrow> Some (collect_row q m s)))"

definition demo_user_execFullScan :: "('p, 'b, 'i) platform \<Rightarrow> UserQuery \<Rightarrow> 'p DB \<Rightarrow> ('p DB \<times> User list) option" where
  "demo_user_execFullScan E q d =
     (case db_Iterate E (EncodeKey demo_user_tableID []) d of
        None \<Rightarrow> Some (d, [])
      | Some it \<Rightarrow>
          (let it' = if q_afterSet q then it_SeekAfter E (EncodeKey demo_user_tableID (q_lastPK q)) it else it
           in it_for E (demo_user_scan_body E q) it' (d, [])))"

definition demo_user_Exec :: "('p, 'b, 'i) platform \<Rightarrow> UserQuery \<Rightarrow> 'p DB \<Rightarrow> ('p DB \<times> User list) option" where
  "demo_user_Exec E q d =
     (case q_where q of
        w # _ \<Rightarrow> if splitWhere w = [''Email'', ''='']
                 then demo_user_execIndexed E q d else demo_user_execFullScan E q d
      | [] \<Rightarrow> demo_user_execFullScan E q d)"

definition demo_user_First ::
  "('p, 'b, 'i) platform \<Rightarrow> UserQuery \<Rightarrow> 'p DB \<Rightarrow> (UserQuery \<times> 'p DB \<times> User option) option" where
  "demo_user_First E q d =
     (let q' = q\<lparr>q_limit := 1\<rparr> in
      map_option (\<lambda>(d', r). (q', d', case r of [] \<Rightarrow> None | m # _ \<Rightarrow> Some m)) (demo_user_Exec E q' d))"

definition demo_user_Count :: "('p, 'b, 'i) platform \<Rightarrow> UserQuery \<Rightarrow> 'p DB \<Rightarrow> ('p DB \<times> nat) option" where
  "demo_user_Count E q d = map_option (\<lambda>(d', r). (d', length r)) (demo_user_Exec E q d)"

definition demo_NewSessionQuery :: SessionQuery where "demo_NewSessionQuery = demo_NewUserQuery"

definition demo_WhereToken :: "string \<Rightarrow> bytes \<Rightarrow> SessionQuery \<Rightarrow> SessionQuery" where
  "demo_WhereToken op value q = add_cond ''Token'' op (QString value) q"

definition demo_WhereUserId :: "string \<Rightarrow> bytes \<Rightarrow> SessionQuery \<Rightarrow> SessionQuery" where
  "demo_WhereUserId op value q = add_cond ''UserId'' op (QString value) q"

definition demo_session_WhereActive :: "string \<Rightarrow> bool \<Rightarrow> SessionQuery \<Rightarrow> SessionQuery" where
  "demo_session_WhereActive op value q = add_cond ''Active'' op (QBool value) q"

definition demo_session_Limit :: "int \<Rightarrow> SessionQuery \<Rightarrow> SessionQuery" where "demo_session_Limit n q = q\<lparr>q_limit := n\<rparr>"

definition demo_session_After :: "64 word \<Rightarrow> SessionQuery \<Rightarrow> SessionQuery" where
  "demo_session_After lastPK q = q\<lparr>q_lastPK := demo_encodeSessionPrimaryKey lastPK, q_afterSet := True\<rparr>"

definition demo_compareToken :: "SessionQuery \<Rightarrow> bytes \<Rightarrow> string \<Rightarrow> bool option" where
  "demo_compareToken = compare_string ''Token''"

definition demo_compareUserId :: "SessionQuery \<Rightarrow> bytes \<Rightarrow> string \<Rightarrow> bool option" where
  "demo_compareUserId = compare_string ''UserId''"

definition demo_session_compareActive :: "SessionQuery \<Rightarrow> bool \<Rightarrow> string \<Rightarrow> bool option" where
  "demo_session_compareActive = compare_bool ''Active''"

definition demo_session_cond :: "SessionQuery \<Rightarrow> Session \<Rightarrow> string \<Rightarrow> bool option" where
  "demo_session_cond q item cond =
     (case splitWhere cond of
        [field, op] \<Rightarrow>
          if field = ''Token'' then demo_compareToken q (s_Token item) op
          else if field = ''UserId'' then demo_compareUserId q (s_UserId item) op
          else if field = ''Active'' then demo_session_compareActive q (s_Active item) op
          else Some True
      | _ \<Rightarrow> Some True)"

definition demo_session_matchWhere :: "SessionQuery \<Rightarrow> Session \<Rightarrow> bool option" where
  "demo_session_matchWhere q item = all_conds (demo_session_cond q item) (q_where q)"

definition demo_session_matchWhereTail :: "SessionQuery \<Rightarrow> Session \<Rightarrow> bool option" where
  "demo_session_matchWhereTail q item = all_conds (demo_session_cond q item) (drop 1 (q_where q))"

definition demo_session_indexed_body ::
  "('p, 'b, 'i) platform \<Rightarrow> SessionQuery \<Rightarrow> bytes \<Rightarrow> bytes \<Rightarrow> 'p DB \<times> Session list
    \<Rightarrow> (('p DB \<times> Session list) \<times> bool) option" where
  "demo_session_indexed_body E q key pkBytes s =
     (let dataKey = EncodeKey demo_session_tableID pkBytes;
          (d1, r) = db_Get E dataKey (fst s); s1 = (d1, snd s) in
      case r of
        Inl err \<Rightarrow> Some (s1, False)
      | Inr None \<Rightarrow> Some (s1, False)
      | Inr (Some value) \<Rightarrow>
          (case demo_DeserializeSessionMeta value of
             None \<Rightarrow> None
           | Some (Inl err) \<Rightarrow> Some (s1, False)
           | Some (Inr (m, expiresAt)) \<Rightarrow>
               (let (d2, gone) = check_expired E expiresAt d1 in
                if gone
                then map_option (\<lambda>(d3, err). ((d3, snd s), False)) (demo_deleteSessionWithIndexes E dataKey m d2)
                else
                  (case if 1 < length (q_where q) then demo_session_matchWhereTail q m else Some True of
                     None \<Rightarrow> None
                   | Some False \<Rightarrow> Some ((d2, snd s), False)
                   | Some True \<Rightarrow> Some (collect_row q m (d2, snd s))))))"

definition demo_session_execIndexed ::
  "('p, 'b, 'i) platform \<Rightarrow> SessionQuery \<Rightarrow> 'p DB \<Rightarrow> ('p DB \<times> Session list) option" where
  "demo_session_execIndexed E q d =
     (case q_args q of
        QString fieldValue # _ \<Rightarrow>
          (case db_Iterate E (EncodeIndexPrefix demo_session_tableID 3 fieldValue) d of
             None \<Rightarrow> Some (d, [])
           | Some it \<Rightarrow>
               (let it' = if q_afterSet q
                          then it_SeekAfter E (EncodeIndexKey demo_session_tableID 3 fieldValue (q_lastPK q)) it
                          else it
                in it_for E (demo_session_indexed_body E q) it' (d, [])))
      | _ \<Rightarrow> None)"

definition demo_session_scan_body ::
  "('p, 'b, 'i) platform \<Rightarrow> SessionQuery \<Rightarrow> bytes \<Rightarrow> bytes \<Rightarrow> 'p DB \<times> Session list
    \<Rightarrow> (('p DB \<times> Session list) \<times> bool) option" where
  "demo_session_scan_body E q key value s =
     (case demo_DeserializeSessionMeta value of
        None \<Rightarrow> None
      | Some (Inl err) \<Rightarrow> Some (s, False)
      | Some (Inr (m, expiresAt)) \<Rightarrow>
          (let (d2, gone) = check_expired E expiresAt (fst s) in
           if gone
           then map_option (\<lambda>(d3, err). ((d3, snd s), False)) (demo_deleteSessionWithIndexes E key m d2)
           else
             (case demo_session_matchWhere q m of
                None \<Rightarrow> None
              | Some False \<Rightarrow> Some ((d2, snd s), False)
              | Some True \<Rightarrow> Some (collect_row q m (d2, snd s)))))"

definition demo_session_execFullScan ::
  "('p, 'b, 'i) platform \<Rightarrow> SessionQuery \<Rightarrow> 'p DB \<Rightarrow> ('p DB \<times> Session list) option" where
  "demo_session_execFullScan E q d =
     (case db_Iterate E (EncodeKey demo_session_tableID []) d of
        None \<Rightarrow> Some (d, [])
      | Some it \<Rightarrow>
          (let it' = if q_afterSet q then it_SeekAfter E (EncodeKey demo_session_tableID (q_lastPK q)) it else it
           in it_for E (demo_session_scan_body E q) it' (d, [])))"

definition demo_session_Exec :: "('p, 'b, 'i) platform \<Rightarrow> SessionQuery \<Rightarrow> 'p DB \<Rightarrow> ('p DB \<times> Session list) option" where
  "demo_session_Exec E q d =
     (case q_where q of
        w # _ \<Rightarrow> if splitWhere w = [''UserId'', ''='']
                 then demo_session_execIndexed E q d else demo_session_execFullScan E q d
      | [] \<Rightarrow> demo_session_execFullScan E q d)"

definition demo_session_First ::
  "('p, 'b, 'i) platform \<Rightarrow> SessionQuery \<Rightarrow> 'p DB \<Rightarrow> (SessionQuery \<times> 'p DB \<times> Session option) option" where
  "demo_session_First E q d =
     (let q' = q\<lparr>q_limit := 1\<rparr> in
      map_option (\<lambda>(d', r). (q', d', case r of [] \<Rightarrow> None | m # _ \<Rightarrow> Some m)) (demo_session_Exec E q' d))"

definition demo_session_Count :: "('p, 'b, 'i) platform \<Rightarrow> SessionQuery \<Rightarrow> 'p DB \<Rightarrow> ('p DB \<times> nat) option" where
  "demo_session_Count E q d = map_option (\<lambda>(d', r). (d', length r)) (demo_session_Exec E q d)"

section \<open>Mocks\<close>

definition demo_NewMockUserStore :: mock_users where "demo_NewMockUserStore = Map.empty"

definition demo_cloneUser :: "User option \<Rightarrow> User option" where
  "demo_cloneUser src =
     (case src of
        None \<Rightarrow> None
      | Some s \<Rightarrow> Some \<lparr>u_Id = u_Id s, u_Name = u_Name s, u_Email = u_Email s, u_CreatedAt = u_CreatedAt s,
                       u_Active = u_Active s, u_Bio = u_Bio s\<rparr>)"

definition demo_mock_user_Create :: "User option \<Rightarrow> mock_users \<Rightarrow> mock_users \<times> go_error option" where
  "demo_mock_user_Create r data =
     (case r of
        None \<Rightarrow> (data, Some (ErrorMsg ''sqlitex: cannot create nil User''))
      | Some m \<Rightarrow>
          if data (u_Id m) \<noteq> None then (data, Some (ErrorMsg ''sqlitex: User already exists''))
          else (data(u_Id m := demo_cloneUser (Some m)), None))"

definition demo_mock_user_Update :: "User option \<Rightarrow> mock_users \<Rightarrow> mock_users \<times> go_error option" where
  "demo_mock_user_Update r data =
     (case r of
        None \<Rightarrow> (data, Some (ErrorMsg ''sqlitex: cannot update nil User''))
      | Some m \<Rightarrow>
          if data (u_Id m) = None then (data, Some (ErrorMsg ''sqlitex: User not found''))
          else (data(u_Id m := demo_cloneUser (Some m)), None))"

definition demo_mock_user_Delete :: "64 word \<Rightarrow> mock_users \<Rightarrow> mock_users \<times> go_error option" where
  "demo_mock_user_Delete i data = (data(i := None), None)"

definition demo_mock_user_Get :: "64 word \<Rightarrow> mock_users \<Rightarrow> mock_users \<times> (go_error + User option)" where
  "demo_mock_user_Get i data = (data, Inr (case data i of None \<Rightarrow> None | Some m \<Rightarrow> demo_cloneUser (Some m)))"

definition demo_NewMockSessionStore :: mock_sessions where "demo_NewMockSessionStore = Map.empty"

definition demo_cloneSession :: "Session option \<Rightarrow> Session option" where
  "demo_cloneSession src =
     (case src of
        None \<Rightarrow> None
      | Some s \<Rightarrow> Some \<lparr>s_Id = s_Id s, s_Token = s_Token s, s_UserId = s_UserId s, s_Active = s_Active s\<rparr>)"

definition demo_mock_session_Create :: "Session option \<Rightarrow> mock_sessions \<Rightarrow> mock_sessions \<times> go_error option" where
  "demo_mock_session_Create r data =
     (case r of
        None \<Rightarrow> (data, Some (ErrorMsg ''sqlitex: cannot create nil Session''))
      | Some m \<Rightarrow>
          if data (s_Id m) \<noteq> None then (data, Some (ErrorMsg ''sqlitex: Session already exists''))
          else (data(s_Id m := demo_cloneSession (Some m)), None))"

definition demo_mock_session_Update :: "Session option \<Rightarrow> mock_sessions \<Rightarrow> mock_sessions \<times> go_error option" where
  "demo_mock_session_Update r data =
     (case r of
        None \<Rightarrow> (data, Some (ErrorMsg ''sqlitex: cannot update nil Session''))
      | Some m \<Rightarrow>
          if data (s_Id m) = None then (data, Some (ErrorMsg ''sqlitex: Session not found''))
          else (data(s_Id m := demo_cloneSession (Some m)), None))"

definition demo_mock_session_Delete :: "64 word \<Rightarrow> mock_sessions \<Rightarrow> mock_sessions \<times> go_error option" where
  "demo_mock_session_Delete i data = (data(i := None), None)"

definition demo_mock_session_Get :: "64 word \<Rightarrow> mock_sessions \<Rightarrow> mock_sessions \<times> (go_error + Session option)" where
  "demo_mock_session_Get i data = (data, Inr (case data i of None \<Rightarrow> None | Some m \<Rightarrow> demo_cloneSession (Some m)))"

definition demo_mock_session_PurgeExpired :: "mock_sessions \<Rightarrow> mock_sessions \<times> nat" where
  "demo_mock_session_PurgeExpired data = (data, 0)"

end
