(* ===== verification/DemoGen.thy ===== *)
theory DemoGen
  imports MockStores GenQueries DemoFile
begin

text \<open>
  The demo package against the generator: for the tables \<open>BuildIR\<close> computes from \<open>demo.proto\<close>, the emitted serializers,
  store methods, queries and mocks (theories \<open>SerializerGen\<close>, \<open>StoreGen\<close>, \<open>QueryGen\<close>, \<open>MockGen\<close>) are the functions of
  \<open>example/demo/User_sqlitex.go\<close> as theory \<open>DemoFile\<close> translates them.
\<close>

section \<open>The demo package\<close>

text \<open>The descriptor of \<open>demo.proto\<close>: the messages of the test package, under other names.\<close>

definition demo_proto :: FileDescriptor where
  "demo_proto =
     \<lparr>pf_package = ''example'', pf_go_package = ''github.com/mogumc/sqlitex/example/demo'',
      pf_messages = [user_message, session_message]\<rparr>"

definition demo_user_table :: TableIR where
  "demo_user_table = user_table\<lparr>t_TableID := 6216217600485199210, t_GoPackage := ''demo''\<rparr>"

definition demo_session_table :: TableIR where
  "demo_session_table = session_table\<lparr>t_TableID := 12471666076920910287, t_GoPackage := ''demo''\<rparr>"

lemma BuildIR_demo: "BuildIR [demo_proto] = Inr [demo_user_table, demo_session_table]"
proof -
  have ids: "fnv1a64 ''example.User'' = 6216217600485199210" "fnv1a64 ''example.Session'' = 12471666076920910287"
    by code_simp+
  have names: "fqName ''example'' ''User'' = ''example.User''" "fqName ''example'' ''Session'' = ''example.Session''"
    by (simp_all add: fqName_def)
  have msgs: "md_name user_message = ''User''" "md_table user_message = Some id_table"
    "md_name session_message = ''Session''" "md_table session_message = Some id_table"
    by (simp_all add: user_message_def session_message_def)
  have tables: "buildTableIR user_message id_table ''demo'' 6216217600485199210 = Inr demo_user_table"
    "buildTableIR session_message id_table ''demo'' 12471666076920910287 = Inr demo_session_table"
    by (simp_all add: build_defs user_message_def session_message_def id_table_def id_field_def plain_field_def
        field_option_def user_table_def session_table_def demo_user_table_def demo_session_table_def parseTTL_1s)
  have "resolveGoPackage demo_proto = ''demo''" by (simp add: resolveGoPackage_def demo_proto_def after_last_def)
  then show ?thesis
    by (simp add: BuildIR_def demo_proto_def msgs names isProtobufInternalMessage_def ids tables)
qed

text \<open>The data the templates get for the two tables.\<close>

definition demo_user_ser :: serializerData where
  "demo_user_ser = user_d\<lparr>sd_PackageName := ''demo''\<rparr>"

definition demo_session_ser :: serializerData where
  "demo_session_ser = session_d\<lparr>sd_PackageName := ''demo''\<rparr>"

definition demo_user_store :: storeData where
  "demo_user_store = user_store_data\<lparr>st_TableID := 6216217600485199210, st_PackageName := ''demo''\<rparr>"

definition demo_session_store :: storeData where
  "demo_session_store = session_store_data\<lparr>st_TableID := 12471666076920910287, st_PackageName := ''demo''\<rparr>"

definition demo_user_queries :: queryData where
  "demo_user_queries = user_query_data\<lparr>qd_TableID := 6216217600485199210, qd_PackageName := ''demo''\<rparr>"

definition demo_session_queries :: queryData where
  "demo_session_queries = session_query_data\<lparr>qd_TableID := 12471666076920910287, qd_PackageName := ''demo''\<rparr>"

definition demo_user_mock :: mockData where
  "demo_user_mock = user_mock\<lparr>mk_TableID := 6216217600485199210, mk_PackageName := ''demo''\<rparr>"

definition demo_session_mock :: mockData where
  "demo_session_mock = session_mock\<lparr>mk_TableID := 12471666076920910287, mk_PackageName := ''demo''\<rparr>"

lemma demo_data:
  "buildSerializerData demo_user_table = demo_user_ser" "buildSerializerData demo_session_table = demo_session_ser"
  "buildStoreData demo_user_table = Some demo_user_store" "buildStoreData demo_session_table = Some demo_session_store"
  "buildQueryData demo_user_table = Some demo_user_queries" "buildQueryData demo_session_table = Some demo_session_queries"
  "buildMockData demo_user_table = Some demo_user_mock" "buildMockData demo_session_table = Some demo_session_mock"
  by code_simp+

section \<open>Serializers and mocks\<close>

text \<open>Functions without a table id are those of the test package.\<close>

lemma demo_same:
  "demo_user_Serialize = user_Serialize" "demo_DeserializeUser = DeserializeUser"
  "demo_session_SerializeWithExpiry = session_SerializeWithExpiry" "demo_session_Serialize = session_Serialize"
  "demo_DeserializeSessionMeta = DeserializeSessionMeta" "demo_DeserializeSession = DeserializeSession"
proof -
  have size: "demo_user_Size = user_Size" "demo_session_Size = session_Size"
    by (simp_all add: fun_eq_iff demo_user_Size_def user_Size_def demo_session_Size_def session_Size_def)
  show ser: "demo_user_Serialize = user_Serialize" "demo_session_SerializeWithExpiry = session_SerializeWithExpiry"
    by (simp_all only: fun_eq_iff demo_user_Serialize_def user_Serialize_def demo_session_SerializeWithExpiry_def
        session_SerializeWithExpiry_def size simp_thms)
  show des: "demo_DeserializeUser = DeserializeUser" "demo_DeserializeSessionMeta = DeserializeSessionMeta"
    by (simp_all only: fun_eq_iff demo_DeserializeUser_def DeserializeUser_def demo_DeserializeSessionMeta_def
        DeserializeSessionMeta_def simp_thms)
  show "demo_session_Serialize = session_Serialize" "demo_DeserializeSession = DeserializeSession"
    by (simp_all only: fun_eq_iff demo_session_Serialize_def session_Serialize_def demo_DeserializeSession_def
        DeserializeSession_def ser des simp_thms)
qed

lemma demo_mock_same:
  "demo_NewMockUserStore = NewMockUserStore" "demo_NewMockSessionStore = NewMockSessionStore"
  "demo_mock_user_Create = mock_user_Create" "demo_mock_user_Update = mock_user_Update"
  "demo_mock_user_Delete = mock_user_Delete" "demo_mock_user_Get = mock_user_Get"
  "demo_mock_session_Create = mock_session_Create" "demo_mock_session_Update = mock_session_Update"
  "demo_mock_session_Delete = mock_session_Delete" "demo_mock_session_Get = mock_session_Get"
  "demo_mock_session_PurgeExpired = mock_session_PurgeExpired"
proof -
  have clone: "demo_cloneUser = cloneUser" "demo_cloneSession = cloneSession"
    by (simp_all only: fun_eq_iff demo_cloneUser_def cloneUser_def demo_cloneSession_def cloneSession_def simp_thms)
  show "demo_NewMockUserStore = NewMockUserStore" "demo_NewMockSessionStore = NewMockSessionStore"
    "demo_mock_user_Create = mock_user_Create" "demo_mock_user_Update = mock_user_Update"
    "demo_mock_user_Delete = mock_user_Delete" "demo_mock_user_Get = mock_user_Get"
    "demo_mock_session_Create = mock_session_Create" "demo_mock_session_Update = mock_session_Update"
    "demo_mock_session_Delete = mock_session_Delete" "demo_mock_session_Get = mock_session_Get"
    "demo_mock_session_PurgeExpired = mock_session_PurgeExpired"
    by (simp_all only: fun_eq_iff demo_NewMockUserStore_def NewMockUserStore_def demo_NewMockSessionStore_def
        NewMockSessionStore_def demo_mock_user_Create_def mock_user_Create_def demo_mock_user_Update_def
        mock_user_Update_def demo_mock_user_Delete_def mock_user_Delete_def demo_mock_user_Get_def mock_user_Get_def
        demo_mock_session_Create_def mock_session_Create_def demo_mock_session_Update_def mock_session_Update_def
        demo_mock_session_Delete_def mock_session_Delete_def demo_mock_session_Get_def mock_session_Get_def
        demo_mock_session_PurgeExpired_def mock_session_PurgeExpired_def clone simp_thms)
qed

lemma demo_serializers:
  "compiles demo_user_ser" "compiles demo_session_ser"
  "gen_Serialize E demo_user_ser m = gen_Serialize E user_d m"
  "gen_Deserialize E demo_user_ser data = gen_Deserialize E user_d data"
  "gen_Serialize E demo_session_ser m = gen_Serialize E session_d m"
  "gen_Deserialize E demo_session_ser data = gen_Deserialize E session_d data"
  "gen_SerializeWithExpiry E demo_session_ser e m = gen_SerializeWithExpiry E session_d e m"
  "gen_DeserializeMeta E demo_session_ser data = gen_DeserializeMeta E session_d data"
  using user_compiles session_compiles
  by (simp_all add: demo_user_ser_def demo_session_ser_def compiles_def declared_def gen_Serialize_def gen_Deserialize_def
      gen_SerializeWithExpiry_def gen_DeserializeMeta_def gen_Size_def too_short_def split: option.split)

lemmas demo_user_gen_Serialize = user_gen_Serialize [folded demo_serializers(3) demo_same]
lemmas demo_user_gen_Deserialize = user_gen_Deserialize [folded demo_serializers(4) demo_same]
lemmas demo_session_gen_Serialize = session_gen_Serialize [folded demo_serializers(5,7) demo_same]
lemmas demo_session_gen_DeserializeMeta = session_gen_DeserializeMeta [folded demo_serializers(8) demo_same]
lemmas demo_session_gen_Deserialize = session_gen_Deserialize [folded demo_serializers(6) demo_same]

section \<open>Stores and queries\<close>

lemma demo_user_index_keys:
  "index_key F demo_user_store pkb (user_struct m) (idx ''Email'' ''email'' ''string'' 3 True)
     = EncodeUniqueIndexKey demo_user_tableID 3 (demo_encodeUserIndexEmailValue (u_Email m))"
  "index_key F demo_user_store pkb (user_struct m) (idx ''CreatedAt'' ''created_at'' ''int64'' 4 False)
     = EncodeIndexKey demo_user_tableID 4 (demo_encodeUserIndexCreatedAtValue (u_CreatedAt m)) pkb"
  by (simp_all add: index_key_def idx_def encodeIndexValue_def user_struct_def demo_user_store_def user_store_data_def demo_user_tableID_def
      demo_encodeUserIndexEmailValue_def demo_encodeUserIndexCreatedAtValue_def)

lemma demo_session_index_keys:
  "index_key F demo_session_store pkb (session_struct m) (idx ''UserId'' ''user_id'' ''string'' 3 False)
     = EncodeIndexKey demo_session_tableID 3 (demo_encodeSessionIndexUserIdValue (s_UserId m)) pkb"
  by (simp add: index_key_def idx_def encodeIndexValue_def session_struct_def demo_session_store_def session_store_data_def demo_session_tableID_def
      demo_encodeSessionIndexUserIdValue_def)

lemma demo_user_store_fields:
  "st_MessageName demo_user_store = ''User''" "st_PKGoName demo_user_store = ''Id''" "st_TableID demo_user_store = demo_user_tableID"
  "st_IndexedFields demo_user_store = [idx ''Email'' ''email'' ''string'' 3 True, idx ''CreatedAt'' ''created_at'' ''int64'' 4 False]"
  "st_UniqueFields demo_user_store = [idx ''Email'' ''email'' ''string'' 3 True]"
  "st_NormalFields demo_user_store = [idx ''CreatedAt'' ''created_at'' ''int64'' 4 False]" "\<not> st_HasTTL demo_user_store"
  by (simp_all add: demo_user_store_def user_store_data_def demo_user_tableID_def)

lemma demo_session_store_fields:
  "st_MessageName demo_session_store = ''Session''" "st_PKGoName demo_session_store = ''Id''"
  "st_TableID demo_session_store = demo_session_tableID"
  "st_IndexedFields demo_session_store = [idx ''UserId'' ''user_id'' ''string'' 3 False]"
  "st_UniqueFields demo_session_store = []"
  "st_NormalFields demo_session_store = [idx ''UserId'' ''user_id'' ''string'' 3 False]"
  "st_HasTTL demo_session_store" "st_TTL demo_session_store = session_ttl"
  by (simp_all add: demo_session_store_def session_store_data_def demo_session_tableID_def session_ttl_def)

lemma demo_user_pk: "encodePrimaryKey F demo_user_store (G64 i) = demo_encodeUserPrimaryKey i"
  by (simp add: encodePrimaryKey_def demo_user_store_def user_store_data_def demo_user_tableID_def demo_encodeUserPrimaryKey_def)

lemma demo_session_pk: "encodePrimaryKey F demo_session_store (G64 i) = demo_encodeSessionPrimaryKey i"
  by (simp add: encodePrimaryKey_def demo_session_store_def session_store_data_def demo_session_tableID_def demo_encodeSessionPrimaryKey_def)

lemma demo_user_gen_deletes:
  "gen_index_deletes F demo_user_store (map_option user_struct o') pkb = demo_user_index_deletes o' pkb"
  by (cases o') (simp_all add: gen_index_deletes_def demo_user_index_deletes_def demo_user_store_fields demo_user_index_keys)

lemma demo_session_gen_deletes:
  "gen_index_deletes F demo_session_store (map_option session_struct o') pkb = demo_session_index_deletes o' pkb"
  by (cases o') (simp_all add: gen_index_deletes_def demo_session_index_deletes_def demo_session_store_fields demo_session_index_keys)

lemma demo_user_gen_Get:
  "gen_Get E F demo_user_store demo_user_ser (G64 i) h
   = map_option (\<lambda>(h', r). (h', map_sum id (map_option user_struct) r)) (demo_user_Get E i h)"
proof -
  have "map_sum id Some (map_sum id user_struct r) = map_sum id (map_option user_struct) (map_sum id Some r)"
    for r :: "go_error + User" by (cases r) simp_all
  then show ?thesis
    by (simp add: gen_Get_def demo_user_Get_def demo_user_store_fields demo_user_pk demo_user_gen_Deserialize option.map_comp comp_def
        Let_def split: prod.split sum.split option.split)
qed

lemma demo_session_gen_delete:
  "gen_deleteWithIndexes E F demo_session_store key (session_struct m) h = demo_deleteSessionWithIndexes E key m h"
  using demo_session_gen_deletes [of F "Some m"]
  by (simp add: gen_deleteWithIndexes_def demo_deleteSessionWithIndexes_def demo_session_store_fields demo_session_index_deletes_def
      split: option.split sum.split)

lemma demo_session_gen_Get:
  "gen_Get E F demo_session_store demo_session_ser (G64 i) h
   = map_option (\<lambda>(h', r). (h', map_sum id (map_option session_struct) r)) (demo_session_Get E i h)"
  by (simp add: gen_Get_def demo_session_Get_def demo_session_store_fields demo_session_pk demo_session_gen_DeserializeMeta
      demo_session_gen_delete option.map_comp comp_def case_prod_unfold Let_def split: prod.split sum.split option.split)

lemma demo_user_gen_save:
  "gen_save what (st_UniqueFields demo_user_store @ st_NormalFields demo_user_store) E F demo_user_store demo_user_ser (user_struct m) h
   = demo_user_save what E m h"
proof -
  have err: "''sqlitex: check unique index '' @ ''User'' @ ''.'' @ ''email'' @ '': '' = ''sqlitex: check unique index User.email: ''"
    "''sqlitex: '' @ what @ '' '' @ ''User'' @ '': unique index '' @ ''User'' @ ''.'' @ ''email'' @ '' conflict: ''
      = ''sqlitex: '' @ what @ '' User: unique index User.email conflict: ''" by simp_all
  have email: "xf_ProtoName (idx ''Email'' ''email'' ''string'' 3 True) = ''email''" by (simp add: idx_def)
  show ?thesis
  proof (cases "demo_user_Serialize E m")
    case (Some v)
    show ?thesis
    proof (cases "demo_user_Get E (u_Id m) h")
      case got: (Some g)
      obtain h1 r where g: "g = (h1, r)" by fastforce
      obtain h2 existing where ex: "db_Get E (EncodeUniqueIndexKey demo_user_tableID 3 (demo_encodeUserIndexEmailValue (u_Email m))) h1 = (h2, existing)"
        by fastforce
      show ?thesis
        using Some got g ex
        by (cases existing)
           (simp_all add: gen_save_def demo_user_save_def gen_value_def demo_user_store_fields demo_user_gen_Serialize user_struct_pk demo_user_pk
              demo_user_gen_Get ignore_error_map demo_user_gen_deletes demo_user_index_keys email Let_def)
    qed (use Some in \<open>simp add: gen_save_def demo_user_save_def gen_value_def demo_user_store_fields demo_user_gen_Serialize
        user_struct_pk demo_user_pk demo_user_gen_Get Let_def\<close>)
  qed (simp add: gen_save_def demo_user_save_def gen_value_def demo_user_store_fields demo_user_gen_Serialize Let_def)
qed

lemma demo_user_order: "st_UniqueFields demo_user_store @ st_NormalFields demo_user_store = st_IndexedFields demo_user_store"
  by (simp add: demo_user_store_fields)

lemma demo_user_gen_Create:
  "gen_Create E F demo_user_store demo_user_ser (map_option user_struct mp) h = demo_user_Create E mp h"
  by (cases mp) (simp_all add: gen_Create_def demo_user_Create_def demo_user_gen_save demo_user_store_fields(1))

lemma demo_user_gen_Update:
  "gen_Update E F demo_user_store demo_user_ser (map_option user_struct mp) h = demo_user_Update E mp h"
  by (cases mp) (simp_all add: gen_Update_def demo_user_Update_def demo_user_gen_save [unfolded demo_user_order] demo_user_store_fields(1))

lemma demo_user_gen_Delete: "gen_Delete E F demo_user_store demo_user_ser (G64 i) h = demo_user_Delete E i h"
  by (cases "demo_user_Get E i h")
     (auto simp: gen_Delete_def demo_user_Delete_def demo_user_store_fields(3,4) demo_user_pk demo_user_gen_Get ignore_error_map demo_user_gen_deletes Let_def)

lemma demo_session_gen_save:
  "gen_save what order E F demo_session_store demo_session_ser (session_struct m) h = demo_session_save E m h"
  if "order = st_IndexedFields demo_session_store"
proof -
  obtain now h0 where now: "db_now E h = (now, h0)" by fastforce
  show ?thesis
  proof (cases "demo_session_SerializeWithExpiry (now + session_ttl) m")
    case (Some v)
    show ?thesis
      by (cases "demo_session_Get E (s_Id m) h0")
         (auto simp: that gen_save_def demo_session_save_def gen_value_def demo_session_store_fields demo_session_gen_Serialize
            session_struct_pk demo_session_pk demo_session_gen_Get ignore_error_map demo_session_gen_deletes demo_session_index_keys now Some Let_def)
  qed (simp add: gen_save_def demo_session_save_def gen_value_def demo_session_store_fields demo_session_gen_Serialize now Let_def)
qed

lemma demo_session_order: "st_UniqueFields demo_session_store @ st_NormalFields demo_session_store = st_IndexedFields demo_session_store"
  by (simp add: demo_session_store_fields)

lemma demo_session_gen_Create:
  "gen_Create E F demo_session_store demo_session_ser (map_option session_struct mp) h = demo_session_Create E mp h"
  by (cases mp) (simp_all add: gen_Create_def demo_session_Create_def demo_session_gen_save demo_session_order demo_session_store_fields(1))

lemma demo_session_gen_Update:
  "gen_Update E F demo_session_store demo_session_ser (map_option session_struct mp) h = demo_session_Update E mp h"
  by (cases mp) (simp_all add: gen_Update_def demo_session_Update_def demo_session_gen_save demo_session_store_fields(1))

lemma demo_session_gen_Delete: "gen_Delete E F demo_session_store demo_session_ser (G64 i) h = demo_session_Delete E i h"
  by (cases "demo_session_Get E i h")
     (auto simp: gen_Delete_def demo_session_Delete_def demo_session_store_fields(3,4) demo_session_pk demo_session_gen_Get ignore_error_map
        demo_session_gen_deletes Let_def)

lemma demo_session_gen_purge: "gen_PurgeExpired E F demo_session_store demo_session_ser h = demo_PurgeExpired E h"
proof -
  have body: "gen_purge_body E F demo_session_store demo_session_ser = demo_purge_body E"
    by (intro ext)
       (simp add: gen_purge_body_def demo_purge_body_def demo_session_gen_DeserializeMeta demo_session_gen_delete
          split: option.split sum.split)
  show ?thesis unfolding gen_PurgeExpired_def demo_PurgeExpired_def demo_session_store_fields(3) body ..
qed

lemma demo_user_cond_eval: "demo_user_cond q u = eval_cond (user_value u) q"
  by (rule ext) (simp add: demo_user_cond_def eval_cond_def user_value_def demo_compareName_def demo_compareEmail_def
      demo_compareCreatedAt_def demo_compareActive_def demo_compareBio_def compare_string_def compare_bool_def arg_op_cases
      split: list.split option.split query_arg.split)

lemma demo_session_cond_eval: "demo_session_cond q u = eval_cond (session_value u) q"
  by (rule ext) (simp add: demo_session_cond_def eval_cond_def session_value_def demo_compareToken_def demo_compareUserId_def
      demo_session_compareActive_def compare_string_def compare_bool_def arg_op_cases
      split: list.split option.split query_arg.split)

lemma demo_user_gen_cond: "gen_cond demo_user_queries (as_gen q) (user_struct m) = demo_user_cond q m"
proof (rule ext)
  fix cond
  note cmp = gen_compare_as_gen [where q = q, of _ "QString _", simplified] gen_compare_as_gen [where q = q, of _ "QInt64 _", simplified]
    gen_compare_as_gen [where q = q, of _ "QBool _", simplified]
  show "gen_cond demo_user_queries (as_gen q) (user_struct m) cond = demo_user_cond q m cond"
    unfolding demo_user_cond_eval
    by (simp add: gen_cond_def eval_cond_def demo_user_queries_def user_query_data_def demo_user_tableID_def qfield_def user_struct_def user_value_def cmp
        split: list.split)
qed

lemma demo_session_gen_cond: "gen_cond demo_session_queries (as_gen q) (session_struct m) = demo_session_cond q m"
proof (rule ext)
  fix cond
  note cmp = gen_compare_as_gen [where q = q, of _ "QString _", simplified]
    gen_compare_as_gen [where q = q, of _ "QBool _", simplified]
  show "gen_cond demo_session_queries (as_gen q) (session_struct m) cond = demo_session_cond q m cond"
    unfolding demo_session_cond_eval
    by (simp add: gen_cond_def eval_cond_def demo_session_queries_def session_query_data_def demo_session_tableID_def qfield_def session_struct_def session_value_def cmp
        split: list.split)
qed

lemma demo_user_query_fields:
  "qd_TableID demo_user_queries = demo_user_tableID" "\<not> qd_HasTTL demo_user_queries"
  "qd_IndexedField demo_user_queries = Some (qfield ''Email'' ''string'' 3 True)"
  "qd_TableID demo_session_queries = demo_session_tableID" "qd_HasTTL demo_session_queries"
  "qd_IndexedField demo_session_queries = Some (qfield ''UserId'' ''string'' 3 True)"
  by (simp_all add: demo_user_queries_def user_query_data_def demo_user_tableID_def demo_session_queries_def session_query_data_def demo_session_tableID_def)

lemma demo_gen_matches:
  "gen_matchWhere demo_user_queries (as_gen q) (user_struct m) = demo_user_matchWhere q m"
  "gen_matchWhereTail demo_user_queries (as_gen q) (user_struct m) = demo_user_matchWhereTail q m"
  "gen_matchWhere demo_session_queries (as_gen q) (session_struct s) = demo_session_matchWhere q s"
  "gen_matchWhereTail demo_session_queries (as_gen q) (session_struct s) = demo_session_matchWhereTail q s"
  by (simp_all add: gen_matchWhere_def demo_user_matchWhere_def demo_user_gen_cond gen_matchWhereTail_def demo_user_matchWhereTail_def
      demo_session_matchWhere_def demo_session_gen_cond demo_session_matchWhereTail_def)

text \<open>One row, for a table without and with a time to live.\<close>

definition demo_user_row ::
  "('p, 'b, 'i) platform \<Rightarrow> UserQuery \<Rightarrow> (User \<Rightarrow> bool option) \<Rightarrow> bytes \<Rightarrow> 'p DB \<times> User list
    \<Rightarrow> (('p DB \<times> User list) \<times> bool) option" where
  "demo_user_row E q P v s =
     (case demo_DeserializeUser E v of
        None \<Rightarrow> None
      | Some (Inl err) \<Rightarrow> Some (s, False)
      | Some (Inr m) \<Rightarrow>
          (case P m of None \<Rightarrow> None | Some False \<Rightarrow> Some (s, False) | Some True \<Rightarrow> Some (collect_row q m s)))"

definition demo_session_row ::
  "('p, 'b, 'i) platform \<Rightarrow> UserQuery \<Rightarrow> (Session \<Rightarrow> bool option) \<Rightarrow> bytes \<Rightarrow> bytes \<Rightarrow> 'p DB \<times> Session list
    \<Rightarrow> (('p DB \<times> Session list) \<times> bool) option" where
  "demo_session_row E q P key v s =
     (case demo_DeserializeSessionMeta v of
        None \<Rightarrow> None
      | Some (Inl err) \<Rightarrow> Some (s, False)
      | Some (Inr (m, expiresAt)) \<Rightarrow>
          (let (d2, gone) = check_expired E expiresAt (fst s) in
           if gone
           then map_option (\<lambda>(d3, err). ((d3, snd s), False)) (demo_deleteSessionWithIndexes E key m d2)
           else
             (case P m of
                None \<Rightarrow> None
              | Some False \<Rightarrow> Some ((d2, snd s), False)
              | Some True \<Rightarrow> Some (collect_row q m (d2, snd s)))))"

lemma demo_user_gen_row:
  assumes "\<And>m. matches (user_struct m) = P m"
  shows "gen_row E F x demo_user_ser demo_user_queries (as_gen q) matches key v (as_rows user_struct s)
    = map_option (map_prod (as_rows user_struct) id) (demo_user_row E q P v s)"
proof (cases "demo_DeserializeUser E v")
  case (Some r)
  show ?thesis
  proof (cases r)
    case (Inr m)
    show ?thesis
      by (cases "P m")
         (simp_all add: gen_row_def demo_user_row_def demo_user_query_fields demo_user_gen_Deserialize assms gen_collect_as_gen Some Inr
            split: bool.split)
  qed (simp add: gen_row_def demo_user_row_def demo_user_query_fields demo_user_gen_Deserialize Some)
qed (simp add: gen_row_def demo_user_row_def demo_user_query_fields demo_user_gen_Deserialize)

lemma demo_session_gen_row:
  assumes "\<And>m. matches (session_struct m) = P m"
  shows "gen_row E F demo_session_store demo_session_ser demo_session_queries (as_gen q) matches key v (as_rows session_struct s)
    = map_option (map_prod (as_rows session_struct) id) (demo_session_row E q P key v s)"
proof (cases "demo_DeserializeSessionMeta v")
  case (Some r)
  show ?thesis
  proof (cases r)
    case (Inr me)
    obtain m e where me: "me = (m, e)" by fastforce
    obtain d2 gone where c: "check_expired E e (fst s) = (d2, gone)" by fastforce
    have rows: "(d2, snd (as_rows session_struct s)) = as_rows session_struct (d2, snd s)" for d2
      by (simp add: as_rows_def)
    have P: "P m = None \<or> P m = Some True \<or> P m = Some False" by (cases "P m") auto
    show ?thesis
    proof (cases gone)
      case True
      then show ?thesis
        by (simp add: gen_row_def demo_session_row_def demo_user_query_fields demo_session_gen_DeserializeMeta Some Inr me c demo_session_gen_delete
            option.map_comp comp_def case_prod_unfold as_rows_def)
    next
      case False
      with P show ?thesis
        by (elim disjE)
           (simp_all add: gen_row_def demo_session_row_def demo_user_query_fields demo_session_gen_DeserializeMeta Some Inr me c assms rows
              gen_collect_as_gen del: as_rows_simps(2))
    qed
  qed (simp add: gen_row_def demo_session_row_def demo_user_query_fields demo_session_gen_DeserializeMeta Some)
qed (simp add: gen_row_def demo_session_row_def demo_user_query_fields demo_session_gen_DeserializeMeta)

lemma demo_body_rows:
  "demo_user_scan_body E q key v s = demo_user_row E q (demo_user_matchWhere q) v s"
  "demo_session_scan_body E q key v t = demo_session_row E q (demo_session_matchWhere q) key v t"
  "demo_user_indexed_body E q key pkBytes s =
     (let (d1, r) = db_Get E (EncodeKey demo_user_tableID pkBytes) (fst s) in
      case r of
        Inl err \<Rightarrow> Some ((d1, snd s), False)
      | Inr None \<Rightarrow> Some ((d1, snd s), False)
      | Inr (Some value) \<Rightarrow> demo_user_row E q (tail_match q (demo_user_matchWhereTail q)) value (d1, snd s))"
  "demo_session_indexed_body E q key pkBytes t =
     (let (d1, r) = db_Get E (EncodeKey demo_session_tableID pkBytes) (fst t) in
      case r of
        Inl err \<Rightarrow> Some ((d1, snd t), False)
      | Inr None \<Rightarrow> Some ((d1, snd t), False)
      | Inr (Some value) \<Rightarrow>
          demo_session_row E q (tail_match q (demo_session_matchWhereTail q)) (EncodeKey demo_session_tableID pkBytes) value (d1, snd t))"
proof -
  show "demo_user_indexed_body E q key pkBytes s =
     (let (d1, r) = db_Get E (EncodeKey demo_user_tableID pkBytes) (fst s) in
      case r of
        Inl err \<Rightarrow> Some ((d1, snd s), False)
      | Inr None \<Rightarrow> Some ((d1, snd s), False)
      | Inr (Some value) \<Rightarrow> demo_user_row E q (tail_match q (demo_user_matchWhereTail q)) value (d1, snd s))"
    unfolding demo_user_indexed_body_def demo_user_row_def tail_match_def
    by (cases "db_Get E (EncodeKey demo_user_tableID pkBytes) (fst s)") (simp only: Let_def prod.case)
  show "demo_session_indexed_body E q key pkBytes t =
     (let (d1, r) = db_Get E (EncodeKey demo_session_tableID pkBytes) (fst t) in
      case r of
        Inl err \<Rightarrow> Some ((d1, snd t), False)
      | Inr None \<Rightarrow> Some ((d1, snd t), False)
      | Inr (Some value) \<Rightarrow>
          demo_session_row E q (tail_match q (demo_session_matchWhereTail q)) (EncodeKey demo_session_tableID pkBytes) value (d1, snd t))"
    unfolding demo_session_indexed_body_def demo_session_row_def tail_match_def
    by (cases "db_Get E (EncodeKey demo_session_tableID pkBytes) (fst t)") (simp only: Let_def prod.case fst_conv snd_conv)
qed (simp_all add: demo_user_scan_body_def demo_session_scan_body_def demo_user_row_def demo_session_row_def)

lemma demo_user_bodies:
  "bodies_agree (as_rows user_struct) (demo_user_scan_body E q)
     (gen_row E F x demo_user_ser demo_user_queries (as_gen q) (gen_matchWhere demo_user_queries (as_gen q)))"
  "bodies_agree (as_rows user_struct) (demo_user_indexed_body E q)
     (gen_indexed_body E F x demo_user_ser demo_user_queries (as_gen q))"
proof -
  show "bodies_agree (as_rows user_struct) (demo_user_scan_body E q)
     (gen_row E F x demo_user_ser demo_user_queries (as_gen q) (gen_matchWhere demo_user_queries (as_gen q)))"
    unfolding bodies_agree_def demo_body_rows by (intro allI demo_user_gen_row) (rule demo_gen_matches)
  have row: "gen_row E F x demo_user_ser demo_user_queries (as_gen q)
      (tail_match q (gen_matchWhereTail demo_user_queries (as_gen q))) key v (as_rows user_struct s)
    = map_option (map_prod (as_rows user_struct) id) (demo_user_row E q (tail_match q (demo_user_matchWhereTail q)) v s)" for key v s
    by (rule demo_user_gen_row) (simp add: tail_match_def demo_gen_matches)
  show "bodies_agree (as_rows user_struct) (demo_user_indexed_body E q)
     (gen_indexed_body E F x demo_user_ser demo_user_queries (as_gen q))"
    unfolding bodies_agree_def demo_body_rows gen_indexed_body_eq demo_user_query_fields(1) row Let_def
    by (simp split: prod.split sum.split option.split)
qed

lemma demo_session_bodies:
  "bodies_agree (as_rows session_struct) (demo_session_scan_body E q)
     (gen_row E F demo_session_store demo_session_ser demo_session_queries (as_gen q) (gen_matchWhere demo_session_queries (as_gen q)))"
  "bodies_agree (as_rows session_struct) (demo_session_indexed_body E q)
     (gen_indexed_body E F demo_session_store demo_session_ser demo_session_queries (as_gen q))"
proof -
  show "bodies_agree (as_rows session_struct) (demo_session_scan_body E q)
     (gen_row E F demo_session_store demo_session_ser demo_session_queries (as_gen q) (gen_matchWhere demo_session_queries (as_gen q)))"
    unfolding bodies_agree_def demo_body_rows by (intro allI demo_session_gen_row) (rule demo_gen_matches)
  have row: "gen_row E F demo_session_store demo_session_ser demo_session_queries (as_gen q)
      (tail_match q (gen_matchWhereTail demo_session_queries (as_gen q))) key v (as_rows session_struct s)
    = map_option (map_prod (as_rows session_struct) id)
        (demo_session_row E q (tail_match q (demo_session_matchWhereTail q)) key v s)" for key v s
    by (rule demo_session_gen_row) (simp add: tail_match_def demo_gen_matches)
  show "bodies_agree (as_rows session_struct) (demo_session_indexed_body E q)
     (gen_indexed_body E F demo_session_store demo_session_ser demo_session_queries (as_gen q))"
    unfolding bodies_agree_def demo_body_rows gen_indexed_body_eq demo_user_query_fields(4) row Let_def
    by (simp split: prod.split sum.split option.split)
qed

lemma demo_user_loops:
  "it_for E (gen_row E F x demo_user_ser demo_user_queries (as_gen q) (gen_matchWhere demo_user_queries (as_gen q))) it (h, [])
    = map_option (as_rows user_struct) (it_for E (demo_user_scan_body E q) it (h, []))"
  "it_for E (gen_indexed_body E F x demo_user_ser demo_user_queries (as_gen q)) it (h, [])
    = map_option (as_rows user_struct) (it_for E (demo_user_indexed_body E q) it (h, []))"
  using it_for_map [OF demo_user_bodies(1), where E = E and s = "(h, [])"] it_for_map [OF demo_user_bodies(2), where E = E and s = "(h, [])"]
  by simp_all

lemma demo_session_loops:
  "it_for E (gen_row E F demo_session_store demo_session_ser demo_session_queries (as_gen q) (gen_matchWhere demo_session_queries (as_gen q)))
      it (h, [])
    = map_option (as_rows session_struct) (it_for E (demo_session_scan_body E q) it (h, []))"
  "it_for E (gen_indexed_body E F demo_session_store demo_session_ser demo_session_queries (as_gen q)) it (h, [])
    = map_option (as_rows session_struct) (it_for E (demo_session_indexed_body E q) it (h, []))"
  using it_for_map [OF demo_session_bodies(1), where E = E and s = "(h, [])"] it_for_map [OF demo_session_bodies(2), where E = E and s = "(h, [])"]
  by simp_all

lemma demo_user_gen_scan:
  "gen_execFullScan E F x demo_user_ser demo_user_queries (as_gen q) h = map_option (as_rows user_struct) (demo_user_execFullScan E q h)"
  by (simp add: gen_execFullScan_def demo_user_execFullScan_def demo_user_query_fields demo_user_loops Let_def split: option.split)

lemma demo_user_gen_indexed:
  "gen_execIndexed E F x demo_user_ser demo_user_queries (qfield ''Email'' ''string'' 3 True) (as_gen q) h
    = map_option (as_rows user_struct) (demo_user_execIndexed E q h)"
proof (cases "q_args q")
  case (Cons a as)
  have n: "qf_FieldNum (qfield ''Email'' ''string'' 3 True) = 3" by (simp add: qfield_def)
  show ?thesis
    by (cases a) (simp_all add: gen_execIndexed_def demo_user_execIndexed_def Cons gen_index_values demo_user_query_fields n
        demo_user_loops Let_def del: arg_pair.simps split: option.split)
qed (simp add: gen_execIndexed_def demo_user_execIndexed_def)

lemma demo_user_gen_Exec:
  "gen_Exec E F x demo_user_ser demo_user_queries (as_gen q) h = map_option (as_rows user_struct) (demo_user_Exec E q h)"
proof -
  have n: "qf_GoName (qfield ''Email'' ''string'' 3 True) = ''Email''" by (simp add: qfield_def)
  show ?thesis
    by (simp only: gen_Exec_def demo_user_Exec_def demo_user_query_fields prod.case option.case as_gen_simps n)
       (simp add: demo_user_gen_scan demo_user_gen_indexed split: list.split)
qed

lemma demo_session_gen_scan:
  "gen_execFullScan E F demo_session_store demo_session_ser demo_session_queries (as_gen q) h
    = map_option (as_rows session_struct) (demo_session_execFullScan E q h)"
  by (simp add: gen_execFullScan_def demo_session_execFullScan_def demo_user_query_fields demo_session_loops Let_def split: option.split)

lemma demo_session_gen_indexed:
  "gen_execIndexed E F demo_session_store demo_session_ser demo_session_queries (qfield ''UserId'' ''string'' 3 True) (as_gen q) h
    = map_option (as_rows session_struct) (demo_session_execIndexed E q h)"
proof (cases "q_args q")
  case (Cons a as)
  have n: "qf_FieldNum (qfield ''UserId'' ''string'' 3 True) = 3" by (simp add: qfield_def)
  show ?thesis
    by (cases a) (simp_all add: gen_execIndexed_def demo_session_execIndexed_def Cons gen_index_values demo_user_query_fields n
        demo_session_loops Let_def del: arg_pair.simps split: option.split)
qed (simp add: gen_execIndexed_def demo_session_execIndexed_def)

lemma demo_session_gen_Exec:
  "gen_Exec E F demo_session_store demo_session_ser demo_session_queries (as_gen q) h
    = map_option (as_rows session_struct) (demo_session_Exec E q h)"
proof -
  have n: "qf_GoName (qfield ''UserId'' ''string'' 3 True) = ''UserId''" by (simp add: qfield_def)
  show ?thesis
    by (simp only: gen_Exec_def demo_session_Exec_def demo_user_query_fields prod.case option.case as_gen_simps n)
       (simp add: demo_session_gen_scan demo_session_gen_indexed split: list.split)
qed

lemma demo_as_gen_builder:
  "gen_NewQuery = as_gen demo_NewUserQuery"
  "gen_Where (qfield ''Name'' ''string'' 2 i) op (GBytes b) (as_gen q) = as_gen (demo_WhereName op b q)"
  "gen_Where (qfield ''Email'' ''string'' 3 i) op (GBytes b) (as_gen q) = as_gen (demo_WhereEmail op b q)"
  "gen_Where (qfield ''CreatedAt'' ''int64'' 4 i) op (G64 w) (as_gen q) = as_gen (demo_WhereCreatedAt op w q)"
  "gen_Where (qfield ''Active'' ''bool'' 5 i) op (GBool c) (as_gen q) = as_gen (demo_WhereActive op c q)"
  "gen_Where (qfield ''Bio'' ''string'' 6 i) op (GBytes b) (as_gen q) = as_gen (demo_WhereBio op b q)"
  "gen_Limit n (as_gen q) = as_gen (demo_query_Limit n q)"
  "gen_After F demo_user_store (G64 w) (as_gen q) = as_gen (demo_user_After w q)"
  by (simp_all add: as_gen_def gen_NewQuery_def demo_NewUserQuery_def gen_Where_def qfield_def demo_WhereName_def demo_WhereEmail_def
      demo_WhereCreatedAt_def demo_WhereActive_def demo_WhereBio_def add_cond_def gen_Limit_def demo_query_Limit_def gen_After_def
      demo_user_After_def demo_user_pk)

lemma demo_as_gen_session_builder:
  "gen_Where (qfield ''Token'' ''string'' 2 i) op (GBytes b) (as_gen q) = as_gen (demo_WhereToken op b q)"
  "gen_Where (qfield ''UserId'' ''string'' 3 i) op (GBytes b) (as_gen q) = as_gen (demo_WhereUserId op b q)"
  "gen_Where (qfield ''Active'' ''bool'' 4 i) op (GBool c) (as_gen q) = as_gen (demo_session_WhereActive op c q)"
  "gen_After F demo_session_store (G64 w) (as_gen q) = as_gen (demo_session_After w q)"
  by (simp_all add: as_gen_def gen_Where_def qfield_def demo_WhereToken_def demo_WhereUserId_def demo_session_WhereActive_def add_cond_def
      gen_After_def demo_session_After_def demo_session_pk)

lemma demo_user_gen_First:
  "gen_First E F x demo_user_ser demo_user_queries (as_gen q) h
    = map_option (\<lambda>(q', h', r). (as_gen q', h', map_option user_struct r)) (demo_user_First E q h)"
proof -
  have lim: "(as_gen q)\<lparr>gq_limit := 1\<rparr> = as_gen (q\<lparr>q_limit := 1\<rparr>)" by (simp add: as_gen_def)
  show ?thesis
    unfolding gen_First_def demo_user_First_def Let_def lim by (simp only: demo_user_gen_Exec option.map_comp)
      (rule option.map_cong [OF refl]; simp add: as_rows_def case_prod_unfold split: list.split)
qed

lemma demo_session_gen_First:
  "gen_First E F demo_session_store demo_session_ser demo_session_queries (as_gen q) h
    = map_option (\<lambda>(q', h', r). (as_gen q', h', map_option session_struct r)) (demo_session_First E q h)"
proof -
  have lim: "(as_gen q)\<lparr>gq_limit := 1\<rparr> = as_gen (q\<lparr>q_limit := 1\<rparr>)" by (simp add: as_gen_def)
  show ?thesis
    unfolding gen_First_def demo_session_First_def Let_def lim by (simp only: demo_session_gen_Exec option.map_comp)
      (rule option.map_cong [OF refl]; simp add: as_rows_def case_prod_unfold split: list.split)
qed

lemma demo_gen_Counts:
  "gen_Count E F x demo_user_ser demo_user_queries (as_gen q) h = demo_user_Count E q h"
  "gen_Count E F demo_session_store demo_session_ser demo_session_queries (as_gen q) h = demo_session_Count E q h"
  by (simp_all add: gen_Count_def demo_user_Count_def demo_session_Count_def demo_user_gen_Exec demo_session_gen_Exec option.map_comp comp_def
      case_prod_unfold as_rows_def)

lemma demo_query_fields_at:
  "qd_QueryFields demo_user_queries ! 0 = qfield ''Name'' ''string'' 2 False"
  "qd_QueryFields demo_user_queries ! 1 = qfield ''Email'' ''string'' 3 True"
  "qd_QueryFields demo_user_queries ! 2 = qfield ''CreatedAt'' ''int64'' 4 True"
  "qd_QueryFields demo_user_queries ! 3 = qfield ''Active'' ''bool'' 5 False"
  "qd_QueryFields demo_user_queries ! 4 = qfield ''Bio'' ''string'' 6 False"
  "qd_QueryFields demo_session_queries ! 0 = qfield ''Token'' ''string'' 2 False"
  "qd_QueryFields demo_session_queries ! 1 = qfield ''UserId'' ''string'' 3 True"
  "qd_QueryFields demo_session_queries ! 2 = qfield ''Active'' ''bool'' 4 False"
  by (simp_all add: demo_user_queries_def user_query_data_def demo_user_tableID_def demo_session_queries_def session_query_data_def demo_session_tableID_def)

section \<open>Properties\<close>

lemma demo_mock_data:
  "concat (map (copy_lines \<circ> mf_CopyLines) (mk_Fields demo_user_mock))
    = [''dst.Id = src.Id'', ''dst.Name = src.Name'', ''dst.Email = src.Email'', ''dst.CreatedAt = src.CreatedAt'',
       ''dst.Active = src.Active'', ''dst.Bio = src.Bio'']"
  "concat (map (copy_lines \<circ> mf_CopyLines) (mk_Fields demo_session_mock))
    = [''dst.Id = src.Id'', ''dst.Token = src.Token'', ''dst.UserId = src.UserId'', ''dst.Active = src.Active'']"
  using test_mock_data(11,12) by (simp_all add: demo_user_mock_def demo_session_mock_def)

lemma demo_mock_steps:
  "spec_step demo_user_mock = spec_step user_mock" "spec_step demo_session_mock = spec_step session_mock"
proof -
  have "spec_step demo_user_mock op t = spec_step user_mock op t" for op t
    by (cases "(user_mock, op, t)" rule: spec_step.cases) (simp_all add: demo_user_mock_def spec_put_def)
  then show "spec_step demo_user_mock = spec_step user_mock" by (simp add: fun_eq_iff)
  have "spec_step demo_session_mock op t = spec_step session_mock op t" for op t
    by (cases "(session_mock, op, t)" rule: spec_step.cases) (simp_all add: demo_session_mock_def spec_put_def)
  then show "spec_step demo_session_mock = spec_step session_mock" by (simp add: fun_eq_iff)
qed

text \<open>
  C21. The demo package is what the generator produces from \<open>demo.proto\<close>: for the tables \<open>BuildIR\<close> computes, with the ids
  the file contains, none of them an id of the test package, every emitted serializer, store method and query
  (builder, \<open>Exec\<close>, \<open>First\<close>, \<open>Count\<close>) is the function of \<open>example/demo/User_sqlitex.go\<close>, translated on its own in theory
  \<open>DemoFile\<close>, on every record, byte string, query and state of the database, also where it panics or does not end.
\<close>

theorem demo_is_generated:
  "\<exists>u s xu xs Qu Qs. BuildIR [demo_proto] = Inr [u, s] \<and> buildStoreData u = Some xu \<and> buildStoreData s = Some xs
    \<and> buildQueryData u = Some Qu \<and> buildQueryData s = Some Qs
    \<and> t_TableID u = demo_user_tableID \<and> t_TableID s = demo_session_tableID
    \<and> distinct [demo_user_tableID, demo_session_tableID, user_tableID, session_tableID]
    \<and> gen_Serialize E (buildSerializerData u) (user_struct r) = demo_user_Serialize E r
    \<and> gen_Deserialize E (buildSerializerData u) data = map_option (map_sum id user_struct) (demo_DeserializeUser E data)
    \<and> gen_SerializeWithExpiry E (buildSerializerData s) e (session_struct t) = demo_session_SerializeWithExpiry e t
    \<and> gen_DeserializeMeta E (buildSerializerData s) data
        = map_option (map_sum id (map_prod session_struct id)) (demo_DeserializeSessionMeta data)
    \<and> gen_Create E F xu (buildSerializerData u) (map_option user_struct m) h = demo_user_Create E m h
    \<and> gen_Update E F xu (buildSerializerData u) (map_option user_struct m) h = demo_user_Update E m h
    \<and> gen_Delete E F xu (buildSerializerData u) (G64 i) h = demo_user_Delete E i h
    \<and> gen_Get E F xu (buildSerializerData u) (G64 i) h
        = map_option (\<lambda>(h', r). (h', map_sum id (map_option user_struct) r)) (demo_user_Get E i h)
    \<and> gen_Create E F xs (buildSerializerData s) (map_option session_struct n) h = demo_session_Create E n h
    \<and> gen_Update E F xs (buildSerializerData s) (map_option session_struct n) h = demo_session_Update E n h
    \<and> gen_Delete E F xs (buildSerializerData s) (G64 i) h = demo_session_Delete E i h
    \<and> gen_Get E F xs (buildSerializerData s) (G64 i) h
        = map_option (\<lambda>(h', r). (h', map_sum id (map_option session_struct) r)) (demo_session_Get E i h)
    \<and> gen_PurgeExpired E F xs (buildSerializerData s) h = demo_PurgeExpired E h
    \<and> gen_NewQuery = as_gen demo_NewUserQuery \<and> gen_NewQuery = as_gen demo_NewSessionQuery
    \<and> gen_Limit l (as_gen q) = as_gen (demo_query_Limit l q) \<and> gen_Limit l (as_gen q) = as_gen (demo_session_Limit l q)
    \<and> gen_After F xu (G64 w) (as_gen q) = as_gen (demo_user_After w q)
    \<and> gen_Where (qd_QueryFields Qu ! 0) op (GBytes b) (as_gen q) = as_gen (demo_WhereName op b q)
    \<and> gen_Where (qd_QueryFields Qu ! 1) op (GBytes b) (as_gen q) = as_gen (demo_WhereEmail op b q)
    \<and> gen_Where (qd_QueryFields Qu ! 2) op (G64 w) (as_gen q) = as_gen (demo_WhereCreatedAt op w q)
    \<and> gen_Where (qd_QueryFields Qu ! 3) op (GBool c) (as_gen q) = as_gen (demo_WhereActive op c q)
    \<and> gen_Where (qd_QueryFields Qu ! 4) op (GBytes b) (as_gen q) = as_gen (demo_WhereBio op b q)
    \<and> gen_Exec E F xu (buildSerializerData u) Qu (as_gen q) h = map_option (as_rows user_struct) (demo_user_Exec E q h)
    \<and> gen_First E F xu (buildSerializerData u) Qu (as_gen q) h
        = map_option (\<lambda>(q', h', r). (as_gen q', h', map_option user_struct r)) (demo_user_First E q h)
    \<and> gen_Count E F xu (buildSerializerData u) Qu (as_gen q) h = demo_user_Count E q h
    \<and> gen_After F xs (G64 w) (as_gen q) = as_gen (demo_session_After w q)
    \<and> gen_Where (qd_QueryFields Qs ! 0) op (GBytes b) (as_gen q) = as_gen (demo_WhereToken op b q)
    \<and> gen_Where (qd_QueryFields Qs ! 1) op (GBytes b) (as_gen q) = as_gen (demo_WhereUserId op b q)
    \<and> gen_Where (qd_QueryFields Qs ! 2) op (GBool c) (as_gen q) = as_gen (demo_session_WhereActive op c q)
    \<and> gen_Exec E F xs (buildSerializerData s) Qs (as_gen q) h = map_option (as_rows session_struct) (demo_session_Exec E q h)
    \<and> gen_First E F xs (buildSerializerData s) Qs (as_gen q) h
        = map_option (\<lambda>(q', h', r). (as_gen q', h', map_option session_struct r)) (demo_session_First E q h)
    \<and> gen_Count E F xs (buildSerializerData s) Qs (as_gen q) h = demo_session_Count E q h"
proof -
  have ids: "t_TableID demo_user_table = demo_user_tableID" "t_TableID demo_session_table = demo_session_tableID"
    "distinct [demo_user_tableID, demo_session_tableID, user_tableID, session_tableID]"
    by (simp_all add: demo_user_table_def demo_session_table_def demo_user_tableID_def demo_session_tableID_def
        user_tableID_def session_tableID_def)
  have builder: "demo_NewSessionQuery = demo_NewUserQuery" "demo_session_Limit = demo_query_Limit"
    by (simp_all add: fun_eq_iff demo_NewSessionQuery_def demo_session_Limit_def demo_query_Limit_def)
  show ?thesis
    by (rule exI [of _ demo_user_table], rule exI [of _ demo_session_table], rule exI [of _ demo_user_store],
        rule exI [of _ demo_session_store], rule exI [of _ demo_user_queries], rule exI [of _ demo_session_queries])
       (simp only: BuildIR_demo ids demo_data demo_query_fields_at builder demo_as_gen_builder demo_as_gen_session_builder
          demo_user_gen_Serialize demo_user_gen_Deserialize demo_session_gen_Serialize demo_session_gen_DeserializeMeta
          demo_user_gen_Create demo_user_gen_Update demo_user_gen_Delete demo_user_gen_Get
          demo_session_gen_Create demo_session_gen_Update demo_session_gen_Delete demo_session_gen_Get demo_session_gen_purge
          demo_user_gen_Exec demo_session_gen_Exec demo_user_gen_First demo_session_gen_First demo_gen_Counts simp_thms)
qed


end
