(* ===== verification/Demo.thy ===== *)
theory Demo
  imports DemoGen "HOL-Library.Monad_Syntax"
begin

text \<open>
  Several tables in one store: every generated store works on the keys of its own table id.  The example program
  (\<open>example/main.go\<close>) runs on the user store of the demo package (theory \<open>DemoFile\<close>), whose functions are the emitted
  ones (theory \<open>DemoGen\<close>).
\<close>


section \<open>Tables in one store\<close>

text \<open>The physical keys of a table: its data rows and its index entries.\<close>

definition table_key :: "64 word \<Rightarrow> bytes \<Rightarrow> bool" where
  "table_key tid k \<longleftrightarrow> (\<exists>b. k = EncodeKey tid b) \<or> index_space tid k"

lemma table_keys_apart:
  assumes "table_key tid k" and "tid \<noteq> tid'"
  shows "\<not> index_space tid' k" and "k \<noteq> EncodeKey tid' b"
proof -
  have len: "length (put_be64 w) = 8" for w by simp
  show "\<not> index_space tid' k"
    using assms by (auto simp: table_key_def index_space_def EncodeKey_def EncodeIndexPrefix_def DataPrefix_def IndexPrefix_def)
  show "k \<noteq> EncodeKey tid' b"
    using assms by (auto simp: table_key_def index_space_def EncodeKey_def EncodeIndexPrefix_def DataPrefix_def IndexPrefix_def)
qed

definition same_table :: "64 word \<Rightarrow> kv_map \<Rightarrow> kv_map \<Rightarrow> bool" where
  "same_table tid m m' \<longleftrightarrow> (\<forall>k. table_key tid k \<longrightarrow> m' k = m k)"

lemma same_table_refl [simp]: "same_table tid m m"
  by (simp add: same_table_def)

text \<open>Rows and indexes of a table depend on its own keys only.\<close>

lemma same_table_rows:
  assumes "same_table (st_TableID y) m m'"
  shows "gen_rows E y e m' = gen_rows E y e m" and "gen_ok E F y e m' = gen_ok E F y e m"
proof -
  have data: "m' (EncodeKey (st_TableID y) b) = m (EncodeKey (st_TableID y) b)" for b
    using assms by (auto simp: same_table_def table_key_def)
  have idx: "m' k = m k" if "index_space (st_TableID y) k" for k
    using assms that by (auto simp: same_table_def table_key_def)
  have rows: "table_rows (st_TableID y) (\<lambda>i. i) dec m' = table_rows (st_TableID y) (\<lambda>i. i) dec m" for dec :: "bytes \<Rightarrow> go_struct option"
    by (simp add: table_rows_def data fun_eq_iff)
  show "gen_rows E y e m' = gen_rows E y e m" by (simp add: gen_rows_def rows)
  show "gen_ok E F y e m' = gen_ok E F y e m"
    unfolding gen_ok_def table_ok_def rows data using idx by auto
qed

text \<open>
  C8. Tables share a store without touching each other: the store emitted for an accepted table without a TTL field
  changes no key, data or index, of a table with another id, whatever is stored, whether the operation succeeds or not.
\<close>

theorem stores_isolated:
  assumes "BuildIR files = Inr ts" and "t \<in> set ts" and "\<not> t_HasTTL t"
    and "d = buildSerializerData t" and "compiles d" and "buildStoreData t = Some x" and "numbers_apart x"
    and "zstd_laws E" and "handle_ok E view pend h" and "gen_ok E F x d (db_view view h)"
    and "struct_ok (sd_Fields d) r" and "tid \<noteq> t_TableID t"
  shows "(\<exists>h' err. gen_Create E F x d (Some r) h = Some (h', err) \<and> same_table tid (db_view view h) (db_view view h'))
    \<and> (\<exists>h' err. gen_Update E F x d (Some r) h = Some (h', err) \<and> same_table tid (db_view view h) (db_view view h'))
    \<and> (\<exists>h' err. gen_Delete E F x d pk h = Some (h', err) \<and> same_table tid (db_view view h) (db_view view h'))"
proof -
  let ?m = "db_view view h"
  have ttl: "\<not> st_HasTTL x" using assms(3) by (simp add: buildStoreData_fields [OF assms(6)])
  have tid: "tid \<noteq> st_TableID x" using assms(6,12) by (auto simp: buildStoreData_def Let_def split: option.splits)
  note fields = accepted_fields_ok [OF assms(1,2), folded assms(4)]
  obtain v where v: "gen_Serialize E d r = Some v"
    using gen_roundtrip [OF assms(8,5) fields(2,1) assms(11), of 0] by auto
  have frame: "same_table tid ?m (apply_writes (save_writes (st_TableID x) (\<lambda>i. i) (gen_keys F x) i v old r) ?m)"
    "same_table tid ?m (apply_writes (delete_writes (st_TableID x) (\<lambda>i. i) (gen_keys F x) i old) ?m)" for i v old and r :: go_struct
    using table_keys_apart [OF _ tid] gen.save_frame gen.delete_frame by (auto simp: same_table_def)
  have save: "\<exists>h' err. gen_save what order E F x d r h = Some (h', err) \<and> same_table tid ?m (db_view view h')"
    if order: "set order = set (st_UniqueFields x @ st_NormalFields x)" for what order
  proof -
    obtain h' err where h': "gen_save what order E F x d r h = Some (h', err)" "handle_ok E view pend h'"
      "if gen_taken E F x d ?m r
       then db_view view h' = ?m \<and> (\<exists>e. err = Some e \<and> errors_is e ErrDuplicateKey)
       else if err = None
       then db_view view h' = apply_writes (save_writes (st_TableID x) (\<lambda>i. i) (gen_keys F x) (gen_rid F x r) v
         (gen_rows E x d ?m (gen_rid F x r)) r) ?m
       else db_view view h' = ?m \<and> \<not> writes_ok E"
      by (rule gen_save_run [OF assms(9,10) ttl assms(6,7) v order])
    have "same_table tid ?m (db_view view h')" using h'(3) frame(1) by (auto split: if_splits)
    with h'(1) show ?thesis by blast
  qed
  obtain h' err where h': "gen_Delete E F x d pk h = Some (h', err)" "handle_ok E view pend h'"
    "if err = None
     then db_view view h' = apply_writes (delete_writes (st_TableID x) (\<lambda>i. i) (gen_keys F x) (encodePrimaryKey F x pk)
       (gen_rows E x d ?m (encodePrimaryKey F x pk))) ?m
     else db_view view h' = ?m \<and> \<not> writes_ok E"
    by (rule gen_Delete_run [OF assms(9,10) ttl assms(6) refl])
  have "same_table tid ?m (db_view view h')" using h'(3) frame(2) by (auto split: if_splits)
  moreover have "set (st_IndexedFields x) = set (st_UniqueFields x @ st_NormalFields x)"
    using fields_set [OF assms(6)] by (rule sym)
  ultimately show ?thesis
    using h'(1) save [OF refl, of "''create''"] save [of "st_IndexedFields x" "''update''"]
    by (simp only: gen_Create_def gen_Update_def option.case) metis
qed

text \<open>Witness: the first row of the test package leaves the table of the demo package alone.\<close>

theorem stores_isolated_witness:
  "\<exists>h' err. gen_Create (calm_platform 0) no_floats user_store_data user_d (Some (user_struct example_user))
        (with_pebble ([], []) example_db) = Some (h', err)
    \<and> same_table 6216217600485199210 (db_view mem_view (with_pebble ([], []) example_db)) (db_view mem_view h')"
proof -
  let ?h = "with_pebble ([], []) example_db"
  have user: "user_table \<in> set [user_table, session_table]" and ttl: "\<not> t_HasTTL user_table"
    and id: "6216217600485199210 \<noteq> t_TableID user_table" by (simp_all add: user_table_def Let_def)
  have fits: "user_fits example_user" by (simp add: user_fits_def example_user_def)
  have empty: "db_view mem_view ?h = Map.empty" by (simp add: mem_view_def)
  have ok: "gen_ok (calm_platform 0) no_floats user_store_data user_d (db_view mem_view ?h)"
    unfolding empty by (rule gen_ok_empty)
  show ?thesis
    by (rule stores_isolated [where pk = "G64 7", OF BuildIR_testmodels user ttl refl user_compiles user_store_data user_numbers_apart
        calm_laws(4) example_handle ok user_struct_ok [OF fits] id, THEN conjunct1])
qed

lemma demo_user_facts:
  "\<not> t_HasTTL demo_user_table" "numbers_apart demo_user_store" "go_names_ok demo_user_table"
  "user_fits m \<Longrightarrow> struct_ok (sd_Fields demo_user_ser) (user_struct m)"
  "st_TableID demo_user_store = 6216217600485199210"
  using user_numbers_apart user_query_ok user_struct_ok [of m]
  by (simp_all add: demo_user_table_def user_table_def demo_user_store_def numbers_apart_def go_names_ok_def
      demo_user_ser_def Let_def)

section \<open>What the ids are hashes of\<close>

text \<open>
  The documents (\<open>README.md\<close>, \<open>docs/api.md\<close>, \<open>docs/ops.md\<close>) call a table id the hash of \<open>go_package + "." + MessageName\<close>.
  It is the hash of the proto package, a dot and the name: the ids of the demo tables are hashes of neither its
  \<open>go_package\<close> option nor the Go package resolved from it, and files that differ in \<open>go_package\<close> alone get the same ids.
\<close>

lemma BuildIR_ids:
  "BuildIR files = Inr ts \<Longrightarrow> map t_TableID ts = map fnv1a64 (concat (map table_names files))"
proof -
  assume files: "BuildIR files = Inr ts"
  then obtain st where st: "addFiles files (Map.empty, []) = Inr st" "ts = snd st"
    by (cases "addFiles files (Map.empty, [])") (auto simp: BuildIR_def)
  have "ir_inv (Map.empty, [])" by (simp add: ir_inv_def)
  from addFiles_wf [OF st(1) this] st(2) show ?thesis by simp
qed

theorem table_id_ignores_go_package:
  "map_sum id (map t_TableID) (BuildIR [demo_proto]) = Inr [fnv1a64 ''example.User'', fnv1a64 ''example.Session'']
   \<and> fnv1a64 ''example.User'' \<noteq> fnv1a64 (pf_go_package demo_proto @ ''.User'')
   \<and> fnv1a64 ''example.User'' \<noteq> fnv1a64 (resolveGoPackage demo_proto @ ''.User'')
   \<and> (\<forall>files goPkg ts ts'. BuildIR files = Inr ts \<longrightarrow>
        BuildIR (map (\<lambda>f. f\<lparr>pf_go_package := goPkg f\<rparr>) files) = Inr ts' \<longrightarrow> map t_TableID ts' = map t_TableID ts)"
proof -
  have ids: "fnv1a64 ''example.User'' = 6216217600485199210" "fnv1a64 ''example.Session'' = 12471666076920910287"
    by code_simp+
  have raw: "fnv1a64 ''example.User'' \<noteq> fnv1a64 (pf_go_package demo_proto @ ''.User'')"
    by code_simp
  have "resolveGoPackage demo_proto = ''demo''" by (simp add: resolveGoPackage_def demo_proto_def after_last_def)
  moreover have "fnv1a64 ''example.User'' \<noteq> fnv1a64 (''demo'' @ ''.User'')" by code_simp
  moreover have "map_sum id (map t_TableID) (BuildIR [demo_proto])
      = Inr [fnv1a64 ''example.User'', fnv1a64 ''example.Session'']"
    by (simp add: BuildIR_demo demo_user_table_def demo_session_table_def ids)
  moreover have "map t_TableID ts' = map t_TableID ts"
    if "BuildIR files = Inr ts" "BuildIR (map (\<lambda>f. f\<lparr>pf_go_package := goPkg f\<rparr>) files) = Inr ts'" for files goPkg ts ts'
    using that [THEN BuildIR_ids] by (simp add: comp_def table_names_def [abs_def])
  ultimately show ?thesis using raw by auto
qed

section \<open>The example program\<close>

text \<open>
  The part of \<open>example/main.go\<close> on users, on the handle that \<open>sqlitex.Open\<close> returns: what it prints.  It ignores
  every error, and stops with a nil dereference when the first \<open>Get\<close> finds no row.
\<close>

record example_output =
  ex_got :: "User option"
  ex_updated :: "User option"
  ex_exists :: bool
  ex_by_email :: "User list"
  ex_by_name :: "User list"
  ex_total :: nat

definition example_alice :: User where
  "example_alice =
     \<lparr>u_Id = 1, u_Name = str_bytes ''Alice'', u_Email = str_bytes ''alice@test.com'', u_CreatedAt = 0, u_Active = True,
      u_Bio = []\<rparr>"

definition example_bob :: User where
  "example_bob =
     \<lparr>u_Id = 2, u_Name = str_bytes ''Bob'', u_Email = str_bytes ''bob@test.com'', u_CreatedAt = 0, u_Active = False,
      u_Bio = []\<rparr>"

definition example_users :: "('p, 'b, 'i) platform \<Rightarrow> 'p DB \<Rightarrow> ('p DB \<times> example_output) option" where
  "example_users E h = do {
     (h, _) \<leftarrow> demo_user_Create E (Some example_alice) h;
     (h, _) \<leftarrow> demo_user_Create E (Some example_bob) h;
     (h, got) \<leftarrow> demo_user_Get E 1 h;
     u \<leftarrow> ignore_error got;
     (h, _) \<leftarrow> demo_user_Update E (Some (u\<lparr>u_Name := str_bytes ''Alice Updated''\<rparr>)) h;
     (h, updated) \<leftarrow> demo_user_Get E 1 h;
     (h, _) \<leftarrow> demo_user_Delete E 2 h;
     (h, deleted) \<leftarrow> demo_user_Get E 2 h;
     (h, users) \<leftarrow> demo_user_Exec E (demo_WhereEmail ''='' (str_bytes ''alice@test.com'') demo_NewUserQuery) h;
     (h, likes) \<leftarrow> demo_user_Exec E (demo_WhereName ''LIKE'' (str_bytes ''Ali'') demo_NewUserQuery) h;
     (h, n) \<leftarrow> demo_user_Count E demo_NewUserQuery h;
     Some (h, \<lparr>ex_got = Some u, ex_updated = ignore_error updated, ex_exists = (ignore_error deleted \<noteq> None),
       ex_by_email = users, ex_by_name = likes, ex_total = n\<rparr>)
   }"

abbreviation demo_rows :: "('p, 'b, 'i) platform \<Rightarrow> kv_map \<Rightarrow> bytes \<rightharpoonup> go_struct" where
  "demo_rows E m \<equiv> gen_rows E demo_user_store demo_user_ser m"

definition demo_ready :: "('p, 'b, 'i) platform \<Rightarrow> float_texts \<Rightarrow> ('p \<Rightarrow> kv_map) \<Rightarrow> ('b \<Rightarrow> (bytes \<times> bytes option) list)
    \<Rightarrow> User list \<Rightarrow> 'p DB \<Rightarrow> bool" where
  "demo_ready E F view pend us h \<longleftrightarrow> handle_ok E view pend h
     \<and> gen_ok E F demo_user_store demo_user_ser (db_view view h)
     \<and> demo_rows E (db_view view h) = map_of (map (\<lambda>u. (encodeUserPrimaryKey (u_Id u), user_struct u)) us)"

lemma demo_rid:
  "encodePrimaryKey F demo_user_store (G64 i) = encodeUserPrimaryKey i"
  "gen_rid F demo_user_store (user_struct u) = encodeUserPrimaryKey (u_Id u)"
  "encodeUserPrimaryKey i = encodeUserPrimaryKey j \<longleftrightarrow> i = j"
  by (simp_all add: gen_rid_def encodePrimaryKey_def demo_user_store_def user_store_data_def user_struct_def encodeUserPrimaryKey_def)

lemma demo_index:
  "st_UniqueFields demo_user_store = [idx ''Email'' ''email'' ''string'' 3 True]"
  "index_value F (user_struct u) (idx ''Email'' ''email'' ''string'' 3 True) = u_Email u"
  by (simp_all add: demo_user_store_def user_store_fields index_value_def encodeIndexValue_def idx_def user_struct_def)

text \<open>Saving a user whose email no other row has.\<close>

lemma demo_saved:
  assumes laws: "zstd_laws E" "writes_ok E" and h: "demo_ready E F view pend us h" and u: "user_fits u"
    and free: "\<And>w. w \<in> set us \<Longrightarrow> u_Email w = u_Email u \<Longrightarrow> u_Id w = u_Id u"
    and order: "set order = set (st_UniqueFields demo_user_store @ st_NormalFields demo_user_store)"
  obtains h' where "gen_save what order E F demo_user_store demo_user_ser (user_struct u) h = Some (h', None)"
    "demo_ready E F view pend (u # us) h'"
proof -
  have t: "demo_user_table \<in> set [demo_user_table, demo_session_table]" by simp
  note d = demo_data(1) [symmetric]
  have ok: "handle_ok E view pend h" "gen_ok E F demo_user_store demo_user_ser (db_view view h)"
    and rows: "demo_rows E (db_view view h) = map_of (map (\<lambda>u. (encodeUserPrimaryKey (u_Id u), user_struct u)) us)"
    using h by (simp_all add: demo_ready_def)
  have "\<not> gen_taken E F demo_user_store demo_user_ser (db_view view h) (user_struct u)"
    using free unfolding gen_taken_def gen_holder_def rows
    by (auto simp: demo_index demo_rid dest!: map_of_SomeD)
  moreover obtain h' err where h': "gen_save what order E F demo_user_store demo_user_ser (user_struct u) h = Some (h', err)"
    "handle_ok E view pend h'" "gen_ok E F demo_user_store demo_user_ser (db_view view h')"
    "gen_save_ok E F demo_user_store demo_user_ser (db_view view) (user_struct u) h h' err"
    by (rule gen_save_accepted [OF BuildIR_demo t demo_user_facts(1) d demo_serializers(1) demo_data(3) demo_user_facts(2)
        laws(1) ok demo_user_facts(4) [OF u] order])
  ultimately show ?thesis
    using laws(2) by (intro that [of h']) (auto simp: gen_save_ok_def demo_ready_def demo_rid rows split: if_splits)
qed

definition demo_find :: "User list \<Rightarrow> 64 word \<Rightarrow> User option" where
  "demo_find us i = map_of (map (\<lambda>u. (u_Id u, u)) us) i"

lemma demo_find_rows: "demo_ready E F view pend us h \<Longrightarrow> demo_rows E (db_view view h) (encodeUserPrimaryKey i) = map_option user_struct (demo_find us i)"
proof -
  have "map_of (map (\<lambda>u. (encodeUserPrimaryKey (u_Id u), user_struct u)) us) (encodeUserPrimaryKey i) = map_option user_struct (demo_find us i)"
    by (induction us) (simp_all add: demo_find_def demo_rid)
  then show "demo_ready E F view pend us h \<Longrightarrow> ?thesis" by (simp add: demo_ready_def)
qed

lemma user_struct_inj: "user_struct a = user_struct b \<longleftrightarrow> a = b"
proof
  assume e: "user_struct a = user_struct b"
  have "user_struct a n = user_struct b n" for n by (simp add: e)
  from this [of "''Id''"] this [of "''Name''"] this [of "''Email''"] this [of "''CreatedAt''"] this [of "''Active''"]
    this [of "''Bio''"]
  show "a = b" by (simp add: user_struct_def)
qed simp

lemma demo_step:
  assumes h: "demo_ready E F view pend us h"
  shows demo_created: "\<lbrakk>zstd_laws E; writes_ok E; user_fits u; \<forall>w \<in> set us. u_Email w = u_Email u \<longrightarrow> u_Id w = u_Id u\<rbrakk>
      \<Longrightarrow> \<exists>h'. demo_user_Create E (Some u) h = Some (h', None) \<and> demo_ready E F view pend (u # us) h'"
    and demo_updated: "\<lbrakk>zstd_laws E; writes_ok E; user_fits u; \<forall>w \<in> set us. u_Email w = u_Email u \<longrightarrow> u_Id w = u_Id u\<rbrakk>
      \<Longrightarrow> \<exists>h'. demo_user_Update E (Some u) h = Some (h', None) \<and> demo_ready E F view pend (u # us) h'"
    and demo_got: "\<exists>h'. demo_user_Get E i h = Some (h', Inr (demo_find us i)) \<and> demo_ready E F view pend us h'"
    and demo_deleted: "writes_ok E \<Longrightarrow> \<exists>h'. demo_user_Delete E i h = Some (h', None)
      \<and> demo_ready E F view pend (filter (\<lambda>u. u_Id u \<noteq> i) us) h'"
proof -
  have ok: "handle_ok E view pend h" "gen_ok E F demo_user_store demo_user_ser (db_view view h)"
    and rows: "demo_rows E (db_view view h) = map_of (map (\<lambda>u. (encodeUserPrimaryKey (u_Id u), user_struct u)) us)"
    using h by (simp_all add: demo_ready_def)
  have ttl: "\<not> st_HasTTL demo_user_store" by (simp add: demo_user_store_def user_store_fields)
  show "\<exists>h'. demo_user_Create E (Some u) h = Some (h', None) \<and> demo_ready E F view pend (u # us) h'"
    if "zstd_laws E" "writes_ok E" "user_fits u" "\<forall>w \<in> set us. u_Email w = u_Email u \<longrightarrow> u_Id w = u_Id u"
    using demo_saved [OF that(1,2) h that(3) _ refl, of "''create''"] that(4)
    unfolding demo_user_gen_Create [of E F "Some u", symmetric] gen_Create_def option.map option.case by metis
  show "\<exists>h'. demo_user_Update E (Some u) h = Some (h', None) \<and> demo_ready E F view pend (u # us) h'"
    if "zstd_laws E" "writes_ok E" "user_fits u" "\<forall>w \<in> set us. u_Email w = u_Email u \<longrightarrow> u_Id w = u_Id u"
    using demo_saved [OF that(1,2) h that(3) _ fields_set [OF demo_data(3), symmetric], of "''update''"] that(4)
    unfolding demo_user_gen_Update [of E F "Some u", symmetric] gen_Update_def option.map option.case by metis
  show "\<exists>h'. demo_user_Get E i h = Some (h', Inr (demo_find us i)) \<and> demo_ready E F view pend us h'"
  proof -
    obtain h' where h': "gen_Get E F demo_user_store demo_user_ser (G64 i) h
        = Some (h', Inr (map_option user_struct (demo_find us i)))"
      "handle_ok E view pend h'" "db_view view h' = db_view view h"
      using gen_Get_eq [OF ok ttl, where pk = "G64 i"] unfolding demo_rid demo_find_rows [OF h] by blast
    obtain r where "demo_user_Get E i h = Some (h', r)"
      "map_sum id (map_option user_struct) r = Inr (map_option user_struct (demo_find us i))"
      using h'(1) unfolding demo_user_gen_Get by auto
    moreover have "map_option user_struct x = map_option user_struct y \<longleftrightarrow> x = y" for x y
      by (cases x; cases y) (simp_all add: user_struct_inj)
    ultimately have "demo_user_Get E i h = Some (h', Inr (demo_find us i))" by (cases r) simp_all
    with h h' show ?thesis by (auto simp: demo_ready_def)
  qed
  have del: "map_of (map (\<lambda>u. (encodeUserPrimaryKey (u_Id u), user_struct u)) (filter (\<lambda>u. u_Id u \<noteq> i) us))
      = (map_of (map (\<lambda>u. (encodeUserPrimaryKey (u_Id u), user_struct u)) us))(encodeUserPrimaryKey i := None)"
    by (induction us) (auto simp: fun_eq_iff demo_rid)
  assume w: "writes_ok E"
  obtain h' err where h': "demo_user_Delete E i h = Some (h', err)" "handle_ok E view pend h'"
    "gen_ok E F demo_user_store demo_user_ser (db_view view h')"
    "if err = None then demo_rows E (db_view view h') = (demo_rows E (db_view view h))(encodeUserPrimaryKey i := None)
     else db_view view h' = db_view view h \<and> \<not> writes_ok E"
    unfolding demo_user_gen_Delete [of E F, symmetric] by (rule gen_Delete_spec [OF ok ttl demo_data(3) refl, where pk = "G64 i", unfolded demo_rid(1)])
  from h'(4) w have "err = None"
    "demo_rows E (db_view view h') = (demo_rows E (db_view view h))(encodeUserPrimaryKey i := None)"
    by (simp_all split: if_splits)
  with h'(1-3) show "\<exists>h'. demo_user_Delete E i h = Some (h', None)
      \<and> demo_ready E F view pend (filter (\<lambda>u. u_Id u \<noteq> i) us) h'"
    unfolding demo_ready_def del rows by blast
qed

text \<open>A query on a table with one user.\<close>

lemma demo_queried:
  assumes h: "demo_ready E F view pend us h" and it: "iter_laws E view snap pos"
    and us: "us \<noteq> []" "\<forall>u \<in> set us. u_Id u = u_Id (hd us)"
    and ws: "plain_filters demo_user_queries ws" and q: "gen_query F demo_user_store ws 0 None = as_gen q"
    and sat: "gen_sat ws (user_struct (hd us))"
  shows "\<exists>h'. demo_user_Exec E q h = Some (h', [hd us]) \<and> demo_ready E F view pend us h'"
proof -
  have t: "demo_user_table \<in> set [demo_user_table, demo_session_table]" by simp
  note d = demo_data(1) [symmetric]
  have ok: "handle_ok E view pend h" "gen_ok E F demo_user_store demo_user_ser (db_view view h)"
    and rows: "demo_rows E (db_view view h) = map_of (map (\<lambda>u. (encodeUserPrimaryKey (u_Id u), user_struct u)) us)"
    using h by (simp_all add: demo_ready_def)
  have usable: "index_usable demo_user_queries demo_user_store ws None"
    by (auto simp: index_usable_def demo_user_queries_def user_query_data_def qfield_def exact_types_def split: list.split)
  obtain h' rs where rs: "gen_listing (demo_rows E (db_view view h)) (gen_rid F demo_user_store) (after_key None) rs"
    and run: "gen_Exec E F demo_user_store demo_user_ser demo_user_queries (as_gen q) h
      = Some (h', take_limit 0 (filter (gen_sat ws) rs))"
    "handle_ok E view pend h'" "db_view view h' = db_view view h"
    using gen_Exec_accepted [OF BuildIR_demo t demo_user_facts(1) d demo_data(3,5) demo_user_facts(2,3) ok it ws usable,
        where n = 0, unfolded option.map(1)]
    unfolding q by blast
  have tail: "map_of (map (\<lambda>u. (encodeUserPrimaryKey (u_Id u), user_struct u)) ws)
      = (if ws = [] then Map.empty else [encodeUserPrimaryKey i \<mapsto> user_struct (hd ws)])"
    if "\<forall>u \<in> set ws. u_Id u = i" for ws i
    using that by (induction ws) auto
  have "demo_rows E (db_view view h) = [gen_rid F demo_user_store (user_struct (hd us)) \<mapsto> user_struct (hd us)]"
    unfolding rows demo_rid using tail [OF us(2)] us(1) by simp
  from rs [unfolded this] have "rs = [user_struct (hd us)]" by (rule listing_single) (simp add: after_key_def)
  then have "map_option (as_rows user_struct) (demo_user_Exec E q h) = Some (h', [user_struct (hd us)])"
    using run(1) sat unfolding demo_user_gen_Exec by (simp add: take_limit_def)
  then have "demo_user_Exec E q h = Some (h', [hd us])"
    by (auto simp: as_rows_def user_struct_inj map_eq_Cons_conv)
  with run h show ?thesis by (auto simp: demo_ready_def)
qed

definition example_alice2 :: User where
  "example_alice2 = example_alice\<lparr>u_Name := str_bytes ''Alice Updated''\<rparr>"

lemma example_rows:
  "user_fits example_alice" "user_fits example_bob" "user_fits example_alice2"
  "u_Id example_alice = 1" "u_Id example_bob = 2" "u_Id example_alice2 = 1"
  "u_Email example_bob \<noteq> u_Email example_alice" "u_Email example_alice2 = u_Email example_alice"
  "example_alice\<lparr>u_Name := str_bytes ''Alice Updated''\<rparr> = example_alice2"
  by (simp_all add: user_fits_def example_alice_def example_bob_def example_alice2_def str_bytes_def)

lemma example_queries:
  "gen_query F demo_user_store [(qfield ''Email'' ''string'' 3 True, ''='', GBytes a)] 0 None
    = as_gen (demo_WhereEmail ''='' a demo_NewUserQuery)"
  "gen_query F demo_user_store [(qfield ''Name'' ''string'' 2 False, ''LIKE'', GBytes a)] 0 None
    = as_gen (demo_WhereName ''LIKE'' a demo_NewUserQuery)"
  "gen_query F demo_user_store [] 0 None = as_gen demo_NewUserQuery"
  by (simp_all add: gen_query_def demo_as_gen_builder)
     (simp_all add: demo_query_Limit_def demo_WhereEmail_def demo_WhereName_def demo_NewUserQuery_def add_cond_def)

lemma example_plain:
  "plain_filters demo_user_queries [(qfield ''Email'' ''string'' 3 True, ''='', GBytes a)]"
  "plain_filters demo_user_queries [(qfield ''Name'' ''string'' 2 False, ''LIKE'', GBytes a)]"
  "plain_filters demo_user_queries []"
  by (simp_all add: plain_filters_def demo_user_queries_def user_query_data_def qfield_def has_type_def)

lemma example_sat:
  "gen_sat [(qfield ''Email'' ''string'' 3 True, ''='', GBytes (str_bytes ''alice@test.com''))] (user_struct example_alice2)"
  "gen_sat [(qfield ''Name'' ''string'' 2 False, ''LIKE'', GBytes (str_bytes ''Ali''))] (user_struct example_alice2)"
  "gen_sat [] r"
  by (simp_all add: gen_sat_def gen_holds_def qfield_def user_struct_def example_alice2_def example_alice_def gen_op_def str_bytes_def)

text \<open>
  C9. The example program prints what its comments announce: on an empty database whose engine reports no disk error,
  the row created first is read back, the second \<open>Get\<close> sees the update, the deleted row is gone, the query through
  the unique index and the \<open>LIKE\<close> query each list the updated row once, and the count is one.
\<close>

theorem example_program_output:
  assumes "zstd_laws E" and "writes_ok E" and "iter_laws E view snap pos" and "handle_ok E view pend h"
    and "db_view view h = Map.empty"
  shows "\<exists>h'. example_users E h = Some (h',
    \<lparr>ex_got = Some example_alice, ex_updated = Some example_alice2, ex_exists = False,
     ex_by_email = [example_alice2], ex_by_name = [example_alice2], ex_total = 1\<rparr>)"
proof -
  have h: "demo_ready E no_floats view pend [] h" using assms(4,5) by (simp add: demo_ready_def gen_ok_empty)
  note laws = assms(1,2) and ex = example_rows
  let ?us = "[example_alice2, example_alice]"
  obtain h1 where h1: "demo_user_Create E (Some example_alice) h = Some (h1, None)"
    "demo_ready E no_floats view pend [example_alice] h1"
    using demo_created [OF h laws ex(1)] by auto
  obtain h2 where h2: "demo_user_Create E (Some example_bob) h1 = Some (h2, None)"
    "demo_ready E no_floats view pend [example_bob, example_alice] h2"
    using demo_created [OF h1(2) laws ex(2)] ex(7) by (auto simp: eq_commute)
  obtain h3 where h3: "demo_user_Get E 1 h2 = Some (h3, Inr (Some example_alice))"
    "demo_ready E no_floats view pend [example_bob, example_alice] h3"
    using demo_got [OF h2(2), of 1] by (auto simp: demo_find_def ex)
  obtain h4 where h4: "demo_user_Update E (Some example_alice2) h3 = Some (h4, None)"
    "demo_ready E no_floats view pend [example_alice2, example_bob, example_alice] h4"
    using demo_updated [OF h3(2) laws ex(3)] ex(7) by (auto simp: ex)
  obtain h5 where h5: "demo_user_Get E 1 h4 = Some (h5, Inr (Some example_alice2))"
    "demo_ready E no_floats view pend [example_alice2, example_bob, example_alice] h5"
    using demo_got [OF h4(2), of 1] by (auto simp: demo_find_def ex)
  obtain h6 where h6: "demo_user_Delete E 2 h5 = Some (h6, None)" "demo_ready E no_floats view pend ?us h6"
    using demo_deleted [OF h5(2) laws(2), of 2] by (auto simp: ex)
  obtain h7 where h7: "demo_user_Get E 2 h6 = Some (h7, Inr None)" "demo_ready E no_floats view pend ?us h7"
    using demo_got [OF h6(2), of 2] by (auto simp: demo_find_def ex)
  have us: "?us \<noteq> []" "\<forall>u \<in> set ?us. u_Id u = u_Id (hd ?us)" by (simp_all add: ex)
  note query = demo_queried [OF _ assms(3) us]
  obtain h8 where h8: "demo_user_Exec E (demo_WhereEmail ''='' (str_bytes ''alice@test.com'') demo_NewUserQuery) h7
      = Some (h8, [example_alice2])" "demo_ready E no_floats view pend ?us h8"
    using query [OF h7(2) example_plain(1) example_queries(1), of "str_bytes ''alice@test.com''"] example_sat(1) by auto
  obtain h9 where h9: "demo_user_Exec E (demo_WhereName ''LIKE'' (str_bytes ''Ali'') demo_NewUserQuery) h8
      = Some (h9, [example_alice2])" "demo_ready E no_floats view pend ?us h9"
    using query [OF h8(2) example_plain(2) example_queries(2), of "str_bytes ''Ali''"] example_sat(2) by auto
  obtain h10 where h10: "demo_user_Count E demo_NewUserQuery h9 = Some (h10, 1)"
    using query [OF h9(2) example_plain(3) example_queries(3)]
    by (auto simp: example_sat(3) demo_user_Count_def)
  show ?thesis
    by (simp only: example_users_def h1(1) h2(1) h3(1) h4(1) h5(1) h6(1) h7(1) h8(1) h9(1) h10 bind.bind_lunit prod.case
        ignore_error.simps ex(9)) simp
qed

theorem example_program_output_witness:
  "\<exists>h'. example_users (calm_platform 0) (with_pebble ([], []) example_db) = Some (h',
    \<lparr>ex_got = Some example_alice, ex_updated = Some example_alice2, ex_exists = False,
     ex_by_email = [example_alice2], ex_by_name = [example_alice2], ex_total = 1\<rparr>)"
  by (rule example_program_output [OF calm_laws(4,5,3) example_handle]) (simp add: mem_view_def)

end
