(* ===== verification/Metrics.thy ===== *)
theory Metrics
  imports DB
begin

text \<open>
  The metrics of a handle (\<open>metrics.go\<close>): the gauges read at a scrape, the text exposition, and what the counters
  of the theory \<open>DB\<close> amount to after any history of calls.
\<close>


section \<open>Gauges and exposition\<close>

text \<open>
  The gauges are read when the registry is scraped: the engine's disk usage and the heap of the process are
  parameters.  Gathering and the text format are functions of the Prometheus library: the parameter \<open>encode\<close>.
\<close>

record gauges =
  g_queueDepth :: nat
  g_diskBytes :: nat
  g_memBytes :: nat
  g_cacheBytes :: int
  g_cacheItems :: int

definition gauges_of :: "('p \<Rightarrow> nat) \<Rightarrow> nat \<Rightarrow> 'p DB \<Rightarrow> gauges" where
  "gauges_of disk heap d =
     \<lparr>g_queueDepth = wq_Len (db_queue d),
      g_diskBytes = (if db_closed d then 0 else disk (db_pebble d)),
      g_memBytes = heap,
      g_cacheBytes =
        (case db_hotCache d of None \<Rightarrow> 0 | Some c \<Rightarrow> let (_, _, _, _, cur, _) = tl_Stats c in cur),
      g_cacheItems =
        (case db_hotCache d of None \<Rightarrow> 0 | Some c \<Rightarrow> let (_, _, _, entries, _, _) = tl_Stats c in entries)\<rparr>"

definition db_MetricsRegistry :: "('p \<Rightarrow> nat) \<Rightarrow> nat \<Rightarrow> 'p DB \<Rightarrow> (metrics \<times> gauges) option" where
  "db_MetricsRegistry disk heap d = map_option (\<lambda>m. (m, gauges_of disk heap d)) (db_metrics d)"

definition db_MetricsText ::
  "(metrics \<times> gauges \<Rightarrow> go_error + bytes) \<Rightarrow> ('p \<Rightarrow> nat) \<Rightarrow> nat \<Rightarrow> 'p DB \<Rightarrow> go_error + bytes" where
  "db_MetricsText encode disk heap d =
     (case db_metrics d of
        None \<Rightarrow> Inl (ErrorMsg ''sqlitex: metrics not enabled (Config.Metrics=false)'')
      | Some m \<Rightarrow> encode (m, gauges_of disk heap d))"

section \<open>What a history should count\<close>

fun op_name :: "db_op \<Rightarrow> string" where
  "op_name (DPut k v) = ''put''"
| "op_name (DPutSync k v) = ''put_sync''"
| "op_name (DDelete k) = ''delete''"
| "op_name (DGet k) = ''get''"
| "op_name (DWriteBatch ops) = ''batch''"
| "op_name _ = ''''"

fun res_err :: "db_res \<Rightarrow> go_error option" where
  "res_err (RErr e) = e"
| "res_err (RVal r) = err_of r"

type_synonym db_event = "db_op \<times> db_res"

text \<open>The calls that are counted: \<open>PutSync\<close> leaves without \<open>finish\<close> when the handle is closed or the key is empty.\<close>

fun observed_op :: "bool \<Rightarrow> db_op \<Rightarrow> bool" where
  "observed_op closed (DPutSync k v) \<longleftrightarrow> \<not> closed \<and> k \<noteq> []"
| "observed_op closed op \<longleftrightarrow> op_name op \<noteq> ''''"

fun observed :: "bool \<Rightarrow> db_event list \<Rightarrow> db_event list" where
  "observed closed [] = []"
| "observed closed ((op, r) # t) =
     (if observed_op closed op then [(op, r)] else []) @ observed (closed \<or> op = DClose) t"

definition event_label :: "db_event \<Rightarrow> string \<times> string" where
  "event_label e = (op_name (fst e), resultOf (res_err (snd e)))"

definition throttled :: "db_event \<Rightarrow> bool" where
  "throttled e \<longleftrightarrow> (\<exists>x. res_err (snd e) = Some x \<and> errors_is x ErrWriteThrottled)"

fun batch_sizes :: "db_event list \<Rightarrow> nat list" where
  "batch_sizes [] = []"
| "batch_sizes ((DWriteBatch ops, r) # t) = length ops # batch_sizes t"
| "batch_sizes (_ # t) = batch_sizes t"

definition counts :: "metrics \<Rightarrow> db_event list \<Rightarrow> metrics \<Rightarrow> bool" where
  "counts m es m' \<longleftrightarrow>
     (\<forall>l. m_opsTotal m' l = m_opsTotal m l + count_list (map event_label es) l)
   \<and> map fst (m_opDuration m') = map fst (m_opDuration m) @ map (op_name \<circ> fst) es
   \<and> m_throttled m' = m_throttled m + length (filter throttled es)
   \<and> m_batchSize m' = m_batchSize m @ batch_sizes es"

lemma batch_sizes_append: "batch_sizes (xs @ ys) = batch_sizes xs @ batch_sizes ys"
  by (induction xs rule: batch_sizes.induct) simp_all

lemma counts_refl: "counts m [] m" by (simp add: counts_def)

lemma counts_trans: "counts m es m1 \<Longrightarrow> counts m1 es' m2 \<Longrightarrow> counts m (es @ es') m2"
  by (simp add: counts_def batch_sizes_append)

section \<open>The cache's own counters\<close>

definition cache_hits :: "'p DB \<Rightarrow> (int \<times> int) option" where
  "cache_hits d = map_option (\<lambda>c. (tl_hits c, tl_misses c)) (db_hotCache d)"

lemma drop_hits [simp]: "tl_hits (tl_drop k e c) = tl_hits c" "tl_misses (tl_drop k e c) = tl_misses c"
  by (simp_all add: tl_drop_def tl_unlink_def)

lemma unlink_hits [simp]: "tl_hits (tl_unlink e c) = tl_hits c" "tl_misses (tl_unlink e c) = tl_misses c"
  by (simp_all add: tl_unlink_def)

lemma evict_hits [simp]:
  "tl_hits (tl_evict_loop n c) = tl_hits c" "tl_misses (tl_evict_loop n c) = tl_misses c"
proof -
  have "tl_hits (tl_evict_loop n c) = tl_hits c \<and> tl_misses (tl_evict_loop n c) = tl_misses c"
  proof (induction n c rule: tl_evict_loop.induct)
    case (1 n c)
    then show ?case
      by (subst (1 2) tl_evict_loop.simps) (simp add: evictLocked_def Let_def)
  qed
  then show "tl_hits (tl_evict_loop n c) = tl_hits c" "tl_misses (tl_evict_loop n c) = tl_misses c" by simp_all
qed

lemma sweep_hits [simp]: "tl_hits (sweepExpired t c) = tl_hits c" "tl_misses (sweepExpired t c) = tl_misses c"
proof -
  have "tl_hits (sweepExpired t c) = tl_hits c \<and> tl_misses (sweepExpired t c) = tl_misses c"
  proof (induction t c rule: sweepExpired.induct)
    case (1 t c)
    then show ?case by (subst (1 2) sweepExpired.simps) (simp add: Let_def)
  qed
  then show "tl_hits (sweepExpired t c) = tl_hits c" "tl_misses (sweepExpired t c) = tl_misses c" by simp_all
qed

lemma set_hits [simp]: "tl_hits (tl_Set c k v t) = tl_hits c" "tl_misses (tl_Set c k v t) = tl_misses c"
  by (simp_all add: tl_Set_def Let_def split: option.split)

lemma record_hits [simp]: "tl_hits (fst (tl_Record c k)) = tl_hits c" "tl_misses (fst (tl_Record c k)) = tl_misses c"
  by (simp_all add: tl_Record_def split: prod.split)

lemma delete_hits [simp]: "tl_hits (tl_Delete c k) = tl_hits c" "tl_misses (tl_Delete c k) = tl_misses c"
  by (simp_all add: tl_Delete_def split: option.split)

lemma get_hits:
  "tl_Get c k t = (c', hit) \<Longrightarrow> tl_hits c' = tl_hits c + (if hit = None then 0 else 1)
    \<and> tl_misses c' = tl_misses c + (if hit = None then 1 else 0)"
  by (auto simp: tl_Get_def tl_expire_def Let_def split: option.splits if_splits)


section \<open>One call\<close>

definition obs_frame :: "'p DB \<Rightarrow> 'p DB \<Rightarrow> bool" where
  "obs_frame d d' \<longleftrightarrow> db_metrics d' = db_metrics d \<and> cache_hits d' = cache_hits d \<and> db_closed d' = db_closed d"

lemma obs_frame_refl [simp]: "obs_frame d d" by (simp add: obs_frame_def)

lemma obs_frame_trans: "obs_frame a b \<Longrightarrow> obs_frame b c \<Longrightarrow> obs_frame a c" by (simp add: obs_frame_def)

lemma delete_obs: "obs_frame d (cache_delete k d)"
  by (simp add: obs_frame_def cache_hits_def cache_delete_def split: option.split)

lemma deletes_obs: "obs_frame d (fold (\<lambda>op. cache_delete (kp_Key op)) ops d)"
  by (induction ops arbitrary: d) (auto intro: obs_frame_trans delete_obs)

lemma pebble_obs: "obs_frame d (with_pebble p d)"
  by (simp add: obs_frame_def cache_hits_def with_pebble_def)

lemma submit_obs: "db_submit E k v op d = (d', e) \<Longrightarrow> obs_frame d d'"
  by (auto simp: db_submit_def obs_frame_def cache_hits_def Let_def split: prod.splits option.splits if_splits)

lemma admit_obs: "obs_frame d (cache_admit E k v d)"
proof (cases "db_hotCache d")
  case (Some c)
  have "tl_hits (fst (tl_Record c k)) = tl_hits c" "tl_misses (fst (tl_Record c k)) = tl_misses c" by simp_all
  with Some show ?thesis
    by (cases "tl_Record c k") (simp add: cache_admit_def obs_frame_def cache_hits_def db_now_def Let_def)
qed (simp add: cache_admit_def)

lemma pebble_get_obs: "pebble_get E k d = (d', r) \<Longrightarrow> obs_frame d d'"
  using delete_obs [of d k] admit_obs [of d E k] by (auto simp: pebble_get_def split: sum.splits if_splits)

lemma writeBatch_obs:
  assumes "db_writeBatch E ops d = (d', e)"
  shows "obs_frame d d'"
proof -
  have "obs_frame d (fold (\<lambda>op. cache_delete (kp_Key op)) ops (with_pebble p d))" for p
    by (rule obs_frame_trans [OF pebble_obs deletes_obs])
  with assms pebble_obs [of d] show ?thesis
    by (auto simp: db_writeBatch_def Let_def split: prod.splits option.splits if_splits)
qed

lemma start_obs: "obs_frame d (snd (startOp E op d))"
  by (simp add: startOp_def db_now_def obs_frame_def cache_hits_def split: option.split)

text \<open>A timer of a handle with metrics records one event when it ends.\<close>

lemma finish_obs:
  assumes t: "fst (startOp E n d0) = timer" and m: "db_metrics d0 = Some m" and d: "db_metrics d = Some m1"
    and n: "n = op_name op" "res_err r = err"
  shows "\<exists>m'. db_metrics (opTimer_finish E timer err d) = Some m' \<and> m_cacheTotal m' = m_cacheTotal m1
    \<and> cache_hits (opTimer_finish E timer err d) = cache_hits d \<and> db_closed (opTimer_finish E timer err d) = db_closed d
    \<and> (\<forall>l. m_opsTotal m' l = m_opsTotal m1 l + count_list [event_label (op, r)] l)
    \<and> map fst (m_opDuration m') = map fst (m_opDuration m1) @ [op_name op]
    \<and> m_throttled m' = m_throttled m1 + length (filter throttled [(op, r)])
    \<and> m_batchSize m' = m_batchSize m1"
proof -
  obtain s where "timer = Some (n, s)" using t m by (auto simp: startOp_def db_now_def)
  then show ?thesis
    using n d by (auto simp: opTimer_finish_def db_now_def Let_def m_observe_def m_observeThrottled_def event_label_def
        throttled_def cache_hits_def)
qed

text \<open>The counter of cache lookups agrees with the cache's own counters.\<close>

definition cache_counted :: "'p DB \<Rightarrow> bool" where
  "cache_counted d \<longleftrightarrow> (\<forall>m. db_metrics d = Some m \<longrightarrow>
     cache_hits d = None \<or> cache_hits d = Some (int (m_cacheTotal m ''hit''), int (m_cacheTotal m ''miss'')))"

definition step_counts :: "'p DB \<Rightarrow> db_event list \<Rightarrow> 'p DB \<Rightarrow> bool" where
  "step_counts d es d' \<longleftrightarrow>
     (\<forall>m. db_metrics d = Some m \<longrightarrow> (\<exists>m'. db_metrics d' = Some m' \<and> counts m es m')) \<and> (cache_counted d \<longrightarrow> cache_counted d')"

lemma step_counts_frame: "obs_frame d d' \<Longrightarrow> step_counts d [] d'"
  by (auto simp: step_counts_def obs_frame_def cache_counted_def counts_refl)

lemma step_counts_trans: "step_counts d es d1 \<Longrightarrow> step_counts d1 es' d2 \<Longrightarrow> step_counts d (es @ es') d2"
  unfolding step_counts_def using counts_trans by blast

lemma timed_counts:
  assumes m: "db_metrics d0 = Some m" and mid: "obs_frame (snd (startOp E n d0)) d"
    and n: "n = op_name op" "res_err r = err" "batch_sizes [(op, r)] = []"
  shows "step_counts d0 [(op, r)] (opTimer_finish E (fst (startOp E n d0)) err d)"
proof -
  have f: "obs_frame d0 d" by (rule obs_frame_trans [OF start_obs mid])
  then have dm: "db_metrics d = Some m" using m by (simp add: obs_frame_def)
  let ?d = "opTimer_finish E (fst (startOp E n d0)) err d"
  obtain m' where m': "db_metrics ?d = Some m'" "m_cacheTotal m' = m_cacheTotal m" "cache_hits ?d = cache_hits d"
    "\<forall>l. m_opsTotal m' l = m_opsTotal m l + count_list [event_label (op, r)] l"
    "map fst (m_opDuration m') = map fst (m_opDuration m) @ [op_name op]"
    "m_throttled m' = m_throttled m + length (filter throttled [(op, r)])" "m_batchSize m' = m_batchSize m"
    using finish_obs [OF refl m dm n(1,2), of E] by blast
  have "counts m [(op, r)] m'" unfolding counts_def using m'(4-7) n(3) by simp
  moreover have "cache_counted d0 \<longrightarrow> cache_counted ?d"
    using f m m'(1-3) by (simp add: cache_counted_def obs_frame_def)
  ultimately show ?thesis using m m'(1) by (simp add: step_counts_def)
qed

lemma get_obs:
  assumes m: "db_metrics d = Some m" and r: "db_get E k d = (d', r)"
  shows "\<exists>m'. db_metrics d' = Some m' \<and> db_closed d' = db_closed d \<and> counts m [] m' \<and> (cache_counted d \<longrightarrow> cache_counted d')"
proof (cases "db_closed d \<or> k = []")
  case True
  then have "d' = d" using r unfolding db_get_def by (auto split: if_splits)
  then show ?thesis using m by (auto simp: counts_refl)
next
  case False
  show ?thesis
  proof (cases "db_hotCache d")
    case None
    then have "obs_frame d d'" using r False by (auto simp: db_get_def intro: pebble_get_obs)
    then show ?thesis using m by (auto simp: obs_frame_def counts_refl cache_counted_def)
  next
    case (Some c)
    obtain c1 hit where c1: "tl_Get c k (time_Now E (db_tick d)) = (c1, hit)" by fastforce
    let ?d2 = "(snd (db_now E d))\<lparr>db_hotCache := Some c1\<rparr>"
    let ?d3 = "db_observeCache (hit \<noteq> None) ?d2"
    have "obs_frame ?d3 d'"
      using r False Some c1 by (auto simp: db_get_def db_now_def Let_def split: option.splits intro: pebble_get_obs)
    moreover have "\<exists>m3. db_metrics ?d3 = Some m3 \<and> db_closed ?d3 = db_closed d \<and> counts m [] m3
        \<and> (cache_counted d \<longrightarrow> cache_counted ?d3)"
      using m get_hits [OF c1] Some
      by (auto simp: db_observeCache_def db_now_def m_observeCache_def counts_def cache_counted_def cache_hits_def Let_def)
    ultimately show ?thesis by (auto simp: obs_frame_def cache_counted_def)
  qed
qed

text \<open>Every call counts what its result says.\<close>

lemma db_step_counts:
  assumes m: "db_metrics d = Some m" and st: "db_step E op d = (d', r)"
  shows "step_counts d (observed (db_closed d) [(op, r)]) d' \<and> db_closed d' = (db_closed d \<or> op = DClose)"
proof -
  have start: "db_closed (snd (startOp E n d)) = db_closed d" "obs_frame d (snd (startOp E n d))" for n
    using start_obs [of d E n] by (simp_all add: obs_frame_def)
  have drop: "obs_frame d2 (if b then cache_delete k d2 else d2)" for d2 k b by (simp add: delete_obs)
  have fin: "db_closed (opTimer_finish E t e d2) = db_closed d2" for t e d2
    by (simp add: opTimer_finish_def db_now_def Let_def split: option.split prod.split)
  show ?thesis
  proof (cases op)
    case (DPut k v)
    obtain d2 e where e: "db_submit E k v OpPut (snd (startOp E ''put'' d)) = (d2, e)" "r = RErr e"
      "d' = opTimer_finish E (fst (startOp E ''put'' d)) e (if e = None then cache_delete k d2 else d2)"
      using st DPut by (auto simp: db_Put_def Let_def case_prod_unfold prod_eq_iff)
    note f = obs_frame_trans [OF submit_obs [OF e(1)] drop]
    from timed_counts [OF m f, of op r e] DPut e(2,3) f start show ?thesis
      by (simp add: fin obs_frame_def)
  next
    case (DDelete k)
    obtain d2 e where e: "db_submit E k [] OpDelete (snd (startOp E ''delete'' d)) = (d2, e)" "r = RErr e"
      "d' = opTimer_finish E (fst (startOp E ''delete'' d)) e (if e = None then cache_delete k d2 else d2)"
      using st DDelete by (auto simp: db_Delete_def Let_def case_prod_unfold prod_eq_iff)
    note f = obs_frame_trans [OF submit_obs [OF e(1)] drop]
    from timed_counts [OF m f, of op r e] DDelete e(2,3) f start show ?thesis
      by (simp add: fin obs_frame_def)
  next
    case (DPutSync k v)
    let ?d1 = "snd (startOp E ''put_sync'' d)"
    show ?thesis
    proof (cases "db_closed d \<or> k = []")
      case True
      then have "d' = ?d1" "\<not> observed_op (db_closed d) op"
        using st DPutSync start by (auto simp: db_PutSync_def Let_def case_prod_unfold)
      with step_counts_frame [OF start(2)] start(1) DPutSync show ?thesis by auto
    next
      case False
      obtain p e where pe: "pb_Set E k v True (db_pebble ?d1) = (p, e)" by fastforce
      then have e: "r = RErr e" "d' = opTimer_finish E (fst (startOp E ''put_sync'' d)) e
          (if e = None then cache_delete k (with_pebble p ?d1) else with_pebble p ?d1)"
        using st DPutSync start False by (auto simp: db_PutSync_def Let_def case_prod_unfold)
      have f: "obs_frame ?d1 (if e = None then cache_delete k (with_pebble p ?d1) else with_pebble p ?d1)"
        by (rule obs_frame_trans [OF pebble_obs drop])
      from timed_counts [OF m f, of op r e] DPutSync e f start False show ?thesis
        by (simp add: fin obs_frame_def)
    qed
  next
    case (DGet k)
    let ?d1 = "snd (startOp E ''get'' d)"
    obtain d2 q where q: "db_get E k ?d1 = (d2, q)" "r = RVal q"
      "d' = opTimer_finish E (fst (startOp E ''get'' d)) (err_of q) d2"
      using st DGet by (auto simp: db_Get_def Let_def case_prod_unfold prod_eq_iff)
    have m1: "db_metrics ?d1 = Some m" using m start(2) by (simp add: obs_frame_def)
    obtain m2 where m2: "db_metrics d2 = Some m2" "db_closed d2 = db_closed ?d1" "counts m [] m2"
      "cache_counted ?d1 \<longrightarrow> cache_counted d2" using get_obs [OF m1 q(1)] by blast
    obtain m' where m': "db_metrics d' = Some m'" "m_cacheTotal m' = m_cacheTotal m2" "cache_hits d' = cache_hits d2"
      "\<forall>l. m_opsTotal m' l = m_opsTotal m2 l + count_list [event_label (op, r)] l"
      "map fst (m_opDuration m') = map fst (m_opDuration m2) @ [op_name op]"
      "m_throttled m' = m_throttled m2 + length (filter throttled [(op, r)])" "m_batchSize m' = m_batchSize m2"
      using finish_obs [OF refl m m2(1), where E = E and n = "''get''" and op = op and r = r and err = "err_of q"] DGet q(2,3) by auto
    have "counts m2 [(op, r)] m'" unfolding counts_def using m'(4-7) DGet by simp
    from counts_trans [OF m2(3) this] have "counts m [(op, r)] m'" by simp
    moreover have "cache_counted d \<longrightarrow> cache_counted d'"
      using m2(1,4) m'(1-3) m m1 start(2) by (simp add: cache_counted_def obs_frame_def)
    ultimately have "step_counts d [(op, r)] d'" using m m'(1) by (simp add: step_counts_def)
    with DGet q(3) m2(2) start show ?thesis by (simp add: fin)
  next
    case (DWriteBatch ops)
    let ?d1 = "snd (startOp E ''batch'' d)"
    obtain d2 e where e: "db_writeBatch E ops ?d1 = (d2, e)" by fastforce
    let ?d3 = "opTimer_finish E (fst (startOp E ''batch'' d)) e d2"
    have st': "r = RErr e" "d' = ?d3\<lparr>db_metrics := map_option (\<lambda>m. m\<lparr>m_batchSize := m_batchSize m @ [length ops]\<rparr>) (db_metrics ?d3)\<rparr>"
      using st DWriteBatch e by (auto simp: db_WriteBatch_def Let_def case_prod_unfold)
    have f: "obs_frame d d2" by (rule obs_frame_trans [OF start_obs writeBatch_obs [OF e]])
    then have m2: "db_metrics d2 = Some m" using m by (simp add: obs_frame_def)
    obtain m' where m': "db_metrics ?d3 = Some m'" "m_cacheTotal m' = m_cacheTotal m" "cache_hits ?d3 = cache_hits d2"
      "\<forall>l. m_opsTotal m' l = m_opsTotal m l + count_list [event_label (op, r)] l"
      "map fst (m_opDuration m') = map fst (m_opDuration m) @ [op_name op]"
      "m_throttled m' = m_throttled m + length (filter throttled [(op, r)])" "m_batchSize m' = m_batchSize m"
      using finish_obs [OF refl m m2, where E = E and n = "''batch''" and op = op and r = r and err = e] DWriteBatch st'(1) by auto
    have "counts m [(op, r)] (m'\<lparr>m_batchSize := m_batchSize m' @ [length ops]\<rparr>)"
      unfolding counts_def using m'(4-7) DWriteBatch by simp
    moreover have "cache_counted d \<longrightarrow> cache_counted d'"
      using m m'(1-3) f unfolding st'(2) by (simp add: cache_counted_def obs_frame_def cache_hits_def)
    ultimately have "step_counts d [(op, r)] d'" using m m'(1) st'(2) by (simp add: step_counts_def)
    with DWriteBatch f st'(2) show ?thesis by (simp add: fin obs_frame_def)
  next
    case DClose
    then have "db_metrics d' = db_metrics d \<and> cache_hits d' = cache_hits d \<and> db_closed d'"
      using st by (auto simp: db_Close_def Let_def with_pebble_def cache_hits_def split: prod.splits if_splits)
    with DClose show ?thesis by (auto simp: step_counts_def cache_counted_def counts_refl)
  next
    case DSweep
    then have "obs_frame d d'"
      using st by (auto simp: db_sweep_def db_now_def obs_frame_def cache_hits_def split: option.splits)
    with DSweep step_counts_frame show ?thesis by (auto simp: obs_frame_def)
  next
    case (DSample a)
    then have "obs_frame d d'" using st by (auto simp: db_memSample_def obs_frame_def cache_hits_def split: if_splits)
    then show ?thesis using DSample step_counts_frame [of d d'] by (simp add: obs_frame_def)
  qed
qed

section \<open>Properties\<close>

text \<open>
  C36. The metrics of a handle tell the truth: after any history of calls on a handle opened with metrics, the
  operation counter has, for every operation and result, the number of calls of that operation with that result (a
  \<open>PutSync\<close> that is refused because the handle is closed or the key empty is not counted), the latency histogram one
  observation for each, the throttle counter the number of calls refused by the full queue, the batch histogram the
  sizes of the batches, and the cache counters are the hits and misses of the cache itself.
\<close>

theorem metrics_count_operations:
  assumes "db_Open E cfg = Inr d" and "c_Metrics cfg" and "db_run E ops d = (d', t)"
  shows "\<exists>m. db_metrics d' = Some m
    \<and> (\<forall>l. m_opsTotal m l = count_list (map event_label (observed False t)) l)
    \<and> map fst (m_opDuration m) = map (op_name \<circ> fst) (observed False t)
    \<and> m_throttled m = length (filter throttled (observed False t))
    \<and> m_batchSize m = batch_sizes (observed False t)
    \<and> (\<forall>c. db_hotCache d' = Some c \<longrightarrow>
        tl_hits c = int (m_cacheTotal m ''hit'') \<and> tl_misses c = int (m_cacheTotal m ''miss''))"
proof -
  have run: "step_counts d (observed (db_closed d) t) d'" if "db_run E ops d = (d', t)" "db_metrics d \<noteq> None" for d ops t
    using that
  proof (induction ops arbitrary: d t)
    case Nil
    then show ?case by (auto intro: step_counts_frame)
  next
    case (Cons op ops)
    obtain d1 r where 1: "db_step E op d = (d1, r)" by fastforce
    obtain t' where 2: "db_run E ops d1 = (d', t')" "t = (op, r) # t'" using Cons.prems(1) 1 by (auto split: prod.splits)
    obtain m where m: "db_metrics d = Some m" using Cons.prems(2) by blast
    note s = db_step_counts [OF m 1]
    then have "db_metrics d1 \<noteq> None" using m by (auto simp: step_counts_def)
    from step_counts_trans [OF s [THEN conjunct1] Cons.IH [OF 2(1) this]] show ?case
      by (simp add: 2(2) s [THEN conjunct2] split: if_splits)
  qed
  have fresh: "db_metrics d = Some newMetrics" "\<not> db_closed d" "cache_counted d"
  proof -
    obtain p where d: "d = \<lparr>db_hotCache = hot_cache_of (applyDefaults cfg),
        db_queue = wq_New \<lparr>qc_MaxLen = c_MaxQueueLen (applyDefaults cfg), qc_MaxMemMB = c_MaxMemMB (applyDefaults cfg),
          qc_BatchSize = c_BatchCommitSize (applyDefaults cfg)\<rparr> p,
        db_cfg = applyDefaults cfg, db_closed = False,
        db_metrics = (if c_Metrics (applyDefaults cfg) then Some newMetrics else None), db_tick = 0, db_chans = 0\<rparr>"
      using assms(1) unfolding db_Open_def Let_def by (auto split: if_splits sum.splits)
    have "c_Metrics (applyDefaults cfg)" using assms(2) by (simp add: applyDefaults_def)
    then show "db_metrics d = Some newMetrics" "\<not> db_closed d" by (simp_all add: d)
    moreover have "cache_hits d = None \<or> cache_hits d = Some (0, 0)"
      by (simp add: d cache_hits_def hot_cache_of_def tl_New_def Let_def)
    ultimately show "cache_counted d" by (simp add: cache_counted_def newMetrics_def)
  qed
  from run [OF assms(3)] fresh obtain m where m: "db_metrics d' = Some m" "counts newMetrics (observed False t) m" "cache_counted d'"
    by (auto simp: step_counts_def)
  then show ?thesis
    by (auto simp: counts_def newMetrics_def cache_counted_def cache_hits_def)
qed

text \<open>Witness: a refused synchronous write, a batch, closing, a refused read.\<close>

theorem metrics_count_operations_witness:
  "\<exists>d d' t m. db_Open mem_platform (example_db_cfg\<lparr>c_Metrics := True\<rparr>) = Inr d
    \<and> db_run mem_platform [DPutSync [] [1], DWriteBatch [\<lparr>kp_Key = [1], kp_Value = [7], kp_Delete = False\<rparr>], DClose, DGet [1]] d
      = (d', t)
    \<and> db_metrics d' = Some m \<and> m_opsTotal m (''batch'', ''ok'') = 1 \<and> m_opsTotal m (''get'', ''error'') = 1
    \<and> m_opsTotal m (''put_sync'', ''error'') = 0 \<and> m_batchSize m = [1]"
proof -
  let ?cfg = "example_db_cfg\<lparr>c_Metrics := True\<rparr>"
    and ?ops = "[DPutSync [] [1], DWriteBatch [\<lparr>kp_Key = [1], kp_Value = [7], kp_Delete = False\<rparr>], DClose, DGet [1]]"
  obtain d where d: "db_Open mem_platform ?cfg = Inr d"
    by (simp add: db_Open_def example_db_cfg_def mem_platform_def Let_def)
  then have d': "\<not> db_closed d" "db_pebble d = ([], [])" "db_metrics d = Some newMetrics"
    by (auto simp: db_Open_def example_db_cfg_def mem_platform_def Let_def applyDefaults_def wq_New_def)
  obtain e t where run: "db_run mem_platform ?ops d = (e, t)" by fastforce
  then have t: "t = zip ?ops [RErr (Some ErrInvalidKey), RErr None, RErr None, RVal (Inl ErrDBClosed)]"
    using d' by (auto simp: db_PutSync_def db_WriteBatch_def db_writeBatch_def startOp_def opTimer_finish_def Let_def
        db_Close_def db_Get_def db_get_def mem_platform_def cache_delete_def with_pebble_def db_now_def
        split: option.splits)
  have "c_Metrics ?cfg" by simp
  from metrics_count_operations [OF d this run] obtain m where m: "db_metrics e = Some m"
    "\<forall>l. m_opsTotal m l = count_list (map event_label (observed False t)) l"
    "m_batchSize m = batch_sizes (observed False t)" by blast
  show ?thesis
    using d run m(1) by (intro exI conjI) (assumption, assumption, assumption,
      simp_all add: m(2,3) t event_label_def resultOf_def)
qed

end
