(* ===== verification/AdminServer.thy ===== *)
theory AdminServer
  imports AdminPages
begin

text \<open>
  The server of the admin panel (\<open>cmd/sqlitex-admin/main.go\<close>): start-up, the handlers for every endpoint with their
  status codes, and sequences of requests.  HTTP itself, the cleaning of paths by \<open>http.ServeMux\<close>, the logging of
  \<open>warnIfExposed\<close> and the JSON texts are left out.
\<close>


section \<open>Requests and responses\<close>

datatype http_method = MethodGet | MethodPost | MethodDelete | MethodOther

text \<open>
  A request, by the endpoint \<open>main\<close> registers for its path, with its query parameters: the cursor and the key are the
  texts of the parameters, empty when they are absent.  A request for the pages of the panel has no conditional and no
  range headers.
\<close>

datatype request =
    ReqUI bytes
  | ReqStats
  | ReqKeys bytes bytes "int option" "64 word option option" bool
  | ReqKey bytes
  | ReqSchema http_method bytes
  | ReqSchemaText

datatype endpoint = EpUI | EpStats | EpKeys | EpKey | EpSchema | EpSchemaText

definition route :: "string \<Rightarrow> endpoint" where
  "route path =
     (if path = ''/api/stats'' then EpStats
      else if path = ''/api/keys'' then EpKeys
      else if path = ''/api/key'' then EpKey
      else if path = ''/api/schema'' then EpSchema
      else if path = ''/schema'' then EpSchemaText
      else EpUI)"

record statsResponse =
  sr_Dir :: bytes
  sr_DiskUsageBytes :: "64 word"
  sr_LiveBytes :: "64 word"
  sr_WALSizeBytes :: "64 word"
  sr_MemTableBytes :: "64 word"
  sr_TableCount :: "64 word"
  sr_ReadOnly :: bool

record keyResponse =
  ky_hex :: bytes
  ky_print :: bytes
  ky_size :: nat
  ky_value_hex :: bytes
  ky_value_print :: bytes
  ky_truncated :: bool
  ky_decoded_key :: "decodedKey option"
  ky_decoded_value :: "decodedValue option"

datatype body =
    BodyUI bytes
  | BodyUIDir
  | BodyRedirect bytes
  | BodyStats statsResponse
  | BodyKeys keysResponse
  | BodyKey keyResponse
  | BodySchema string "tableSchema list"
  | BodyText bytes
  | BodyError go_error

record response =
  rs_Status :: nat
  rs_Body :: body

definition writeJSON :: "body \<Rightarrow> response" where
  "writeJSON v = \<lparr>rs_Status = 200, rs_Body = v\<rparr>"

definition httpError :: "nat \<Rightarrow> go_error \<Rightarrow> response" where
  "httpError code err = \<lparr>rs_Status = code, rs_Body = BodyError err\<rparr>"

record adminServer =
  as_dir :: bytes
  as_protoPath :: bytes
  as_schema :: schemaStore
  as_maxBody :: int

section \<open>The data directory\<close>

text \<open>
  What \<open>filepath.WalkDir\<close> visits: files with their size (\<open>None\<close> when \<open>Info\<close> fails) and directories with the entries that
  could be read; \<open>None\<close> is a root that cannot be read.  Every error is skipped.
\<close>

datatype fs_node = FsFile bytes "nat option" | FsDir bytes "fs_node list"

definition has_suffix :: "bytes \<Rightarrow> bytes \<Rightarrow> bool" where
  "has_suffix s suf \<longleftrightarrow> suf = drop (length s - length suf) s \<and> length suf \<le> length s"

fun sst_walk :: "fs_node \<Rightarrow> 64 word \<Rightarrow> 64 word" where
  "sst_walk (FsFile name _) n = (if has_suffix name (str_bytes ''.sst'') then n + 1 else n)"
| "sst_walk (FsDir _ entries) n = fold sst_walk entries n"

definition sstableCount :: "fs_node option \<Rightarrow> 64 word" where
  "sstableCount root = (case root of None \<Rightarrow> 0 | Some r \<Rightarrow> sst_walk r 0)"

fun size_walk :: "fs_node \<Rightarrow> 64 word \<Rightarrow> 64 word" where
  "size_walk (FsFile _ info) acc = (case info of None \<Rightarrow> acc | Some n \<Rightarrow> acc + word_of_nat n)"
| "size_walk (FsDir _ entries) acc = fold size_walk entries acc"

definition dirSize :: "fs_node option \<Rightarrow> 64 word" where
  "dirSize root =
     (let acc = (case root of None \<Rightarrow> 0 | Some r \<Rightarrow> size_walk r 0) in if acc <s 0 then 0 else acc)"

section \<open>The handlers\<close>

text \<open>
  Outside the repository: the parser of proto files, \<open>Request.FormFile\<close> on the bytes a body delivers and whether the
  reader then reports that it is too large (the result of reading the file comes with its name), \<open>os.ReadFile\<close>, the
  embedded files of the panel by their name in \<open>web/dist\<close> (what \<open>fs.Stat\<close> and \<open>Open\<close> find), and Pebble's \<open>Metrics\<close> (total size, log size, memtable size).
\<close>

datatype ui_entry = UIFile bytes | UIDir

record 'p admin_world =
  aw_parse :: "string \<Rightarrow> bytes \<Rightarrow> go_error + file_desc list"
  aw_form_file :: "bytes \<Rightarrow> bool \<Rightarrow> go_error + string \<times> (go_error + bytes)"
  aw_read_file :: "bytes \<Rightarrow> go_error + bytes"
  aw_ui :: "bytes \<Rightarrow> ui_entry option"
  aw_metrics :: "'p \<Rightarrow> 64 word \<times> 64 word \<times> 64 word"
  aw_open :: "bytes \<Rightarrow> go_error + 'p"

text \<open>The text of an error of the standard library.\<close>

fun error_text :: "go_error \<Rightarrow> string" where
  "error_text (ErrorMsg s) = s"
| "error_text (ErrorWrap s e) = s @ error_text e"
| "error_text _ = ''''"

subsection \<open>Static files\<close>

text \<open>\<open>path.Base\<close> and \<open>filepath.Base\<close>.\<close>


definition path_Base :: "bytes \<Rightarrow> bytes" where
  "path_Base p =
     (if p = [] then [46]
      else
        (let q = rev (dropWhile (\<lambda>c. c = 47) (rev p))
         in if q = [] then [47] else rev (takeWhile (\<lambda>c. c \<noteq> 47) (rev q))))"

text \<open>
  \<open>path.Clean\<close> of a rooted path, as the name the file system gets: the elements between the slashes, without the empty
  ones and \<open>"."\<close>, a \<open>".."\<close> taking back the element before it; the root is \<open>"."\<close>.
\<close>

fun path_elems :: "bytes \<Rightarrow> bytes \<Rightarrow> bytes list" where
  "path_elems acc [] = [acc]"
| "path_elems acc (c # cs) = (if c = 47 then acc # path_elems [] cs else path_elems (acc @ [c]) cs)"

definition clean_elem :: "bytes \<Rightarrow> bytes list \<Rightarrow> bytes list" where
  "clean_elem e es = (if e = [] \<or> e = [46] then es else if e = [46, 46] then butlast es else es @ [e])"

fun join_elems :: "bytes list \<Rightarrow> bytes" where
  "join_elems [] = []"
| "join_elems [e] = e"
| "join_elems (e # es) = e @ 47 # join_elems es"

definition clean_name :: "bytes \<Rightarrow> bytes" where
  "clean_name path = (let es = fold clean_elem (path_elems [] path) [] in if es = [] then [46] else join_elems es)"

text \<open>
  \<open>http.FileServer\<close> of the standard library: \<open>index.html\<close> is redirected to its directory, a directory to its path with a
  slash and a file to its path without one; a directory is answered with its \<open>index.html\<close>, or else a listing.
\<close>

definition slash :: byte where "slash = 47"
definition indexPage :: bytes where "indexPage = str_bytes ''/index.html''"

definition localRedirect :: "bytes \<Rightarrow> response" where
  "localRedirect newPath = \<lparr>rs_Status = 301, rs_Body = BodyRedirect newPath\<rparr>"

definition serveFile :: "'p admin_world \<Rightarrow> bytes \<Rightarrow> bytes \<Rightarrow> response" where
  "serveFile W url name =
     (if has_suffix url indexPage then localRedirect (str_bytes ''./'')
      else
        (case aw_ui W name of
           None \<Rightarrow> httpError 404 (ErrorMsg ''404 page not found'')
         | Some (UIFile content) \<Rightarrow>
             if last url = slash
             then (if path_Base url = [slash] \<or> path_Base url = [46]
                   then httpError 500 (ErrorMsg ''http: attempting to traverse a non-directory'')
                   else localRedirect (str_bytes ''../'' @ path_Base url))
             else \<lparr>rs_Status = 200, rs_Body = BodyUI content\<rparr>
         | Some UIDir \<Rightarrow>
             if last url \<noteq> slash then localRedirect (path_Base url @ [slash])
             else
               (case aw_ui W (if name = [46] then str_bytes ''index.html'' else name @ indexPage) of
                  Some (UIFile content) \<Rightarrow> \<lparr>rs_Status = 200, rs_Body = BodyUI content\<rparr>
                | _ \<Rightarrow> \<lparr>rs_Status = 200, rs_Body = BodyUIDir\<rparr>)))"

definition fileServer :: "'p admin_world \<Rightarrow> bytes \<Rightarrow> response" where
  "fileServer W path =
     (let url = (case path of [] \<Rightarrow> [slash] | c # _ \<Rightarrow> if c = slash then path else slash # path)
      in serveFile W url (clean_name url))"

text \<open>\<open>handleUI\<close>: a path under which there is no file becomes the entry page; then the file server answers.\<close>

definition trim_slash :: "bytes \<Rightarrow> bytes" where
  "trim_slash path = (case path of [] \<Rightarrow> [] | c # cs \<Rightarrow> if c = slash then cs else path)"

definition handleUI :: "'p admin_world \<Rightarrow> bytes \<Rightarrow> response" where
  "handleUI W path =
     (let rel = trim_slash path
      in fileServer W (if rel \<noteq> [] \<and> aw_ui W rel = None then [slash] else path))"

definition handleStats :: "'p admin_world \<Rightarrow> fs_node option \<Rightarrow> 'p \<Rightarrow> adminServer \<Rightarrow> response" where
  "handleStats W tree p srv =
     (let (live, wal, mem) = aw_metrics W p in
      writeJSON (BodyStats
        \<lparr>sr_Dir = as_dir srv, sr_DiskUsageBytes = dirSize tree, sr_LiveBytes = live, sr_WALSizeBytes = wal,
         sr_MemTableBytes = mem, sr_TableCount = sstableCount tree, sr_ReadOnly = True\<rparr>))"

definition keys_error :: "('p, 'b, 'i) platform \<Rightarrow> 'p \<Rightarrow> bytes \<Rightarrow> 64 word option option \<Rightarrow> nat" where
  "keys_error E p pre table_id =
     (case table_id of
        Some None \<Rightarrow> 400
      | Some (Some i) \<Rightarrow> (case pb_NewIter E p (encodeDataKeyPrefix i) of Inl _ \<Rightarrow> 500 | Inr _ \<Rightarrow> 400)
      | None \<Rightarrow> (case pb_NewIter E p pre of Inl _ \<Rightarrow> 500 | Inr _ \<Rightarrow> 400))"

definition serveKeys ::
  "('p, 'b, 'i) platform \<Rightarrow> float_texts \<Rightarrow> 64 word \<Rightarrow> 'p \<Rightarrow> adminServer \<Rightarrow> bytes \<Rightarrow> bytes \<Rightarrow> int option
    \<Rightarrow> 64 word option option \<Rightarrow> bool \<Rightarrow> response option" where
  "serveKeys E F now p srv cur pre lim tab decode =
     map_option (\<lambda>r. case r of Inl err \<Rightarrow> httpError (keys_error E p pre tab) err | Inr resp \<Rightarrow> writeJSON (BodyKeys resp))
       (handleKeys E F now (as_schema srv) p cur pre lim tab decode)"

definition handleKey ::
  "('p, 'b, 'i) platform \<Rightarrow> float_texts \<Rightarrow> 64 word \<Rightarrow> 'p \<Rightarrow> adminServer \<Rightarrow> bytes \<Rightarrow> response option" where
  "handleKey E F now p srv k =
     (case b64_decode k of
        None \<Rightarrow> Some (httpError 400 (ErrorMsg ''invalid key''))
      | Some kb \<Rightarrow>
          if kb = [] then Some (httpError 400 (ErrorMsg ''invalid key''))
          else
            (case pb_Get E p kb of
               Inl err \<Rightarrow> Some (httpError 500 err)
             | Inr val \<Rightarrow>
                 (let (hex, pr, tr) = truncateForDump val in
                  map_option (\<lambda>(dk, dv). writeJSON (BodyKey
                      \<lparr>ky_hex = concat (map hex_byte kb), ky_print = printable kb, ky_size = length val,
                       ky_value_hex = hex, ky_value_print = pr, ky_truncated = tr,
                       ky_decoded_key = dk, ky_decoded_value = dv\<rparr>))
                    (handleKey_decoded E F now (as_schema srv) kb val))))"

definition schema_response :: "schemaStore \<Rightarrow> response" where
  "schema_response s = (let (source, tables) = ss_snapshot s in writeJSON (BodySchema source tables))"

definition upload_name :: "string \<Rightarrow> string" where
  "upload_name filename = (if filename = '''' then ''uploaded.proto'' else filename)"

text \<open>\<open>maxBody\<close> limits the body (\<open>MaxBytesReader\<close>) and the file read from it (\<open>LimitReader\<close>).\<close>

definition handleSchemaAPI ::
  "'p admin_world \<Rightarrow> adminServer \<Rightarrow> http_method \<Rightarrow> bytes \<Rightarrow> (adminServer \<times> response) option" where
  "handleSchemaAPI W srv meth req_body =
     (let limit = nat (as_maxBody srv) in
      case meth of
        MethodGet \<Rightarrow> Some (srv, schema_response (as_schema srv))
      | MethodPost \<Rightarrow>
          (case aw_form_file W (take limit req_body) (limit < length req_body) of
             Inl err \<Rightarrow>
               Some (srv, if sublist ''request body too large'' (error_text err)
                          then httpError 413 (ErrorMsg ''request body exceeds -maxbody'')
                          else httpError 400 (ErrorWrap ''multipart field 'file' required: '' err))
           | Inr (filename, Inl err) \<Rightarrow> Some (srv, httpError 400 err)
           | Inr (filename, Inr content) \<Rightarrow>
               (let data = take limit content; name = upload_name filename
                in case importProto (aw_parse W) name data (as_schema srv) of
                     None \<Rightarrow> None
                   | Some (s', Some err) \<Rightarrow> Some (srv\<lparr>as_schema := s'\<rparr>, httpError 400 err)
                   | Some (s', None) \<Rightarrow> Some (srv\<lparr>as_schema := s'\<rparr>, schema_response s')))
      | MethodDelete \<Rightarrow>
          Some (srv\<lparr>as_schema := ss_clear (as_schema srv)\<rparr>, writeJSON (BodySchema '''' []))
      | MethodOther \<Rightarrow> Some (srv, httpError 405 (ErrorMsg ''method not allowed'')))"

definition handleSchemaText :: "'p admin_world \<Rightarrow> adminServer \<Rightarrow> response" where
  "handleSchemaText W srv =
     (if as_protoPath srv = [] then httpError 404 (ErrorMsg ''no proto file configured (-proto)'')
      else
        (case aw_read_file W (as_protoPath srv) of
           Inl err \<Rightarrow> httpError 500 err
         | Inr data \<Rightarrow> \<lparr>rs_Status = 200, rs_Body = BodyText data\<rparr>))"

section \<open>The server\<close>

definition bytes_str :: "bytes \<Rightarrow> string" where
  "bytes_str b = map (\<lambda>c. char_of (unat c)) b"

text \<open>
  \<open>main\<close> up to listening: a refused flag or an engine that does not open ends the program; a schema that cannot be read or
  imported does not.
\<close>

definition admin_start ::
  "'p admin_world \<Rightarrow> bytes \<Rightarrow> bytes \<Rightarrow> int \<Rightarrow> (go_error + 'p \<times> adminServer) option" where
  "admin_start W dir protoPath maxBody =
     (if dir = [] then Some (Inl (ErrorMsg ''usage''))
      else if maxBody \<le> 0 then Some (Inl (ErrorMsg ''invalid -maxbody: must be positive''))
      else
        (case aw_open W dir of
           Inl err \<Rightarrow> Some (Inl (ErrorWrap ''open db: '' err))
         | Inr p \<Rightarrow>
             (let srv = \<lparr>as_dir = dir, as_protoPath = protoPath, as_schema = newSchemaStore, as_maxBody = maxBody\<rparr>
              in if protoPath = [] then Some (Inr (p, srv))
                 else
                   (case aw_read_file W protoPath of
                      Inl _ \<Rightarrow> Some (Inr (p, srv))
                    | Inr data \<Rightarrow>
                        map_option (\<lambda>(s', _). Inr (p, srv\<lparr>as_schema := s'\<rparr>))
                          (importProto (aw_parse W) (bytes_str (path_Base protoPath)) data (as_schema srv))))))"

text \<open>One request, at a clock reading and with the files of that moment.  The engine is open read-only.\<close>

definition serve ::
  "('p, 'b, 'i) platform \<Rightarrow> float_texts \<Rightarrow> 'p admin_world \<Rightarrow> 'p \<Rightarrow> 64 word \<Rightarrow> fs_node option \<Rightarrow> request
    \<Rightarrow> adminServer \<Rightarrow> (adminServer \<times> response) option" where
  "serve E F W p now tree req srv =
     (case req of
        ReqUI path \<Rightarrow> Some (srv, handleUI W path)
      | ReqStats \<Rightarrow> Some (srv, handleStats W tree p srv)
      | ReqKeys cur pre lim tab decode \<Rightarrow> map_option (Pair srv) (serveKeys E F now p srv cur pre lim tab decode)
      | ReqKey k \<Rightarrow> map_option (Pair srv) (handleKey E F now p srv k)
      | ReqSchema meth b \<Rightarrow> handleSchemaAPI W srv meth b
      | ReqSchemaText \<Rightarrow> Some (srv, handleSchemaText W srv))"

fun serve_all ::
  "('p, 'b, 'i) platform \<Rightarrow> float_texts \<Rightarrow> 'p admin_world \<Rightarrow> 'p \<Rightarrow> (64 word \<times> fs_node option \<times> request) list
    \<Rightarrow> adminServer \<Rightarrow> (adminServer \<times> response list) option" where
  "serve_all E F W p [] srv = Some (srv, [])"
| "serve_all E F W p ((now, tree, req) # reqs) srv =
     (case serve E F W p now tree req srv of
        None \<Rightarrow> None
      | Some (srv', r) \<Rightarrow> map_option (\<lambda>(srv'', rs). (srv'', r # rs)) (serve_all E F W p reqs srv'))"


section \<open>What the server promises\<close>

text \<open>A file of a form is part of the body it came in.\<close>

definition form_law :: "'p admin_world \<Rightarrow> bool" where
  "form_law W \<longleftrightarrow> (\<forall>b big n c. aw_form_file W b big = Inr (n, Inr c) \<longrightarrow> length c \<le> length b)"

lemma form_lawD: "form_law W \<Longrightarrow> aw_form_file W b big = Inr (n, Inr c) \<Longrightarrow> length c \<le> length b"
  by (auto simp: form_law_def)

text \<open>
  The schema is a register of what \<open>GET\<close> shows: an upload puts what the whole file means, whatever was there before,
  \<open>DELETE\<close> empties it, nothing else writes it.
\<close>

type_synonym schema_shown = "string \<times> tableSchema list"

definition uploaded :: "'p admin_world \<Rightarrow> int \<Rightarrow> bytes \<Rightarrow> schema_shown option" where
  "uploaded W maxBody b =
     (case aw_form_file W (take (nat maxBody) b) (nat maxBody < length b) of
        Inr (filename, Inr content) \<Rightarrow>
          (case importProto (aw_parse W) (upload_name filename) content newSchemaStore of
             Some (s, None) \<Rightarrow> Some (ss_snapshot s)
           | _ \<Rightarrow> None)
      | _ \<Rightarrow> None)"

fun register :: "'p admin_world \<Rightarrow> int \<Rightarrow> request \<Rightarrow> schema_shown \<Rightarrow> schema_shown" where
  "register W maxBody (ReqSchema MethodPost b) v = (case uploaded W maxBody b of None \<Rightarrow> v | Some v' \<Rightarrow> v')"
| "register W maxBody (ReqSchema MethodDelete b) v = ('''', [])"
| "register W maxBody req v = v"

definition shows_schema :: "response \<Rightarrow> schema_shown \<Rightarrow> bool" where
  "shows_schema r v \<longleftrightarrow> r = writeJSON (BodySchema (fst v) (snd v))"

text \<open>
  The embedded files: names as \<open>fs.ValidPath\<close> has them (elements between slashes, none empty, \<open>"."\<close> or \<open>".."\<close>, or \<open>"."\<close>
  alone for the root), the root a directory, and the entry page in it.
\<close>

definition valid_name :: "bytes \<Rightarrow> bool" where
  "valid_name n \<longleftrightarrow> n = [46] \<or> (\<forall>e \<in> set (path_elems [] n). e \<noteq> [] \<and> e \<noteq> [46] \<and> e \<noteq> [46, 46])"

definition entry_page :: bytes where "entry_page = str_bytes ''index.html''"

definition ui_law :: "'p admin_world \<Rightarrow> bool" where
  "ui_law W \<longleftrightarrow> (\<forall>n. aw_ui W n \<noteq> None \<longrightarrow> valid_name n) \<and> aw_ui W [46] = Some UIDir
     \<and> (\<exists>page. aw_ui W entry_page = Some (UIFile page))"

text \<open>
  What a visitor gets: the content of the file with the name, or the entry page where there is none; \<open>index.html\<close> is
  redirected to its directory, and a directory to its path with a slash.
\<close>

definition ui_answer :: "'p admin_world \<Rightarrow> bytes \<Rightarrow> response" where
  "ui_answer W rel =
     (case if rel = [] then None else aw_ui W rel of
        None \<Rightarrow> (case aw_ui W entry_page of Some (UIFile page) \<Rightarrow> \<lparr>rs_Status = 200, rs_Body = BodyUI page\<rparr>
                  | _ \<Rightarrow> \<lparr>rs_Status = 200, rs_Body = BodyUIDir\<rparr>)
      | Some e \<Rightarrow>
          if last (path_elems [] rel) = entry_page
          then \<lparr>rs_Status = 301, rs_Body = BodyRedirect (str_bytes ''./'')\<rparr>
          else (case e of UIFile content \<Rightarrow> \<lparr>rs_Status = 200, rs_Body = BodyUI content\<rparr>
                | UIDir \<Rightarrow> \<lparr>rs_Status = 301, rs_Body = BodyRedirect (last (path_elems [] rel) @ [slash])\<rparr>))"

text \<open>The status for a refused upload: too large a body is told apart.\<close>

definition upload_status :: "'p admin_world \<Rightarrow> int \<Rightarrow> bytes \<Rightarrow> nat" where
  "upload_status W maxBody b =
     (case aw_form_file W (take (nat maxBody) b) (nat maxBody < length b) of
        Inl err \<Rightarrow> if sublist ''request body too large'' (error_text err) then 413 else 400
      | Inr _ \<Rightarrow> 400)"

fun answered :: "('p \<Rightarrow> kv_map) \<Rightarrow> 'p admin_world \<Rightarrow> adminServer \<Rightarrow> 'p \<Rightarrow> request \<Rightarrow> response \<Rightarrow> schema_shown \<Rightarrow> bool" where
  "answered view W srv p (ReqSchema MethodGet b) r v = shows_schema r v"
| "answered view W srv p (ReqSchema MethodPost b) r v =
     (case uploaded W (as_maxBody srv) b of None \<Rightarrow> rs_Status r = upload_status W (as_maxBody srv) b | Some v' \<Rightarrow> shows_schema r v')"
| "answered view W srv p (ReqSchema MethodDelete b) r v = shows_schema r ('''', [])"
| "answered view W srv p (ReqSchema MethodOther b) r v = (rs_Status r = 405)"
| "answered view W srv p (ReqKeys cur pre lim tab decode) r v =
     (rs_Status r = (if cursor_key cur = None \<or> tab = Some None then 400 else 200))"
| "answered view W srv p (ReqKey k) r v =
     (rs_Status r =
       (case b64_decode k of
          None \<Rightarrow> 400
        | Some kb \<Rightarrow> if kb = [] then 400 else if view p kb = None then 500 else 200))"
| "answered view W srv p ReqSchemaText r v =
     (if as_protoPath srv = [] then rs_Status r = 404
      else (case aw_read_file W (as_protoPath srv) of Inr data \<Rightarrow> r = \<lparr>rs_Status = 200, rs_Body = BodyText data\<rparr> | Inl _ \<Rightarrow> rs_Status r = 500))"
| "answered view W srv p (ReqUI path) r v = (r = ui_answer W (trim_slash path))"
| "answered view W srv p ReqStats r v = (rs_Status r = 200)"

definition same_server :: "adminServer \<Rightarrow> adminServer \<Rightarrow> bool" where
  "same_server srv srv' \<longleftrightarrow> as_dir srv' = as_dir srv \<and> as_protoPath srv' = as_protoPath srv \<and> as_maxBody srv' = as_maxBody srv"

lemma import_fresh:
  "importProto parse n d s = Some (s', None) \<longleftrightarrow> importProto parse n d newSchemaStore = Some (s', None)"
  by (auto simp: importProto_def Let_def split: sum.splits)

lemma schema_ok_new: "schema_ok newSchemaStore"
  by (simp add: schema_ok_def ss_table_def newSchemaStore_def)

lemma path_elems_nonempty [simp]: "path_elems acc n \<noteq> []"
  by (induction acc n rule: path_elems.induct) simp_all

lemma join_elems_Cons: "es \<noteq> [] \<Longrightarrow> join_elems (e # es) = e @ 47 # join_elems es"
  by (cases es) simp_all

lemma join_path_elems: "join_elems (path_elems acc n) = acc @ n"
  by (induction acc n rule: path_elems.induct) (simp_all add: join_elems_Cons)

lemma fold_clean: "\<forall>e \<in> set es. e \<noteq> [] \<and> e \<noteq> [46] \<and> e \<noteq> [46, 46] \<Longrightarrow> fold clean_elem es acc = acc @ es"
  by (induction es arbitrary: acc) (auto simp: clean_elem_def)

lemma clean_valid: "valid_name n \<Longrightarrow> clean_name (47 # n) = n"
proof -
  assume v: "valid_name n"
  show ?thesis
  proof (cases "n = [46]")
    case False
    with v have "fold clean_elem (path_elems [] n) [] = path_elems [] n"
      using fold_clean [of "path_elems [] n" "[]"] by (simp add: valid_name_def)
    moreover have "clean_elem [] [] = []" by (simp add: clean_elem_def)
    ultimately show ?thesis using join_path_elems [of "[]" n] by (simp add: clean_name_def)
  qed (simp add: clean_name_def clean_elem_def)
qed

lemma takeWhile_no_slash: "47 \<notin> set cs \<Longrightarrow> takeWhile (\<lambda>c. c \<noteq> 47) (rev cs) = rev cs"
  by (rule takeWhile_eq_all_conv [THEN iffD2]) (metis set_rev)

lemma last_path_elem: "last (path_elems acc n) = (if 47 \<in> set n then [] else acc) @ rev (takeWhile (\<lambda>c. c \<noteq> 47) (rev n))"
proof (induction acc n rule: path_elems.induct)
  case (2 acc c cs)
  show ?case
  proof (cases "47 \<in> set cs")
    case True
    then have "takeWhile (\<lambda>c. c \<noteq> 47) (rev cs @ [c]) = takeWhile (\<lambda>c. c \<noteq> 47) (rev cs)"
      by (intro takeWhile_append1 [of 47]) auto
    with 2 True show ?thesis by simp
  next
    case False
    then have "takeWhile (\<lambda>c. c \<noteq> 47) (rev cs @ [c]) = rev cs @ (if c = 47 then [] else [c])"
      by (subst takeWhile_append2) auto
    with 2 False show ?thesis using takeWhile_no_slash [OF False]
      by (simp del: takeWhile_eq_all_conv)
  qed
qed simp

lemma last_elem: "last (path_elems [] n) = rev (takeWhile (\<lambda>c. c \<noteq> 47) (rev n))"
  by (simp add: last_path_elem)

lemma valid_last:
  assumes "valid_name n" shows "n \<noteq> []" and "last n \<noteq> 47"
proof -
  have "last (path_elems [] n) \<noteq> []"
  proof (cases "n = [46]")
    case False
    with assms have "\<forall>e \<in> set (path_elems [] n). e \<noteq> []" by (simp add: valid_name_def)
    then show ?thesis using last_in_set [OF path_elems_nonempty] by blast
  qed simp
  then have ne: "takeWhile (\<lambda>c. c \<noteq> 47) (rev n) \<noteq> []" by (simp add: last_elem)
  then show "n \<noteq> []" by auto
  then obtain m c where "n = m @ [c]" by (cases n rule: rev_cases) auto
  with ne show "last n \<noteq> 47" by (simp split: if_splits)
qed

lemma base_elem: "valid_name n \<Longrightarrow> path_Base (47 # n) = last (path_elems [] n)"
proof -
  assume v: "valid_name n"
  obtain m c where n: "n = m @ [c]" "c \<noteq> 47" using valid_last [OF v] by (cases n rule: rev_cases) auto
  have "takeWhile (\<lambda>c. c \<noteq> 47) (c # rev m @ [47]) = takeWhile (\<lambda>c. c \<noteq> 47) (c # rev m)"
    by (simp add: takeWhile_tail)
  with n show ?thesis by (simp add: path_Base_def last_elem)
qed

lemma suffix_elem:
  assumes e: "47 \<notin> set e" shows "has_suffix (47 # n) (47 # e) \<longleftrightarrow> last (path_elems [] n) = e"
proof -
  have suf: "has_suffix s t \<longleftrightarrow> (\<exists>x. s = x @ t)" for s t
    unfolding has_suffix_def by (metis append_take_drop_id diff_diff_cancel length_append length_drop le_add2 append_eq_conv_conj add_diff_cancel_right')
  have "(\<exists>x. 47 # n = x @ 47 # e) \<longleftrightarrow> rev (takeWhile (\<lambda>c. c \<noteq> 47) (rev n)) = e"
  proof
    assume "\<exists>x. 47 # n = x @ 47 # e"
    then consider "n = e" | y where "n = y @ 47 # e" by (auto simp: Cons_eq_append_conv)
    then show "rev (takeWhile (\<lambda>c. c \<noteq> 47) (rev n)) = e"
    proof cases
      case 1
      then show ?thesis using takeWhile_no_slash [OF e] by (simp del: takeWhile_eq_all_conv)
    next
      case 2
      have "takeWhile (\<lambda>c. c \<noteq> 47) (rev e @ 47 # rev y) = rev e" using e by (subst takeWhile_append2) auto
      with 2 show ?thesis by simp
    qed
  next
    assume a: "rev (takeWhile (\<lambda>c. c \<noteq> 47) (rev n)) = e"
    have "rev n = rev e @ dropWhile (\<lambda>c. c \<noteq> 47) (rev n)" using a by (metis rev_rev_ident takeWhile_dropWhile_id)
    then have n: "n = rev (dropWhile (\<lambda>c. c \<noteq> 47) (rev n)) @ e" by (metis rev_append rev_rev_ident)
    show "\<exists>x. 47 # n = x @ 47 # e"
    proof (cases "dropWhile (\<lambda>c. c \<noteq> 47) (rev n)")
      case Nil
      with n show ?thesis by auto
    next
      case (Cons c cs)
      have "\<not> hd (dropWhile (\<lambda>c. c \<noteq> 47) (rev n)) \<noteq> 47" by (rule hd_dropWhile) (simp add: Cons)
      then have "c = 47" by (simp add: Cons)
      with n Cons have "47 # n = (47 # rev cs) @ 47 # e" by simp
      then show ?thesis by blast
    qed
  qed
  then show ?thesis by (simp add: suf last_elem)
qed

lemma trim_url:
  "(case path of [] \<Rightarrow> [slash] | c # _ \<Rightarrow> if c = slash then path else slash # path) = slash # trim_slash path"
  by (cases path) (simp_all add: trim_slash_def)

lemma index_suffix: "has_suffix (slash # rel) indexPage \<longleftrightarrow> last (path_elems [] rel) = entry_page"
  using suffix_elem [of entry_page rel] by (simp add: indexPage_def entry_page_def slash_def str_bytes_def)

lemma handleUI_answer: "ui_law W \<Longrightarrow> handleUI W path = ui_answer W (trim_slash path)"
proof -
  assume W: "ui_law W"
  then obtain page where page: "aw_ui W entry_page = Some (UIFile page)" and root: "aw_ui W [46] = Some UIDir"
    by (auto simp: ui_law_def)
  let ?rel = "trim_slash path"
  have "fileServer W [slash] = \<lparr>rs_Status = 200, rs_Body = BodyUI page\<rparr>"
    using page root index_suffix [of "[]"]
    by (simp add: fileServer_def serveFile_def clean_name_def clean_elem_def slash_def entry_page_def str_bytes_def)
  moreover have "fileServer W path = fileServer W [slash]" if "?rel = []"
    using trim_url [of path] that by (simp add: fileServer_def)
  moreover have "fileServer W path = ui_answer W ?rel" if e: "?rel \<noteq> []" "aw_ui W ?rel = Some e" for e
  proof -
    have v: "valid_name ?rel" using W e(2) by (auto simp: ui_law_def)
    have facts: "clean_name (slash # ?rel) = ?rel" "last (slash # ?rel) \<noteq> slash"
      "path_Base (slash # ?rel) = last (path_elems [] ?rel)"
      using clean_valid [OF v] valid_last [OF v] base_elem [OF v] by (simp_all add: slash_def)
    show ?thesis
      unfolding fileServer_def trim_url Let_def serveFile_def ui_answer_def localRedirect_def index_suffix facts(1,3)
      using facts(2) e by (auto split: ui_entry.split)
  qed
  ultimately show ?thesis using page by (cases "aw_ui W ?rel") (auto simp: handleUI_def ui_answer_def Let_def)
qed

lemma serve_schema:
  assumes s: "schema_ok (as_schema srv)"
    and law: "form_law W"
  shows "\<exists>srv' r. handleSchemaAPI W srv meth b = Some (srv', r) \<and> same_server srv srv' \<and> schema_ok (as_schema srv')
    \<and> ss_snapshot (as_schema srv') = register W (as_maxBody srv) (ReqSchema meth b) (ss_snapshot (as_schema srv))
    \<and> answered view W srv p (ReqSchema meth b) r (ss_snapshot (as_schema srv))"
proof (cases meth)
  case MethodPost
  let ?limit = "nat (as_maxBody srv)"
  let ?form = "aw_form_file W (take ?limit b) (?limit < length b)"
  show ?thesis
  proof (cases ?form)
    case (Inl err)
    then show ?thesis using s MethodPost
      by (simp add: handleSchemaAPI_def Let_def uploaded_def upload_status_def same_server_def httpError_def)
  next
    case (Inr f)
    obtain filename got where f: "f = (filename, got)" by fastforce
    show ?thesis
    proof (cases got)
      case (Inl err)
      then show ?thesis using s MethodPost Inr f
        by (simp add: handleSchemaAPI_def Let_def uploaded_def upload_status_def same_server_def httpError_def)
    next
      case content: (Inr content)
      have all: "take ?limit content = content"
        using form_lawD [OF law, of "take ?limit b" "?limit < length b" filename content] Inr f content by simp
      let ?name = "upload_name filename"
      let ?import = "importProto (aw_parse W) ?name content"
      obtain s' err where i: "?import (as_schema srv) = Some (s', err)" using importProto_total by fastforce
      have up: "uploaded W (as_maxBody srv) b = (case err of None \<Rightarrow> Some (ss_snapshot s') | Some _ \<Rightarrow> None)"
      proof (cases err)
        case None
        then have "?import newSchemaStore = Some (s', None)" using i import_fresh by blast
        then show ?thesis using Inr f content None by (simp add: uploaded_def)
      next
        case (Some e)
        obtain s2 err2 where i2: "?import newSchemaStore = Some (s2, err2)" using importProto_total by fastforce
        then have "err2 \<noteq> None"
          using i Some import_fresh [of "aw_parse W" ?name content "as_schema srv" s2] by auto
        then show ?thesis using i2 Inr f content Some by (auto simp: uploaded_def)
      qed
      show ?thesis
      proof (cases err)
        case None
        then show ?thesis using i up schema_ok_import [OF s i] MethodPost Inr f content all
          by (simp add: handleSchemaAPI_def Let_def same_server_def schema_response_def shows_schema_def case_prod_unfold)
      next
        case (Some e)
        then show ?thesis using i up importProto_failed [OF i] s MethodPost Inr f content all
          by (simp add: handleSchemaAPI_def Let_def upload_status_def same_server_def httpError_def)
      qed
    qed
  qed
qed (use s schema_ok_new in \<open>simp_all add: handleSchemaAPI_def Let_def same_server_def schema_response_def shows_schema_def
      case_prod_unfold ss_clear_def ss_snapshot_def newSchemaStore_def writeJSON_def httpError_def\<close>)

lemma serve_step:
  assumes s: "schema_ok (as_schema srv)"
    and law: "form_law W" and ui: "ui_law W"
    and it: "iter_laws E view snap pos" and reads: "reads_ok E view"
  shows "\<exists>srv' r. serve E F W p now tree req srv = Some (srv', r) \<and> same_server srv srv' \<and> schema_ok (as_schema srv')
    \<and> ss_snapshot (as_schema srv') = register W (as_maxBody srv) req (ss_snapshot (as_schema srv))
    \<and> answered view W srv p req r (ss_snapshot (as_schema srv))"
proof (cases req)
  case (ReqSchema meth b)
  then show ?thesis using serve_schema [OF s law, where meth = meth and b = b and view = view and p = p] by (simp add: serve_def)
next
  case (ReqKeys cur pre lim tab decode)
  let ?bad = "cursor_key cur = None \<or> tab = Some None"
  have new: "\<exists>it. pb_NewIter E p l = Inr it" for l using iter_laws_new [OF it] by blast
  have lim: "0 < page_limit lim" using page_limit_bounds [of lim] by simp
  have "\<exists>r. handleKeys E F now (as_schema srv) p cur pre lim tab decode = Some r
      \<and> (if ?bad then keys_error E p pre tab = 400 \<and> (\<exists>e. r = Inl e) else \<exists>resp. r = Inr resp)"
  proof (cases ?bad)
    case True
    have "keys_error E p pre tab = 400"
      using new [of pre] new [of "encodeDataKeyPrefix (the (the tab))"] by (auto simp: keys_error_def split: option.split)
    moreover have "\<exists>e. handleKeys E F now (as_schema srv) p cur pre lim tab decode = Some (Inl e)"
    proof (cases "tab = Some None")
      case False
      with True have "cursor_key cur = None" by simp
      moreover obtain it where "pb_NewIter E p (page_prefix tab pre) = Inr it" using new by blast
      ultimately show ?thesis by (simp add: handleKeys_eq [OF False] handleKeysPhysical_bad)
    qed (simp add: handleKeys_def Let_def)
    ultimately show ?thesis using True by auto
  next
    case False
    then obtain c where "cursor_key cur = Some c" by auto
    with False show ?thesis
      using handleKeysPhysical_eq [OF it s _ lim, of cur c F now p "page_prefix tab pre" decode]
        handleKeys_eq [of tab E F now "as_schema srv" p cur pre lim decode] by simp
  qed
  then obtain r where r: "handleKeys E F now (as_schema srv) p cur pre lim tab decode = Some r"
    "if ?bad then keys_error E p pre tab = 400 \<and> (\<exists>e. r = Inl e) else \<exists>resp. r = Inr resp" by blast
  then show ?thesis using ReqKeys s
    by (auto simp: serve_def serveKeys_def same_server_def httpError_def writeJSON_def split: if_splits)
next
  case (ReqKey k)
  have get: "pb_Get E p kb = (case view p kb of None \<Rightarrow> Inl ErrNotFound | Some v \<Rightarrow> Inr v)" for kb
    using reads by (simp add: reads_ok_def)
  show ?thesis
  proof (cases "b64_decode k = None \<or> b64_decode k = Some []")
    case True
    then show ?thesis using s ReqKey by (auto simp: serve_def handleKey_def same_server_def httpError_def)
  next
    case False
    then obtain kb where k: "b64_decode k = Some kb" "kb \<noteq> []" by auto
    show ?thesis
    proof (cases "view p kb")
      case None
      then show ?thesis using s ReqKey k get by (simp add: serve_def handleKey_def same_server_def httpError_def)
    next
      case (Some v)
      obtain x where "handleKey_decoded E F now (as_schema srv) kb v = Some x" using handleKey_total [OF s, of E F now kb v] by blast
      then show ?thesis using s ReqKey k get Some
        by (simp add: serve_def handleKey_def same_server_def writeJSON_def case_prod_unfold Let_def)
    qed
  qed
next
  case (ReqUI path)
  then show ?thesis using s handleUI_answer [OF ui] by (simp add: serve_def same_server_def)
qed (use s in \<open>auto simp: serve_def same_server_def writeJSON_def httpError_def handleStats_def handleSchemaText_def
      case_prod_unfold Let_def split: sum.splits\<close>)

text \<open>The statistics: sizes add up, and the sum is exact below \<open>2 ^ 63\<close> bytes.\<close>

fun fs_size :: "fs_node \<Rightarrow> nat" where
  "fs_size (FsFile _ info) = (case info of None \<Rightarrow> 0 | Some n \<Rightarrow> n)"
| "fs_size (FsDir _ entries) = sum_list (map fs_size entries)"

lemma size_walk_eq: "size_walk t acc = acc + word_of_nat (fs_size t)"
proof (induction t arbitrary: acc)
  case (FsDir name entries)
  have "fold size_walk es acc = acc + word_of_nat (sum_list (map fs_size es))" if "set es \<subseteq> set entries" for es acc
    using that by (induction es arbitrary: acc) (simp_all add: FsDir)
  from this [of entries] show ?case by simp
qed (simp split: option.split)

lemma dirSize_exact: "fs_size t < 2 ^ 63 \<Longrightarrow> unat (dirSize (Some t)) = fs_size t"
proof -
  assume lt: "fs_size t < 2 ^ 63"
  let ?w = "word_of_nat (fs_size t) :: 64 word"
  have u: "unat ?w = fs_size t" using lt by (simp add: unat_of_nat)
  have "sint ?w = int (fs_size t)"
    using lt by (simp add: signed_of_nat signed_take_bit_int_eq_self)
  then have "\<not> ?w <s 0" by (simp add: word_sless_alt)
  with u show ?thesis by (simp add: dirSize_def size_walk_eq)
qed

section \<open>Properties\<close>

fun run_answered ::
  "('p \<Rightarrow> kv_map) \<Rightarrow> 'p admin_world \<Rightarrow> adminServer \<Rightarrow> 'p \<Rightarrow> request list \<Rightarrow> response list \<Rightarrow> schema_shown \<Rightarrow> bool" where
  "run_answered view W srv p [] [] v = True"
| "run_answered view W srv p (req # reqs) (r # rs) v =
     (answered view W srv p req r v \<and> run_answered view W srv p reqs rs (register W (as_maxBody srv) req v))"
| "run_answered view W srv p _ _ v = False"

lemma same_answered: "same_server srv srv' \<Longrightarrow> answered view W srv' p req r v = answered view W srv p req r v"
  by (cases "(view, W, srv, p, req, r, v)" rule: answered.cases) (auto simp: same_server_def split: option.splits)

lemma same_run_answered: "same_server srv srv' \<Longrightarrow> run_answered view W srv' p reqs rs v = run_answered view W srv p reqs rs v"
proof (induction reqs arbitrary: rs v)
  case Nil
  then show ?case by (cases rs) simp_all
next
  case (Cons req reqs)
  then show ?case by (cases rs) (simp_all add: same_answered, simp add: same_server_def)
qed

text \<open>
  C37. The panel answers every request: after a successful start, no sequence of requests, with whatever clock readings and
  directory contents, makes a handler panic.  Each is answered with the status its parameters call for: 400 for a cursor or
  a key that is no base64 text or decodes to nothing, and for a table id that is no number; 413 or 400 for a refused upload,
  405 for another method; 404 where no proto file is configured; the pages of the panel as the file server gives them, with
  the entry page for every path under which there is no file and redirects for \<open>index.html\<close> and directories.  The schema
  behaves as a register: \<open>GET\<close> shows what the last accepted upload means (of the complete file, though the body is
  limited) or nothing after \<open>DELETE\<close>, a refused upload leaves it, and no other request changes it.
\<close>

theorem admin_answers_requests:
  assumes "admin_start W dir protoPath maxBody = Some (Inr (p, srv))"
    and "form_law W" and "ui_law W"
    and "iter_laws E view snap pos" and "reads_ok E view"
  shows "\<exists>srv' rs. serve_all E F W p reqs srv = Some (srv', rs)
    \<and> run_answered view W srv p (map (snd \<circ> snd) reqs) rs (ss_snapshot (as_schema srv))
    \<and> ss_snapshot (as_schema srv') = fold (register W maxBody) (map (snd \<circ> snd) reqs) (ss_snapshot (as_schema srv))
    \<and> same_server srv srv'"
proof -
  have start: "schema_ok (as_schema srv) \<and> as_maxBody srv = maxBody"
    using assms(1) schema_ok_import [OF schema_ok_new] schema_ok_new
    by (auto simp: admin_start_def Let_def split: if_splits sum.splits)
  have "\<exists>srv' rs. serve_all E F W p reqs srv = Some (srv', rs)
      \<and> run_answered view W srv p (map (snd \<circ> snd) reqs) rs (ss_snapshot (as_schema srv))
      \<and> ss_snapshot (as_schema srv') = fold (register W (as_maxBody srv)) (map (snd \<circ> snd) reqs) (ss_snapshot (as_schema srv))
      \<and> same_server srv srv'" if "schema_ok (as_schema srv)" for srv
    using that
  proof (induction reqs arbitrary: srv)
    case (Cons q reqs)
    obtain now tree req where q: "q = (now, tree, req)" by (cases q)
    obtain srv1 r where 1: "serve E F W p now tree req srv = Some (srv1, r)" "same_server srv srv1" "schema_ok (as_schema srv1)"
      "ss_snapshot (as_schema srv1) = register W (as_maxBody srv) req (ss_snapshot (as_schema srv))"
      "answered view W srv p req r (ss_snapshot (as_schema srv))"
      using serve_step [OF Cons.prems assms(2-5)] by blast
    have same: "as_maxBody srv1 = as_maxBody srv" using 1(2) by (simp add: same_server_def)
    obtain srv' rs where 2: "serve_all E F W p reqs srv1 = Some (srv', rs)"
      "run_answered view W srv p (map (snd \<circ> snd) reqs) rs (ss_snapshot (as_schema srv1))"
      "ss_snapshot (as_schema srv') = fold (register W (as_maxBody srv)) (map (snd \<circ> snd) reqs) (ss_snapshot (as_schema srv1))"
      "same_server srv1 srv'"
      using Cons.IH [OF 1(3)] unfolding same_run_answered [OF 1(2)] same by blast
    have "same_server srv srv'" using 1(2) 2(4) by (simp add: same_server_def)
    with 1 2 show ?case by (simp add: q comp_def)
  qed (simp add: same_server_def)
  with start show ?thesis by blast
qed

text \<open>
  Witness: an upload with the descriptors of the test package, a look at it, an unknown key, a cursor of a line feed,
  \<open>/index.html\<close>, \<open>/x\<close> and clearing.
\<close>

definition example_world :: "mem_store admin_world" where
  "example_world =
     \<lparr>aw_parse = testmodels_parse, aw_form_file = (\<lambda>b big. if big then Inl (ErrorMsg ''http: request body too large'') else Inr (''t.proto'', Inr b)),
      aw_read_file = (\<lambda>f. Inl (ErrorMsg ''no such file'')), aw_ui = [[46] \<mapsto> UIDir, entry_page \<mapsto> UIFile [60]],
      aw_metrics = (\<lambda>p. (0, 0, 0)), aw_open = (\<lambda>d. Inr ([], []))\<rparr>"

theorem admin_answers_requests_witness:
  "\<exists>srv srv' rs v. admin_start example_world [47] [] 4 = Some (Inr (([], []), srv))
    \<and> serve_all mem_platform no_floats example_world ([], []) (map (\<lambda>q. (0, None, q))
        [ReqSchema MethodPost [1, 2], ReqSchema MethodPost [1, 2, 3, 4, 5], ReqSchema MethodGet [], ReqKey (b64_encode [9]),
         ReqKeys [10] [] None None False, ReqUI (slash # entry_page), ReqUI [slash, 120], ReqSchema MethodDelete []]) srv = Some (srv', rs)
    \<and> shows_schema (rs ! 2) v \<and> fst v = ''t.proto'' \<and> length (snd v) = 2 \<and> rs_Status (rs ! 3) = 500
    \<and> rs_Status (rs ! 4) = 400 \<and> rs_Status (rs ! 5) = 301 \<and> rs ! 6 = \<lparr>rs_Status = 200, rs_Body = BodyUI [60]\<rparr>
    \<and> ss_snapshot (as_schema srv') = ('''', [])"
proof -
  let ?W = "example_world" and ?p = "([], []) :: mem_store"
  let ?reqs = "[ReqSchema MethodPost [1, 2], ReqSchema MethodPost [1, 2, 3, 4, 5], ReqSchema MethodGet [], ReqKey (b64_encode [9]),
         ReqKeys [10] [] None None False, ReqUI (slash # entry_page), ReqUI [slash, 120], ReqSchema MethodDelete []]"
  let ?srv = "\<lparr>as_dir = [47], as_protoPath = [], as_schema = newSchemaStore, as_maxBody = 4\<rparr>"
  have start: "admin_start ?W [47] [] 4 = Some (Inr (?p, ?srv))" by (simp add: admin_start_def example_world_def)
  have law: "form_law ?W" by (simp add: form_law_def example_world_def)
  have names: "path_elems [] entry_page = [entry_page]" "path_elems [] [46] = [[46]]"
    by (simp_all add: entry_page_def str_bytes_def)
  have page: "entry_page \<noteq> []" "entry_page \<noteq> [46]" "entry_page \<noteq> [46, 46]" by (simp_all add: entry_page_def str_bytes_def)
  have ui: "ui_law ?W" using page by (auto simp: ui_law_def valid_name_def names example_world_def split: if_splits)
  have answers: "rs_Status (ui_answer ?W entry_page) = 301"
    "ui_answer ?W [120] = \<lparr>rs_Status = 200, rs_Body = BodyUI [60]\<rparr>"
    using page by (auto simp: ui_answer_def names example_world_def entry_page_def str_bytes_def)
  obtain s' where s': "importProto testmodels_parse ''t.proto'' [1, 2] newSchemaStore = Some (s', None)" "ss_source s' = ''t.proto''"
    "length (ss_list s') = 2"
  proof -
    obtain s' where s': "importProto testmodels_parse ''t.proto'' [1, 2] newSchemaStore = Some (s', None)" "ss_source s' = ''t.proto''"
      "map buildTableSchema [user_table, session_table] = map Some (ss_list s')"
      using importProto_tables [where parse = testmodels_parse and filename = "''t.proto''" and src = "[1, 2]" and s = newSchemaStore,
          OF testmodels_parse_eq] by blast
    have "length (ss_list s') = 2" using map_eq_imp_length_eq [OF s'(3)] by simp
    with s'(1,2) that show ?thesis by blast
  qed
  have up: "uploaded ?W 4 [1, 2] = Some (ss_snapshot s')" "uploaded ?W 4 [1, 2, 3, 4, 5] = None"
    by (simp_all add: uploaded_def example_world_def upload_name_def s'(1))
  have view: "mem_view ?p [9] = None" by (simp add: mem_view_def)
  obtain srv' rs where run: "serve_all mem_platform no_floats ?W ?p (map (\<lambda>q. (0, None, q)) ?reqs) ?srv = Some (srv', rs)"
    "run_answered mem_view ?W ?srv ?p ?reqs rs (ss_snapshot newSchemaStore)"
    "ss_snapshot (as_schema srv') = ('''', [])"
    using admin_answers_requests [OF start law ui mem_iter_laws mem_reads_ok, of no_floats "map (\<lambda>q. (0, None, q)) ?reqs"]
    by auto
  obtain r0 r1 r2 r3 r4 r5 r6 r7 where rs: "rs = [r0, r1, r2, r3, r4, r5, r6, r7]"
    using run(2) by (auto simp: run_answered.simps elim!: run_answered.elims)
  have cur: "cursor_key [10] = None" by (simp add: cursor_key_def b64_decode_def)
  have "shows_schema r2 (ss_snapshot s') \<and> rs_Status r3 = 500 \<and> rs_Status r4 = 400 \<and> rs_Status r5 = 301
      \<and> r6 = \<lparr>rs_Status = 200, rs_Body = BodyUI [60]\<rparr>"
    using run(2) up view cur answers by (simp add: rs trim_slash_def)
  then show ?thesis using start run(1,3) s' by (intro exI [of _ ?srv] exI [of _ srv'] exI [of _ rs] exI [of _ "ss_snapshot s'"])
      (simp add: rs ss_snapshot_def)
qed

end
