(* ===== verification/Spec2Isabelle.thy ===== *)
theory Spec2Isabelle
  imports Encoding WritePool DB SessionQueries Mock AdminPages GenExpiry MockStores OutputGen Demo Metrics AdminServer
begin

text \<open>
  SQLiteX: a table layer over the Pebble storage engine, in Go, and the generator of its typed code.

  The program.  An application declares tables in a proto file; the generator
  (\<open>internal/codegen\<close>) turns every annotated message into a Go record with a serializer, a store, a query
  builder and a mock.  A store keeps each record under a data key and, per indexed field, an index key
  (\<open>internal/encoding\<close>); it writes both in one atomic batch through the database handle (\<open>db.go\<close>).  The
  handle answers reads from a bounded cache of hot keys (\<open>internal/cache\<close>) or from the engine, sends
  single writes through a queue with one consumer (\<open>internal/writequeue\<close>), and iterates over prefixes.  The
  generated file \<open>internal/testmodels/User_sqlitex.go\<close> is the reference instance of the templates.  An admin tool
  (\<open>cmd/sqlitex-admin\<close>) shows the keys and values of a database.

  Conventions.  A Go string or byte slice is a list of bytes; integers are words of their width; a
  result with an error is a sum with the error on the left; an option around it is \<open>None\<close> where the Go code
  panics or does not end.  Numbers inside error texts are left out.  State is passed explicitly.  Pebble, the
  file system, the clock and zstd are the fields of a record \<open>platform\<close>; what the repository relies
  on is stated as \<open>engine_laws\<close>, \<open>reads_ok\<close> and \<open>writes_ok\<close> (no disk error), \<open>iter_laws\<close> (iterators over a
  snapshot) and \<open>zstd_laws\<close>, all satisfied by the in-memory platforms the witnesses run on.

  The theories, each named after the part it models:

  \<^item> \<open>Prelude\<close>, \<open>GoBytes\<close>, \<open>Platform\<close>: errors, byte strings, fixed-width and variable-length integers, slices
    and hashes of the standard library, the parameters and their laws.
  \<^item> \<open>Encoding\<close> (\<open>encode.go\<close>): the physical keys.  They decode to what they were built from; their byte
    order is the numeric order; index prefixes match exactly the keys of their value.
  \<^item> \<open>Sketch\<close>, \<open>TinyLFU\<close> (\<open>tinylfu.go\<close>): the frequency sketch and the cache, with the map, the list
    and the byte counter as in the code.  The three agree in every history, the bytes stay within the limit,
    a value is served until its time to live ends.  Each call is one step (\<open>Get\<close> on an expired entry changes from the
    read lock to the write lock in between).
  \<^item> \<open>WriteQueue\<close> (\<open>queue.go\<close>): the queue as functions and as a step relation in which submitters, the
    consumer, \<open>Stop\<close> and the memory monitor interleave.  Accepted writes are in exactly one place, handled in
    order and answered; the consumer answers without a \<open>Stop\<close>, and nothing hangs.  The functions are runs of the relation.
  \<^item> \<open>WritePool\<close> (\<open>queue.go\<close>, \<open>db.submit\<close>): the same queue over pooled operations on a heap, with smaller steps.  No
    operation is shared by two calls, no answer blocks, and a call returns the result of its own write.
  \<^item> \<open>DB\<close> (\<open>options.go\<close>, \<open>db.go\<close>, \<open>metrics.go\<close>, \<open>backup.go\<close>): the handle.  Any history of an opened handle answers
    as a plain map, so the cache is invisible; batches are atomic; a scan visits exactly the entries of its
    prefix.  The queue over the engine is linearizable.  A read that overlaps a write is shown to
    leave an old value in the cache.
  \<^item> \<open>Metrics\<close> (\<open>metrics.go\<close>): gauges and exposition; the counters are what the results of the calls say.
  \<^item> \<open>Serial\<close>, \<open>Models\<close>: the statements of the generated serializers, and the two records of the test package.
  \<^item> \<open>Table\<close>, \<open>Store\<close>: the invariant that ties data keys to index keys, proved once for any layout in the
    locale \<open>indexed_table\<close>, and the stores of users (unique email) and sessions (expiry), which refine
    abstract tables.
  \<^item> \<open>Query\<close>, \<open>UserQueries\<close>, \<open>SessionQueries\<close>: the query builders, what a query returns and in which order,
    that paging ends and misses nothing.  A condition means what \<open>docs/api.md\<close> says of its operator (\<open>op_means\<close>, on bytes
    and on numbers); the properties cover the operators that the code has for the type of the field.  The documented
    \<open>>\<close>, \<open>>=\<close>, \<open><\<close> and \<open><=\<close> on text fields are not among them: a query with one is shown to find nothing.
  \<^item> \<open>Mock\<close>: the mock stores, and when they agree with the stores.
  \<^item> \<open>IR\<close> (\<open>ir.go\<close>): from descriptors to tables: options, types, primary key, indexes, time to live, table ids.
    Accepted tables are well-formed; their ids are hashes of the proto package and the name.
  \<^item> \<open>SerializerGen\<close> (\<open>serializer.go\<close>): the data of the serializer template and an interpreter of the code
    it emits.  The emitted code round-trips for every accepted table, and for the descriptors of the test
    package it is the code of \<open>Models\<close>.
  \<^item> \<open>StoreGen\<close>, \<open>GenTables\<close>, \<open>GenExpiry\<close> (\<open>store.go\<close>): the data of the store template and the emitted methods as functions of
    it.  For the test package they are the methods of \<open>Store\<close>; for every accepted table
    they refine a table with unique columns, and with a time to live one whose rows expire; an expired row is shown to
    refuse its unique values until it is removed.
  \<^item> \<open>QueryGen\<close>, \<open>GenQueries\<close> (\<open>query.go\<close>): the same for the query template: agreement with the test package, and
    what a query of any accepted table returns, by the documented meaning of the operators the templates support and
    where the index it runs on can serve it (\<open>index_usable\<close>); an indexed equality on a byte-slice field is shown to miss its
    rows.
  \<^item> \<open>MockGen\<close>, \<open>MockStores\<close> (\<open>mock.go\<close>): the emitted mocks over a heap of records and slices, with the aliasing
    the code has.  A client that writes to its own objects between the calls cannot change what a mock answers;
    mock and store agree on the histories described by \<open>fair\<close>.
  \<^item> \<open>OutputGen\<close> (\<open>generator.go\<close>, \<open>preamble.go\<close>): parameters, the sections of a request and how their package
    lines, imports and bodies become one file.
  \<^item> \<open>DemoFile\<close> (\<open>example/demo/User_sqlitex.go\<close>): a translation of the generated demo file, function by function;
    \<open>DemoGen\<close>: each of them is, on all inputs, what the generator emits for the messages of \<open>example/demo.proto\<close>.
  \<^item> \<open>Demo\<close> (\<open>example/main.go\<close>): tables in one store do not touch each other; table ids do not depend on
    \<open>go_package\<close>; what the example program prints about its users.
  \<^item> \<open>Admin\<close> (\<open>cmd/sqlitex-admin/schema.go\<close>): import of a schema, decoding of keys and stored values.  What the
    panel shows of a row is the row; decoding never panics.
  \<^item> \<open>Base64\<close>: the standard encoding, in which the panel shows keys and takes cursors, and that it decodes to
    what it was built from.
  \<^item> \<open>AdminPages\<close> (\<open>cmd/sqlitex-admin/main.go\<close>): the paged key list and the view of one key; following the cursors
    ends and shows every key once.  A cursor is a base64 text, the empty one the end of the list.
  \<^item> \<open>AdminServer\<close> (the same file): start-up, every handler with its status codes, and sequences of requests: none
    panics, and the schema is a register that accepted uploads and \<open>DELETE\<close> write.  The pages of the panel
    come from the file server of the standard library, its redirects and its listings of directories
    included; that its files have proper names and the entry page exists is \<open>ui_law\<close>.

  Interfaces.  \<open>hot_cache\<close> (what the handle needs of the cache), \<open>putter\<close> (what the queue needs of the
  store below it), \<open>kv_handle\<close> (what the stores need of the handle) and \<open>indexed_table\<close> (what the stores and
  queries need of a layout) are locales, each interpreted on the model's own definitions.

  Loops and bounds.  Loops over lists and over an iterator's snapshot are recursive with a termination
  proof, except the loop over a Pebble iterator, \<open>it_for\<close>, which is a partial function: that it ends is part of
  each property about scans.  Paging (\<open>user_pages\<close>) takes a number of pages as fuel; the property states
  that as many pages as there are matching users, plus one, suffice.  The sketch's bounds hold before
  the first decay, after 1,000,000 increments.  Lengths of fields are below \<open>2 ^ 32\<close> where the 32-bit prefix
  matters.  A query's clock readings agree on what has expired (\<open>steady\<close>).

  Templates.  A template is modelled by the functions its output computes, defined on the data the Go code passes to
  it; a record of a table is a map from field names to values, and an emitted file that does not compile has no
  functions (\<open>compiles\<close>, \<open>mock_compiles\<close>).  How \<open>text/template\<close> prints the text is a parameter of \<open>OutputGen\<close>
  (\<open>section_texts\<close>), and so are the iteration order of a Go map (\<open>map_order\<close>) and the text of a floating-point number
  (\<open>float_texts\<close>).

  Not modelled: protobuf descriptors and the decoding of their options (generated code and the protobuf runtime) and
  the plugin's \<open>main\<close>; the HTTP plumbing of the admin tool (request parsing, conditional and range requests, the cleaning of
  paths by the multiplexer), its JSON texts and its address warning; the
  benchmark program, whose results are times; the session part of the example program; the registration of metrics
  with Prometheus.  Reads and deletions of a table with a time
  to live are proved on an engine whose writes succeed, and for the session store on any engine.
\<close>

end
